(* ===== verification/Prelude.thy ===== *)
theory Prelude
  imports Complex_Main "HOL-Library.Multiset" "HOL-Library.List_Lexorder" "HOL-Library.Product_Lexorder"
begin

text \<open>
  Shared vocabulary of the development: errors as values (\<open>errors.py\<close>), the
  result type of every fallible operation with its bind, Python text as lists of code points,
  fallible loops, stable sorting, and the list facts the components share.

  A Python \<open>str\<close> is a list of Unicode code points, modelled as a list of \<open>nat\<close>;
  its order is the lexicographic one, as Python's is. \<open>U\<close> turns an ASCII literal into such a
  list. A Python exception is a value of \<open>error\<close>; its message is kept, except that values
  interpolated into it (identifiers, counts, file names) are left out.
\<close>

named_theorems result_simps \<open>simplification of fallible computations\<close>
named_theorems to_dict_simps \<open>dictionary views of records\<close>

subsection \<open>Errors and results\<close>

datatype error =
    ValidationError string
  | InputFormatError string
  | ConflictError string
  | CheckLimitError string
  | RuntimeError string
  | ValueError string

type_synonym 'a result = "error + 'a"

fun rbind :: "'a result \<Rightarrow> ('a \<Rightarrow> 'b result) \<Rightarrow> 'b result" where
  "rbind (Inl e) f = Inl e"
| "rbind (Inr x) f = f x"

definition require :: "bool \<Rightarrow> string \<Rightarrow> unit result" where
  "require b msg = (if b then Inr () else Inl (ValidationError msg))"

definition is_ok :: "'a result \<Rightarrow> bool" where
  "is_ok r \<longleftrightarrow> (case r of Inl _ \<Rightarrow> False | Inr _ \<Rightarrow> True)"

lemma is_ok_simps [simp]: "is_ok (Inr x)" "\<not> is_ok (Inl e)"
  by (simp_all add: is_ok_def)

lemma is_ok_iff: "is_ok r \<longleftrightarrow> (\<exists>x. r = Inr x)"
  by (cases r) auto

lemma rbind_Inr_iff [simp, result_simps]:
  "rbind m f = Inr y \<longleftrightarrow> (\<exists>x. m = Inr x \<and> f x = Inr y)"
  by (cases m) auto

lemma rbind_Inl_iff: "rbind m f = Inl e \<longleftrightarrow> m = Inl e \<or> (\<exists>x. m = Inr x \<and> f x = Inl e)"
  by (cases m) auto

lemma rbind_assoc: "rbind (rbind m f) g = rbind m (\<lambda>x. rbind (f x) g)"
  by (cases m) simp_all

lemma rbindE: "rbind m f = Inr y \<Longrightarrow> (\<And>x. m = Inr x \<Longrightarrow> f x = Inr y \<Longrightarrow> P) \<Longrightarrow> P"
  by (cases m) simp_all

lemma rbind_cong [fundef_cong]:
  assumes "m = m'" and "\<And>x. m' = Inr x \<Longrightarrow> f x = g x"
  shows "rbind m f = rbind m' g"
  using assms by (cases m') auto

lemma require_Inr_iff [simp, result_simps]: "require b msg = Inr u \<longleftrightarrow> b"
  by (simp add: require_def)

lemma require_True [simp]: "require True msg = Inr ()"
  by (simp add: require_def)

lemma require_False [simp]: "require False msg = Inl (ValidationError msg)"
  by (simp add: require_def)

text \<open>A loop that collects one result per item and stops at the first error.\<close>

fun rmap :: "('a \<Rightarrow> 'b result) \<Rightarrow> 'a list \<Rightarrow> 'b list result" where
  "rmap f [] = Inr []"
| "rmap f (x # xs) = rbind (f x) (\<lambda>y. rbind (rmap f xs) (\<lambda>ys. Inr (y # ys)))"

text \<open>A loop that threads a state and stops at the first error.\<close>

fun rfold :: "('s \<Rightarrow> 'a \<Rightarrow> 's result) \<Rightarrow> 's \<Rightarrow> 'a list \<Rightarrow> 's result" where
  "rfold f s [] = Inr s"
| "rfold f s (x # xs) = rbind (f s x) (\<lambda>s'. rfold f s' xs)"

lemma rmap_cong [fundef_cong]:
  assumes "xs = ys" and "\<And>x. x \<in> set ys \<Longrightarrow> f x = g x"
  shows "rmap f xs = rmap g ys"
proof -
  have "(\<And>x. x \<in> set ys \<Longrightarrow> f x = g x) \<Longrightarrow> rmap f ys = rmap g ys"
    by (induction ys) auto
  then show ?thesis using assms by simp
qed

lemma rmap_Inr_iff: "rmap f xs = Inr ys \<longleftrightarrow> list_all2 (\<lambda>x y. f x = Inr y) xs ys"
proof (induction xs arbitrary: ys)
  case Nil
  show ?case by auto
next
  case (Cons x xs)
  then show ?case by (cases ys) auto
qed

lemma rmap_map_Inr [simp]: "(\<And>x. x \<in> set xs \<Longrightarrow> f x = Inr (g x)) \<Longrightarrow> rmap f xs = Inr (map g xs)"
  by (induction xs) auto

lemma rmap_length: "rmap f xs = Inr ys \<Longrightarrow> length ys = length xs"
  by (auto simp: rmap_Inr_iff dest: list_all2_lengthD)

lemma rmap_Inr_map:
  assumes "rmap f xs = Inr ys" and "\<And>x y. x \<in> set xs \<Longrightarrow> f x = Inr y \<Longrightarrow> y = g x"
  shows "ys = map g xs"
  using assms by (auto simp: rmap_Inr_iff list_all2_conv_all_nth list_eq_iff_nth_eq)

lemma rmap_inverse:
  assumes "rmap f xs = Inr ys" and "\<And>x y. x \<in> set xs \<Longrightarrow> f x = Inr y \<Longrightarrow> g y = x"
  shows "map g ys = xs"
  using assms by (induction xs arbitrary: ys) auto

lemma rmap_Inr_elem:
  assumes "rmap f xs = Inr ys" and "x \<in> set xs"
  shows "\<exists>y \<in> set ys. f x = Inr y"
  using assms by (induction xs arbitrary: ys) auto

lemma rmap_Inr_elem_rev:
  assumes "rmap f xs = Inr ys" and "y \<in> set ys"
  shows "\<exists>x \<in> set xs. f x = Inr y"
  using assms by (induction xs arbitrary: ys) auto

lemma rmap_total: "(\<And>x. x \<in> set xs \<Longrightarrow> \<exists>y. f x = Inr y) \<Longrightarrow> \<exists>ys. rmap f xs = Inr ys"
proof (induction xs)
  case (Cons x xs)
  then obtain y ys where "f x = Inr y" "rmap f xs = Inr ys"
    by (metis list.set_intros)
  then show ?case by simp
qed simp

lemma rfold_append: "rfold f s (xs @ ys) = rbind (rfold f s xs) (\<lambda>t. rfold f t ys)"
proof (induction xs arbitrary: s)
  case (Cons x xs)
  then show ?case by (cases "f s x") auto
qed simp

lemma rfold_invariant:
  assumes "rfold f s xs = Inr t" and "P s"
    and "\<And>s x s'. x \<in> set xs \<Longrightarrow> P s \<Longrightarrow> f s x = Inr s' \<Longrightarrow> P s'"
  shows "P t"
  using assms
proof (induction xs arbitrary: s)
  case (Cons x xs)
  then obtain s' where s': "f s x = Inr s'" "rfold f s' xs = Inr t" by auto
  have "P s'"
    by (rule Cons.prems(3) [of x s]) (use Cons.prems(2) s' in simp_all)
  then show ?case
    using Cons.IH [OF s'(2)] Cons.prems(3) by (metis list.set_intros(2))
qed simp

subsection \<open>Text\<close>

type_synonym ustr = "nat list"
type_synonym bytes = "nat list"

definition U :: "string \<Rightarrow> ustr" where
  "U s = map of_char s"

lemma inj_of_char_nat: "inj (of_char :: char \<Rightarrow> nat)"
  by (rule injI) simp

lemma U_eq_iff [simp]: "U a = U b \<longleftrightarrow> a = b"
  unfolding U_def by (rule inj_map_eq_map [OF inj_of_char_nat])

lemma U_Nil_iff [simp]: "U s = [] \<longleftrightarrow> s = []" "[] = U s \<longleftrightarrow> s = []"
  by (auto simp: U_def)

lemma length_U [simp]: "length (U s) = length s"
  by (simp add: U_def)

lemma U_append: "U (a @ b) = U a @ U b"
  by (simp add: U_def)

text \<open>The code points Python's \<open>str.isspace\<close> accepts, and \<open>str.strip\<close>.\<close>

definition is_space :: "nat \<Rightarrow> bool" where
  "is_space c \<longleftrightarrow> (9 \<le> c \<and> c \<le> 13) \<or> (28 \<le> c \<and> c \<le> 32) \<or> c = 133 \<or> c = 160 \<or> c = 5760
     \<or> (8192 \<le> c \<and> c \<le> 8202) \<or> c = 8232 \<or> c = 8233 \<or> c = 8239 \<or> c = 8287 \<or> c = 12288"

definition strip :: "ustr \<Rightarrow> ustr" where
  "strip s = rev (dropWhile is_space (rev (dropWhile is_space s)))"

definition stripped :: "ustr \<Rightarrow> bool" where
  "stripped s \<longleftrightarrow> (s = [] \<or> (\<not> is_space (hd s) \<and> \<not> is_space (last s)))"

lemma strip_stripped: "stripped s \<Longrightarrow> strip s = s"
  by (cases "s = []")
    (auto simp: stripped_def strip_def hd_rev dropWhile_eq_self_iff [THEN iffD2])

lemma set_strip: "set (strip s) \<subseteq> set s"
  by (auto simp: strip_def dest!: set_dropWhileD)

lemma last_dropWhile: "dropWhile P xs \<noteq> [] \<Longrightarrow> last (dropWhile P xs) = last xs"
  by (metis last_append takeWhile_dropWhile_id)

lemma stripped_strip: "stripped (strip s)"
proof (cases "strip s = []")
  case False
  let ?d = "dropWhile is_space s"
  have d: "dropWhile is_space (rev ?d) \<noteq> []"
    using False by (simp add: strip_def)
  then have "\<not> is_space (hd (dropWhile is_space (rev ?d)))"
    by (rule hd_dropWhile)
  moreover have "last (dropWhile is_space (rev ?d)) = hd ?d"
    using d by (simp add: last_dropWhile last_rev)
  moreover have nd: "?d \<noteq> []" using d by (metis dropWhile.simps(1) rev.simps(1))
  moreover have "\<not> is_space (hd ?d)" using nd by (rule hd_dropWhile)
  ultimately show ?thesis
    using False by (simp add: stripped_def strip_def hd_rev last_rev)
qed (simp add: stripped_def)

lemma strip_fix_iff [simp]: "s = strip s \<longleftrightarrow> stripped s" "strip s = s \<longleftrightarrow> stripped s"
  by (metis strip_stripped stripped_strip)+

lemma strip_idem [simp]: "strip (strip s) = strip s"
  by (rule strip_stripped) (rule stripped_strip)

subsection \<open>Stable sorting and membership\<close>

text \<open>Python's \<open>sorted(set(xs))\<close>.\<close>

definition sorted_set :: "'a::linorder list \<Rightarrow> 'a list" where
  "sorted_set xs = sort (remdups xs)"

lemma set_sorted_set [simp]: "set (sorted_set xs) = set xs"
  by (simp add: sorted_set_def)

lemma distinct_sorted_set [simp]: "distinct (sorted_set xs)"
  by (simp add: sorted_set_def)

lemma sorted_sorted_set [simp]: "sorted (sorted_set xs)"
  by (simp add: sorted_set_def)

lemma sorted_set_cong: "set xs = set ys \<Longrightarrow> sorted_set xs = sorted_set ys"
  by (metis distinct_sorted_set set_sorted_set sorted_distinct_set_unique sorted_sorted_set)

lemma distinct_map_sort_key [simp]: "distinct (map f (sort_key g xs)) \<longleftrightarrow> distinct (map f xs)"
  by (metis distinct_map distinct_sort set_sort)

lemma sort_key_perm_eq:
  assumes "mset xs = mset ys" and "inj_on f (set xs)"
  shows "sort_key f xs = sort_key f ys"
proof (rule map_inj_on)
  have "mset (map f (sort_key f xs)) = mset (map f (sort_key f ys))"
    using assms(1) by simp
  then show "map f (sort_key f xs) = map f (sort_key f ys)"
    by (metis properties_for_sort sorted_sort_key)
next
  have "set ys = set xs" using assms(1) by (metis set_mset_mset)
  then show "inj_on f (set (sort_key f xs) \<union> set (sort_key f ys))"
    using assms(2) by simp
qed

lemma sort_key_append:
  assumes "\<And>x y. x \<in> set xs \<Longrightarrow> y \<in> set ys \<Longrightarrow> f x < f y"
  shows "sort_key f (xs @ ys) = sort_key f xs @ sort_key f ys"
  using assms
proof (induction xs)
  case (Cons x xs)
  have "insort_key f x (as @ sort_key f ys) = insort_key f x as @ sort_key f ys" for as
  proof (induction as)
    case Nil
    have "\<forall>y \<in> set (sort_key f ys). f x \<le> f y" using Cons.prems [of x] by (auto simp: less_imp_le)
    then show ?case by (cases "sort_key f ys") auto
  qed auto
  with Cons show ?case by simp
qed simp

lemma sort_key_sorted: "sorted (map f xs) \<Longrightarrow> sort_key f xs = xs"
  by (induction xs) (simp_all add: insort_is_Cons)

lemma sort_key_Nil [simp]: "sort_key f xs = [] \<longleftrightarrow> xs = []"
  by (metis length_0_conv length_sort)

lemma map_of_sort_key:
  assumes "distinct (map fst kvs)"
  shows "map_of (sort_key f kvs) = map_of kvs"
  using assms by (intro map_of_inject_set [THEN iffD2]) simp_all

subsection \<open>Bit lengths\<close>

text \<open>Python's \<open>int.bit_length\<close> on non-negative integers.\<close>

function bit_length :: "int \<Rightarrow> nat" where
  "bit_length n = (if n \<le> 0 then 0 else Suc (bit_length (n div 2)))"
  by pat_completeness auto
termination
  by (relation "measure nat") auto

declare bit_length.simps [simp del]

lemma bit_length_0 [simp]: "n \<le> 0 \<Longrightarrow> bit_length n = 0"
  by (simp add: bit_length.simps)

lemma bit_length_pos [simp]: "0 < bit_length n \<longleftrightarrow> 0 < n"
  by (simp add: bit_length.simps [of n])

lemma bit_length_upper: "n < 2 ^ bit_length n"
proof (induction n rule: bit_length.induct)
  case (1 n)
  show ?case
  proof (cases "n \<le> 0")
    case False
    with 1 have "n div 2 < 2 ^ bit_length (n div 2)" by simp
    with False show ?thesis by (simp add: bit_length.simps [of n])
  qed simp
qed

lemma bit_length_lower: "0 < n \<Longrightarrow> 2 ^ (bit_length n - 1) \<le> n"
proof (induction n rule: bit_length.induct)
  case (1 n)
  show ?case
  proof (cases "n div 2 \<le> 0")
    case True
    with 1(2) have "bit_length n = 1" by (simp add: bit_length.simps [of n])
    with 1(2) show ?thesis by simp
  next
    case False
    with 1 have le: "2 ^ (bit_length (n div 2) - 1) \<le> n div 2" by simp
    from False obtain k where k: "bit_length (n div 2) = Suc k"
      by (metis bit_length_pos gr0_implies_Suc not_le)
    with le 1(2) show ?thesis by (simp add: bit_length.simps [of n])
  qed
qed

end
