(* ===== verification/PyFloat.thy ===== *)
theory PyFloat
  imports Prelude
begin

text \<open>
  Python floats. A finite double is the rational number it denotes; \<open>fl\<close> rounds an exact
  result to the nearest double, ties to even, with 53 significant bits and the smallest exponent
  \<open>-1074\<close>, so an arithmetic operation of the source is \<open>fl\<close> of the exact operation.
  Overflow is not part of \<open>fl\<close>: every sum, product and quotient the modelled code forms
  from finite inputs stays below the largest double, and conversions that can overflow
  (\<open>float(int)\<close>) test for it where they are modelled. \<open>stable_float\<close> is
  \<open>_stable_float\<close> of models.py, \<open>round(value, 12)\<close>. The lemmas show that
  rounding is monotone, odd, exact on doubles and therefore keeps every interval whose ends are
  doubles; the engine's range checks rest on them.
\<close>

subsection \<open>Floor of the binary logarithm\<close>

definition ilog2 :: "rat \<Rightarrow> int" where
  "ilog2 x = (let (p, q) = quotient_of x;
                  k = int (bit_length p) - int (bit_length q)
              in if 2 powi k \<le> x then k else k - 1)"

lemma powi_nat: "(2::rat) powi int n = 2 ^ n"
  by (simp add: power_int_def)

lemma powi2_pos [simp]: "0 < (2::rat) powi k"
  by simp

lemma powi2_mono: "i \<le> j \<Longrightarrow> (2::rat) powi i \<le> 2 powi j"
  by (rule power_int_increasing) simp_all

lemma powi2_less_iff [simp]: "(2::rat) powi i < 2 powi j \<longleftrightarrow> i < j"
  by (meson linorder_not_le one_less_numeral_iff power_int_strict_increasing powi2_mono semiring_norm(76))

lemma powi2_le_iff [simp]: "(2::rat) powi i \<le> 2 powi j \<longleftrightarrow> i \<le> j"
  by (meson linorder_not_le powi2_less_iff powi2_mono)

lemma powi2_div: "(2::rat) powi i / 2 powi j = 2 powi (i - j)"
  by (simp add: power_int_diff)

lemma powi2_mult: "(2::rat) powi i * 2 powi j = 2 powi (i + j)"
  by (simp add: power_int_add)

lemma powi2_nat: "0 \<le> k \<Longrightarrow> (2::rat) powi k = of_int (2 ^ nat k)"
  by (simp add: power_int_def)

lemma bit_length_bounds:
  assumes "0 < n"
  shows "(2::rat) powi (int (bit_length n) - 1) \<le> of_int n" "of_int n < (2::rat) powi int (bit_length n)"
proof -
  have nonneg: "0 \<le> int (bit_length n) - 1"
    using bit_length_pos [of n] assms by linarith
  have "(2::rat) powi (int (bit_length n) - 1) = of_int (2 ^ (bit_length n - 1))"
    using nonneg by (simp add: power_int_def nat_diff_distrib)
  also have "\<dots> \<le> of_int n"
    using bit_length_lower [OF assms] by (simp only: of_int_le_iff)
  finally show "(2::rat) powi (int (bit_length n) - 1) \<le> of_int n" .
  have "of_int n < (of_int (2 ^ bit_length n) :: rat)"
    using bit_length_upper [of n] by (simp only: of_int_less_iff)
  then show "of_int n < (2::rat) powi int (bit_length n)"
    by (simp add: powi_nat)
qed

lemma ilog2_bounds:
  assumes "0 < x"
  shows "2 powi ilog2 x \<le> x" "x < 2 powi (ilog2 x + 1)"
proof -
  obtain p q where pq: "quotient_of x = (p, q)" by (cases "quotient_of x")
  then have q: "0 < q" and x: "x = of_int p / of_int q"
    by (simp_all add: quotient_of_denom_pos quotient_of_div)
  with assms have p: "0 < p" by (simp add: zero_less_divide_iff)
  let ?a = "int (bit_length p)" and ?b = "int (bit_length q)"
  have P: "2 powi (?a - 1) \<le> (of_int p :: rat)" "of_int p < (2::rat) powi ?a"
    and Q: "2 powi (?b - 1) \<le> (of_int q :: rat)" "of_int q < (2::rat) powi ?b"
    using bit_length_bounds [OF p] bit_length_bounds [OF q] by simp_all
  have qpos: "0 < (of_int q :: rat)" using q by simp
  have "x < 2 powi ?a / 2 powi (?b - 1)"
    unfolding x using P(2) Q(1) p by (intro frac_less) simp_all
  then have "x < 2 powi (?a - (?b - 1))" by (simp only: powi2_div)
  then have up: "x < 2 powi (?a - ?b + 1)" by (simp add: algebra_simps)
  have "2 powi (?a - 1) / 2 powi ?b < x"
    unfolding x using P(1) Q(2) qpos by (intro frac_less2) simp_all
  then have "2 powi (?a - 1 - ?b) < x" by (simp only: powi2_div)
  then have low: "2 powi (?a - ?b - 1) < x" by (simp add: algebra_simps)
  have def: "ilog2 x = (if 2 powi (?a - ?b) \<le> x then ?a - ?b else ?a - ?b - 1)"
    by (simp add: ilog2_def pq Let_def)
  show "2 powi ilog2 x \<le> x" "x < 2 powi (ilog2 x + 1)"
    using up low by (auto simp: def)
qed

lemma ilog2_mono:
  assumes "0 < x" "x \<le> y"
  shows "ilog2 x \<le> ilog2 y"
proof (rule ccontr)
  assume "\<not> ?thesis"
  then have "(2::rat) powi (ilog2 y + 1) \<le> 2 powi ilog2 x" by simp
  moreover have "2 powi ilog2 x \<le> x" "y < 2 powi (ilog2 y + 1)"
    using ilog2_bounds [of x] ilog2_bounds [of y] assms by simp_all
  ultimately show False using assms(2) by linarith
qed

subsection \<open>Rounding to the nearest integer, ties to even\<close>

definition rnd_even :: "rat \<Rightarrow> int" where
  "rnd_even x = (let f = \<lfloor>x\<rfloor>; d = x - of_int f
                 in if d < 1/2 then f else if 1/2 < d then f + 1 else if even f then f else f + 1)"

lemma rnd_even_of_int [simp]: "rnd_even (of_int i) = i"
  by (simp add: rnd_even_def)

lemma rnd_even_0 [simp]: "rnd_even 0 = 0"
  using rnd_even_of_int [of 0] by simp

lemma rnd_even_error: "\<bar>of_int (rnd_even x) - x\<bar> \<le> 1/2"
proof -
  have "of_int \<lfloor>x\<rfloor> \<le> x" "x < of_int \<lfloor>x\<rfloor> + 1" by linarith+
  then show ?thesis unfolding rnd_even_def Let_def by (simp split: if_split)
qed

lemma rnd_even_unique: "\<bar>of_int n - x\<bar> < 1/2 \<Longrightarrow> rnd_even x = n"
proof -
  assume "\<bar>of_int n - x\<bar> < 1/2"
  moreover have "\<bar>of_int (rnd_even x) - x\<bar> \<le> 1/2" by (rule rnd_even_error)
  ultimately have "\<bar>of_int (rnd_even x) - of_int n :: rat\<bar> < 1" by linarith
  then show ?thesis by linarith
qed

lemma rnd_even_mono:
  assumes "x \<le> y" shows "rnd_even x \<le> rnd_even y"
proof (cases "\<lfloor>x\<rfloor> = \<lfloor>y\<rfloor>")
  case True
  with assms show ?thesis by (auto simp: rnd_even_def Let_def)
next
  case False
  with assms have "\<lfloor>x\<rfloor> + 1 \<le> \<lfloor>y\<rfloor>" using floor_mono [OF assms] by linarith
  moreover have "rnd_even x \<le> \<lfloor>x\<rfloor> + 1" "\<lfloor>y\<rfloor> \<le> rnd_even y"
    by (auto simp: rnd_even_def Let_def)
  ultimately show ?thesis by linarith
qed

lemma rnd_even_minus: "rnd_even (- x) = - rnd_even x"
proof (cases "x = of_int \<lfloor>x\<rfloor>")
  case True
  then show ?thesis by (metis of_int_minus rnd_even_of_int)
next
  case False
  then have f: "\<lfloor>- x\<rfloor> = - \<lfloor>x\<rfloor> - 1"
    by linarith
  show ?thesis
    unfolding rnd_even_def Let_def f by auto
qed

subsection \<open>Rounding to a double\<close>

definition fl_exponent :: "rat \<Rightarrow> int" where
  "fl_exponent x = max (ilog2 x - 52) (- 1074)"

definition fl :: "rat \<Rightarrow> rat" where
  "fl x = (if x = 0 then 0
           else let e = fl_exponent \<bar>x\<bar> in of_int (rnd_even (x / 2 powi e)) * 2 powi e)"

definition is_double :: "rat \<Rightarrow> bool" where
  "is_double x \<longleftrightarrow> fl x = x"

lemma fl_0 [simp]: "fl 0 = 0"
  by (simp add: fl_def)

lemma fl_minus: "fl (- x) = - fl x"
  by (simp add: fl_def Let_def rnd_even_minus)

lemma fl_representable:
  assumes x: "x = of_int m * 2 powi e" and m: "\<bar>m\<bar> < 2 ^ 53" and e: "- 1074 \<le> e"
  shows "fl x = x"
proof (cases "x = 0")
  case False
  let ?k = "ilog2 \<bar>x\<bar>" and ?e = "fl_exponent \<bar>x\<bar>"
  have "2 powi ?k \<le> \<bar>x\<bar>" using ilog2_bounds(1) [of "\<bar>x\<bar>"] False by simp
  also have "\<bar>x\<bar> = \<bar>of_int m\<bar> * 2 powi e" by (simp add: x abs_mult)
  also have "\<dots> < 2 powi 53 * 2 powi e"
  proof (rule mult_strict_right_mono)
    have "(of_int \<bar>m\<bar> :: rat) < of_int (2 ^ 53)" using m by (simp only: of_int_less_iff)
    then show "\<bar>of_int m\<bar> < (2::rat) powi 53" by simp
  qed simp
  finally have "(2::rat) powi ?k < 2 powi (53 + e)" by (simp add: power_int_add)
  then have "?k < 53 + e" by (simp only: powi2_less_iff)
  with e have le: "?e \<le> e" by (simp add: fl_exponent_def)
  have "x / 2 powi ?e = of_int m * (2 powi e / 2 powi ?e)" by (simp add: x)
  also have "\<dots> = of_int m * of_int (2 ^ nat (e - ?e))"
    using le by (simp only: powi2_div powi2_nat [of "e - ?e"] diff_ge_0_iff_ge)
  finally have q: "x / 2 powi ?e = of_int (m * 2 ^ nat (e - ?e))" by simp
  have "fl x = of_int (rnd_even (x / 2 powi ?e)) * 2 powi ?e"
    using False by (simp add: fl_def Let_def)
  also have "\<dots> = x / 2 powi ?e * 2 powi ?e" by (simp only: q rnd_even_of_int)
  finally show ?thesis by simp
qed simp

text \<open>The result of rounding is a double: its significand has at most 53 bits.\<close>

lemma is_double_fl: "is_double (fl x)"
proof (cases "x = 0")
  case False
  let ?e = "fl_exponent \<bar>x\<bar>" and ?k = "ilog2 \<bar>x\<bar>"
  let ?n = "rnd_even (x / 2 powi ?e)"
  have e: "- 1074 \<le> ?e" "?k + 1 - ?e \<le> 53" by (simp_all add: fl_exponent_def)
  have fl: "fl x = of_int ?n * 2 powi ?e" using False by (simp add: fl_def Let_def)
  have "\<bar>x\<bar> / 2 powi ?e \<le> 2 powi (?k + 1) / 2 powi ?e"
    using ilog2_bounds(2) [of "\<bar>x\<bar>"] False by (intro divide_right_mono) simp_all
  also have "\<dots> \<le> 2 powi 53" unfolding powi2_div using e(2) by (rule powi2_mono)
  finally have "\<bar>x\<bar> / 2 powi ?e \<le> of_int (2 ^ 53)" by simp
  then have b: "\<bar>x / 2 powi ?e\<bar> \<le> of_int (2 ^ 53)" by (simp only: abs_divide) simp
  then have "?n \<le> rnd_even (of_int (2 ^ 53))" "rnd_even (- of_int (2 ^ 53)) \<le> ?n"
    using b unfolding abs_le_iff by (auto intro!: rnd_even_mono simp only:)
  then have n: "\<bar>?n\<bar> \<le> 2 ^ 53" unfolding rnd_even_minus rnd_even_of_int by simp
  show ?thesis
  proof (cases "\<bar>?n\<bar> < 2 ^ 53")
    case True
    then show ?thesis unfolding is_double_def by (rule fl_representable [OF fl _ e(1)])
  next
    case False
    define s where "s = sgn ?n"
    have s: "\<bar>s\<bar> \<le> 1" "?n = s * 2 ^ 53"
      using False n by (auto simp: s_def sgn_if)
    have "fl x = of_int s * (2 powi 53 * 2 powi ?e)" unfolding fl by (subst s(2)) simp
    then have "fl x = of_int s * 2 powi (53 + ?e)" by (simp only: powi2_mult)
    then show ?thesis
      unfolding is_double_def by (rule fl_representable) (use s(1) e(1) in simp_all)
  qed
qed (simp add: is_double_def)

lemma fl_fl [simp]: "fl (fl x) = fl x"
  using is_double_fl [of x] by (simp add: is_double_def)

lemma is_double_of_int: "\<bar>i\<bar> < 2 ^ 53 \<Longrightarrow> is_double (of_int i)"
  unfolding is_double_def by (rule fl_representable [where e = 0]) simp_all

lemma is_double_powi: "- 1074 \<le> k \<Longrightarrow> is_double (2 powi k)"
  unfolding is_double_def by (rule fl_representable [where m = 1]) simp_all

lemma fl_1 [simp]: "fl 1 = 1"
  using is_double_of_int [of 1] by (simp add: is_double_def)

lemma is_double_0_1 [simp]: "is_double 0" "is_double 1"
  by (simp_all add: is_double_def)

lemma fl_same_exponent_mono:
  assumes "x \<le> y"
  shows "of_int (rnd_even (x / 2 powi e)) * 2 powi e \<le> (of_int (rnd_even (y / 2 powi e)) * 2 powi e :: rat)"
  using rnd_even_mono [of "x / 2 powi e" "y / 2 powi e"] assms
  by (simp add: divide_right_mono mult_right_mono)

lemma rnd_at_power:
  assumes "e \<le> k"
  shows "of_int (rnd_even (2 powi k / 2 powi e)) * 2 powi e = (2 powi k :: rat)"
proof -
  have q: "(2::rat) powi k / 2 powi e = of_int (2 ^ nat (k - e))"
    using assms by (simp only: powi2_div powi2_nat diff_ge_0_iff_ge)
  then have "of_int (rnd_even (2 powi k / 2 powi e)) = (2::rat) powi k / 2 powi e"
    by (simp only: rnd_even_of_int)
  then show ?thesis by simp
qed

lemma fl_mono_pos:
  assumes "0 < x" "x \<le> y"
  shows "fl x \<le> fl y"
proof -
  let ?ex = "fl_exponent x" and ?ey = "fl_exponent y" and ?k = "ilog2 y"
  have fx: "fl x = of_int (rnd_even (x / 2 powi ?ex)) * 2 powi ?ex"
    and fy: "fl y = of_int (rnd_even (y / 2 powi ?ey)) * 2 powi ?ey"
    using assms by (simp_all add: fl_def Let_def)
  show ?thesis
  proof (cases "?ex = ?ey")
    case True
    show ?thesis unfolding fx fy True by (rule fl_same_exponent_mono) (rule assms(2))
  next
    case False
    have klt: "ilog2 x < ?k" and ey: "?ey = ?k - 52"
      using False ilog2_mono [OF assms] by (auto simp: fl_exponent_def max_def split: if_splits)
    have eyk: "?ey \<le> ?k" and exk: "?ex \<le> ?k"
      using ey klt False by (auto simp: fl_exponent_def max_def split: if_splits)
    have "x \<le> 2 powi (ilog2 x + 1)" using ilog2_bounds(2) [OF assms(1)] by simp
    also have "\<dots> \<le> 2 powi ?k" using klt by (intro powi2_mono) simp
    finally have "fl x \<le> 2 powi ?k"
      unfolding fx using fl_same_exponent_mono [of x "2 powi ?k" ?ex] rnd_at_power [OF exk] by simp
    also have "2 powi ?k \<le> fl y"
      unfolding fy using fl_same_exponent_mono [of "2 powi ?k" y ?ey] rnd_at_power [OF eyk]
        ilog2_bounds(1) [of y] assms by simp
    finally show ?thesis .
  qed
qed

lemma fl_nonneg: "0 \<le> x \<Longrightarrow> 0 \<le> fl x"
proof -
  assume "0 \<le> x"
  then have "0 \<le> rnd_even (x / 2 powi fl_exponent \<bar>x\<bar>)"
    using rnd_even_mono [of 0 "x / 2 powi fl_exponent \<bar>x\<bar>"] by simp
  then show ?thesis by (simp add: fl_def Let_def)
qed

lemma fl_mono:
  assumes "x \<le> y" shows "fl x \<le> fl y"
proof -
  consider "0 < x" | "x \<le> 0" "0 \<le> y" | "y < 0" using assms by linarith
  then show ?thesis
  proof cases
    case 1
    then show ?thesis using assms by (rule fl_mono_pos)
  next
    case 2
    then have "0 \<le> fl (- x)" "0 \<le> fl y" by (simp_all add: fl_nonneg)
    then show ?thesis by (simp add: fl_minus)
  next
    case 3
    then have "fl (- y) \<le> fl (- x)" using assms by (intro fl_mono_pos) simp_all
    then show ?thesis by (simp add: fl_minus)
  qed
qed

lemma fl_le: "x \<le> y \<Longrightarrow> is_double y \<Longrightarrow> fl x \<le> y"
  by (metis fl_mono is_double_def)

lemma fl_ge: "x \<le> y \<Longrightarrow> is_double x \<Longrightarrow> x \<le> fl y"
  by (metis fl_mono is_double_def)

lemma fl_le_1: "x \<le> 1 \<Longrightarrow> fl x \<le> 1"
  using fl_mono [of x 1] by simp

lemma fl_ge_minus_1: "- 1 \<le> x \<Longrightarrow> - 1 \<le> fl x"
  using fl_mono [of "- 1" x] fl_minus [of 1] by simp

lemma fl_in_unit: "0 \<le> x \<Longrightarrow> x \<le> 1 \<Longrightarrow> 0 \<le> fl x \<and> fl x \<le> 1"
  by (simp add: fl_nonneg fl_le_1)

subsection \<open>Rounding error and \<open>round(value, 12)\<close>\<close>

lemma fl_error:
  assumes "\<bar>x\<bar> \<le> 1"
  shows "\<bar>fl x - x\<bar> \<le> 2 powi (- 53)"
proof (cases "x = 0")
  case False
  let ?e = "fl_exponent \<bar>x\<bar>"
  have "2 powi ilog2 \<bar>x\<bar> \<le> \<bar>x\<bar>" using False ilog2_bounds(1) [of "\<bar>x\<bar>"] by simp
  also have "\<dots> \<le> 2 powi 0" using assms by simp
  finally have "ilog2 \<bar>x\<bar> \<le> 0" by (simp only: powi2_le_iff)
  then have e: "?e \<le> - 52" by (simp add: fl_exponent_def)
  let ?r = "x / 2 powi ?e"
  have "fl x - x = (of_int (rnd_even ?r) - ?r) * 2 powi ?e"
    using False by (simp add: fl_def Let_def left_diff_distrib)
  then have "\<bar>fl x - x\<bar> = \<bar>of_int (rnd_even ?r) - ?r\<bar> * 2 powi ?e" by (simp add: abs_mult)
  also have "\<dots> \<le> 1/2 * 2 powi ?e" by (intro mult_right_mono rnd_even_error) simp
  also have "\<dots> = 2 powi (?e - 1)" by (simp add: power_int_diff)
  also have "\<dots> \<le> 2 powi (- 53)" using e by (intro powi2_mono) simp
  finally show ?thesis .
qed simp

definition stable_float :: "rat \<Rightarrow> rat" where
  "stable_float x = fl (of_int (rnd_even (x * 10 ^ 12)) / 10 ^ 12)"

lemma is_double_stable_float [simp]: "is_double (stable_float x)"
  by (simp add: stable_float_def is_double_fl)

lemma stable_float_0 [simp]: "stable_float 0 = 0"
  by (simp add: stable_float_def)

lemma stable_float_1 [simp]: "stable_float 1 = 1"
  using rnd_even_of_int [of "10 ^ 12"] by (simp add: stable_float_def)

lemma stable_float_minus: "stable_float (- x) = - stable_float x"
  by (simp add: stable_float_def rnd_even_minus fl_minus)

lemma stable_float_mono: "x \<le> y \<Longrightarrow> stable_float x \<le> stable_float y"
  unfolding stable_float_def by (intro fl_mono divide_right_mono) (simp_all add: rnd_even_mono)

lemma stable_float_nonneg: "0 \<le> x \<Longrightarrow> 0 \<le> stable_float x"
  using stable_float_mono [of 0 x] by simp

lemma stable_float_le_1: "x \<le> 1 \<Longrightarrow> stable_float x \<le> 1"
  using stable_float_mono [of x 1] by simp

lemma stable_float_in_unit: "0 \<le> x \<Longrightarrow> x \<le> 1 \<Longrightarrow> 0 \<le> stable_float x \<and> stable_float x \<le> 1"
  by (simp add: stable_float_nonneg stable_float_le_1)

lemma stable_float_in_signed_unit:
  "- 1 \<le> x \<Longrightarrow> x \<le> 1 \<Longrightarrow> - 1 \<le> stable_float x \<and> stable_float x \<le> 1"
  using stable_float_mono [of "- 1" x] stable_float_minus [of 1] by (simp add: stable_float_le_1)

text \<open>
  Rounding to twelve decimals twice changes nothing on \<open>[-1, 1]\<close>: the double nearest to
  a twelve-digit decimal is closer than half a unit of the twelfth digit to it.
\<close>

lemma stable_float_idem:
  assumes "- 1 \<le> x" "x \<le> 1"
  shows "stable_float (stable_float x) = stable_float x"
proof -
  let ?n = "rnd_even (x * 10 ^ 12)"
  let ?d = "of_int ?n / 10 ^ 12 :: rat"
  have "rnd_even (- of_int (10 ^ 12)) \<le> ?n" "?n \<le> rnd_even (of_int (10 ^ 12))"
    using assms by (auto intro!: rnd_even_mono)
  then have n: "- (10 ^ 12) \<le> ?n" "?n \<le> 10 ^ 12"
    unfolding rnd_even_minus by (simp_all only: rnd_even_of_int)
  then have "(of_int (- (10 ^ 12)) :: rat) \<le> of_int ?n" "(of_int ?n :: rat) \<le> of_int (10 ^ 12)"
    by (simp_all only: of_int_le_iff)
  then have "\<bar>?d\<bar> \<le> 1" by (simp add: abs_if)
  then have "\<bar>fl ?d - ?d\<bar> \<le> 2 powi (- 53)" by (rule fl_error)
  then have "\<bar>fl ?d * 10 ^ 12 - of_int ?n\<bar> \<le> 2 powi (- 53) * 10 ^ 12"
    by (simp add: abs_le_iff field_simps)
  also have "(2::rat) powi (- 53) * 10 ^ 12 < 1 / 2" by (simp add: power_int_def power_divide)
  finally have "rnd_even (fl ?d * 10 ^ 12) = ?n"
    by (intro rnd_even_unique) (simp add: abs_minus_commute)
  then show ?thesis by (simp add: stable_float_def)
qed

end
