(* ===== verification/Json.thy ===== *)
theory Json
  imports PyFloat
begin

text \<open>
  JSON values and their canonical bytes (\<open>canonical_json\<close> of io.py with
  \<open>pretty=False\<close>, then \<open>.encode("utf-8")\<close>), and the record \<open>runtime\<close> of
  functions the code takes from outside src/: SHA-256, the shortest float spelling, the ISO
  timestamp reader and the power function of the C library. The main result is that canonical
  bytes determine the document up to the order of object members (\<open>canonical_bytes_inj\<close>):
  every tamper-evidence theorem about digests rests on it.
\<close>

subsection \<open>External functions\<close>

record runtime =
  rt_sha256 :: "bytes \<Rightarrow> ustr"     \<comment> \<open>\<open>hashlib.sha256(b).hexdigest()\<close>\<close>
  rt_repr :: "rat \<Rightarrow> ustr"         \<comment> \<open>\<open>float.__repr__\<close>\<close>
  rt_fromiso :: "ustr \<Rightarrow> (int \<times> int option) option" \<comment> \<open>\<open>datetime.fromisoformat\<close>\<close>
  rt_exp2 :: "rat \<Rightarrow> rat"          \<comment> \<open>\<open>2.0 ** x\<close>\<close>

definition hex_digit :: "nat \<Rightarrow> bool" where
  "hex_digit c \<longleftrightarrow> (48 \<le> c \<and> c \<le> 57) \<or> (97 \<le> c \<and> c \<le> 102)"

definition is_hash :: "ustr \<Rightarrow> bool" where
  "is_hash s \<longleftrightarrow> length s = 64 \<and> list_all hex_digit s"

text \<open>
  Documented behaviour: \<open>hexdigest\<close> of SHA-256 is 64 lowercase hexadecimal digits.
\<close>

definition sha256_hex :: "runtime \<Rightarrow> bool" where
  "sha256_hex rt \<longleftrightarrow> (\<forall>b. is_hash (rt_sha256 rt b))"

text \<open>
  Documented behaviour: \<open>repr\<close> of a float reads back as the same float, so it is
  injective on doubles; it is spelled with digits, a sign, a point and an exponent mark, begins
  with a digit or a minus sign, always has a point or an exponent (so it is never the spelling of an
  integer), and only negative zero is spelled \<open>-0.0\<close>.
\<close>

definition numeric_char :: "nat \<Rightarrow> bool" where
  "numeric_char c \<longleftrightarrow> (48 \<le> c \<and> c \<le> 57) \<or> c = 45 \<or> c = 43 \<or> c = 46 \<or> c = 101"

definition repr_contract :: "runtime \<Rightarrow> bool" where
  "repr_contract rt \<longleftrightarrow>
     (\<forall>x. rt_repr rt x \<noteq> [] \<and> list_all numeric_char (rt_repr rt x)
        \<and> hd (rt_repr rt x) \<noteq> 43 \<and> hd (rt_repr rt x) \<noteq> 46 \<and> hd (rt_repr rt x) \<noteq> 101
        \<and> (46 \<in> set (rt_repr rt x) \<or> 101 \<in> set (rt_repr rt x))
        \<and> rt_repr rt x \<noteq> [45, 48, 46, 48])
     \<and> (\<forall>x y. is_double x \<longrightarrow> is_double y \<longrightarrow> rt_repr rt x = rt_repr rt y \<longrightarrow> x = y)"

text \<open>The byte strings of \<open>S\<close> have pairwise different digests.\<close>

definition collision_free :: "runtime \<Rightarrow> bytes set \<Rightarrow> bool" where
  "collision_free rt S \<longleftrightarrow> inj_on (rt_sha256 rt) S"

lemma collision_freeD:
  "collision_free rt S \<Longrightarrow> rt_sha256 rt a = rt_sha256 rt b \<Longrightarrow> a \<in> S \<Longrightarrow> b \<in> S \<Longrightarrow> a = b"
  by (auto simp: collision_free_def dest: inj_onD)

lemma collision_free_subset: "collision_free rt S \<Longrightarrow> T \<subseteq> S \<Longrightarrow> collision_free rt T"
  by (auto simp: collision_free_def intro: inj_on_subset)

subsection \<open>JSON values\<close>

datatype pyfloat = Fin rat | NegZero | PosInf | NegInf | NotANumber

datatype json =
    JNull
  | JBool bool
  | JInt int
  | JFloat pyfloat
  | JStr ustr
  | JArr "json list"
  | JObj "(ustr \<times> json) list"

text \<open>
  A Python dictionary with text keys is the list of its items in insertion order;
  \<open>jget\<close> is \<open>dict.get\<close> with the absence of a key visible.
\<close>

fun jget :: "json \<Rightarrow> ustr \<Rightarrow> json option" where
  "jget (JObj kvs) k = map_of kvs k"
| "jget _ k = None"

fun jkeys :: "json \<Rightarrow> ustr list" where
  "jkeys (JObj kvs) = map fst kvs"
| "jkeys _ = []"

definition JText :: "string \<Rightarrow> json" where
  "JText s = JStr (U s)"

lemma JText_eq_iff [simp]: "JText a = JText b \<longleftrightarrow> a = b"
  by (simp add: JText_def)

lemma JText_distinct [simp]:
  "JText a \<noteq> JNull" "JText a \<noteq> JInt i" "JText a \<noteq> JArr xs" "JText a \<noteq> JObj kvs"
  by (simp_all add: JText_def)

definition JOpt :: "ustr option \<Rightarrow> json" where
  "JOpt x = (case x of None \<Rightarrow> JNull | Some s \<Rightarrow> JStr s)"

lemma JOpt_eq_iff [simp]: "JOpt a = JOpt b \<longleftrightarrow> a = b"
  by (auto simp: JOpt_def split: option.splits)

lemma json_member_size:
  "(k, v) \<in> set kvs \<Longrightarrow> size v < Suc (size_list (size_prod (\<lambda>_. 0) size) kvs)"
  by (induction kvs) auto

subsection \<open>Number, text and container spellings\<close>

function digits_of :: "int \<Rightarrow> ustr" where
  "digits_of n = (if n < 10 then [48 + nat n] else digits_of (n div 10) @ [48 + nat (n mod 10)])"
  by pat_completeness auto
termination
  by (relation "measure nat") auto

declare digits_of.simps [simp del]

definition int_str :: "int \<Rightarrow> ustr" where
  "int_str i = (if i < 0 then 45 # digits_of (- i) else digits_of i)"

definition hex_char :: "nat \<Rightarrow> nat" where
  "hex_char d = (if d < 10 then 48 + d else 87 + d)"

text \<open>The escapes of \<open>json.dumps(ensure_ascii=False)\<close>.\<close>

definition esc :: "nat \<Rightarrow> ustr" where
  "esc c = (if c = 34 then [92, 34] else if c = 92 then [92, 92]
            else if c = 10 then [92, 110] else if c = 13 then [92, 114] else if c = 9 then [92, 116]
            else if c = 8 then [92, 98] else if c = 12 then [92, 102]
            else if c < 32 then [92, 117, 48, 48, hex_char (c div 16), hex_char (c mod 16)]
            else [c])"

definition str_enc :: "ustr \<Rightarrow> ustr" where
  "str_enc s = 34 # concat (map esc s) @ [34]"

fun float_str :: "runtime \<Rightarrow> pyfloat \<Rightarrow> ustr" where
  "float_str rt (Fin x) = rt_repr rt x"
| "float_str rt NegZero = U ''-0.0''"
| "float_str rt PosInf = U ''Infinity''"
| "float_str rt NegInf = U ''-Infinity''"
| "float_str rt NotANumber = U ''NaN''"

text \<open>Items separated by commas and closed by the character \<open>c\<close>.\<close>

fun items :: "('a \<Rightarrow> ustr) \<Rightarrow> nat \<Rightarrow> 'a list \<Rightarrow> ustr" where
  "items f c [] = [c]"
| "items f c [x] = f x @ [c]"
| "items f c (x # y # zs) = f x @ 44 # items f c (y # zs)"

lemma items_cong [fundef_cong]:
  assumes "xs = ys" and "\<And>x. x \<in> set ys \<Longrightarrow> f x = g x"
  shows "items f c xs = items g c ys"
proof -
  have "(\<And>x. x \<in> set ys \<Longrightarrow> f x = g x) \<Longrightarrow> items f c ys = items g c ys"
    by (induction f c ys rule: items.induct) auto
  then show ?thesis using assms by simp
qed

function enc :: "runtime \<Rightarrow> json \<Rightarrow> ustr" where
  "enc rt JNull = U ''null''"
| "enc rt (JBool b) = (if b then U ''true'' else U ''false'')"
| "enc rt (JInt i) = int_str i"
| "enc rt (JFloat x) = float_str rt x"
| "enc rt (JStr s) = str_enc s"
| "enc rt (JArr xs) = 91 # items (\<lambda>x. enc rt x) 93 xs"
| "enc rt (JObj kvs) = 123 # items (\<lambda>kv. str_enc (fst kv) @ 58 # enc rt (snd kv)) 125 kvs"
  by pat_completeness auto
termination
  by (relation "measure (\<lambda>(rt, v). size v)") (auto simp: less_Suc_eq_le size_list_estimation' dest!: json_member_size)

text \<open>\<open>sort_keys=True\<close>: members sorted by key, at every depth.\<close>

function canon :: "json \<Rightarrow> json" where
  "canon JNull = JNull"
| "canon (JBool b) = JBool b"
| "canon (JInt i) = JInt i"
| "canon (JFloat x) = JFloat x"
| "canon (JStr s) = JStr s"
| "canon (JArr xs) = JArr (map (\<lambda>x. canon x) xs)"
| "canon (JObj kvs) = JObj (sort_key fst (map (\<lambda>kv. (fst kv, canon (snd kv))) kvs))"
  by pat_completeness auto
termination
  by (relation "measure size") (auto simp: less_Suc_eq_le size_list_estimation' dest!: json_member_size)

fun finite_float :: "pyfloat \<Rightarrow> bool" where
  "finite_float (Fin x) = is_double x"
| "finite_float NegZero = True"
| "finite_float _ = False"

function json_finite :: "json \<Rightarrow> bool" where
  "json_finite (JFloat x) = finite_float x"
| "json_finite (JArr xs) = list_all (\<lambda>x. json_finite x) xs"
| "json_finite (JObj kvs) = list_all (\<lambda>kv. json_finite (snd kv)) kvs"
| "json_finite JNull = True"
| "json_finite (JBool b) = True"
| "json_finite (JInt i) = True"
| "json_finite (JStr s) = True"
  by pat_completeness auto
termination
  by (relation "measure size") (auto simp: less_Suc_eq_le size_list_estimation' dest!: json_member_size)

definition dumps :: "runtime \<Rightarrow> json \<Rightarrow> ustr" where
  "dumps rt v = enc rt (canon v)"

text \<open>\<open>canonical_json(value, pretty=False)\<close>: \<open>allow_nan=False\<close> makes a non-finite float an error.\<close>

definition canonical_json :: "runtime \<Rightarrow> json \<Rightarrow> ustr result" where
  "canonical_json rt v =
     (if json_finite v then Inr (dumps rt v)
      else Inl (InputFormatError ''value cannot be serialized as strict JSON''))"

definition utf8_char :: "nat \<Rightarrow> bytes" where
  "utf8_char c = (if c < 128 then [c]
     else if c < 2048 then [192 + c div 64, 128 + c mod 64]
     else if c < 65536 then [224 + c div 4096, 128 + c div 64 mod 64, 128 + c mod 64]
     else [240 + c div 262144, 128 + c div 4096 mod 64, 128 + c div 64 mod 64, 128 + c mod 64])"

definition utf8 :: "ustr \<Rightarrow> bytes" where
  "utf8 s = concat (map utf8_char s)"

text \<open>The bytes every digest of the code is taken over.\<close>

definition canonical_bytes :: "runtime \<Rightarrow> json \<Rightarrow> bytes" where
  "canonical_bytes rt v = utf8 (dumps rt v)"

definition sha_json :: "runtime \<Rightarrow> json \<Rightarrow> ustr" where
  "sha_json rt v = rt_sha256 rt (canonical_bytes rt v)"

text \<open>\<open>bytes.fromhex\<close> on a string of hexadecimal digits.\<close>

definition hex_val :: "nat \<Rightarrow> nat" where
  "hex_val c = (if c \<le> 57 then c - 48 else c - 87)"

fun fromhex :: "ustr \<Rightarrow> bytes" where
  "fromhex (a # b # s) = (16 * hex_val a + hex_val b) # fromhex s"
| "fromhex _ = []"

subsection \<open>UTF-8 is injective\<close>

lemma div_mod_64_eq: "c div 64 = d div 64 \<Longrightarrow> c mod 64 = d mod 64 \<Longrightarrow> c = (d::nat)"
  by (metis div_mult_mod_eq)

lemma utf8_char_nonempty: "utf8_char c \<noteq> []"
  by (simp add: utf8_char_def)

text \<open>The first byte tells how many bytes the character has.\<close>

lemma utf8_char_hd:
  "(hd (utf8_char c) < 128 \<longleftrightarrow> c < 128) \<and> (hd (utf8_char c) < 224 \<longleftrightarrow> c < 2048)
     \<and> (hd (utf8_char c) < 240 \<longleftrightarrow> c < 65536)"
proof -
  have "c div 64 < 32 \<longleftrightarrow> c < 2048" "c div 4096 < 16 \<longleftrightarrow> c < 65536"
    by (simp_all add: div_less_iff_less_mult)
  then show ?thesis by (auto simp: utf8_char_def)
qed

lemma utf8_char_same_class:
  assumes "utf8_char c @ r = utf8_char d @ s"
  shows "(c < 128 \<longleftrightarrow> d < 128) \<and> (c < 2048 \<longleftrightarrow> d < 2048) \<and> (c < 65536 \<longleftrightarrow> d < 65536)"
proof -
  have "hd (utf8_char c) = hd (utf8_char d)"
    using arg_cong [OF assms, of hd] by (simp add: utf8_char_nonempty)
  then show ?thesis
    using utf8_char_hd [of c] utf8_char_hd [of d] by simp
qed

lemma utf8_char_inj:
  assumes eq: "utf8_char c @ r = utf8_char d @ s"
  shows "c = d \<and> r = s"
proof -
  have D2: "x div 4096 = x div 64 div 64" and D3: "x div 262144 = x div 64 div 64 div 64" for x :: nat
    by (simp_all add: div_mult2_eq [symmetric])
  note cls = utf8_char_same_class [OF eq]
  consider "c < 128" | "128 \<le> c" "c < 2048" | "2048 \<le> c" "c < 65536" | "65536 \<le> c" by linarith
  then show ?thesis
  proof cases
    case 1
    with cls eq show ?thesis by (simp add: utf8_char_def)
  next
    case 2
    with cls eq show ?thesis by (simp add: utf8_char_def) (metis div_mod_64_eq)
  next
    case 3
    with cls eq have "c div 64 div 64 = d div 64 div 64" "c div 64 mod 64 = d div 64 mod 64"
      "c mod 64 = d mod 64" "r = s"
      by (simp_all add: utf8_char_def D2)
    then show ?thesis by (metis div_mod_64_eq)
  next
    case 4
    with cls eq have "c div 64 div 64 div 64 = d div 64 div 64 div 64"
      "c div 64 div 64 mod 64 = d div 64 div 64 mod 64"
      "c div 64 mod 64 = d div 64 mod 64" "c mod 64 = d mod 64" "r = s"
      by (simp_all add: utf8_char_def D2 D3)
    then show ?thesis by (metis div_mod_64_eq)
  qed
qed

lemma utf8_inj: "utf8 s = utf8 t \<Longrightarrow> s = t"
proof (induction s arbitrary: t)
  case Nil
  then show ?case by (cases t) (auto simp: utf8_def utf8_char_nonempty)
next
  case (Cons c s)
  then obtain d t' where t: "t = d # t'"
    by (cases t) (auto simp: utf8_def utf8_char_nonempty)
  with Cons.prems have "utf8_char c @ utf8 s = utf8_char d @ utf8 t'" by (simp add: utf8_def)
  from utf8_char_inj [OF this] Cons.IH t show ?case by simp
qed

subsection \<open>Spellings are uniquely readable\<close>

lemma digits_of_chars: "list_all (\<lambda>c. 48 \<le> c \<and> c \<le> 57) (digits_of n)"
proof (induction n rule: digits_of.induct)
  case (1 n)
  have "nat (n mod 10) \<le> 9" "n < 10 \<Longrightarrow> nat n \<le> 9" by (simp_all add: nat_le_iff)
  with 1 show ?case by (simp add: digits_of.simps [of n])
qed

lemma digits_of_nonempty [simp]: "digits_of n \<noteq> []"
  by (simp add: digits_of.simps [of n])

definition digits_val :: "ustr \<Rightarrow> int" where
  "digits_val s = foldl (\<lambda>a c. 10 * a + (int c - 48)) 0 s"

lemma digits_val_digits_of: "0 \<le> n \<Longrightarrow> digits_val (digits_of n) = n"
proof (induction n rule: digits_of.induct)
  case (1 n)
  show ?case
  proof (cases "n < 10")
    case True
    with 1 show ?thesis by (simp add: digits_of.simps [of n] digits_val_def)
  next
    case False
    with 1 have "digits_val (digits_of (n div 10)) = n div 10" by simp
    with False show ?thesis by (simp add: digits_of.simps [of n] digits_val_def)
  qed
qed

lemma digits_of_inj: "0 \<le> m \<Longrightarrow> 0 \<le> n \<Longrightarrow> digits_of m = digits_of n \<Longrightarrow> m = n"
  by (metis digits_val_digits_of)

lemma digits_of_hd: "digits_of n = c # s \<Longrightarrow> 48 \<le> c \<and> c \<le> 57"
  using digits_of_chars [of n] by simp

lemma int_str_inj: "int_str i = int_str j \<Longrightarrow> i = j"
  using digits_of_inj [of i j] digits_of_inj [of "- i" "- j"]
  by (auto simp: int_str_def dest: digits_of_hd digits_of_hd [OF sym] split: if_splits)

lemma int_str_chars: "list_all (\<lambda>c. 48 \<le> c \<and> c \<le> 57 \<or> c = 45) (int_str i)"
  using digits_of_chars by (auto simp: int_str_def list_all_iff)

lemma int_str_hd: "int_str i \<noteq> [] \<and> (hd (int_str i) = 45 \<or> 48 \<le> hd (int_str i) \<and> hd (int_str i) \<le> 57)"
  using int_str_chars [of i] by (cases "int_str i") (auto simp: int_str_def split: if_splits)

lemma hex_val_hex_char: "d < 16 \<Longrightarrow> hex_val (hex_char d) = d"
  by (simp add: hex_char_def hex_val_def)

text \<open>Reading one escaped character back.\<close>

fun unesc :: "ustr \<Rightarrow> nat \<times> ustr" where
  "unesc [] = (0, [])"
| "unesc (c # r) =
     (if c \<noteq> 92 then (c, r)
      else case r of [] \<Rightarrow> (0, [])
        | x # r' \<Rightarrow>
           if x = 110 then (10, r') else if x = 114 then (13, r') else if x = 116 then (9, r')
           else if x = 98 then (8, r') else if x = 102 then (12, r')
           else if x = 117 then (16 * hex_val (r' ! 2) + hex_val (r' ! 3), drop 4 r')
           else (x, r'))"

lemma unesc_esc: "unesc (esc c @ r) = (c, r)"
proof (cases "c < 32 \<and> c \<notin> {8, 9, 10, 12, 13}")
  case True
  then have "esc c = [92, 117, 48, 48, hex_char (c div 16), hex_char (c mod 16)]"
    by (simp add: esc_def)
  moreover have "c div 16 < 16" using True by auto
  ultimately show ?thesis by (simp add: hex_val_hex_char)
next
  case False
  then show ?thesis by (auto simp: esc_def)
qed

lemma esc_inj: "esc c @ r = esc d @ s \<Longrightarrow> c = d \<and> r = s"
  by (metis Pair_inject unesc_esc)

lemma esc_hd: "esc c \<noteq> [] \<and> hd (esc c) \<noteq> 34"
  by (simp add: esc_def)

lemma str_enc_inj:
  assumes "str_enc s @ r = str_enc t @ r'"
  shows "s = t \<and> r = r'"
proof -
  have no_quote: "esc c @ a \<noteq> 34 # b" for c a b
    using esc_hd [of c] by (cases "esc c") auto
  have "concat (map esc s) @ 34 # r = concat (map esc t) @ 34 # r' \<Longrightarrow> s = t \<and> r = r'"
  proof (induction s arbitrary: t)
    case Nil
    then show ?case using no_quote by (cases t) (auto dest: sym)
  next
    case (Cons c s)
    then obtain d t' where t: "t = d # t'"
      using no_quote by (cases t) auto
    with Cons.prems have "esc c @ (concat (map esc s) @ 34 # r) = esc d @ (concat (map esc t') @ 34 # r')"
      by simp
    from esc_inj [OF this] Cons.IH t show ?case by simp
  qed
  with assms show ?thesis by (simp add: str_enc_def)
qed

text \<open>What may follow a value inside a container or at the end of the document.\<close>

definition delim :: "ustr \<Rightarrow> bool" where
  "delim r \<longleftrightarrow> r = [] \<or> hd r \<in> {44, 93, 125}"

lemma delim_simps [simp]: "delim []" "delim (c # r) \<longleftrightarrow> c = 44 \<or> c = 93 \<or> c = 125"
  by (auto simp: delim_def)

lemma numeric_token_split:
  assumes "list_all numeric_char a" "list_all numeric_char b" "a @ r = b @ s" "delim r" "delim s"
  shows "a = b \<and> r = s"
proof -
  have not_num: "t = [] \<or> \<not> numeric_char (hd t)" if "delim t" for t
    using that by (auto simp: delim_def numeric_char_def)
  have tw: "takeWhile numeric_char t = []" if "delim t" for t
    using not_num [OF that] by (auto simp: takeWhile_eq_Nil_iff)
  have "takeWhile numeric_char (a @ r) = a" "takeWhile numeric_char (b @ s) = b"
    using assms(1,2) tw [OF assms(4)] tw [OF assms(5)] by (simp_all add: list_all_iff takeWhile_append)
  with assms(3) show ?thesis by auto
qed

lemma items_Cons: "items f c (x # xs) = f x @ (if xs = [] then [c] else 44 # items f c xs)"
  by (cases xs) simp_all

lemma items_inj:
  assumes "\<And>x y r s. x \<in> set xs \<Longrightarrow> y \<in> set ys \<Longrightarrow> delim r \<Longrightarrow> delim s \<Longrightarrow> f x @ r = f y @ s \<Longrightarrow> x = y \<and> r = s"
    and "\<And>x. x \<in> set xs \<union> set ys \<Longrightarrow> f x \<noteq> [] \<and> hd (f x) \<noteq> c" and c: "c = 93 \<or> c = 125"
    and "items f c xs @ r = items f c ys @ s"
  shows "xs = ys \<and> r = s"
  using assms(1,2,4)
proof (induction xs arbitrary: ys)
  case Nil
  have no_c: "f y @ a \<noteq> c # b" if "y \<in> set ys" for y a b
    using Nil.prems(2) [of y] that by (cases "f y") auto
  show ?case
    using Nil.prems(3) no_c by (cases ys) (auto simp: items_Cons dest: sym)
next
  case (Cons x xs)
  have no_c: "f x @ a \<noteq> c # b" for a b
    using Cons.prems(2) [of x] by (cases "f x") auto
  with Cons.prems(3) obtain y ys' where ys: "ys = y # ys'"
    by (cases ys) (auto simp: items_Cons)
  let ?r = "if xs = [] then c # r else 44 # items f c xs @ r"
  let ?s = "if ys' = [] then c # s else 44 # items f c ys' @ s"
  have "f x @ ?r = f y @ ?s"
    using Cons.prems(3) by (auto simp: ys items_Cons split: if_splits)
  then have eq: "x = y \<and> ?r = ?s"
    by (intro Cons.prems(1)) (use c in \<open>auto simp: ys\<close>)
  show ?case
  proof (cases "xs = [] \<or> ys' = []")
    case True
    with eq c show ?thesis by (auto simp: ys split: if_splits)
  next
    case False
    with eq have "items f c xs @ r = items f c ys' @ s" by simp
    then have "xs = ys' \<and> r = s"
      by (intro Cons.IH) (use Cons.prems(1,2) ys in auto)
    with eq ys show ?thesis by simp
  qed
qed

subsection \<open>Canonical bytes determine the document\<close>

lemma repr_contractD:
  assumes "repr_contract rt"
  shows "rt_repr rt x \<noteq> []" "list_all numeric_char (rt_repr rt x)"
    "46 \<in> set (rt_repr rt x) \<or> 101 \<in> set (rt_repr rt x)" "rt_repr rt x \<noteq> [45, 48, 46, 48]"
    "is_double x \<Longrightarrow> is_double y \<Longrightarrow> rt_repr rt x = rt_repr rt y \<Longrightarrow> x = y"
    "hd (rt_repr rt x) = 45 \<or> 48 \<le> hd (rt_repr rt x) \<and> hd (rt_repr rt x) \<le> 57"
proof -
  have h: "rt_repr rt x \<noteq> []" "list_all numeric_char (rt_repr rt x)"
    "hd (rt_repr rt x) \<noteq> 43" "hd (rt_repr rt x) \<noteq> 46" "hd (rt_repr rt x) \<noteq> 101"
    using assms by (auto simp: repr_contract_def)
  then show "hd (rt_repr rt x) = 45 \<or> 48 \<le> hd (rt_repr rt x) \<and> hd (rt_repr rt x) \<le> 57"
    by (cases "rt_repr rt x") (auto simp: numeric_char_def)
qed (use assms in \<open>auto simp: repr_contract_def\<close>)

lemma negzero_chars: "U ''-0.0'' = [45, 48, 46, 48]"
  by (simp add: U_def)

lemma float_str_token:
  assumes "repr_contract rt" "finite_float x"
  shows "list_all numeric_char (float_str rt x)" "46 \<in> set (float_str rt x) \<or> 101 \<in> set (float_str rt x)"
    "float_str rt x \<noteq> []" "hd (float_str rt x) = 45 \<or> 48 \<le> hd (float_str rt x) \<and> hd (float_str rt x) \<le> 57"
  using repr_contractD [OF assms(1)] assms(2)
  by (cases x; simp add: negzero_chars numeric_char_def)+

lemma float_str_inj:
  assumes "repr_contract rt" "finite_float x" "finite_float y" "float_str rt x = float_str rt y"
  shows "x = y"
  using assms(2-) repr_contractD [OF assms(1)]
  by (cases x; cases y) (auto simp: negzero_chars dest: sym)

lemma int_token: "list_all numeric_char (int_str i)" "46 \<notin> set (int_str i)" "101 \<notin> set (int_str i)"
  using int_str_chars [of i] by (auto simp: list_all_iff numeric_char_def)

text \<open>The first character of a value's spelling tells what kind of value it is.\<close>

fun first_char :: "json \<Rightarrow> nat \<Rightarrow> bool" where
  "first_char JNull c = (c = 110)"
| "first_char (JBool b) c = (c = (if b then 116 else 102))"
| "first_char (JStr s) c = (c = 34)"
| "first_char (JArr xs) c = (c = 91)"
| "first_char (JObj kvs) c = (c = 123)"
| "first_char _ c = (c = 45 \<or> 48 \<le> c \<and> c \<le> 57)"

lemma enc_first_char:
  assumes "repr_contract rt" "json_finite v"
  shows "enc rt v \<noteq> [] \<and> first_char v (hd (enc rt v))"
  using float_str_token [OF assms(1)] int_str_hd assms(2)
  by (cases v) (auto simp: str_enc_def U_def)

lemma enc_hd_eq:
  assumes "repr_contract rt" "json_finite v" "json_finite w" "enc rt v @ r = enc rt w @ s"
  shows "\<exists>c. first_char v c \<and> first_char w c"
  using enc_first_char [OF assms(1,2)] enc_first_char [OF assms(1,3)] arg_cong [OF assms(4), of hd]
  by (metis hd_append2)

lemma enc_inj:
  assumes rt: "repr_contract rt"
  shows "json_finite v \<Longrightarrow> json_finite w \<Longrightarrow> delim r \<Longrightarrow> delim s \<Longrightarrow> enc rt v @ r = enc rt w @ s \<Longrightarrow> v = w \<and> r = s"
proof (induction v arbitrary: w r s)
  case JNull
  with enc_hd_eq [OF rt JNull(1,2,5)] show ?case by (cases w) (auto split: if_splits)
next
  case (JBool b)
  with enc_hd_eq [OF rt JBool(1,2,5)] show ?case by (cases w) (auto split: if_splits)
next
  case (JInt i)
  consider j where "w = JInt j" | y where "w = JFloat y"
    using enc_hd_eq [OF rt JInt(1,2,5)] by (cases w) (auto split: if_splits)
  then show ?case
  proof cases
    case 1
    then show ?thesis
      using numeric_token_split [OF int_token(1) int_token(1) _ JInt(3,4), of i j] JInt(5) int_str_inj
      by auto
  next
    case 2
    then have y: "finite_float y" using JInt(2) by simp
    have "int_str i = float_str rt y"
      using numeric_token_split [OF int_token(1) float_str_token(1) [OF rt y] _ JInt(3,4)] JInt(5) 2 by auto
    then show ?thesis using float_str_token(2) [OF rt y] int_token(2,3) [of i] by metis
  qed
next
  case (JFloat x)
  then have x: "finite_float x" by simp
  consider j where "w = JInt j" | y where "w = JFloat y"
    using enc_hd_eq [OF rt JFloat(1,2,5)] by (cases w) (auto split: if_splits)
  then show ?case
  proof cases
    case 1
    have "float_str rt x = int_str j"
      using numeric_token_split [OF float_str_token(1) [OF rt x] int_token(1) _ JFloat(3,4)] JFloat(5) 1 by auto
    then show ?thesis using float_str_token(2) [OF rt x] int_token(2,3) [of j] by metis
  next
    case 2
    then have y: "finite_float y" using JFloat(2) by simp
    show ?thesis
      using numeric_token_split [OF float_str_token(1) [OF rt x] float_str_token(1) [OF rt y] _ JFloat(3,4)]
        JFloat(5) 2 float_str_inj [OF rt x y] by auto
  qed
next
  case (JStr t)
  from enc_hd_eq [OF rt JStr(1,2,5)] obtain t' where w: "w = JStr t'"
    by (cases w) (auto split: if_splits)
  with JStr(5) have "str_enc t @ r = str_enc t' @ s" by simp
  from str_enc_inj [OF this] w show ?case by simp
next
  case (JArr xs)
  from enc_hd_eq [OF rt JArr.prems(1,2,5)] obtain ys where w: "w = JArr ys"
    by (cases w) (auto split: if_splits)
  have "xs = ys \<and> r = s"
  proof (rule items_inj [where f = "enc rt" and c = 93])
    show "items (enc rt) 93 xs @ r = items (enc rt) 93 ys @ s" using JArr.prems(5) w by simp
    show "enc rt x \<noteq> [] \<and> hd (enc rt x) \<noteq> 93" if "x \<in> set xs \<union> set ys" for x
      using enc_first_char [OF rt, of x] that JArr.prems(1,2) w
      by (cases x) (auto simp: list_all_iff split: if_splits)
  qed (use JArr w in \<open>auto simp: list_all_iff\<close>)
  with w show ?case by simp
next
  case (JObj kvs)
  let ?f = "\<lambda>kv. str_enc (fst kv) @ 58 # enc rt (snd kv)"
  from enc_hd_eq [OF rt JObj.prems(1,2,5)] obtain kws where w: "w = JObj kws"
    by (cases w) (auto split: if_splits)
  have "kvs = kws \<and> r = s"
  proof (rule items_inj [where f = ?f and c = 125])
    show "items ?f 125 kvs @ r = items ?f 125 kws @ s" using JObj.prems(5) w by simp
    show "?f x \<noteq> [] \<and> hd (?f x) \<noteq> 125" for x by (simp add: str_enc_def)
    fix x y r s assume xy: "x \<in> set kvs" "y \<in> set kws" "delim r" "delim s" "?f x @ r = ?f y @ s"
    then have "str_enc (fst x) @ (58 # enc rt (snd x) @ r) = str_enc (fst y) @ (58 # enc rt (snd y) @ s)"
      by simp
    from str_enc_inj [OF this] have k: "fst x = fst y" and e: "enc rt (snd x) @ r = enc rt (snd y) @ s"
      by simp_all
    have "snd x = snd y \<and> r = s"
      by (rule JObj.IH [of x "snd x"]) (use xy e JObj.prems(1,2) w in \<open>auto simp: list_all_iff snds.simps\<close>)
    with k show "x = y \<and> r = s" by (simp add: prod_eq_iff)
  qed simp
  with w show ?case by simp
qed

lemma json_finite_canon: "json_finite (canon v) = json_finite v"
  by (induction v rule: canon.induct) (auto simp: list_all_iff)

theorem canonical_bytes_inj:
  assumes "repr_contract rt" "json_finite v" "json_finite w"
    and "canonical_bytes rt v = canonical_bytes rt w"
  shows "canon v = canon w"
proof -
  have "enc rt (canon v) = enc rt (canon w)"
    using assms(4) by (auto simp: canonical_bytes_def dumps_def dest: utf8_inj)
  then show ?thesis
    using enc_inj [OF assms(1), of "canon v" "canon w" "[]" "[]"] assms(2,3)
    by (simp add: json_finite_canon)
qed

lemma map_of_map_snd: "map_of (map (\<lambda>kv. (fst kv, f (snd kv))) kvs) k = map_option f (map_of kvs k)"
  by (induction kvs) auto

text \<open>Canonically equal dictionaries have canonically equal values under every key.\<close>

lemma canon_JObj_lookup:
  assumes "canon (JObj kvs) = canon (JObj kws)" "distinct (map fst kvs)" "distinct (map fst kws)"
  shows "map_option canon (map_of kvs k) = map_option canon (map_of kws k)"
proof -
  let ?c = "\<lambda>kv. (fst kv, canon (snd kv))"
  have d: "distinct (map fst (map ?c kvs))" "distinct (map fst (map ?c kws))"
    using assms(2,3) by (simp_all add: comp_def)
  have "map_of (sort_key fst (map ?c kvs)) = map_of (sort_key fst (map ?c kws))" using assms(1) by simp
  then have "map_of (map ?c kvs) k = map_of (map ?c kws) k"
    by (simp only: map_of_sort_key [OF d(1)] map_of_sort_key [OF d(2)])
  then show ?thesis by (simp only: map_of_map_snd)
qed

text \<open>Two dictionaries with the same keys are canonically equal exactly when their values are.\<close>

lemma canon_JObj_eq_iff:
  assumes "map fst kvs = map fst kws" "distinct (map fst kvs)"
  shows "canon (JObj kvs) = canon (JObj kws) \<longleftrightarrow> map canon (map snd kvs) = map canon (map snd kws)"
proof -
  let ?c = "\<lambda>kv. (fst kv, canon (snd kv))"
  have zip: "map ?c xs = zip (map fst xs) (map canon (map snd xs))" for xs :: "(ustr \<times> json) list"
    by (induction xs) auto
  have len: "length kws = length kvs" using assms(1) by (metis length_map)
  have d: "distinct (map fst (map ?c kvs))" "distinct (map fst (map ?c kws))"
    using assms by (simp_all add: comp_def)
  show ?thesis
  proof
    assume "canon (JObj kvs) = canon (JObj kws)"
    then have "map_of (sort_key fst (map ?c kvs)) = map_of (sort_key fst (map ?c kws))" by simp
    then have "map_of (map ?c kvs) = map_of (map ?c kws)"
      by (simp only: map_of_sort_key [OF d(1)] map_of_sort_key [OF d(2)])
    then have "map_of (zip (map fst kvs) (map canon (map snd kvs)))
        = map_of (zip (map fst kvs) (map canon (map snd kws)))"
      by (simp only: zip assms(1))
    then show "map canon (map snd kvs) = map canon (map snd kws)"
      by (rule map_of_zip_inject [rotated 3]) (use assms(2) len in simp_all)
  next
    assume "map canon (map snd kvs) = map canon (map snd kws)"
    then have "map ?c kvs = map ?c kws" by (simp only: zip assms(1))
    then show "canon (JObj kvs) = canon (JObj kws)" by simp
  qed
qed

text \<open>The same for canonical bytes, and objects with different keys never have the same bytes.\<close>

lemma canonical_bytes_JObj_eq:
  assumes "repr_contract rt" "json_finite (JObj kvs)" "json_finite (JObj kws)"
    "canonical_bytes rt (JObj kvs) = canonical_bytes rt (JObj kws)"
    "map fst kvs = map fst kws" "distinct (map fst kvs)"
  shows "map canon (map snd kvs) = map canon (map snd kws)"
  using canonical_bytes_inj [OF assms(1-4)] canon_JObj_eq_iff [OF assms(5,6)] by blast

lemma canonical_bytes_JObj_keys:
  assumes "repr_contract rt" "json_finite (JObj kvs)" "json_finite (JObj kws)"
    "canonical_bytes rt (JObj kvs) = canonical_bytes rt (JObj kws)"
  shows "set (map fst kvs) = set (map fst kws)"
proof -
  let ?c = "\<lambda>kv. (fst kv, canon (snd kv))"
  have "sort_key fst (map ?c kvs) = sort_key fst (map ?c kws)"
    using canonical_bytes_inj [OF assms] by simp
  then have "set (sort_key fst (map ?c kvs)) = set (sort_key fst (map ?c kws))" by (rule arg_cong)
  then have "fst ` set (map ?c kvs) = fst ` set (map ?c kws)" unfolding set_sort by (rule arg_cong)
  then show ?thesis by (simp only: set_map image_image fst_conv)
qed

lemma canon_simple [simp]:
  "canon (JText t) = JText t" "canon (JOpt x) = JOpt x"
  by (simp_all add: JText_def JOpt_def split: option.splits)

lemma json_finite_simple [simp]: "json_finite (JText t)" "json_finite (JOpt x)"
  by (simp_all add: JText_def JOpt_def split: option.splits)

end
