(* ===== verification/Values.thy ===== *)
theory Values
  imports Json
begin

text \<open>
  The scalar and container validators of models.py (lines 43 to 345): enumerations, text,
  timestamps, numbers, enum strings, text tuples and the JSON freezing check. A raw Python value is a
  \<open>json\<close>; a validator returns the normalized value or the \<open>ValidationError\<close> it
  raises. An instant is the number of microseconds since 0001-01-01T00:00:00 UTC; a
  \<open>datetime\<close> is its wall clock in microseconds with the offset from UTC, if it has one.
\<close>

subsection \<open>Enumerations\<close>

datatype modality = VISION | AUDIO | TEXT | SENSOR

datatype signal = SUPPORT | CONTRADICT

datatype outcome = ESCALATE | REJECT | REVIEW

datatype verdict = CORRECT | INCORRECT

fun modality_value :: "modality \<Rightarrow> string" where
  "modality_value VISION = ''vision''"
| "modality_value AUDIO = ''audio''"
| "modality_value TEXT = ''text''"
| "modality_value SENSOR = ''sensor''"

fun signal_value :: "signal \<Rightarrow> string" where
  "signal_value SUPPORT = ''support''"
| "signal_value CONTRADICT = ''contradict''"

fun outcome_value :: "outcome \<Rightarrow> string" where
  "outcome_value ESCALATE = ''escalate''"
| "outcome_value REJECT = ''reject''"
| "outcome_value REVIEW = ''review''"

fun verdict_value :: "verdict \<Rightarrow> string" where
  "verdict_value CORRECT = ''correct''"
| "verdict_value INCORRECT = ''incorrect''"

lemma modality_value_inj [simp]: "modality_value a = modality_value b \<longleftrightarrow> a = b"
  by (cases a; cases b) simp_all

lemma signal_value_inj [simp]: "signal_value a = signal_value b \<longleftrightarrow> a = b"
  by (cases a; cases b) simp_all

lemma outcome_value_inj [simp]: "outcome_value a = outcome_value b \<longleftrightarrow> a = b"
  by (cases a; cases b) simp_all

lemma verdict_value_inj [simp]: "verdict_value a = verdict_value b \<longleftrightarrow> a = b"
  by (cases a; cases b) simp_all

text \<open>Calling an enumeration class on a string: the member with that value, if there is one.\<close>

definition member_of :: "('a \<Rightarrow> string) \<Rightarrow> 'a list \<Rightarrow> ustr \<Rightarrow> 'a option" where
  "member_of value members s = map_of (map (\<lambda>m. (U (value m), m)) members) s"

definition modalities_all :: "modality list" where
  "modalities_all = [VISION, AUDIO, TEXT, SENSOR]"

definition signals_all :: "signal list" where
  "signals_all = [SUPPORT, CONTRADICT]"

definition verdicts_all :: "verdict list" where
  "verdicts_all = [CORRECT, INCORRECT]"

lemma member_of_modality [simp]: "member_of modality_value modalities_all (U (modality_value m)) = Some m"
  by (cases m) (simp_all add: member_of_def modalities_all_def)

lemma member_of_signal [simp]: "member_of signal_value signals_all (U (signal_value m)) = Some m"
  by (cases m) (simp_all add: member_of_def signals_all_def)

subsection \<open>Text\<close>

definition is_xml_character :: "ustr \<Rightarrow> bool" where
  "is_xml_character s \<longleftrightarrow> list_all (\<lambda>c. c = 9 \<or> c = 10 \<or> c = 13 \<or> (32 \<le> c \<and> c \<le> 55295)
     \<or> (57344 \<le> c \<and> c \<le> 65533) \<or> (65536 \<le> c \<and> c \<le> 1114111)) s"

definition text_value :: "json \<Rightarrow> string \<Rightarrow> bool \<Rightarrow> ustr result" where
  "text_value v path trim =
     (case v of
        JStr s \<Rightarrow>
          if \<not> is_xml_character s
          then Inl (ValidationError (path @ '' contains a character not allowed by XML 1.0''))
          else let r = (if trim then strip s else s)
               in if r = [] then Inl (ValidationError (path @ '' must be a non-empty string'')) else Inr r
      | _ \<Rightarrow> Inl (ValidationError (path @ '' must be a non-empty string'')))"

text \<open>What every stored identifier satisfies.\<close>

definition text_ok :: "ustr \<Rightarrow> bool" where
  "text_ok s \<longleftrightarrow> s \<noteq> [] \<and> is_xml_character s \<and> stripped s"

text \<open>A nonempty literal of visible ASCII characters is a valid identifier.\<close>

definition visible_ascii :: "string \<Rightarrow> bool" where
  "visible_ascii s \<longleftrightarrow> s \<noteq> [] \<and> list_all (\<lambda>c. 33 \<le> (of_char c :: int) \<and> (of_char c :: int) \<le> 126) s"

lemma text_ok_visible_ascii:
  assumes "visible_ascii s"
  shows "text_ok (U s)"
proof -
  have "33 \<le> c \<and> c \<le> 126" if c: "c \<in> set (U s)" for c
  proof -
    obtain d where "d \<in> set s" "c = of_char d" using c by (auto simp: U_def)
    moreover have "(of_char d :: int) = int (of_char d)" by (metis of_nat_of_char)
    ultimately show ?thesis using assms by (auto simp: visible_ascii_def list_all_iff)
  qed
  moreover from this have "\<not> is_space c" if "c \<in> set (U s)" for c
    using that by (fastforce simp: is_space_def)
  moreover have "U s \<noteq> []" using assms by (simp add: visible_ascii_def)
  ultimately show ?thesis by (fastforce simp: text_ok_def is_xml_character_def stripped_def list_all_iff)
qed

lemma is_xml_strip: "is_xml_character s \<Longrightarrow> is_xml_character (strip s)"
  using set_strip [of s] by (auto simp: is_xml_character_def list_all_iff)

lemma text_value_trim_ok: "text_value v path True = Inr s \<Longrightarrow> text_ok s"
  by (cases v) (auto simp: text_value_def Let_def text_ok_def is_xml_strip stripped_strip split: if_splits)

lemma text_value_id [simp]: "text_ok s \<Longrightarrow> text_value (JStr s) path trim = Inr s"
  by (simp add: text_value_def text_ok_def Let_def strip_stripped)

lemma text_value_untrimmed: "text_value v path False = Inr s \<longleftrightarrow> v = JStr s \<and> is_xml_character s \<and> s \<noteq> []"
  by (cases v) (auto simp: text_value_def)

subsection \<open>Timestamps\<close>

record pydatetime =
  wall_clock :: int
  utc_offset :: "int option"

definition max_instant :: int where
  "max_instant = 3652059 * 86400 * 10 ^ 6 - 1"

definition valid_instant :: "int \<Rightarrow> bool" where
  "valid_instant t \<longleftrightarrow> 0 \<le> t \<and> t \<le> max_instant"

definition normalize_datetime :: "pydatetime \<Rightarrow> string \<Rightarrow> int result" where
  "normalize_datetime d path =
     (case utc_offset d of
        None \<Rightarrow> Inl (ValidationError (path @ '' must include a UTC offset''))
      | Some off \<Rightarrow>
          let t = wall_clock d - off
          in if valid_instant t then Inr t
             else Inl (ValidationError (path @ '' must be a valid timezone-aware datetime'')))"

definition utc :: "int \<Rightarrow> pydatetime" where
  "utc t = \<lparr>wall_clock = t, utc_offset = Some 0\<rparr>"

lemma normalize_utc [simp]: "valid_instant t \<Longrightarrow> normalize_datetime (utc t) path = Inr t"
  by (simp add: normalize_datetime_def utc_def)

lemma normalize_datetime_valid: "normalize_datetime d path = Inr t \<Longrightarrow> valid_instant t"
  by (auto simp: normalize_datetime_def Let_def split: option.splits if_splits)

text \<open>
  \<open>datetime.isoformat\<close> of a UTC instant without its \<open>+00:00\<close>: the proleptic
  Gregorian date of a day number (CPython's \<open>_ord2ymd\<close>) and the time of day, with six digits of
  microseconds when there are any.
\<close>

definition pad :: "nat \<Rightarrow> int \<Rightarrow> ustr" where
  "pad n i = (let d = digits_of i in replicate (n - length d) 48 @ d)"

definition days_before_month :: "int list" where
  "days_before_month = [0, 31, 59, 90, 120, 151, 181, 212, 243, 273, 304, 334]"

definition ord2ymd :: "int \<Rightarrow> int \<times> int \<times> int" where
  "ord2ymd day =
     (let n400 = day div 146097; r400 = day mod 146097;
          n100 = r400 div 36524; r100 = r400 mod 36524;
          n4 = r100 div 1461; r4 = r100 mod 1461;
          n1 = r4 div 365; n = r4 mod 365;
          year = n400 * 400 + 1 + n100 * 100 + n4 * 4 + n1
      in if n1 = 4 \<or> n100 = 4 then (year - 1, 12, 31)
         else let leap = (n1 = 3 \<and> (n4 \<noteq> 24 \<or> n100 = 3));
                  before = (\<lambda>m. days_before_month ! nat (m - 1) + (if m > 2 \<and> leap then 1 else 0));
                  guess = (n + 50) div 32;
                  month = (if before guess > n then guess - 1 else guess)
              in (year, month, n - before month + 1))"

definition iso_base :: "int \<Rightarrow> ustr" where
  "iso_base t =
     (let day = t div (86400 * 10 ^ 6); us = t mod (86400 * 10 ^ 6);
          (y, m, d) = ord2ymd day;
          sec = us div 10 ^ 6; frac = us mod 10 ^ 6
      in pad 4 y @ [45] @ pad 2 m @ [45] @ pad 2 d @ [84]
         @ pad 2 (sec div 3600) @ [58] @ pad 2 (sec div 60 mod 60) @ [58] @ pad 2 (sec mod 60)
         @ (if frac = 0 then [] else [46] @ pad 6 frac))"

text \<open>\<open>isoformat().replace("+00:00", "Z")\<close> of a normalized instant.\<close>

definition format_timestamp :: "int \<Rightarrow> ustr" where
  "format_timestamp t = iso_base t @ U ''Z''"

text \<open>
  Documented behaviour: \<open>datetime.fromisoformat\<close> is the inverse of
  \<open>datetime.isoformat\<close>.
\<close>

definition iso_contract :: "runtime \<Rightarrow> bool" where
  "iso_contract rt \<longleftrightarrow>
     (\<forall>t. valid_instant t \<longrightarrow> rt_fromiso rt (iso_base t @ U ''+00:00'') = Some (t, Some 0))"

definition parse_timestamp :: "runtime \<Rightarrow> json \<Rightarrow> string \<Rightarrow> int result" where
  "parse_timestamp rt v path =
     (case v of
        JStr s \<Rightarrow>
          if strip s = [] then Inl (ValidationError (path @ '' must be a non-empty ISO-8601 string''))
          else rbind (text_value v path True) (\<lambda>n.
            let n' = (if last n = 90 then butlast n @ U ''+00:00'' else n)
            in case rt_fromiso rt n' of
                 None \<Rightarrow> Inl (ValidationError (path @ '' is not a valid ISO-8601 timestamp''))
               | Some (w, off) \<Rightarrow> normalize_datetime \<lparr>wall_clock = w, utc_offset = off\<rparr> path)
      | _ \<Rightarrow> Inl (ValidationError (path @ '' must be a non-empty ISO-8601 string'')))"

definition iso_char :: "nat \<Rightarrow> bool" where
  "iso_char c \<longleftrightarrow> (48 \<le> c \<and> c \<le> 57) \<or> c = 45 \<or> c = 58 \<or> c = 46 \<or> c = 84 \<or> c = 90"

lemma iso_base_chars: "list_all iso_char (iso_base t)"
proof -
  have P: "list_all iso_char (pad n i)" for n i
    using digits_of_chars [of i] by (auto simp: pad_def Let_def list_all_iff iso_char_def)
  have C: "iso_char 45" "iso_char 84" "iso_char 58" "iso_char 46" by (simp_all add: iso_char_def)
  show ?thesis
    unfolding iso_base_def Let_def
    by (simp only: list_all_append list.pred_inject P C split: prod.split if_split) simp
qed

lemma format_timestamp_text_ok: "text_ok (format_timestamp t)"
proof -
  have ne: "iso_base t \<noteq> []"
    unfolding iso_base_def Let_def by (simp only: split: prod.split) simp
  have "iso_char c \<Longrightarrow> \<not> is_space c \<and> 32 \<le> c \<and> c \<le> 55295" for c
    by (auto simp: iso_char_def is_space_def)
  moreover have "iso_char (hd (iso_base t))"
    using iso_base_chars [of t] ne by (simp add: list_all_iff)
  ultimately show ?thesis
    using iso_base_chars [of t] ne
    by (auto simp: text_ok_def format_timestamp_def is_xml_character_def stripped_def U_def list_all_iff
        is_space_def)
qed

lemma parse_format_timestamp:
  assumes "iso_contract rt" "valid_instant t"
  shows "parse_timestamp rt (JStr (format_timestamp t)) path = Inr t"
proof -
  have ok: "text_ok (format_timestamp t)" by (rule format_timestamp_text_ok)
  then have "strip (format_timestamp t) \<noteq> []" by (simp add: text_ok_def strip_stripped)
  moreover have "last (format_timestamp t) = 90" "butlast (format_timestamp t) = iso_base t"
    by (simp_all add: format_timestamp_def U_def)
  ultimately show ?thesis
    using ok assms normalize_utc [OF assms(2)]
    by (simp add: parse_timestamp_def iso_contract_def utc_def)
qed

lemma format_timestamp_inj:
  assumes "iso_contract rt" "valid_instant s" "valid_instant t" "format_timestamp s = format_timestamp t"
  shows "s = t"
  using assms by (metis Inr_inject parse_format_timestamp)

lemma parse_timestamp_valid: "parse_timestamp rt v path = Inr t \<Longrightarrow> valid_instant t"
  by (cases v) (auto simp: parse_timestamp_def Let_def dest: normalize_datetime_valid
      split: if_splits option.splits)

subsection \<open>Objects\<close>

definition mapping_value :: "json \<Rightarrow> string \<Rightarrow> (ustr \<times> json) list result" where
  "mapping_value v path =
     (case v of JObj kvs \<Rightarrow> Inr kvs | _ \<Rightarrow> Inl (ValidationError (path @ '' must be an object'')))"

definition only_fields :: "(ustr \<times> json) list \<Rightarrow> string list \<Rightarrow> string \<Rightarrow> unit result" where
  "only_fields kvs allowed path =
     require (set (map fst kvs) \<subseteq> set (map U allowed)) (path @ '' contains unknown field(s)'')"

text \<open>\<open>data.get(key, default)\<close> and \<open>data.get(key)\<close>.\<close>

definition dget_or :: "(ustr \<times> json) list \<Rightarrow> string \<Rightarrow> json \<Rightarrow> json" where
  "dget_or kvs k d = (case map_of kvs (U k) of None \<Rightarrow> d | Some v \<Rightarrow> v)"

definition dget :: "(ustr \<times> json) list \<Rightarrow> string \<Rightarrow> json" where
  "dget kvs k = dget_or kvs k JNull"

definition required_string :: "(ustr \<times> json) list \<Rightarrow> string \<Rightarrow> string \<Rightarrow> ustr result" where
  "required_string kvs k path = text_value (dget kvs k) (path @ ''.'' @ k) True"

definition named_mapping :: "(ustr \<times> 'a) list \<Rightarrow> string \<Rightarrow> (ustr \<times> 'a) list result" where
  "named_mapping kvs path =
     rmap (\<lambda>kv. rbind (text_value (JStr (fst kv)) (path @ '' key'') False) (\<lambda>name.
       if name \<noteq> strip name
       then Inl (ValidationError (path @ '' keys must not have leading or trailing whitespace''))
       else Inr (name, snd kv))) kvs"

lemma named_mapping_eq:
  assumes "named_mapping kvs path = Inr r"
  shows "r = kvs \<and> (\<forall>k \<in> set (map fst kvs). text_ok k)"
proof -
  let ?f = "\<lambda>kv. rbind (text_value (JStr (fst kv)) (path @ '' key'') False) (\<lambda>name.
       if name \<noteq> strip name
       then Inl (ValidationError (path @ '' keys must not have leading or trailing whitespace''))
       else Inr (name, snd kv))"
  have step: "?f kv = Inr kv' \<Longrightarrow> kv' = kv \<and> text_ok (fst kv)" for kv kv'
    by (auto simp: text_value_untrimmed text_ok_def split: if_splits)
  have r: "rmap ?f kvs = Inr r" using assms by (simp only: named_mapping_def)
  have "r = map id kvs" by (rule rmap_Inr_map [OF r]) (drule step, simp only: id_apply)
  moreover have "text_ok (fst kv)" if "kv \<in> set kvs" for kv
    using rmap_Inr_elem [OF r that] step by blast
  ultimately show ?thesis by auto
qed

lemma dget_simps [simp]:
  "dget ((U k, v) # kvs) j = (if k = j then v else dget kvs j)" "dget [] j = JNull"
  "dget_or ((U k, v) # kvs) j d = (if k = j then v else dget_or kvs j d)" "dget_or [] j d = d"
  by (simp_all add: dget_def dget_or_def)

subsection \<open>Numbers\<close>

definition max_double :: rat where
  "max_double = of_int ((2 ^ 53 - 1) * 2 ^ 971)"

text \<open>
  \<open>float(value)\<close> of an integer or a float; an integer too large for a double is an error.
  Rounding is the identity on the doubles a Python float can hold.
\<close>

fun to_float :: "json \<Rightarrow> pyfloat option" where
  "to_float (JInt i) = (let x = fl (of_int i) in if \<bar>x\<bar> > max_double then None else Some (Fin x))"
| "to_float (JFloat (Fin x)) = Some (Fin (fl x))"
| "to_float (JFloat x) = Some x"
| "to_float _ = None"

definition number_value :: "json \<Rightarrow> string \<Rightarrow> rat \<Rightarrow> rat option \<Rightarrow> rat result" where
  "number_value v path minimum maximum =
     (if (case v of JInt _ \<Rightarrow> False | JFloat _ \<Rightarrow> False | _ \<Rightarrow> True)
      then Inl (ValidationError (path @ '' must be a number''))
      else case to_float v of
        None \<Rightarrow> Inl (ValidationError (path @ '' must be a finite number''))
      | Some x \<Rightarrow>
          let bad = Inl (ValidationError (path @ '' must be finite and in range'')) in
          (case (case x of Fin q \<Rightarrow> Some q | NegZero \<Rightarrow> Some 0 | _ \<Rightarrow> None) of
             None \<Rightarrow> bad
           | Some q \<Rightarrow>
               if q < minimum \<or> (case maximum of None \<Rightarrow> False | Some m \<Rightarrow> q > m) then bad else Inr q))"

text \<open>The range check \<open>_number\<close> makes of a value that already is a finite float.\<close>

definition number_ok :: "rat \<Rightarrow> rat \<Rightarrow> rat option \<Rightarrow> bool" where
  "number_ok q minimum maximum \<longleftrightarrow> minimum \<le> q \<and> (case maximum of None \<Rightarrow> True | Some m \<Rightarrow> q \<le> m)"

lemma number_value_Fin:
  "is_double q \<Longrightarrow> number_value (JFloat (Fin q)) path lo hi =
     (if number_ok q lo hi then Inr q else Inl (ValidationError (path @ '' must be finite and in range'')))"
  by (auto simp: number_value_def number_ok_def Let_def is_double_def split: option.splits)

lemma to_float_double: "to_float v = Some (Fin x) \<Longrightarrow> is_double x"
  by (induction v rule: to_float.induct) (auto simp: Let_def is_double_fl split: if_splits)

lemma number_value_bounds: "number_value v path lo hi = Inr q \<Longrightarrow> number_ok q lo hi \<and> is_double q"
  by (auto simp: number_value_def number_ok_def Let_def not_less
      split: if_splits option.splits pyfloat.splits dest: to_float_double)

definition min_positive :: rat where
  "min_positive = fl (1 / 1000000)"

definition max_attribute_integer :: int where
  "max_attribute_integer = 10 ^ 640 - 1"

definition positive_int :: "json \<Rightarrow> string \<Rightarrow> int result" where
  "positive_int v path =
     (case v of
        JInt i \<Rightarrow>
          if i < 1 then Inl (ValidationError (path @ '' must be an integer >= 1''))
          else if i > max_attribute_integer
          then Inl (ValidationError (path @ '' integer must contain at most 640 digits''))
          else Inr i
      | _ \<Rightarrow> Inl (ValidationError (path @ '' must be an integer >= 1'')))"

definition nonnegative_int :: "json \<Rightarrow> string \<Rightarrow> int result" where
  "nonnegative_int v path =
     (case v of
        JInt i \<Rightarrow>
          if i < 0 then Inl (ValidationError (path @ '' must be an integer >= 0''))
          else if i > max_attribute_integer
          then Inl (ValidationError (path @ '' integer must contain at most 640 digits''))
          else Inr i
      | _ \<Rightarrow> Inl (ValidationError (path @ '' must be an integer >= 0'')))"

lemma positive_int_Inr [simp]:
  "positive_int v path = Inr i \<longleftrightarrow> v = JInt i \<and> 1 \<le> i \<and> i \<le> max_attribute_integer"
  by (cases v) (auto simp: positive_int_def)

lemma nonnegative_int_Inr [simp]:
  "nonnegative_int v path = Inr i \<longleftrightarrow> v = JInt i \<and> 0 \<le> i \<and> i \<le> max_attribute_integer"
  by (cases v) (auto simp: nonnegative_int_def)

subsection \<open>Enumeration strings and text tuples\<close>

definition enum_from_json :: "json \<Rightarrow> ('a \<Rightarrow> string) \<Rightarrow> 'a list \<Rightarrow> string \<Rightarrow> 'a result" where
  "enum_from_json v value members path =
     (case v of
        JStr s \<Rightarrow> (case member_of value members s of
                     None \<Rightarrow> Inl (ValidationError (path @ '' must be one of the known values''))
                   | Some m \<Rightarrow> Inr m)
      | _ \<Rightarrow> Inl (ValidationError (path @ '' must be one of the known values'')))"

definition immutable_text_tuple :: "json \<Rightarrow> string \<Rightarrow> ustr list result" where
  "immutable_text_tuple v path =
     (case v of
        JArr xs \<Rightarrow> rmap (\<lambda>x. rbind (text_value x path False) (\<lambda>s.
          if s \<noteq> strip s then Inl (ValidationError (path @ '' must not have surrounding whitespace''))
          else Inr s)) xs
      | _ \<Rightarrow> Inl (ValidationError (path @ '' must be a sequence of strings'')))"

definition canonical_text_tuple :: "json \<Rightarrow> string \<Rightarrow> ustr list result" where
  "canonical_text_tuple v path =
     rbind (immutable_text_tuple v path) (\<lambda>xs.
       if distinct xs then Inr (sort xs)
       else Inl (ValidationError (path @ '' must not contain duplicates'')))"

definition modality_tuple :: "json \<Rightarrow> string \<Rightarrow> ustr list result" where
  "modality_tuple v path =
     rbind (canonical_text_tuple v path) (\<lambda>names.
       if list_all (\<lambda>n. n \<in> set (map (\<lambda>m. U (modality_value m)) modalities_all)) names then Inr names
       else Inl (ValidationError (path @ '' is not a supported modality'')))"

lemma immutable_text_tuple_JStr:
  assumes "\<And>s. s \<in> set ss \<Longrightarrow> text_ok s"
  shows "immutable_text_tuple (JArr (map JStr ss)) path = Inr ss"
  using assms
  by (induction ss) (auto simp: immutable_text_tuple_def text_ok_def strip_stripped)

lemma canonical_text_tuple_JStr:
  assumes "\<And>s. s \<in> set ss \<Longrightarrow> text_ok s" "distinct ss"
  shows "canonical_text_tuple (JArr (map JStr ss)) path = Inr (sort ss)"
  using assms by (simp add: canonical_text_tuple_def immutable_text_tuple_JStr)

subsection \<open>Freezing JSON values\<close>

definition max_attribute_depth :: int where
  "max_attribute_depth = 64"

definition max_attribute_nodes :: int where
  "max_attribute_nodes = 1000000"

lemma small_count:
  assumes "k \<le> 10 ^ 9"
  shows "k \<le> max_attribute_integer"
proof -
  have "(10::int) ^ 9 < 10 ^ 640" by (rule power_strict_increasing) simp_all
  then show ?thesis using assms unfolding max_attribute_integer_def by linarith
qed

text \<open>
  \<open>_freeze_json\<close> validates a value and copies it into immutable containers; the copy
  is the same JSON value, so the model returns the remaining node budget. A JSON tree has no
  reference cycle, and lists and the tuples of an already frozen value are one kind of array here.
\<close>

function (sequential) freeze :: "bool \<Rightarrow> int \<Rightarrow> int \<Rightarrow> json \<Rightarrow> int result"
  and freeze_items :: "bool \<Rightarrow> int \<Rightarrow> int \<Rightarrow> json list \<Rightarrow> int result"
  and freeze_members :: "bool \<Rightarrow> int \<Rightarrow> int \<Rightarrow> (ustr \<times> json) list \<Rightarrow> int result" where
  "freeze scalars depth budget v =
     (if budget = 0 then Inl (ValidationError ''exceeds the maximum JSON value count'')
      else if depth > max_attribute_depth
      then Inl (ValidationError ''exceeds the maximum attribute nesting depth'')
      else case v of
        JNull \<Rightarrow> Inr (budget - 1)
      | JBool b \<Rightarrow> Inr (budget - 1)
      | JInt i \<Rightarrow>
          if scalars \<and> \<bar>i\<bar> > max_attribute_integer
          then Inl (ValidationError ''integer must contain at most 640 digits'')
          else Inr (budget - 1)
      | JFloat x \<Rightarrow>
          if scalars \<and> \<not> finite_float x
          then Inl (ValidationError ''must contain only finite JSON numbers'') else Inr (budget - 1)
      | JStr s \<Rightarrow>
          if scalars \<and> \<not> is_xml_character s
          then Inl (ValidationError ''contains a character not allowed by XML 1.0'')
          else Inr (budget - 1)
      | JObj kvs \<Rightarrow>
          freeze_members scalars (depth + 1) (budget - 1) kvs
      | JArr xs \<Rightarrow> freeze_items scalars (depth + 1) (budget - 1) xs)"
| "freeze_items scalars depth budget [] = Inr budget"
| "freeze_items scalars depth budget (x # xs) =
     rbind (freeze scalars depth budget x) (\<lambda>b. freeze_items scalars depth b xs)"
| "freeze_members scalars depth budget [] = Inr budget"
| "freeze_members scalars depth budget ((k, v) # kvs) =
     (if \<not> is_xml_character k then Inl (ValidationError ''contains a key not allowed by XML 1.0'')
      else rbind (freeze scalars depth budget v) (\<lambda>b. freeze_members scalars depth b kvs))"
  by pat_completeness auto
termination
  by (relation "measure (\<lambda>x. case x of Inl (_, _, _, v) \<Rightarrow> 2 * size v
        | Inr (Inl (_, _, _, xs)) \<Rightarrow> Suc (2 * size_list size xs)
        | Inr (Inr (_, _, _, kvs)) \<Rightarrow> Suc (2 * size_list (size_prod (\<lambda>_. 0) size) kvs))") auto

declare freeze.simps [simp del]

definition freeze_json :: "bool \<Rightarrow> json \<Rightarrow> json result" where
  "freeze_json scalars v = rbind (freeze scalars 0 max_attribute_nodes v) (\<lambda>_. Inr v)"

lemma freeze_finite_aux:
  "freeze True d b v = Inr b' \<Longrightarrow> json_finite v"
  "freeze_items True d b xs = Inr b' \<Longrightarrow> list_all json_finite xs"
  "freeze_members True d b kvs = Inr b' \<Longrightarrow> list_all (\<lambda>kv. json_finite (snd kv)) kvs"
proof (induction True d b v and True d b xs and True d b kvs arbitrary: b' and b' and b'
    rule: freeze_freeze_items_freeze_members.induct)
  case (1 d b v)
  then show ?case
    by (subst (asm) freeze.simps) (auto split: if_splits json.splits)
qed (auto split: if_splits)

definition frozen :: "json \<Rightarrow> bool" where
  "frozen v \<longleftrightarrow> is_ok (freeze True 0 max_attribute_nodes v)"

lemma freeze_json_True [simp]: "freeze_json True v = Inr w \<longleftrightarrow> w = v \<and> frozen v"
  by (auto simp: freeze_json_def frozen_def is_ok_iff)

lemma frozen_finite: "frozen v \<Longrightarrow> json_finite v"
  by (auto simp: frozen_def is_ok_iff dest: freeze_finite_aux(1))

lemma freeze_json_Inr: "freeze_json sc v = Inr w \<Longrightarrow> w = v \<and> (sc \<longrightarrow> json_finite v)"
  by (cases sc) (auto simp: freeze_json_def dest: freeze_finite_aux(1))

end
