(* ===== verification/Migrations.thy ===== *)
theory Migrations
  imports Values
begin

text \<open>
  Policy schema upgrades (migrations.py). A document is a JSON object; an upgrade rewrites it
  one version at a time and reports each field it added. The lemmas show that an upgrade
  only adds an empty \<open>required_modalities\<close> to each claim, keeps every other member, and
  leaves a document of the current version as it is.
\<close>

subsection \<open>Notes and reports\<close>

record migration_note =
  note_path :: ustr
  note_change :: ustr

definition MigrationNote_init :: "json \<Rightarrow> json \<Rightarrow> migration_note result" where
  "MigrationNote_init path change =
     rbind (text_value path ''migration_note.path'' True) (\<lambda>p.
     rbind (text_value change ''migration_note.change'' True) (\<lambda>c.
     Inr \<lparr>note_path = p, note_change = c\<rparr>))"

definition MigrationNote_snapshot :: "migration_note \<Rightarrow> migration_note result" where
  "MigrationNote_snapshot n = MigrationNote_init (JStr (note_path n)) (JStr (note_change n))"

definition MigrationNote_to_dict_unchecked :: "migration_note \<Rightarrow> json" where
  "MigrationNote_to_dict_unchecked n =
     JObj [(U ''path'', JStr (note_path n)), (U ''change'', JStr (note_change n))]"

definition MigrationNote_to_dict :: "migration_note \<Rightarrow> json result" where
  "MigrationNote_to_dict n =
     rbind (MigrationNote_snapshot n) (\<lambda>s. Inr (MigrationNote_to_dict_unchecked s))"

record migration_report =
  from_version :: int
  to_version :: int
  report_notes :: "migration_note list"

definition current_policy_schema_version :: int where
  "current_policy_schema_version = 2"

definition earliest_policy_schema_version :: int where
  "earliest_policy_schema_version = 1"

definition max_migration_notes :: int where
  "max_migration_notes = 100000"

definition MigrationReport_init :: "json \<Rightarrow> json \<Rightarrow> migration_note list \<Rightarrow> migration_report result" where
  "MigrationReport_init from_v to_v notes =
     rbind (nonnegative_int from_v ''migration_report.from_version'') (\<lambda>f.
     rbind (nonnegative_int to_v ''migration_report.to_version'') (\<lambda>t.
     if \<not> (earliest_policy_schema_version \<le> f \<and> f \<le> current_policy_schema_version)
     then Inl (ValidationError ''migration_report.from_version must be a supported policy schema version'')
     else if \<not> (earliest_policy_schema_version \<le> t \<and> t \<le> current_policy_schema_version)
     then Inl (ValidationError ''migration_report.to_version must be a supported policy schema version'')
     else if t < f
     then Inl (ValidationError ''migration_report.to_version must not precede from_version'')
     else rbind (rmap MigrationNote_snapshot (take (nat max_migration_notes) notes)) (\<lambda>snapshots.
       if int (length notes) > max_migration_notes
       then Inl (ValidationError ''migration_report.notes may contain at most 100000 entries'')
       else if f = t \<and> snapshots \<noteq> []
       then Inl (ValidationError ''an unmigrated report must not contain migration notes'')
       else Inr \<lparr>from_version = f, to_version = t, report_notes = snapshots\<rparr>)))"

definition MigrationReport_migrated :: "migration_report \<Rightarrow> bool" where
  "MigrationReport_migrated r \<longleftrightarrow> from_version r \<noteq> to_version r"

definition MigrationReport_to_dict :: "migration_report \<Rightarrow> json result" where
  "MigrationReport_to_dict r =
     rbind (MigrationReport_init (JInt (from_version r)) (JInt (to_version r)) (report_notes r)) (\<lambda>s.
     Inr (JObj [(U ''from_version'', JInt (from_version s)), (U ''to_version'', JInt (to_version s)),
                (U ''migrated'', JBool (MigrationReport_migrated s)),
                (U ''notes'', JArr (map MigrationNote_to_dict_unchecked (report_notes s)))]))"

subsection \<open>Upgrading a document\<close>

definition policy_schema_version :: "json \<Rightarrow> int result" where
  "policy_schema_version raw =
     (case raw of
        JObj kvs \<Rightarrow>
          (case dget kvs ''schema_version'' of
             JInt v \<Rightarrow>
               if v < earliest_policy_schema_version
               then Inl (ValidationError ''policy.schema_version is older than the earliest supported version'')
               else if v > current_policy_schema_version
               then Inl (ValidationError ''policy.schema_version is newer than this build understands'')
               else Inr v
           | _ \<Rightarrow> Inl (ValidationError ''policy.schema_version must be an integer''))
      | _ \<Rightarrow> Inl (ValidationError ''policy must be a JSON object''))"

text \<open>\<open>d[k] = v\<close> on a dictionary: in place when the key is present, appended otherwise.\<close>

fun dict_set :: "ustr \<Rightarrow> 'a \<Rightarrow> (ustr \<times> 'a) list \<Rightarrow> (ustr \<times> 'a) list" where
  "dict_set k v [] = [(k, v)]"
| "dict_set k v ((j, w) # kvs) = (if j = k then (k, v) # kvs else (j, w) # dict_set k v kvs)"

lemma map_of_dict_set [simp]: "map_of (dict_set k v kvs) = (map_of kvs)(k \<mapsto> v)"
  by (induction kvs) (auto simp: fun_eq_iff)

lemma dict_set_keys: "set (map fst (dict_set k v kvs)) = insert k (set (map fst kvs))"
proof -
  have "fst ` set (dict_set k v kvs) = dom (map_of (dict_set k v kvs))"
    by (rule dom_map_of_conv_image_fst [symmetric])
  also have "\<dots> = insert k (fst ` set kvs)" by (simp add: dom_map_of_conv_image_fst)
  finally show ?thesis by simp
qed

lemma distinct_dict_set: "distinct (map fst kvs) \<Longrightarrow> distinct (map fst (dict_set k v kvs))"
proof (induction kvs)
  case (Cons jw kvs)
  then show ?case using dict_set_keys [of k v kvs] by (cases jw) auto
qed simp

definition policy_claims :: "(ustr \<times> json) list \<Rightarrow> (ustr \<times> json) list result" where
  "policy_claims document =
     (case dget document ''claims'' of
        JObj kvs \<Rightarrow> Inr kvs | _ \<Rightarrow> Inl (ValidationError ''policy.claims must be a JSON object''))"

definition upgrade_claim ::
  "(ustr \<times> json) list \<times> migration_note list \<Rightarrow> ustr \<Rightarrow> ((ustr \<times> json) list \<times> migration_note list) result" where
  "upgrade_claim st name =
     (let (claims, notes) = st in
      case map_of claims name of
        Some (JObj rule) \<Rightarrow>
          if map_of rule (U ''required_modalities'') \<noteq> None
          then Inl (ValidationError ''policy.claims required_modalities is not part of schema 1'')
          else rbind (MigrationNote_init
                 (JStr (U ''policy.claims.'' @ name @ U ''.required_modalities''))
                 (JText ''added [] because schema 1 could not require a modality'')) (\<lambda>note.
               Inr (dict_set name (JObj (dict_set (U ''required_modalities'') (JArr []) rule)) claims,
                    notes @ [note]))
      | _ \<Rightarrow> Inl (ValidationError ''policy.claims must be a JSON object''))"

definition upgrade_1_to_2 ::
  "(ustr \<times> json) list \<Rightarrow> ((ustr \<times> json) list \<times> migration_note list) result" where
  "upgrade_1_to_2 document =
     rbind (policy_claims document) (\<lambda>claims.
     rbind (rfold upgrade_claim (claims, []) (sort (map fst claims))) (\<lambda>(claims', notes).
     Inr (dict_set (U ''schema_version'') (JInt 2) (dict_set (U ''claims'') (JObj claims') document), notes)))"

text \<open>The version loop; version 1 is the only one with a registered upgrade.\<close>

function upgrade_loop ::
  "int \<Rightarrow> (ustr \<times> json) list \<Rightarrow> migration_note list
     \<Rightarrow> (int \<times> (ustr \<times> json) list \<times> migration_note list) result" where
  "upgrade_loop version document notes =
     (if version < current_policy_schema_version
      then if version \<noteq> 1 then Inl (ValidationError ''no upgrade is registered from policy schema'')
           else rbind (upgrade_1_to_2 document) (\<lambda>(document', step_notes).
                upgrade_loop (version + 1) document' (notes @ step_notes))
      else Inr (version, document, notes))"
  by pat_completeness auto
termination
  by (relation "measure (\<lambda>(v, _). nat (current_policy_schema_version - v))")
    (auto simp: current_policy_schema_version_def)

declare upgrade_loop.simps [simp del]

definition migrate_policy_document :: "json \<Rightarrow> (json \<times> migration_report) result" where
  "migrate_policy_document raw =
     (case raw of
        JObj kvs \<Rightarrow>
          rbind (freeze_json False raw) (\<lambda>_.
          rbind (policy_schema_version raw) (\<lambda>from_v.
          rbind (upgrade_loop from_v kvs []) (\<lambda>(version, document, notes).
          rbind (MigrationReport_init (JInt from_v) (JInt version) notes) (\<lambda>report.
          Inr (JObj document, report)))))
      | _ \<Rightarrow> Inl (ValidationError ''policy must be a JSON object''))"

subsection \<open>What an upgrade does\<close>

lemma policy_schema_version_Inr:
  "policy_schema_version raw = Inr v \<Longrightarrow>
     (v = 1 \<or> v = 2) \<and> (\<exists>kvs. raw = JObj kvs \<and> map_of kvs (U ''schema_version'') = Some (JInt v))"
  by (auto simp: policy_schema_version_def dget_def dget_or_def earliest_policy_schema_version_def
      current_policy_schema_version_def split: json.splits if_splits option.splits)

lemma upgrade_claim_Inr:
  "upgrade_claim (cs, ns) name = Inr (cs', ns') \<Longrightarrow>
     \<exists>rule note. map_of cs name = Some (JObj rule) \<and> map_of rule (U ''required_modalities'') = None
       \<and> cs' = dict_set name (JObj (dict_set (U ''required_modalities'') (JArr []) rule)) cs
       \<and> ns' = ns @ [note]"
  by (auto simp: upgrade_claim_def split: option.splits json.splits if_splits)

text \<open>After the loop over the names, exactly the named claims have gained an empty list.\<close>

definition claim_upgraded :: "json option \<Rightarrow> json option \<Rightarrow> bool" where
  "claim_upgraded old new \<longleftrightarrow>
     (\<exists>rule. old = Some (JObj rule) \<and> map_of rule (U ''required_modalities'') = None
        \<and> new = Some (JObj (dict_set (U ''required_modalities'') (JArr []) rule)))"

lemma upgrade_claims_fold:
  assumes "rfold upgrade_claim (cs, ns) names = Inr (cs', ns')" "distinct names"
  shows "(\<forall>k. if k \<in> set names then claim_upgraded (map_of cs k) (map_of cs' k) else map_of cs' k = map_of cs k)
      \<and> length ns' = length ns + length names"
  using assms
proof (induction names arbitrary: cs ns)
  case (Cons n names)
  then obtain cs1 ns1 where step: "upgrade_claim (cs, ns) n = Inr (cs1, ns1)"
    and rest: "rfold upgrade_claim (cs1, ns1) names = Inr (cs', ns')" by auto
  from upgrade_claim_Inr [OF step] have "claim_upgraded (map_of cs n) (map_of cs1 n)"
    and other: "\<And>k. k \<noteq> n \<Longrightarrow> map_of cs1 k = map_of cs k" and "length ns1 = Suc (length ns)"
    by (auto simp: claim_upgraded_def)
  moreover have "map_of cs k = map_of cs1 k" if "k \<in> set names" for k
    using other [of k] Cons.prems(2) that by (metis distinct.simps(2))
  ultimately show ?case using Cons.IH [OF rest] Cons.prems(2) by (auto split: if_splits)
qed simp

lemma upgrade_1_to_2_Inr:
  assumes "upgrade_1_to_2 doc = Inr (doc', notes)"
    and "map_of doc (U ''claims'') = Some (JObj claims)" "distinct (map fst claims)"
  shows "\<exists>claims'. map_of doc' = (map_of doc)(U ''claims'' \<mapsto> JObj claims', U ''schema_version'' \<mapsto> JInt 2)
      \<and> (\<forall>k. if k \<in> set (map fst claims) then claim_upgraded (map_of claims k) (map_of claims' k)
              else map_of claims' k = None)
      \<and> length notes = length claims"
proof -
  have "policy_claims doc = Inr claims"
    using assms(2) by (simp add: policy_claims_def dget_def dget_or_def)
  with assms(1) obtain claims' where
    fold: "rfold upgrade_claim (claims, []) (sort (map fst claims)) = Inr (claims', notes)"
    and doc': "doc' = dict_set (U ''schema_version'') (JInt 2) (dict_set (U ''claims'') (JObj claims') doc)"
    by (auto simp: upgrade_1_to_2_def)
  have "map_of claims k = None" if "k \<notin> set (map fst claims)" for k
    using that by (simp add: map_of_eq_None_iff)
  with upgrade_claims_fold [OF fold] assms(3) have
    "\<forall>k. if k \<in> set (map fst claims) then claim_upgraded (map_of claims k) (map_of claims' k)
         else map_of claims' k = None" "length notes = length claims"
    by auto
  then show ?thesis unfolding doc' by (intro exI [of _ claims']) simp
qed

subsection \<open>Properties\<close>

text \<open>
  A successful migration of a document that declares schema 1 changes only \<open>schema_version\<close>
  (now 2) and \<open>claims\<close>; each claim keeps its members and gains an empty
  \<open>required_modalities\<close>, and the report has one note per claim.
\<close>

lemma migrate_schema_1_Inr:
  assumes "migrate_policy_document (JObj doc) = Inr (doc', report)"
    and "map_of doc (U ''schema_version'') = Some (JInt 1)"
    and "map_of doc (U ''claims'') = Some (JObj claims)" "distinct (map fst claims)"
  shows "\<exists>kvs claims'. doc' = JObj kvs
      \<and> map_of kvs = (map_of doc)(U ''claims'' \<mapsto> JObj claims', U ''schema_version'' \<mapsto> JInt 2)
      \<and> (\<forall>k. if k \<in> set (map fst claims) then claim_upgraded (map_of claims k) (map_of claims' k)
              else map_of claims' k = None)
      \<and> from_version report = 1 \<and> to_version report = 2"
proof -
  have v: "policy_schema_version (JObj doc) = Inr 1"
    using assms(2) by (simp add: policy_schema_version_def dget_def dget_or_def
        earliest_policy_schema_version_def current_policy_schema_version_def)
  from assms(1) v obtain kvs ns ver where
    loop: "upgrade_loop 1 doc [] = Inr (ver, kvs, ns)"
    and init: "MigrationReport_init (JInt 1) (JInt ver) ns = Inr report" and doc': "doc' = JObj kvs"
    by (auto simp: migrate_policy_document_def)
  from loop have up: "upgrade_1_to_2 doc = Inr (kvs, ns)" and ver: "ver = 2"
    by (auto simp: upgrade_loop.simps [of 1] upgrade_loop.simps [of 2] current_policy_schema_version_def)
  from init ver have "from_version report = 1 \<and> to_version report = 2"
    by (auto simp: MigrationReport_init_def Let_def split: if_splits)
  with upgrade_1_to_2_Inr [OF up assms(3,4)] doc' show ?thesis by blast
qed

lemma migrate_current_Inr:
  assumes "migrate_policy_document (JObj doc) = Inr (doc', report)"
    and "map_of doc (U ''schema_version'') = Some (JInt 2)"
  shows "doc' = JObj doc \<and> report_notes report = []"
proof -
  have v: "policy_schema_version (JObj doc) = Inr 2"
    using assms(2) by (simp add: policy_schema_version_def dget_def dget_or_def
        earliest_policy_schema_version_def current_policy_schema_version_def)
  with assms(1) show ?thesis
    by (auto simp: migrate_policy_document_def upgrade_loop.simps [of 2] current_policy_schema_version_def
        MigrationReport_init_def split: if_splits)
qed

end
