(* ===== verification/Models.thy ===== *)
theory Models
  imports Migrations
begin

text \<open>
  The typed records of models.py: evidence events, adjudications and the policy with its
  sources, decay, reliability updating and claim rules. \<open>X_init\<close> is the validation
  \<open>__post_init__\<close> makes of raw values, \<open>X_from_dict\<close> the JSON parser,
  \<open>X_to_dict\<close> the JSON view. \<open>event_ok\<close> and \<open>policy_ok\<close> say what
  every accepted record satisfies; events round-trip through JSON and their canonical bytes
  determine them.
\<close>

subsection \<open>Evidence events\<close>

record evidence_event =
  ev_id :: ustr
  ev_claim :: ustr
  ev_modality :: modality
  ev_source :: ustr
  ev_signal :: signal
  ev_confidence :: rat
  ev_observed_at :: int
  ev_ingested_at :: int
  ev_group :: "ustr option"
  ev_attributes :: json

definition optional_text :: "json \<Rightarrow> string \<Rightarrow> ustr option result" where
  "optional_text v path =
     (if v = JNull then Inr None else rbind (text_value v path True) (\<lambda>s. Inr (Some s)))"

definition EvidenceEvent_init ::
  "json \<Rightarrow> json \<Rightarrow> modality \<Rightarrow> json \<Rightarrow> signal \<Rightarrow> json \<Rightarrow> pydatetime \<Rightarrow> pydatetime \<Rightarrow> json \<Rightarrow> json
     \<Rightarrow> evidence_event result" where
  "EvidenceEvent_init event_id claim modality source signal confidence observed_at ingested_at grp attributes =
     rbind (text_value event_id ''event.event_id'' True) (\<lambda>i.
     rbind (text_value claim ''event.claim'' True) (\<lambda>c.
     rbind (text_value source ''event.source'' True) (\<lambda>s.
     rbind (number_value confidence ''event.confidence'' 0 (Some 1)) (\<lambda>q.
     rbind (normalize_datetime observed_at ''event.observed_at'') (\<lambda>o_at.
     rbind (normalize_datetime ingested_at ''event.ingested_at'') (\<lambda>i_at.
     rbind (optional_text grp ''event.correlation_group'') (\<lambda>g.
     rbind (mapping_value attributes ''event.attributes'') (\<lambda>kvs.
     rbind (freeze_json True (JObj kvs)) (\<lambda>frozen.
     Inr \<lparr>ev_id = i, ev_claim = c, ev_modality = modality, ev_source = s, ev_signal = signal,
          ev_confidence = q, ev_observed_at = o_at, ev_ingested_at = i_at, ev_group = g,
          ev_attributes = frozen\<rparr>)))))))))"

definition event_fields :: "string list" where
  "event_fields = [''event_id'', ''claim'', ''modality'', ''source'', ''signal'', ''confidence'',
     ''observed_at'', ''ingested_at'', ''correlation_group'', ''attributes'']"

definition EvidenceEvent_from_dict :: "runtime \<Rightarrow> json \<Rightarrow> string \<Rightarrow> evidence_event result" where
  "EvidenceEvent_from_dict rt raw path =
     rbind (mapping_value raw path) (\<lambda>data.
     rbind (only_fields data event_fields path) (\<lambda>_.
     rbind (required_string data ''event_id'' path) (\<lambda>event_id.
     rbind (required_string data ''claim'' path) (\<lambda>claim.
     rbind (required_string data ''source'' path) (\<lambda>source.
     rbind (enum_from_json (dget data ''modality'') modality_value modalities_all (path @ ''.modality'')) (\<lambda>modality.
     rbind (enum_from_json (dget data ''signal'') signal_value signals_all (path @ ''.signal'')) (\<lambda>signal.
     rbind (number_value (dget data ''confidence'') (path @ ''.confidence'') 0 (Some 1)) (\<lambda>confidence.
     rbind (parse_timestamp rt (dget data ''observed_at'') (path @ ''.observed_at'')) (\<lambda>observed_at.
     rbind (parse_timestamp rt (dget data ''ingested_at'') (path @ ''.ingested_at'')) (\<lambda>ingested_at.
     rbind (case optional_text (dget data ''correlation_group'') path of
              Inl _ \<Rightarrow> Inl (ValidationError (path @ ''.correlation_group must be null or valid non-empty text''))
            | Inr g \<Rightarrow> Inr g) (\<lambda>grp.
     rbind (mapping_value (dget_or data ''attributes'' (JObj [])) (path @ ''.attributes'')) (\<lambda>attributes_raw.
     rbind (freeze_json True (JObj attributes_raw)) (\<lambda>attributes.
     EvidenceEvent_init (JStr event_id) (JStr claim) modality (JStr source) signal (JFloat (Fin confidence))
       (utc observed_at) (utc ingested_at) (JOpt grp) attributes)))))))))))))"

definition EvidenceEvent_to_dict :: "evidence_event \<Rightarrow> json" where
  "EvidenceEvent_to_dict e = JObj (
     [(U ''event_id'', JStr (ev_id e)), (U ''claim'', JStr (ev_claim e)),
      (U ''modality'', JText (modality_value (ev_modality e))), (U ''source'', JStr (ev_source e)),
      (U ''signal'', JText (signal_value (ev_signal e))), (U ''confidence'', JFloat (Fin (ev_confidence e))),
      (U ''observed_at'', JStr (format_timestamp (ev_observed_at e))),
      (U ''ingested_at'', JStr (format_timestamp (ev_ingested_at e)))]
     @ (case ev_group e of None \<Rightarrow> [] | Some g \<Rightarrow> [(U ''correlation_group'', JStr g)])
     @ (if ev_attributes e = JObj [] then [] else [(U ''attributes'', ev_attributes e)]))"

text \<open>What every constructed event satisfies.\<close>

definition event_ok :: "evidence_event \<Rightarrow> bool" where
  "event_ok e \<longleftrightarrow> text_ok (ev_id e) \<and> text_ok (ev_claim e) \<and> text_ok (ev_source e)
     \<and> 0 \<le> ev_confidence e \<and> ev_confidence e \<le> 1 \<and> is_double (ev_confidence e)
     \<and> valid_instant (ev_observed_at e) \<and> valid_instant (ev_ingested_at e)
     \<and> (case ev_group e of None \<Rightarrow> True | Some g \<Rightarrow> text_ok g)
     \<and> (\<exists>kvs. ev_attributes e = JObj kvs) \<and> frozen (ev_attributes e)"

lemma optional_text_ok: "optional_text v path = Inr g \<Longrightarrow> (case g of None \<Rightarrow> True | Some s \<Rightarrow> text_ok s)"
  by (auto simp: optional_text_def dest: text_value_trim_ok split: if_splits)

lemma optional_text_JOpt [simp]:
  "(case g of None \<Rightarrow> True | Some s \<Rightarrow> text_ok s) \<Longrightarrow> optional_text (JOpt g) path = Inr g"
  by (cases g) (simp_all add: optional_text_def JOpt_def)

lemma mapping_value_Inr [simp]: "mapping_value v path = Inr kvs \<longleftrightarrow> v = JObj kvs"
  by (cases v) (auto simp: mapping_value_def)

lemma EvidenceEvent_init_ok:
  assumes "EvidenceEvent_init a b m c s q oa ia g atts = Inr e"
  shows "event_ok e"
  using assms
  by (auto simp: EvidenceEvent_init_def event_ok_def number_ok_def
      dest!: text_value_trim_ok number_value_bounds normalize_datetime_valid dest: optional_text_ok)

lemma EvidenceEvent_from_dict_ok: "EvidenceEvent_from_dict rt v path = Inr e \<Longrightarrow> event_ok e"
  by (auto simp: EvidenceEvent_from_dict_def dest: EvidenceEvent_init_ok)

text \<open>Building an event again from its own fields changes nothing.\<close>

lemma EvidenceEvent_init_id:
  assumes "event_ok e"
  shows "EvidenceEvent_init (JStr (ev_id e)) (JStr (ev_claim e)) (ev_modality e) (JStr (ev_source e))
      (ev_signal e) (JFloat (Fin (ev_confidence e))) (utc (ev_observed_at e)) (utc (ev_ingested_at e))
      (JOpt (ev_group e)) (ev_attributes e) = Inr e"
  using assms by (auto simp: EvidenceEvent_init_def event_ok_def number_value_Fin number_ok_def)

lemma EvidenceEvent_roundtrip:
  assumes "event_ok e" "iso_contract rt"
  shows "EvidenceEvent_from_dict rt (EvidenceEvent_to_dict e) path = Inr e"
proof -
  obtain kvs where kvs: "EvidenceEvent_to_dict e = JObj kvs" by (simp add: EvidenceEvent_to_dict_def)
  have keys: "set (map fst kvs) \<subseteq> set (map U event_fields)"
    using kvs by (auto simp: EvidenceEvent_to_dict_def event_fields_def split: option.splits if_splits)
  have get: "dget kvs ''event_id'' = JStr (ev_id e)" "dget kvs ''claim'' = JStr (ev_claim e)"
    "dget kvs ''modality'' = JText (modality_value (ev_modality e))" "dget kvs ''source'' = JStr (ev_source e)"
    "dget kvs ''signal'' = JText (signal_value (ev_signal e))"
    "dget kvs ''confidence'' = JFloat (Fin (ev_confidence e))"
    "dget kvs ''observed_at'' = JStr (format_timestamp (ev_observed_at e))"
    "dget kvs ''ingested_at'' = JStr (format_timestamp (ev_ingested_at e))"
    "dget kvs ''correlation_group'' = JOpt (ev_group e)"
    "dget_or kvs ''attributes'' (JObj []) = ev_attributes e"
    using kvs by (auto simp: EvidenceEvent_to_dict_def JOpt_def split: option.splits if_splits)
  show ?thesis
    using assms EvidenceEvent_init_id [OF assms(1)] get keys
    by (auto simp: EvidenceEvent_from_dict_def kvs only_fields_def event_ok_def required_string_def
        enum_from_json_def JText_def parse_format_timestamp number_value_Fin number_ok_def)
qed

text \<open>An event's JSON view holds finite floats only.\<close>

lemma EvidenceEvent_to_dict_finite: "event_ok e \<Longrightarrow> json_finite (EvidenceEvent_to_dict e)"
  using frozen_finite [of "ev_attributes e"]
  by (auto simp: EvidenceEvent_to_dict_def event_ok_def split: option.splits)

text \<open>Two events with the same canonical document differ at most in the order of attribute members.\<close>

definition same_event :: "evidence_event \<Rightarrow> evidence_event \<Rightarrow> bool" where
  "same_event e f \<longleftrightarrow> e\<lparr>ev_attributes := JNull\<rparr> = f\<lparr>ev_attributes := JNull\<rparr>
     \<and> canon (ev_attributes e) = canon (ev_attributes f)"

lemma EvidenceEvent_to_dict_inj:
  assumes ok: "event_ok e" "event_ok f" and iso: "iso_contract rt"
    and eq: "canon (EvidenceEvent_to_dict e) = canon (EvidenceEvent_to_dict f)"
  shows "same_event e f"
proof -
  define kvs where "kvs = (case EvidenceEvent_to_dict e of JObj k \<Rightarrow> k | _ \<Rightarrow> [])"
  define kws where "kws = (case EvidenceEvent_to_dict f of JObj k \<Rightarrow> k | _ \<Rightarrow> [])"
  have k: "EvidenceEvent_to_dict e = JObj kvs" "EvidenceEvent_to_dict f = JObj kws"
    by (simp_all add: kvs_def kws_def EvidenceEvent_to_dict_def)
  have d: "distinct (map fst kvs)" "distinct (map fst kws)"
    by (simp_all add: kvs_def kws_def EvidenceEvent_to_dict_def split: option.split)
  note look = canon_JObj_lookup [OF eq [unfolded k] d]
  have fields: "ev_id e = ev_id f \<and> ev_claim e = ev_claim f \<and> ev_source e = ev_source f
      \<and> ev_modality e = ev_modality f \<and> ev_signal e = ev_signal f \<and> ev_confidence e = ev_confidence f
      \<and> format_timestamp (ev_observed_at e) = format_timestamp (ev_observed_at f)
      \<and> format_timestamp (ev_ingested_at e) = format_timestamp (ev_ingested_at f)"
    using look [of "U ''event_id''"] look [of "U ''claim''"] look [of "U ''source''"]
      look [of "U ''modality''"] look [of "U ''signal''"] look [of "U ''confidence''"]
      look [of "U ''observed_at''"] look [of "U ''ingested_at''"]
    by (simp add: kvs_def kws_def EvidenceEvent_to_dict_def)
  have grp: "ev_group e = ev_group f"
    using look [of "U ''correlation_group''"]
    by (auto simp: kvs_def kws_def EvidenceEvent_to_dict_def split: option.splits if_splits)
  have att: "canon (ev_attributes e) = canon (ev_attributes f)"
    using look [of "U ''attributes''"]
    by (auto simp: kvs_def kws_def EvidenceEvent_to_dict_def split: option.splits if_splits)
  have "ev_observed_at e = ev_observed_at f" "ev_ingested_at e = ev_ingested_at f"
    using fields ok by (auto simp: event_ok_def intro: format_timestamp_inj [OF iso])
  with fields grp att show ?thesis by (simp add: same_event_def)
qed

subsection \<open>Adjudications\<close>

record adjudication =
  adj_event_id :: ustr
  adj_source :: ustr
  adj_verdict :: verdict
  adj_at :: int

definition Adjudication_init :: "json \<Rightarrow> json \<Rightarrow> verdict \<Rightarrow> pydatetime \<Rightarrow> adjudication result" where
  "Adjudication_init event_id source verdict when =
     rbind (text_value event_id ''adjudication.event_id'' True) (\<lambda>i.
     rbind (text_value source ''adjudication.source'' True) (\<lambda>s.
     rbind (normalize_datetime when ''adjudication.adjudicated_at'') (\<lambda>t.
     Inr \<lparr>adj_event_id = i, adj_source = s, adj_verdict = verdict, adj_at = t\<rparr>)))"

definition Adjudication_from_dict :: "runtime \<Rightarrow> json \<Rightarrow> string \<Rightarrow> adjudication result" where
  "Adjudication_from_dict rt raw path =
     rbind (mapping_value raw path) (\<lambda>data.
     rbind (only_fields data [''event_id'', ''source'', ''verdict'', ''adjudicated_at''] path) (\<lambda>_.
     rbind (required_string data ''event_id'' path) (\<lambda>i.
     rbind (required_string data ''source'' path) (\<lambda>s.
     rbind (enum_from_json (dget data ''verdict'') verdict_value verdicts_all (path @ ''.verdict'')) (\<lambda>v.
     rbind (parse_timestamp rt (dget data ''adjudicated_at'') (path @ ''.adjudicated_at'')) (\<lambda>t.
     Adjudication_init (JStr i) (JStr s) v (utc t)))))))"

definition Adjudication_to_dict :: "adjudication \<Rightarrow> json" where
  "Adjudication_to_dict a = JObj
     [(U ''event_id'', JStr (adj_event_id a)), (U ''source'', JStr (adj_source a)),
      (U ''verdict'', JText (verdict_value (adj_verdict a))),
      (U ''adjudicated_at'', JStr (format_timestamp (adj_at a)))]"

definition adjudication_ok :: "adjudication \<Rightarrow> bool" where
  "adjudication_ok a \<longleftrightarrow> text_ok (adj_event_id a) \<and> text_ok (adj_source a) \<and> valid_instant (adj_at a)"

lemma Adjudication_init_ok: "Adjudication_init i s v t = Inr a \<Longrightarrow> adjudication_ok a"
  by (auto simp: Adjudication_init_def adjudication_ok_def
      dest!: text_value_trim_ok normalize_datetime_valid)

lemma Adjudication_roundtrip:
  assumes "adjudication_ok a" "iso_contract rt"
  shows "Adjudication_from_dict rt (Adjudication_to_dict a) path = Inr a"
  using assms
  by (cases "adj_verdict a")
    (simp_all add: Adjudication_from_dict_def Adjudication_to_dict_def only_fields_def required_string_def
      adjudication_ok_def parse_format_timestamp enum_from_json_def JText_def member_of_def
      verdicts_all_def Adjudication_init_def)

end
