(* ===== verification/Policies.thy ===== *)
theory Policies
  imports Models
begin

text \<open>
  The policy of models.py (lines 515 to 882): sources, decay, reliability updating, claim rules and
  the policy itself, each with the validation of \<open>__post_init__\<close> and the JSON parser.
  \<open>policy_ok\<close> is what every accepted policy satisfies; the engine's theorems assume nothing
  else about a policy.
\<close>

subsection \<open>Sources and decay\<close>

definition SourcePolicy_init :: "json \<Rightarrow> rat result" where
  "SourcePolicy_init reliability = number_value reliability ''source.reliability'' 0 (Some 1)"

definition SourcePolicy_from_dict :: "json \<Rightarrow> string \<Rightarrow> rat result" where
  "SourcePolicy_from_dict raw path =
     rbind (mapping_value raw path) (\<lambda>data.
     rbind (only_fields data [''reliability''] path) (\<lambda>_.
     rbind (number_value (dget data ''reliability'') (path @ ''.reliability'') 0 (Some 1)) (\<lambda>q.
     SourcePolicy_init (JFloat (Fin q)))))"

record decay_policy =
  default_half_life :: rat
  modality_half_life :: "(modality \<times> rat) list"
  max_future_skew :: rat

definition DecayPolicy_init :: "json \<Rightarrow> (modality \<times> json) list \<Rightarrow> json \<Rightarrow> decay_policy result" where
  "DecayPolicy_init dflt modalities_raw skew =
     rbind (number_value dflt ''decay.default_half_life_seconds'' min_positive None) (\<lambda>d.
     rbind (rmap (\<lambda>kv. rbind (number_value (snd kv)
                ''decay.modality_half_life_seconds'' min_positive None)
              (\<lambda>q. Inr (fst kv, q))) modalities_raw) (\<lambda>ms.
     rbind (number_value skew ''decay.max_future_skew_seconds'' 0 None) (\<lambda>s.
     Inr \<lparr>default_half_life = d, modality_half_life = ms, max_future_skew = s\<rparr>)))"

definition DecayPolicy_from_dict :: "json \<Rightarrow> string \<Rightarrow> decay_policy result" where
  "DecayPolicy_from_dict raw path =
     rbind (mapping_value raw path) (\<lambda>data.
     rbind (only_fields data [''default_half_life_seconds'', ''modality_half_life_seconds'',
              ''max_future_skew_seconds''] path) (\<lambda>_.
     rbind (number_value (dget data ''default_half_life_seconds'')
              (path @ ''.default_half_life_seconds'') min_positive None) (\<lambda>dflt.
     rbind (mapping_value (dget_or data ''modality_half_life_seconds'' (JObj []))
              (path @ ''.modality_half_life_seconds'')) (\<lambda>raw_mapping.
     rbind (named_mapping raw_mapping (path @ ''.modality_half_life_seconds'')) (\<lambda>modalities_raw.
     rbind (rmap (\<lambda>kv. case member_of modality_value modalities_all (fst kv) of
              None \<Rightarrow> Inl (ValidationError (path @ ''.modality_half_life_seconds has unknown modality''))
            | Some m \<Rightarrow>
                rbind (number_value (snd kv) (path @ ''.modality_half_life_seconds'') min_positive None)
                  (\<lambda>q. Inr (m, JFloat (Fin q)))) modalities_raw) (\<lambda>modalities.
     rbind (number_value (dget_or data ''max_future_skew_seconds'' (JInt 0))
              (path @ ''.max_future_skew_seconds'') 0 None) (\<lambda>skew.
     DecayPolicy_init (JFloat (Fin dflt)) modalities (JFloat (Fin skew)))))))))"

definition half_life_for :: "decay_policy \<Rightarrow> modality \<Rightarrow> rat" where
  "half_life_for d m = (case map_of (modality_half_life d) m of None \<Rightarrow> default_half_life d | Some q \<Rightarrow> q)"

definition decay_ok :: "decay_policy \<Rightarrow> bool" where
  "decay_ok d \<longleftrightarrow> min_positive \<le> default_half_life d \<and> is_double (default_half_life d)
     \<and> (\<forall>q \<in> set (map snd (modality_half_life d)). min_positive \<le> q \<and> is_double q)
     \<and> 0 \<le> max_future_skew d \<and> is_double (max_future_skew d)"

lemma number_value_min: "number_value v path lo None = Inr q \<Longrightarrow> lo \<le> q \<and> is_double q"
  by (auto simp: number_ok_def dest: number_value_bounds)

lemma number_value_unit: "number_value v path 0 (Some 1) = Inr q \<Longrightarrow> 0 \<le> q \<and> q \<le> 1 \<and> is_double q"
  by (auto simp: number_ok_def dest: number_value_bounds)

lemma DecayPolicy_init_ok:
  assumes "DecayPolicy_init d ms s = Inr p"
  shows "decay_ok p"
proof -
  from assms obtain ms' where
    ms': "rmap (\<lambda>kv. rbind (number_value (snd kv) ''decay.modality_half_life_seconds'' min_positive None)
              (\<lambda>q. Inr (fst kv, q))) ms = Inr ms'" and "modality_half_life p = ms'"
    by (auto simp: DecayPolicy_init_def)
  moreover from assms have "min_positive \<le> default_half_life p \<and> is_double (default_half_life p)"
    "0 \<le> max_future_skew p \<and> is_double (max_future_skew p)"
    by (auto simp: DecayPolicy_init_def dest!: number_value_min)
  moreover have "min_positive \<le> q \<and> is_double q" if "q \<in> set (map snd ms')" for q
    using that rmap_Inr_elem_rev [OF ms'] number_value_min by fastforce
  ultimately show ?thesis by (simp add: decay_ok_def)
qed

lemma half_life_positive:
  assumes "decay_ok d"
  shows "min_positive \<le> half_life_for d m"
  using assms by (auto simp: decay_ok_def half_life_for_def split: option.split dest!: map_of_SomeD)

lemma min_positive_pos [simp]: "0 < min_positive"
  by code_simp

subsection \<open>Reliability updating and claim rules\<close>

record update_policy =
  prior_weight :: rat
  max_adjustment :: rat

definition ReliabilityUpdatePolicy_init :: "json \<Rightarrow> json \<Rightarrow> update_policy result" where
  "ReliabilityUpdatePolicy_init prior adjustment =
     rbind (number_value prior ''reliability_updates.prior_weight'' min_positive None) (\<lambda>w.
     rbind (number_value adjustment ''reliability_updates.max_adjustment'' 0 (Some 1)) (\<lambda>m.
     Inr \<lparr>prior_weight = w, max_adjustment = m\<rparr>))"

definition ReliabilityUpdatePolicy_from_dict :: "json \<Rightarrow> string \<Rightarrow> update_policy result" where
  "ReliabilityUpdatePolicy_from_dict raw path =
     rbind (mapping_value raw path) (\<lambda>data.
     rbind (only_fields data [''prior_weight'', ''max_adjustment''] path) (\<lambda>_.
     rbind (number_value (dget data ''prior_weight'') (path @ ''.prior_weight'') min_positive None) (\<lambda>w.
     rbind (number_value (dget_or data ''max_adjustment'' (JFloat (Fin 1))) (path @ ''.max_adjustment'')
              0 (Some 1)) (\<lambda>m.
     ReliabilityUpdatePolicy_init (JFloat (Fin w)) (JFloat (Fin m))))))"

definition update_ok :: "update_policy \<Rightarrow> bool" where
  "update_ok u \<longleftrightarrow> min_positive \<le> prior_weight u \<and> is_double (prior_weight u)
     \<and> 0 \<le> max_adjustment u \<and> max_adjustment u \<le> 1 \<and> is_double (max_adjustment u)"

lemma ReliabilityUpdatePolicy_init_ok: "ReliabilityUpdatePolicy_init w m = Inr u \<Longrightarrow> update_ok u"
  by (auto simp: ReliabilityUpdatePolicy_init_def update_ok_def dest!: number_value_min number_value_unit)

record claim_rule =
  support_threshold :: rat
  contradiction_threshold :: rat
  min_margin :: rat
  quorum :: int
  min_sources :: int
  min_modalities :: int
  min_evidence_confidence :: rat
  required_modalities :: "ustr list"

definition ClaimRule_init ::
  "json \<Rightarrow> json \<Rightarrow> json \<Rightarrow> json \<Rightarrow> json \<Rightarrow> json \<Rightarrow> json \<Rightarrow> json \<Rightarrow> claim_rule result" where
  "ClaimRule_init support contradiction margin q sources modalities confidence required =
     rbind (number_value support ''claim_rule.support_threshold'' 0 (Some 1)) (\<lambda>st.
     rbind (number_value contradiction ''claim_rule.contradiction_threshold'' 0 (Some 1)) (\<lambda>ct.
     rbind (number_value margin ''claim_rule.min_margin'' 0 (Some 1)) (\<lambda>mm.
     rbind (positive_int q ''claim_rule.quorum'') (\<lambda>qu.
     rbind (positive_int sources ''claim_rule.min_sources'') (\<lambda>ms.
     rbind (positive_int modalities ''claim_rule.min_modalities'') (\<lambda>mo.
     rbind (number_value confidence ''claim_rule.min_evidence_confidence'' 0 (Some 1)) (\<lambda>mc.
     rbind (modality_tuple required ''claim_rule.required_modalities'') (\<lambda>rm.
     Inr \<lparr>support_threshold = st, contradiction_threshold = ct, min_margin = mm, quorum = qu,
          min_sources = ms, min_modalities = mo, min_evidence_confidence = mc,
          required_modalities = rm\<rparr>))))))))"

definition claim_rule_fields :: "string list" where
  "claim_rule_fields = [''support_threshold'', ''contradiction_threshold'', ''min_margin'', ''quorum'',
     ''min_sources'', ''min_modalities'', ''min_evidence_confidence'', ''required_modalities'']"

definition ClaimRule_from_dict :: "json \<Rightarrow> string \<Rightarrow> claim_rule result" where
  "ClaimRule_from_dict raw path =
     rbind (mapping_value raw path) (\<lambda>data.
     rbind (only_fields data claim_rule_fields path) (\<lambda>_.
     rbind (number_value (dget data ''support_threshold'') (path @ ''.support_threshold'') 0 (Some 1)) (\<lambda>st.
     rbind (number_value (dget data ''contradiction_threshold'') (path @ ''.contradiction_threshold'')
              0 (Some 1)) (\<lambda>ct.
     rbind (number_value (dget_or data ''min_margin'' (JFloat (Fin 0))) (path @ ''.min_margin'') 0 (Some 1)) (\<lambda>mm.
     rbind (positive_int (dget_or data ''quorum'' (JInt 1)) (path @ ''.quorum'')) (\<lambda>qu.
     rbind (positive_int (dget_or data ''min_sources'' (JInt 1)) (path @ ''.min_sources'')) (\<lambda>ms.
     rbind (positive_int (dget_or data ''min_modalities'' (JInt 1)) (path @ ''.min_modalities'')) (\<lambda>mo.
     rbind (number_value (dget_or data ''min_evidence_confidence'' (JFloat (Fin 0)))
              (path @ ''.min_evidence_confidence'') 0 (Some 1)) (\<lambda>mc.
     rbind (modality_tuple (dget_or data ''required_modalities'' (JArr [])) (path @ ''.required_modalities'')) (\<lambda>rm.
     ClaimRule_init (JFloat (Fin st)) (JFloat (Fin ct)) (JFloat (Fin mm)) (JInt qu) (JInt ms) (JInt mo)
       (JFloat (Fin mc)) (JArr (map JStr rm))))))))))))"

definition rule_ok :: "claim_rule \<Rightarrow> bool" where
  "rule_ok r \<longleftrightarrow> 0 \<le> support_threshold r \<and> support_threshold r \<le> 1
     \<and> 0 \<le> contradiction_threshold r \<and> contradiction_threshold r \<le> 1
     \<and> 0 \<le> min_margin r \<and> min_margin r \<le> 1 \<and> 1 \<le> quorum r \<and> 1 \<le> min_sources r \<and> 1 \<le> min_modalities r
     \<and> 0 \<le> min_evidence_confidence r \<and> min_evidence_confidence r \<le> 1"

lemma ClaimRule_init_ok: "ClaimRule_init a b c d e f g h = Inr r \<Longrightarrow> rule_ok r"
  by (auto simp: ClaimRule_init_def rule_ok_def dest!: number_value_unit)

subsection \<open>The policy\<close>

record policy =
  policy_id :: ustr
  default_source_reliability :: rat
  sources :: "(ustr \<times> rat) list"
  decay :: decay_policy
  claims :: "(ustr \<times> claim_rule) list"
  reliability_updates :: "update_policy option"
  source_schema_version :: int

definition Policy_init ::
  "json \<Rightarrow> json \<Rightarrow> json \<Rightarrow> json \<Rightarrow> (ustr \<times> rat) list \<Rightarrow> decay_policy \<Rightarrow> (ustr \<times> claim_rule) list
     \<Rightarrow> update_policy option \<Rightarrow> policy result" where
  "Policy_init version source_version pid reliability srcs dec cls updates =
     rbind (require (version = JInt current_policy_schema_version) ''policy.schema_version must be 2'') (\<lambda>_.
     rbind (case source_version of
              JInt v \<Rightarrow> if earliest_policy_schema_version \<le> v \<and> v \<le> current_policy_schema_version then Inr v
                 else Inl (ValidationError ''policy.source_schema_version must be between 1 and 2'')
            | _ \<Rightarrow> Inl (ValidationError ''policy.source_schema_version must be between 1 and 2'')) (\<lambda>sv.
     rbind (text_value pid ''policy.policy_id'' True) (\<lambda>i.
     rbind (number_value reliability ''policy.default_source_reliability'' 0 (Some 1)) (\<lambda>r.
     rbind (named_mapping srcs ''policy.sources'') (\<lambda>ss.
     rbind (named_mapping cls ''policy.claims'') (\<lambda>cs.
     rbind (require (cs \<noteq> []) ''policy.claims must contain at least one claim'') (\<lambda>_.
     Inr \<lparr>policy_id = i, default_source_reliability = r, sources = ss, decay = dec, claims = cs,
          reliability_updates = updates, source_schema_version = sv\<rparr>)))))))"

definition policy_fields :: "string list" where
  "policy_fields = [''schema_version'', ''policy_id'', ''default_source_reliability'', ''sources'', ''decay'',
     ''claims'', ''reliability_updates'']"

definition parse_named :: "(json \<Rightarrow> string \<Rightarrow> 'a result) \<Rightarrow> string \<Rightarrow> (ustr \<times> json) list \<Rightarrow> (ustr \<times> 'a) list result"
  where "parse_named parse path kvs = rmap (\<lambda>kv. rbind (parse (snd kv) path) (\<lambda>x. Inr (fst kv, x))) kvs"

definition parse_updates :: "json \<Rightarrow> update_policy option result" where
  "parse_updates raw =
     (if raw = JNull then Inr None
      else rbind (ReliabilityUpdatePolicy_from_dict raw ''policy.reliability_updates'') (\<lambda>u. Inr (Some u)))"

definition Policy_from_dict :: "json \<Rightarrow> policy result" where
  "Policy_from_dict raw =
     rbind (mapping_value raw ''policy'') (\<lambda>given.
     rbind (policy_schema_version (JObj given)) (\<lambda>declared.
     rbind (migrate_policy_document raw) (\<lambda>(migrated, report).
     rbind (mapping_value migrated ''policy'') (\<lambda>data.
     rbind (only_fields data policy_fields ''policy'') (\<lambda>_.
     rbind (required_string data ''policy_id'' ''policy'') (\<lambda>pid.
     rbind (number_value (dget_or data ''default_source_reliability'' (JFloat (Fin 1)))
              ''policy.default_source_reliability'' 0 (Some 1)) (\<lambda>reliability.
     rbind (mapping_value (dget_or data ''sources'' (JObj [])) ''policy.sources'') (\<lambda>sources_map.
     rbind (named_mapping sources_map ''policy.sources'') (\<lambda>sources_raw.
     rbind (parse_named SourcePolicy_from_dict ''policy.sources'' sources_raw) (\<lambda>srcs.
     rbind (mapping_value (dget data ''claims'') ''policy.claims'') (\<lambda>claims_map.
     rbind (named_mapping claims_map ''policy.claims'') (\<lambda>claims_raw.
     rbind (require (claims_raw \<noteq> []) ''policy.claims must contain at least one claim'') (\<lambda>_.
     rbind (parse_named ClaimRule_from_dict ''policy.claims'' claims_raw) (\<lambda>cls.
     rbind (DecayPolicy_from_dict (dget data ''decay'') ''policy.decay'') (\<lambda>dec.
     rbind (parse_updates (dget data ''reliability_updates'')) (\<lambda>updates.
     Policy_init (JInt current_policy_schema_version) (JInt declared) (JStr pid) (JFloat (Fin reliability))
       srcs dec cls updates))))))))))))))))"

definition reliability_for :: "policy \<Rightarrow> ustr \<Rightarrow> rat" where
  "reliability_for p s =
     (case map_of (sources p) s of None \<Rightarrow> default_source_reliability p | Some r \<Rightarrow> r)"

definition policy_ok :: "policy \<Rightarrow> bool" where
  "policy_ok p \<longleftrightarrow> text_ok (policy_id p)
     \<and> 0 \<le> default_source_reliability p \<and> default_source_reliability p \<le> 1
     \<and> is_double (default_source_reliability p)
     \<and> (\<forall>kv \<in> set (sources p). text_ok (fst kv) \<and> 0 \<le> snd kv \<and> snd kv \<le> 1 \<and> is_double (snd kv))
     \<and> decay_ok (decay p) \<and> claims p \<noteq> []
     \<and> (\<forall>kv \<in> set (claims p). text_ok (fst kv) \<and> rule_ok (snd kv))
     \<and> (case reliability_updates p of None \<Rightarrow> True | Some u \<Rightarrow> update_ok u)"

lemma parse_named_values:
  assumes "parse_named f path kvs = Inr xs" "\<And>v path x. f v path = Inr x \<Longrightarrow> P x" "kv \<in> set xs"
  shows "P (snd kv)"
  using rmap_Inr_elem_rev [OF assms(1) [unfolded parse_named_def] assms(3)] assms(2) by auto

lemma parse_named_keys: "parse_named f path kvs = Inr xs \<Longrightarrow> map fst xs = map fst kvs"
  by (induction kvs arbitrary: xs) (auto simp: parse_named_def)

lemma SourcePolicy_from_dict_ok:
  "SourcePolicy_from_dict raw path = Inr q \<Longrightarrow> 0 \<le> q \<and> q \<le> 1 \<and> is_double q"
  by (auto simp: SourcePolicy_from_dict_def SourcePolicy_init_def dest!: number_value_unit)

lemma ClaimRule_from_dict_ok: "ClaimRule_from_dict raw path = Inr r \<Longrightarrow> rule_ok r"
  by (auto simp: ClaimRule_from_dict_def dest: ClaimRule_init_ok)

lemma DecayPolicy_from_dict_ok: "DecayPolicy_from_dict raw path = Inr d \<Longrightarrow> decay_ok d"
  by (auto simp: DecayPolicy_from_dict_def dest: DecayPolicy_init_ok)

lemma ReliabilityUpdatePolicy_from_dict_ok: "ReliabilityUpdatePolicy_from_dict raw path = Inr u \<Longrightarrow> update_ok u"
  by (auto simp: ReliabilityUpdatePolicy_from_dict_def dest: ReliabilityUpdatePolicy_init_ok)

lemma parse_updates_ok: "parse_updates raw = Inr u \<Longrightarrow> (case u of None \<Rightarrow> True | Some x \<Rightarrow> update_ok x)"
  by (auto simp: parse_updates_def dest: ReliabilityUpdatePolicy_from_dict_ok split: if_splits)

lemma Policy_init_ok:
  assumes "Policy_init v sv pid r srcs dec cls u = Inr p"
    and "\<forall>kv \<in> set srcs. 0 \<le> snd kv \<and> snd kv \<le> 1 \<and> is_double (snd kv)" "decay_ok dec"
    and "\<forall>kv \<in> set cls. rule_ok (snd kv)" "case u of None \<Rightarrow> True | Some x \<Rightarrow> update_ok x"
  shows "policy_ok p"
  using assms
  by (auto simp: Policy_init_def policy_ok_def
      dest!: text_value_trim_ok number_value_unit named_mapping_eq) fastforce+

lemma Policy_from_dict_ok:
  assumes "Policy_from_dict raw = Inr p"
  shows "policy_ok p"
proof -
  from assms obtain sr srcs cr cls dec u v sv pid r where
    s: "parse_named SourcePolicy_from_dict ''policy.sources'' sr = Inr srcs"
    and c: "parse_named ClaimRule_from_dict ''policy.claims'' cr = Inr cls"
    and d: "\<exists>x. DecayPolicy_from_dict x ''policy.decay'' = Inr dec"
    and u: "\<exists>x. parse_updates x = Inr u"
    and p: "Policy_init v sv pid r srcs dec cls u = Inr p"
    unfolding Policy_from_dict_def by (auto split: prod.splits) metis
  show ?thesis
  proof (rule Policy_init_ok [OF p])
    show "\<forall>kv \<in> set srcs. 0 \<le> snd kv \<and> snd kv \<le> 1 \<and> is_double (snd kv)"
      by (auto dest!: parse_named_values [OF s, where P = "\<lambda>q. 0 \<le> q \<and> q \<le> 1 \<and> is_double q", rotated]
          dest: SourcePolicy_from_dict_ok)
    show "\<forall>kv \<in> set cls. rule_ok (snd kv)"
      by (auto dest!: parse_named_values [OF c, where P = rule_ok, rotated] dest: ClaimRule_from_dict_ok)
    show "decay_ok dec" using d DecayPolicy_from_dict_ok by blast
    show "case u of None \<Rightarrow> True | Some x \<Rightarrow> update_ok x" using u parse_updates_ok by blast
  qed
qed

lemma reliability_for_unit:
  assumes "policy_ok p"
  shows "0 \<le> reliability_for p s \<and> reliability_for p s \<le> 1 \<and> is_double (reliability_for p s)"
  using assms by (auto simp: policy_ok_def reliability_for_def split: option.split dest!: map_of_SomeD)

subsection \<open>Reading an old document\<close>

text \<open>A migrated document is of the current schema and is left alone by a second migration.\<close>

lemma upgraded_version:
  assumes "upgrade_loop v kvs ns = Inr (w, document, ms)" "v = 1 \<or> v = 2" "map_of kvs (U ''schema_version'') = Some (JInt v)"
  shows "w = 2 \<and> map_of document (U ''schema_version'') = Some (JInt 2)"
  using assms
  by (auto simp: upgrade_loop.simps [of 1] upgrade_loop.simps [of 2] current_policy_schema_version_def upgrade_1_to_2_def elim!: rbindE)

lemma migrated_document:
  assumes "migrate_policy_document raw = Inr (document, report)"
  shows "policy_schema_version document = Inr 2 \<and> (\<exists>kvs. document = JObj kvs)"
proof -
  obtain kvs v w d ns where raw: "raw = JObj kvs" "policy_schema_version raw = Inr v"
    and up: "upgrade_loop v kvs [] = Inr (w, d, ns)" "document = JObj d"
    using assms by (auto simp: migrate_policy_document_def split: json.splits elim!: rbindE)
  have "map_of d (U ''schema_version'') = Some (JInt 2)"
    using upgraded_version [OF up(1)] policy_schema_version_Inr [OF raw(2)] raw(1) by auto
  then show ?thesis
    by (simp add: up(2) policy_schema_version_def dget_def dget_or_def earliest_policy_schema_version_def current_policy_schema_version_def)
qed

lemma migrate_again:
  assumes "migrate_policy_document raw = Inr (document, report)" "freeze_json False document = Inr u"
  shows "\<exists>r. migrate_policy_document document = Inr (document, r)"
  using migrated_document [OF assms(1)] assms(2) small_count [of 2]
  by (auto simp: migrate_policy_document_def upgrade_loop.simps [of 2] current_policy_schema_version_def
      earliest_policy_schema_version_def MigrationReport_init_def nonnegative_int_Inr max_migration_notes_def)

lemma Policy_init_source:
  assumes "v = 1 \<or> v = 2"
  shows "rbind (Policy_init s (JInt v) i r ss dec cs u) (\<lambda>p. Inr (p\<lparr>source_schema_version := 2\<rparr>)) = Policy_init s (JInt 2) i r ss dec cs u"
  using assms by (auto simp: Policy_init_def rbind_assoc earliest_policy_schema_version_def current_policy_schema_version_def)

lemma Policy_from_dict_migrated:
  assumes m: "migrate_policy_document raw = Inr (document, report)" and f: "freeze_json False document = Inr u"
  shows "Policy_from_dict document = rbind (Policy_from_dict raw) (\<lambda>p. Inr (p\<lparr>source_schema_version := 2\<rparr>))"
proof -
  obtain kvs where d: "document = JObj kvs" "policy_schema_version document = Inr 2" using migrated_document [OF m] by blast
  obtain r where again: "migrate_policy_document document = Inr (document, r)" using migrate_again [OF m f] by blast
  obtain given v where raw: "raw = JObj given" "policy_schema_version raw = Inr v"
    using m by (auto simp: migrate_policy_document_def split: json.splits elim!: rbindE)
  have "v = 1 \<or> v = 2" using policy_schema_version_Inr [OF raw(2)] by blast
  from Policy_init_source [OF this] show ?thesis
    using m again d raw by (simp add: Policy_from_dict_def mapping_value_def rbind_assoc)
qed

end
