(* ===== verification/Fusion.thy ===== *)
theory Fusion
  imports Policies
begin

text \<open>
  Confidence weighting (decay.py) and correlation-aware collapsing (grouping.py). Ages are the
  correctly rounded quotient \<open>timedelta.total_seconds\<close> computes; the power of two is the
  runtime's. \<open>weight_event_ok\<close> shows every weight lies in the unit interval and never
  exceeds the event's own confidence; \<open>collapse_eq\<close> gives the collapse in closed form, from
  which maximality of the representative, coverage and order independence follow.
\<close>

subsection \<open>Weighting\<close>

record weighted_event =
  we_event :: evidence_event
  we_age :: rat
  we_reliability :: rat
  we_decay :: rat
  we_effective :: rat

definition WeightedEvent_init ::
  "evidence_event \<Rightarrow> rat \<Rightarrow> rat \<Rightarrow> rat \<Rightarrow> rat \<Rightarrow> weighted_event result" where
  "WeightedEvent_init e age rel dec eff =
     rbind (number_value (JFloat (Fin age)) ''weighted.age_seconds'' 0 None) (\<lambda>a.
     rbind (number_value (JFloat (Fin rel)) ''weighted.source_reliability'' 0 (Some 1)) (\<lambda>r.
     rbind (number_value (JFloat (Fin dec)) ''weighted.decay_factor'' 0 (Some 1)) (\<lambda>d.
     rbind (number_value (JFloat (Fin eff)) ''weighted.effective_confidence'' 0 (Some 1)) (\<lambda>c.
     Inr \<lparr>we_event = e, we_age = a, we_reliability = r, we_decay = d, we_effective = c\<rparr>))))"

text \<open>\<open>timedelta.total_seconds\<close>: the microseconds divided by a million.\<close>

definition total_seconds :: "int \<Rightarrow> rat" where
  "total_seconds us = fl (of_int us / 10 ^ 6)"

definition weight_event ::
  "runtime \<Rightarrow> evidence_event \<Rightarrow> policy \<Rightarrow> int \<Rightarrow> rat option \<Rightarrow> weighted_event result" where
  "weight_event rt e p as_of reliability =
     (let age = total_seconds (as_of - ev_observed_at e) in
      if age < - max_future_skew (decay p)
      then Inl (ValidationError ''event is in the future, beyond allowed skew'')
      else
        let age' = max age 0;
            half_life = half_life_for (decay p) (ev_modality e);
            decay_factor = rt_exp2 rt (fl (- age' / half_life));
            applied = (case reliability of None \<Rightarrow> reliability_for p (ev_source e) | Some r \<Rightarrow> r);
            effective = fl (fl (ev_confidence e * applied) * decay_factor)
        in WeightedEvent_init e age' applied decay_factor effective)"

text \<open>
  Documented behaviour of the C library: two to a power that is at most zero is a double in the unit
  interval, and two to the zero is one.
\<close>

definition exp2_contract :: "runtime \<Rightarrow> bool" where
  "exp2_contract rt \<longleftrightarrow>
     (\<forall>x \<le> 0. 0 \<le> rt_exp2 rt x \<and> rt_exp2 rt x \<le> 1 \<and> is_double (rt_exp2 rt x)) \<and> rt_exp2 rt 0 = 1"

definition unit_double :: "rat \<Rightarrow> bool" where
  "unit_double q \<longleftrightarrow> 0 \<le> q \<and> q \<le> 1 \<and> is_double q"

definition weighted_ok :: "weighted_event \<Rightarrow> bool" where
  "weighted_ok w \<longleftrightarrow> event_ok (we_event w) \<and> 0 \<le> we_age w \<and> is_double (we_age w)
     \<and> unit_double (we_reliability w) \<and> unit_double (we_decay w) \<and> unit_double (we_effective w)"

lemma unit_double_fl_mult: "unit_double a \<Longrightarrow> unit_double b \<Longrightarrow> unit_double (fl (a * b)) \<and> fl (a * b) \<le> a \<and> fl (a * b) \<le> b"
  by (auto simp: unit_double_def is_double_fl fl_nonneg fl_le_1 mult_le_one
      intro!: fl_le mult_left_le mult_left_le_one_le)

lemma number_value_unit_double [simp]:
  "unit_double q \<Longrightarrow> number_value (JFloat (Fin q)) path 0 (Some 1) = Inr q"
  by (simp add: unit_double_def number_value_Fin number_ok_def)

lemma number_value_nonneg_double [simp]:
  "0 \<le> q \<Longrightarrow> is_double q \<Longrightarrow> number_value (JFloat (Fin q)) path 0 None = Inr q"
  by (simp add: number_value_Fin number_ok_def)

lemma total_seconds_mono: "a \<le> b \<Longrightarrow> total_seconds a \<le> total_seconds b"
  unfolding total_seconds_def by (intro fl_mono divide_right_mono) simp_all

lemma total_seconds_minus: "total_seconds (- a) = - total_seconds a"
  by (simp add: total_seconds_def fl_minus)

lemma is_double_total_seconds: "is_double (total_seconds a)"
  by (simp add: total_seconds_def is_double_fl)

definition applied_reliability_of :: "policy \<Rightarrow> rat option \<Rightarrow> evidence_event \<Rightarrow> rat" where
  "applied_reliability_of p r e = (case r of None \<Rightarrow> reliability_for p (ev_source e) | Some q \<Rightarrow> q)"

text \<open>
  An event no further in the future than the policy's skew is weighted, and the weight is in range.
\<close>

lemma weight_event_ok:
  assumes "policy_ok p" "event_ok e" "exp2_contract rt"
    and "\<And>q. r = Some q \<Longrightarrow> unit_double q"
    and skew: "- max_future_skew (decay p) \<le> total_seconds (as_of - ev_observed_at e)"
  shows "\<exists>w. weight_event rt e p as_of r = Inr w \<and> weighted_ok w \<and> we_event w = e
      \<and> we_reliability w = applied_reliability_of p r e
      \<and> we_effective w \<le> ev_confidence e \<and> we_effective w \<le> we_reliability w
      \<and> we_effective w \<le> we_decay w"
proof -
  let ?age = "max (total_seconds (as_of - ev_observed_at e)) 0"
  let ?half = "half_life_for (decay p) (ev_modality e)"
  let ?dec = "rt_exp2 rt (fl (- ?age / ?half))"
  let ?app = "applied_reliability_of p r e"
  let ?mid = "fl (ev_confidence e * ?app)"
  have "0 < ?half"
    using half_life_positive [of "decay p"] assms(1) min_positive_pos
    by (meson policy_ok_def less_le_trans)
  then have "- ?age / ?half \<le> 0" by (simp add: divide_nonpos_pos)
  then have "fl (- ?age / ?half) \<le> 0" using fl_mono [of "- ?age / ?half" 0] by simp
  then have dec: "unit_double ?dec"
    using assms(3) by (simp add: exp2_contract_def unit_double_def)
  have app: "unit_double ?app"
    using assms(4) reliability_for_unit [OF assms(1)]
    by (auto simp: applied_reliability_of_def unit_double_def split: option.split)
  have conf: "unit_double (ev_confidence e)"
    using assms(2) by (simp add: event_ok_def unit_double_def)
  note mid = unit_double_fl_mult [OF conf app]
  then have eff: "unit_double (fl (?mid * ?dec)) \<and> fl (?mid * ?dec) \<le> ?mid \<and> fl (?mid * ?dec) \<le> ?dec"
    using dec by (intro unit_double_fl_mult) simp_all
  have age: "0 \<le> ?age" "is_double ?age" by (simp_all add: is_double_total_seconds max_def)
  have "weight_event rt e p as_of r = WeightedEvent_init e ?age ?app ?dec (fl (?mid * ?dec))"
    using skew by (simp add: weight_event_def Let_def applied_reliability_of_def)
  also have "\<dots> = Inr \<lparr>we_event = e, we_age = ?age, we_reliability = ?app, we_decay = ?dec,
      we_effective = fl (?mid * ?dec)\<rparr>"
    using age app dec eff by (simp add: WeightedEvent_init_def)
  finally show ?thesis
    using age app dec eff mid assms(2) by (auto simp: weighted_ok_def)
qed

text \<open>
  An event that passed the stream-wide skew check and is already ingested cannot fail the check
  that weighting makes, because rounding is monotone and odd.
\<close>

lemma skew_at_weighting:
  assumes "total_seconds (ev_observed_at e - ev_ingested_at e) \<le> max_future_skew d"
    and "ev_ingested_at e \<le> as_of"
  shows "- max_future_skew d \<le> total_seconds (as_of - ev_observed_at e)"
proof -
  have "total_seconds (ev_ingested_at e - ev_observed_at e) \<le> total_seconds (as_of - ev_observed_at e)"
    using assms(2) by (intro total_seconds_mono) simp
  then show ?thesis
    using assms(1) total_seconds_minus [of "ev_observed_at e - ev_ingested_at e"] by simp
qed

subsection \<open>Buckets\<close>

text \<open>\<open>buckets.setdefault(key, []).append(item)\<close>.\<close>

fun bucket_add :: "'k \<Rightarrow> 'a \<Rightarrow> ('k \<times> 'a list) list \<Rightarrow> ('k \<times> 'a list) list" where
  "bucket_add k x [] = [(k, [x])]"
| "bucket_add k x ((k', xs) # bs) = (if k' = k then (k', xs @ [x]) # bs else (k', xs) # bucket_add k x bs)"

fun fill_buckets :: "('a \<Rightarrow> 'k) \<Rightarrow> ('k \<times> 'a list) list \<Rightarrow> 'a list \<Rightarrow> ('k \<times> 'a list) list" where
  "fill_buckets f bs [] = bs"
| "fill_buckets f bs (x # xs) = fill_buckets f (bucket_add (f x) x bs) xs"

definition buckets :: "('a \<Rightarrow> 'k) \<Rightarrow> 'a list \<Rightarrow> ('k \<times> 'a list) list" where
  "buckets f xs = fill_buckets f [] xs"

lemma bucket_add_keys: "set (map fst (bucket_add k x bs)) = insert k (set (map fst bs))"
  by (induction k x bs rule: bucket_add.induct) auto

lemma bucket_add_distinct: "distinct (map fst bs) \<Longrightarrow> distinct (map fst (bucket_add k x bs))"
proof (induction k x bs rule: bucket_add.induct)
  case (2 k x k' xs bs)
  then show ?case using bucket_add_keys [of k x bs] by auto
qed simp

lemma map_of_bucket_add:
  "map_of (bucket_add k x bs) j =
     (if j = k then Some ((case map_of bs k of None \<Rightarrow> [] | Some xs \<Rightarrow> xs) @ [x]) else map_of bs j)"
  by (induction k x bs rule: bucket_add.induct) auto

lemma fill_buckets_distinct: "distinct (map fst bs) \<Longrightarrow> distinct (map fst (fill_buckets f bs xs))"
  by (induction f bs xs rule: fill_buckets.induct) (simp_all add: bucket_add_distinct)

lemma fill_buckets_keys: "set (map fst (fill_buckets f bs xs)) = set (map fst bs) \<union> f ` set xs"
proof (induction f bs xs rule: fill_buckets.induct)
  case (2 f bs x xs)
  then show ?case using bucket_add_keys [of "f x" x bs] by auto
qed simp

lemma map_of_fill_buckets:
  "map_of (fill_buckets f bs xs) k =
     (if k \<in> f ` set xs
      then Some ((case map_of bs k of None \<Rightarrow> [] | Some ys \<Rightarrow> ys) @ filter (\<lambda>x. f x = k) xs)
      else map_of bs k)"
  by (induction f bs xs rule: fill_buckets.induct)
    (auto simp: map_of_bucket_add empty_filter_conv image_iff split: option.split)

lemma buckets_distinct: "distinct (map fst (buckets f xs))"
  by (simp add: buckets_def fill_buckets_distinct)

lemma buckets_keys: "set (map fst (buckets f xs)) = f ` set xs"
  by (simp add: buckets_def fill_buckets_keys del: set_map)

lemma bucket_members:
  assumes "b \<in> set (buckets f xs)"
  shows "snd b = filter (\<lambda>x. f x = fst b) xs"
proof -
  have "map_of (buckets f xs) (fst b) = Some (snd b)"
    using assms by (simp add: buckets_distinct)
  then show ?thesis
    using assms buckets_keys [of f xs] by (auto simp: buckets_def map_of_fill_buckets split: if_splits)
qed

lemma buckets_keys_perm:
  assumes "set xs = set ys"
  shows "mset (map fst (buckets f xs)) = mset (map fst (buckets f ys))"
  using assms buckets_keys [of f xs] buckets_keys [of f ys] buckets_distinct [of f xs] buckets_distinct [of f ys]
  by (metis set_eq_iff_mset_eq_distinct)

subsection \<open>Correlation groups\<close>

record correlation_selection =
  sel_group :: ustr
  sel_signal :: signal
  sel_representative :: weighted_event
  sel_suppressed :: "weighted_event list"

definition correlation_key :: "weighted_event \<Rightarrow> ustr" where
  "correlation_key w =
     (case ev_group (we_event w) of
        Some g \<Rightarrow> U ''group:'' @ g
      | None \<Rightarrow> U ''event:'' @ ev_id (we_event w))"

definition we_id :: "weighted_event \<Rightarrow> ustr" where
  "we_id w = ev_id (we_event w)"

definition CorrelationSelection_init ::
  "ustr \<Rightarrow> signal \<Rightarrow> weighted_event \<Rightarrow> weighted_event list \<Rightarrow> correlation_selection result" where
  "CorrelationSelection_init g s rep supp =
     rbind (text_value (JStr g) ''selection.group_id'' True) (\<lambda>g.
     let supp = sort_key we_id supp; all_events = rep # supp in
     rbind (require (list_all (\<lambda>w. ev_signal (we_event w) = s) all_events)
              ''selection events must have the selection signal'') (\<lambda>_.
     rbind (require (list_all (\<lambda>w. correlation_key w = g) all_events)
              ''selection events must have the selection correlation group'') (\<lambda>_.
     rbind (require (distinct (map we_id all_events)) ''selection contains duplicate event IDs'') (\<lambda>_.
     Inr \<lparr>sel_group = g, sel_signal = s, sel_representative = rep, sel_suppressed = supp\<rparr>))))"

definition bucket_key :: "weighted_event \<Rightarrow> ustr \<times> signal" where
  "bucket_key w = (correlation_key w, ev_signal (we_event w))"

definition rank_key :: "weighted_event \<Rightarrow> rat \<times> ustr" where
  "rank_key w = (- stable_float (we_effective w), we_id w)"

definition select_from :: "(ustr \<times> signal) \<times> weighted_event list \<Rightarrow> correlation_selection result" where
  "select_from b =
     (let ranked = sort_key rank_key (snd b)
      in CorrelationSelection_init (fst (fst b)) (snd (fst b)) (hd ranked) (sort_key we_id (tl ranked)))"

definition selection_key :: "correlation_selection \<Rightarrow> ustr \<times> ustr" where
  "selection_key s = (sel_group s, U (signal_value (sel_signal s)))"

definition collapse_correlated :: "weighted_event list \<Rightarrow> correlation_selection list result" where
  "collapse_correlated events =
     rbind (rmap select_from (buckets bucket_key events)) (\<lambda>selections.
     Inr (sort_key selection_key selections))"

text \<open>The selection of one bucket and the collapse, without their checks.\<close>

definition ranked_bucket :: "weighted_event list \<Rightarrow> ustr \<times> signal \<Rightarrow> weighted_event list" where
  "ranked_bucket ws k = sort_key rank_key (filter (\<lambda>w. bucket_key w = k) ws)"

definition selection_of :: "weighted_event list \<Rightarrow> ustr \<times> signal \<Rightarrow> correlation_selection" where
  "selection_of ws k = \<lparr>sel_group = fst k, sel_signal = snd k, sel_representative = hd (ranked_bucket ws k),
     sel_suppressed = sort_key we_id (tl (ranked_bucket ws k))\<rparr>"

lemma set_ranked_bucket: "set (ranked_bucket ws k) = {w \<in> set ws. bucket_key w = k}"
  by (auto simp: ranked_bucket_def)

lemma ranked_bucket_nonempty: "k \<in> bucket_key ` set ws \<Longrightarrow> ranked_bucket ws k \<noteq> []"
  using set_ranked_bucket [of ws k] by auto

lemma correlation_key_text_ok:
  assumes "weighted_ok w"
  shows "text_ok (correlation_key w)"
proof -
  have pre: "text_ok (U p @ s)"
    if s: "text_ok s" and p: "p \<noteq> []" "list_all (\<lambda>c. 33 \<le> c \<and> c \<le> 126) (U p)" for p s
  proof -
    have "is_xml_character (U p)" using p(2) by (auto simp: is_xml_character_def list_all_iff)
    moreover have "33 \<le> hd (U p) \<and> hd (U p) \<le> 126" using p by (auto simp: list_all_iff)
    then have "\<not> is_space (hd (U p))" by (simp add: is_space_def)
    ultimately show ?thesis
      using s p(1) by (auto simp: text_ok_def stripped_def is_xml_character_def)
  qed
  have "list_all (\<lambda>c. 33 \<le> c \<and> c \<le> 126) (U ''group:'')" "list_all (\<lambda>c. 33 \<le> c \<and> c \<le> 126) (U ''event:'')"
    by (simp_all add: U_def)
  then show ?thesis
    using assms by (auto simp: correlation_key_def weighted_ok_def event_ok_def intro!: pre split: option.splits)
qed

lemma select_from_Inr:
  assumes "\<And>w. w \<in> set ws \<Longrightarrow> weighted_ok w" "distinct (map we_id ws)" "k \<in> bucket_key ` set ws"
  shows "select_from (k, filter (\<lambda>w. bucket_key w = k) ws) = Inr (selection_of ws k)"
proof -
  let ?c = "ranked_bucket ws k"
  obtain r t where c: "?c = r # t" using ranked_bucket_nonempty [OF assms(3)] by (cases ?c) auto
  have all: "\<And>w. w \<in> set (r # t) \<Longrightarrow> w \<in> set ws \<and> correlation_key w = fst k \<and> ev_signal (we_event w) = snd k"
    using set_ranked_bucket [of ws k] c by (auto simp: bucket_key_def)
  then have "text_ok (fst k)"
    using assms(1) [of r] correlation_key_text_ok [of r] by (metis list.set_intros(1))
  moreover have "distinct (map we_id (r # t))"
    unfolding c [symmetric] ranked_bucket_def using assms(2) by (simp add: distinct_map_filter)
  moreover have "list_all (\<lambda>w. ev_signal (we_event w) = snd k) (r # t)"
    "list_all (\<lambda>w. correlation_key w = fst k) (r # t)"
    using all by (simp_all add: list_all_iff)
  ultimately show ?thesis
    using c by (simp add: select_from_def CorrelationSelection_init_def Let_def selection_of_def
        ranked_bucket_def list_all_iff sort_key_id_if_sorted)
qed

lemma collapse_eq:
  assumes "\<And>w. w \<in> set ws \<Longrightarrow> weighted_ok w" "distinct (map we_id ws)"
  shows "collapse_correlated ws =
    Inr (sort_key selection_key (map (selection_of ws) (map fst (buckets bucket_key ws))))"
proof -
  have "select_from b = Inr (selection_of ws (fst b))" if b: "b \<in> set (buckets bucket_key ws)" for b
  proof -
    have "fst b \<in> bucket_key ` set ws" using b buckets_keys [of bucket_key ws] by force
    then show ?thesis
      using select_from_Inr [OF assms] bucket_members [OF b] by (metis prod.collapse)
  qed
  then have "rmap select_from (buckets bucket_key ws)
      = Inr (map (\<lambda>b. selection_of ws (fst b)) (buckets bucket_key ws))"
    by (rule rmap_map_Inr)
  then show ?thesis by (simp add: collapse_correlated_def comp_def)
qed

text \<open>The order of the events does not matter.\<close>

lemma rank_key_inj: "inj_on we_id S \<Longrightarrow> inj_on rank_key S"
  by (auto simp: inj_on_def rank_key_def)

lemma ranked_bucket_perm:
  assumes "mset ws = mset vs" "distinct (map we_id ws)"
  shows "ranked_bucket ws k = ranked_bucket vs k"
  unfolding ranked_bucket_def
proof (rule sort_key_perm_eq)
  show "mset (filter (\<lambda>w. bucket_key w = k) ws) = mset (filter (\<lambda>w. bucket_key w = k) vs)"
    using assms(1) by simp
  show "inj_on rank_key (set (filter (\<lambda>w. bucket_key w = k) ws))"
    using assms(2) by (intro rank_key_inj) (auto simp: distinct_map intro: inj_on_subset)
qed

lemma selection_key_inj: "inj_on (\<lambda>k. selection_key (selection_of ws k)) K"
  by (auto simp: inj_on_def selection_key_def selection_of_def prod_eq_iff)

lemma collapse_perm:
  assumes "mset ws = mset vs" "distinct (map we_id ws)" "\<And>w. w \<in> set ws \<Longrightarrow> weighted_ok w"
  shows "collapse_correlated ws = collapse_correlated vs"
proof -
  have set: "set ws = set vs" using assms(1) by (rule mset_eq_setD)
  have d: "distinct (map we_id vs)"
    using assms(1,2) by (metis mset_eq_imp_distinct_iff mset_map)
  have sel: "selection_of ws = selection_of vs"
    by (rule ext) (simp add: selection_of_def ranked_bucket_perm [OF assms(1,2)])
  have "sort_key selection_key (map (selection_of vs) (map fst (buckets bucket_key ws)))
      = sort_key selection_key (map (selection_of vs) (map fst (buckets bucket_key vs)))"
  proof (rule sort_key_perm_eq)
    show "mset (map (selection_of vs) (map fst (buckets bucket_key ws)))
        = mset (map (selection_of vs) (map fst (buckets bucket_key vs)))"
      using buckets_keys_perm [OF set] by (metis mset_map)
    show "inj_on selection_key (set (map (selection_of vs) (map fst (buckets bucket_key ws))))"
      using selection_key_inj [of vs UNIV] by (simp only: set_map) (auto intro!: inj_onI dest: injD)
  qed
  then show ?thesis
    using collapse_eq [OF assms(3,2)] collapse_eq [of vs] assms(3) set d sel by simp
qed

text \<open>
  What a selection promises: its members are the events of one group and signal, and the
  representative is the strongest, ties going to the smallest identifier.
\<close>

definition selection_spec :: "weighted_event list \<Rightarrow> correlation_selection \<Rightarrow> bool" where
  "selection_spec ws s \<longleftrightarrow>
     insert (sel_representative s) (set (sel_suppressed s))
       = {w \<in> set ws. bucket_key w = (sel_group s, sel_signal s)}
     \<and> distinct (map we_id (sel_representative s # sel_suppressed s))
     \<and> sorted (map we_id (sel_suppressed s))
     \<and> (\<forall>w \<in> set (sel_suppressed s). rank_key (sel_representative s) \<le> rank_key w)"

lemma selection_of_spec:
  assumes "k \<in> bucket_key ` set ws" "distinct (map we_id ws)"
  shows "selection_spec ws (selection_of ws k)"
proof -
  obtain r t where c: "ranked_bucket ws k = r # t"
    using ranked_bucket_nonempty [OF assms(1)] by (cases "ranked_bucket ws k") auto
  have "distinct (map we_id (ranked_bucket ws k))" "sorted (map rank_key (ranked_bucket ws k))"
    using assms(2) by (simp_all add: ranked_bucket_def distinct_map_filter)
  with c show ?thesis
    using set_ranked_bucket [of ws k] by (simp add: selection_spec_def selection_of_def)
qed

lemma collapse_correlated_spec:
  assumes "\<And>w. w \<in> set ws \<Longrightarrow> weighted_ok w" "distinct (map we_id ws)"
  shows "\<exists>sels. collapse_correlated ws = Inr sels
      \<and> (\<forall>s \<in> set sels. selection_spec ws s)
      \<and> distinct (map (\<lambda>s. (sel_group s, sel_signal s)) sels)
      \<and> (\<lambda>s. (sel_group s, sel_signal s)) ` set sels = bucket_key ` set ws
      \<and> sorted (map selection_key sels)"
proof -
  let ?ks = "map fst (buckets bucket_key ws)"
  let ?sels = "sort_key selection_key (map (selection_of ws) ?ks)"
  have ks: "set ?ks = bucket_key ` set ws" "distinct ?ks"
    by (rule buckets_keys, rule buckets_distinct)
  have key: "(sel_group (selection_of ws k), sel_signal (selection_of ws k)) = k" for k
    by (simp add: selection_of_def)
  have "\<forall>s \<in> set ?sels. selection_spec ws s"
    using ks(1) selection_of_spec [OF _ assms(2)] by (simp only: set_sort set_map [of "selection_of ws"] ball_simps) blast
  moreover have "distinct (map (\<lambda>s. (sel_group s, sel_signal s)) ?sels)"
    using ks(2) key by (simp add: comp_def)
  moreover have "(\<lambda>s. (sel_group s, sel_signal s)) ` set ?sels = bucket_key ` set ws"
    using ks(1) key by (simp add: image_image)
  ultimately show ?thesis using collapse_eq [OF assms] by simp
qed

end
