(* ===== verification/Reliability.thy ===== *)
theory Reliability
  imports Fusion
begin

text \<open>
  Source reliability updating from adjudications (reliability.py): the stream-wide validation of
  adjudications and the closed form, with every rounding of the source written out. The lemmas
  show that the closed form never fails on a validated policy, stays in the unit interval, is exactly
  the posterior when the bound does not bite, and does not depend on the order of adjudications.
\<close>

subsection \<open>The adjustment record\<close>

record reliability_adjustment =
  ra_source :: ustr
  ra_declared :: rat
  ra_posterior :: rat
  ra_applied :: rat
  ra_correct :: "ustr list"
  ra_incorrect :: "ustr list"

definition ReliabilityAdjustment_init ::
  "ustr \<Rightarrow> rat \<Rightarrow> rat \<Rightarrow> rat \<Rightarrow> ustr list \<Rightarrow> ustr list \<Rightarrow> reliability_adjustment result" where
  "ReliabilityAdjustment_init src declared posterior applied correct incorrect =
     rbind (text_value (JStr src) ''adjustment.source'' True) (\<lambda>s.
     rbind (number_value (JFloat (Fin declared)) ''adjustment.declared_reliability'' 0 (Some 1)) (\<lambda>d.
     rbind (number_value (JFloat (Fin posterior)) ''adjustment.posterior_reliability'' 0 (Some 1)) (\<lambda>q.
     rbind (number_value (JFloat (Fin applied)) ''adjustment.applied_reliability'' 0 (Some 1)) (\<lambda>a.
     rbind (canonical_text_tuple (JArr (map JStr correct)) ''adjustment.correct_event_ids'') (\<lambda>cs.
     rbind (canonical_text_tuple (JArr (map JStr incorrect)) ''adjustment.incorrect_event_ids'') (\<lambda>ics.
     rbind (require (set cs \<inter> set ics = {})
              ''adjustment event IDs must not be both correct and incorrect'') (\<lambda>_.
     rbind (require (cs \<noteq> [] \<or> ics \<noteq> []) ''adjustment must record at least one adjudication'') (\<lambda>_.
     Inr \<lparr>ra_source = s, ra_declared = d, ra_posterior = q, ra_applied = a, ra_correct = cs,
          ra_incorrect = ics\<rparr>))))))))"

subsection \<open>Stream-wide validation\<close>

definition event_of_adjudication :: "evidence_event list \<Rightarrow> adjudication \<Rightarrow> evidence_event option" where
  "event_of_adjudication events a = map_of (rev (map (\<lambda>e. (ev_id e, e)) events)) (adj_event_id a)"

definition adjudication_mismatched :: "evidence_event list \<Rightarrow> adjudication \<Rightarrow> bool" where
  "adjudication_mismatched events a =
     (case event_of_adjudication events a of None \<Rightarrow> False | Some e \<Rightarrow> ev_source e \<noteq> adj_source a)"

definition adjudication_premature :: "evidence_event list \<Rightarrow> adjudication \<Rightarrow> bool" where
  "adjudication_premature events a =
     (case event_of_adjudication events a of
        None \<Rightarrow> False
      | Some e \<Rightarrow> ev_source e = adj_source a \<and> adj_at a < ev_ingested_at e)"

definition validate_adjudication_set ::
  "policy \<Rightarrow> evidence_event list \<Rightarrow> adjudication list \<Rightarrow> adjudication list result" where
  "validate_adjudication_set p events adjs =
     rbind (require (adjs = [] \<or> reliability_updates p \<noteq> None)
       ''adjudications were supplied but the policy does not configure reliability_updates'') (\<lambda>_.
     rbind (require (distinct (map adj_event_id adjs)) ''duplicate adjudicated event_id(s)'') (\<lambda>_.
     rbind (require (set (map adj_source adjs) \<subseteq> set (map fst (sources p)))
       ''adjudicated source(s) missing from policy.sources'') (\<lambda>_.
     rbind (require (filter (adjudication_mismatched events) adjs = [])
       ''adjudication(s) naming a source the event did not come from'') (\<lambda>_.
     rbind (require (filter (adjudication_premature events) adjs = [])
       ''adjudication(s) dated before the observation they judge was ingested'') (\<lambda>_.
     Inr adjs)))))"

lemma validate_adjudication_set_Inr:
  "validate_adjudication_set p events adjs = Inr r \<longleftrightarrow>
     r = adjs \<and> (adjs = [] \<or> reliability_updates p \<noteq> None) \<and> distinct (map adj_event_id adjs)
     \<and> set (map adj_source adjs) \<subseteq> set (map fst (sources p))
     \<and> (\<forall>a \<in> set adjs. \<not> adjudication_mismatched events a \<and> \<not> adjudication_premature events a)"
  by (auto simp: validate_adjudication_set_def filter_empty_conv)

subsection \<open>The closed form\<close>

definition posterior_reliability :: "update_policy \<Rightarrow> rat \<Rightarrow> nat \<Rightarrow> nat \<Rightarrow> rat" where
  "posterior_reliability rule declared correct incorrect =
     stable_float (fl (fl (fl (prior_weight rule * declared) + fl (of_nat correct))
                       / fl (prior_weight rule + fl (of_nat (correct + incorrect)))))"

definition applied_reliability :: "update_policy \<Rightarrow> rat \<Rightarrow> rat \<Rightarrow> rat" where
  "applied_reliability rule declared posterior =
     (let delta = min (max (fl (posterior - declared)) (- max_adjustment rule)) (max_adjustment rule)
      in stable_float (fl (declared + delta)))"

definition adjust_source ::
  "policy \<Rightarrow> update_policy \<Rightarrow> adjudication list \<Rightarrow> ustr \<Rightarrow> reliability_adjustment result" where
  "adjust_source p rule judged src =
     (let correct = sort (map adj_event_id (filter (\<lambda>a. adj_verdict a = CORRECT) judged));
          incorrect = sort (map adj_event_id (filter (\<lambda>a. adj_verdict a = INCORRECT) judged));
          declared = stable_float (reliability_for p src);
          posterior = posterior_reliability rule declared (length correct) (length incorrect)
      in ReliabilityAdjustment_init src declared posterior (applied_reliability rule declared posterior)
           correct incorrect)"

definition judged_of :: "(ustr \<times> adjudication list) list \<Rightarrow> ustr \<Rightarrow> adjudication list" where
  "judged_of verdicts s = (case map_of verdicts s of None \<Rightarrow> [] | Some js \<Rightarrow> js)"

definition adjust_reliabilities :: "policy \<Rightarrow> adjudication list \<Rightarrow> reliability_adjustment list result" where
  "adjust_reliabilities p adjs =
     (case reliability_updates p of
        None \<Rightarrow> Inr []
      | Some rule \<Rightarrow>
          let verdicts = buckets adj_source adjs
          in rmap (\<lambda>s. adjust_source p rule (judged_of verdicts s) s) (sort (map fst verdicts)))"

subsection \<open>Bounds\<close>

lemma unit_double_stable_float: "0 \<le> x \<Longrightarrow> x \<le> 1 \<Longrightarrow> unit_double (stable_float x)"
  by (simp add: unit_double_def stable_float_in_unit)

text \<open>A value a rounding error away from the unit interval is rounded back into it.\<close>

lemma stable_float_nearly_unit:
  assumes "- (1 / 4) / 10 ^ 12 \<le> x" "x \<le> 1 + (1 / 4) / 10 ^ 12"
  shows "unit_double (stable_float x)"
proof -
  let ?r = "rnd_even (x * 10 ^ 12)"
  have "- (1 / 4) \<le> x * 10 ^ 12" "x * 10 ^ 12 \<le> 10 ^ 12 + 1 / 4"
    using assms by (simp_all add: field_simps)
  with rnd_even_error [of "x * 10 ^ 12"] have "- (1 :: rat) < of_int ?r" "of_int ?r < (10 ^ 12 + 1 :: rat)"
    by linarith+
  then have "0 \<le> ?r" and "of_int ?r < (of_int (10 ^ 12 + 1) :: rat)" by simp_all
  then have "0 \<le> ?r" "?r \<le> 10 ^ 12" by (simp_all only: of_int_less_iff zless_add1_eq le_less)
  then have "(0::rat) \<le> of_int ?r" "(of_int ?r :: rat) \<le> of_int (10 ^ 12)"
    by (simp_all only: of_int_0_le_iff of_int_le_iff)
  then have "0 \<le> of_int ?r / (10 ^ 12 :: rat)" "of_int ?r / (10 ^ 12 :: rat) \<le> 1" by simp_all
  then show ?thesis
    by (simp add: unit_double_def stable_float_def fl_in_unit is_double_fl)
qed

lemma posterior_unit:
  assumes "update_ok rule" "unit_double d"
  shows "unit_double (posterior_reliability rule d c i)"
proof -
  let ?w = "prior_weight rule"
  let ?num = "fl (fl (?w * d) + fl (of_nat c))"
  let ?den = "fl (?w + fl (of_nat (c + i)))"
  have w: "0 < ?w" "is_double ?w"
    using assms(1) less_le_trans [OF min_positive_pos] by (simp_all add: update_ok_def)
  have "?w * d \<le> ?w" using w assms(2) by (simp add: unit_double_def mult_left_le)
  then have wd: "fl (?w * d) \<le> ?w" using w by (simp add: fl_le)
  have "fl (of_nat c) \<le> fl (of_nat (c + i))" by (intro fl_mono) simp
  with wd have num_den: "?num \<le> ?den" by (intro fl_mono) simp
  have "0 \<le> fl (?w * d)" using w assms(2) by (simp add: unit_double_def fl_nonneg)
  moreover have "0 \<le> fl (of_nat c)" by (simp add: fl_nonneg)
  ultimately have num: "0 \<le> ?num" by (simp add: fl_nonneg)
  have "0 \<le> fl (of_nat (c + i))" by (rule fl_nonneg) simp
  then have "?w \<le> ?den" using w by (intro fl_ge) simp_all
  with w have "0 < ?den" by linarith
  with num num_den have "0 \<le> ?num / ?den" "?num / ?den \<le> 1" by simp_all
  then have "0 \<le> fl (?num / ?den)" "fl (?num / ?den) \<le> 1" by (simp_all add: fl_nonneg fl_le_1)
  then show ?thesis by (simp add: posterior_reliability_def unit_double_stable_float)
qed

lemma is_double_next_one: "is_double (1 + 2 powi (- 52))"
proof -
  have "is_double (fl (1 + 2 powi (- 52)))" by (rule is_double_fl)
  moreover have "fl (1 + 2 powi (- 52)) = 1 + 2 powi (- 52)" by code_simp
  ultimately show ?thesis by metis
qed

lemma is_double_tiny: "is_double (- (2 powi (- 52)))"
  using is_double_powi [of "- 52"] by (simp add: is_double_def fl_minus)

text \<open>Adding a rounded difference back to its base: a rounding error away from the unit interval.\<close>

lemma fl_add_difference:
  assumes "unit_double p" "unit_double d" and delta: "min 0 (fl (p - d)) \<le> \<delta>" "\<delta> \<le> max 0 (fl (p - d))"
  shows "- (2 powi (- 52)) \<le> fl (d + \<delta>) \<and> fl (d + \<delta>) \<le> 1 + 2 powi (- 52)"
proof -
  have "\<bar>p - d\<bar> \<le> 1" using assms(1,2) by (auto simp: unit_double_def)
  then have "\<bar>fl (p - d) - (p - d)\<bar> \<le> 2 powi (- 53)" by (rule fl_error)
  moreover have "(2::rat) powi (- 53) \<le> 2 powi (- 52)" by simp
  ultimately have "- (2 powi (- 52)) \<le> d + \<delta>" "d + \<delta> \<le> 1 + 2 powi (- 52)"
    using assms(1,2) delta unfolding unit_double_def by linarith+
  then show ?thesis using fl_ge [OF _ is_double_tiny] fl_le [OF _ is_double_next_one] by blast
qed

lemma powi_52_small: "(2::rat) powi (- 52) \<le> (1 / 4) / 10 ^ 12"
  by (simp add: power_int_def power_divide)

lemma applied_unit:
  assumes "update_ok rule" "unit_double p" "unit_double d"
  shows "unit_double (applied_reliability rule d p)"
proof -
  let ?m = "max_adjustment rule"
  let ?delta = "min (max (fl (p - d)) (- ?m)) ?m"
  have "0 \<le> ?m" using assms(1) by (simp add: update_ok_def)
  then have "min 0 (fl (p - d)) \<le> ?delta" "?delta \<le> max 0 (fl (p - d))" by auto
  from fl_add_difference [OF assms(2,3) this] powi_52_small
  show ?thesis unfolding applied_reliability_def Let_def
    by (intro stable_float_nearly_unit) linarith+
qed

text \<open>
  When the bound does not bite, the applied weight is exactly the posterior: rounding to twelve digits
  absorbs the error of subtracting the declared weight and adding it back.
\<close>

lemma applied_is_posterior:
  assumes "0 \<le> q" "q \<le> 1" "unit_double d" "\<bar>fl (stable_float q - d)\<bar> \<le> max_adjustment rule"
  shows "applied_reliability rule d (stable_float q) = stable_float q"
proof -
  let ?p = "stable_float q"
  let ?n = "rnd_even (q * 10 ^ 12)"
  let ?y = "fl (?p - d)"
  have up: "unit_double ?p" using assms(1,2) by (rule unit_double_stable_float)
  have delta: "min (max ?y (- max_adjustment rule)) (max_adjustment rule) = ?y"
    using assms(4) by (auto simp: abs_le_iff min_def max_def)
  have small: "(2::rat) powi (- 53) \<le> 2 powi (- 52)" by simp
  have "\<bar>?p - d\<bar> \<le> 1" using up assms(3) by (auto simp: unit_double_def)
  then have y: "\<bar>?y - (?p - d)\<bar> \<le> 2 powi (- 52)" using fl_error [of "?p - d"] small by simp
  have x: "\<bar>fl (d + ?y) - (d + ?y)\<bar> \<le> 2 powi (- 52)"
  proof (cases "\<bar>d + ?y\<bar> \<le> 1")
    case True
    then show ?thesis using fl_error [of "d + ?y"] small by simp
  next
    case False
    have "- (2 powi (- 52)) \<le> d + ?y" using y up unfolding unit_double_def by linarith
    moreover have "(2::rat) powi (- 52) \<le> 1" by (simp add: power_int_def power_divide)
    ultimately have "1 \<le> d + ?y" using False by linarith
    then have "1 \<le> fl (d + ?y)" by (simp add: fl_ge)
    moreover have "fl (d + ?y) \<le> 1 + 2 powi (- 52)"
      using fl_add_difference [OF up assms(3), of ?y] by simp
    moreover have "d + ?y \<le> 1 + 2 powi (- 52)" using y up unfolding unit_double_def by linarith
    ultimately show ?thesis using \<open>1 \<le> d + ?y\<close> by linarith
  qed
  have nn: "0 \<le> ?n" "?n \<le> 10 ^ 12"
  proof -
    have "rnd_even 0 \<le> ?n" using assms(1) by (intro rnd_even_mono) simp
    then show "0 \<le> ?n" by simp
    have "?n \<le> rnd_even (of_int (10 ^ 12))" using assms(2) by (intro rnd_even_mono) simp
    then show "?n \<le> 10 ^ 12" by (simp only: rnd_even_of_int)
  qed
  then have "(of_int ?n :: rat) \<le> of_int (10 ^ 12)" by (simp only: of_int_le_iff)
  with nn(1) have "\<bar>of_int ?n / 10 ^ 12 :: rat\<bar> \<le> 1" by simp
  then have "\<bar>?p - of_int ?n / 10 ^ 12\<bar> \<le> 2 powi (- 52)"
    using fl_error [of "of_int ?n / 10 ^ 12"] small by (simp add: stable_float_def)
  with x y have "\<bar>fl (d + ?y) - of_int ?n / 10 ^ 12\<bar> \<le> 3 * 2 powi (- 52)"
    by linarith
  then have "\<bar>fl (d + ?y) * 10 ^ 12 - of_int ?n\<bar> \<le> 3 * 2 powi (- 52) * 10 ^ 12"
    by (simp add: abs_le_iff field_simps)
  also have "3 * (2::rat) powi (- 52) * 10 ^ 12 < 1 / 2" by (simp add: power_int_def power_divide)
  finally have "rnd_even (fl (d + ?y) * 10 ^ 12) = ?n"
    by (intro rnd_even_unique) (simp add: abs_minus_commute)
  then have "stable_float (fl (d + ?y)) = ?p" by (simp add: stable_float_def)
  then show ?thesis unfolding applied_reliability_def Let_def by (simp only: delta)
qed

subsection \<open>Totality and order independence\<close>

lemma sort_bucket_keys: "sort (map fst (buckets f xs)) = sorted_set (map f xs)"
  using buckets_keys [of f xs] by (intro sorted_distinct_set_unique) (simp_all add: buckets_distinct)

lemma judged_of_buckets: "judged_of (buckets adj_source adjs) s = filter (\<lambda>a. adj_source a = s) adjs"
  by (auto simp: judged_of_def buckets_def map_of_fill_buckets image_iff empty_filter_conv
      split: option.split)

lemma adjust_reliabilities_eq:
  "adjust_reliabilities p adjs =
     (case reliability_updates p of
        None \<Rightarrow> Inr []
      | Some rule \<Rightarrow>
          rmap (\<lambda>s. adjust_source p rule (filter (\<lambda>a. adj_source a = s) adjs) s)
            (sorted_set (map adj_source adjs)))"
  by (simp add: adjust_reliabilities_def Let_def sort_bucket_keys judged_of_buckets split: option.split)

lemma sort_mset_cong: "mset xs = mset ys \<Longrightarrow> sort xs = sort ys"
  by (metis mset_sort properties_for_sort sorted_sort)

lemma adjust_source_perm: "mset js = mset ks \<Longrightarrow> adjust_source p rule js s = adjust_source p rule ks s"
proof -
  assume eq: "mset js = mset ks"
  have "sort (map adj_event_id (filter P js)) = sort (map adj_event_id (filter P ks))" for P
    using eq by (intro sort_mset_cong) simp
  then show ?thesis by (simp add: adjust_source_def)
qed

lemma adjust_reliabilities_perm:
  assumes "mset as = mset bs"
  shows "adjust_reliabilities p as = adjust_reliabilities p bs"
proof -
  have "sorted_set (map adj_source as) = sorted_set (map adj_source bs)"
    using mset_eq_setD [OF assms] by (intro sorted_set_cong) simp
  moreover have "adjust_source p rule (filter (\<lambda>a. adj_source a = s) as) s
      = adjust_source p rule (filter (\<lambda>a. adj_source a = s) bs) s" for rule s
    using assms by (intro adjust_source_perm) simp
  ultimately show ?thesis unfolding adjust_reliabilities_eq by presburger
qed

text \<open>What an adjustment promises about the adjudications it was made from.\<close>

definition adjustment_ok :: "policy \<Rightarrow> update_policy \<Rightarrow> adjudication list \<Rightarrow> reliability_adjustment \<Rightarrow> bool" where
  "adjustment_ok p rule adjs a \<longleftrightarrow>
     text_ok (ra_source a)
     \<and> ra_correct a = sort (map adj_event_id
         (filter (\<lambda>j. adj_source j = ra_source a \<and> adj_verdict j = CORRECT) adjs))
     \<and> ra_incorrect a = sort (map adj_event_id
         (filter (\<lambda>j. adj_source j = ra_source a \<and> adj_verdict j = INCORRECT) adjs))
     \<and> ra_declared a = stable_float (reliability_for p (ra_source a))
     \<and> ra_posterior a = posterior_reliability rule (ra_declared a) (length (ra_correct a)) (length (ra_incorrect a))
     \<and> ra_applied a = applied_reliability rule (ra_declared a) (ra_posterior a)
     \<and> unit_double (ra_declared a) \<and> unit_double (ra_posterior a) \<and> unit_double (ra_applied a)
     \<and> distinct (ra_correct a) \<and> distinct (ra_incorrect a)
     \<and> set (ra_correct a) \<inter> set (ra_incorrect a) = {}
     \<and> (ra_correct a \<noteq> [] \<or> ra_incorrect a \<noteq> [])
     \<and> (\<forall>i \<in> set (ra_correct a) \<union> set (ra_incorrect a). text_ok i)"

lemma adjust_source_Inr:
  assumes pol: "policy_ok p" "update_ok rule" and adjs: "\<And>a. a \<in> set adjs \<Longrightarrow> adjudication_ok a"
    and d: "distinct (map adj_event_id adjs)" and s: "s \<in> adj_source ` set adjs"
  shows "\<exists>a. adjust_source p rule (filter (\<lambda>a. adj_source a = s) adjs) s = Inr a
      \<and> ra_source a = s \<and> adjustment_ok p rule adjs a"
proof -
  let ?ids = "\<lambda>v. sort (map adj_event_id (filter (\<lambda>j. adj_source j = s \<and> adj_verdict j = v) adjs))"
  have ff: "filter (\<lambda>a. adj_verdict a = v) (filter (\<lambda>a. adj_source a = s) adjs)
      = filter (\<lambda>j. adj_source j = s \<and> adj_verdict j = v) adjs" for v
    by (simp add: conj_commute)
  let ?d = "stable_float (reliability_for p s)"
  let ?q = "posterior_reliability rule ?d (length (?ids CORRECT)) (length (?ids INCORRECT))"
  let ?a = "applied_reliability rule ?d ?q"
  have unit: "unit_double ?d" using reliability_for_unit [OF pol(1)] by (simp add: unit_double_stable_float)
  have units: "unit_double ?q" "unit_double ?a"
    using posterior_unit [OF pol(2) unit] applied_unit [OF pol(2) _ unit] by blast+
  have ids: "text_ok i" if "i \<in> set (?ids v)" for i v
    using that adjs by (auto simp: adjudication_ok_def)
  have dist: "distinct (?ids v)" for v using d by (simp add: distinct_map_filter)
  have tuple: "canonical_text_tuple (JArr (map JStr (?ids v))) path = Inr (?ids v)" for v path
  proof -
    have "canonical_text_tuple (JArr (map JStr (?ids v))) path = Inr (sort (?ids v))"
      by (rule canonical_text_tuple_JStr) (rule ids, assumption, rule dist)
    then show ?thesis by (simp only: sorted_sort_id [OF sorted_sort])
  qed
  have disj: "set (?ids CORRECT) \<inter> set (?ids INCORRECT) = {}"
  proof (rule equals0I)
    fix i assume i: "i \<in> set (?ids CORRECT) \<inter> set (?ids INCORRECT)"
    have mem: "\<exists>a \<in> set adjs. adj_event_id a = i \<and> adj_verdict a = v" if "i \<in> set (?ids v)" for v
      using that by auto
    from i mem obtain a b where "a \<in> set adjs" "adj_event_id a = i" "adj_verdict a = CORRECT"
      and "b \<in> set adjs" "adj_event_id b = i" "adj_verdict b = INCORRECT" by blast
    moreover have "inj_on adj_event_id (set adjs)" using d by (simp add: distinct_map)
    ultimately have "a = b" by (metis inj_onD)
    then show False using \<open>adj_verdict a = CORRECT\<close> \<open>adj_verdict b = INCORRECT\<close> by simp
  qed
  obtain b where b: "b \<in> set adjs" "adj_source b = s" using s by auto
  have ne: "?ids CORRECT \<noteq> [] \<or> ?ids INCORRECT \<noteq> []"
  proof (cases "adj_verdict b")
    case CORRECT
    then have "adj_event_id b \<in> set (?ids CORRECT)" using b by auto
    then show ?thesis by force
  next
    case INCORRECT
    then have "adj_event_id b \<in> set (?ids INCORRECT)" using b by auto
    then show ?thesis by force
  qed
  have ts: "text_ok s" using adjs [OF b(1)] b(2) by (auto simp: adjudication_ok_def)
  let ?r = "\<lparr>ra_source = s, ra_declared = ?d, ra_posterior = ?q, ra_applied = ?a,
      ra_correct = ?ids CORRECT, ra_incorrect = ?ids INCORRECT\<rparr>"
  have "adjust_source p rule (filter (\<lambda>a. adj_source a = s) adjs) s = Inr ?r"
    unfolding adjust_source_def ff Let_def ReliabilityAdjustment_init_def
    using unit units ts disj ne tuple by simp
  moreover have "adjustment_ok p rule adjs ?r"
  proof -
    have idall: "\<forall>i \<in> set (?ids CORRECT) \<union> set (?ids INCORRECT). text_ok i" using ids by blast
    show ?thesis
      by (simp only: adjustment_ok_def reliability_adjustment.simps unit units ts disj ne dist simp_thms) (rule idall)
  qed
  ultimately show ?thesis by (intro exI [of _ ?r] conjI) (simp_all only: reliability_adjustment.simps)
qed

lemma adjust_reliabilities_total:
  assumes "policy_ok p" "\<And>a. a \<in> set adjs \<Longrightarrow> adjudication_ok a" "distinct (map adj_event_id adjs)"
  shows "\<exists>as. adjust_reliabilities p adjs = Inr as
      \<and> (\<forall>a \<in> set as. \<exists>rule. reliability_updates p = Some rule \<and> adjustment_ok p rule adjs a)
      \<and> map ra_source as = (if reliability_updates p = None then [] else sorted_set (map adj_source adjs))"
proof (cases "reliability_updates p")
  case None
  then show ?thesis by (simp add: adjust_reliabilities_eq)
next
  case (Some rule)
  let ?f = "\<lambda>s. adjust_source p rule (filter (\<lambda>a. adj_source a = s) adjs) s"
  have upd: "update_ok rule" using assms(1) Some by (simp add: policy_ok_def)
  have one: "\<exists>a. ?f s = Inr a \<and> ra_source a = s \<and> adjustment_ok p rule adjs a"
    if "s \<in> adj_source ` set adjs" for s
    using adjust_source_Inr [OF assms(1) upd _ assms(3) that] assms(2) by blast
  let ?ss = "sorted_set (map adj_source adjs)"
  have "\<exists>a. ?f s = Inr a" if "s \<in> set ?ss" for s
    using one [of s] that by auto
  then obtain as where as: "rmap ?f ?ss = Inr as" using rmap_total [of ?ss ?f] by blast
  have "\<forall>a \<in> set as. adjustment_ok p rule adjs a"
  proof
    fix a assume "a \<in> set as"
    then obtain s where "s \<in> set ?ss" and a: "?f s = Inr a" using rmap_Inr_elem_rev [OF as] by blast
    then have "s \<in> adj_source ` set adjs" by simp
    from one [OF this] a show "adjustment_ok p rule adjs a" by auto
  qed
  moreover have "map ra_source as = ?ss"
  proof (rule rmap_inverse [OF as])
    fix s a assume s: "s \<in> set ?ss" and a: "?f s = Inr a"
    have "s \<in> adj_source ` set adjs" using s by simp
    from one [OF this] a show "ra_source a = s" by auto
  qed
  ultimately show ?thesis using as Some by (simp add: adjust_reliabilities_eq)
qed

lemma length_filter_verdicts:
  "length (filter (\<lambda>j. P j \<and> adj_verdict j = CORRECT) adjs) + length (filter (\<lambda>j. P j \<and> adj_verdict j = INCORRECT) adjs)
    = length (filter P adjs)"
  by (induction adjs) (auto, metis verdict.exhaust)

text \<open>Every adjudication of a source is counted once, and the reliabilities stay in the unit interval.\<close>

lemma adjustment_bounds:
  assumes "adjustment_ok p rule adjs a"
  shows "0 \<le> ra_posterior a \<and> ra_posterior a \<le> 1 \<and> 0 \<le> ra_applied a \<and> ra_applied a \<le> 1
    \<and> ra_declared a = stable_float (reliability_for p (ra_source a))
    \<and> int (length (ra_correct a)) + int (length (ra_incorrect a))
        = int (length (filter (\<lambda>j. adj_source j = ra_source a) adjs))"
proof -
  have "length (ra_correct a) + length (ra_incorrect a) = length (filter (\<lambda>j. adj_source j = ra_source a) adjs)"
  proof -
    from assms have "ra_correct a = sort (map adj_event_id (filter (\<lambda>j. adj_source j = ra_source a \<and> adj_verdict j = CORRECT) adjs))"
      "ra_incorrect a = sort (map adj_event_id (filter (\<lambda>j. adj_source j = ra_source a \<and> adj_verdict j = INCORRECT) adjs))"
      unfolding adjustment_ok_def by blast+
    then have "length (ra_correct a) = length (filter (\<lambda>j. adj_source j = ra_source a \<and> adj_verdict j = CORRECT) adjs)"
      "length (ra_incorrect a) = length (filter (\<lambda>j. adj_source j = ra_source a \<and> adj_verdict j = INCORRECT) adjs)"
      by simp_all
    then show ?thesis using length_filter_verdicts [of "\<lambda>j. adj_source j = ra_source a" adjs] by simp
  qed
  then have "int (length (ra_correct a)) + int (length (ra_incorrect a)) = int (length (filter (\<lambda>j. adj_source j = ra_source a) adjs))"
    by (metis of_nat_add)
  moreover have "0 \<le> ra_posterior a \<and> ra_posterior a \<le> 1 \<and> 0 \<le> ra_applied a \<and> ra_applied a \<le> 1
      \<and> ra_declared a = stable_float (reliability_for p (ra_source a))"
    using assms unfolding adjustment_ok_def unit_double_def by blast
  ultimately show ?thesis by blast
qed

end
