(* ===== verification/Engine.thy ===== *)
theory Engine
  imports Reliability "HOL-Library.Sublist"
begin

text \<open>
  Evaluation and decision tracing (engine.py): the output records with the validation of their
  \<open>__post_init__\<close>, their JSON views and the digest, the combination of confidences, the gates,
  the choice of the outcome, and \<open>evaluate\<close>. Every output record is built through its
  validating initializer, so \<open>evaluate_total\<close> shows that no internal consistency check of
  the engine can fail on validated input.
\<close>

subsection \<open>Combining confidence\<close>

text \<open>\<open>math.prod\<close> of floats multiplies from the left and rounds after every step.\<close>

fun float_prod :: "rat \<Rightarrow> rat list \<Rightarrow> rat" where
  "float_prod acc [] = acc"
| "float_prod acc (x # xs) = float_prod (fl (acc * x)) xs"

definition combined_confidence :: "rat list \<Rightarrow> rat" where
  "combined_confidence vs = fl (1 - float_prod 1 (map (\<lambda>v. fl (1 - stable_float v)) vs))"

subsection \<open>Signal summaries\<close>

record signal_summary =
  ss_signal :: signal
  ss_score :: rat
  ss_groups :: int
  ss_sources :: "ustr list"
  ss_modalities :: "ustr list"
  ss_gate :: bool
  ss_group_ids :: "ustr list"

definition text_array :: "ustr list \<Rightarrow> json" where
  "text_array xs = JArr (map JStr xs)"

definition modality_names :: "ustr list" where
  "modality_names = map (\<lambda>m. U (modality_value m)) modalities_all"

definition SignalSummary_init ::
  "signal \<Rightarrow> rat \<Rightarrow> int \<Rightarrow> ustr list \<Rightarrow> ustr list \<Rightarrow> bool \<Rightarrow> ustr list \<Rightarrow> signal_summary result" where
  "SignalSummary_init s score grps srcs mods gate ids =
     rbind (number_value (JFloat (Fin score)) ''summary.score'' 0 (Some 1)) (\<lambda>q.
     rbind (nonnegative_int (JInt grps) ''summary.qualifying_groups'') (\<lambda>n.
     rbind (canonical_text_tuple (text_array srcs) ''summary.qualifying_sources'') (\<lambda>ss.
     rbind (canonical_text_tuple (text_array mods) ''summary.qualifying_modalities'') (\<lambda>ms.
     rbind (require (set ms \<subseteq> set modality_names)
              ''summary.qualifying_modalities is not a supported modality'') (\<lambda>_.
     rbind (canonical_text_tuple (text_array ids) ''summary.group_ids'') (\<lambda>gs.
     rbind (require (n \<le> int (length gs)) ''summary.qualifying_groups cannot exceed its group count'') (\<lambda>_.
     Inr \<lparr>ss_signal = s, ss_score = q, ss_groups = n, ss_sources = ss, ss_modalities = ms,
          ss_gate = gate, ss_group_ids = gs\<rparr>)))))))"

definition SignalSummary_to_dict :: "signal_summary \<Rightarrow> json" where
  "SignalSummary_to_dict s = JObj
     [(U ''score'', JFloat (Fin (stable_float (ss_score s)))),
      (U ''qualifying_groups'', JInt (ss_groups s)),
      (U ''qualifying_sources'', text_array (ss_sources s)),
      (U ''qualifying_modalities'', text_array (ss_modalities s)),
      (U ''gate_passed'', JBool (ss_gate s)),
      (U ''group_ids'', text_array (ss_group_ids s))]"

subsection \<open>Traces\<close>

record event_trace =
  tr_event_id :: ustr
  tr_claim :: ustr
  tr_signal :: signal
  tr_modality :: modality
  tr_source :: ustr
  tr_group :: "ustr option"
  tr_confidence :: rat
  tr_reliability :: rat
  tr_age :: rat
  tr_decay :: rat
  tr_effective :: rat

definition EventTrace_init ::
  "ustr \<Rightarrow> ustr \<Rightarrow> ustr \<Rightarrow> ustr \<Rightarrow> ustr \<Rightarrow> ustr option \<Rightarrow> rat \<Rightarrow> rat \<Rightarrow> rat \<Rightarrow> rat \<Rightarrow> rat \<Rightarrow> event_trace result" where
  "EventTrace_init i claim sig modal src grp raw rel age dec eff =
     rbind (text_value (JStr i) ''trace.event_id'' True) (\<lambda>i.
     rbind (text_value (JStr claim) ''trace.claim'' True) (\<lambda>c.
     case member_of signal_value signals_all sig of
       None \<Rightarrow> Inl (ValidationError ''trace.signal must be support or contradict'')
     | Some s \<Rightarrow>
     (case member_of modality_value modalities_all modal of
       None \<Rightarrow> Inl (ValidationError ''trace.modality is not supported'')
     | Some m \<Rightarrow>
     rbind (text_value (JStr src) ''trace.source'' True) (\<lambda>src.
     rbind (optional_text (JOpt grp) ''trace.correlation_group'') (\<lambda>g.
     rbind (number_value (JFloat (Fin raw)) ''trace.raw_confidence'' 0 (Some 1)) (\<lambda>q.
     rbind (number_value (JFloat (Fin rel)) ''trace.source_reliability'' 0 (Some 1)) (\<lambda>r.
     rbind (number_value (JFloat (Fin dec)) ''trace.decay_factor'' 0 (Some 1)) (\<lambda>d.
     rbind (number_value (JFloat (Fin eff)) ''trace.effective_confidence'' 0 (Some 1)) (\<lambda>f.
     rbind (number_value (JFloat (Fin age)) ''trace.age_seconds'' 0 None) (\<lambda>a.
     Inr \<lparr>tr_event_id = i, tr_claim = c, tr_signal = s, tr_modality = m, tr_source = src, tr_group = g,
          tr_confidence = q, tr_reliability = r, tr_age = a, tr_decay = d, tr_effective = f\<rparr>))))))))))"

definition EventTrace_from_weighted :: "weighted_event \<Rightarrow> event_trace result" where
  "EventTrace_from_weighted w =
     (let e = we_event w in
      EventTrace_init (ev_id e) (ev_claim e) (U (signal_value (ev_signal e)))
        (U (modality_value (ev_modality e))) (ev_source e) (ev_group e) (ev_confidence e)
        (stable_float (we_reliability w)) (stable_float (we_age w)) (stable_float (we_decay w))
        (stable_float (we_effective w)))"

definition EventTrace_to_dict :: "event_trace \<Rightarrow> json" where
  "EventTrace_to_dict t = JObj
     [(U ''event_id'', JStr (tr_event_id t)), (U ''claim'', JStr (tr_claim t)),
      (U ''signal'', JText (signal_value (tr_signal t))),
      (U ''modality'', JText (modality_value (tr_modality t))),
      (U ''source'', JStr (tr_source t)), (U ''correlation_group'', JOpt (tr_group t)),
      (U ''raw_confidence'', JFloat (Fin (tr_confidence t))),
      (U ''source_reliability'', JFloat (Fin (tr_reliability t))),
      (U ''age_seconds'', JFloat (Fin (tr_age t))), (U ''decay_factor'', JFloat (Fin (tr_decay t))),
      (U ''effective_confidence'', JFloat (Fin (tr_effective t)))]"

record correlation_trace =
  ct_group :: ustr
  ct_signal :: signal
  ct_representative :: ustr
  ct_effective :: rat
  ct_suppressed :: "ustr list"

definition CorrelationTrace_init ::
  "ustr \<Rightarrow> ustr \<Rightarrow> ustr \<Rightarrow> rat \<Rightarrow> ustr list \<Rightarrow> correlation_trace result" where
  "CorrelationTrace_init grp sig rep eff supp =
     rbind (text_value (JStr grp) ''correlation.group_id'' True) (\<lambda>g.
     case member_of signal_value signals_all sig of
       None \<Rightarrow> Inl (ValidationError ''correlation.signal must be support or contradict'')
     | Some s \<Rightarrow>
     rbind (text_value (JStr rep) ''correlation.representative_event_id'' True) (\<lambda>r.
     rbind (number_value (JFloat (Fin eff)) ''correlation.effective_confidence'' 0 (Some 1)) (\<lambda>f.
     rbind (canonical_text_tuple (text_array supp) ''correlation.suppressed_event_ids'') (\<lambda>ids.
     rbind (require (r \<notin> set ids) ''a correlation representative cannot suppress itself'') (\<lambda>_.
     Inr \<lparr>ct_group = g, ct_signal = s, ct_representative = r, ct_effective = f, ct_suppressed = ids\<rparr>)))))"

definition CorrelationTrace_from_selection :: "correlation_selection \<Rightarrow> correlation_trace result" where
  "CorrelationTrace_from_selection s =
     CorrelationTrace_init (sel_group s) (U (signal_value (sel_signal s))) (we_id (sel_representative s))
       (stable_float (we_effective (sel_representative s))) (map we_id (sel_suppressed s))"

definition CorrelationTrace_to_dict :: "correlation_trace \<Rightarrow> json" where
  "CorrelationTrace_to_dict c = JObj
     [(U ''group_id'', JStr (ct_group c)), (U ''signal'', JText (signal_value (ct_signal c))),
      (U ''representative_event_id'', JStr (ct_representative c)),
      (U ''effective_confidence'', JFloat (Fin (ct_effective c))),
      (U ''suppressed_event_ids'', text_array (ct_suppressed c))]"

record update_trace =
  ut_source :: ustr
  ut_declared :: rat
  ut_posterior :: rat
  ut_applied :: rat
  ut_adjustment :: rat
  ut_correct_count :: int
  ut_incorrect_count :: int
  ut_correct :: "ustr list"
  ut_incorrect :: "ustr list"

definition ReliabilityUpdateTrace_init ::
  "ustr \<Rightarrow> rat \<Rightarrow> rat \<Rightarrow> rat \<Rightarrow> rat \<Rightarrow> int \<Rightarrow> int \<Rightarrow> ustr list \<Rightarrow> ustr list \<Rightarrow> update_trace result" where
  "ReliabilityUpdateTrace_init src declared posterior applied adjustment nc ni cs ics =
     rbind (text_value (JStr src) ''reliability_update.source'' True) (\<lambda>s.
     rbind (number_value (JFloat (Fin declared)) ''reliability_update.declared_reliability'' 0 (Some 1)) (\<lambda>d.
     rbind (number_value (JFloat (Fin posterior)) ''reliability_update.posterior_reliability'' 0 (Some 1)) (\<lambda>q.
     rbind (number_value (JFloat (Fin applied)) ''reliability_update.applied_reliability'' 0 (Some 1)) (\<lambda>a.
     rbind (number_value (JFloat (Fin adjustment)) ''reliability_update.adjustment'' (- 1) (Some 1)) (\<lambda>j.
     rbind (canonical_text_tuple (text_array cs) ''reliability_update.correct_event_ids'') (\<lambda>correct.
     rbind (canonical_text_tuple (text_array ics) ''reliability_update.incorrect_event_ids'') (\<lambda>incorrect.
     rbind (require (set correct \<inter> set incorrect = {})
              ''reliability_update event IDs must not be both correct and incorrect'') (\<lambda>_.
     rbind (nonnegative_int (JInt nc) ''reliability_update.correct_count'') (\<lambda>nc.
     rbind (nonnegative_int (JInt ni) ''reliability_update.incorrect_count'') (\<lambda>ni.
     rbind (require (nc = int (length correct) \<and> ni = int (length incorrect))
              ''reliability_update counts do not match their event IDs'') (\<lambda>_.
     rbind (require (nc \<noteq> 0 \<or> ni \<noteq> 0) ''reliability_update must record at least one adjudication'') (\<lambda>_.
     rbind (require (stable_float (fl (a - d)) = stable_float j)
              ''reliability_update.adjustment must equal applied minus declared reliability'') (\<lambda>_.
     Inr \<lparr>ut_source = s, ut_declared = d, ut_posterior = q, ut_applied = a, ut_adjustment = j,
          ut_correct_count = nc, ut_incorrect_count = ni, ut_correct = correct,
          ut_incorrect = incorrect\<rparr>)))))))))))))"

definition ReliabilityUpdateTrace_from_adjustment :: "reliability_adjustment \<Rightarrow> update_trace result" where
  "ReliabilityUpdateTrace_from_adjustment a =
     ReliabilityUpdateTrace_init (ra_source a) (ra_declared a) (ra_posterior a) (ra_applied a)
       (stable_float (fl (ra_applied a - ra_declared a))) (int (length (ra_correct a)))
       (int (length (ra_incorrect a))) (ra_correct a) (ra_incorrect a)"

definition ReliabilityUpdateTrace_to_dict :: "update_trace \<Rightarrow> json" where
  "ReliabilityUpdateTrace_to_dict u = JObj
     [(U ''source'', JStr (ut_source u)), (U ''declared_reliability'', JFloat (Fin (ut_declared u))),
      (U ''posterior_reliability'', JFloat (Fin (ut_posterior u))),
      (U ''applied_reliability'', JFloat (Fin (ut_applied u))),
      (U ''adjustment'', JFloat (Fin (ut_adjustment u))), (U ''correct_count'', JInt (ut_correct_count u)),
      (U ''incorrect_count'', JInt (ut_incorrect_count u)),
      (U ''correct_event_ids'', text_array (ut_correct u)),
      (U ''incorrect_event_ids'', text_array (ut_incorrect u))]"

subsection \<open>Decisions\<close>

record claim_decision =
  cd_claim :: ustr
  cd_outcome :: outcome
  cd_reason :: ustr
  cd_support :: signal_summary
  cd_contradict :: signal_summary
  cd_margin :: rat
  cd_trace :: "event_trace list"
  cd_correlations :: "correlation_trace list"

definition correlation_trace_key :: "correlation_trace \<Rightarrow> ustr \<times> ustr" where
  "correlation_trace_key c = (ct_group c, U (signal_value (ct_signal c)))"

definition ClaimDecision_init ::
  "ustr \<Rightarrow> outcome \<Rightarrow> ustr \<Rightarrow> signal_summary \<Rightarrow> signal_summary \<Rightarrow> rat \<Rightarrow> event_trace list
     \<Rightarrow> correlation_trace list \<Rightarrow> claim_decision result" where
  "ClaimDecision_init claim out reason spt ctr margin trace cors =
     rbind (text_value (JStr claim) ''decision.claim'' True) (\<lambda>c.
     rbind (text_value (JStr reason) ''decision.reason'' True) (\<lambda>r.
     rbind (require (ss_signal spt = SUPPORT) ''decision.support must be a support SignalSummary'') (\<lambda>_.
     rbind (require (ss_signal ctr = CONTRADICT)
              ''decision.contradict must be a contradict SignalSummary'') (\<lambda>_.
     rbind (number_value (JFloat (Fin margin)) ''decision.margin'' (- 1) (Some 1)) (\<lambda>m.
     let trace = sort_key tr_event_id trace in
     rbind (require (distinct (map tr_event_id trace)) ''decision.trace contains duplicate event IDs'') (\<lambda>_.
     rbind (require (list_all (\<lambda>t. tr_claim t = c) trace)
              ''decision.trace contains an event for another claim'') (\<lambda>_.
     let cors = sort_key correlation_trace_key cors in
     rbind (require (distinct (map correlation_trace_key cors))
              ''decision.correlations contains duplicate group/signal entries'') (\<lambda>_.
     Inr \<lparr>cd_claim = c, cd_outcome = out, cd_reason = r, cd_support = spt, cd_contradict = ctr,
          cd_margin = m, cd_trace = trace, cd_correlations = cors\<rparr>))))))))"

definition ClaimDecision_to_dict :: "claim_decision \<Rightarrow> json" where
  "ClaimDecision_to_dict d = JObj
     [(U ''claim'', JStr (cd_claim d)), (U ''outcome'', JText (outcome_value (cd_outcome d))),
      (U ''reason'', JStr (cd_reason d)), (U ''support'', SignalSummary_to_dict (cd_support d)),
      (U ''contradict'', SignalSummary_to_dict (cd_contradict d)),
      (U ''margin'', JFloat (Fin (stable_float (cd_margin d)))),
      (U ''trace'', JArr (map EventTrace_to_dict (cd_trace d))),
      (U ''correlations'', JArr (map CorrelationTrace_to_dict (cd_correlations d)))]"

definition summarize_signal ::
  "signal \<Rightarrow> correlation_selection list \<Rightarrow> claim_rule \<Rightarrow> signal_summary result" where
  "summarize_signal s sels rule =
     (let matching = filter (\<lambda>x. sel_signal x = s) sels;
          eff = (\<lambda>x. we_effective (sel_representative x));
          score = stable_float (combined_confidence (map eff matching));
          minimum = stable_float (min_evidence_confidence rule);
          qualifying = filter (\<lambda>x. minimum \<le> stable_float (eff x)) matching;
          srcs = sorted_set (map (\<lambda>x. ev_source (we_event (sel_representative x))) qualifying);
          mods = sorted_set (map (\<lambda>x. U (modality_value (ev_modality (we_event (sel_representative x))))) qualifying);
          gate = (quorum rule \<le> int (length qualifying) \<and> min_sources rule \<le> int (length srcs)
            \<and> min_modalities rule \<le> int (length mods) \<and> set (required_modalities rule) \<subseteq> set mods)
      in SignalSummary_init s score (int (length qualifying)) srcs mods gate (map sel_group matching))"

definition choose_outcome :: "signal_summary \<Rightarrow> signal_summary \<Rightarrow> claim_rule \<Rightarrow> outcome \<times> string" where
  "choose_outcome spt ctr rule =
     (let s = stable_float (ss_score spt);
          c = stable_float (ss_score ctr);
          st = stable_float (support_threshold rule);
          ct = stable_float (contradiction_threshold rule);
          minimum = stable_float (min_margin rule);
          margin = stable_float (fl (s - c));
          supports_escalation = (ss_gate spt \<and> st \<le> s \<and> minimum \<le> margin);
          supports_rejection = (ss_gate ctr \<and> ct \<le> c \<and> minimum \<le> - margin)
      in if supports_escalation \<and> supports_rejection then (REVIEW, ''conflicting_thresholds'')
         else if supports_escalation then (ESCALATE, ''support_threshold_and_independence_gates_met'')
         else if supports_rejection then (REJECT, ''contradiction_threshold_and_independence_gates_met'')
         else if st \<le> s \<and> \<not> ss_gate spt then (REVIEW, ''support_score_met_but_independence_gate_failed'')
         else if ct \<le> c \<and> \<not> ss_gate ctr then (REVIEW, ''contradiction_score_met_but_independence_gate_failed'')
         else if \<bar>margin\<bar> < minimum then (REVIEW, ''evidence_margin_too_small'')
         else (REVIEW, ''decision_threshold_not_met''))"

definition evaluate_claim ::
  "runtime \<Rightarrow> ustr \<Rightarrow> claim_rule \<Rightarrow> evidence_event list \<Rightarrow> policy \<Rightarrow> int \<Rightarrow> (ustr \<times> rat) list
     \<Rightarrow> claim_decision result" where
  "evaluate_claim rt claim rule events p as_of reliabilities =
     rbind (rmap (\<lambda>e. weight_event rt e p as_of (map_of reliabilities (ev_source e))) events) (\<lambda>ws.
     let weighted = sort_key we_id ws in
     rbind (collapse_correlated weighted) (\<lambda>sels.
     rbind (summarize_signal SUPPORT sels rule) (\<lambda>spt.
     rbind (summarize_signal CONTRADICT sels rule) (\<lambda>ctr.
     let (out, reason) = choose_outcome spt ctr rule in
     rbind (rmap EventTrace_from_weighted weighted) (\<lambda>trace.
     rbind (rmap CorrelationTrace_from_selection sels) (\<lambda>cors.
     ClaimDecision_init claim out (U reason) spt ctr (stable_float (fl (ss_score spt - ss_score ctr)))
       trace cors))))))"

subsection \<open>Event sets and evaluation\<close>

definition validate_event_set :: "policy \<Rightarrow> evidence_event list \<Rightarrow> evidence_event list result" where
  "validate_event_set p events =
     rbind (require (distinct (map ev_id events)) ''duplicate event_id(s)'') (\<lambda>_.
     rbind (require (set (map ev_claim events) \<subseteq> set (map fst (claims p)))
              ''event claim(s) missing from policy'') (\<lambda>_.
     rbind (require (list_all (\<lambda>e. total_seconds (ev_observed_at e - ev_ingested_at e)
                \<le> max_future_skew (decay p)) events)
              ''event was observed in the future of ingestion, beyond allowed source-clock skew'') (\<lambda>_.
     Inr events)))"

record evaluation_result =
  er_policy_id :: ustr
  er_evaluated_at :: int
  er_input_count :: int
  er_considered_count :: int
  er_pending :: "ustr list"
  er_decisions :: "claim_decision list"
  er_updates :: "update_trace list option"

definition EvaluationResult_init ::
  "json \<Rightarrow> ustr \<Rightarrow> pydatetime \<Rightarrow> int \<Rightarrow> int \<Rightarrow> ustr list \<Rightarrow> claim_decision list \<Rightarrow> update_trace list option
     \<Rightarrow> evaluation_result result" where
  "EvaluationResult_init version pid evaluated_at input considered pending decs updates =
     rbind (require (version = JInt 1) ''result.schema_version must be 1'') (\<lambda>_.
     rbind (text_value (JStr pid) ''result.policy_id'' True) (\<lambda>i.
     rbind (normalize_datetime evaluated_at ''result.evaluated_at'') (\<lambda>t.
     rbind (nonnegative_int (JInt input) ''result.input_event_count'') (\<lambda>n.
     rbind (nonnegative_int (JInt considered) ''result.considered_event_count'') (\<lambda>k.
     rbind (require (k \<le> n) ''result.considered_event_count cannot exceed input_event_count'') (\<lambda>_.
     rbind (canonical_text_tuple (text_array pending) ''result.pending_event_ids'') (\<lambda>pend.
     rbind (require (k + int (length pend) = n) ''result counts do not match pending_event_ids'') (\<lambda>_.
     let decs = sort_key cd_claim decs in
     rbind (require (distinct (map cd_claim decs)) ''result.decisions contains duplicate claims'') (\<lambda>_.
     rbind (require (sum_list (map (\<lambda>d. int (length (cd_trace d))) decs) = k)
              ''result considered count does not match decision traces'') (\<lambda>_.
     rbind (case updates of
              None \<Rightarrow> Inr None
            | Some us \<Rightarrow>
                let us = sort_key ut_source us in
                if distinct (map ut_source us) then Inr (Some us)
                else Inl (ValidationError ''result.reliability_updates contains duplicate sources'')) (\<lambda>us.
     Inr \<lparr>er_policy_id = i, er_evaluated_at = t, er_input_count = n, er_considered_count = k,
          er_pending = pend, er_decisions = decs, er_updates = us\<rparr>)))))))))))"

definition EvaluationResult_payload :: "evaluation_result \<Rightarrow> json" where
  "EvaluationResult_payload r = JObj (
     [(U ''schema_version'', JInt 1), (U ''policy_id'', JStr (er_policy_id r)),
      (U ''evaluated_at'', JStr (format_timestamp (er_evaluated_at r))),
      (U ''input_event_count'', JInt (er_input_count r)),
      (U ''considered_event_count'', JInt (er_considered_count r)),
      (U ''pending_event_ids'', text_array (er_pending r)),
      (U ''decisions'', JArr (map ClaimDecision_to_dict (er_decisions r)))]
     @ (case er_updates r of
          None \<Rightarrow> []
        | Some us \<Rightarrow> [(U ''reliability_updates'', JArr (map ReliabilityUpdateTrace_to_dict us))]))"

definition EvaluationResult_digest :: "runtime \<Rightarrow> evaluation_result \<Rightarrow> ustr" where
  "EvaluationResult_digest rt r = U ''sha256:'' @ sha_json rt (EvaluationResult_payload r)"

definition EvaluationResult_to_dict :: "runtime \<Rightarrow> evaluation_result \<Rightarrow> json" where
  "EvaluationResult_to_dict rt r =
     (case EvaluationResult_payload r of
        JObj kvs \<Rightarrow> JObj (kvs @ [(U ''digest'', JStr (EvaluationResult_digest rt r))])
      | v \<Rightarrow> v)"

definition evaluate ::
  "runtime \<Rightarrow> policy \<Rightarrow> evidence_event list \<Rightarrow> pydatetime \<Rightarrow> adjudication list \<Rightarrow> evaluation_result result" where
  "evaluate rt p events as_of adjudications =
     rbind (normalize_datetime as_of ''as_of'') (\<lambda>t.
     rbind (validate_event_set p events) (\<lambda>event_list.
     rbind (validate_adjudication_set p event_list adjudications) (\<lambda>adj_list.
     rbind (adjust_reliabilities p (filter (\<lambda>a. adj_at a \<le> t) adj_list)) (\<lambda>adjustments.
     let reliabilities = rev (map (\<lambda>a. (ra_source a, ra_applied a)) adjustments);
         considered = filter (\<lambda>e. ev_ingested_at e \<le> t) event_list;
         pending = sort (map ev_id (filter (\<lambda>e. t < ev_ingested_at e) event_list)) in
     rbind (rmap (\<lambda>c. evaluate_claim rt c (the (map_of (claims p) c))
              (filter (\<lambda>e. ev_claim e = c) considered) p t reliabilities)
            (sort (map fst (claims p)))) (\<lambda>decs.
     rbind (case reliability_updates p of
              None \<Rightarrow> Inr None
            | Some _ \<Rightarrow> rbind (rmap ReliabilityUpdateTrace_from_adjustment adjustments) (\<lambda>us. Inr (Some us))) (\<lambda>us.
     EvaluationResult_init (JInt 1) (policy_id p) (utc t) (int (length event_list))
       (int (length considered)) pending decs us))))))"

end
