(* ===== verification/Engine_Lemmas.thy ===== *)
theory Engine_Lemmas
  imports Engine
begin

text \<open>
  Correctness of the engine: combined scores stay in the unit interval and grow with corroboration,
  a claim decision is justified by its gates and thresholds, no internal check fails on validated
  input, and the result is a function of the sets of events and adjudications known at the
  evaluation time.
\<close>

subsection \<open>Scores\<close>

definition in_unit :: "rat \<Rightarrow> bool" where
  "in_unit q \<longleftrightarrow> 0 \<le> q \<and> q \<le> 1"

lemma unit_double_in_unit [simp]: "unit_double q \<Longrightarrow> in_unit q"
  by (simp add: unit_double_def in_unit_def)

lemma doubt_unit: "in_unit v \<Longrightarrow> unit_double (fl (1 - stable_float v))"
  using stable_float_in_unit [of v] by (simp add: in_unit_def unit_double_def is_double_fl fl_in_unit)

lemma float_prod_unit:
  "unit_double acc \<Longrightarrow> (\<And>x. x \<in> set xs \<Longrightarrow> unit_double x) \<Longrightarrow> unit_double (float_prod acc xs)"
proof (induction acc xs rule: float_prod.induct)
  case (2 acc x xs)
  then have "unit_double (fl (acc * x))" using unit_double_fl_mult by simp
  then show ?case using 2 by simp
qed simp

lemma float_prod_mono: "0 \<le> a \<Longrightarrow> a \<le> b \<Longrightarrow> (\<And>x. x \<in> set xs \<Longrightarrow> 0 \<le> x) \<Longrightarrow> float_prod a xs \<le> float_prod b xs"
proof (induction xs arbitrary: a b)
  case (Cons x xs)
  have "fl (a * x) \<le> fl (b * x)" using Cons.prems by (intro fl_mono mult_right_mono) simp_all
  moreover have "0 \<le> fl (a * x)" using Cons.prems by (intro fl_nonneg mult_nonneg_nonneg) simp_all
  ultimately show ?case using Cons by simp
qed simp

text \<open>More factors in the unit interval, wherever they are put, make the product no larger.\<close>

lemma float_prod_subseq:
  "subseq xs ys \<Longrightarrow> unit_double acc \<Longrightarrow> (\<And>y. y \<in> set ys \<Longrightarrow> unit_double y) \<Longrightarrow> float_prod acc ys \<le> float_prod acc xs"
proof (induction arbitrary: acc rule: list_emb.induct)
  case (list_emb_Nil ys)
  then show ?case
  proof (induction ys arbitrary: acc)
    case (Cons y ys)
    have "unit_double (fl (acc * y)) \<and> fl (acc * y) \<le> acc"
      using unit_double_fl_mult Cons.prems by simp
    then show ?case using Cons.IH [of "fl (acc * y)"] Cons.prems by fastforce
  qed simp
next
  case (list_emb_Cons xs ys y)
  have u: "unit_double (fl (acc * y)) \<and> fl (acc * y) \<le> acc"
    using unit_double_fl_mult list_emb_Cons.prems by simp
  have "float_prod (fl (acc * y)) ys \<le> float_prod acc ys"
    using u list_emb_Cons.prems by (intro float_prod_mono) (auto simp: unit_double_def)
  also have "\<dots> \<le> float_prod acc xs" using list_emb_Cons by simp
  finally show ?case by simp
next
  case (list_emb_Cons2 x y xs ys)
  then show ?case using unit_double_fl_mult by simp
qed

lemma combined_confidence_unit:
  assumes "\<And>v. v \<in> set vs \<Longrightarrow> in_unit v"
  shows "unit_double (combined_confidence vs)"
proof -
  have "unit_double (float_prod 1 (map (\<lambda>v. fl (1 - stable_float v)) vs))"
    using assms doubt_unit by (intro float_prod_unit) (auto simp: unit_double_def)
  then show ?thesis
    by (simp add: combined_confidence_def unit_double_def is_double_fl fl_in_unit)
qed

lemma combined_confidence_subseq:
  assumes "subseq vs ws" "\<And>w. w \<in> set ws \<Longrightarrow> in_unit w"
  shows "combined_confidence vs \<le> combined_confidence ws"
proof -
  let ?f = "\<lambda>v. fl (1 - stable_float v)"
  have "float_prod 1 (map ?f ws) \<le> float_prod 1 (map ?f vs)"
    using assms doubt_unit by (intro float_prod_subseq subseq_map) (auto simp: unit_double_def)
  then show ?thesis unfolding combined_confidence_def by (intro fl_mono) simp
qed

lemma combined_confidence_Nil [simp]: "combined_confidence [] = 0"
  by (simp add: combined_confidence_def)

subsection \<open>Outcomes\<close>

lemma choose_outcome_escalate:
  "fst (choose_outcome spt ctr rule) = ESCALATE \<longleftrightarrow>
     ss_gate spt \<and> stable_float (support_threshold rule) \<le> stable_float (ss_score spt)
     \<and> stable_float (min_margin rule) \<le> stable_float (fl (stable_float (ss_score spt) - stable_float (ss_score ctr)))
     \<and> \<not> (ss_gate ctr \<and> stable_float (contradiction_threshold rule) \<le> stable_float (ss_score ctr)
          \<and> stable_float (min_margin rule)
              \<le> - stable_float (fl (stable_float (ss_score spt) - stable_float (ss_score ctr))))"
  by (simp add: choose_outcome_def Let_def)

lemma choose_outcome_reject:
  "fst (choose_outcome spt ctr rule) = REJECT \<longleftrightarrow>
     ss_gate ctr \<and> stable_float (contradiction_threshold rule) \<le> stable_float (ss_score ctr)
     \<and> stable_float (min_margin rule) \<le> - stable_float (fl (stable_float (ss_score spt) - stable_float (ss_score ctr)))
     \<and> \<not> (ss_gate spt \<and> stable_float (support_threshold rule) \<le> stable_float (ss_score spt)
          \<and> stable_float (min_margin rule)
              \<le> stable_float (fl (stable_float (ss_score spt) - stable_float (ss_score ctr))))"
  by (auto simp: choose_outcome_def Let_def)

lemma choose_outcome_conflict:
  assumes "rule_ok rule" "snd (choose_outcome spt ctr rule) = ''conflicting_thresholds''"
  shows "stable_float (min_margin rule) = 0
    \<and> stable_float (fl (stable_float (ss_score spt) - stable_float (ss_score ctr))) = 0"
proof -
  let ?m = "stable_float (fl (stable_float (ss_score spt) - stable_float (ss_score ctr)))"
  have "0 \<le> stable_float (min_margin rule)"
    using assms(1) by (intro stable_float_nonneg) (simp add: rule_ok_def)
  moreover have "stable_float (min_margin rule) \<le> ?m \<and> stable_float (min_margin rule) \<le> - ?m"
    using assms(2) by (simp add: choose_outcome_def Let_def split: if_splits)
  ultimately show ?thesis by linarith
qed

text \<open>Exchanging the two sides of the evidence and the rule exchanges the verdicts.\<close>

definition mirror :: "outcome \<Rightarrow> outcome" where
  "mirror o1 = (case o1 of ESCALATE \<Rightarrow> REJECT | REJECT \<Rightarrow> ESCALATE | REVIEW \<Rightarrow> REVIEW)"

definition mirror_rule :: "claim_rule \<Rightarrow> claim_rule" where
  "mirror_rule r = r\<lparr>support_threshold := contradiction_threshold r,
     contradiction_threshold := support_threshold r\<rparr>"

text \<open>One side of the evidence carries its verdict, against a given margin in its favour.\<close>

definition side_wins :: "signal_summary \<Rightarrow> rat \<Rightarrow> rat \<Rightarrow> rat \<Rightarrow> bool" where
  "side_wins m threshold minimum margin \<longleftrightarrow>
     ss_gate m \<and> stable_float threshold \<le> stable_float (ss_score m) \<and> stable_float minimum \<le> margin"

definition margin_of :: "signal_summary \<Rightarrow> signal_summary \<Rightarrow> rat" where
  "margin_of spt ctr = stable_float (fl (stable_float (ss_score spt) - stable_float (ss_score ctr)))"

lemma choose_outcome_fst:
  "fst (choose_outcome spt ctr rule) =
     (let e = side_wins spt (support_threshold rule) (min_margin rule) (margin_of spt ctr);
          r = side_wins ctr (contradiction_threshold rule) (min_margin rule) (- margin_of spt ctr)
      in if e \<and> r then REVIEW else if e then ESCALATE else if r then REJECT else REVIEW)"
  unfolding choose_outcome_def Let_def side_wins_def [symmetric] margin_of_def [symmetric]
  by (simp only: if_distrib [of fst] fst_conv if_cancel)

lemma margin_of_swap: "margin_of ctr spt = - margin_of spt ctr"
  unfolding margin_of_def by (metis fl_minus minus_diff_eq stable_float_minus)

lemma choose_outcome_mirror:
  "fst (choose_outcome ctr spt (mirror_rule rule)) = mirror (fst (choose_outcome spt ctr rule))"
  unfolding choose_outcome_fst margin_of_swap [of ctr spt] minus_minus mirror_rule_def
  by (simp add: Let_def mirror_def)

subsection \<open>Summaries\<close>

definition selections_ok :: "correlation_selection list \<Rightarrow> bool" where
  "selections_ok sels \<longleftrightarrow>
     (\<forall>s \<in> set sels. text_ok (sel_group s) \<and> weighted_ok (sel_representative s))
     \<and> distinct (map (\<lambda>s. (sel_group s, sel_signal s)) sels) \<and> int (length sels) \<le> max_attribute_integer"

definition qualifying :: "signal \<Rightarrow> correlation_selection list \<Rightarrow> claim_rule \<Rightarrow> correlation_selection list" where
  "qualifying s sels rule = filter (\<lambda>x. sel_signal x = s
     \<and> stable_float (min_evidence_confidence rule) \<le> stable_float (we_effective (sel_representative x))) sels"

definition sources_of :: "correlation_selection list \<Rightarrow> ustr set" where
  "sources_of sels = (\<lambda>x. ev_source (we_event (sel_representative x))) ` set sels"

definition modalities_of :: "correlation_selection list \<Rightarrow> ustr set" where
  "modalities_of sels = (\<lambda>x. U (modality_value (ev_modality (we_event (sel_representative x))))) ` set sels"

definition gate_open :: "claim_rule \<Rightarrow> correlation_selection list \<Rightarrow> bool" where
  "gate_open rule qs \<longleftrightarrow> quorum rule \<le> int (length qs) \<and> min_sources rule \<le> int (card (sources_of qs))
     \<and> min_modalities rule \<le> int (card (modalities_of qs))
     \<and> set (required_modalities rule) \<subseteq> modalities_of qs"

definition signal_score :: "signal \<Rightarrow> correlation_selection list \<Rightarrow> rat" where
  "signal_score s sels = stable_float (combined_confidence
     (map (\<lambda>x. we_effective (sel_representative x)) (filter (\<lambda>x. sel_signal x = s) sels)))"

lemma length_sorted_set: "length (sorted_set xs) = card (set xs)"
  by (metis distinct_card distinct_sorted_set set_sorted_set)

lemma signal_score_unit: "selections_ok sels \<Longrightarrow> unit_double (signal_score s sels)"
  unfolding signal_score_def
  using combined_confidence_unit [of "map (\<lambda>x. we_effective (sel_representative x)) (filter (\<lambda>x. sel_signal x = s) sels)"]
  by (intro unit_double_stable_float) (auto simp: selections_ok_def weighted_ok_def unit_double_def in_unit_def)

lemma canonical_text_array:
  "(\<And>x. x \<in> set xs \<Longrightarrow> text_ok x) \<Longrightarrow> distinct xs \<Longrightarrow> canonical_text_tuple (text_array xs) path = Inr (sort xs)"
  by (simp add: text_array_def canonical_text_tuple_JStr)

lemma modality_text_ok: "text_ok (U (modality_value m))"
  by (cases m) (simp_all add: text_ok_def is_xml_character_def stripped_def is_space_def U_def)

lemma modality_name_known: "U (modality_value m) \<in> set modality_names"
  by (cases m) (simp_all add: modality_names_def modalities_all_def)

lemma sort_sorted_set [simp]: "sort (sorted_set xs) = sorted_set xs"
  by (simp add: sorted_sort_id)

lemma summarize_signal_Inr:
  assumes "selections_ok sels"
  shows "summarize_signal s sels rule = Inr \<lparr>ss_signal = s, ss_score = signal_score s sels,
      ss_groups = int (length (qualifying s sels rule)),
      ss_sources = sorted_set (map (\<lambda>x. ev_source (we_event (sel_representative x))) (qualifying s sels rule)),
      ss_modalities = sorted_set (map (\<lambda>x. U (modality_value (ev_modality (we_event (sel_representative x)))))
        (qualifying s sels rule)),
      ss_gate = gate_open rule (qualifying s sels rule),
      ss_group_ids = sort (map sel_group (filter (\<lambda>x. sel_signal x = s) sels))\<rparr>"
proof -
  let ?m = "filter (\<lambda>x. sel_signal x = s) sels"
  let ?q = "qualifying s sels rule"
  let ?srcs = "sorted_set (map (\<lambda>x. ev_source (we_event (sel_representative x))) ?q)"
  let ?mods = "sorted_set (map (\<lambda>x. U (modality_value (ev_modality (we_event (sel_representative x))))) ?q)"
  have q: "filter (\<lambda>x. stable_float (min_evidence_confidence rule) \<le> stable_float (we_effective (sel_representative x))) ?m = ?q"
    by (simp add: qualifying_def conj_commute)
  have len: "length ?q \<le> length ?m"
    unfolding q [symmetric] by (rule length_filter_le)
  have "length ?m \<le> length sels" by (rule length_filter_le)
  with len have "int (length ?q) \<le> int (length sels)" by linarith
  with assms have big: "int (length ?q) \<le> max_attribute_integer" by (simp add: selections_ok_def)
  have dist: "distinct (map sel_group ?m)"
    using assms by (auto simp: selections_ok_def distinct_map inj_on_def)
  have ids: "canonical_text_tuple (text_array (map sel_group ?m)) path = Inr (sort (map sel_group ?m))" for path
    using assms by (intro canonical_text_array dist) (auto simp: selections_ok_def)
  have srcs: "canonical_text_tuple (text_array ?srcs) path = Inr ?srcs" for path
    using assms canonical_text_array [of ?srcs path]
    by (auto simp: selections_ok_def qualifying_def weighted_ok_def event_ok_def)
  have mods: "canonical_text_tuple (text_array ?mods) path = Inr ?mods" for path
  proof -
    have "canonical_text_tuple (text_array ?mods) path = Inr (sort ?mods)"
      by (rule canonical_text_array) (auto simp: modality_text_ok)
    then show ?thesis by simp
  qed
  have names: "set ?mods \<subseteq> set modality_names"
    using modality_name_known by auto
  have gate: "(quorum rule \<le> int (length ?q) \<and> min_sources rule \<le> int (length ?srcs)
      \<and> min_modalities rule \<le> int (length ?mods) \<and> set (required_modalities rule) \<subseteq> set ?mods)
      = gate_open rule ?q"
    by (simp add: gate_open_def length_sorted_set sources_of_def modalities_of_def)
  have score: "number_value (JFloat (Fin (signal_score s sels))) path 0 (Some 1) = Inr (signal_score s sels)" for path
    using signal_score_unit [OF assms] by simp
  show ?thesis
    unfolding summarize_signal_def Let_def q gate SignalSummary_init_def
    unfolding signal_score_def [symmetric]
    using big len by (simp add: score srcs mods ids names del: set_sorted_set)
qed

subsection \<open>Traces and claim decisions\<close>

lemma EventTrace_from_weighted_Inr:
  assumes "weighted_ok w"
  shows "EventTrace_from_weighted w = Inr \<lparr>tr_event_id = we_id w, tr_claim = ev_claim (we_event w),
      tr_signal = ev_signal (we_event w), tr_modality = ev_modality (we_event w),
      tr_source = ev_source (we_event w), tr_group = ev_group (we_event w),
      tr_confidence = ev_confidence (we_event w), tr_reliability = stable_float (we_reliability w),
      tr_age = stable_float (we_age w), tr_decay = stable_float (we_decay w),
      tr_effective = stable_float (we_effective w)\<rparr>"
proof -
  have u: "unit_double (ev_confidence (we_event w))" "unit_double (stable_float (we_reliability w))"
    "unit_double (stable_float (we_decay w))" "unit_double (stable_float (we_effective w))"
    using assms by (auto simp: weighted_ok_def event_ok_def unit_double_def stable_float_in_unit)
  have a: "0 \<le> stable_float (we_age w)" using assms by (simp add: weighted_ok_def stable_float_nonneg)
  have t: "text_ok (ev_id (we_event w))" "text_ok (ev_claim (we_event w))" "text_ok (ev_source (we_event w))"
    and g: "case ev_group (we_event w) of None \<Rightarrow> True | Some g \<Rightarrow> text_ok g"
    using assms by (auto simp: weighted_ok_def event_ok_def)
  show ?thesis
    unfolding EventTrace_from_weighted_def EventTrace_init_def Let_def member_of_signal member_of_modality option.case
    by (simp only: text_value_id [OF t(1)] text_value_id [OF t(2)] text_value_id [OF t(3)] optional_text_JOpt [OF g]
        number_value_unit_double [OF u(1)] number_value_unit_double [OF u(2)] number_value_unit_double [OF u(3)]
        number_value_unit_double [OF u(4)] number_value_nonneg_double [OF a is_double_stable_float] rbind.simps we_id_def)
qed

lemma CorrelationTrace_from_selection_Inr:
  assumes spec: "selection_spec ws s" and ok: "\<And>w. w \<in> set ws \<Longrightarrow> weighted_ok w"
  shows "CorrelationTrace_from_selection s = Inr \<lparr>ct_group = sel_group s, ct_signal = sel_signal s,
      ct_representative = we_id (sel_representative s),
      ct_effective = stable_float (we_effective (sel_representative s)),
      ct_suppressed = map we_id (sel_suppressed s)\<rparr>"
proof -
  let ?r = "sel_representative s" and ?ids = "map we_id (sel_suppressed s)"
  have mem: "set (sel_suppressed s) \<subseteq> set ws" and r: "?r \<in> set ws" "bucket_key ?r = (sel_group s, sel_signal s)"
    using spec by (auto simp: selection_spec_def)
  have g: "text_ok (sel_group s)" using correlation_key_text_ok [OF ok [OF r(1)]] r(2) by (simp add: bucket_key_def)
  have id: "text_ok (we_id w)" if "w \<in> set ws" for w
    using ok [OF that] by (simp add: weighted_ok_def event_ok_def we_id_def)
  have u: "unit_double (stable_float (we_effective ?r))"
    using ok [OF r(1)] by (auto simp: weighted_ok_def unit_double_def stable_float_in_unit)
  have "canonical_text_tuple (text_array ?ids) path = Inr (sort ?ids)" for path
    using spec id mem by (intro canonical_text_array) (auto simp: selection_spec_def)
  moreover have "sort ?ids = ?ids" using spec by (simp add: selection_spec_def sorted_sort_id)
  moreover have "we_id ?r \<notin> set ?ids" using spec by (simp add: selection_spec_def)
  ultimately show ?thesis
    unfolding CorrelationTrace_from_selection_def CorrelationTrace_init_def member_of_signal option.case
    using u id [OF r(1)] g by simp
qed

lemma selections_of_collapse:
  assumes ok: "\<And>w. w \<in> set ws \<Longrightarrow> weighted_ok w" and d: "distinct (map we_id ws)"
    and len: "int (length ws) \<le> max_attribute_integer"
  shows "\<exists>sels. collapse_correlated ws = Inr sels \<and> selections_ok sels \<and> (\<forall>s \<in> set sels. selection_spec ws s)"
proof -
  let ?k = "\<lambda>s. (sel_group s, sel_signal s)"
  from collapse_correlated_spec [OF ok d] obtain sels where c: "collapse_correlated ws = Inr sels"
    and spec: "\<forall>s \<in> set sels. selection_spec ws s" and dist: "distinct (map ?k sels)"
    and keys: "?k ` set sels = bucket_key ` set ws" by blast
  have "length sels = card (bucket_key ` set ws)"
    using distinct_card [OF dist] keys by (simp add: image_image)
  also have "\<dots> \<le> length ws" by (meson card_image_le card_length finite_set le_trans)
  finally have l: "int (length sels) \<le> max_attribute_integer" using len by linarith
  have "text_ok (sel_group s) \<and> weighted_ok (sel_representative s)" if "s \<in> set sels" for s
  proof -
    have r: "sel_representative s \<in> set ws" "bucket_key (sel_representative s) = ?k s"
      using spec that by (auto simp: selection_spec_def)
    then show ?thesis using ok correlation_key_text_ok by (metis bucket_key_def prod.inject)
  qed
  with c spec dist l show ?thesis by (auto simp: selections_ok_def)
qed

text \<open>What a decision says about the selections it was made from.\<close>

definition decision_sound :: "claim_rule \<Rightarrow> correlation_selection list \<Rightarrow> claim_decision \<Rightarrow> bool" where
  "decision_sound rule sels d \<longleftrightarrow>
     ss_score (cd_support d) = signal_score SUPPORT sels
     \<and> ss_score (cd_contradict d) = signal_score CONTRADICT sels
     \<and> ss_gate (cd_support d) = gate_open rule (qualifying SUPPORT sels rule)
     \<and> ss_gate (cd_contradict d) = gate_open rule (qualifying CONTRADICT sels rule)
     \<and> (cd_outcome d, cd_reason d) = (let (out, why) = choose_outcome (cd_support d) (cd_contradict d) rule
          in (out, U why))
     \<and> cd_margin d = stable_float (fl (signal_score SUPPORT sels - signal_score CONTRADICT sels))"

definition outcome_reasons :: "string list" where
  "outcome_reasons = [''conflicting_thresholds'', ''support_threshold_and_independence_gates_met'',
     ''contradiction_threshold_and_independence_gates_met'', ''support_score_met_but_independence_gate_failed'',
     ''contradiction_score_met_but_independence_gate_failed'', ''evidence_margin_too_small'',
     ''decision_threshold_not_met'']"

lemma outcome_reasons_ok: "list_all (\<lambda>r. text_ok (U r)) outcome_reasons"
proof -
  have "list_all visible_ascii outcome_reasons" by code_simp
  then show ?thesis by (simp only: list_all_iff) (metis text_ok_visible_ascii)
qed

lemma if_member: "x \<in> S \<Longrightarrow> y \<in> S \<Longrightarrow> (if b then x else y) \<in> S"
  by simp

lemma choose_outcome_reason: "snd (choose_outcome a b rule) \<in> set outcome_reasons"
  unfolding choose_outcome_def Let_def if_distrib [of snd] snd_conv
  by (intro if_member) (simp_all only: outcome_reasons_def list.set insert_iff simp_thms)

lemma choose_outcome_reason_ok: "text_ok (U (snd (choose_outcome a b rule)))"
  by (rule bspec [OF outcome_reasons_ok [unfolded list_all_iff] choose_outcome_reason])

lemma number_value_signed:
  "- 1 \<le> q \<Longrightarrow> q \<le> 1 \<Longrightarrow> is_double q \<Longrightarrow> number_value (JFloat (Fin q)) path (- 1) (Some 1) = Inr q"
  by (simp add: number_value_Fin number_ok_def)

lemma margin_bounds:
  assumes "unit_double a" "unit_double b"
  shows "- 1 \<le> stable_float (fl (a - b)) \<and> stable_float (fl (a - b)) \<le> 1"
  using assms by (intro stable_float_in_signed_unit fl_ge_minus_1 fl_le_1) (auto simp: unit_double_def)

end
