(* ===== verification/Evaluation.thy ===== *)
theory Evaluation
  imports Engine_Lemmas
begin

text \<open>
  The contract of \<open>evaluate\<close> (engine.py) and \<open>replay\<close> (replay.py): totality on
  validated input, soundness of every decision, order independence, and the absence of lookahead.
\<close>

subsection \<open>Evaluating a claim\<close>

definition unit_reliabilities :: "(ustr \<times> rat) list \<Rightarrow> bool" where
  "unit_reliabilities rs \<longleftrightarrow> (\<forall>kv \<in> set rs. unit_double (snd kv))"

text \<open>Events of one claim that passed the stream-wide validation and are known at \<open>t\<close>.\<close>

definition claim_events_ok :: "policy \<Rightarrow> ustr \<Rightarrow> int \<Rightarrow> evidence_event list \<Rightarrow> bool" where
  "claim_events_ok p claim t events \<longleftrightarrow>
     (\<forall>e \<in> set events. event_ok e \<and> ev_claim e = claim \<and> ev_ingested_at e \<le> t
        \<and> total_seconds (ev_observed_at e - ev_ingested_at e) \<le> max_future_skew (decay p))
     \<and> distinct (map ev_id events) \<and> int (length events) \<le> max_attribute_integer"

text \<open>The weighted events of a claim, in identifier order.\<close>

definition weigh_all ::
  "runtime \<Rightarrow> evidence_event list \<Rightarrow> policy \<Rightarrow> int \<Rightarrow> (ustr \<times> rat) list \<Rightarrow> weighted_event list result" where
  "weigh_all rt events p t rels =
     rmap (\<lambda>e. weight_event rt e p t (map_of rels (ev_source e))) events"

lemma weigh_all_Inr:
  assumes "policy_ok p" "exp2_contract rt" "unit_reliabilities rels" "claim_events_ok p claim t events"
  shows "\<exists>ws. weigh_all rt events p t rels = Inr ws \<and> map we_event ws = events
      \<and> (\<forall>w \<in> set ws. weighted_ok w)"
proof -
  let ?f = "\<lambda>e. weight_event rt e p t (map_of rels (ev_source e))"
  have one: "\<exists>w. ?f e = Inr w \<and> weighted_ok w \<and> we_event w = e" if "e \<in> set events" for e
  proof -
    have e: "event_ok e" "- max_future_skew (decay p) \<le> total_seconds (t - ev_observed_at e)"
      using assms(4) that skew_at_weighting by (auto simp: claim_events_ok_def)
    have "unit_double q" if "map_of rels (ev_source e) = Some q" for q
      using assms(3) map_of_SomeD [OF that] by (auto simp: unit_reliabilities_def)
    then show ?thesis using weight_event_ok [OF assms(1) e(1) assms(2) _ e(2)] by blast
  qed
  then obtain ws where ws: "rmap ?f events = Inr ws" using rmap_total [of events ?f] by blast
  have "map we_event ws = events"
  proof (rule rmap_inverse [OF ws])
    fix e w assume "e \<in> set events" "?f e = Inr w"
    then show "we_event w = e" using one by (metis Inr_inject)
  qed
  moreover have "\<forall>w \<in> set ws. weighted_ok w"
    using rmap_Inr_elem_rev [OF ws] one by (metis Inr_inject)
  ultimately show ?thesis using ws by (simp add: weigh_all_def)
qed

lemma sort_key_map_id: "sort_key we_id ws = ws' \<Longrightarrow> set ws' = set ws \<and> length ws' = length ws"
  by auto

lemma evaluate_claim_Inr:
  assumes pol: "policy_ok p" and exp: "exp2_contract rt" and rels: "unit_reliabilities rels"
    and ev: "claim_events_ok p claim t events" and claim: "text_ok claim"
  shows "\<exists>ws sels d. weigh_all rt events p t rels = Inr ws
      \<and> collapse_correlated (sort_key we_id ws) = Inr sels
      \<and> evaluate_claim rt claim rule events p t rels = Inr d
      \<and> cd_claim d = claim \<and> length (cd_trace d) = length events
      \<and> map tr_event_id (cd_trace d) = sort (map ev_id events)
      \<and> decision_sound rule sels d \<and> selections_ok sels
      \<and> (\<forall>s \<in> set sels. selection_spec (sort_key we_id ws) s)"
proof -
  obtain ws where ws: "weigh_all rt events p t rels = Inr ws" "map we_event ws = events"
    and wok: "\<forall>w \<in> set ws. weighted_ok w"
    using weigh_all_Inr [OF pol exp rels ev] by blast
  let ?W = "sort_key we_id ws"
  have ids: "map we_id ws = map ev_id events" unfolding ws(2) [symmetric] by (simp add: we_id_def)
  have Wok: "weighted_ok w" if "w \<in> set ?W" for w using wok that by simp
  have Wd: "distinct (map we_id ?W)" using ev ids by (simp add: claim_events_ok_def)
  have lenW: "length ws = length events" using ws(2) by (metis length_map)
  then have Wl: "int (length ?W) \<le> max_attribute_integer" using ev by (simp add: claim_events_ok_def)
  obtain sels where sels: "collapse_correlated ?W = Inr sels" and sok: "selections_ok sels"
    and spec: "\<forall>s \<in> set sels. selection_spec ?W s"
    using selections_of_collapse [OF Wok Wd Wl] by blast
  obtain spt ctr where spt: "summarize_signal SUPPORT sels rule = Inr spt"
    and ctr: "summarize_signal CONTRADICT sels rule = Inr ctr"
    and s: "ss_signal spt = SUPPORT" "ss_signal ctr = CONTRADICT"
      "ss_score spt = signal_score SUPPORT sels" "ss_score ctr = signal_score CONTRADICT sels"
      "ss_gate spt = gate_open rule (qualifying SUPPORT sels rule)"
      "ss_gate ctr = gate_open rule (qualifying CONTRADICT sels rule)"
    using summarize_signal_Inr [OF sok] by auto
  obtain out why where oc: "choose_outcome spt ctr rule = (out, why)" by fastforce
  have why: "text_ok (U why)" using choose_outcome_reason_ok [of spt ctr rule] oc by simp
  obtain trace where trace: "rmap EventTrace_from_weighted ?W = Inr trace"
    and tr: "map tr_event_id trace = map we_id ?W" "\<forall>x \<in> set trace. tr_claim x = claim"
  proof -
    have one: "\<exists>x. EventTrace_from_weighted w = Inr x \<and> tr_event_id x = we_id w \<and> tr_claim x = claim"
      if "w \<in> set ?W" for w
    proof -
      have "we_event w \<in> set events" using that unfolding ws(2) [symmetric] by simp
      then have "ev_claim (we_event w) = claim" using ev by (simp add: claim_events_ok_def)
      then show ?thesis using EventTrace_from_weighted_Inr [OF Wok [OF that]] by simp
    qed
    then obtain trace where t: "rmap EventTrace_from_weighted ?W = Inr trace"
      using rmap_total [of ?W EventTrace_from_weighted] by blast
    have "list_all2 (\<lambda>w x. tr_event_id x = we_id w \<and> tr_claim x = claim) ?W trace"
      using t one unfolding rmap_Inr_iff list_all2_conv_all_nth by (metis Inr_inject nth_mem)
    then have "map tr_event_id trace = map we_id ?W" "\<forall>x \<in> set trace. tr_claim x = claim"
      by (auto simp: list_all2_conv_all_nth list_eq_iff_nth_eq set_conv_nth)
    with t that show thesis by blast
  qed
  obtain cors where cors: "rmap CorrelationTrace_from_selection sels = Inr cors"
    and ck: "map correlation_trace_key cors = map selection_key sels"
  proof -
    have one: "\<exists>x. CorrelationTrace_from_selection s = Inr x \<and> correlation_trace_key x = selection_key s"
      if "s \<in> set sels" for s
      using CorrelationTrace_from_selection_Inr [OF bspec [OF spec that] Wok]
      by (simp add: correlation_trace_key_def selection_key_def)
    then obtain cors where t: "rmap CorrelationTrace_from_selection sels = Inr cors"
      using rmap_total [of sels CorrelationTrace_from_selection] by blast
    have "list_all2 (\<lambda>s x. correlation_trace_key x = selection_key s) sels cors"
      using t one unfolding rmap_Inr_iff list_all2_conv_all_nth by (metis Inr_inject nth_mem)
    then have "map correlation_trace_key cors = map selection_key sels"
      by (auto simp: list_all2_conv_all_nth list_eq_iff_nth_eq)
    with t that show thesis by blast
  qed
  have dk: "distinct (map selection_key sels)"
    using sok by (auto simp: selections_ok_def distinct_map inj_on_def selection_key_def)
  let ?m = "stable_float (fl (ss_score spt - ss_score ctr))"
  have m: "- 1 \<le> ?m \<and> ?m \<le> 1"
    using signal_score_unit [OF sok] s by (intro margin_bounds) simp_all
  have nm: "number_value (JFloat (Fin ?m)) path (- 1) (Some 1) = Inr ?m" for path
    using m by (intro number_value_signed) simp_all
  let ?d = "\<lparr>cd_claim = claim, cd_outcome = out, cd_reason = U why, cd_support = spt, cd_contradict = ctr,
      cd_margin = ?m, cd_trace = sort_key tr_event_id trace,
      cd_correlations = sort_key correlation_trace_key cors\<rparr>"
  have "evaluate_claim rt claim rule events p t rels
      = ClaimDecision_init claim out (U why) spt ctr ?m trace cors"
    using ws(1) sels spt ctr oc trace cors by (simp add: evaluate_claim_def weigh_all_def Let_def)
  also have "\<dots> = Inr ?d"
    using claim why s nm tr Wd ck dk
    by (simp add: ClaimDecision_init_def Let_def list_all_iff)
  finally have ec: "evaluate_claim rt claim rule events p t rels = Inr ?d" .
  have len: "length trace = length events" using rmap_length [OF trace] lenW by simp
  have srt: "map tr_event_id (sort_key tr_event_id trace) = sort (map ev_id events)"
  proof (rule properties_for_sort [symmetric])
    have "mset (map tr_event_id (sort_key tr_event_id trace)) = mset (map we_id ws)"
      using tr(1) by (metis mset_map mset_sort)
    then show "mset (map tr_event_id (sort_key tr_event_id trace)) = mset (map ev_id events)"
      by (simp only: ids)
  qed simp
  have ds: "decision_sound rule sels ?d" using s oc by (simp add: decision_sound_def)
  show ?thesis
    using ws(1) sels ec len srt ds sok spec
    by (intro exI [of _ ws] exI [of _ sels] exI [of _ ?d] conjI) simp_all
qed

subsection \<open>Evaluating every claim\<close>

lemma update_trace_Inr:
  assumes "adjustment_ok p rule adjs a" "int (length adjs) \<le> max_attribute_integer"
  shows "\<exists>u. ReliabilityUpdateTrace_from_adjustment a = Inr u \<and> ut_source u = ra_source a
      \<and> ut_applied u = ra_applied a \<and> ut_declared u = ra_declared a"
proof -
  let ?j = "fl (ra_applied a - ra_declared a)"
  have u: "unit_double (ra_applied a)" "unit_double (ra_declared a)" "unit_double (ra_posterior a)"
    using assms(1) unfolding adjustment_ok_def by blast+
  have jb: "- 1 \<le> ?j \<and> ?j \<le> 1" using u by (auto simp: unit_double_def intro: fl_ge_minus_1 fl_le_1)
  have j: "- 1 \<le> stable_float ?j \<and> stable_float ?j \<le> 1" using u(1,2) by (rule margin_bounds)
  have nj: "number_value (JFloat (Fin (stable_float ?j))) path (- 1) (Some 1) = Inr (stable_float ?j)" for path
    using j by (intro number_value_signed) simp_all
  have idem: "stable_float (stable_float ?j) = stable_float ?j" using jb by (intro stable_float_idem) simp_all
  have eq: "ra_correct a = sort (map adj_event_id
        (filter (\<lambda>j. adj_source j = ra_source a \<and> adj_verdict j = CORRECT) adjs))"
      "ra_incorrect a = sort (map adj_event_id
        (filter (\<lambda>j. adj_source j = ra_source a \<and> adj_verdict j = INCORRECT) adjs))"
    using assms(1) unfolding adjustment_ok_def by blast+
  have srt: "sort (ra_correct a) = ra_correct a" "sort (ra_incorrect a) = ra_incorrect a"
    unfolding eq by (simp_all add: sorted_sort_id)
  have d: "distinct (ra_correct a)" "distinct (ra_incorrect a)"
    and ok: "\<forall>i \<in> set (ra_correct a). text_ok i" "\<forall>i \<in> set (ra_incorrect a). text_ok i"
    using assms(1) unfolding adjustment_ok_def by blast+
  have tup: "canonical_text_tuple (text_array (ra_correct a)) path = Inr (ra_correct a)"
    "canonical_text_tuple (text_array (ra_incorrect a)) path = Inr (ra_incorrect a)" for path
    using canonical_text_array [OF _ d(1)] canonical_text_array [OF _ d(2)] ok unfolding srt by simp_all
  have "length (ra_correct a) \<le> length adjs" "length (ra_incorrect a) \<le> length adjs"
    unfolding eq by simp_all
  then have cnt: "int (length (ra_correct a)) \<le> max_attribute_integer"
    "int (length (ra_incorrect a)) \<le> max_attribute_integer" using assms(2) by linarith+
  have rest: "text_ok (ra_source a)" "set (ra_correct a) \<inter> set (ra_incorrect a) = {}"
    "ra_correct a \<noteq> [] \<or> ra_incorrect a \<noteq> []"
    using assms(1) unfolding adjustment_ok_def by blast+
  show ?thesis
    unfolding ReliabilityUpdateTrace_from_adjustment_def ReliabilityUpdateTrace_init_def
    using rest u cnt by (simp add: nj tup idem)
qed

definition stream_ok :: "policy \<Rightarrow> evidence_event list \<Rightarrow> adjudication list \<Rightarrow> bool" where
  "stream_ok p events adjs \<longleftrightarrow>
     policy_ok p \<and> distinct (map fst (claims p))
     \<and> (\<forall>e \<in> set events. event_ok e) \<and> (\<forall>a \<in> set adjs. adjudication_ok a)
     \<and> validate_event_set p events = Inr events \<and> validate_adjudication_set p events adjs = Inr adjs
     \<and> int (length events) \<le> max_attribute_integer \<and> int (length adjs) \<le> max_attribute_integer"

text \<open>What was known at \<open>t\<close>.\<close>

definition known_events :: "int \<Rightarrow> evidence_event list \<Rightarrow> evidence_event list" where
  "known_events t events = filter (\<lambda>e. ev_ingested_at e \<le> t) events"

definition known_adjudications :: "int \<Rightarrow> adjudication list \<Rightarrow> adjudication list" where
  "known_adjudications t adjs = filter (\<lambda>a. adj_at a \<le> t) adjs"

definition pending_ids :: "int \<Rightarrow> evidence_event list \<Rightarrow> ustr list" where
  "pending_ids t events = sort (map ev_id (filter (\<lambda>e. t < ev_ingested_at e) events))"

definition claim_decisions ::
  "runtime \<Rightarrow> policy \<Rightarrow> evidence_event list \<Rightarrow> int \<Rightarrow> (ustr \<times> rat) list \<Rightarrow> claim_decision list result" where
  "claim_decisions rt p known t rels =
     rmap (\<lambda>c. evaluate_claim rt c (the (map_of (claims p) c)) (filter (\<lambda>e. ev_claim e = c) known) p t rels)
       (sort (map fst (claims p)))"

definition update_traces :: "policy \<Rightarrow> reliability_adjustment list \<Rightarrow> update_trace list option result" where
  "update_traces p as =
     (case reliability_updates p of
        None \<Rightarrow> Inr None
      | Some _ \<Rightarrow> rbind (rmap ReliabilityUpdateTrace_from_adjustment as) (\<lambda>us. Inr (Some us)))"

definition applied_of :: "reliability_adjustment list \<Rightarrow> (ustr \<times> rat) list" where
  "applied_of as = rev (map (\<lambda>a. (ra_source a, ra_applied a)) as)"

lemma sum_list_indicator:
  "distinct cs \<Longrightarrow> y \<in> set cs \<Longrightarrow> sum_list (map (\<lambda>c. if c = y then 1 else 0) cs) = (1::int)"
proof (induction cs)
  case (Cons c cs)
  have "sum_list (map (\<lambda>c. if c = y then 1 else 0) cs) = (0::int)" if "y \<notin> set cs"
    using that by (induction cs) auto
  with Cons show ?case by auto
qed simp

lemma sum_filter_lengths:
  assumes "distinct cs" "f ` set xs \<subseteq> set cs"
  shows "sum_list (map (\<lambda>c. int (length (filter (\<lambda>x. f x = c) xs))) cs) = int (length xs)"
  using assms(2)
proof (induction xs)
  case Nil
  then show ?case by (induction cs) simp_all
next
  case (Cons x xs)
  have "sum_list (map (\<lambda>c. int (length (filter (\<lambda>y. f y = c) (x # xs)))) cs)
      = sum_list (map (\<lambda>c. int (length (filter (\<lambda>y. f y = c) xs)) + (if c = f x then 1 else 0)) cs)"
    by (rule arg_cong [where f = sum_list]) auto
  also have "\<dots> = sum_list (map (\<lambda>c. int (length (filter (\<lambda>y. f y = c) xs))) cs)
      + sum_list (map (\<lambda>c. if c = f x then 1 else 0) cs)"
    by (simp add: sum_list_addf)
  also have "sum_list (map (\<lambda>c. if c = f x then 1 else 0) cs) = (1::int)"
    using assms(1) Cons.prems by (simp add: sum_list_indicator)
  finally show ?case using Cons by simp
qed

lemma validate_event_set_Inr:
  "validate_event_set p events = Inr r \<longleftrightarrow>
     r = events \<and> distinct (map ev_id events) \<and> set (map ev_claim events) \<subseteq> set (map fst (claims p))
     \<and> (\<forall>e \<in> set events. total_seconds (ev_observed_at e - ev_ingested_at e) \<le> max_future_skew (decay p))"
  by (auto simp: validate_event_set_def list_all_iff)

lemma known_claim_events_ok:
  assumes "stream_ok p events adjs"
  shows "claim_events_ok p c t (filter (\<lambda>e. ev_claim e = c) (known_events t events))"
proof -
  let ?es = "filter (\<lambda>e. ev_claim e = c) (known_events t events)"
  have "length ?es \<le> length events"
    unfolding known_events_def by (meson le_trans length_filter_le)
  moreover have "int (length events) \<le> max_attribute_integer" using assms by (simp add: stream_ok_def)
  ultimately have "int (length ?es) \<le> max_attribute_integer" by linarith
  moreover have "distinct (map ev_id ?es)"
    using assms by (simp add: stream_ok_def validate_event_set_Inr known_events_def distinct_map_filter)
  ultimately show ?thesis
    using assms unfolding claim_events_ok_def
    by (auto simp: stream_ok_def validate_event_set_Inr known_events_def)
qed

text \<open>
  The value of \<open>evaluate\<close> on validated input: no check of any output record fails, and the
  record holds what was known at the evaluation time.
\<close>

lemma evaluate_Inr:
  assumes ok: "stream_ok p events adjs" and exp: "exp2_contract rt"
    and t: "normalize_datetime as_of ''as_of'' = Inr t"
  shows "\<exists>as decs us. adjust_reliabilities p (known_adjudications t adjs) = Inr as
    \<and> unit_reliabilities (applied_of as)
    \<and> claim_decisions rt p (known_events t events) t (applied_of as) = Inr decs
    \<and> update_traces p as = Inr us
    \<and> map cd_claim decs = sort (map fst (claims p))
    \<and> evaluate rt p events as_of adjs = Inr \<lparr>er_policy_id = policy_id p, er_evaluated_at = t,
        er_input_count = int (length events), er_considered_count = int (length (known_events t events)),
        er_pending = pending_ids t events, er_decisions = decs, er_updates = us\<rparr>"
proof -
  let ?K = "known_events t events" and ?J = "known_adjudications t adjs"
  let ?cs = "sort (map fst (claims p))"
  have pol: "policy_ok p" and aok: "\<And>a. a \<in> set ?J \<Longrightarrow> adjudication_ok a"
    and vad: "validate_adjudication_set p events adjs = Inr adjs"
    and vev: "validate_event_set p events = Inr events"
    and dc: "distinct (map fst (claims p))"
    using ok by (auto simp: stream_ok_def known_adjudications_def)
  have dJ: "distinct (map adj_event_id ?J)"
    using vad by (auto simp: validate_adjudication_set_Inr known_adjudications_def distinct_map_filter)
  have "length ?J \<le> length adjs" by (simp add: known_adjudications_def)
  then have lJ: "int (length ?J) \<le> max_attribute_integer" using ok by (simp add: stream_ok_def)
  obtain as where as: "adjust_reliabilities p ?J = Inr as"
    and aspec: "\<forall>a \<in> set as. \<exists>rule. reliability_updates p = Some rule \<and> adjustment_ok p rule ?J a"
    and asrc: "map ra_source as = (if reliability_updates p = None then [] else sorted_set (map adj_source ?J))"
    using adjust_reliabilities_total [OF pol aok dJ] by blast
  have rels: "unit_reliabilities (applied_of as)"
  proof -
    have "unit_double (ra_applied a)" if "a \<in> set as" for a
      using aspec that unfolding adjustment_ok_def by blast
    then show ?thesis by (auto simp: unit_reliabilities_def applied_of_def)
  qed
  have ctext: "text_ok c" if "c \<in> set ?cs" for c using pol that by (auto simp: policy_ok_def)
  let ?ev = "\<lambda>c. evaluate_claim rt c (the (map_of (claims p) c)) (filter (\<lambda>e. ev_claim e = c) ?K) p t (applied_of as)"
  have one: "\<exists>d. ?ev c = Inr d \<and> cd_claim d = c \<and> length (cd_trace d) = length (filter (\<lambda>e. ev_claim e = c) ?K)"
    if "c \<in> set ?cs" for c
    using evaluate_claim_Inr [OF pol exp rels known_claim_events_ok [OF ok] ctext [OF that]] by blast
  then obtain decs where decs: "rmap ?ev ?cs = Inr decs" using rmap_total [of ?cs ?ev] by blast
  have "list_all2 (\<lambda>c d. cd_claim d = c \<and> length (cd_trace d) = length (filter (\<lambda>e. ev_claim e = c) ?K)) ?cs decs"
    using decs one unfolding rmap_Inr_iff list_all2_conv_all_nth by (metis Inr_inject nth_mem)
  then have cl: "map cd_claim decs = ?cs"
    and tl: "map (\<lambda>d. int (length (cd_trace d))) decs = map (\<lambda>c. int (length (filter (\<lambda>e. ev_claim e = c) ?K))) ?cs"
    by (auto simp: list_all2_conv_all_nth list_eq_iff_nth_eq)
  have total: "sum_list (map (\<lambda>d. int (length (cd_trace d))) decs) = int (length ?K)"
    unfolding tl using vev dc by (intro sum_filter_lengths) (auto simp: validate_event_set_Inr known_events_def)
  have dsort: "sort_key cd_claim decs = decs"
    using cl by (intro sort_key_id_if_sorted) simp
  obtain us where us: "update_traces p as = Inr us"
    and usok: "case us of None \<Rightarrow> True | Some vs \<Rightarrow> map ut_source vs = map ra_source as"
  proof (cases "reliability_updates p")
    case None
    with that show thesis by (simp add: update_traces_def)
  next
    case (Some rule)
    have u1: "\<exists>u. ReliabilityUpdateTrace_from_adjustment a = Inr u \<and> ut_source u = ra_source a" if "a \<in> set as" for a
      using aspec that update_trace_Inr [OF _ lJ] by blast
    then obtain vs where vs: "rmap ReliabilityUpdateTrace_from_adjustment as = Inr vs"
      using rmap_total [of as ReliabilityUpdateTrace_from_adjustment] by blast
    have "list_all2 (\<lambda>a u. ut_source u = ra_source a) as vs"
      using vs u1 unfolding rmap_Inr_iff list_all2_conv_all_nth by (metis Inr_inject nth_mem)
    then have "map ut_source vs = map ra_source as" by (auto simp: list_all2_conv_all_nth list_eq_iff_nth_eq)
    with vs Some that show thesis by (simp add: update_traces_def)
  qed
  have usort: "(case us of None \<Rightarrow> Inr None
      | Some vs \<Rightarrow> (let vs = sort_key ut_source vs in if distinct (map ut_source vs) then Inr (Some vs)
          else Inl (ValidationError ''result.reliability_updates contains duplicate sources''))) = Inr us"
  proof (cases us)
    case (Some vs)
    then have "sorted (map ut_source vs)" "distinct (map ut_source vs)" using usok asrc by auto
    with Some show ?thesis by (simp add: sort_key_id_if_sorted)
  qed simp
  have pend: "canonical_text_tuple (text_array (pending_ids t events)) path = Inr (pending_ids t events)" for path
  proof -
    have "canonical_text_tuple (text_array (pending_ids t events)) path = Inr (sort (pending_ids t events))"
      using ok vev by (intro canonical_text_array)
        (auto simp: pending_ids_def stream_ok_def event_ok_def validate_event_set_Inr distinct_map_filter)
    then show ?thesis by (simp add: pending_ids_def sorted_sort_id)
  qed
  have cnt: "length ?K + length (pending_ids t events) = length events"
    unfolding known_events_def pending_ids_def using sum_length_filter_compl [of "\<lambda>e. ev_ingested_at e \<le> t" events]
    by (simp add: not_le)
  have big: "int (length ?K) \<le> max_attribute_integer" "int (length events) \<le> max_attribute_integer"
    using cnt ok by (simp_all add: stream_ok_def)
  have vt: "valid_instant t" using normalize_datetime_valid [OF t] .
  have pid: "text_ok (policy_id p)" using pol by (simp add: policy_ok_def)
  have "evaluate rt p events as_of adjs
      = EvaluationResult_init (JInt 1) (policy_id p) (utc t) (int (length events)) (int (length ?K))
          (pending_ids t events) decs us"
    using t vev vad as decs us
    by (simp add: evaluate_def Let_def known_events_def known_adjudications_def pending_ids_def applied_of_def
        update_traces_def)
  also have "\<dots> = Inr \<lparr>er_policy_id = policy_id p, er_evaluated_at = t,
        er_input_count = int (length events), er_considered_count = int (length ?K),
        er_pending = pending_ids t events, er_decisions = decs, er_updates = us\<rparr>"
    unfolding EvaluationResult_init_def Let_def [of "sort_key cd_claim decs"] dsort usort
    using vt pid big cnt total cl dc pend by simp
  finally show ?thesis
    using as rels decs us cl by (auto simp: claim_decisions_def)
qed

subsection \<open>Order independence\<close>

lemma evaluate_claim_perm:
  assumes "policy_ok p" "exp2_contract rt" "unit_reliabilities rels" "claim_events_ok p c t es"
    and perm: "mset es = mset fs"
  shows "evaluate_claim rt c rule es p t rels = evaluate_claim rt c rule fs p t rels"
proof -
  have fs: "claim_events_ok p c t fs"
    using assms(4) mset_eq_setD [OF perm] mset_eq_length [OF perm] perm
    by (simp add: claim_events_ok_def) (metis mset_eq_imp_distinct_iff mset_map)
  obtain ws where ws: "weigh_all rt es p t rels = Inr ws" "map we_event ws = es"
    using weigh_all_Inr [OF assms(1-4)] by blast
  obtain vs where vs: "weigh_all rt fs p t rels = Inr vs" "map we_event vs = fs"
    using weigh_all_Inr [OF assms(1-3) fs] by blast
  define g where "g e = (case weight_event rt e p t (map_of rels (ev_source e)) of Inr w \<Rightarrow> w)" for e
  have "ws = map g es"
    using ws(1) unfolding weigh_all_def by (rule rmap_Inr_map) (simp add: g_def)
  moreover have "vs = map g fs"
    using vs(1) unfolding weigh_all_def by (rule rmap_Inr_map) (simp add: g_def)
  ultimately have m: "mset ws = mset vs" using perm by simp
  have "map we_id ws = map ev_id es" unfolding ws(2) [symmetric] by (simp add: we_id_def)
  then have "inj_on we_id (set ws)"
    using assms(4) by (metis claim_events_ok_def distinct_map)
  then have "sort_key we_id ws = sort_key we_id vs" by (rule sort_key_perm_eq [OF m])
  then show ?thesis
    using ws(1) vs(1) by (simp add: evaluate_claim_def weigh_all_def Let_def)
qed

lemma event_index_distinct:
  "distinct (map fst (rev (map (\<lambda>e. (ev_id e, e)) xs))) \<longleftrightarrow> distinct (map ev_id xs)"
proof -
  have "map fst (rev (map (\<lambda>e. (ev_id e, e)) xs)) = rev (map ev_id xs)"
    by (simp add: rev_map comp_def)
  then show ?thesis by (simp only: distinct_rev)
qed

lemma stream_ok_perm:
  assumes "stream_ok p es as" "mset es = mset fs" "mset as = mset bs"
  shows "stream_ok p fs bs"
proof -
  have se: "set fs = set es" and sa: "set bs = set as"
    using mset_eq_setD [OF assms(2)] mset_eq_setD [OF assms(3)] by simp_all
  have len: "length fs = length es" "length bs = length as"
    using mset_eq_length [OF assms(2)] mset_eq_length [OF assms(3)] by simp_all
  have de: "distinct (map ev_id fs) = distinct (map ev_id es)"
    and da: "distinct (map adj_event_id bs) = distinct (map adj_event_id as)"
    using assms(2,3) by (metis mset_eq_imp_distinct_iff mset_map)+
  have nil: "bs = [] \<longleftrightarrow> as = []" using len by auto
  have des: "distinct (map ev_id es)" using assms(1) by (simp add: stream_ok_def validate_event_set_Inr)
  have "map_of (rev (map (\<lambda>e. (ev_id e, e)) fs)) = map_of (rev (map (\<lambda>e. (ev_id e, e)) es))"
    using des de se by (intro map_of_inject_set [THEN iffD2]) (simp_all only: event_index_distinct set_rev set_map)
  then have ev: "event_of_adjudication fs = event_of_adjudication es"
    by (simp add: event_of_adjudication_def fun_eq_iff)
  show ?thesis
    using assms(1) se sa len de da nil ev
    by (simp add: stream_ok_def validate_event_set_Inr validate_adjudication_set_Inr
        adjudication_mismatched_def adjudication_premature_def)
qed

lemma claim_decisions_perm:
  assumes "stream_ok p es as" "exp2_contract rt" "unit_reliabilities rels" "mset es = mset fs"
  shows "claim_decisions rt p (known_events t es) t rels = claim_decisions rt p (known_events t fs) t rels"
  unfolding claim_decisions_def
proof (rule rmap_cong [OF refl])
  fix c
  have "policy_ok p" using assms(1) by (simp add: stream_ok_def)
  then show "evaluate_claim rt c (the (map_of (claims p) c)) (filter (\<lambda>e. ev_claim e = c) (known_events t es)) p t rels
      = evaluate_claim rt c (the (map_of (claims p) c)) (filter (\<lambda>e. ev_claim e = c) (known_events t fs)) p t rels"
    using assms by (intro evaluate_claim_perm known_claim_events_ok [OF assms(1)]) (simp_all add: known_events_def)
qed

lemma evaluate_perm:
  assumes ok: "stream_ok p es as" and exp: "exp2_contract rt"
    and perm: "mset es = mset fs" "mset as = mset bs"
  shows "evaluate rt p es as_of as = evaluate rt p fs as_of bs"
proof (cases "normalize_datetime as_of ''as_of''")
  case (Inl e)
  then show ?thesis by (simp add: evaluate_def)
next
  case (Inr t)
  note ok' = stream_ok_perm [OF ok perm]
  obtain xs decs us where 1: "adjust_reliabilities p (known_adjudications t as) = Inr xs"
    "unit_reliabilities (applied_of xs)"
    "claim_decisions rt p (known_events t es) t (applied_of xs) = Inr decs" "update_traces p xs = Inr us"
    "evaluate rt p es as_of as = Inr \<lparr>er_policy_id = policy_id p, er_evaluated_at = t,
        er_input_count = int (length es), er_considered_count = int (length (known_events t es)),
        er_pending = pending_ids t es, er_decisions = decs, er_updates = us\<rparr>"
    using evaluate_Inr [OF ok exp Inr] by blast
  obtain ys decs' us' where 2: "adjust_reliabilities p (known_adjudications t bs) = Inr ys"
    "claim_decisions rt p (known_events t fs) t (applied_of ys) = Inr decs'" "update_traces p ys = Inr us'"
    "evaluate rt p fs as_of bs = Inr \<lparr>er_policy_id = policy_id p, er_evaluated_at = t,
        er_input_count = int (length fs), er_considered_count = int (length (known_events t fs)),
        er_pending = pending_ids t fs, er_decisions = decs', er_updates = us'\<rparr>"
    using evaluate_Inr [OF ok' exp Inr] by blast
  have "adjust_reliabilities p (known_adjudications t as) = adjust_reliabilities p (known_adjudications t bs)"
    using perm(2) by (intro adjust_reliabilities_perm) (simp add: known_adjudications_def)
  then have xy: "xs = ys" using 1(1) 2(1) by simp
  then have "decs = decs'" "us = us'"
    using claim_decisions_perm [OF ok exp 1(2) perm(1), of t] 1(3,4) 2(2,3) by simp_all
  moreover have "mset (known_events t es) = mset (known_events t fs)"
    using perm(1) by (simp add: known_events_def)
  then have "length (known_events t es) = length (known_events t fs)" by (rule mset_eq_length)
  moreover have "length es = length fs" using perm(1) by (rule mset_eq_length)
  moreover have "pending_ids t es = pending_ids t fs"
    unfolding pending_ids_def using perm(1) by (intro sort_mset_cong) simp
  ultimately show ?thesis using 1(5) 2(4) by simp
qed

subsection \<open>No lookahead\<close>

lemma known_stream_ok:
  assumes "stream_ok p es as"
  shows "stream_ok p (known_events t es) (known_adjudications u as)"
proof -
  have des: "distinct (map ev_id es)" using assms by (simp add: stream_ok_def validate_event_set_Inr)
  have "length (known_events t es) \<le> length es" "length (known_adjudications u as) \<le> length as"
    by (simp_all add: known_events_def known_adjudications_def)
  then have len: "int (length (known_events t es)) \<le> int (length es)"
    "int (length (known_adjudications u as)) \<le> int (length as)" by simp_all
  have ev: "event_of_adjudication es a = Some e" if "event_of_adjudication (known_events t es) a = Some e" for a e
  proof -
    have "(adj_event_id a, e) \<in> set (map (\<lambda>e. (ev_id e, e)) (known_events t es))"
      using map_of_SomeD [OF that [unfolded event_of_adjudication_def]] by simp
    then have "(adj_event_id a, e) \<in> set (rev (map (\<lambda>e. (ev_id e, e)) es))" by (auto simp: known_events_def)
    moreover have "distinct (map fst (rev (map (\<lambda>e. (ev_id e, e)) es)))"
      using des by (simp only: event_index_distinct)
    ultimately show ?thesis by (simp add: event_of_adjudication_def)
  qed
  have adj: "\<not> adjudication_mismatched (known_events t es) a \<and> \<not> adjudication_premature (known_events t es) a"
    if "a \<in> set as" for a
  proof -
    have "\<not> adjudication_mismatched es a \<and> \<not> adjudication_premature es a"
      using assms that by (simp add: stream_ok_def validate_adjudication_set_Inr)
    then show ?thesis
      using ev [of a]
      by (cases "event_of_adjudication (known_events t es) a")
        (simp_all add: adjudication_mismatched_def adjudication_premature_def)
  qed
  have "distinct (map ev_id (known_events t es))" "distinct (map adj_event_id (known_adjudications u as))"
    using assms by (simp_all add: stream_ok_def validate_event_set_Inr validate_adjudication_set_Inr
        known_events_def known_adjudications_def distinct_map_filter)
  moreover have "\<forall>e \<in> set (known_events t es). event_ok e \<and> ev_claim e \<in> set (map fst (claims p))
      \<and> total_seconds (ev_observed_at e - ev_ingested_at e) \<le> max_future_skew (decay p)"
    using assms by (auto simp: known_events_def stream_ok_def validate_event_set_Inr)
  moreover have "\<forall>a \<in> set (known_adjudications u as). adjudication_ok a \<and> a \<in> set as
      \<and> adj_source a \<in> set (map fst (sources p))"
    using assms by (auto simp: known_adjudications_def stream_ok_def validate_adjudication_set_Inr)
  moreover have "known_adjudications u as = [] \<or> reliability_updates p \<noteq> None"
    using assms by (auto simp: stream_ok_def validate_adjudication_set_Inr known_adjudications_def)
  ultimately show ?thesis
    using assms adj len
    by (simp add: stream_ok_def validate_event_set_Inr validate_adjudication_set_Inr image_subset_iff)
qed

lemma known_idem [simp]:
  "known_events t (known_events t es) = known_events t es"
  "known_adjudications t (known_adjudications t as) = known_adjudications t as"
  "pending_ids t (known_events t es) = []"
  by (simp_all add: known_events_def known_adjudications_def pending_ids_def filter_empty_conv)

text \<open>
  Evidence and judgements that arrive later change only the input count and the pending identifiers.
\<close>

lemma evaluate_known:
  assumes ok: "stream_ok p es as" and exp: "exp2_contract rt"
    and ev: "evaluate rt p es as_of as = Inr r" and t: "normalize_datetime as_of ''as_of'' = Inr t"
  shows "evaluate rt p (known_events t es) as_of (known_adjudications t as)
    = Inr (r\<lparr>er_input_count := er_considered_count r, er_pending := []\<rparr>)"
proof -
  obtain xs decs us where 1: "adjust_reliabilities p (known_adjudications t as) = Inr xs"
    "claim_decisions rt p (known_events t es) t (applied_of xs) = Inr decs" "update_traces p xs = Inr us"
    "evaluate rt p es as_of as = Inr \<lparr>er_policy_id = policy_id p, er_evaluated_at = t,
        er_input_count = int (length es), er_considered_count = int (length (known_events t es)),
        er_pending = pending_ids t es, er_decisions = decs, er_updates = us\<rparr>"
    using evaluate_Inr [OF ok exp t] by blast
  obtain ys decs' us' where 2: "adjust_reliabilities p (known_adjudications t as) = Inr ys"
    "claim_decisions rt p (known_events t es) t (applied_of ys) = Inr decs'" "update_traces p ys = Inr us'"
    "evaluate rt p (known_events t es) as_of (known_adjudications t as) = Inr \<lparr>er_policy_id = policy_id p,
        er_evaluated_at = t, er_input_count = int (length (known_events t es)),
        er_considered_count = int (length (known_events t es)),
        er_pending = [], er_decisions = decs', er_updates = us'\<rparr>"
    using evaluate_Inr [OF known_stream_ok [OF ok, of t t] exp t] by auto
  from 1 2 ev show ?thesis by auto
qed

subsection \<open>Justified outcomes\<close>

text \<open>
  The selections a decision rests on: one representative per correlation group, each an event of
  the claim known at the evaluation time, weighted under the reliabilities in force.
\<close>

definition justified_by ::
  "runtime \<Rightarrow> policy \<Rightarrow> evidence_event list \<Rightarrow> int \<Rightarrow> (ustr \<times> rat) list \<Rightarrow> ustr \<Rightarrow> correlation_selection list \<Rightarrow> bool" where
  "justified_by rt p events t rels c sels \<longleftrightarrow>
     distinct (map (\<lambda>s. (sel_group s, sel_signal s)) sels)
     \<and> (\<forall>s \<in> set sels. let w = sel_representative s; e = we_event w in
          e \<in> set events \<and> ev_claim e = c \<and> ev_ingested_at e \<le> t
          \<and> correlation_key w = sel_group s \<and> ev_signal e = sel_signal s
          \<and> weight_event rt e p t (map_of rels (ev_source e)) = Inr w)"

lemma evaluate_decision:
  assumes ok: "stream_ok p es as" and exp: "exp2_contract rt"
    and ev: "evaluate rt p es as_of as = Inr r" and t: "normalize_datetime as_of ''as_of'' = Inr t"
    and d: "d \<in> set (er_decisions r)"
  shows "\<exists>rule adjs sels. map_of (claims p) (cd_claim d) = Some rule \<and> rule_ok rule
    \<and> adjust_reliabilities p (known_adjudications t as) = Inr adjs
    \<and> justified_by rt p es t (applied_of adjs) (cd_claim d) sels \<and> selections_ok sels \<and> decision_sound rule sels d"
proof -
  let ?K = "known_events t es"
  have pol: "policy_ok p" and dc: "distinct (map fst (claims p))" using ok by (simp_all add: stream_ok_def)
  obtain xs decs us where xs: "unit_reliabilities (applied_of xs)"
    "claim_decisions rt p ?K t (applied_of xs) = Inr decs" "er_decisions r = decs"
    and adjs: "adjust_reliabilities p (known_adjudications t as) = Inr xs"
    using evaluate_Inr [OF ok exp t] ev by auto
  obtain c where c: "c \<in> set (map fst (claims p))"
    and ec: "evaluate_claim rt c (the (map_of (claims p) c)) (filter (\<lambda>e. ev_claim e = c) ?K) p t (applied_of xs) = Inr d"
  proof -
    have "d \<in> set decs" using d xs(3) by simp
    from rmap_Inr_elem_rev [OF xs(2) [unfolded claim_decisions_def] this] show thesis
      using that by auto
  qed
  obtain rule where rule: "map_of (claims p) c = Some rule" "rule_ok rule"
  proof -
    obtain rule where "(c, rule) \<in> set (claims p)" using c by auto
    then show thesis using that [of rule] dc pol by (auto simp: policy_ok_def)
  qed
  have ct: "text_ok c" using pol c by (auto simp: policy_ok_def)
  obtain ws sels where ws: "weigh_all rt (filter (\<lambda>e. ev_claim e = c) ?K) p t (applied_of xs) = Inr ws"
    and dd: "cd_claim d = c" "decision_sound rule sels d" "selections_ok sels"
      "\<forall>s \<in> set sels. selection_spec (sort_key we_id ws) s"
    using evaluate_claim_Inr [OF pol exp xs(1) known_claim_events_ok [OF ok, of c t] ct, where rule = rule] ec rule(1) by auto
  have j: "we_event w \<in> set es \<and> ev_claim (we_event w) = c \<and> ev_ingested_at (we_event w) \<le> t
      \<and> weight_event rt (we_event w) p t (map_of (applied_of xs) (ev_source (we_event w))) = Inr w"
    if w: "w \<in> set ws" for w
  proof -
    obtain ws' where ws': "weigh_all rt (filter (\<lambda>e. ev_claim e = c) ?K) p t (applied_of xs) = Inr ws'"
      "map we_event ws' = filter (\<lambda>e. ev_claim e = c) ?K"
      using weigh_all_Inr [OF pol exp xs(1) known_claim_events_ok [OF ok]] by blast
    with ws have m: "map we_event ws = filter (\<lambda>e. ev_claim e = c) ?K" by simp
    from w have "we_event w \<in> set (filter (\<lambda>e. ev_claim e = c) ?K)" unfolding m [symmetric] by simp
    moreover obtain i where i: "i < length ws" "ws ! i = w" using w by (auto simp: in_set_conv_nth)
    then have "map we_event ws ! i = we_event w" by simp
    with ws i m have "weight_event rt (we_event w) p t (map_of (applied_of xs) (ev_source (we_event w))) = Inr w"
      unfolding weigh_all_def rmap_Inr_iff list_all2_conv_all_nth by metis
    ultimately show ?thesis by (simp add: known_events_def)
  qed
  have "justified_by rt p es t (applied_of xs) c sels"
  proof -
    have "let w = sel_representative s; e = we_event w in
          e \<in> set es \<and> ev_claim e = c \<and> ev_ingested_at e \<le> t
          \<and> correlation_key w = sel_group s \<and> ev_signal e = sel_signal s
          \<and> weight_event rt e p t (map_of (applied_of xs) (ev_source e)) = Inr w" if s: "s \<in> set sels" for s
    proof -
      have "selection_spec (sort_key we_id ws) s" using dd(4) s by blast
      then have "sel_representative s \<in> set ws" "bucket_key (sel_representative s) = (sel_group s, sel_signal s)"
        by (auto simp: selection_spec_def)
      then show ?thesis using j by (simp add: bucket_key_def Let_def)
    qed
    then show ?thesis using dd(3) by (auto simp: justified_by_def selections_ok_def)
  qed
  with rule dd adjs show ?thesis by blast
qed

subsection \<open>Replay\<close>

definition replay ::
  "runtime \<Rightarrow> policy \<Rightarrow> evidence_event list \<Rightarrow> adjudication list \<Rightarrow> evaluation_result list result" where
  "replay rt p events adjudications =
     rbind (validate_event_set p events) (\<lambda>ev.
     let ordered = sort_key (\<lambda>e. (ev_ingested_at e, ev_id e)) ev in
     rbind (validate_adjudication_set p ordered adjudications) (\<lambda>ad.
     let adjudged = sort_key (\<lambda>a. (adj_at a, adj_event_id a)) ad;
         timestamps = sorted_set (map ev_ingested_at ordered @ map adj_at adjudged)
     in rmap (\<lambda>t. evaluate rt p (filter (\<lambda>e. ev_ingested_at e \<le> t) ordered) (utc t)
                (filter (\<lambda>a. adj_at a \<le> t) adjudged)) timestamps))"

definition boundaries :: "evidence_event list \<Rightarrow> adjudication list \<Rightarrow> int list" where
  "boundaries es as = sorted_set (map ev_ingested_at es @ map adj_at as)"

text \<open>A snapshot of replay: the evaluation of what was known at its boundary.\<close>

definition snapshot :: "runtime \<Rightarrow> policy \<Rightarrow> evidence_event list \<Rightarrow> adjudication list \<Rightarrow> int \<Rightarrow> evaluation_result result" where
  "snapshot rt p es as t = evaluate rt p (known_events t es) (utc t) (known_adjudications t as)"

text \<open>
  What an escalation rests on: the weights, under the reliabilities in force, of known supporting reports for the
  claim, one per correlation group; their combined score is at the threshold and leads by the margin, and those among
  them that reach the minimum confidence pass the gates of the rule.
\<close>

lemma escalation_evidence:
  assumes ok: "stream_ok p es as" and exp: "exp2_contract rt"
    and ev: "evaluate rt p es as_of as = Inr r" and t: "normalize_datetime as_of ''as_of'' = Inr t"
    and d: "d \<in> set (er_decisions r)" "cd_outcome d = ESCALATE"
  shows "\<exists>rule adjs ups ws. map_of (claims p) (cd_claim d) = Some rule
    \<and> adjust_reliabilities p (known_adjudications t as) = Inr adjs
    \<and> (\<forall>w \<in> set ups. we_event w \<in> set (known_events t es) \<and> ev_claim (we_event w) = cd_claim d
         \<and> ev_signal (we_event w) = SUPPORT
         \<and> weight_event rt (we_event w) p t (map_of (applied_of adjs) (ev_source (we_event w))) = Inr w)
    \<and> distinct (map correlation_key ups)
    \<and> ws = filter (\<lambda>w. stable_float (min_evidence_confidence rule) \<le> stable_float (we_effective w)) ups
    \<and> quorum rule \<le> int (length ws) \<and> min_sources rule \<le> int (card ((\<lambda>w. ev_source (we_event w)) ` set ws))
    \<and> min_modalities rule \<le> int (card ((\<lambda>w. ev_modality (we_event w)) ` set ws))
    \<and> set (required_modalities rule) \<subseteq> (\<lambda>w. U (modality_value (ev_modality (we_event w)))) ` set ws
    \<and> ss_score (cd_support d) = stable_float (combined_confidence (map we_effective ups))
    \<and> stable_float (support_threshold rule) \<le> stable_float (ss_score (cd_support d))
    \<and> stable_float (min_margin rule)
        \<le> stable_float (fl (stable_float (ss_score (cd_support d)) - stable_float (ss_score (cd_contradict d))))"
proof -
  obtain rule adjs sels where rule: "map_of (claims p) (cd_claim d) = Some rule"
    and adjs: "adjust_reliabilities p (known_adjudications t as) = Inr adjs"
    and just: "justified_by rt p es t (applied_of adjs) (cd_claim d) sels" and sound: "decision_sound rule sels d"
    using evaluate_decision [OF ok exp ev t d(1)] by blast
  have "fst (choose_outcome (cd_support d) (cd_contradict d) rule) = ESCALATE"
    using sound d(2) by (auto simp: decision_sound_def split: prod.splits)
  then have gate: "gate_open rule (qualifying SUPPORT sels rule)"
    and score: "stable_float (support_threshold rule) \<le> stable_float (ss_score (cd_support d))"
      "stable_float (min_margin rule)
        \<le> stable_float (fl (stable_float (ss_score (cd_support d)) - stable_float (ss_score (cd_contradict d))))"
      "ss_score (cd_support d) = signal_score SUPPORT sels"
    using sound unfolding choose_outcome_escalate by (simp_all add: decision_sound_def)
  let ?ss = "filter (\<lambda>s. sel_signal s = SUPPORT) sels" and ?qs = "qualifying SUPPORT sels rule"
    and ?f = "\<lambda>m. U (modality_value m)"
  let ?ups = "map sel_representative ?ss" and ?ws = "map sel_representative ?qs"
  have ups: "\<forall>w \<in> set ?ups. we_event w \<in> set (known_events t es) \<and> ev_claim (we_event w) = cd_claim d
       \<and> ev_signal (we_event w) = SUPPORT
       \<and> weight_event rt (we_event w) p t (map_of (applied_of adjs) (ev_source (we_event w))) = Inr w"
    using just by (fastforce simp: justified_by_def Let_def known_events_def)
  have "distinct (map (\<lambda>s. (sel_group s, sel_signal s)) ?ss)"
    using just by (simp add: justified_by_def distinct_map_filter)
  moreover have "map (\<lambda>s. (sel_group s, sel_signal s)) ?ss = map (\<lambda>g. (g, SUPPORT)) (map sel_group ?ss)" by simp
  ultimately have "distinct (map sel_group ?ss)" by (simp only: distinct_map)
  moreover have "map correlation_key ?ups = map sel_group ?ss"
    using just by (auto simp: justified_by_def Let_def)
  ultimately have dist: "distinct (map correlation_key ?ups)" by (simp only:)
  have ws: "?ws = filter (\<lambda>w. stable_float (min_evidence_confidence rule) \<le> stable_float (we_effective w)) ?ups"
    by (simp add: qualifying_def filter_map comp_def conj_commute)
  have mods: "modalities_of ?qs = ?f ` (\<lambda>w. ev_modality (we_event w)) ` set ?ws"
    by (simp add: modalities_of_def image_image)
  then have "card (modalities_of ?qs) = card ((\<lambda>w. ev_modality (we_event w)) ` set ?ws)"
    by (simp add: card_image inj_on_def)
  then have g: "quorum rule \<le> int (length ?ws)" "min_sources rule \<le> int (card ((\<lambda>w. ev_source (we_event w)) ` set ?ws))"
    "min_modalities rule \<le> int (card ((\<lambda>w. ev_modality (we_event w)) ` set ?ws))"
    "set (required_modalities rule) \<subseteq> (\<lambda>w. ?f (ev_modality (we_event w))) ` set ?ws"
    using gate mods by (simp_all add: gate_open_def sources_of_def image_image)
  have sum: "ss_score (cd_support d) = stable_float (combined_confidence (map we_effective ?ups))"
    using score(3) by (simp add: signal_score_def comp_def)
  show ?thesis
    by (intro exI [of _ rule] exI [of _ adjs] exI [of _ ?ups] exI [of _ ?ws] conjI)
      (fact rule adjs ups dist ws g sum score(1,2))+
qed

lemma known_perm:
  "mset es = mset fs \<Longrightarrow> mset (known_events t es) = mset (known_events t fs)"
  "mset as = mset bs \<Longrightarrow> mset (known_adjudications t as) = mset (known_adjudications t bs)"
  by (simp_all add: known_events_def known_adjudications_def)

lemma replay_eq:
  assumes ok: "stream_ok p es as" and exp: "exp2_contract rt"
  shows "replay rt p es as = rmap (snapshot rt p es as) (boundaries es as)"
proof -
  let ?o = "sort_key (\<lambda>e. (ev_ingested_at e, ev_id e)) es"
  let ?a = "sort_key (\<lambda>a. (adj_at a, adj_event_id a)) as"
  have ok': "stream_ok p ?o as" using stream_ok_perm [OF ok, of ?o as] by simp
  have "evaluate rt p (known_events t ?o) (utc t) (known_adjudications t ?a) = snapshot rt p es as t" for t
    unfolding snapshot_def
    by (rule evaluate_perm [OF known_stream_ok [OF ok, of t t] exp, symmetric])
      (rule known_perm; simp)+
  moreover have "sorted_set (map ev_ingested_at ?o @ map adj_at ?a) = boundaries es as"
    unfolding boundaries_def by (rule sorted_set_cong) simp
  ultimately show ?thesis
    using ok ok' by (simp add: replay_def stream_ok_def Let_def known_events_def [symmetric]
        known_adjudications_def [symmetric])
qed

lemma boundaries_valid:
  assumes "stream_ok p es as" "t \<in> set (boundaries es as)"
  shows "valid_instant t"
  using assms by (auto simp: boundaries_def stream_ok_def event_ok_def adjudication_ok_def)

text \<open>Replay succeeds, and each snapshot is the evaluation at its boundary of the whole stream.\<close>

lemma replay_snapshots:
  assumes ok: "stream_ok p es as" and exp: "exp2_contract rt"
  shows "\<exists>rs. replay rt p es as = Inr rs \<and> map er_evaluated_at rs = boundaries es as
    \<and> (\<forall>r \<in> set rs. \<exists>full. evaluate rt p es (utc (er_evaluated_at r)) as = Inr full
         \<and> r = full\<lparr>er_input_count := er_considered_count full, er_pending := []\<rparr>)"
proof -
  have one: "\<exists>r full. snapshot rt p es as t = Inr r \<and> er_evaluated_at r = t
      \<and> evaluate rt p es (utc t) as = Inr full
      \<and> r = full\<lparr>er_input_count := er_considered_count full, er_pending := []\<rparr>"
    if "t \<in> set (boundaries es as)" for t
  proof -
    have t: "normalize_datetime (utc t) ''as_of'' = Inr t" using boundaries_valid [OF ok that] by simp
    obtain full where full: "evaluate rt p es (utc t) as = Inr full" "er_evaluated_at full = t"
      using evaluate_Inr [OF ok exp t] by auto
    then show ?thesis using evaluate_known [OF ok exp full(1) t] by (simp add: snapshot_def)
  qed
  then obtain rs where rs: "rmap (snapshot rt p es as) (boundaries es as) = Inr rs"
    using rmap_total [of "boundaries es as" "snapshot rt p es as"] by blast
  have "map er_evaluated_at rs = boundaries es as"
    by (rule rmap_inverse [OF rs]) (metis one Inr_inject)
  moreover have "\<forall>r \<in> set rs. \<exists>full. evaluate rt p es (utc (er_evaluated_at r)) as = Inr full
         \<and> r = full\<lparr>er_input_count := er_considered_count full, er_pending := []\<rparr>"
  proof
    fix r assume "r \<in> set rs"
    then obtain t where t: "t \<in> set (boundaries es as)" "snapshot rt p es as t = Inr r"
      using rmap_Inr_elem_rev [OF rs] by blast
    from one [OF t(1)] t(2) show "\<exists>full. evaluate rt p es (utc (er_evaluated_at r)) as = Inr full
         \<and> r = full\<lparr>er_input_count := er_considered_count full, er_pending := []\<rparr>" by auto
  qed
  moreover have "replay rt p es as = Inr rs" using rs replay_eq [OF ok exp] by simp
  ultimately show ?thesis by blast
qed

lemma sorted_set_idem: "sorted_set (sorted_set xs) = sorted_set xs"
  by (rule sorted_set_cong) simp

lemma sorted_set_append:
  assumes "\<And>x y. x \<in> set xs \<Longrightarrow> y \<in> set ys \<Longrightarrow> x < y"
  shows "sorted_set (xs @ ys) = sorted_set xs @ sorted_set ys"
proof (rule sorted_distinct_set_unique)
  show "sorted (sorted_set xs @ sorted_set ys)"
    using assms by (auto simp: sorted_append intro: less_imp_le)
  show "distinct (sorted_set xs @ sorted_set ys)" using assms by fastforce
qed simp_all

text \<open>History is append-only: later arrivals extend a replay and never revise it.\<close>

lemma replay_extends:
  assumes ok: "stream_ok p es as" and ok2: "stream_ok p (es @ fs) (as @ bs)" and exp: "exp2_contract rt"
    and later: "\<And>x y. x \<in> set (boundaries es as) \<Longrightarrow> y \<in> set (boundaries fs bs) \<Longrightarrow> x < y"
  shows "\<exists>rs ss. replay rt p es as = Inr rs \<and> replay rt p (es @ fs) (as @ bs) = Inr (rs @ ss)"
proof -
  have b: "boundaries (es @ fs) (as @ bs) = boundaries es as @ boundaries fs bs"
  proof -
    have "boundaries (es @ fs) (as @ bs) = sorted_set (boundaries es as @ boundaries fs bs)"
      unfolding boundaries_def by (rule sorted_set_cong) auto
    also have "\<dots> = sorted_set (boundaries es as) @ sorted_set (boundaries fs bs)"
      using later by (rule sorted_set_append)
    also have "\<dots> = boundaries es as @ boundaries fs bs"
      by (simp only: boundaries_def sorted_set_idem)
    finally show ?thesis .
  qed
  obtain rs where rs: "replay rt p es as = Inr rs" using replay_snapshots [OF ok exp] by blast
  obtain qs where qs: "replay rt p (es @ fs) (as @ bs) = Inr qs" using replay_snapshots [OF ok2 exp] by blast
  have same: "snapshot rt p (es @ fs) (as @ bs) t = snapshot rt p es as t" if t: "t \<in> set (boundaries es as)" for t
  proof -
    have "y \<notin> set (boundaries fs bs)" if "y \<le> t" for y using later [OF t, of y] that by auto
    then have "known_events t fs = []" "known_adjudications t bs = []"
      by (auto simp: boundaries_def known_events_def known_adjudications_def filter_empty_conv)
    then show ?thesis by (simp add: snapshot_def known_events_def known_adjudications_def)
  qed
  have "rmap (snapshot rt p (es @ fs) (as @ bs)) (boundaries es as) = Inr rs"
    using rs unfolding replay_eq [OF ok exp] by (subst rmap_cong [OF refl same]) simp_all
  moreover have "list_all2 (\<lambda>t r. snapshot rt p (es @ fs) (as @ bs) t = Inr r) (boundaries es as @ boundaries fs bs) qs"
    using qs unfolding replay_eq [OF ok2 exp] b rmap_Inr_iff .
  then obtain q1 q2 where q: "qs = q1 @ q2"
    "list_all2 (\<lambda>t r. snapshot rt p (es @ fs) (as @ bs) t = Inr r) (boundaries es as) q1"
    by (auto simp: list_all2_append1)
  ultimately have "q1 = rs" by (simp add: rmap_Inr_iff [symmetric])
  with rs qs q(1) show ?thesis by blast
qed

end
