(* ===== verification/Samples.thy ===== *)
theory Samples
  imports Evaluation
begin

text \<open>
  Concrete inputs at which the properties are applied: a runtime whose functions satisfy the documented
  contracts (a reader of the canonical timestamp format proved to invert it, a float spelling, a
  digest, a power of two), a policy, and event streams.
\<close>

subsection \<open>Reading back the canonical timestamp\<close>

text \<open>CPython's \<open>_ymd2ord\<close> with day 1 of year 1 as day number 0.\<close>

definition leap_year :: "int \<Rightarrow> bool" where
  "leap_year y \<longleftrightarrow> y mod 4 = 0 \<and> (y mod 100 \<noteq> 0 \<or> y mod 400 = 0)"

definition ymd2ord :: "int \<Rightarrow> int \<Rightarrow> int \<Rightarrow> int" where
  "ymd2ord y m d =
     (let p = y - 1 in p * 365 + p div 4 - p div 100 + p div 400
        + days_before_month ! nat (m - 1) + (if m > 2 \<and> leap_year y then 1 else 0) + d - 1)"

definition month_of :: "bool \<Rightarrow> int \<Rightarrow> int" where
  "month_of leap n =
     (let guess = (n + 50) div 32
      in if days_before_month ! nat (guess - 1) + (if guess > 2 \<and> leap then 1 else 0) > n
         then guess - 1 else guess)"

definition month_day_ok :: "bool \<Rightarrow> int \<Rightarrow> bool" where
  "month_day_ok leap n \<longleftrightarrow>
     (let m = month_of leap n;
          b = days_before_month ! nat (m - 1) + (if m > 2 \<and> leap then 1 else 0)
      in 1 \<le> m \<and> m \<le> 12 \<and> b \<le> n \<and> n - b < 31)"

lemma month_day:
  assumes "0 \<le> n" "n \<le> 364 \<or> (leap \<and> n = 365)"
  shows "month_day_ok leap n"
proof -
  define g where "g = (n + 50) div 32"
  have b: "32 * g \<le> n + 50" "n + 50 < 32 * g + 32" unfolding g_def by linarith+
  then have "1 \<le> g" "g \<le> 12" using assms by linarith+
  then have "g = 1 \<or> g = 2 \<or> g = 3 \<or> g = 4 \<or> g = 5 \<or> g = 6 \<or> g = 7 \<or> g = 8 \<or> g = 9 \<or> g = 10 \<or> g = 11 \<or> g = 12"
    by presburger
  then show ?thesis
    unfolding month_day_ok_def month_of_def g_def [symmetric] Let_def
    using b assms by (elim disjE) (auto simp: days_before_month_def)
qed

text \<open>The cycles of the Gregorian calendar.\<close>

lemma cycles:
  fixes a b c d :: int
  assumes "0 \<le> b" "b \<le> 3" "0 \<le> c" "c \<le> 24" "0 \<le> d" "d \<le> 3"
  defines "p \<equiv> a * 400 + b * 100 + c * 4 + d"
  shows "p div 4 = a * 100 + b * 25 + c" "p div 100 = a * 4 + b" "p div 400 = a"
    "leap_year (p + 1) \<longleftrightarrow> d = 3 \<and> (c \<noteq> 24 \<or> b = 3)"
proof -
  show p4: "p div 4 = a * 100 + b * 25 + c" "p div 100 = a * 4 + b" "p div 400 = a"
  proof -
    show "p div 4 = a * 100 + b * 25 + c"
      using assms(1-6) by (intro int_div_pos_eq [where r = d]) (simp_all add: p_def)
    show "p div 100 = a * 4 + b"
      using assms(1-6) by (intro int_div_pos_eq [where r = "c * 4 + d"]) (simp_all add: p_def)
    show "p div 400 = a"
      using assms(1-6) by (intro int_div_pos_eq [where r = "b * 100 + c * 4 + d"]) (simp_all add: p_def)
  qed
  have m: "(p + 1) mod 4 = (d + 1) mod 4" "(p + 1) mod 100 = (c * 4 + d + 1) mod 100"
    "(p + 1) mod 400 = (b * 100 + c * 4 + d + 1) mod 400"
  proof -
    have "p + 1 = (d + 1) + 4 * (a * 100 + b * 25 + c)" by (simp add: p_def)
    then show "(p + 1) mod 4 = (d + 1) mod 4" by (simp only: mod_mult_self2)
    have "p + 1 = (c * 4 + d + 1) + 100 * (a * 4 + b)" by (simp add: p_def)
    then show "(p + 1) mod 100 = (c * 4 + d + 1) mod 100" by (simp only: mod_mult_self2)
    have "p + 1 = (b * 100 + c * 4 + d + 1) + 400 * a" by (simp add: p_def)
    then show "(p + 1) mod 400 = (b * 100 + c * 4 + d + 1) mod 400" by (simp only: mod_mult_self2)
  qed
  have small: "x mod k = 0 \<longleftrightarrow> x = k" if "0 < x" "x \<le> k" for x k :: int
    using that by (cases "x = k") simp_all
  have "(p + 1) mod 4 = 0 \<longleftrightarrow> d = 3" "(p + 1) mod 100 = 0 \<longleftrightarrow> d = 3 \<and> c = 24"
    "(p + 1) mod 400 = 0 \<longleftrightarrow> d = 3 \<and> c = 24 \<and> b = 3"
    using assms(1-6) unfolding m by (subst small; linarith | force)+
  then show "leap_year (p + 1) \<longleftrightarrow> d = 3 \<and> (c \<noteq> 24 \<or> b = 3)" unfolding leap_year_def by auto
qed

lemma ord2ymd_inverse:
  assumes "0 \<le> n" "ord2ymd n = (y, m, d)"
  shows "ymd2ord y m d = n \<and> 1 \<le> m \<and> m \<le> 12 \<and> 1 \<le> d \<and> d \<le> 31 \<and> 1 \<le> y \<and> (n < 3652059 \<longrightarrow> y \<le> 9999)"
proof -
  define a where "a = n div 146097"
  define ra where "ra = n mod 146097"
  define b where "b = ra div 36524"
  define rb where "rb = ra mod 36524"
  define c where "c = rb div 1461"
  define rc where "rc = rb mod 1461"
  define e where "e = rc div 365"
  define r where "r = rc mod 365"
  have n: "n = a * 146097 + b * 36524 + c * 1461 + e * 365 + r"
  proof -
    have "n = a * 146097 + ra" "ra = b * 36524 + rb" "rb = c * 1461 + rc" "rc = e * 365 + r"
      by (simp_all add: a_def ra_def b_def rb_def c_def rc_def e_def r_def)
    then show ?thesis by linarith
  qed
  have ra: "0 \<le> ra" "ra < 146097" unfolding ra_def by simp_all
  have rb: "0 \<le> rb" "rb < 36524" "ra = b * 36524 + rb" unfolding b_def rb_def by simp_all
  have rc: "0 \<le> rc" "rc < 1461" "rb = c * 1461 + rc" unfolding c_def rc_def by simp_all
  have r: "0 \<le> r" "r < 365" "rc = e * 365 + r" unfolding e_def r_def by simp_all
  have a0: "0 \<le> a" using assms(1) unfolding a_def by simp
  have b: "0 \<le> b" "b \<le> 4" "b = 4 \<longrightarrow> rb = 0" using ra rb by linarith+
  have c: "0 \<le> c" "c \<le> 24" using rb rc by linarith+
  have e: "0 \<le> e" "e \<le> 4" "e = 4 \<longrightarrow> r = 0" using rc r by linarith+
  have yb: "n < 3652059 \<Longrightarrow> a \<le> 24" using n b c e r by linarith
  have cr: "c = 24 \<Longrightarrow> b < 4 \<Longrightarrow> rc < 1461 - 1" using rb rc by linarith
  have eq: "ord2ymd n =
      (if e = 4 \<or> b = 4 then (a * 400 + b * 100 + c * 4 + e, 12, 31)
       else let leap = (e = 3 \<and> (c \<noteq> 24 \<or> b = 3)); mo = month_of leap r
            in (a * 400 + 1 + b * 100 + c * 4 + e, mo,
                r - (days_before_month ! nat (mo - 1) + (if mo > 2 \<and> leap then 1 else 0)) + 1))"
    unfolding ord2ymd_def a_def ra_def b_def rb_def c_def rc_def e_def r_def Let_def month_of_def
    by (rule if_cong [OF refl]) (simp, rule refl)
  show ?thesis
  proof (cases "e = 4 \<or> b = 4")
    case True
    then have ymd: "y = a * 400 + b * 100 + c * 4 + e" "m = 12" "d = 31" using assms(2) eq by simp_all
    have y1: "1 \<le> y" using True a0 b c e ymd by linarith
    show ?thesis
    proof (cases "b = 4")
      case b4: True
      then have z: "rb = 0" "c = 0" "e = 0" "r = 0" using b rc r c e unfolding c_def rc_def e_def r_def by auto
      then have y: "y - 1 = a * 400 + 3 * 100 + 24 * 4 + 3" "y = (a * 400 + 3 * 100 + 24 * 4 + 3) + 1"
        using ymd b4 by linarith+
      have "leap_year y" using cycles(4) [of 3 24 3 a] y(2) by simp
      then have "ymd2ord y m d = n"
        unfolding ymd2ord_def Let_def y(1) using cycles(1-3) [of 3 24 3 a] n z b4 ymd
        by (simp add: days_before_month_def)
      moreover have "n < 3652059 \<longrightarrow> y \<le> 9999" using n z b4 ymd a0 by linarith
      ultimately show ?thesis using ymd y1 by simp
    next
      case False
      then have e4: "e = 4" "b \<le> 3" "r = 0" using True b e by auto
      have "\<not> c = 24 \<or> b = 3" using cr e4 r False b rb rc ra by linarith
      moreover have y: "y - 1 = a * 400 + b * 100 + c * 4 + 3" "y = (a * 400 + b * 100 + c * 4 + 3) + 1"
        using ymd e4 by linarith+
      ultimately have "leap_year y" using cycles(4) [of b c 3 a] y(2) b c e4 by auto
      then have "ymd2ord y m d = n"
        unfolding ymd2ord_def Let_def y(1) using cycles(1-3) [of b c 3 a] n e4 b c ymd
        by (simp add: days_before_month_def)
      moreover have "n < 3652059 \<longrightarrow> y \<le> 9999" using n e4 b c ymd a0 by linarith
      ultimately show ?thesis using ymd y1 by simp
    qed
  next
    case False
    define leap where "leap \<longleftrightarrow> e = 3 \<and> (c \<noteq> 24 \<or> b = 3)"
    have be: "b \<le> 3" "e \<le> 3" using False b e by linarith+
    have mok: "month_day_ok leap r"
    proof (rule month_day)
      show "0 \<le> r" "r \<le> 364 \<or> leap \<and> r = 365" using r by auto
    qed
    have ymd: "y = a * 400 + 1 + b * 100 + c * 4 + e" "m = month_of leap r"
      "d = r - (days_before_month ! nat (m - 1) + (if m > 2 \<and> leap then 1 else 0)) + 1"
      using assms(2) eq False by (auto simp: Let_def leap_def)
    have y: "y - 1 = a * 400 + b * 100 + c * 4 + e" "y = (a * 400 + b * 100 + c * 4 + e) + 1"
      using ymd by linarith+
    have "leap_year y = leap" using cycles(4) [of b c e a] y(2) b c e be unfolding leap_def by simp
    then have "ymd2ord y m d = n"
      unfolding ymd2ord_def Let_def y(1) using cycles(1-3) [of b c e a] n b c e be ymd(3) by simp
    moreover have "1 \<le> m \<and> m \<le> 12 \<and> 1 \<le> d \<and> d \<le> 31"
      using mok unfolding month_day_ok_def Let_def ymd(2) [symmetric] using ymd(3) by auto
    moreover have "n < 3652059 \<longrightarrow> y \<le> 9999" "1 \<le> y" using n ymd(1) a0 b c e be r by linarith+
    ultimately show ?thesis by simp
  qed
qed

lemma digits_of_length: "0 \<le> i \<Longrightarrow> i < 10 ^ n \<Longrightarrow> 0 < n \<Longrightarrow> length (digits_of i) \<le> n"
proof (induction n arbitrary: i)
  case (Suc n)
  show ?case
  proof (cases "i < 10")
    case True
    then show ?thesis by (simp add: digits_of.simps [of i])
  next
    case False
    have "i div 10 < 10 ^ n" using Suc.prems(2) by (simp add: div_less_iff_less_mult ac_simps)
    moreover have "0 < n" using False Suc.prems(2) by (cases n) auto
    ultimately have "length (digits_of (i div 10)) \<le> n" using Suc.IH [of "i div 10"] Suc.prems(1) by simp
    then show ?thesis using False by (simp add: digits_of.simps [of i])
  qed
qed simp

lemma pad_length: "0 \<le> i \<Longrightarrow> i < 10 ^ n \<Longrightarrow> 0 < n \<Longrightarrow> length (pad n i) = n"
  using digits_of_length [of i n] by (simp add: pad_def Let_def)

lemma digits_val_pad: "0 \<le> i \<Longrightarrow> digits_val (pad n i) = i"
proof -
  assume i: "0 \<le> i"
  have "digits_val (replicate k 48 @ s) = digits_val s" for k s
    by (induction k) (simp_all add: digits_val_def)
  then show ?thesis using i by (simp add: pad_def Let_def digits_val_digits_of)
qed

text \<open>The fields of a canonical timestamp by position; the result is checked against the spelling.\<close>

definition field :: "nat \<Rightarrow> nat \<Rightarrow> ustr \<Rightarrow> int" where
  "field i n s = digits_val (take n (drop i s))"

definition read_iso :: "ustr \<Rightarrow> (int \<times> int option) option" where
  "read_iso s =
     (let day = ymd2ord (field 0 4 s) (field 5 2 s) (field 8 2 s);
          sec = field 11 2 s * 3600 + field 14 2 s * 60 + field 17 2 s;
          frac = (if length s = 32 then field 20 6 s else 0);
          t = day * (86400 * 10 ^ 6) + sec * 10 ^ 6 + frac
      in if valid_instant t \<and> s = iso_base t @ U ''+00:00'' then Some (t, Some 0) else None)"

lemma field_simps:
  "length p = i \<Longrightarrow> field (i + j) n (p @ s) = field j n s"
  "length p = n \<Longrightarrow> field 0 n (p @ s) = digits_val p"
  by (simp_all add: field_def)

lemma read_iso_base:
  assumes "valid_instant t"
  shows "read_iso (iso_base t @ U ''+00:00'') = Some (t, Some 0)"
proof -
  define n where "n = t div (86400 * 10 ^ 6)"
  define us where "us = t mod (86400 * 10 ^ 6)"
  define sec where "sec = us div 10 ^ 6"
  define frac where "frac = us mod 10 ^ 6"
  obtain y m d where ymd: "ord2ymd n = (y, m, d)" by (metis prod.exhaust)
  have t: "t = n * (86400 * 10 ^ 6) + sec * 10 ^ 6 + frac" "0 \<le> n" "n < 3652059"
    "0 \<le> sec" "sec < 86400" "0 \<le> frac" "frac < 10 ^ 6"
    using assms unfolding n_def us_def sec_def frac_def valid_instant_def max_instant_def
    by (simp_all add: pos_imp_zdiv_nonneg_iff div_less_iff_less_mult) linarith+
  note inv = ord2ymd_inverse [OF t(2) ymd]
  define A where "A = pad 4 y" define B where "B = pad 2 m" define C where "C = pad 2 d"
  define H where "H = pad 2 (sec div 3600)" define M where "M = pad 2 (sec div 60 mod 60)"
  define S where "S = pad 2 (sec mod 60)" define F where "F = pad 6 frac"
  have len: "length A = 4" "length B = 2" "length C = 2" "length H = 2" "length M = 2" "length S = 2" "length F = 6"
    unfolding A_def B_def C_def H_def M_def S_def F_def using inv t
    by (intro pad_length; simp; fail)+
  have val: "digits_val A = y" "digits_val B = m" "digits_val C = d" "digits_val H = sec div 3600"
    "digits_val M = sec div 60 mod 60" "digits_val S = sec mod 60" "digits_val F = frac"
    unfolding A_def B_def C_def H_def M_def S_def F_def using inv t
    by (intro digits_val_pad; simp; fail)+
  define tl where "tl = (if frac = 0 then [] else 46 # F) @ U ''+00:00''"
  have s: "iso_base t @ U ''+00:00'' = A @ 45 # B @ 45 # C @ 84 # H @ 58 # M @ 58 # S @ tl"
    unfolding iso_base_def Let_def n_def [symmetric] us_def [symmetric] ymd sec_def [symmetric] frac_def [symmetric]
      tl_def A_def B_def C_def H_def M_def S_def F_def by simp
  let ?s = "A @ 45 # B @ 45 # C @ 84 # H @ 58 # M @ 58 # S @ tl"
  have f: "field 0 4 ?s = y" "field 5 2 ?s = m" "field 8 2 ?s = d" "field 11 2 ?s = sec div 3600"
    "field 14 2 ?s = sec div 60 mod 60" "field 17 2 ?s = sec mod 60"
    using len val by (simp_all add: field_def)
  have fr: "(if length ?s = 32 then field 20 6 ?s else 0) = frac"
    using len val by (auto simp: tl_def field_def)
  have "sec div 3600 = sec div 60 div 60" using zdiv_zmult2_eq [of 60 sec 60] by simp
  moreover have "sec = 60 * (sec div 60) + sec mod 60"
    "sec div 60 = 60 * (sec div 60 div 60) + sec div 60 mod 60" by simp_all
  ultimately have "sec div 3600 * 3600 + sec div 60 mod 60 * 60 + sec mod 60 = sec" by linarith
  then have "read_iso ?s = (if valid_instant t \<and> ?s = iso_base t @ U ''+00:00'' then Some (t, Some 0) else None)"
    unfolding read_iso_def Let_def f fr using inv t(1) by simp
  then show ?thesis using s assms by simp
qed

subsection \<open>A runtime that meets the contracts\<close>

text \<open>A float as an exact decimal: the denominator of a double is a power of two, and \<open>p / 2 ^ k = (p * 5 ^ k) / 10 ^ k\<close>.\<close>

definition spell_float :: "rat \<Rightarrow> ustr" where
  "spell_float x =
     (let (p, q) = quotient_of x; k = bit_length q - 1 in int_str (p * 5 ^ k) @ U ''e-'' @ digits_of (int k))"

lemma spell_float_parts:
  "spell_float x = int_str (fst (quotient_of x) * 5 ^ (bit_length (snd (quotient_of x)) - 1))
     @ [101, 45] @ digits_of (int (bit_length (snd (quotient_of x)) - 1))"
  by (simp add: spell_float_def case_prod_beta Let_def U_def)

lemma dvd_power_of_two: "0 < q \<Longrightarrow> q dvd 2 ^ n \<Longrightarrow> \<exists>k. q = (2 ^ k :: int)"
proof (induction n arbitrary: q)
  case (Suc n)
  show ?case
  proof (cases "even q")
    case True
    then obtain r where r: "q = 2 * r" by blast
    with Suc.prems have "0 < r" "r dvd 2 ^ n" by simp_all
    with Suc.IH obtain k where "r = 2 ^ k" by blast
    with r show ?thesis by (intro exI [of _ "Suc k"]) simp
  next
    case False
    then have "coprime q 2" by (simp add: coprime_right_2_iff_odd)
    with Suc.prems have "q dvd 2 ^ n" by (simp add: coprime_dvd_mult_right_iff)
    with Suc show ?thesis by blast
  qed
qed (auto intro: exI [of _ 0])

lemma double_denominator:
  assumes "is_double x"
  obtains k where "snd (quotient_of x) = 2 ^ k"
proof -
  obtain p q where pq: "quotient_of x = (p, q)" by fastforce
  note x = quotient_of_div [OF pq] and pos = quotient_of_denom_pos [OF pq] and cop = quotient_of_coprime [OF pq]
  have "q dvd 2 ^ n" if "x = of_int m / 2 ^ n" for m n
  proof -
    have "of_int p / of_int q = (of_int m / 2 ^ n :: rat)" using that x by simp
    then have "of_int (p * 2 ^ n) = (of_int (m * q) :: rat)" using pos by (simp add: frac_eq_eq)
    then have "p * 2 ^ n = m * q" by (simp only: of_int_eq_iff)
    then have "q dvd p * 2 ^ n" by simp
    with cop show ?thesis by (simp add: coprime_commute coprime_dvd_mult_right_iff)
  qed
  moreover have "\<exists>m n. x = of_int m / 2 ^ n"
  proof -
    have "x = fl x" using assms by (simp add: is_double_def)
    also have "\<exists>m e. fl x = of_int m * 2 powi e"
      by (cases "x = 0") (auto simp: fl_def Let_def intro: exI [of _ 0])
    finally obtain m e where me: "x = of_int m * 2 powi e" by blast
    show ?thesis
    proof (cases "0 \<le> e")
      case True
      then have "x = of_int (m * 2 ^ nat e) / 2 ^ 0" using me by (simp add: power_int_def)
      then show ?thesis by blast
    next
      case False
      then have "(2::rat) powi e = inverse (2 ^ nat (- e))" by (simp only: power_int_def power_inverse if_False)
      then have "x = of_int m / 2 ^ nat (- e)" using me by (simp only: divide_inverse)
      then show ?thesis by blast
    qed
  qed
  ultimately have "\<exists>n. q dvd 2 ^ n" by blast
  then obtain k where "q = 2 ^ k" using dvd_power_of_two pos by blast
  with pq that show thesis by simp
qed

lemma bit_length_power: "bit_length (2 ^ k) = Suc k"
proof (induction k)
  case 0
  then show ?case by (simp add: bit_length.simps)
next
  case (Suc k)
  then show ?case by (simp add: bit_length.simps [of "2 * 2 ^ k"])
qed

lemma spell_double:
  assumes "is_double x"
  obtains m k where "spell_float x = int_str m @ [101, 45] @ digits_of (int k)" "x = of_int m / 10 ^ k"
proof -
  obtain k where k: "snd (quotient_of x) = 2 ^ k" by (rule double_denominator [OF assms])
  obtain p where p: "quotient_of x = (p, 2 ^ k)" using k by (metis prod.collapse)
  have "spell_float x = int_str (p * 5 ^ k) @ [101, 45] @ digits_of (int k)"
    by (simp add: spell_float_parts p bit_length_power)
  moreover have "x = of_int (p * 5 ^ k) / 10 ^ k"
  proof -
    have "(10::rat) ^ k = 5 ^ k * 2 ^ k" by (simp flip: power_mult_distrib)
    then show ?thesis using quotient_of_div [OF p] by simp
  qed
  ultimately show thesis by (rule that)
qed

text \<open>The last thirty-two bytes, last first, in hexadecimal: enough to tell the sample documents apart.\<close>

definition hex_pair :: "nat \<Rightarrow> ustr" where
  "hex_pair b = [hex_char (b div 16 mod 16), hex_char (b mod 16)]"

definition sample_hash :: "bytes \<Rightarrow> ustr" where
  "sample_hash b = concat (map hex_pair (take 32 (rev b @ replicate 32 0)))"

definition sample_runtime :: runtime where
  "sample_runtime = \<lparr>rt_sha256 = sample_hash, rt_repr = spell_float,
     rt_fromiso = read_iso, rt_exp2 = (\<lambda>x. if - 1 < x then 1 else if - 2 < x then 1 / 2 else 0)\<rparr>"

lemma sample_iso: "iso_contract sample_runtime"
  by (simp add: iso_contract_def sample_runtime_def read_iso_base)

lemma sample_exp2: "exp2_contract sample_runtime"
proof -
  have "is_double (1 / 2)" using is_double_powi [of "- 1"] by (simp add: power_int_def)
  then show ?thesis by (simp add: exp2_contract_def sample_runtime_def)
qed

lemma hex_pairs_ok: "length (concat (map hex_pair bs)) = 2 * length bs \<and> list_all hex_digit (concat (map hex_pair bs))"
proof (induction bs)
  case (Cons b bs)
  have "hex_digit (hex_char (c mod 16))" for c
    using mod_less_divisor [of 16 c] by (auto simp: hex_char_def hex_digit_def simp del: mod_less_divisor)
  with Cons show ?case by (simp add: hex_pair_def)
qed simp

lemma sample_hash_is_hash: "is_hash (sample_hash b)"
  using hex_pairs_ok [of "take 32 (rev b @ replicate 32 0)"] by (simp add: is_hash_def sample_hash_def)

lemma sample_hex: "sha256_hex sample_runtime"
  by (simp add: sha256_hex_def sample_runtime_def sample_hash_is_hash)

lemma hex_pair_inj:
  assumes "b < 256" "c < 256" "hex_pair b = hex_pair c"
  shows "b = c"
proof -
  have inj: "i = j" if "i < 16" "j < 16" "hex_char i = hex_char j" for i j
    using that by (auto simp: hex_char_def split: if_splits)
  have "b div 16 mod 16 = c div 16 mod 16" "b mod 16 = c mod 16"
    using assms(3) by (auto simp: hex_pair_def intro!: inj)
  then have "b div 16 = c div 16" using assms(1,2) by simp
  with \<open>b mod 16 = c mod 16\<close> show ?thesis by (metis div_mult_mod_eq)
qed

lemma hex_pairs_inj:
  "length bs = length cs \<Longrightarrow> list_all (\<lambda>b. b < 256) bs \<Longrightarrow> list_all (\<lambda>b. b < 256) cs
    \<Longrightarrow> concat (map hex_pair bs) @ xs = concat (map hex_pair cs) @ ys \<Longrightarrow> bs = cs"
proof (induction bs cs rule: list_induct2)
  case (Cons b bs c cs)
  have len: "length (hex_pair b) = length (hex_pair c)" by (simp add: hex_pair_def)
  then have "hex_pair b = hex_pair c" "concat (map hex_pair bs) @ xs = concat (map hex_pair cs) @ ys"
    using Cons.prems(3) by (simp_all add: append_eq_append_conv)
  then show ?case using Cons hex_pair_inj [of b c] by simp
qed simp

text \<open>Documents with the same digest have the same last bytes.\<close>

lemma sample_hash_suffix:
  assumes "sample_hash (x @ s) = sample_hash (y @ t)" "length s = length t" "length s \<le> 32"
    and "list_all (\<lambda>b. b < 256) s" "list_all (\<lambda>b. b < 256) t"
  shows "s = t"
proof -
  have split: "sample_hash (z @ u) = concat (map hex_pair (rev u)) @ concat (map hex_pair (take (32 - length u) (rev z @ replicate 32 0)))"
    if "length u \<le> 32" for z u
    using that by (simp add: sample_hash_def)
  have "rev s = rev t"
    by (rule hex_pairs_inj) (use assms split [of s x] split [of t y] in auto)
  then show ?thesis by simp
qed

lemma sample_repr: "repr_contract sample_runtime"
proof -
  have dig: "list_all numeric_char (digits_of n)" for n
    using digits_of_chars [of n] by (auto simp: list_all_iff numeric_char_def)
  have nc: "list_all numeric_char (spell_float q)" for q
    using int_token(1) dig by (simp add: spell_float_parts numeric_char_def)
  have hd: "spell_float q \<noteq> [] \<and> (hd (spell_float q) = 45 \<or> 48 \<le> hd (spell_float q) \<and> hd (spell_float q) \<le> 57)" for q
    using int_str_hd [of "fst (quotient_of q) * 5 ^ (bit_length (snd (quotient_of q)) - 1)"] by (simp add: spell_float_parts)
  have e: "101 \<in> set (spell_float q)" for q by (simp add: spell_float_parts)
  have nz: "spell_float q \<noteq> [45, 48, 46, 48]" for q
  proof
    assume "spell_float q = [45, 48, 46, 48]"
    with e [of q] show False by simp
  qed
  have inj: "x = y" if same: "spell_float x = spell_float y" and dx: "is_double x" and dy: "is_double y" for x y
  proof -
    obtain m k where x: "spell_float x = int_str m @ [101, 45] @ digits_of (int k)" "x = of_int m / 10 ^ k"
      by (rule spell_double [OF dx])
    obtain n l where y: "spell_float y = int_str n @ [101, 45] @ digits_of (int l)" "y = of_int n / 10 ^ l"
      by (rule spell_double [OF dy])
    have ns: "101 \<notin> set (digits_of i)" for i using digits_of_chars [of i] by (auto simp: list_all_iff)
    have "int_str m @ 101 # 45 # digits_of (int k) = int_str n @ 101 # 45 # digits_of (int l)" using same x y by simp
    then have "int_str m = int_str n \<and> 45 # digits_of (int k) = 45 # digits_of (int l)"
      by (rule append_Cons_eq_iff [THEN iffD1, rotated 2]) (use ns int_token(3) in simp_all)
    then show ?thesis using int_str_inj [of m n] digits_of_inj [of "int k" "int l"] x(2) y(2) by simp
  qed
  show ?thesis
    unfolding repr_contract_def sample_runtime_def runtime.simps
  proof (intro conjI allI impI)
    show "spell_float x \<noteq> []" "list_all numeric_char (spell_float x)" "hd (spell_float x) \<noteq> 43"
      "hd (spell_float x) \<noteq> 46" "hd (spell_float x) \<noteq> 101" "spell_float x \<noteq> [45, 48, 46, 48]" for x
      using nc [of x] hd [of x] nz [of x] by auto
    show "46 \<in> set (spell_float x) \<or> 101 \<in> set (spell_float x)" for x using e [of x] by blast
    show "x = y" if "is_double x" "is_double y" "spell_float x = spell_float y" for x y using inj that by blast
  qed
qed

subsection \<open>A policy and a stream\<close>

definition sample_rule :: claim_rule where
  "sample_rule = \<lparr>support_threshold = 1 / 2, contradiction_threshold = 1 / 2, min_margin = 1 / 4, quorum = 2,
     min_sources = 2, min_modalities = 2, min_evidence_confidence = 1 / 4, required_modalities = [U ''vision'']\<rparr>"

definition sample_policy :: policy where
  "sample_policy = \<lparr>policy_id = U ''plant-7'', default_source_reliability = 1 / 2,
     sources = [(U ''cam'', 1), (U ''mic'', 1 / 2)],
     decay = \<lparr>default_half_life = 3600, modality_half_life = [(AUDIO, 600)], max_future_skew = 2\<rparr>,
     claims = [(U ''fire'', sample_rule)],
     reliability_updates = Some \<lparr>prior_weight = 4, max_adjustment = 1 / 4\<rparr>, source_schema_version = 2\<rparr>"

definition sample_event :: "string \<Rightarrow> modality \<Rightarrow> string \<Rightarrow> signal \<Rightarrow> rat \<Rightarrow> int \<Rightarrow> string option \<Rightarrow> evidence_event" where
  "sample_event i m s g q t grp = \<lparr>ev_id = U i, ev_claim = U ''fire'', ev_modality = m, ev_source = U s,
     ev_signal = g, ev_confidence = q, ev_observed_at = t, ev_ingested_at = t + 1000000,
     ev_group = map_option U grp, ev_attributes = JObj []\<rparr>"

definition sample_events :: "evidence_event list" where
  "sample_events = [sample_event ''e1'' VISION ''cam'' SUPPORT (3 / 4) 1000000 None,
     sample_event ''e2'' AUDIO ''mic'' SUPPORT 1 2000000 (Some ''hall''),
     sample_event ''e3'' AUDIO ''mic'' SUPPORT (1 / 2) 3000000 (Some ''hall'')]"

definition sample_late_events :: "evidence_event list" where
  "sample_late_events = [sample_event ''e4'' VISION ''cam'' CONTRADICT (1 / 4) 9000000 None]"

definition sample_adjudications :: "adjudication list" where
  "sample_adjudications = [\<lparr>adj_event_id = U ''e2'', adj_source = U ''mic'', adj_verdict = CORRECT, adj_at = 5000000\<rparr>]"

lemma sample_texts: "text_ok (U ''plant-7'')" "text_ok (U ''cam'')" "text_ok (U ''mic'')" "text_ok (U ''fire'')"
  "text_ok (U ''hall'')" "text_ok (U ''e1'')" "text_ok (U ''e2'')" "text_ok (U ''e3'')" "text_ok (U ''e4'')"
  by (rule text_ok_visible_ascii; code_simp)+

lemma sample_doubles: "is_double (1 / 2)" "is_double (3 / 4)" "is_double (1 / 4)" "is_double 4" "is_double 2"
  "is_double 600" "is_double 3600" "min_positive \<le> 600" "min_positive \<le> 3600" "min_positive \<le> 4"
  unfolding is_double_def by code_simp+

lemma sample_policy_ok: "policy_ok sample_policy" "distinct (map fst (claims sample_policy))"
  by (simp_all add: sample_policy_def policy_ok_def decay_ok_def update_ok_def rule_ok_def sample_rule_def
      sample_texts sample_doubles)

lemma frozen_empty: "frozen (JObj [])"
  by (simp add: frozen_def freeze.simps max_attribute_nodes_def max_attribute_depth_def)

lemma sample_event_ok:
  assumes "text_ok (U i)" "text_ok (U s)" "0 \<le> q" "q \<le> 1" "is_double q" "0 \<le> t" "t \<le> 10 ^ 9"
    "case grp of None \<Rightarrow> True | Some g \<Rightarrow> text_ok (U g)"
  shows "event_ok (sample_event i m s g q t grp)"
  using assms sample_texts
  by (auto simp: sample_event_def event_ok_def valid_instant_def max_instant_def frozen_empty split: option.splits)

lemma sample_stream_ok:
  "stream_ok sample_policy (sample_events @ sample_late_events) sample_adjudications"
  "stream_ok sample_policy sample_events sample_adjudications"
proof -
  have ev: "\<forall>e \<in> set (sample_events @ sample_late_events). event_ok e"
    by (simp add: sample_events_def sample_late_events_def sample_event_ok sample_texts sample_doubles)
  have adj: "\<forall>a \<in> set sample_adjudications. adjudication_ok a"
    by (simp add: sample_adjudications_def adjudication_ok_def sample_texts valid_instant_def max_instant_def)
  have sk: "total_seconds (- 1000000) \<le> 2" by code_simp
  have set: "validate_event_set sample_policy (sample_events @ sample_late_events) = Inr (sample_events @ sample_late_events)"
    "validate_event_set sample_policy sample_events = Inr sample_events"
    using sk by (simp_all add: validate_event_set_Inr sample_events_def sample_late_events_def sample_event_def sample_policy_def)
  have vad: "validate_adjudication_set sample_policy (sample_events @ sample_late_events) sample_adjudications = Inr sample_adjudications"
    "validate_adjudication_set sample_policy sample_events sample_adjudications = Inr sample_adjudications"
    by (simp_all add: validate_adjudication_set_Inr sample_events_def sample_late_events_def sample_event_def sample_policy_def
        sample_adjudications_def adjudication_mismatched_def adjudication_premature_def event_of_adjudication_def)
  have big: "int (length (sample_events @ sample_late_events)) \<le> max_attribute_integer"
    "int (length sample_events) \<le> max_attribute_integer" "int (length sample_adjudications) \<le> max_attribute_integer"
    by (rule small_count; simp add: sample_events_def sample_late_events_def sample_adjudications_def)+
  show "stream_ok sample_policy (sample_events @ sample_late_events) sample_adjudications"
    "stream_ok sample_policy sample_events sample_adjudications"
    using ev adj set vad big sample_policy_ok by (simp_all add: stream_ok_def)
qed

end
