(* ===== verification/Sample_Evaluation.thy ===== *)
theory Sample_Evaluation
  imports Samples
begin

text \<open>
  An evaluation computed step by step: on the sample stream, at six seconds and without adjudications, two
  independent groups support the claim and it escalates.
\<close>

definition sample_weight :: "evidence_event \<Rightarrow> rat \<Rightarrow> rat \<Rightarrow> rat \<Rightarrow> weighted_event" where
  "sample_weight e age rel eff =
     \<lparr>we_event = e, we_age = age, we_reliability = rel, we_decay = 1, we_effective = eff\<rparr>"

definition sample_weights :: "weighted_event list" where
  "sample_weights = [sample_weight (sample_events ! 0) 5 1 (3 / 4), sample_weight (sample_events ! 1) 4 (1 / 2) (1 / 2),
     sample_weight (sample_events ! 2) 3 (1 / 2) (1 / 4)]"

lemma sample_stream_unjudged: "stream_ok sample_policy sample_events []"
  using sample_stream_ok(2) small_count [of 0] by (simp add: stream_ok_def validate_adjudication_set_Inr)

lemma sample_known: "known_events 6000000 sample_events = sample_events"
  "filter (\<lambda>e. ev_claim e = U ''fire'') sample_events = sample_events"
  by (simp_all add: known_events_def sample_events_def sample_event_def)

lemma sample_weigh: "weigh_all sample_runtime sample_events sample_policy 6000000 [] = Inr sample_weights"
  by code_simp

text \<open>The two correlation groups: the camera's own, and the hall shared by both microphone reports.\<close>

lemma sample_weight_simps [simp]:
  "we_id (sample_weight e a r f) = ev_id e" "we_event (sample_weight e a r f) = e" "we_effective (sample_weight e a r f) = f"
  "correlation_key (sample_weight e a r f) = (case ev_group e of Some g \<Rightarrow> U ''group:'' @ g | None \<Rightarrow> U ''event:'' @ ev_id e)"
  "bucket_key (sample_weight e a r f) = (correlation_key (sample_weight e a r f), ev_signal e)"
  "rank_key (sample_weight e a r f) = (- stable_float f, ev_id e)"
  by (simp_all add: sample_weight_def we_id_def correlation_key_def bucket_key_def rank_key_def split: option.splits)

lemma sample_stable: "stable_float (1 / 4) = 1 / 4" "stable_float (1 / 2) = 1 / 2" "stable_float (3 / 4) = 3 / 4"
  by code_simp+

lemma sample_sorted: "sort_key we_id sample_weights = sample_weights"
  by (simp add: sample_weights_def sample_events_def sample_event_def U_def)

lemma sample_keys: "map fst (buckets bucket_key sample_weights) = [(U ''event:e1'', SUPPORT), (U ''group:hall'', SUPPORT)]"
  by (simp add: sample_weights_def sample_events_def sample_event_def U_def buckets_def)

lemma sample_ranked: "ranked_bucket sample_weights (U ''event:e1'', SUPPORT) = [sample_weights ! 0]"
 "ranked_bucket sample_weights (U ''group:hall'', SUPPORT) = [sample_weights ! 1, sample_weights ! 2]"
  by (simp_all add: sample_weights_def sample_events_def sample_event_def U_def ranked_bucket_def sample_stable)

definition sample_selections :: "correlation_selection list" where
  "sample_selections =
     [\<lparr>sel_group = U ''event:e1'', sel_signal = SUPPORT, sel_representative = sample_weights ! 0, sel_suppressed = []\<rparr>,
      \<lparr>sel_group = U ''group:hall'', sel_signal = SUPPORT, sel_representative = sample_weights ! 1,
       sel_suppressed = [sample_weights ! 2]\<rparr>]"

lemma sample_weights_ok: "w \<in> set sample_weights \<Longrightarrow> weighted_ok w"
  using weigh_all_Inr [OF sample_policy_ok(1) sample_exp2 _ known_claim_events_ok [OF sample_stream_unjudged, of "U ''fire''" 6000000], of "[]"]
    sample_weigh by (auto simp: sample_known unit_reliabilities_def)

lemma sample_weights_distinct: "distinct (map we_id sample_weights)"
  by (simp add: sample_weights_def sample_events_def sample_event_def U_def)

lemma sample_collapse: "collapse_correlated sample_weights = Inr sample_selections"
proof -
  have "collapse_correlated sample_weights
      = Inr (sort_key selection_key (map (selection_of sample_weights) (map fst (buckets bucket_key sample_weights))))"
    using collapse_eq [OF sample_weights_ok sample_weights_distinct] by blast
  moreover have "map (selection_of sample_weights) [(U ''event:e1'', SUPPORT), (U ''group:hall'', SUPPORT)] = sample_selections"
    by (simp add: selection_of_def sample_ranked sample_selections_def)
  moreover have "sort_key selection_key sample_selections = sample_selections"
    by (simp add: sample_selections_def selection_key_def U_def)
  ultimately show ?thesis by (simp only: sample_keys)
qed

lemma sample_qualifying: "qualifying SUPPORT sample_selections sample_rule = sample_selections"
  "qualifying CONTRADICT sample_selections sample_rule = []"
  by (simp_all add: qualifying_def sample_selections_def sample_weights_def sample_rule_def sample_stable)

lemma sample_gates: "gate_open sample_rule sample_selections" "\<not> gate_open sample_rule []"
  by (simp_all add: gate_open_def sample_rule_def sources_of_def modalities_of_def sample_selections_def sample_weights_def
      sample_events_def sample_event_def U_def card_insert_if)

lemma sample_scores: "signal_score SUPPORT sample_selections = 7 / 8" "signal_score CONTRADICT sample_selections = 0"
proof -
  have "stable_float (combined_confidence [3 / 4, 1 / 2]) = 7 / 8" by code_simp
  then show "signal_score SUPPORT sample_selections = 7 / 8"
    by (simp add: signal_score_def sample_selections_def sample_weights_def)
qed (simp add: signal_score_def sample_selections_def)

definition sample_result :: evaluation_result where
  "sample_result = projr (evaluate sample_runtime sample_policy sample_events (utc 6000000) [])"

lemma sample_instant: "normalize_datetime (utc 6000000) path = Inr 6000000"
  by (simp add: valid_instant_def max_instant_def)

text \<open>The one decision of the sample escalates.\<close>

lemma sample_escalates:
  "evaluate sample_runtime sample_policy sample_events (utc 6000000) [] = Inr sample_result"
  "\<exists>d. er_decisions sample_result = [d] \<and> cd_claim d = U ''fire'' \<and> cd_outcome d = ESCALATE"
proof -
  obtain xs decs where xs: "adjust_reliabilities sample_policy (known_adjudications 6000000 []) = Inr xs"
      "claim_decisions sample_runtime sample_policy (known_events 6000000 sample_events) 6000000 (applied_of xs) = Inr decs"
    and ev: "\<exists>us. evaluate sample_runtime sample_policy sample_events (utc 6000000) [] = Inr \<lparr>er_policy_id = policy_id sample_policy,
        er_evaluated_at = 6000000, er_input_count = int (length sample_events),
        er_considered_count = int (length (known_events 6000000 sample_events)), er_pending = pending_ids 6000000 sample_events,
        er_decisions = decs, er_updates = us\<rparr>"
    using evaluate_Inr [OF sample_stream_unjudged sample_exp2 sample_instant] by blast
  have names: "map fst (claims sample_policy) = [U ''fire'']" by (simp add: sample_policy_def)
  have "applied_of xs = []"
    using xs(1) by (simp add: adjust_reliabilities_eq known_adjudications_def sample_policy_def applied_of_def sorted_set_def)
  then have decs: "rmap (\<lambda>c. evaluate_claim sample_runtime c (the (map_of (claims sample_policy) c))
      (filter (\<lambda>e. ev_claim e = c) sample_events) sample_policy 6000000 []) [U ''fire''] = Inr decs"
    using xs(2) by (simp add: claim_decisions_def sample_known names)
  have claim: "map_of (claims sample_policy) (U ''fire'') = Some sample_rule" by (simp add: sample_policy_def)
  have cok: "claim_events_ok sample_policy (U ''fire'') 6000000 sample_events"
    using known_claim_events_ok [OF sample_stream_unjudged, of "U ''fire''" 6000000] by (simp add: sample_known)
  obtain d where d: "evaluate_claim sample_runtime (U ''fire'') sample_rule sample_events sample_policy 6000000 [] = Inr d"
      "cd_claim d = U ''fire''" "decision_sound sample_rule sample_selections d"
    using evaluate_claim_Inr [OF sample_policy_ok(1) sample_exp2 _ cok sample_texts(4), of "[]" sample_rule]
      sample_weigh sample_sorted sample_collapse by (auto simp: unit_reliabilities_def)
  have "decs = [d]" using decs d(1) by (simp add: sample_known claim)
  moreover have "cd_outcome d = fst (choose_outcome (cd_support d) (cd_contradict d) sample_rule)"
    using d(3) by (auto simp: decision_sound_def split: prod.splits)
  moreover have "fst (choose_outcome (cd_support d) (cd_contradict d) sample_rule) = ESCALATE"
  proof -
    have k: "stable_float (7 / 8) = 7 / 8" "fl (7 / 8) = 7 / 8" by code_simp+
    have r: "support_threshold sample_rule = 1 / 2" "min_margin sample_rule = 1 / 4" by (simp_all add: sample_rule_def)
    have s: "ss_score (cd_support d) = 7 / 8" "ss_score (cd_contradict d) = 0" "ss_gate (cd_support d)" "\<not> ss_gate (cd_contradict d)"
      using d(3) sample_gates unfolding decision_sound_def sample_scores sample_qualifying by blast+
    show ?thesis unfolding choose_outcome_escalate s(1,2) r k stable_float_0 by (simp add: s k sample_stable)
  qed
  ultimately show "evaluate sample_runtime sample_policy sample_events (utc 6000000) [] = Inr sample_result"
    "\<exists>d. er_decisions sample_result = [d] \<and> cd_claim d = U ''fire'' \<and> cd_outcome d = ESCALATE"
    using ev d(2) by (auto simp: sample_result_def)
qed

end
