(* ===== verification/Json_Size.thy ===== *)
theory Json_Size
  imports Json
begin

text \<open>
  An upper bound on the canonical bytes of a document that is computed without spelling it, used to meet
  the size limits of the constructors; and the last bytes of an object's canonical form.
\<close>

subsection \<open>The bound\<close>

lemma length_utf8_char: "length (utf8_char c) \<le> 4"
  by (simp add: utf8_char_def)

lemma utf8_app: "utf8 (s @ t) = utf8 s @ utf8 t"
  by (simp add: utf8_def)

lemma utf8_small: "list_all (\<lambda>c. c < 128) s \<Longrightarrow> utf8 s = s"
  by (induction s) (simp_all add: utf8_def utf8_char_def)

lemma length_utf8: "length (utf8 s) \<le> 4 * length s"
proof (induction s)
  case (Cons c s)
  then show ?case using length_utf8_char [of c] by (simp add: utf8_def)
qed (simp add: utf8_def)

lemma hex_char_small: "d < 16 \<Longrightarrow> hex_char d < 128"
  by (simp add: hex_char_def)

lemma length_esc: "length (utf8 (esc c)) \<le> 6"
proof (cases "c < 128")
  case True
  then have "list_all (\<lambda>c. c < 128) (esc c)"
    using mod_less_divisor [of 16 c] by (auto simp: esc_def hex_char_def simp del: mod_less_divisor)
  then show ?thesis by (simp add: utf8_small) (simp add: esc_def)
next
  case False
  then show ?thesis using length_utf8_char [of c] by (simp add: esc_def utf8_def)
qed

lemma length_str_enc: "length (utf8 (str_enc s)) \<le> 2 + 6 * length s"
proof -
  have "length (utf8 (concat (map esc s))) \<le> 6 * length s"
  proof (induction s)
    case (Cons c s)
    then show ?case using length_esc [of c] by (simp add: utf8_app)
  qed (simp add: utf8_def)
  moreover have "utf8 (str_enc s) = 34 # utf8 (concat (map esc s)) @ [34]"
    by (simp add: str_enc_def utf8_app) (simp add: utf8_def utf8_char_def)
  ultimately show ?thesis by simp
qed

function json_cost :: "(ustr \<Rightarrow> nat) \<Rightarrow> runtime \<Rightarrow> json \<Rightarrow> nat" where
  "json_cost k rt JNull = 4"
| "json_cost k rt (JBool b) = 5"
| "json_cost k rt (JInt i) = 4 * length (int_str i)"
| "json_cost k rt (JFloat x) = 4 * length (float_str rt x)"
| "json_cost k rt (JStr s) = k s"
| "json_cost k rt (JArr xs) = 2 + sum_list (map (\<lambda>x. 1 + json_cost k rt x) xs)"
| "json_cost k rt (JObj kvs) = 2 + sum_list (map (\<lambda>kv. 2 + k (fst kv) + json_cost k rt (snd kv)) kvs)"
  by pat_completeness auto
termination
  by (relation "measure (\<lambda>(k, rt, v). size v)") (auto simp: less_Suc_eq_le size_list_estimation' dest!: json_member_size)

text \<open>Every string at six bytes a character, or at the length of its own encoding.\<close>

definition text_weight :: "ustr \<Rightarrow> nat" where
  [simp]: "text_weight s = 2 + 6 * length s"

definition text_cost :: "ustr \<Rightarrow> nat" where
  "text_cost s = length (utf8 (str_enc s))"

abbreviation json_weight :: "runtime \<Rightarrow> json \<Rightarrow> nat" where
  "json_weight \<equiv> json_cost text_weight"

lemma items_bound:
  assumes "c < 128" "\<And>x. x \<in> set xs \<Longrightarrow> length (utf8 (f x)) \<le> g x"
  shows "length (utf8 (items f c xs)) \<le> 1 + sum_list (map (\<lambda>x. 1 + g x) xs)"
  using assms
proof (induction f c xs rule: items.induct)
  case (1 f c)
  then show ?case by (simp add: utf8_def utf8_char_def)
next
  case (2 f c x)
  then have "length (utf8 (f x)) \<le> g x" "utf8 [c] = [c]" by (simp_all add: utf8_def utf8_char_def)
  then show ?case by (simp add: utf8_app)
next
  case (3 f c x y zs)
  have "utf8 (44 # s) = 44 # utf8 s" for s by (simp add: utf8_def utf8_char_def)
  moreover have "length (utf8 (f x)) \<le> g x" by (rule 3(3)) simp
  moreover have "length (utf8 (items f c (y # zs))) \<le> 1 + sum_list (map (\<lambda>x. 1 + g x) (y # zs))"
    using 3 by simp
  ultimately show ?case by (simp add: utf8_app del: items.simps) (simp only: items.simps utf8_app length_append list.size; simp)
qed

lemma enc_cost:
  assumes k: "\<And>s. text_cost s \<le> k s"
  shows "length (utf8 (enc rt v)) \<le> json_cost k rt v"
  using k
proof (induction k rt v rule: json_cost.induct)
  case (6 k rt xs)
  have "utf8 (91 # s) = 91 # utf8 s" for s by (simp add: utf8_def utf8_char_def)
  then show ?case using items_bound [of 93 xs "enc rt" "json_cost k rt"] 6 by simp
next
  case (7 k rt kvs)
  have lits: "utf8 (123 # s) = 123 # utf8 s" "utf8 (58 # s) = 58 # utf8 s" for s
    by (simp_all add: utf8_def utf8_char_def)
  have "length (utf8 (str_enc (fst kv) @ 58 # enc rt (snd kv))) \<le> 1 + k (fst kv) + json_cost k rt (snd kv)"
    if "kv \<in> set kvs" for kv
    using 7(2) [of "fst kv"] 7(1) [OF that] 7(2) by (simp add: utf8_app lits(2) text_cost_def add_mono)
  then have "length (utf8 (items (\<lambda>kv. str_enc (fst kv) @ 58 # enc rt (snd kv)) 125 kvs))
      \<le> 1 + sum_list (map (\<lambda>kv. 1 + (1 + k (fst kv) + json_cost k rt (snd kv))) kvs)"
    by (intro items_bound) simp_all
  moreover have "map (\<lambda>kv. 1 + (1 + k (fst kv) + json_cost k rt (snd kv))) kvs
      = map (\<lambda>kv. 2 + k (fst kv) + json_cost k rt (snd kv)) kvs" by simp
  ultimately show ?case by (simp only: enc.simps json_cost.simps lits(1)) simp
next
  case (5 k rt s)
  show ?case using 5 [of s] by (simp add: text_cost_def)
qed (simp_all add: length_utf8, simp_all add: utf8_def utf8_char_def U_def)

lemma sum_list_sort_key: "sum_list (map f (sort_key k xs)) = sum_list (map f xs)" for f :: "'a \<Rightarrow> nat"
  by (metis mset_map mset_sort sum_mset_sum_list)

lemma canon_cost: "json_cost k rt (canon v) = json_cost k rt v"
proof (induction v rule: canon.induct)
  case (6 xs)
  have "map (\<lambda>x. 1 + json_cost k rt (canon x)) xs = map (\<lambda>x. 1 + json_cost k rt x) xs" using 6 by simp
  then show ?case by (simp only: canon.simps json_cost.simps map_map o_def)
next
  case (7 kvs)
  have "map (\<lambda>kv. 2 + k (fst kv) + json_cost k rt (canon (snd kv))) kvs
      = map (\<lambda>kv. 2 + k (fst kv) + json_cost k rt (snd kv)) kvs" using 7 by simp
  then show ?case by (simp only: canon.simps json_cost.simps sum_list_sort_key map_map o_def fst_conv snd_conv)
qed simp_all

lemma canonical_bytes_cost: "(\<And>s. text_cost s \<le> k s) \<Longrightarrow> length (canonical_bytes rt v) \<le> json_cost k rt v"
  using enc_cost [of k rt "canon v"] by (simp add: canonical_bytes_def dumps_def canon_cost)

lemma canonical_bytes_weight: "length (canonical_bytes rt v) \<le> json_weight rt v"
  by (rule canonical_bytes_cost) (use length_str_enc in \<open>simp add: text_cost_def\<close>)

text \<open>The cost of text without escapes is its length and the quotes.\<close>

definition plain_text :: "ustr \<Rightarrow> bool" where
  "plain_text s \<longleftrightarrow> list_all (\<lambda>c. 32 \<le> c \<and> c < 127 \<and> c \<noteq> 34 \<and> c \<noteq> 92) s"

lemma plain_text_cost: "plain_text s \<Longrightarrow> text_cost s = 2 + length s"
proof -
  assume s: "plain_text s"
  then have "concat (map esc s) = s"
    by (induction s) (auto simp: plain_text_def esc_def)
  then have "str_enc s = 34 # s @ [34]" by (simp add: str_enc_def)
  moreover have "list_all (\<lambda>c. c < 128) (34 # s @ [34])"
    using s by (auto simp: plain_text_def list_all_iff)
  ultimately show ?thesis unfolding text_cost_def by (simp only: utf8_small) simp
qed

lemma plain_hash: "is_hash s \<Longrightarrow> plain_text s"
  by (auto simp: is_hash_def plain_text_def hex_digit_def list_all_iff)

lemma hash_cost: "is_hash s \<Longrightarrow> text_cost s = 66"
  using plain_text_cost [OF plain_hash, of s] by (simp add: is_hash_def)

lemma int_str_length:
  assumes "0 \<le> n" "n < 10 ^ Suc k"
  shows "length (int_str n) \<le> Suc k"
proof -
  have "length (digits_of m) \<le> Suc k" if "m < 10 ^ Suc k" for m :: int
    using that
  proof (induction k arbitrary: m)
    case 0
    then show ?case by (simp add: digits_of.simps)
  next
    case (Suc k)
    have "m div 10 < 10 ^ Suc k" using Suc.prems by simp
    then show ?case using Suc.IH [of "m div 10"] by (simp add: digits_of.simps [of m])
  qed
  then show ?thesis using assms by (simp add: int_str_def)
qed

lemma JText_weight [simp]: "json_weight rt (JText s) = 2 + 6 * length s"
  by (simp add: JText_def U_def)

lemma JOpt_weight [simp]: "json_weight rt (JOpt x) = (case x of None \<Rightarrow> 4 | Some s \<Rightarrow> 2 + 6 * length s)"
  by (simp add: JOpt_def split: option.splits)

lemma U_length [simp]: "length (U s) = length s"
  by (simp add: U_def)

lemma sum_list_le: "(\<And>x. x \<in> set xs \<Longrightarrow> f x \<le> k) \<Longrightarrow> sum_list (map f xs) \<le> length xs * k" for f :: "'a \<Rightarrow> nat"
  by (induction xs) (auto simp: add_mono)

subsection \<open>The last member of an object\<close>

lemma items_last: "xs \<noteq> [] \<Longrightarrow> \<exists>p. items f c xs = p @ f (last xs) @ [c]"
proof (induction f c xs rule: items.induct)
  case (3 f c x y zs)
  then obtain p where "items f c (y # zs) = p @ f (last (y # zs)) @ [c]" by blast
  then have "items f c (x # y # zs) = (f x @ 44 # p) @ f (last (x # y # zs)) @ [c]" by simp
  then show ?case by blast
qed simp_all

lemma sort_key_last:
  assumes "x \<in> set xs" "\<And>y. y \<in> set xs \<Longrightarrow> y \<noteq> x \<Longrightarrow> k y < k x"
  shows "last (sort_key k xs) = x"
proof -
  have set: "set (sort_key k xs) = set xs" and sorted: "sorted (map k (sort_key k xs))" by simp_all
  obtain ys l where l: "sort_key k xs = ys @ [l]"
    using assms(1) set by (metis empty_iff empty_set rev_exhaust)
  have "k x \<le> k l" using set sorted assms(1) unfolding l by (auto simp: sorted_append)
  moreover have "l \<in> set xs" using set unfolding l by auto
  ultimately have "l = x" using assms(2) [of l] by force
  then show ?thesis by (simp add: l)
qed

lemma sort_key_first:
  assumes "x \<in> set xs" "\<And>y. y \<in> set xs \<Longrightarrow> y \<noteq> x \<Longrightarrow> k x < k y"
  shows "\<exists>ys. sort_key k xs = x # ys"
proof -
  have set: "set (sort_key k xs) = set xs" and sorted: "sorted (map k (sort_key k xs))" by simp_all
  obtain h ys where h: "sort_key k xs = h # ys"
    using assms(1) set by (cases "sort_key k xs") auto
  have "k h \<le> k x" using set sorted assms(1) unfolding h by auto
  moreover have "h \<in> set xs" using set unfolding h by auto
  ultimately have "h = x" using assms(2) [of h] by force
  then show ?thesis using h by simp
qed

text \<open>The canonical form of an object of several members begins with the member of the smallest key.\<close>

lemma canonical_bytes_first:
  assumes "(k, v) \<in> set kvs" "distinct (map fst kvs)" "\<And>j. j \<in> set (map fst kvs) \<Longrightarrow> j \<noteq> k \<Longrightarrow> k < j"
  shows "\<exists>s. canonical_bytes rt (JObj kvs) = 123 # utf8 (str_enc k) @ 58 # canonical_bytes rt v @ s"
proof -
  let ?ms = "map (\<lambda>kv. (fst kv, canon (snd kv))) kvs"
  have "\<exists>ys. sort_key fst ?ms = (k, canon v) # ys"
  proof (rule sort_key_first)
    show "(k, canon v) \<in> set ?ms" using assms(1) by force
    show "fst (k, canon v) < fst y" if "y \<in> set ?ms" "y \<noteq> (k, canon v)" for y
    proof -
      from that(1) obtain w where w: "(fst y, w) \<in> set kvs" "y = (fst y, canon w)" by auto
      then have "fst y \<noteq> k" using that(2) assms(1,2) by (metis eq_key_imp_eq_value)
      then show ?thesis using w(1) assms(3) [of "fst y"] by (simp add: rev_image_eqI)
    qed
  qed
  then obtain ys where "sort_key fst ?ms = (k, canon v) # ys" by blast
  then obtain s where "dumps rt (JObj kvs) = 123 # (str_enc k @ 58 # dumps rt v) @ s"
    by (cases ys) (auto simp: dumps_def)
  then have "canonical_bytes rt (JObj kvs) = utf8 [123] @ utf8 (str_enc k) @ utf8 [58] @ canonical_bytes rt v @ utf8 s"
    unfolding canonical_bytes_def utf8_app [symmetric] by simp
  moreover have "utf8 [58] = [58]" "utf8 [123] = [123]" by (simp_all add: utf8_def utf8_char_def)
  ultimately show ?thesis by simp
qed

text \<open>The canonical form of an object ends with the member of the largest key.\<close>

lemma canonical_bytes_last:
  assumes "(k, v) \<in> set kvs" "distinct (map fst kvs)" "\<And>j. j \<in> set (map fst kvs) \<Longrightarrow> j \<noteq> k \<Longrightarrow> j < k"
  shows "\<exists>p. canonical_bytes rt (JObj kvs) = p @ utf8 (str_enc k) @ 58 # canonical_bytes rt v @ [125]"
proof -
  let ?ms = "map (\<lambda>kv. (fst kv, canon (snd kv))) kvs"
  have "last (sort_key fst ?ms) = (k, canon v)"
  proof (rule sort_key_last)
    show "(k, canon v) \<in> set ?ms" using assms(1) by force
    show "fst y < fst (k, canon v)" if "y \<in> set ?ms" "y \<noteq> (k, canon v)" for y
    proof -
      from that(1) obtain w where w: "(fst y, w) \<in> set kvs" "y = (fst y, canon w)" by auto
      then have "fst y \<noteq> k" using that(2) assms(1,2) by (metis eq_key_imp_eq_value)
      then show ?thesis using w(1) assms(3) [of "fst y"] by (simp add: rev_image_eqI)
    qed
  qed
  moreover have "sort_key fst ?ms \<noteq> []" using assms(1) by (simp only: set_empty [symmetric] set_sort) auto
  moreover obtain p where "items (\<lambda>kv. str_enc (fst kv) @ 58 # enc rt (snd kv)) 125 (sort_key fst ?ms)
      = p @ (str_enc (fst (last (sort_key fst ?ms))) @ 58 # enc rt (snd (last (sort_key fst ?ms)))) @ [125]"
    using items_last [OF calculation(2)] by blast
  ultimately have "items (\<lambda>kv. str_enc (fst kv) @ 58 # enc rt (snd kv)) 125 (sort_key fst ?ms)
      = p @ (str_enc k @ 58 # enc rt (canon v)) @ [125]" by simp
  then have "dumps rt (JObj kvs) = (123 # p) @ str_enc k @ 58 # dumps rt v @ [125]" by (simp add: dumps_def)
  then have "canonical_bytes rt (JObj kvs) = utf8 (123 # p) @ utf8 (str_enc k) @ utf8 [58] @ canonical_bytes rt v @ utf8 [125]"
    unfolding canonical_bytes_def utf8_app [symmetric] by simp
  moreover have "utf8 [58] = [58]" "utf8 [125] = [125]" by (simp_all add: utf8_def utf8_char_def)
  ultimately show ?thesis by (intro exI [of _ "utf8 (123 # p)"]) simp
qed

end
