(* ===== verification/Hash_Chain.thy ===== *)
theory Hash_Chain
  imports Models
begin

text \<open>
  The interface every tamper-evident log of the code implements: a seed, and one link per item that
  hashes the item with the digest before it. The laws ask that a link's bytes determine the previous
  digest and the item, and never are the bytes of a seed. The evidence ledger (ledger.py), workflow receipts
  (workflow.py) and case receipts (epistemic_case.py) interpret it; their tamper-evidence properties
  are the two theorems proved once here.
\<close>

subsection \<open>Exact objects and digests\<close>

text \<open>\<open>_fields\<close> and \<open>_hash\<close> of ledger.py, shared by the logs.\<close>

definition exact_fields :: "json \<Rightarrow> string list \<Rightarrow> string \<Rightarrow> (ustr \<times> json) list result" where
  "exact_fields v names path =
     (case v of
        JObj kvs \<Rightarrow> if set (map fst kvs) = set (map U names) then Inr kvs
          else Inl (ValidationError (path @ '' must contain exactly its fields''))
      | _ \<Rightarrow> Inl (ValidationError (path @ '' must contain exactly its fields'')))"

definition hash_value :: "json \<Rightarrow> string \<Rightarrow> ustr result" where
  "hash_value v path =
     (case v of
        JStr s \<Rightarrow> if is_hash s then Inr s else Inl (ValidationError (path @ '' must be a lowercase SHA-256 digest''))
      | _ \<Rightarrow> Inl (ValidationError (path @ '' must be a lowercase SHA-256 digest'')))"

lemma hash_value_Inr [simp]: "hash_value v path = Inr s \<longleftrightarrow> v = JStr s \<and> is_hash s"
  by (cases v) (auto simp: hash_value_def)

lemma exact_fields_Inr:
  "exact_fields v names path = Inr kvs \<longleftrightarrow> v = JObj kvs \<and> set (map fst kvs) = set (map U names)"
  by (cases v) (auto simp: exact_fields_def)

lemma is_hash_length: "is_hash s \<Longrightarrow> length s = 64"
  by (simp add: is_hash_def)

text \<open>\<open>bytes.fromhex\<close> is injective on digests.\<close>

lemma fromhex_length: "length (fromhex s) = length s div 2"
  by (induction s rule: fromhex.induct) simp_all

lemma hex_val_bound: "hex_digit c \<Longrightarrow> hex_val c < 16"
  by (auto simp: hex_digit_def hex_val_def)

lemma hex_val_inj: "hex_digit c \<Longrightarrow> hex_digit d \<Longrightarrow> hex_val c = hex_val d \<Longrightarrow> c = d"
  by (auto simp: hex_digit_def hex_val_def split: if_splits)

lemma fromhex_inj:
  "even (length s) \<Longrightarrow> length s = length t \<Longrightarrow> list_all hex_digit s \<Longrightarrow> list_all hex_digit t \<Longrightarrow> fromhex s = fromhex t \<Longrightarrow> s = t"
proof (induction s arbitrary: t rule: fromhex.induct)
  case (1 a b s)
  from 1(3) obtain c t' where c: "t = c # t'" "length t' = Suc (length s)" by (cases t) auto
  then obtain d u where "t' = d # u" "length u = length s" by (cases t') auto
  with c have t: "t = c # d # u" "length u = length s" by simp_all
  have h: "hex_val a < 16" "hex_val b < 16" "hex_val c < 16" "hex_val d < 16"
    using 1(4,5) t by (simp_all add: hex_val_bound)
  have e: "16 * hex_val a + hex_val b = 16 * hex_val c + hex_val d" using 1(6) t by simp
  then have "hex_val a = hex_val c" using h by linarith
  moreover from e this have "hex_val b = hex_val d" by linarith
  moreover have "s = u" using 1 t by simp
  ultimately show ?case using 1(4,5) t by (simp add: hex_val_inj)
qed auto

lemma hash_fromhex_inj: "is_hash p \<Longrightarrow> is_hash q \<Longrightarrow> fromhex p = fromhex q \<Longrightarrow> p = q"
  by (rule fromhex_inj) (simp_all add: is_hash_def)

lemma hash_fromhex_length: "is_hash p \<Longrightarrow> length (fromhex p) = 32"
  by (simp add: fromhex_length is_hash_def)

subsection \<open>The interface\<close>

locale hash_chain =
  fixes good :: "runtime \<Rightarrow> bool"
    and seed :: "runtime \<Rightarrow> 'c \<Rightarrow> bytes"
    and link :: "runtime \<Rightarrow> 'c \<Rightarrow> int \<Rightarrow> ustr \<Rightarrow> 'e \<Rightarrow> bytes"
    and valid :: "'e \<Rightarrow> bool"
    and same :: "'e \<Rightarrow> 'e \<Rightarrow> bool"
  assumes hash_hex: "good r \<Longrightarrow> is_hash (rt_sha256 r b)"
    and link_inj: "good r \<Longrightarrow> is_hash p \<Longrightarrow> is_hash q \<Longrightarrow> valid e \<Longrightarrow> valid f
      \<Longrightarrow> link r c n p e = link r d m q f \<Longrightarrow> p = q \<and> same e f"
    and link_seed: "good r \<Longrightarrow> is_hash p \<Longrightarrow> valid e \<Longrightarrow> link r c n p e \<noteq> seed r d"
begin

text \<open>The head after the items, from sequence number and digest on; and the bytes hashed on the way.\<close>

primrec head :: "runtime \<Rightarrow> 'c \<Rightarrow> int \<Rightarrow> ustr \<Rightarrow> 'e list \<Rightarrow> ustr" where
  "head r c n p [] = p"
| "head r c n p (e # es) = head r c (n + 1) (rt_sha256 r (link r c n p e)) es"

primrec inputs :: "runtime \<Rightarrow> 'c \<Rightarrow> int \<Rightarrow> ustr \<Rightarrow> 'e list \<Rightarrow> bytes set" where
  "inputs r c n p [] = {}"
| "inputs r c n p (e # es) = insert (link r c n p e) (inputs r c (n + 1) (rt_sha256 r (link r c n p e)) es)"

definition start :: "runtime \<Rightarrow> 'c \<Rightarrow> ustr" where
  "start r c = rt_sha256 r (seed r c)"

definition all_inputs :: "runtime \<Rightarrow> 'c \<Rightarrow> 'e list \<Rightarrow> bytes set" where
  "all_inputs r c es = insert (seed r c) (inputs r c 0 (start r c) es)"

lemma head_append: "head r c n p (es @ fs) = head r c (n + int (length es)) (head r c n p es) fs"
  by (induction es arbitrary: n p) (simp_all add: algebra_simps)

lemma inputs_append:
  "inputs r c n p (es @ fs) = inputs r c n p es \<union> inputs r c (n + int (length es)) (head r c n p es) fs"
  by (induction es arbitrary: n p) (simp_all add: algebra_simps)

lemma head_hex: "good r \<Longrightarrow> is_hash p \<Longrightarrow> is_hash (head r c n p es)"
  by (induction es arbitrary: n p) (simp_all add: hash_hex)

text \<open>Without a collision among the bytes hashed, equal heads come from the same items.\<close>

theorem head_determines:
  assumes good: "good r"
  shows "collision_free r (all_inputs r c es \<union> all_inputs r d fs) 
    \<Longrightarrow> (\<forall>e \<in> set es. valid e) \<Longrightarrow> (\<forall>f \<in> set fs. valid f)
    \<Longrightarrow> head r c 0 (start r c) es = head r d 0 (start r d) fs
    \<Longrightarrow> list_all2 same es fs \<and> seed r c = seed r d"
proof (induction es arbitrary: fs rule: rev_induct)
  case Nil
  show ?case
  proof (cases fs rule: rev_cases)
    case Nil': Nil
    have "rt_sha256 r (seed r c) = rt_sha256 r (seed r d)" using Nil Nil' by (simp add: start_def)
    then have "seed r c = seed r d"
      by (rule collision_freeD [OF Nil(1)]) (simp_all add: all_inputs_def)
    with Nil' show ?thesis by simp
  next
    case (snoc gs g)
    let ?l = "link r d (int (length gs)) (head r d 0 (start r d) gs) g"
    have "is_hash (head r d 0 (start r d) gs)" using good by (simp add: head_hex start_def hash_hex)
    then have "?l \<noteq> seed r c" using good Nil(3) snoc by (intro link_seed) simp_all
    moreover have "rt_sha256 r ?l = rt_sha256 r (seed r c)" using Nil(4) snoc by (simp add: head_append start_def)
    moreover have "?l \<in> all_inputs r c [] \<union> all_inputs r d fs" using snoc by (simp add: all_inputs_def inputs_append)
    moreover have "seed r c \<in> all_inputs r c [] \<union> all_inputs r d fs" by (simp add: all_inputs_def)
    ultimately show ?thesis using collision_freeD [OF Nil(1)] by blast
  qed
next
  case (snoc e es)
  let ?k = "link r c (int (length es)) (head r c 0 (start r c) es) e"
  have hk: "is_hash (head r c 0 (start r c) es)" using good by (simp add: head_hex start_def hash_hex)
  have ink: "?k \<in> all_inputs r c (es @ [e])" by (simp add: all_inputs_def inputs_append)
  show ?case
  proof (cases fs rule: rev_cases)
    case Nil
    have "?k \<noteq> seed r d" using good hk snoc.prems(2) by (intro link_seed) simp_all
    moreover have "rt_sha256 r ?k = rt_sha256 r (seed r d)" using snoc.prems(4) Nil by (simp add: head_append start_def)
    moreover have "seed r d \<in> all_inputs r c (es @ [e]) \<union> all_inputs r d fs" by (simp add: all_inputs_def)
    ultimately show ?thesis using ink collision_freeD [OF snoc.prems(1)] by blast
  next
    case gs: (snoc gs g)
    let ?l = "link r d (int (length gs)) (head r d 0 (start r d) gs) g"
    have hl: "is_hash (head r d 0 (start r d) gs)" using good by (simp add: head_hex start_def hash_hex)
    have "?l \<in> all_inputs r d fs" using gs by (simp add: all_inputs_def inputs_append)
    moreover have "rt_sha256 r ?k = rt_sha256 r ?l" using snoc.prems(4) gs by (simp add: head_append)
    ultimately have "?k = ?l" using ink collision_freeD [OF snoc.prems(1)] by blast
    then have same: "head r c 0 (start r c) es = head r d 0 (start r d) gs" "same e g"
      using link_inj [OF good hk hl, of e g] snoc.prems(2,3) gs by auto
    have "all_inputs r c es \<union> all_inputs r d gs \<subseteq> all_inputs r c (es @ [e]) \<union> all_inputs r d fs"
      using gs by (auto simp: all_inputs_def inputs_append)
    then have "list_all2 same es gs \<and> seed r c = seed r d"
      using snoc.prems same(1) gs by (intro snoc.IH collision_free_subset [OF snoc.prems(1)]) simp_all
    with gs same(2) show ?thesis by (simp add: list_all2_appendI)
  qed
qed

text \<open>The bytes hashed are one seed and one link per position, so it is enough to tell these apart.\<close>

lemma inputs_nth:
  "x \<in> inputs r c n p es \<Longrightarrow> \<exists>i < length es. x = link r c (n + int i) (head r c n p (take i es)) (es ! i)"
proof (induction es arbitrary: n p)
  case (Cons e es)
  show ?case
  proof (cases "x = link r c n p e")
    case True
    then show ?thesis by (intro exI [of _ 0]) simp
  next
    case False
    then obtain i where "i < length es"
      "x = link r c (n + 1 + int i) (head r c (n + 1) (rt_sha256 r (link r c n p e)) (take i es)) (es ! i)"
      using Cons.prems Cons.IH by auto
    then show ?thesis by (intro exI [of _ "Suc i"]) (simp add: algebra_simps)
  qed
qed simp

lemma collision_free_inputs:
  assumes "\<And>i p. i < length es \<Longrightarrow> rt_sha256 r (link r c (int i) p (es ! i)) \<noteq> rt_sha256 r (seed r c)"
    and "\<And>i j p q. i < j \<Longrightarrow> j < length es
      \<Longrightarrow> rt_sha256 r (link r c (int i) p (es ! i)) \<noteq> rt_sha256 r (link r c (int j) q (es ! j))"
  shows "collision_free r (all_inputs r c es)"
  unfolding collision_free_def
proof (rule inj_onI)
  fix x y
  assume x: "x \<in> all_inputs r c es" and y: "y \<in> all_inputs r c es" and eq: "rt_sha256 r x = rt_sha256 r y"
  have at: "z = seed r c \<or> (\<exists>i < length es. z = link r c (int i) (head r c 0 (start r c) (take i es)) (es ! i))"
    if "z \<in> all_inputs r c es" for z
    using that inputs_nth [of z r c 0 "start r c" es] by (auto simp: all_inputs_def)
  show "x = y"
    using at [OF x] at [OF y] eq assms(1) assms(2) by (metis linorder_neqE_nat)
qed

end

end
