(* ===== verification/Ledger.thy ===== *)
theory Ledger
  imports Hash_Chain
begin

text \<open>
  Evidence ledgers (ledger.py): entry digests of both schema versions, entries, the offline verifier,
  the JSON reader and the builder. A ledger's chain interprets \<open>hash_chain\<close>; the lemmas show
  that a built ledger verifies and reads back unchanged, that verification recomputes the whole chain, and
  that without a digest collision a verified head determines every event.
\<close>

subsection \<open>Digests\<close>

definition max_ledger_entries :: int where
  "max_ledger_entries = 100000"

definition ledger_seed :: "ustr \<Rightarrow> bytes" where
  "ledger_seed version =
     (if version = U ''1.0'' then utf8 (U ''evidence-braid-ledger:v1'') else utf8 (U ''evidence-braid-ledger:v2''))"

definition ledger_versions :: "runtime \<Rightarrow> (ustr \<times> ustr) list" where
  "ledger_versions rt =
     [(U ''1.0'', rt_sha256 rt (ledger_seed (U ''1.0''))), (U ''2.0'', rt_sha256 rt (ledger_seed (U ''2.0'')))]"

text \<open>
  The bytes \<open>_digest\<close> hashes. \<open>canonical_json\<close> cannot fail on an accepted event, whose view
  holds finite floats only (\<open>EvidenceEvent_to_dict_finite\<close>).
\<close>

definition digest_input :: "runtime \<Rightarrow> ustr \<Rightarrow> int \<Rightarrow> ustr \<Rightarrow> evidence_event \<Rightarrow> bytes" where
  "digest_input rt version seq previous e =
     (if version = U ''1.0'' then utf8 (previous @ [10] @ dumps rt (EvidenceEvent_to_dict e))
      else canonical_bytes rt (JObj [(U ''schema_version'', JStr version), (U ''sequence'', JInt seq),
             (U ''previous_digest'', JStr previous), (U ''event'', EvidenceEvent_to_dict e)]))"

definition ledger_digest :: "runtime \<Rightarrow> ustr \<Rightarrow> evidence_event \<Rightarrow> int \<Rightarrow> ustr \<Rightarrow> ustr" where
  "ledger_digest rt previous e seq version = rt_sha256 rt (digest_input rt version seq previous e)"

subsection \<open>Entries\<close>

record ledger_entry =
  le_sequence :: int
  le_event_id :: ustr
  le_event :: json
  le_previous :: ustr
  le_digest :: ustr

definition LedgerEntry_init :: "int \<Rightarrow> ustr \<Rightarrow> json \<Rightarrow> ustr \<Rightarrow> ustr \<Rightarrow> ledger_entry result" where
  "LedgerEntry_init seq i event previous digest =
     rbind (freeze_json True event) (\<lambda>frozen.
     Inr \<lparr>le_sequence = seq, le_event_id = i, le_event = frozen, le_previous = previous, le_digest = digest\<rparr>)"

definition LedgerEntry_to_dict :: "ledger_entry \<Rightarrow> json" where
  "LedgerEntry_to_dict x = JObj
     [(U ''sequence'', JInt (le_sequence x)), (U ''event_id'', JStr (le_event_id x)),
      (U ''event'', le_event x), (U ''previous_digest'', JStr (le_previous x)),
      (U ''digest'', JStr (le_digest x))]"

definition LedgerEntry_from_dict :: "runtime \<Rightarrow> json \<Rightarrow> ledger_entry result" where
  "LedgerEntry_from_dict rt value =
     rbind (exact_fields value [''sequence'', ''event_id'', ''event'', ''previous_digest'', ''digest''] ''entry'') (\<lambda>data.
     rbind (case dget data ''sequence'' of
              JInt s \<Rightarrow> if 0 \<le> s \<and> s < max_ledger_entries then Inr s
                 else Inl (ValidationError ''entry.sequence must be an integer within ledger limits'')
            | _ \<Rightarrow> Inl (ValidationError ''entry.sequence must be an integer within ledger limits'')) (\<lambda>seq.
     rbind (EvidenceEvent_from_dict rt (dget data ''event'') ''entry.event'') (\<lambda>event.
     rbind (canonical_json rt (dget data ''event'')) (\<lambda>given.
     rbind (canonical_json rt (EvidenceEvent_to_dict event)) (\<lambda>expected.
     rbind (require (given = expected) ''entry.event must use the canonical event representation'') (\<lambda>_.
     rbind (require (dget data ''event_id'' = JStr (ev_id event)) ''entry.event_id must match its event'') (\<lambda>_.
     rbind (hash_value (dget data ''previous_digest'') ''entry.previous_digest'') (\<lambda>previous.
     rbind (hash_value (dget data ''digest'') ''entry.digest'') (\<lambda>digest.
     LedgerEntry_init seq (ev_id event) (EvidenceEvent_to_dict event) previous digest)))))))))"

subsection \<open>Ledgers\<close>

text \<open>The genesis of a ledger read from JSON may be any value; \<open>verify\<close> compares it.\<close>

record evidence_ledger =
  lg_entries :: "ledger_entry list"
  lg_genesis :: json
  lg_version :: ustr

text \<open>
  The loop of \<open>verify\<close>: the digest of the last entry, or nothing when a link fails. The only
  error parsing can raise here is the \<open>ValidationError\<close> the loop catches.
\<close>

fun verify_entries :: "runtime \<Rightarrow> ustr \<Rightarrow> int \<Rightarrow> ustr \<Rightarrow> ustr set \<Rightarrow> ledger_entry list \<Rightarrow> ustr option" where
  "verify_entries rt version seq previous ids [] = Some previous"
| "verify_entries rt version seq previous ids (x # xs) =
     (case LedgerEntry_from_dict rt (LedgerEntry_to_dict x) of
        Inl _ \<Rightarrow> None
      | Inr parsed \<Rightarrow>
        (case EvidenceEvent_from_dict rt (le_event parsed) ''event'' of
           Inl _ \<Rightarrow> None
         | Inr event \<Rightarrow>
             if le_sequence parsed \<noteq> seq \<or> le_event_id parsed \<in> ids then None
             else if le_previous parsed \<noteq> previous \<or> le_digest parsed \<noteq> ledger_digest rt previous event seq version
             then None
             else verify_entries rt version (seq + 1) (le_digest parsed) (insert (le_event_id parsed) ids) xs))"

definition ledger_verify :: "runtime \<Rightarrow> evidence_ledger \<Rightarrow> ustr option \<Rightarrow> bool" where
  "ledger_verify rt l expected_head =
     (case map_of (ledger_versions rt) (lg_version l) of
        None \<Rightarrow> False
      | Some genesis \<Rightarrow>
          if lg_genesis l \<noteq> JStr genesis then False
          else if int (length (lg_entries l)) > max_ledger_entries then False
          else (case verify_entries rt (lg_version l) 0 genesis {} (lg_entries l) of
                  None \<Rightarrow> False
                | Some previous \<Rightarrow> expected_head = None \<or> expected_head = Some previous))"

definition ledger_head :: "evidence_ledger \<Rightarrow> json" where
  "ledger_head l = (if lg_entries l = [] then lg_genesis l else JStr (le_digest (last (lg_entries l))))"

definition EvidenceLedger_to_dict :: "runtime \<Rightarrow> evidence_ledger \<Rightarrow> json" where
  "EvidenceLedger_to_dict rt l = JObj
     [(U ''schema_version'', JStr (lg_version l)), (U ''kind'', JText ''evidence-braid-ledger''),
      (U ''genesis'', lg_genesis l), (U ''head_digest'', ledger_head l),
      (U ''entry_count'', JInt (int (length (lg_entries l)))),
      (U ''entries'', JArr (map LedgerEntry_to_dict (lg_entries l))),
      (U ''verified'', JBool (ledger_verify rt l None))]"

definition EvidenceLedger_from_dict :: "runtime \<Rightarrow> json \<Rightarrow> ustr option \<Rightarrow> evidence_ledger result" where
  "EvidenceLedger_from_dict rt value expected_head =
     rbind (exact_fields value [''schema_version'', ''kind'', ''genesis'', ''head_digest'', ''entry_count'',
              ''entries'', ''verified''] ''ledger'') (\<lambda>data.
     rbind (case dget data ''schema_version'' of
              JStr v \<Rightarrow>
                if v \<in> set (map fst (ledger_versions rt)) \<and> dget data ''kind'' = JText ''evidence-braid-ledger''
                then Inr v else Inl (ValidationError ''unsupported ledger kind or schema_version'')
            | _ \<Rightarrow> Inl (ValidationError ''unsupported ledger kind or schema_version'')) (\<lambda>version.
     rbind (case dget data ''entries'' of
              JArr xs \<Rightarrow> if int (length xs) \<le> max_ledger_entries then Inr xs
                else Inl (ValidationError ''ledger.entries must be an array within ledger limits'')
            | _ \<Rightarrow> Inl (ValidationError ''ledger.entries must be an array within ledger limits'')) (\<lambda>entries.
     rbind (require (dget data ''entry_count'' = JInt (int (length entries)))
              ''ledger.entry_count does not match entries'') (\<lambda>_.
     rbind (rmap (LedgerEntry_from_dict rt) entries) (\<lambda>xs.
     let l = \<lparr>lg_entries = xs, lg_genesis = dget data ''genesis'', lg_version = version\<rparr> in
     rbind (require (dget data ''verified'' = JBool True \<and> dget data ''head_digest'' = ledger_head l
              \<and> ledger_verify rt l expected_head) ''ledger integrity verification failed'') (\<lambda>_.
     Inr l))))))"

text \<open>The loop of \<open>build_ledger\<close> over the ordered events.\<close>

fun build_entries :: "runtime \<Rightarrow> int \<Rightarrow> ustr \<Rightarrow> evidence_event list \<Rightarrow> ledger_entry list result" where
  "build_entries rt seq previous [] = Inr []"
| "build_entries rt seq previous (e # es) =
     (let digest = ledger_digest rt previous e seq (U ''2.0'') in
      rbind (LedgerEntry_init seq (ev_id e) (EvidenceEvent_to_dict e) previous digest) (\<lambda>x.
      rbind (build_entries rt (seq + 1) digest es) (\<lambda>xs. Inr (x # xs))))"

definition ledger_order :: "evidence_event list \<Rightarrow> evidence_event list" where
  "ledger_order es = sort_key (\<lambda>e. (ev_ingested_at e, ev_id e)) es"

definition build_ledger :: "runtime \<Rightarrow> evidence_event list \<Rightarrow> evidence_ledger result" where
  "build_ledger rt events =
     rbind (require (int (length events) \<le> max_ledger_entries) ''ledger exceeds maximum entry count'') (\<lambda>_.
     let ordered = ledger_order events in
     rbind (require (distinct (map ev_id ordered)) ''ledger event IDs must be unique'') (\<lambda>_.
     let genesis = rt_sha256 rt (ledger_seed (U ''2.0'')) in
     rbind (build_entries rt 0 genesis ordered) (\<lambda>xs.
     Inr \<lparr>lg_entries = xs, lg_genesis = JStr genesis, lg_version = U ''2.0''\<rparr>)))"

subsection \<open>The ledger as a hash chain\<close>

definition ledger_runtime :: "runtime \<Rightarrow> bool" where
  "ledger_runtime rt \<longleftrightarrow> repr_contract rt \<and> sha256_hex rt"

definition same_document :: "evidence_event \<Rightarrow> evidence_event \<Rightarrow> bool" where
  "same_document e f \<longleftrightarrow> canon (EvidenceEvent_to_dict e) = canon (EvidenceEvent_to_dict f)"

lemma hash_first: "is_hash p \<Longrightarrow> \<exists>a b s. p = a # b # s \<and> hex_digit a \<and> hex_digit b"
  by (cases p; cases "tl p") (auto simp: is_hash_def)

lemma utf8_ascii: "list_all (\<lambda>c. c < 128) s \<Longrightarrow> utf8 s = s"
  by (induction s) (auto simp: utf8_def utf8_char_def)

lemma utf8_append: "utf8 (s @ t) = utf8 s @ utf8 t"
  by (simp add: utf8_def)

lemma canonical_bytes_JObj: "\<exists>s. canonical_bytes rt (JObj kvs) = 123 # s"
  by (simp add: canonical_bytes_def dumps_def utf8_def utf8_char_def)

lemma ledger_seed_eq: "\<exists>s. ledger_seed v = 101 # 118 # s"
  by (simp add: ledger_seed_def utf8_def utf8_char_def U_def)

lemma hash_ascii: "is_hash p \<Longrightarrow> utf8 p = p"
  by (rule utf8_ascii) (auto simp: is_hash_def hex_digit_def list_all_iff)

lemma digest_input_inj:
  assumes rt: "ledger_runtime rt" and p: "is_hash p" "is_hash q" and e: "event_ok e" "event_ok f"
    and eq: "digest_input rt v n p e = digest_input rt w m q f"
  shows "p = q \<and> same_document e f"
proof -
  let ?D = "EvidenceEvent_to_dict"
  have fin: "json_finite (?D e)" "json_finite (?D f)" using e by (simp_all add: EvidenceEvent_to_dict_finite)
  have rep: "repr_contract rt" using rt by (simp add: ledger_runtime_def)
  have first: "\<exists>c s. digest_input rt (U ''1.0'') k x y = c # s \<and> hex_digit c" if x: "is_hash x" for k x y
  proof -
    obtain a b s where "x = a # b # s" "hex_digit a" using hash_first [OF x] by blast
    then show ?thesis by (auto simp: digest_input_def utf8_def utf8_char_def hex_digit_def)
  qed
  have brace: "\<exists>s. digest_input rt u k x y = 123 # s" if "u \<noteq> U ''1.0''" for u k x y
    using that canonical_bytes_JObj by (simp add: digest_input_def)
  consider "v = U ''1.0''" "w = U ''1.0''" | "v \<noteq> U ''1.0''" "w \<noteq> U ''1.0''"
    | "v = U ''1.0'' \<longleftrightarrow> w \<noteq> U ''1.0''" by blast
  then show ?thesis
  proof cases
    case 1
    then have "p @ [10] @ dumps rt (?D e) = q @ [10] @ dumps rt (?D f)"
      using eq utf8_inj [of "p @ [10] @ dumps rt (?D e)" "q @ [10] @ dumps rt (?D f)"]
      by (simp add: digest_input_def)
    then have "p = q \<and> dumps rt (?D e) = dumps rt (?D f)" using p by (simp add: is_hash_length)
    then show ?thesis
      using canonical_bytes_inj [OF rep fin] by (simp add: canonical_bytes_def same_document_def)
  next
    case 2
    let ?o = "\<lambda>v n p e. [(U ''schema_version'', JStr v), (U ''sequence'', JInt n), (U ''previous_digest'', JStr p),
        (U ''event'', ?D e)]"
    have "canon (JObj (?o v n p e)) = canon (JObj (?o w m q f))"
      using eq 2 fin by (intro canonical_bytes_inj [OF rep]) (simp_all add: digest_input_def)
    moreover have "map fst (?o v n p e) = map fst (?o w m q f)" "distinct (map fst (?o v n p e))" by simp_all
    ultimately have "map canon (map snd (?o v n p e)) = map canon (map snd (?o w m q f))"
      using canon_JObj_eq_iff by blast
    then show ?thesis by (simp add: same_document_def)
  next
    case 3
    then show ?thesis
      using first [OF p(1), of n e] first [OF p(2), of m f] brace [of v n p e] brace [of w m q f] eq
      by (cases "v = U ''1.0''") (auto simp: hex_digit_def)
  qed
qed

lemma digest_input_seed: "is_hash p \<Longrightarrow> digest_input rt v n p e \<noteq> ledger_seed w"
proof
  assume p: "is_hash p" and eq: "digest_input rt v n p e = ledger_seed w"
  obtain t where t: "ledger_seed w = 101 # 118 # t" using ledger_seed_eq by blast
  show False
  proof (cases "v = U ''1.0''")
    case True
    obtain a b s where "p = a # b # s" "hex_digit a" "hex_digit b" using hash_first [OF p] by blast
    then have "\<exists>s. digest_input rt v n p e = a # b # s \<and> b \<noteq> 118"
      using True by (auto simp: digest_input_def utf8_def utf8_char_def hex_digit_def)
    then show False using eq t by auto
  next
    case False
    then obtain kvs where "digest_input rt v n p e = canonical_bytes rt (JObj kvs)"
      by (simp add: digest_input_def)
    then show False using eq t canonical_bytes_JObj [of rt kvs] by auto
  qed
qed

interpretation ledger: hash_chain ledger_runtime "\<lambda>rt. ledger_seed" digest_input event_ok same_document
proof unfold_locales
  show "ledger_runtime r \<Longrightarrow> is_hash (rt_sha256 r b)" for r b
    by (simp add: ledger_runtime_def sha256_hex_def)
  show "ledger_runtime r \<Longrightarrow> is_hash p \<Longrightarrow> is_hash q \<Longrightarrow> event_ok e \<Longrightarrow> event_ok f \<Longrightarrow>
      digest_input r c n p e = digest_input r d m q f \<Longrightarrow> p = q \<and> same_document e f" for r p q e f c n d m
    by (rule digest_input_inj)
  show "ledger_runtime r \<Longrightarrow> is_hash p \<Longrightarrow> event_ok e \<Longrightarrow> digest_input r c n p e \<noteq> ledger_seed d" for r p e c n d
    by (rule digest_input_seed)
qed

subsection \<open>Verification recomputes the chain\<close>

text \<open>An entry holds an event when its document is the event's, up to the order of members.\<close>

definition entry_holds :: "ledger_entry \<Rightarrow> evidence_event \<Rightarrow> bool" where
  "entry_holds x e \<longleftrightarrow> event_ok e \<and> frozen (EvidenceEvent_to_dict e)
     \<and> canon (le_event x) = canon (EvidenceEvent_to_dict e)
     \<and> le_event_id x = ev_id e \<and> is_hash (le_previous x) \<and> is_hash (le_digest x)"

lemma canonical_json_Inr: "canonical_json rt v = Inr s \<longleftrightarrow> json_finite v \<and> s = dumps rt v"
  by (auto simp: canonical_json_def)

lemma entry_get [simp]:
  "LedgerEntry_to_dict x = JObj kvs \<Longrightarrow> dget kvs ''sequence'' = JInt (le_sequence x)"
  "LedgerEntry_to_dict x = JObj kvs \<Longrightarrow> dget kvs ''event'' = le_event x"
  "LedgerEntry_to_dict x = JObj kvs \<Longrightarrow> dget kvs ''event_id'' = JStr (le_event_id x)"
  "LedgerEntry_to_dict x = JObj kvs \<Longrightarrow> dget kvs ''previous_digest'' = JStr (le_previous x)"
  "LedgerEntry_to_dict x = JObj kvs \<Longrightarrow> dget kvs ''digest'' = JStr (le_digest x)"
  by (auto simp: LedgerEntry_to_dict_def)

lemma LedgerEntry_parse:
  assumes rt: "ledger_runtime rt" "iso_contract rt"
    and p: "LedgerEntry_from_dict rt (LedgerEntry_to_dict x) = Inr y"
  shows "\<exists>e. entry_holds x e \<and> y = x\<lparr>le_event := EvidenceEvent_to_dict e\<rparr> \<and> le_sequence x < max_ledger_entries
    \<and> 0 \<le> le_sequence x \<and> EvidenceEvent_from_dict rt (le_event y) ''event'' = Inr e"
proof -
  obtain kvs where k: "LedgerEntry_to_dict x = JObj kvs" by (simp add: LedgerEntry_to_dict_def)
  have rep: "repr_contract rt" using rt by (simp add: ledger_runtime_def)
  from p k obtain e where e: "EvidenceEvent_from_dict rt (le_event x) ''entry.event'' = Inr e"
    and fin: "json_finite (le_event x)" "json_finite (EvidenceEvent_to_dict e)"
    and d: "dumps rt (le_event x) = dumps rt (EvidenceEvent_to_dict e)"
    and i: "le_event_id x = ev_id e" "is_hash (le_previous x)" "is_hash (le_digest x)"
    and s: "0 \<le> le_sequence x" "le_sequence x < max_ledger_entries"
    and y: "LedgerEntry_init (le_sequence x) (ev_id e) (EvidenceEvent_to_dict e) (le_previous x) (le_digest x) = Inr y"
    by (auto simp: LedgerEntry_from_dict_def exact_fields_Inr canonical_json_Inr split: if_splits)
  have ok: "event_ok e" using EvidenceEvent_from_dict_ok [OF e] .
  have "canon (le_event x) = canon (EvidenceEvent_to_dict e)"
    using canonical_bytes_inj [OF rep fin] d by (simp add: canonical_bytes_def)
  moreover have "frozen (EvidenceEvent_to_dict e)" "y = x\<lparr>le_event := EvidenceEvent_to_dict e\<rparr>"
    using y i by (auto simp: LedgerEntry_init_def)
  ultimately show ?thesis
    using ok i s EvidenceEvent_roundtrip [OF ok rt(2)] by (auto simp: entry_holds_def)
qed

lemma verify_entries_Some:
  assumes rt: "ledger_runtime rt" "iso_contract rt"
  shows "verify_entries rt v n p ids xs = Some h \<Longrightarrow>
    \<exists>es. list_all2 entry_holds xs es \<and> h = ledger.head rt v n p es \<and> distinct (map ev_id es)
      \<and> set (map ev_id es) \<inter> ids = {} \<and> map le_sequence xs = map (\<lambda>i. n + int i) [0..<length xs]
      \<and> h = (if xs = [] then p else le_digest (last xs))"
proof (induction xs arbitrary: n p ids)
  case (Cons x xs)
  then obtain y e where y: "LedgerEntry_from_dict rt (LedgerEntry_to_dict x) = Inr y"
    and e: "EvidenceEvent_from_dict rt (le_event y) ''event'' = Inr e"
    by (auto split: sum.splits)
  from LedgerEntry_parse [OF rt y] e have x: "entry_holds x e" and yx: "y = x\<lparr>le_event := EvidenceEvent_to_dict e\<rparr>"
    by auto
  from Cons.prems y e yx x have seq: "le_sequence x = n" and new: "ev_id e \<notin> ids"
    and dig: "le_digest x = ledger_digest rt p e n v"
    and rest: "verify_entries rt v (n + 1) (le_digest x) (insert (ev_id e) ids) xs = Some h"
    by (auto simp: entry_holds_def split: if_splits)
  from Cons.IH [OF rest] obtain es where es: "list_all2 entry_holds xs es"
    "h = ledger.head rt v (n + 1) (le_digest x) es" "distinct (map ev_id es)"
    "set (map ev_id es) \<inter> insert (ev_id e) ids = {}"
    "map le_sequence xs = map (\<lambda>i. n + 1 + int i) [0..<length xs]"
    "h = (if xs = [] then le_digest x else le_digest (last xs))" by blast
  have "map le_sequence (x # xs) = map (\<lambda>i. n + int i) [0..<length (x # xs)]"
    using es(5) seq by (simp add: upt_conv_Cons map_Suc_upt [symmetric] del: upt_Suc)
  then show ?case
    using es x new dig by (intro exI [of _ "e # es"]) (auto simp: ledger_digest_def)
qed simp

text \<open>
  A ledger whose entries store their events the way \<open>EvidenceEvent.to_dict\<close> writes them. The builder and the
  reader make such ledgers only; the verifier also accepts an entry whose event has its members in another order.
\<close>

definition ledger_written :: "evidence_ledger \<Rightarrow> bool" where
  "ledger_written l \<longleftrightarrow> (\<forall>x \<in> set (lg_entries l). \<exists>e. event_ok e \<and> le_event x = EvidenceEvent_to_dict e)"

lemma LedgerEntry_written:
  "LedgerEntry_from_dict rt v = Inr x \<Longrightarrow> \<exists>e. event_ok e \<and> le_event x = EvidenceEvent_to_dict e"
  by (auto simp: LedgerEntry_from_dict_def LedgerEntry_init_def dest: EvidenceEvent_from_dict_ok)

lemma EvidenceLedger_from_dict_written:
  assumes "EvidenceLedger_from_dict rt v expected = Inr l"
  shows "ledger_written l"
proof -
  from assms obtain ds where "rmap (LedgerEntry_from_dict rt) ds = Inr (lg_entries l)"
    by (auto simp: EvidenceLedger_from_dict_def Let_def)
  then show ?thesis unfolding ledger_written_def using LedgerEntry_written by (metis rmap_Inr_elem_rev)
qed

lemma build_entries_written:
  "build_entries rt n p es = Inr xs \<Longrightarrow> \<forall>e \<in> set es. event_ok e
    \<Longrightarrow> \<forall>x \<in> set xs. \<exists>e. event_ok e \<and> le_event x = EvidenceEvent_to_dict e"
  by (induction es arbitrary: n p xs) (auto 0 3 simp: Let_def LedgerEntry_init_def)

lemma build_ledger_written: "build_ledger rt es = Inr l \<Longrightarrow> \<forall>e \<in> set es. event_ok e \<Longrightarrow> ledger_written l"
  by (auto simp: build_ledger_def ledger_written_def Let_def ledger_order_def dest: build_entries_written)

lemma LedgerEntry_unchanged:
  assumes rt: "ledger_runtime rt" "iso_contract rt" and y: "LedgerEntry_from_dict rt (LedgerEntry_to_dict x) = Inr y"
    and e: "event_ok e" "le_event x = EvidenceEvent_to_dict e"
  shows "y = x"
proof -
  from LedgerEntry_parse [OF rt y] obtain f where f: "y = x\<lparr>le_event := EvidenceEvent_to_dict f\<rparr>" by blast
  have "EvidenceEvent_from_dict rt (le_event x) ''entry.event'' = Inr e" using EvidenceEvent_roundtrip [OF e(1) rt(2)] e(2) by simp
  then have "le_event y = EvidenceEvent_to_dict e"
    using y by (auto simp: LedgerEntry_from_dict_def LedgerEntry_to_dict_def exact_fields_Inr LedgerEntry_init_def)
  then show ?thesis using f e(2) by simp
qed

lemma verify_entries_reread:
  assumes "ledger_runtime rt" "iso_contract rt"
  shows "verify_entries rt v n p ids xs = Some h
    \<Longrightarrow> \<forall>x \<in> set xs. \<exists>e. event_ok e \<and> le_event x = EvidenceEvent_to_dict e
    \<Longrightarrow> rmap (LedgerEntry_from_dict rt) (map LedgerEntry_to_dict xs) = Inr xs"
proof (induction xs arbitrary: n p ids)
  case (Cons x xs)
  then obtain y where y: "LedgerEntry_from_dict rt (LedgerEntry_to_dict x) = Inr y" by (auto split: sum.splits)
  moreover have "y = x" using LedgerEntry_unchanged [OF assms y] Cons.prems(2) by auto
  moreover obtain m q js where "verify_entries rt v m q js xs = Some h"
    using Cons.prems(1) y by (auto split: sum.splits if_splits)
  then have "rmap (LedgerEntry_from_dict rt) (map LedgerEntry_to_dict xs) = Inr xs" by (rule Cons.IH) (use Cons.prems(2) in simp)
  ultimately show ?case by simp
qed simp

text \<open>A verified ledger reads back exactly when its entries store their events as written.\<close>

lemma EvidenceLedger_reread:
  assumes rt: "ledger_runtime rt" "iso_contract rt" and v: "ledger_verify rt l None"
  shows "EvidenceLedger_from_dict rt (EvidenceLedger_to_dict rt l) None = Inr l \<longleftrightarrow> ledger_written l"
proof
  show "EvidenceLedger_from_dict rt (EvidenceLedger_to_dict rt l) None = Inr l \<Longrightarrow> ledger_written l"
    by (rule EvidenceLedger_from_dict_written)
  assume "ledger_written l"
  moreover from v obtain g h where g: "map_of (ledger_versions rt) (lg_version l) = Some g"
    and h: "verify_entries rt (lg_version l) 0 g {} (lg_entries l) = Some h"
    and len: "int (length (lg_entries l)) \<le> max_ledger_entries"
    by (auto simp: ledger_verify_def split: option.splits if_splits)
  ultimately have "rmap (LedgerEntry_from_dict rt) (map LedgerEntry_to_dict (lg_entries l)) = Inr (lg_entries l)"
    using verify_entries_reread [OF rt h] by (simp add: ledger_written_def)
  moreover have "lg_version l \<in> set (map fst (ledger_versions rt))"
    using map_of_SomeD [OF g] by (auto intro: rev_image_eqI)
  ultimately show "EvidenceLedger_from_dict rt (EvidenceLedger_to_dict rt l) None = Inr l"
    using v len by (cases l) (simp add: EvidenceLedger_from_dict_def EvidenceLedger_to_dict_def exact_fields_def Let_def)
qed

definition ledger_events_are :: "evidence_ledger \<Rightarrow> evidence_event list \<Rightarrow> bool" where
  "ledger_events_are l es \<longleftrightarrow> list_all2 entry_holds (lg_entries l) es \<and> distinct (map ev_id es)"

lemma ledger_versions_genesis:
  "map_of (ledger_versions rt) v = Some g \<Longrightarrow> g = ledger.start rt v"
  by (auto simp: ledger_versions_def ledger.start_def split: if_splits)

text \<open>A verified ledger holds events, its head is the head of their chain, and its sequence is contiguous.\<close>

lemma ledger_verify_events:
  assumes rt: "ledger_runtime rt" "iso_contract rt" and v: "ledger_verify rt l expected"
  shows "\<exists>es. ledger_events_are l es
    \<and> ledger_head l = JStr (ledger.head rt (lg_version l) 0 (ledger.start rt (lg_version l)) es)
    \<and> (expected = None \<or> expected = Some (ledger.head rt (lg_version l) 0 (ledger.start rt (lg_version l)) es))
    \<and> map le_sequence (lg_entries l) = map int [0..<length (lg_entries l)]"
proof -
  from v obtain g h where g: "map_of (ledger_versions rt) (lg_version l) = Some g" "lg_genesis l = JStr g"
    and h: "verify_entries rt (lg_version l) 0 g {} (lg_entries l) = Some h" "expected = None \<or> expected = Some h"
    by (auto simp: ledger_verify_def split: option.splits if_splits)
  note gs = ledger_versions_genesis [OF g(1)]
  from verify_entries_Some [OF rt h(1)] obtain es where es: "list_all2 entry_holds (lg_entries l) es"
    "h = ledger.head rt (lg_version l) 0 g es" "distinct (map ev_id es)"
    "map le_sequence (lg_entries l) = map (\<lambda>i. 0 + int i) [0..<length (lg_entries l)]"
    "h = (if lg_entries l = [] then g else le_digest (last (lg_entries l)))" by blast
  have "ledger_head l = JStr h" using es(5) g(2) by (simp add: ledger_head_def)
  with es gs h(2) show ?thesis by (auto simp: ledger_events_are_def intro!: exI [of _ es])
qed

text \<open>The bytes hashed along a ledger holding \<open>es\<close>.\<close>

definition ledger_inputs :: "runtime \<Rightarrow> ustr \<Rightarrow> evidence_event list \<Rightarrow> bytes set" where
  "ledger_inputs rt v es = ledger.all_inputs rt v es"

lemma holds_valid: "list_all2 entry_holds xs es \<Longrightarrow> \<forall>e \<in> set es. event_ok e"
  by (auto simp: list_all2_conv_all_nth in_set_conv_nth entry_holds_def)

lemma ledger_tamper_evident:
  assumes rt: "ledger_runtime rt" "iso_contract rt"
    and l: "ledger_verify rt l (Some h)" "ledger_events_are l es"
    and m: "ledger_verify rt m (Some h)" "ledger_events_are m fs"
    and cf: "collision_free rt (ledger_inputs rt (lg_version l) es \<union> ledger_inputs rt (lg_version m) fs)"
  shows "list_all2 same_event es fs \<and> lg_genesis l = lg_genesis m"
proof -
  have uniq: "list_all2 same_document xs ys" if "ledger_events_are k xs" "ledger_events_are k ys" for k xs ys
    using that by (auto simp: ledger_events_are_def list_all2_conv_all_nth entry_holds_def same_document_def)
  obtain es' where es': "ledger_events_are l es'"
    "Some h = Some (ledger.head rt (lg_version l) 0 (ledger.start rt (lg_version l)) es')"
    using ledger_verify_events [OF rt l(1)] by auto
  obtain fs' where fs': "ledger_events_are m fs'"
    "Some h = Some (ledger.head rt (lg_version m) 0 (ledger.start rt (lg_version m)) fs')"
    using ledger_verify_events [OF rt m(1)] by auto
  have same: "ledger.head rt v n p xs = ledger.head rt v n p ys \<and> ledger.inputs rt v n p xs = ledger.inputs rt v n p ys"
    if "list_all2 same_document xs ys" for v n p xs ys
    using that
  proof (induction xs arbitrary: ys n p)
    case (Cons x xs)
    then obtain y zs where ys: "ys = y # zs" "same_document x y" "list_all2 same_document xs zs"
      by (cases ys) auto
    have "digest_input rt v n p x = digest_input rt v n p y"
      using ys(2) by (simp add: digest_input_def same_document_def canonical_bytes_def dumps_def)
    then show ?case using ys Cons.IH [OF ys(3)] by simp
  qed simp
  note se = same [OF uniq [OF l(2) es'(1)]] and sf = same [OF uniq [OF m(2) fs'(1)]]
  have heads: "ledger.head rt (lg_version l) 0 (ledger.start rt (lg_version l)) es
      = ledger.head rt (lg_version m) 0 (ledger.start rt (lg_version m)) fs"
    using es'(2) fs'(2) se sf by simp
  have ok: "\<forall>e \<in> set es. event_ok e" "\<forall>f \<in> set fs. event_ok f"
    using l(2) m(2) by (auto simp: ledger_events_are_def dest: holds_valid)
  have d: "list_all2 same_document es fs \<and> ledger_seed (lg_version l) = ledger_seed (lg_version m)"
    using ledger.head_determines [OF rt(1) cf [unfolded ledger_inputs_def] ok heads] .
  have "list_all2 same_event es fs"
    using d ok EvidenceEvent_to_dict_inj [OF _ _ rt(2)]
    by (auto simp: list_all2_conv_all_nth same_document_def)
  moreover have "lg_genesis l = lg_genesis m"
  proof -
    have "lg_genesis k = JStr (rt_sha256 rt (ledger_seed (lg_version k)))" if "ledger_verify rt k (Some h)" for k
      using that ledger_versions_genesis [of rt "lg_version k"]
      by (auto simp: ledger_verify_def ledger.start_def split: option.splits if_splits)
    then show ?thesis using l(1) m(1) d by metis
  qed
  ultimately show ?thesis by blast
qed

subsection \<open>Building\<close>

text \<open>
  An event fits in an entry when its view, one level above its attributes, is still within the nesting
  and size limits of frozen JSON.
\<close>

definition storable :: "evidence_event \<Rightarrow> bool" where
  "storable e \<longleftrightarrow> event_ok e \<and> frozen (EvidenceEvent_to_dict e)"

lemma LedgerEntry_reparse:
  assumes "storable e" "iso_contract rt" "0 \<le> n" "n < max_ledger_entries" "is_hash p" "is_hash d"
  shows "LedgerEntry_from_dict rt (LedgerEntry_to_dict \<lparr>le_sequence = n, le_event_id = ev_id e,
      le_event = EvidenceEvent_to_dict e, le_previous = p, le_digest = d\<rparr>)
    = Inr \<lparr>le_sequence = n, le_event_id = ev_id e, le_event = EvidenceEvent_to_dict e, le_previous = p, le_digest = d\<rparr>"
  using assms EvidenceEvent_roundtrip [of e rt] EvidenceEvent_to_dict_finite [of e]
  by (simp add: LedgerEntry_from_dict_def LedgerEntry_to_dict_def exact_fields_def canonical_json_def
      LedgerEntry_init_def storable_def)

lemma build_entries_Inr:
  assumes rt: "ledger_runtime rt" "iso_contract rt"
  shows "(\<forall>e \<in> set es. storable e) \<Longrightarrow> distinct (map ev_id es) \<Longrightarrow> set (map ev_id es) \<inter> ids = {} \<Longrightarrow> is_hash p
    \<Longrightarrow> 0 \<le> n \<Longrightarrow> n + int (length es) \<le> max_ledger_entries \<Longrightarrow>
    \<exists>xs. build_entries rt n p es = Inr xs \<and> length xs = length es
      \<and> verify_entries rt (U ''2.0'') n p ids xs = Some (ledger.head rt (U ''2.0'') n p es)
      \<and> map le_event xs = map EvidenceEvent_to_dict es
      \<and> list_all2 entry_holds xs es
      \<and> rmap (LedgerEntry_from_dict rt) (map LedgerEntry_to_dict xs) = Inr xs"
proof (induction es arbitrary: n p ids)
  case (Cons e es)
  let ?d = "ledger_digest rt p e n (U ''2.0'')"
  let ?x = "\<lparr>le_sequence = n, le_event_id = ev_id e, le_event = EvidenceEvent_to_dict e, le_previous = p, le_digest = ?d\<rparr>"
  have d: "is_hash ?d" using rt(1) by (simp add: ledger_digest_def ledger_runtime_def sha256_hex_def)
  have st: "storable e" using Cons.prems(1) by simp
  then have init: "LedgerEntry_init n (ev_id e) (EvidenceEvent_to_dict e) p ?d = Inr ?x"
    by (simp add: LedgerEntry_init_def storable_def)
  have re: "LedgerEntry_from_dict rt (LedgerEntry_to_dict ?x) = Inr ?x"
    using Cons.prems d st by (intro LedgerEntry_reparse rt) simp_all
  have ev: "EvidenceEvent_from_dict rt (EvidenceEvent_to_dict e) path = Inr e" for path
    using st rt(2) by (simp add: storable_def EvidenceEvent_roundtrip)
  obtain xs where xs: "build_entries rt (n + 1) ?d es = Inr xs" "length xs = length es"
    "verify_entries rt (U ''2.0'') (n + 1) ?d (insert (ev_id e) ids) xs = Some (ledger.head rt (U ''2.0'') (n + 1) ?d es)"
    "map le_event xs = map EvidenceEvent_to_dict es" "list_all2 entry_holds xs es"
    "rmap (LedgerEntry_from_dict rt) (map LedgerEntry_to_dict xs) = Inr xs"
    using Cons.IH [of "insert (ev_id e) ids" ?d "n + 1"] Cons.prems d by auto
  have "entry_holds ?x e" using st Cons.prems d by (simp add: entry_holds_def storable_def)
  then show ?case
    using xs init re ev Cons.prems by (intro exI [of _ "?x # xs"]) (simp add: Let_def ledger_digest_def)
qed simp

lemma set_ledger_order [simp]: "set (ledger_order es) = set es" "length (ledger_order es) = length es"
  "distinct (map ev_id (ledger_order es)) = distinct (map ev_id es)"
  by (simp_all add: ledger_order_def)

lemma build_ledger_Inr:
  assumes rt: "ledger_runtime rt" "iso_contract rt"
    and es: "\<forall>e \<in> set es. storable e" "distinct (map ev_id es)" "int (length es) \<le> max_ledger_entries"
  shows "\<exists>l. build_ledger rt es = Inr l \<and> lg_version l = U ''2.0''
    \<and> map le_event (lg_entries l) = map EvidenceEvent_to_dict (ledger_order es)
    \<and> ledger_events_are l (ledger_order es)
    \<and> ledger_verify rt l None
    \<and> EvidenceLedger_from_dict rt (EvidenceLedger_to_dict rt l) None = Inr l"
proof -
  let ?g = "rt_sha256 rt (ledger_seed (U ''2.0''))"
  have g: "is_hash ?g" using rt(1) by (simp add: ledger_runtime_def sha256_hex_def)
  obtain xs where xs: "build_entries rt 0 ?g (ledger_order es) = Inr xs" "length xs = length es"
    "verify_entries rt (U ''2.0'') 0 ?g {} xs = Some (ledger.head rt (U ''2.0'') 0 ?g (ledger_order es))"
    "map le_event xs = map EvidenceEvent_to_dict (ledger_order es)" "list_all2 entry_holds xs (ledger_order es)"
    "rmap (LedgerEntry_from_dict rt) (map LedgerEntry_to_dict xs) = Inr xs"
    using build_entries_Inr [OF rt, of "ledger_order es" "{}" ?g 0] es g by auto
  let ?l = "\<lparr>lg_entries = xs, lg_genesis = JStr ?g, lg_version = U ''2.0''\<rparr>"
  have b: "build_ledger rt es = Inr ?l" using es xs(1) by (simp add: build_ledger_def Let_def)
  have v: "ledger_verify rt ?l None" using xs es(3) by (simp add: ledger_verify_def ledger_versions_def)
  have "EvidenceLedger_from_dict rt (EvidenceLedger_to_dict rt ?l) None = Inr ?l"
    using xs(2,6) es(3) v
    by (simp add: EvidenceLedger_from_dict_def EvidenceLedger_to_dict_def exact_fields_def ledger_versions_def Let_def)
  then show ?thesis
    using b v xs(4,5) es(2) by (intro exI [of _ ?l]) (simp add: ledger_events_are_def)
qed

lemma build_ledger_perm:
  assumes "mset es = mset fs"
  shows "build_ledger rt es = build_ledger rt fs"
proof (cases "distinct (map ev_id es)")
  case True
  then have "inj_on (\<lambda>e. (ev_ingested_at e, ev_id e)) (set es)" by (auto simp: distinct_map inj_on_def)
  then have "ledger_order es = ledger_order fs"
    unfolding ledger_order_def by (rule sort_key_perm_eq [OF assms])
  then show ?thesis using mset_eq_length [OF assms] by (simp add: build_ledger_def)
next
  case False
  moreover have "distinct (map ev_id es) = distinct (map ev_id fs)"
    using assms by (metis mset_eq_imp_distinct_iff mset_map)
  ultimately show ?thesis using mset_eq_length [OF assms] by (simp add: build_ledger_def Let_def)
qed

lemma build_entries_length: "build_entries rt n p es = Inr xs \<Longrightarrow> length xs = length es"
  by (induction es arbitrary: n p xs) (auto simp: Let_def)

lemma build_entries_append:
  "build_entries rt n p (es @ fs) = rbind (build_entries rt n p es) (\<lambda>xs.
     rbind (build_entries rt (n + int (length es)) (ledger.head rt (U ''2.0'') n p es) fs) (\<lambda>ys. Inr (xs @ ys)))"
proof (induction es arbitrary: n p)
  case Nil
  show ?case by (cases "build_entries rt n p fs") simp_all
next
  case (Cons e es)
  show ?case
    by (cases "LedgerEntry_init n (ev_id e) (EvidenceEvent_to_dict e) p (ledger_digest rt p e n (U ''2.0''))")
      (simp_all add: Let_def Cons.IH ledger_digest_def algebra_simps rbind_assoc)
qed

text \<open>Later events extend the ledger; the entries already written stay as they are.\<close>

lemma build_ledger_extends:
  assumes "build_ledger rt (es @ fs) = Inr m"
    and later: "\<And>e f. e \<in> set es \<Longrightarrow> f \<in> set fs \<Longrightarrow> ev_ingested_at e < ev_ingested_at f"
  shows "\<exists>l xs. build_ledger rt es = Inr l \<and> lg_entries m = lg_entries l @ xs \<and> length xs = length fs"
proof -
  let ?g = "rt_sha256 rt (ledger_seed (U ''2.0''))"
  have o1: "ledger_order (es @ fs) = ledger_order es @ ledger_order fs"
    unfolding ledger_order_def using later by (intro sort_key_append) simp
  from assms(1) obtain zs where zs: "build_entries rt 0 ?g (ledger_order es @ ledger_order fs) = Inr zs"
    and m: "lg_entries m = zs" and d: "distinct (map ev_id (es @ fs))" "int (length (es @ fs)) \<le> max_ledger_entries"
    by (auto simp: build_ledger_def Let_def o1)
  obtain xs ys where xs: "build_entries rt 0 ?g (ledger_order es) = Inr xs"
    and ys: "build_entries rt (int (length es)) (ledger.head rt (U ''2.0'') 0 ?g (ledger_order es)) (ledger_order fs) = Inr ys"
    and "zs = xs @ ys"
    using zs by (auto simp: build_entries_append)
  moreover have "length ys = length fs"
    using build_entries_length [OF ys] by simp
  ultimately show ?thesis
    using m d by (auto simp: build_ledger_def Let_def)
qed

end
