(* ===== verification/Authority.thy ===== *)
theory Authority
  imports Ledger
begin

text \<open>
  Authority declarations and workflow commands (authority.py): identifiers and other scalar checks,
  actors with scoped roles, the policy with its approval quorum, artifact references and transitions.
  \<open>X_init\<close> is the constructor with its checks; the lemmas show that every accepted record
  satisfies \<open>X_ok\<close> and reads back from its own dictionary view.
\<close>

subsection \<open>Scalar checks\<close>

definition max_workflow_records :: int where
  "max_workflow_records = 10000"

definition max_workflow_artifacts :: int where
  "max_workflow_artifacts = 1024"

definition ident_first :: "nat \<Rightarrow> bool" where
  "ident_first c \<longleftrightarrow> (65 \<le> c \<and> c \<le> 90) \<or> (97 \<le> c \<and> c \<le> 122) \<or> (48 \<le> c \<and> c \<le> 57)"

text \<open>Letters, digits, and \<open>. _ : / -\<close>.\<close>

definition ident_char :: "nat \<Rightarrow> bool" where
  "ident_char c \<longleftrightarrow> ident_first c \<or> c = 46 \<or> c = 95 \<or> c = 58 \<or> c = 47 \<or> c = 45"

definition is_identifier :: "ustr \<Rightarrow> bool" where
  "is_identifier s \<longleftrightarrow> s \<noteq> [] \<and> length s \<le> 128 \<and> ident_first (hd s) \<and> list_all ident_char s"

definition identifier_value :: "json \<Rightarrow> string \<Rightarrow> ustr result" where
  "identifier_value v path =
     (case v of
        JStr s \<Rightarrow> if is_identifier s then Inr s
          else Inl (ValidationError (path @ '' must be a 1..128 character ASCII identifier''))
      | _ \<Rightarrow> Inl (ValidationError (path @ '' must be a 1..128 character ASCII identifier'')))"

definition description :: "json \<Rightarrow> string \<Rightarrow> nat \<Rightarrow> ustr result" where
  "description v path maximum =
     rbind (text_value v path False) (\<lambda>s.
     rbind (require (s = strip s \<and> length s \<le> maximum) (path @ '' must be canonical bounded text'')) (\<lambda>_.
     Inr s))"

definition integer_value :: "json \<Rightarrow> string \<Rightarrow> int \<Rightarrow> int \<Rightarrow> int result" where
  "integer_value v path maximum minimum =
     (case v of
        JInt n \<Rightarrow> if minimum \<le> n \<and> n \<le> maximum then Inr n
          else Inl (ValidationError (path @ '' must be an integer in range''))
      | _ \<Rightarrow> Inl (ValidationError (path @ '' must be an integer in range'')))"

definition array_value :: "json \<Rightarrow> string \<Rightarrow> nat \<Rightarrow> json list result" where
  "array_value v path maximum =
     (case v of
        JArr xs \<Rightarrow> if length xs \<le> maximum then Inr xs
          else Inl (ValidationError (path @ '' must be a bounded array''))
      | _ \<Rightarrow> Inl (ValidationError (path @ '' must be a bounded array'')))"

definition known_enum :: "json \<Rightarrow> ('a \<Rightarrow> string) \<Rightarrow> 'a list \<Rightarrow> string \<Rightarrow> 'a result" where
  "known_enum v spelling members path =
     (case v of
        JStr s \<Rightarrow> (case member_of spelling members s of
                     None \<Rightarrow> Inl (ValidationError (path @ '' must be a known enum string''))
                   | Some m \<Rightarrow> Inr m)
      | _ \<Rightarrow> Inl (ValidationError (path @ '' must be a known enum string'')))"

lemma identifier_Inr [simp]: "identifier_value v path = Inr s \<longleftrightarrow> v = JStr s \<and> is_identifier s"
  by (cases v) (auto simp: identifier_value_def)

lemma identifier_Inl: "is_identifier s \<Longrightarrow> identifier_value (JStr s) path = Inr s"
  by simp

lemma integer_value_Inr [simp]:
  "integer_value v path maximum minimum = Inr n \<longleftrightarrow> v = JInt n \<and> minimum \<le> n \<and> n \<le> maximum"
  by (cases v) (auto simp: integer_value_def)

lemma array_value_Inr [simp]: "array_value v path m = Inr xs \<longleftrightarrow> v = JArr xs \<and> length xs \<le> m"
  by (cases v) (auto simp: array_value_def)

lemma known_enum_Inr: "known_enum v spelling members path = Inr m \<longleftrightarrow> (\<exists>s. v = JStr s \<and> member_of spelling members s = Some m)"
  by (cases v) (auto simp: known_enum_def split: option.splits)

definition description_ok :: "ustr \<Rightarrow> nat \<Rightarrow> bool" where
  "description_ok s maximum \<longleftrightarrow> text_ok s \<and> length s \<le> maximum"

lemma description_Inr [simp]: "description v path m = Inr s \<longleftrightarrow> v = JStr s \<and> description_ok s m"
  by (auto simp: description_def text_value_untrimmed description_ok_def text_ok_def)

text \<open>Identifiers are ASCII, hence valid text.\<close>

lemma identifier_text_ok:
  assumes "is_identifier s"
  shows "text_ok s"
proof -
  have "48 \<le> c \<and> c \<le> 122 \<or> c = 45 \<or> c = 46 \<or> c = 47" if "c \<in> set s" for c
    using assms that by (auto simp: is_identifier_def list_all_iff ident_char_def ident_first_def)
  moreover from this have "\<not> is_space c" if "c \<in> set s" for c
    using that by (fastforce simp: is_space_def)
  ultimately show ?thesis
    using assms by (fastforce simp: text_ok_def is_identifier_def is_xml_character_def stripped_def list_all_iff)
qed

subsection \<open>Enumerations\<close>

datatype actor_kind = HUMAN | AUTOMATION
datatype authority_role = AUTHOR | REVIEWER | REVOKER
datatype workflow_action = CREATE | BIND_EVIDENCE | BIND_ARTIFACT | SUBMIT | APPROVE | REJECT_CLAIM | REVOKE
datatype claim_status = DRAFT | SUBMITTED | APPROVED | REJECTED | REVOKED

fun kind_value :: "actor_kind \<Rightarrow> string" where
  "kind_value HUMAN = ''human''" | "kind_value AUTOMATION = ''automation''"

fun role_value :: "authority_role \<Rightarrow> string" where
  "role_value AUTHOR = ''author''" | "role_value REVIEWER = ''reviewer''" | "role_value REVOKER = ''revoker''"

fun action_value :: "workflow_action \<Rightarrow> string" where
  "action_value CREATE = ''create''" | "action_value BIND_EVIDENCE = ''bind_evidence''"
| "action_value BIND_ARTIFACT = ''bind_artifact''" | "action_value SUBMIT = ''submit''"
| "action_value APPROVE = ''approve''" | "action_value REJECT_CLAIM = ''reject''"
| "action_value REVOKE = ''revoke''"

fun status_value :: "claim_status \<Rightarrow> string" where
  "status_value DRAFT = ''draft''" | "status_value SUBMITTED = ''submitted''"
| "status_value APPROVED = ''approved''" | "status_value REJECTED = ''rejected''"
| "status_value REVOKED = ''revoked''"

definition kinds_all :: "actor_kind list" where
  "kinds_all = [HUMAN, AUTOMATION]"

definition roles_all :: "authority_role list" where
  "roles_all = [AUTHOR, REVIEWER, REVOKER]"

definition actions_all :: "workflow_action list" where
  "actions_all = [CREATE, BIND_EVIDENCE, BIND_ARTIFACT, SUBMIT, APPROVE, REJECT_CLAIM, REVOKE]"

lemma spelling_inj [simp]:
  "kind_value a = kind_value b \<longleftrightarrow> a = b"
  "role_value c = role_value d \<longleftrightarrow> c = d"
  "action_value e = action_value f \<longleftrightarrow> e = f"
  "status_value g = status_value h \<longleftrightarrow> g = h"
  by ((cases a; cases b; simp), (cases c; cases d; simp), (cases e; cases f; simp), (cases g; cases h; simp))

lemma member_of_authority [simp]:
  "member_of kind_value kinds_all (U (kind_value a)) = Some a"
  "member_of role_value roles_all (U (role_value b)) = Some b"
  "member_of action_value actions_all (U (action_value c)) = Some c"
  by ((cases a; simp add: member_of_def kinds_all_def), (cases b; simp add: member_of_def roles_all_def),
      (cases c; simp add: member_of_def actions_all_def))

lemma known_enum_JText:
  "member_of spelling members (U (spelling m)) = Some m \<Longrightarrow> known_enum (JText (spelling m)) spelling members path = Inr m"
  by (simp add: known_enum_def JText_def)

subsection \<open>Actors\<close>

record scope_grant =
  sg_scope :: ustr
  sg_role :: authority_role

definition ScopeGrant_init :: "json \<Rightarrow> authority_role \<Rightarrow> scope_grant result" where
  "ScopeGrant_init scope role =
     rbind (identifier_value scope ''grant.scope'') (\<lambda>s. Inr \<lparr>sg_scope = s, sg_role = role\<rparr>)"

definition ScopeGrant_to_dict :: "scope_grant \<Rightarrow> json" where
  "ScopeGrant_to_dict g = JObj [(U ''scope'', JStr (sg_scope g)), (U ''role'', JText (role_value (sg_role g)))]"

definition ScopeGrant_from_dict :: "json \<Rightarrow> scope_grant result" where
  "ScopeGrant_from_dict value =
     rbind (exact_fields value [''scope'', ''role''] ''grant'') (\<lambda>data.
     rbind (known_enum (dget data ''role'') role_value roles_all ''grant.role'') (\<lambda>role.
     ScopeGrant_init (dget data ''scope'') role))"

record workflow_actor =
  wa_id :: ustr
  wa_kind :: actor_kind
  wa_grants :: "scope_grant list"

definition grant_key :: "scope_grant \<Rightarrow> ustr \<times> ustr" where
  "grant_key g = (sg_scope g, U (role_value (sg_role g)))"

definition WorkflowActor_init :: "json \<Rightarrow> actor_kind \<Rightarrow> scope_grant list \<Rightarrow> workflow_actor result" where
  "WorkflowActor_init actor_id kind grants =
     rbind (identifier_value actor_id ''actor.actor_id'') (\<lambda>i.
     rbind (require (1 \<le> length grants \<and> length grants \<le> 128) ''actor.grants must contain 1..128 ScopeGrant instances'') (\<lambda>_.
     rbind (require (distinct grants) ''actor grants must be unique'') (\<lambda>_.
     Inr \<lparr>wa_id = i, wa_kind = kind, wa_grants = sort_key grant_key grants\<rparr>)))"

definition WorkflowActor_permits :: "workflow_actor \<Rightarrow> ustr \<Rightarrow> authority_role \<Rightarrow> bool result" where
  "WorkflowActor_permits a scope role =
     rbind (ScopeGrant_init (JStr scope) role) (\<lambda>g. Inr (g \<in> set (wa_grants a)))"

definition WorkflowActor_to_dict :: "workflow_actor \<Rightarrow> json" where
  "WorkflowActor_to_dict a = JObj
     [(U ''actor_id'', JStr (wa_id a)), (U ''kind'', JText (kind_value (wa_kind a))),
      (U ''grants'', JArr (map ScopeGrant_to_dict (wa_grants a)))]"

definition WorkflowActor_from_dict :: "json \<Rightarrow> workflow_actor result" where
  "WorkflowActor_from_dict value =
     rbind (exact_fields value [''actor_id'', ''kind'', ''grants''] ''actor'') (\<lambda>data.
     rbind (known_enum (dget data ''kind'') kind_value kinds_all ''actor.kind'') (\<lambda>kind.
     rbind (array_value (dget data ''grants'') ''grants'' 128) (\<lambda>xs.
     rbind (rmap ScopeGrant_from_dict xs) (\<lambda>grants.
     WorkflowActor_init (dget data ''actor_id'') kind grants))))"

subsection \<open>The policy\<close>

record authority_policy =
  ap_id :: ustr
  ap_actors :: "workflow_actor list"
  ap_quorum :: int

definition AuthorityPolicy_init :: "json \<Rightarrow> workflow_actor list \<Rightarrow> json \<Rightarrow> authority_policy result" where
  "AuthorityPolicy_init policy_id actors quorum =
     rbind (identifier_value policy_id ''authority.policy_id'') (\<lambda>i.
     rbind (integer_value quorum ''authority.approval_quorum'' 16 1) (\<lambda>q.
     rbind (require (1 \<le> length actors \<and> length actors \<le> 256)
              ''authority.actors must contain 1..256 WorkflowActor instances'') (\<lambda>_.
     rbind (require (distinct (map wa_id actors)) ''authority actor IDs must be unique'') (\<lambda>_.
     Inr \<lparr>ap_id = i, ap_actors = sort_key wa_id actors, ap_quorum = q\<rparr>))))"

definition AuthorityPolicy_to_dict :: "authority_policy \<Rightarrow> json" where
  "AuthorityPolicy_to_dict p = JObj
     [(U ''schema_version'', JText ''1.0''), (U ''kind'', JText ''evidence-braid-authority''),
      (U ''policy_id'', JStr (ap_id p)), (U ''approval_quorum'', JInt (ap_quorum p)),
      (U ''actors'', JArr (map WorkflowActor_to_dict (ap_actors p)))]"

definition AuthorityPolicy_digest :: "runtime \<Rightarrow> authority_policy \<Rightarrow> ustr" where
  "AuthorityPolicy_digest rt p = sha_json rt (AuthorityPolicy_to_dict p)"

definition AuthorityPolicy_from_dict :: "json \<Rightarrow> authority_policy result" where
  "AuthorityPolicy_from_dict value =
     rbind (exact_fields value [''schema_version'', ''kind'', ''policy_id'', ''approval_quorum'', ''actors''] ''authority'') (\<lambda>data.
     rbind (require (dget data ''schema_version'' = JText ''1.0'' \<and> dget data ''kind'' = JText ''evidence-braid-authority'')
              ''unsupported authority format'') (\<lambda>_.
     rbind (array_value (dget data ''actors'') ''actors'' 256) (\<lambda>xs.
     rbind (rmap WorkflowActor_from_dict xs) (\<lambda>actors.
     AuthorityPolicy_init (dget data ''policy_id'') actors (dget data ''approval_quorum'')))))"

subsection \<open>Artifact references\<close>

record artifact_reference =
  ar_id :: ustr
  ar_scope :: ustr
  ar_claim :: ustr
  ar_sha256 :: ustr
  ar_size :: int
  ar_media :: ustr

definition ArtifactReference_init ::
  "json \<Rightarrow> json \<Rightarrow> json \<Rightarrow> json \<Rightarrow> json \<Rightarrow> json \<Rightarrow> artifact_reference result" where
  "ArtifactReference_init artifact_id scope claim_id sha256 size_bytes media_type =
     rbind (identifier_value artifact_id ''artifact.artifact_id'') (\<lambda>i.
     rbind (identifier_value scope ''artifact.scope'') (\<lambda>s.
     rbind (identifier_value claim_id ''artifact.claim_id'') (\<lambda>c.
     rbind (hash_value sha256 ''artifact.sha256'') (\<lambda>h.
     rbind (integer_value size_bytes ''artifact.size_bytes'' (64 * 1024 * 1024) 0) (\<lambda>n.
     rbind (description media_type ''artifact.media_type'' 128) (\<lambda>m.
     Inr \<lparr>ar_id = i, ar_scope = s, ar_claim = c, ar_sha256 = h, ar_size = n, ar_media = m\<rparr>))))))"

definition ArtifactReference_matches :: "runtime \<Rightarrow> artifact_reference \<Rightarrow> bytes \<Rightarrow> bool" where
  "ArtifactReference_matches rt a content \<longleftrightarrow> int (length content) = ar_size a \<and> rt_sha256 rt content = ar_sha256 a"

definition ArtifactReference_to_dict :: "artifact_reference \<Rightarrow> json" where
  "ArtifactReference_to_dict a = JObj
     [(U ''artifact_id'', JStr (ar_id a)), (U ''scope'', JStr (ar_scope a)), (U ''claim_id'', JStr (ar_claim a)),
      (U ''sha256'', JStr (ar_sha256 a)), (U ''size_bytes'', JInt (ar_size a)), (U ''media_type'', JStr (ar_media a))]"

definition ArtifactReference_from_dict :: "json \<Rightarrow> artifact_reference result" where
  "ArtifactReference_from_dict value =
     rbind (exact_fields value [''artifact_id'', ''scope'', ''claim_id'', ''sha256'', ''size_bytes'', ''media_type'']
              ''artifact'') (\<lambda>data.
     ArtifactReference_init (dget data ''artifact_id'') (dget data ''scope'') (dget data ''claim_id'')
       (dget data ''sha256'') (dget data ''size_bytes'') (dget data ''media_type''))"

subsection \<open>Transitions\<close>

record workflow_transition =
  wt_id :: ustr
  wt_action :: workflow_action
  wt_actor :: ustr
  wt_scope :: ustr
  wt_claim :: ustr
  wt_expected :: int
  wt_statement :: "ustr option"
  wt_reference :: "ustr option"
  wt_reference_digest :: "ustr option"
  wt_reason :: "ustr option"

text \<open>A field some actions require and the others forbid.\<close>

definition only_when :: "bool \<Rightarrow> ustr result \<Rightarrow> json \<Rightarrow> string \<Rightarrow> ustr option result" where
  "only_when wanted checked v message =
     (if wanted then rbind checked (\<lambda>s. Inr (Some s))
      else if v = JNull then Inr None else Inl (ValidationError message))"

definition WorkflowTransition_init ::
  "json \<Rightarrow> workflow_action \<Rightarrow> json \<Rightarrow> json \<Rightarrow> json \<Rightarrow> json \<Rightarrow> json \<Rightarrow> json \<Rightarrow> json \<Rightarrow> json \<Rightarrow> workflow_transition result"
where
  "WorkflowTransition_init transition_id action actor_id scope claim_id expected statement ref_id ref_digest reason =
     rbind (identifier_value transition_id ''transition.transition_id'') (\<lambda>i.
     rbind (identifier_value actor_id ''transition.actor_id'') (\<lambda>a.
     rbind (identifier_value scope ''transition.scope'') (\<lambda>s.
     rbind (identifier_value claim_id ''transition.claim_id'') (\<lambda>c.
     rbind (integer_value expected ''transition.expected_revision'' max_workflow_records 0) (\<lambda>n.
     rbind (only_when (action = CREATE) (description statement ''transition.statement'' 8192) statement
              ''only create accepts a statement'') (\<lambda>st.
     rbind (only_when (action = BIND_EVIDENCE \<or> action = BIND_ARTIFACT)
              (identifier_value ref_id ''transition.reference_id'') ref_id ''only bind actions accept a reference'') (\<lambda>r.
     rbind (only_when (action = BIND_EVIDENCE \<or> action = BIND_ARTIFACT)
              (hash_value ref_digest ''transition.reference_digest'') ref_digest
              ''only bind actions accept a reference'') (\<lambda>d.
     rbind (only_when (action = REJECT_CLAIM \<or> action = REVOKE) (description reason ''transition.reason'' 8192) reason
              ''only reject/revoke accept a reason'') (\<lambda>why.
     Inr \<lparr>wt_id = i, wt_action = action, wt_actor = a, wt_scope = s, wt_claim = c, wt_expected = n,
          wt_statement = st, wt_reference = r, wt_reference_digest = d, wt_reason = why\<rparr>)))))))))"

definition WorkflowTransition_to_dict :: "workflow_transition \<Rightarrow> json" where
  "WorkflowTransition_to_dict t = JObj
     [(U ''transition_id'', JStr (wt_id t)), (U ''action'', JText (action_value (wt_action t))),
      (U ''actor_id'', JStr (wt_actor t)), (U ''scope'', JStr (wt_scope t)), (U ''claim_id'', JStr (wt_claim t)),
      (U ''expected_revision'', JInt (wt_expected t)), (U ''statement'', JOpt (wt_statement t)),
      (U ''reference_id'', JOpt (wt_reference t)), (U ''reference_digest'', JOpt (wt_reference_digest t)),
      (U ''reason'', JOpt (wt_reason t))]"

definition transition_fields :: "string list" where
  "transition_fields = [''transition_id'', ''action'', ''actor_id'', ''scope'', ''claim_id'', ''expected_revision'',
     ''statement'', ''reference_id'', ''reference_digest'', ''reason'']"

definition WorkflowTransition_from_dict :: "json \<Rightarrow> workflow_transition result" where
  "WorkflowTransition_from_dict value =
     rbind (exact_fields value transition_fields ''transition'') (\<lambda>data.
     rbind (known_enum (dget data ''action'') action_value actions_all ''transition.action'') (\<lambda>action.
     WorkflowTransition_init (dget data ''transition_id'') action (dget data ''actor_id'') (dget data ''scope'')
       (dget data ''claim_id'') (dget data ''expected_revision'') (dget data ''statement'')
       (dget data ''reference_id'') (dget data ''reference_digest'') (dget data ''reason'')))"

subsection \<open>Accepted records and round trips\<close>

definition grant_ok :: "scope_grant \<Rightarrow> bool" where
  "grant_ok g \<longleftrightarrow> is_identifier (sg_scope g)"

definition actor_ok :: "workflow_actor \<Rightarrow> bool" where
  "actor_ok a \<longleftrightarrow> is_identifier (wa_id a) \<and> wa_grants a \<noteq> [] \<and> length (wa_grants a) \<le> 128
     \<and> distinct (wa_grants a) \<and> sorted (map grant_key (wa_grants a)) \<and> (\<forall>g \<in> set (wa_grants a). grant_ok g)"

definition authority_ok :: "authority_policy \<Rightarrow> bool" where
  "authority_ok p \<longleftrightarrow> is_identifier (ap_id p) \<and> 1 \<le> ap_quorum p \<and> ap_quorum p \<le> 16
     \<and> ap_actors p \<noteq> [] \<and> length (ap_actors p) \<le> 256 \<and> distinct (map wa_id (ap_actors p))
     \<and> sorted (map wa_id (ap_actors p)) \<and> (\<forall>a \<in> set (ap_actors p). actor_ok a)"

definition artifact_ok :: "artifact_reference \<Rightarrow> bool" where
  "artifact_ok a \<longleftrightarrow> is_identifier (ar_id a) \<and> is_identifier (ar_scope a) \<and> is_identifier (ar_claim a)
     \<and> is_hash (ar_sha256 a) \<and> 0 \<le> ar_size a \<and> ar_size a \<le> 64 * 1024 * 1024 \<and> description_ok (ar_media a) 128"

definition given_when :: "bool \<Rightarrow> (ustr \<Rightarrow> bool) \<Rightarrow> ustr option \<Rightarrow> bool" where
  "given_when wanted ok x \<longleftrightarrow> (if wanted then (\<exists>s. x = Some s \<and> ok s) else x = None)"

definition transition_ok :: "workflow_transition \<Rightarrow> bool" where
  "transition_ok t \<longleftrightarrow> is_identifier (wt_id t) \<and> is_identifier (wt_actor t) \<and> is_identifier (wt_scope t)
     \<and> is_identifier (wt_claim t) \<and> 0 \<le> wt_expected t \<and> wt_expected t \<le> max_workflow_records
     \<and> given_when (wt_action t = CREATE) (\<lambda>s. description_ok s 8192) (wt_statement t)
     \<and> given_when (wt_action t = BIND_EVIDENCE \<or> wt_action t = BIND_ARTIFACT) is_identifier (wt_reference t)
     \<and> given_when (wt_action t = BIND_EVIDENCE \<or> wt_action t = BIND_ARTIFACT) is_hash (wt_reference_digest t)
     \<and> given_when (wt_action t = REJECT_CLAIM \<or> wt_action t = REVOKE) (\<lambda>s. description_ok s 8192) (wt_reason t)"

lemma ScopeGrant_init_Inr [simp]:
  "ScopeGrant_init v r = Inr g \<longleftrightarrow> v = JStr (sg_scope g) \<and> r = sg_role g \<and> grant_ok g"
  by (auto simp: ScopeGrant_init_def grant_ok_def)

lemma WorkflowActor_init_Inr:
  "WorkflowActor_init v k gs = Inr a \<Longrightarrow> (\<forall>g \<in> set gs. grant_ok g) \<Longrightarrow> actor_ok a"
  by (auto simp: WorkflowActor_init_def actor_ok_def)

lemma WorkflowActor_init_id [simp]:
  "actor_ok a \<Longrightarrow> WorkflowActor_init (JStr (wa_id a)) (wa_kind a) (wa_grants a) = Inr a"
  by (cases a) (auto simp: WorkflowActor_init_def actor_ok_def sort_key_sorted Suc_le_eq)

lemma AuthorityPolicy_init_Inr:
  "AuthorityPolicy_init v as q = Inr p \<Longrightarrow> (\<forall>a \<in> set as. actor_ok a) \<Longrightarrow> authority_ok p"
  by (auto simp: AuthorityPolicy_init_def authority_ok_def)

lemma AuthorityPolicy_init_id [simp]:
  "authority_ok p \<Longrightarrow> AuthorityPolicy_init (JStr (ap_id p)) (ap_actors p) (JInt (ap_quorum p)) = Inr p"
  by (cases p) (auto simp: AuthorityPolicy_init_def authority_ok_def sort_key_sorted Suc_le_eq)

lemma ArtifactReference_init_Inr: "ArtifactReference_init i s c h n m = Inr a \<Longrightarrow> artifact_ok a"
  by (auto simp: ArtifactReference_init_def artifact_ok_def)

lemma only_when_Inr:
  "only_when w c v msg = Inr x \<longleftrightarrow> (if w then (\<exists>s. c = Inr s \<and> x = Some s) else v = JNull \<and> x = None)"
  by (auto simp: only_when_def)

lemma WorkflowTransition_init_Inr: "WorkflowTransition_init i a c s k n st r d w = Inr t \<Longrightarrow> transition_ok t"
  by (auto simp: WorkflowTransition_init_def transition_ok_def only_when_Inr given_when_def)

lemma ScopeGrant_roundtrip: "grant_ok g \<Longrightarrow> ScopeGrant_from_dict (ScopeGrant_to_dict g) = Inr g"
  by (simp add: ScopeGrant_from_dict_def ScopeGrant_to_dict_def exact_fields_def known_enum_JText)

lemma WorkflowActor_roundtrip: "actor_ok a \<Longrightarrow> WorkflowActor_from_dict (WorkflowActor_to_dict a) = Inr a"
proof -
  assume a: "actor_ok a"
  then have "rmap ScopeGrant_from_dict (map ScopeGrant_to_dict (wa_grants a)) = Inr (wa_grants a)"
    by (auto simp: rmap_Inr_iff list_all2_conv_all_nth actor_ok_def ScopeGrant_roundtrip)
  moreover have "length (wa_grants a) \<le> 128" using a by (simp add: actor_ok_def)
  ultimately show ?thesis using a
    by (simp add: WorkflowActor_from_dict_def WorkflowActor_to_dict_def exact_fields_def known_enum_JText)
qed

lemma AuthorityPolicy_roundtrip: "authority_ok p \<Longrightarrow> AuthorityPolicy_from_dict (AuthorityPolicy_to_dict p) = Inr p"
proof -
  assume p: "authority_ok p"
  then have "rmap WorkflowActor_from_dict (map WorkflowActor_to_dict (ap_actors p)) = Inr (ap_actors p)"
    by (auto simp: rmap_Inr_iff list_all2_conv_all_nth authority_ok_def WorkflowActor_roundtrip)
  moreover have "length (ap_actors p) \<le> 256" using p by (simp add: authority_ok_def)
  ultimately show ?thesis using p
    by (simp add: AuthorityPolicy_from_dict_def AuthorityPolicy_to_dict_def exact_fields_def)
qed

lemma AuthorityPolicy_from_dict_ok:
  assumes "AuthorityPolicy_from_dict v = Inr p"
  shows "authority_ok p"
proof -
  have grants: "\<forall>g \<in> set gs. grant_ok g" if "rmap ScopeGrant_from_dict xs = Inr gs" for xs gs
    using rmap_Inr_elem_rev [OF that] by (auto simp: ScopeGrant_from_dict_def)
  have "\<forall>a \<in> set as. actor_ok a" if "rmap WorkflowActor_from_dict xs = Inr as" for xs as
    using rmap_Inr_elem_rev [OF that] grants
    by (fastforce simp: WorkflowActor_from_dict_def dest: WorkflowActor_init_Inr)
  with assms show ?thesis
    by (auto simp: AuthorityPolicy_from_dict_def dest: AuthorityPolicy_init_Inr)
qed

lemma ArtifactReference_roundtrip:
  "artifact_ok a \<Longrightarrow> ArtifactReference_from_dict (ArtifactReference_to_dict a) = Inr a"
  by (cases a) (simp add: ArtifactReference_from_dict_def ArtifactReference_to_dict_def exact_fields_def
      ArtifactReference_init_def artifact_ok_def)

lemma only_when_JOpt: "given_when w ok x \<Longrightarrow> (\<And>s. ok s \<Longrightarrow> x = Some s \<Longrightarrow> c = Inr s) \<Longrightarrow> only_when w c (JOpt x) msg = Inr x"
  by (auto simp: only_when_Inr given_when_def JOpt_def split: if_splits)

lemma WorkflowTransition_roundtrip:
  assumes "transition_ok t"
  shows "WorkflowTransition_from_dict (WorkflowTransition_to_dict t) = Inr t"
proof -
  let ?bind = "wt_action t = BIND_EVIDENCE \<or> wt_action t = BIND_ARTIFACT"
  have "only_when (wt_action t = CREATE) (description (JOpt (wt_statement t)) p 8192) (JOpt (wt_statement t)) m
      = Inr (wt_statement t)" for p m
    using assms by (intro only_when_JOpt [where ok = "\<lambda>s. description_ok s 8192"])
      (auto simp: transition_ok_def JOpt_def split: option.splits)
  moreover have "only_when ?bind (identifier_value (JOpt (wt_reference t)) p) (JOpt (wt_reference t)) m
      = Inr (wt_reference t)" for p m
    using assms by (intro only_when_JOpt [where ok = is_identifier]) (auto simp: transition_ok_def JOpt_def)
  moreover have "only_when ?bind (hash_value (JOpt (wt_reference_digest t)) p) (JOpt (wt_reference_digest t)) m
      = Inr (wt_reference_digest t)" for p m
    using assms by (intro only_when_JOpt [where ok = is_hash]) (auto simp: transition_ok_def JOpt_def)
  moreover have "only_when (wt_action t = REJECT_CLAIM \<or> wt_action t = REVOKE)
      (description (JOpt (wt_reason t)) p 8192) (JOpt (wt_reason t)) m = Inr (wt_reason t)" for p m
    using assms by (intro only_when_JOpt [where ok = "\<lambda>s. description_ok s 8192"])
      (auto simp: transition_ok_def JOpt_def split: option.splits)
  ultimately show ?thesis
    using assms
    by (cases t) (simp add: WorkflowTransition_from_dict_def WorkflowTransition_to_dict_def exact_fields_def
        transition_fields_def known_enum_JText WorkflowTransition_init_def transition_ok_def insert_commute)
qed

end
