(* ===== verification/Workflow.thy ===== *)
theory Workflow
  imports Authority "HOL-Library.AList"
begin

text \<open>
  Authority-checked workflows (workflow.py): receipts and the bundle that chains them, claim states, the
  replay of every transition against a trusted policy, appending and building, and the JSON reader. Files and
  atomic publication (load_workflow_bundle, write_workflow_bundle) only move bytes and are not modelled.
\<close>

subsection \<open>Receipts\<close>

definition max_workflow_bytes :: int where
  "max_workflow_bytes = 64 * 1024 * 1024"

text \<open>\<open>_digest\<close>: canonical JSON can fail, on a number that is not finite.\<close>

definition json_digest :: "runtime \<Rightarrow> json \<Rightarrow> ustr result" where
  "json_digest rt v = rbind (canonical_json rt v) (\<lambda>s. Inr (rt_sha256 rt (utf8 s)))"

lemma json_digest_finite [simp]: "json_finite v \<Longrightarrow> json_digest rt v = Inr (sha_json rt v)"
  by (simp add: json_digest_def canonical_json_def sha_json_def canonical_bytes_def)

record workflow_receipt =
  wr_sequence :: int
  wr_context :: ustr
  wr_previous :: ustr
  wr_transition :: workflow_transition
  wr_digest :: ustr

definition WorkflowReceipt_init :: "json \<Rightarrow> json \<Rightarrow> json \<Rightarrow> workflow_transition \<Rightarrow> json \<Rightarrow> workflow_receipt result" where
  "WorkflowReceipt_init seq context previous t digest =
     rbind (integer_value seq ''receipt.sequence'' (max_workflow_records - 1) 0) (\<lambda>n.
     rbind (hash_value context ''receipt.context_digest'') (\<lambda>c.
     rbind (hash_value previous ''receipt.previous_digest'') (\<lambda>p.
     rbind (hash_value digest ''receipt.digest'') (\<lambda>d.
     Inr \<lparr>wr_sequence = n, wr_context = c, wr_previous = p, wr_transition = t, wr_digest = d\<rparr>))))"

definition receipt_pairs :: "int \<Rightarrow> ustr \<Rightarrow> ustr \<Rightarrow> workflow_transition \<Rightarrow> (ustr \<times> json) list" where
  "receipt_pairs n context previous t =
     [(U ''schema_version'', JText ''1.0''), (U ''sequence'', JInt n), (U ''context_digest'', JStr context),
      (U ''previous_digest'', JStr previous), (U ''transition'', WorkflowTransition_to_dict t)]"

definition WorkflowReceipt_content :: "workflow_receipt \<Rightarrow> json" where
  "WorkflowReceipt_content r =
     JObj (receipt_pairs (wr_sequence r) (wr_context r) (wr_previous r) (wr_transition r))"

definition WorkflowReceipt_to_dict :: "workflow_receipt \<Rightarrow> json" where
  "WorkflowReceipt_to_dict r =
     JObj (receipt_pairs (wr_sequence r) (wr_context r) (wr_previous r) (wr_transition r)
       @ [(U ''digest'', JStr (wr_digest r))])"

definition WorkflowReceipt_from_dict :: "json \<Rightarrow> workflow_receipt result" where
  "WorkflowReceipt_from_dict value =
     rbind (exact_fields value [''schema_version'', ''sequence'', ''context_digest'', ''previous_digest'',
              ''transition'', ''digest''] ''receipt'') (\<lambda>data.
     rbind (require (dget data ''schema_version'' = JText ''1.0'') ''unsupported workflow receipt version'') (\<lambda>_.
     rbind (WorkflowTransition_from_dict (dget data ''transition'')) (\<lambda>t.
     WorkflowReceipt_init (dget data ''sequence'') (dget data ''context_digest'') (dget data ''previous_digest'') t
       (dget data ''digest''))))"

subsection \<open>Bundles\<close>

record workflow_bundle =
  wb_id :: ustr
  wb_authority :: ustr
  wb_evidence :: evidence_ledger
  wb_artifacts :: "artifact_reference list"
  wb_records :: "workflow_receipt list"

definition context_document :: "ustr \<Rightarrow> ustr \<Rightarrow> json \<Rightarrow> artifact_reference list \<Rightarrow> json" where
  "context_document workflow_id authority head artifacts = JObj
     [(U ''kind'', JText ''evidence-braid-workflow-context''), (U ''schema_version'', JText ''1.0''),
      (U ''workflow_id'', JStr workflow_id), (U ''authority_digest'', JStr authority),
      (U ''evidence_head'', head), (U ''artifacts'', JArr (map ArtifactReference_to_dict artifacts))]"

text \<open>The evidence of a bundle is verified first, so its head is a digest and the document has canonical bytes.\<close>

definition WorkflowBundle_context :: "runtime \<Rightarrow> workflow_bundle \<Rightarrow> ustr" where
  "WorkflowBundle_context rt b =
     sha_json rt (context_document (wb_id b) (wb_authority b) (ledger_head (wb_evidence b)) (wb_artifacts b))"

definition WorkflowBundle_head :: "runtime \<Rightarrow> workflow_bundle \<Rightarrow> ustr" where
  "WorkflowBundle_head rt b =
     (if wb_records b = [] then WorkflowBundle_context rt b else wr_digest (last (wb_records b)))"

definition WorkflowBundle_to_dict :: "runtime \<Rightarrow> workflow_bundle \<Rightarrow> json" where
  "WorkflowBundle_to_dict rt b = JObj
     [(U ''kind'', JText ''evidence-braid-workflow-bundle''), (U ''schema_version'', JText ''1.0''),
      (U ''workflow_id'', JStr (wb_id b)), (U ''authority_digest'', JStr (wb_authority b)),
      (U ''evidence'', EvidenceLedger_to_dict rt (wb_evidence b)),
      (U ''artifacts'', JArr (map ArtifactReference_to_dict (wb_artifacts b))),
      (U ''context_digest'', JStr (WorkflowBundle_context rt b)),
      (U ''head_digest'', JStr (WorkflowBundle_head rt b)),
      (U ''record_count'', JInt (int (length (wb_records b)))),
      (U ''records'', JArr (map WorkflowReceipt_to_dict (wb_records b)))]"

text \<open>The loop of \<open>__post_init__\<close> over the receipts.\<close>

fun verify_receipts :: "runtime \<Rightarrow> ustr \<Rightarrow> int \<Rightarrow> ustr \<Rightarrow> ustr set \<Rightarrow> workflow_receipt list \<Rightarrow> bool" where
  "verify_receipts rt context seq previous ids [] = True"
| "verify_receipts rt context seq previous ids (r # rs) =
     (if wr_sequence r \<noteq> seq \<or> wr_context r \<noteq> context \<or> wr_previous r \<noteq> previous
         \<or> wr_digest r \<noteq> sha_json rt (WorkflowReceipt_content r) \<or> wt_id (wr_transition r) \<in> ids
      then False
      else verify_receipts rt context (seq + 1) (wr_digest r) (insert (wt_id (wr_transition r)) ids) rs)"

definition WorkflowBundle_init ::
  "runtime \<Rightarrow> json \<Rightarrow> json \<Rightarrow> evidence_ledger \<Rightarrow> artifact_reference list \<Rightarrow> workflow_receipt list \<Rightarrow> workflow_bundle result"
where
  "WorkflowBundle_init rt workflow_id authority evidence artifacts records =
     rbind (identifier_value workflow_id ''workflow.workflow_id'') (\<lambda>i.
     rbind (hash_value authority ''workflow.authority_digest'') (\<lambda>a.
     rbind (require (ledger_verify rt evidence None) ''workflow requires a verified evidence ledger'') (\<lambda>_.
     rbind (require (int (length artifacts) \<le> max_workflow_artifacts)
              ''workflow artifacts must be a bounded ArtifactReference tuple'') (\<lambda>_.
     rbind (require (distinct (map ar_id artifacts)) ''workflow artifact IDs must be unique'') (\<lambda>_.
     rbind (require (int (length records) \<le> max_workflow_records)
              ''workflow records must be a bounded WorkflowReceipt tuple'') (\<lambda>_.
     let b = \<lparr>wb_id = i, wb_authority = a, wb_evidence = evidence, wb_artifacts = sort_key ar_id artifacts,
              wb_records = records\<rparr>;
         context = WorkflowBundle_context rt b in
     rbind (require (verify_receipts rt context 0 context {} records)
              ''workflow receipt integrity/order verification failed'') (\<lambda>_.
     rbind (canonical_json rt (WorkflowBundle_to_dict rt b)) (\<lambda>s.
     rbind (require (int (length (utf8 s)) \<le> max_workflow_bytes) ''workflow bundle exceeds the 64 MiB limit'') (\<lambda>_.
     Inr b)))))))))"

subsection \<open>Claims\<close>

record claim_workflow =
  cw_claim :: ustr
  cw_scope :: ustr
  cw_statement :: ustr
  cw_status :: claim_status
  cw_revision :: int
  cw_authors :: "ustr list"
  cw_evidence :: "ustr list"
  cw_artifacts :: "ustr list"
  cw_approvals :: "ustr list"

definition claim_tuple :: "string \<Rightarrow> int \<Rightarrow> int \<Rightarrow> ustr list \<Rightarrow> unit result" where
  "claim_tuple name maximum minimum values =
     rbind (require (minimum \<le> int (length values) \<and> int (length values) \<le> maximum)
              (name @ '' must be a bounded immutable tuple'')) (\<lambda>_.
     rbind (rmap (\<lambda>s. identifier_value (JStr s) name) values) (\<lambda>_.
     require (distinct values) (name @ '' must contain unique identities'')))"

text \<open>\<open>__post_init__\<close>, which \<open>dataclasses.replace\<close> runs again on every copy.\<close>

definition ClaimWorkflow_init :: "claim_workflow \<Rightarrow> claim_workflow result" where
  "ClaimWorkflow_init c =
     rbind (identifier_value (JStr (cw_claim c)) ''claim.claim_id'') (\<lambda>_.
     rbind (identifier_value (JStr (cw_scope c)) ''claim.scope'') (\<lambda>_.
     rbind (description (JStr (cw_statement c)) ''claim.statement'' 8192) (\<lambda>_.
     rbind (integer_value (JInt (cw_revision c)) ''claim.revision'' max_workflow_records 1) (\<lambda>_.
     rbind (claim_tuple ''claim.authors'' 256 1 (cw_authors c)) (\<lambda>_.
     rbind (claim_tuple ''claim.evidence_ids'' max_workflow_records 0 (cw_evidence c)) (\<lambda>_.
     rbind (claim_tuple ''claim.artifact_ids'' max_workflow_artifacts 0 (cw_artifacts c)) (\<lambda>_.
     rbind (claim_tuple ''claim.approvals'' 16 0 (cw_approvals c)) (\<lambda>_.
     rbind (require (set (cw_authors c) \<inter> set (cw_approvals c) = {})
              ''claim authors and approvers must be independent'') (\<lambda>_.
     Inr c)))))))))"

definition ClaimWorkflow_to_dict :: "claim_workflow \<Rightarrow> json" where
  "ClaimWorkflow_to_dict c = JObj
     [(U ''claim_id'', JStr (cw_claim c)), (U ''scope'', JStr (cw_scope c)), (U ''statement'', JStr (cw_statement c)),
      (U ''status'', JText (status_value (cw_status c))), (U ''revision'', JInt (cw_revision c)),
      (U ''authors'', JArr (map JStr (cw_authors c))), (U ''evidence_ids'', JArr (map JStr (cw_evidence c))),
      (U ''artifact_ids'', JArr (map JStr (cw_artifacts c))), (U ''approvals'', JArr (map JStr (cw_approvals c)))]"

type_synonym claim_map = "(ustr \<times> claim_workflow) list"

record workflow_state =
  ws_id :: ustr
  ws_head :: ustr
  ws_count :: int
  ws_claims :: claim_map

definition WorkflowState_init :: "ustr \<Rightarrow> ustr \<Rightarrow> int \<Rightarrow> claim_map \<Rightarrow> workflow_state result" where
  "WorkflowState_init workflow_id head cnt claims =
     rbind (identifier_value (JStr workflow_id) ''state.workflow_id'') (\<lambda>_.
     rbind (hash_value (JStr head) ''state.head_digest'') (\<lambda>_.
     rbind (integer_value (JInt cnt) ''state.record_count'' max_workflow_records 0) (\<lambda>_.
     rbind (require (int (length claims) \<le> max_workflow_records \<and> list_all (\<lambda>(k, c). k = cw_claim c) claims)
              ''state.claims must map matching IDs to ClaimWorkflow instances'') (\<lambda>_.
     rbind (require (sum_list (map (\<lambda>(k, c). cw_revision c) claims) = cnt)
              ''state claim revisions must account for every workflow record'') (\<lambda>_.
     Inr \<lparr>ws_id = workflow_id, ws_head = head, ws_count = cnt, ws_claims = claims\<rparr>)))))"

definition WorkflowState_to_dict :: "workflow_state \<Rightarrow> json" where
  "WorkflowState_to_dict s = JObj
     [(U ''workflow_id'', JStr (ws_id s)), (U ''head_digest'', JStr (ws_head s)), (U ''record_count'', JInt (ws_count s)),
      (U ''claims'', JObj (map (\<lambda>(k, c). (k, ClaimWorkflow_to_dict c)) (sort_key fst (ws_claims s))))]"

subsection \<open>Replay\<close>

text \<open>A dictionary comprehension: the last pair with a key wins.\<close>

definition dict_of :: "('a \<times> 'b) list \<Rightarrow> 'a \<Rightarrow> 'b option" where
  "dict_of pairs k = map_of (rev pairs) k"

definition opt_str :: "ustr option \<Rightarrow> ustr" where
  "opt_str x = (case x of None \<Rightarrow> U ''None'' | Some s \<Rightarrow> s)"

definition action_role :: "workflow_action \<Rightarrow> authority_role" where
  "action_role a = (if a = APPROVE \<or> a = REJECT_CLAIM then REVIEWER else if a = REVOKE then REVOKER else AUTHOR)"

text \<open>
  The evidence entry a command names must be of the same claim and, in its attributes, of the same scope.
  The entries belong to a verified ledger, whose event documents always have a claim and whose attributes are
  an object when present.
\<close>

definition evidence_binds :: "ledger_entry option \<Rightarrow> workflow_transition \<Rightarrow> claim_workflow \<Rightarrow> bool" where
  "evidence_binds entry t c =
     (case entry of
        None \<Rightarrow> False
      | Some x \<Rightarrow> Some (le_digest x) = wt_reference_digest t
          \<and> jget (le_event x) (U ''claim'') = Some (JStr (cw_claim c))
          \<and> (case jget (le_event x) (U ''attributes'') of
               None \<Rightarrow> False
             | Some attributes \<Rightarrow> jget attributes (U ''workflow_scope'') = Some (JStr (cw_scope c)))
          \<and> le_event_id x \<notin> set (cw_evidence c))"

definition artifact_binds :: "artifact_reference option \<Rightarrow> workflow_transition \<Rightarrow> claim_workflow \<Rightarrow> bool" where
  "artifact_binds artifact t c =
     (case artifact of
        None \<Rightarrow> False
      | Some a \<Rightarrow> Some (ar_sha256 a) = wt_reference_digest t \<and> ar_claim a = cw_claim c \<and> ar_scope a = cw_scope c
          \<and> ar_id a \<notin> set (cw_artifacts c))"

definition author_step ::
  "(ustr \<Rightarrow> ledger_entry option) \<Rightarrow> (ustr \<Rightarrow> artifact_reference option) \<Rightarrow> claim_workflow \<Rightarrow> workflow_transition
     \<Rightarrow> claim_workflow result" where
  "author_step evidence artifacts c t =
     rbind (require (cw_status c = DRAFT) ''only draft claims can be authored or submitted'') (\<lambda>_.
     let authors = sorted_set (wt_actor t # cw_authors c) in
     rbind (if wt_action t = BIND_EVIDENCE then
              (let entry = evidence (opt_str (wt_reference t)) in
               rbind (require (evidence_binds entry t c)
                        ''evidence reference is missing, mismatched, or duplicated'') (\<lambda>_.
               ClaimWorkflow_init (c\<lparr>cw_evidence := cw_evidence c @ [le_event_id (the entry)]\<rparr>)))
            else if wt_action t = BIND_ARTIFACT then
              (let artifact = artifacts (opt_str (wt_reference t)) in
               rbind (require (artifact_binds artifact t c)
                        ''artifact reference is missing, mismatched, or duplicated'') (\<lambda>_.
               ClaimWorkflow_init (c\<lparr>cw_artifacts := cw_artifacts c @ [ar_id (the artifact)]\<rparr>)))
            else
              rbind (require (cw_evidence c \<noteq> [] \<and> cw_artifacts c \<noteq> [])
                       ''submit requires bound evidence and an artifact'') (\<lambda>_.
              ClaimWorkflow_init (c\<lparr>cw_status := SUBMITTED\<rparr>))) (\<lambda>c.
     ClaimWorkflow_init (c\<lparr>cw_authors := authors\<rparr>)))"

definition review_step :: "int \<Rightarrow> claim_workflow \<Rightarrow> workflow_transition \<Rightarrow> claim_workflow result" where
  "review_step quorum c t =
     rbind (require (cw_status c = SUBMITTED) ''only submitted claims can be reviewed'') (\<lambda>_.
     rbind (require (wt_actor t \<notin> set (cw_authors c) \<and> wt_actor t \<notin> set (cw_approvals c))
              ''reviewer must be independent and may vote only once'') (\<lambda>_.
     if wt_action t = REJECT_CLAIM then ClaimWorkflow_init (c\<lparr>cw_status := REJECTED\<rparr>)
     else
       let approvals = cw_approvals c @ [wt_actor t];
           status = (if int (length approvals) \<ge> quorum then APPROVED else SUBMITTED)
       in ClaimWorkflow_init (c\<lparr>cw_approvals := approvals, cw_status := status\<rparr>)))"

definition revoke_step :: "claim_workflow \<Rightarrow> workflow_transition \<Rightarrow> claim_workflow result" where
  "revoke_step c t =
     rbind (require (cw_status c = APPROVED) ''only approved claims can be revoked'') (\<lambda>_.
     rbind (require (wt_actor t \<notin> set (cw_authors c) \<and> wt_actor t \<notin> set (cw_approvals c))
              ''revoker must be independent of authors and approvers'') (\<lambda>_.
     ClaimWorkflow_init (c\<lparr>cw_status := REVOKED\<rparr>)))"

definition create_step :: "claim_map \<Rightarrow> workflow_transition \<Rightarrow> claim_map result" where
  "create_step claims t =
     rbind (require (map_of claims (wt_claim t) = None \<and> wt_expected t = 0)
              ''create requires a new claim and revision zero'') (\<lambda>_.
     rbind (ClaimWorkflow_init \<lparr>cw_claim = wt_claim t, cw_scope = wt_scope t, cw_statement = opt_str (wt_statement t),
              cw_status = DRAFT, cw_revision = 1, cw_authors = [wt_actor t], cw_evidence = [], cw_artifacts = [],
              cw_approvals = []\<rparr>) (\<lambda>c.
     Inr (AList.update (wt_claim t) c claims)))"

definition update_step ::
  "(ustr \<Rightarrow> ledger_entry option) \<Rightarrow> (ustr \<Rightarrow> artifact_reference option) \<Rightarrow> int \<Rightarrow> claim_map \<Rightarrow> workflow_transition
     \<Rightarrow> claim_map result" where
  "update_step evidence artifacts quorum claims t =
     (case map_of claims (wt_claim t) of
        None \<Rightarrow> Inl (ValidationError ''transition claim is missing or belongs to another scope'')
      | Some c \<Rightarrow>
          rbind (require (cw_scope c = wt_scope t) ''transition claim is missing or belongs to another scope'') (\<lambda>_.
          rbind (require (wt_expected t = cw_revision c) ''transition expected_revision is stale or out of order'') (\<lambda>_.
          rbind (case action_role (wt_action t) of
                   AUTHOR \<Rightarrow> author_step evidence artifacts c t
                 | REVIEWER \<Rightarrow> review_step quorum c t
                 | REVOKER \<Rightarrow> revoke_step c t) (\<lambda>c.
          rbind (ClaimWorkflow_init (c\<lparr>cw_revision := cw_revision c + 1\<rparr>)) (\<lambda>c.
          Inr (AList.update (cw_claim c) c claims))))))"

text \<open>One iteration of the loop.\<close>

definition replay_step :: "authority_policy \<Rightarrow> workflow_bundle \<Rightarrow> claim_map \<Rightarrow> workflow_transition \<Rightarrow> claim_map result" where
  "replay_step authority b claims t =
     (let role = action_role (wt_action t);
          actors = dict_of (map (\<lambda>a. (wa_id a, a)) (ap_actors authority));
          evidence = dict_of (map (\<lambda>x. (le_event_id x, x)) (lg_entries (wb_evidence b)));
          artifacts = dict_of (map (\<lambda>a. (ar_id a, a)) (wb_artifacts b))
      in case actors (wt_actor t) of
        None \<Rightarrow> Inl (ValidationError ''transition actor lacks the exact scoped role'')
      | Some actor \<Rightarrow>
          rbind (WorkflowActor_permits actor (wt_scope t) role) (\<lambda>ok.
          rbind (require ok ''transition actor lacks the exact scoped role'') (\<lambda>_.
          rbind (require (role = AUTHOR \<or> wa_kind actor = HUMAN)
                   ''review and revocation require a declared human actor'') (\<lambda>_.
          if wt_action t = CREATE then create_step claims t
          else update_step evidence artifacts (ap_quorum authority) claims t))))"

definition replay_workflow :: "runtime \<Rightarrow> workflow_bundle \<Rightarrow> authority_policy \<Rightarrow> ustr option \<Rightarrow> workflow_state result" where
  "replay_workflow rt b authority expected_head =
     rbind (require (AuthorityPolicy_digest rt authority = wb_authority b)
              ''workflow authority does not match the trusted policy'') (\<lambda>_.
     rbind (case expected_head of
              None \<Rightarrow> Inr ()
            | Some h \<Rightarrow> rbind (hash_value (JStr h) ''expected_head'') (\<lambda>_.
                require (WorkflowBundle_head rt b = h) ''workflow does not match the expected head'')) (\<lambda>_.
     rbind (rfold (replay_step authority b) [] (map wr_transition (wb_records b))) (\<lambda>claims.
     WorkflowState_init (wb_id b) (WorkflowBundle_head rt b) (int (length (wb_records b))) claims)))"

subsection \<open>Reading, appending and building\<close>

definition WorkflowBundle_from_dict ::
  "runtime \<Rightarrow> json \<Rightarrow> authority_policy \<Rightarrow> ustr option \<Rightarrow> ustr option \<Rightarrow> workflow_bundle result" where
  "WorkflowBundle_from_dict rt value authority expected_head expected_evidence_head =
     rbind (exact_fields value [''kind'', ''schema_version'', ''workflow_id'', ''authority_digest'', ''evidence'',
              ''artifacts'', ''context_digest'', ''head_digest'', ''record_count'', ''records''] ''workflow'') (\<lambda>data.
     rbind (require (dget data ''kind'' = JText ''evidence-braid-workflow-bundle''
              \<and> dget data ''schema_version'' = JText ''1.0'') ''unsupported workflow bundle format'') (\<lambda>_.
     rbind (array_value (dget data ''records'') ''workflow.records'' (nat max_workflow_records)) (\<lambda>records.
     rbind (require (dget data ''record_count'' = JInt (int (length records)))
              ''workflow record_count does not match records'') (\<lambda>_.
     rbind (EvidenceLedger_from_dict rt (dget data ''evidence'') expected_evidence_head) (\<lambda>evidence.
     rbind (array_value (dget data ''artifacts'') ''artifacts'' (nat max_workflow_artifacts)) (\<lambda>xs.
     rbind (rmap ArtifactReference_from_dict xs) (\<lambda>artifacts.
     rbind (rmap WorkflowReceipt_from_dict records) (\<lambda>rs.
     rbind (WorkflowBundle_init rt (dget data ''workflow_id'') (dget data ''authority_digest'') evidence artifacts rs) (\<lambda>b.
     rbind (canonical_json rt value) (\<lambda>given.
     rbind (canonical_json rt (WorkflowBundle_to_dict rt b)) (\<lambda>expected.
     rbind (require (given = expected) ''workflow bundle must use its exact canonical representation'') (\<lambda>_.
     rbind (replay_workflow rt b authority expected_head) (\<lambda>_.
     Inr b)))))))))))))"

text \<open>The loop of \<open>append\<close>: a pending receipt with a digest of zeros, then the receipt with its digest.\<close>

fun append_records ::
  "runtime \<Rightarrow> ustr \<Rightarrow> ustr \<Rightarrow> workflow_receipt list \<Rightarrow> workflow_transition list \<Rightarrow> workflow_receipt list result" where
  "append_records rt context previous records [] = Inr records"
| "append_records rt context previous records (t # ts) =
     rbind (require (int (length records) < max_workflow_records)
              ''append requires bounded WorkflowTransition instances'') (\<lambda>_.
     rbind (WorkflowReceipt_init (JInt (int (length records))) (JStr context) (JStr previous) t
              (JStr (replicate 64 48))) (\<lambda>pending.
     rbind (json_digest rt (WorkflowReceipt_content pending)) (\<lambda>digest.
     rbind (WorkflowReceipt_init (JInt (wr_sequence pending)) (JStr (wr_context pending)) (JStr (wr_previous pending)) t
              (JStr digest)) (\<lambda>receipt.
     append_records rt context (wr_digest receipt) (records @ [receipt]) ts))))"

definition WorkflowBundle_append ::
  "runtime \<Rightarrow> workflow_bundle \<Rightarrow> workflow_transition list \<Rightarrow> authority_policy \<Rightarrow> workflow_bundle result" where
  "WorkflowBundle_append rt b transitions authority =
     rbind (replay_workflow rt b authority None) (\<lambda>_.
     rbind (append_records rt (WorkflowBundle_context rt b) (WorkflowBundle_head rt b) (wb_records b) transitions) (\<lambda>rs.
     rbind (WorkflowBundle_init rt (JStr (wb_id b)) (JStr (wb_authority b)) (wb_evidence b) (wb_artifacts b) rs) (\<lambda>result.
     rbind (replay_workflow rt result authority None) (\<lambda>_.
     Inr result))))"

definition build_workflow ::
  "runtime \<Rightarrow> json \<Rightarrow> authority_policy \<Rightarrow> evidence_ledger \<Rightarrow> artifact_reference list \<Rightarrow> workflow_transition list
     \<Rightarrow> workflow_bundle result" where
  "build_workflow rt workflow_id authority evidence artifacts transitions =
     rbind (WorkflowBundle_init rt workflow_id (JStr (AuthorityPolicy_digest rt authority)) evidence artifacts []) (\<lambda>b.
     WorkflowBundle_append rt b transitions authority)"

definition verify_artifacts :: "runtime \<Rightarrow> workflow_bundle \<Rightarrow> (ustr \<times> bytes) list \<Rightarrow> bool" where
  "verify_artifacts rt b contents \<longleftrightarrow>
     set (map fst contents) = set (map ar_id (wb_artifacts b))
     \<and> list_all (\<lambda>a. case map_of contents (ar_id a) of None \<Rightarrow> False | Some c \<Rightarrow> ArtifactReference_matches rt a c)
         (wb_artifacts b)"

end
