(* ===== verification/Workflow_Lemmas.thy ===== *)
theory Workflow_Lemmas
  imports Workflow
begin

text \<open>
  What replay guarantees of a workflow: the invariant of every claim (independent human approvals up to
  the quorum, bound evidence and artifacts of the claim's own scope), the status machine each claim follows,
  the accounting of revisions, and the finality of what has left the draft state.
\<close>

subsection \<open>Claims that pass their checks\<close>

definition tuple_ok :: "int \<Rightarrow> int \<Rightarrow> ustr list \<Rightarrow> bool" where
  "tuple_ok maximum minimum values \<longleftrightarrow> minimum \<le> int (length values) \<and> int (length values) \<le> maximum
     \<and> (\<forall>s \<in> set values. is_identifier s) \<and> distinct values"

definition claim_ok :: "claim_workflow \<Rightarrow> bool" where
  "claim_ok c \<longleftrightarrow> is_identifier (cw_claim c) \<and> is_identifier (cw_scope c) \<and> description_ok (cw_statement c) 8192
     \<and> 1 \<le> cw_revision c \<and> cw_revision c \<le> max_workflow_records
     \<and> tuple_ok 256 1 (cw_authors c) \<and> tuple_ok max_workflow_records 0 (cw_evidence c)
     \<and> tuple_ok max_workflow_artifacts 0 (cw_artifacts c) \<and> tuple_ok 16 0 (cw_approvals c)
     \<and> set (cw_authors c) \<inter> set (cw_approvals c) = {}"

lemma claim_tuple_Inr [simp]: "claim_tuple name a b vs = Inr u \<longleftrightarrow> tuple_ok a b vs"
proof -
  have "(\<exists>x. rmap (\<lambda>s. identifier_value (JStr s) name) vs = Inr x) \<longleftrightarrow> (\<forall>s \<in> set vs. is_identifier s)"
    by (induction vs) auto
  then show ?thesis by (auto simp: claim_tuple_def tuple_ok_def)
qed

lemma ClaimWorkflow_init_Inr [simp]: "ClaimWorkflow_init c = Inr d \<longleftrightarrow> d = c \<and> claim_ok c"
  by (auto simp: ClaimWorkflow_init_def claim_ok_def)

subsection \<open>The status machine\<close>

inductive status_step :: "workflow_action \<Rightarrow> claim_status \<Rightarrow> claim_status \<Rightarrow> bool" where
  bind_evidence: "status_step BIND_EVIDENCE DRAFT DRAFT"
| bind_artifact: "status_step BIND_ARTIFACT DRAFT DRAFT"
| submit: "status_step SUBMIT DRAFT SUBMITTED"
| vote: "status_step APPROVE SUBMITTED SUBMITTED"
| approve: "status_step APPROVE SUBMITTED APPROVED"
| reject: "status_step REJECT_CLAIM SUBMITTED REJECTED"
| revoke: "status_step REVOKE APPROVED REVOKED"

code_pred status_step .

declare status_step.intros [intro]

inductive_cases rejected_step [elim!]: "status_step a REJECTED s"
inductive_cases revoked_step [elim!]: "status_step a REVOKED s"
inductive_simps approved_step: "status_step a APPROVED s"
inductive_simps to_approved: "status_step a s APPROVED"

subsection \<open>Updating one claim\<close>

text \<open>What an update may change, by the role of the action.\<close>

lemma author_step_Inr:
  assumes "author_step evidence artifacts c t = Inr d" "wt_action t \<noteq> CREATE" "action_role (wt_action t) = AUTHOR"
  shows "status_step (wt_action t) (cw_status c) (cw_status d)" "claim_ok d"
    and "cw_status c = DRAFT" "set (cw_authors d) = insert (wt_actor t) (set (cw_authors c))"
    and "cw_claim d = cw_claim c" "cw_scope d = cw_scope c" "cw_statement d = cw_statement c"
    and "cw_revision d = cw_revision c" "cw_approvals d = cw_approvals c"
    and "cw_evidence d = cw_evidence c \<or> (\<exists>x. evidence (opt_str (wt_reference t)) = Some x
           \<and> evidence_binds (Some x) t c \<and> cw_evidence d = cw_evidence c @ [le_event_id x])"
    and "cw_artifacts d = cw_artifacts c \<or> (\<exists>x. artifacts (opt_str (wt_reference t)) = Some x
           \<and> artifact_binds (Some x) t c \<and> cw_artifacts d = cw_artifacts c @ [ar_id x])"
    and "cw_status d = SUBMITTED \<Longrightarrow> cw_evidence d \<noteq> [] \<and> cw_artifacts d \<noteq> []"
  using assms
  by (cases "wt_action t"; auto simp: author_step_def Let_def action_role_def evidence_binds_def artifact_binds_def
      split: if_splits option.splits)+

lemma review_step_Inr:
  assumes "review_step quorum c t = Inr d" "action_role (wt_action t) = REVIEWER"
  shows "status_step (wt_action t) (cw_status c) (cw_status d)" "claim_ok d"
    and "cw_status c = SUBMITTED" "wt_actor t \<notin> set (cw_authors c)" "wt_actor t \<notin> set (cw_approvals c)"
    and "wt_action t = REJECT_CLAIM \<Longrightarrow> d = c\<lparr>cw_status := REJECTED\<rparr>"
    and "wt_action t = APPROVE \<Longrightarrow> d = c\<lparr>cw_approvals := cw_approvals c @ [wt_actor t],
           cw_status := if int (length (cw_approvals c)) + 1 \<ge> quorum then APPROVED else SUBMITTED\<rparr>"
  using assms
  by (cases "wt_action t"; auto simp: review_step_def Let_def action_role_def split: if_splits)+

lemma revoke_step_Inr:
  assumes "revoke_step c t = Inr d"
  shows "cw_status c = APPROVED" "d = c\<lparr>cw_status := REVOKED\<rparr>" "claim_ok d"
    "wt_actor t \<notin> set (cw_authors c)" "wt_actor t \<notin> set (cw_approvals c)"
  using assms by (auto simp: revoke_step_def)

lemma update_step_Inr:
  assumes "update_step evidence artifacts quorum claims t = Inr claims'"
  obtains c d where "map_of claims (wt_claim t) = Some c" "cw_scope c = wt_scope t" "wt_expected t = cw_revision c"
    "(case action_role (wt_action t) of AUTHOR \<Rightarrow> author_step evidence artifacts c t
       | REVIEWER \<Rightarrow> review_step quorum c t | REVOKER \<Rightarrow> revoke_step c t) = Inr d"
    "claims' = AList.update (cw_claim d) (d\<lparr>cw_revision := cw_revision d + 1\<rparr>) claims"
    "claim_ok (d\<lparr>cw_revision := cw_revision d + 1\<rparr>)"
  using assms by (fastforce simp: update_step_def split: option.splits)

text \<open>Every update moves the claim along the status machine and keeps what has left the draft state.\<close>

definition same_content :: "claim_workflow \<Rightarrow> claim_workflow \<Rightarrow> bool" where
  "same_content c d \<longleftrightarrow> cw_claim c = cw_claim d \<and> cw_scope c = cw_scope d \<and> cw_statement c = cw_statement d
     \<and> cw_authors c = cw_authors d \<and> cw_evidence c = cw_evidence d \<and> cw_artifacts c = cw_artifacts d"

lemma claim_update_step:
  assumes "(case action_role (wt_action t) of AUTHOR \<Rightarrow> author_step evidence artifacts c t
       | REVIEWER \<Rightarrow> review_step quorum c t | REVOKER \<Rightarrow> revoke_step c t) = Inr d" "wt_action t \<noteq> CREATE"
  shows "status_step (wt_action t) (cw_status c) (cw_status d)" "claim_ok d" "cw_claim d = cw_claim c"
    "cw_scope d = cw_scope c" "cw_statement d = cw_statement c" "cw_revision d = cw_revision c"
    "cw_status c \<noteq> DRAFT \<Longrightarrow> same_content c d"
proof -
  show "status_step (wt_action t) (cw_status c) (cw_status d)"
    using assms author_step_Inr(1) [of evidence artifacts c t d] review_step_Inr(1) [of quorum c t d] revoke_step_Inr(1,2) [of c t d]
    by (cases "action_role (wt_action t)") (auto simp: action_role_def split: if_splits)
  show "claim_ok d"
    using assms author_step_Inr(2) [of evidence artifacts c t d] review_step_Inr(2) [of quorum c t d] revoke_step_Inr(3) [of c t d]
    by (cases "action_role (wt_action t)") auto
  show "cw_claim d = cw_claim c" "cw_scope d = cw_scope c" "cw_statement d = cw_statement c" "cw_revision d = cw_revision c"
    using assms author_step_Inr(5-8) [of evidence artifacts c t d] revoke_step_Inr(2) [of c t d]
    by (cases "action_role (wt_action t)"; auto simp: review_step_def Let_def split: if_splits)+
  show "same_content c d" if "cw_status c \<noteq> DRAFT"
    using that assms author_step_Inr(3) [of evidence artifacts c t d] revoke_step_Inr(2) [of c t d]
    by (cases "action_role (wt_action t)") (auto simp: review_step_def Let_def same_content_def split: if_splits)
qed

subsection \<open>The claims of a replay\<close>

definition keys_ok :: "claim_map \<Rightarrow> bool" where
  "keys_ok claims \<longleftrightarrow> distinct (map fst claims) \<and> (\<forall>(k, c) \<in> set claims. k = cw_claim c)"

lemma keys_ok_get: "keys_ok claims \<Longrightarrow> map_of claims k = Some c \<Longrightarrow> cw_claim c = k"
  by (auto simp: keys_ok_def dest!: map_of_SomeD)

lemma set_update: "set (AList.update k d claims) \<subseteq> insert (k, d) (set claims)"
  by (induction claims) auto

lemma keys_ok_update: "keys_ok claims \<Longrightarrow> keys_ok (AList.update (cw_claim c) c claims)"
  using set_update [of "cw_claim c" c claims] by (fastforce simp: keys_ok_def distinct_update)

lemma sum_update_new:
  "map_of claims k = None \<Longrightarrow> sum_list (map (\<lambda>(k, c). f c) (AList.update k d claims)) = sum_list (map (\<lambda>(k, c). f c) claims) + (f d :: int)"
  by (induction claims) auto

lemma sum_update_old:
  "map_of claims k = Some c \<Longrightarrow>
    sum_list (map (\<lambda>(k, c). f c) (AList.update k d claims)) = sum_list (map (\<lambda>(k, c). f c) claims) + (f d - f c :: int)"
  by (induction claims) auto

lemma length_update: "length (AList.update k d claims) = length claims + (if map_of claims k = None then 1 else 0)"
  by (induction claims) auto

text \<open>The actor of a command holds exactly the scoped role, and is human where review is concerned.\<close>

definition acts :: "authority_policy \<Rightarrow> ustr \<Rightarrow> authority_role \<Rightarrow> ustr \<Rightarrow> bool" where
  "acts authority scope role i \<longleftrightarrow> (\<exists>a \<in> set (ap_actors authority). wa_id a = i
     \<and> \<lparr>sg_scope = scope, sg_role = role\<rparr> \<in> set (wa_grants a) \<and> (role \<noteq> AUTHOR \<longrightarrow> wa_kind a = HUMAN))"

lemma dict_of_Some: "dict_of (map (\<lambda>x. (f x, x)) xs) k = Some x \<Longrightarrow> x \<in> set xs \<and> f x = k"
  by (auto simp: dict_of_def dest!: map_of_SomeD)

abbreviation entry_of :: "workflow_bundle \<Rightarrow> ustr \<Rightarrow> ledger_entry option" where
  "entry_of b \<equiv> dict_of (map (\<lambda>x. (le_event_id x, x)) (lg_entries (wb_evidence b)))"

abbreviation artifact_of :: "workflow_bundle \<Rightarrow> ustr \<Rightarrow> artifact_reference option" where
  "artifact_of b \<equiv> dict_of (map (\<lambda>a. (ar_id a, a)) (wb_artifacts b))"

lemma replay_step_Inr:
  assumes "replay_step authority b claims t = Inr claims'"
  shows "acts authority (wt_scope t) (action_role (wt_action t)) (wt_actor t)"
    and "wt_action t = CREATE \<Longrightarrow> create_step claims t = Inr claims'"
    and "wt_action t \<noteq> CREATE \<Longrightarrow> update_step (entry_of b) (artifact_of b) (ap_quorum authority) claims t = Inr claims'"
proof -
  from assms obtain a where a: "dict_of (map (\<lambda>a. (wa_id a, a)) (ap_actors authority)) (wt_actor t) = Some a"
    and g: "\<lparr>sg_scope = wt_scope t, sg_role = action_role (wt_action t)\<rparr> \<in> set (wa_grants a)"
      "action_role (wt_action t) = AUTHOR \<or> wa_kind a = HUMAN"
    by (auto simp: replay_step_def Let_def WorkflowActor_permits_def ScopeGrant_init_def split: option.splits)
  show "acts authority (wt_scope t) (action_role (wt_action t)) (wt_actor t)"
    using dict_of_Some [OF a] g by (auto simp: acts_def)
  show "wt_action t = CREATE \<Longrightarrow> create_step claims t = Inr claims'"
    "wt_action t \<noteq> CREATE \<Longrightarrow> update_step (entry_of b) (artifact_of b) (ap_quorum authority) claims t = Inr claims'"
    using assms by (auto simp: replay_step_def Let_def split: option.splits)
qed

lemma create_step_Inr:
  assumes "create_step claims t = Inr claims'"
  shows "map_of claims (wt_claim t) = None" "\<exists>c. claims' = AList.update (wt_claim t) c claims \<and> claim_ok c
    \<and> c = \<lparr>cw_claim = wt_claim t, cw_scope = wt_scope t, cw_statement = opt_str (wt_statement t), cw_status = DRAFT,
           cw_revision = 1, cw_authors = [wt_actor t], cw_evidence = [], cw_artifacts = [], cw_approvals = []\<rparr>"
  using assms by (auto simp: create_step_def)

definition bound_evidence :: "workflow_bundle \<Rightarrow> ustr \<Rightarrow> ustr \<Rightarrow> ustr \<Rightarrow> bool" where
  "bound_evidence b claim scope i \<longleftrightarrow> (\<exists>x \<in> set (lg_entries (wb_evidence b)). le_event_id x = i
     \<and> jget (le_event x) (U ''claim'') = Some (JStr claim)
     \<and> (\<exists>a. jget (le_event x) (U ''attributes'') = Some a \<and> jget a (U ''workflow_scope'') = Some (JStr scope)))"

definition bound_artifact :: "workflow_bundle \<Rightarrow> ustr \<Rightarrow> ustr \<Rightarrow> ustr \<Rightarrow> bool" where
  "bound_artifact b claim scope i \<longleftrightarrow> (\<exists>a \<in> set (wb_artifacts b). ar_id a = i \<and> ar_claim a = claim \<and> ar_scope a = scope)"

lemma evidence_binds_bound:
  "entry_of b k = Some x \<Longrightarrow> evidence_binds (Some x) t c \<Longrightarrow> bound_evidence b (cw_claim c) (cw_scope c) (le_event_id x)"
  unfolding bound_evidence_def
  by (drule dict_of_Some, rule bexI [of _ x]) (auto simp: evidence_binds_def split: option.splits)

lemma artifact_binds_bound:
  "artifact_of b k = Some x \<Longrightarrow> artifact_binds (Some x) t c \<Longrightarrow> bound_artifact b (cw_claim c) (cw_scope c) (ar_id x)"
  unfolding bound_artifact_def
  by (drule dict_of_Some, rule bexI [of _ x]) (auto simp: artifact_binds_def)

text \<open>What holds of every claim after every step.\<close>

definition claim_inv :: "authority_policy \<Rightarrow> workflow_bundle \<Rightarrow> claim_workflow \<Rightarrow> bool" where
  "claim_inv authority b c \<longleftrightarrow> claim_ok c
     \<and> (\<forall>i \<in> set (cw_authors c). acts authority (cw_scope c) AUTHOR i)
     \<and> (\<forall>i \<in> set (cw_approvals c). acts authority (cw_scope c) REVIEWER i)
     \<and> (\<forall>i \<in> set (cw_evidence c). bound_evidence b (cw_claim c) (cw_scope c) i)
     \<and> (\<forall>i \<in> set (cw_artifacts c). bound_artifact b (cw_claim c) (cw_scope c) i)
     \<and> (cw_status c = DRAFT \<longrightarrow> cw_approvals c = [])
     \<and> (cw_status c \<noteq> DRAFT \<longrightarrow> cw_evidence c \<noteq> [] \<and> cw_artifacts c \<noteq> [])
     \<and> (cw_status c \<in> {APPROVED, REVOKED} \<longrightarrow> ap_quorum authority \<le> int (length (cw_approvals c)))
     \<and> (cw_status c = SUBMITTED \<and> cw_approvals c \<noteq> [] \<longrightarrow> int (length (cw_approvals c)) < ap_quorum authority)"

lemma claim_inv_revision: "claim_inv authority b d \<Longrightarrow> claim_ok (d\<lparr>cw_revision := n\<rparr>) \<Longrightarrow> claim_inv authority b (d\<lparr>cw_revision := n\<rparr>)"
  by (simp add: claim_inv_def)

lemma claim_inv_author:
  assumes "claim_inv authority b c" "author_step (entry_of b) (artifact_of b) c t = Inr d" "wt_action t \<noteq> CREATE"
    "action_role (wt_action t) = AUTHOR" "acts authority (cw_scope c) AUTHOR (wt_actor t)"
  shows "claim_inv authority b d"
proof -
  note a = author_step_Inr [OF assms(2-4)]
  have ev: "\<forall>i \<in> set (cw_evidence d). bound_evidence b (cw_claim c) (cw_scope c) i"
    using assms(1) a(10) by (auto simp: claim_inv_def evidence_binds_bound)
  have ar: "\<forall>i \<in> set (cw_artifacts d). bound_artifact b (cw_claim c) (cw_scope c) i"
    using assms(1) a(11) by (auto simp: claim_inv_def artifact_binds_bound)
  have "cw_status d = DRAFT \<or> cw_status d = SUBMITTED" using a(1,3) by (auto elim: status_step.cases)
  moreover have "cw_approvals c = []" using a(3) assms(1) by (simp add: claim_inv_def)
  moreover have "\<forall>i \<in> set (cw_authors d). acts authority (cw_scope c) AUTHOR i"
    using assms(1,5) a(4) by (simp add: claim_inv_def)
  ultimately show ?thesis
    using a(2,5,6,9,12) ev ar by (auto simp: claim_inv_def)
qed

lemma claim_inv_review:
  assumes "claim_inv authority b c" "review_step (ap_quorum authority) c t = Inr d"
    "action_role (wt_action t) = REVIEWER" "acts authority (cw_scope c) REVIEWER (wt_actor t)"
  shows "claim_inv authority b d"
proof -
  note r = review_step_Inr [OF assms(2,3)]
  consider "wt_action t = REJECT_CLAIM" | "wt_action t = APPROVE"
    using assms(3) by (auto simp: action_role_def split: if_splits)
  then show ?thesis
  proof cases
    case 1
    then show ?thesis using assms(1) r(2,3) r(6) [OF 1] by (auto simp: claim_inv_def)
  next
    case 2
    then show ?thesis using assms(1,4) r(2,3) r(7) [OF 2] by (auto simp: claim_inv_def)
  qed
qed

lemma claim_inv_update:
  assumes "claim_inv authority b c" "acts authority (cw_scope c) (action_role (wt_action t)) (wt_actor t)"
    "(case action_role (wt_action t) of AUTHOR \<Rightarrow> author_step (entry_of b) (artifact_of b) c t
       | REVIEWER \<Rightarrow> review_step (ap_quorum authority) c t | REVOKER \<Rightarrow> revoke_step c t) = Inr d" "wt_action t \<noteq> CREATE"
  shows "claim_inv authority b d"
proof (cases "action_role (wt_action t)")
  case AUTHOR
  then show ?thesis using claim_inv_author [OF assms(1) _ assms(4)] assms(2,3) by simp
next
  case REVIEWER
  then show ?thesis using claim_inv_review [OF assms(1)] assms(2,3) by simp
next
  case REVOKER
  then show ?thesis using revoke_step_Inr [of c t d] assms(1,3) by (auto simp: claim_inv_def)
qed

definition claims_inv :: "authority_policy \<Rightarrow> workflow_bundle \<Rightarrow> claim_map \<Rightarrow> bool" where
  "claims_inv authority b claims \<longleftrightarrow> keys_ok claims \<and> (\<forall>(k, c) \<in> set claims. claim_inv authority b c)"

definition revisions :: "claim_map \<Rightarrow> int" where
  "revisions claims = sum_list (map (\<lambda>(k, c). cw_revision c) claims)"

lemma claims_inv_update:
  "claims_inv authority b claims \<Longrightarrow> claim_inv authority b c \<Longrightarrow> claims_inv authority b (AList.update (cw_claim c) c claims)"
  using set_update [of "cw_claim c" c claims] by (auto simp: claims_inv_def intro: keys_ok_update)

text \<open>One step of the replay, seen from the dictionary of claims.\<close>

lemma replay_step_cases:
  assumes "claims_inv authority b claims" "replay_step authority b claims t = Inr claims'"
  obtains (created) c where "wt_action t = CREATE" "map_of claims (wt_claim t) = None" "cw_claim c = wt_claim t"
      "cw_revision c = 1" "cw_status c = DRAFT" "claims' = AList.update (cw_claim c) c claims" "claim_inv authority b c"
    | (updated) c d where "wt_action t \<noteq> CREATE" "map_of claims (wt_claim t) = Some c" "cw_claim d = wt_claim t"
      "wt_expected t = cw_revision c" "cw_revision d = cw_revision c + 1" "status_step (wt_action t) (cw_status c) (cw_status d)"
      "cw_status c \<noteq> DRAFT \<Longrightarrow> same_content c d" "cw_scope d = cw_scope c" "cw_statement d = cw_statement c"
      "claims' = AList.update (cw_claim d) d claims" "claim_inv authority b d"
proof (cases "wt_action t = CREATE")
  case True
  from replay_step_Inr(2) [OF assms(2) True] have c: "create_step claims t = Inr claims'" .
  have "acts authority (wt_scope t) AUTHOR (wt_actor t)"
    using replay_step_Inr(1) [OF assms(2)] True by (simp add: action_role_def)
  then show ?thesis using create_step_Inr [OF c] True by (intro created) (auto simp: claim_inv_def)
next
  case False
  obtain c d where u: "map_of claims (wt_claim t) = Some c" "cw_scope c = wt_scope t" "wt_expected t = cw_revision c"
    and d: "(case action_role (wt_action t) of AUTHOR \<Rightarrow> author_step (entry_of b) (artifact_of b) c t
       | REVIEWER \<Rightarrow> review_step (ap_quorum authority) c t | REVOKER \<Rightarrow> revoke_step c t) = Inr d"
    and e: "claims' = AList.update (cw_claim d) (d\<lparr>cw_revision := cw_revision d + 1\<rparr>) claims"
      "claim_ok (d\<lparr>cw_revision := cw_revision d + 1\<rparr>)"
    using update_step_Inr [OF replay_step_Inr(3) [OF assms(2) False]] .
  have c: "claim_inv authority b c" "cw_claim c = wt_claim t"
    using assms(1) map_of_SomeD [OF u(1)] keys_ok_get [OF _ u(1)] by (auto simp: claims_inv_def)
  have "claim_inv authority b d"
    using claim_inv_update [OF c(1) _ d False] replay_step_Inr(1) [OF assms(2)] u(2) by simp
  note inv = claim_inv_revision [OF this e(2)]
  note s = claim_update_step [OF d False]
  show ?thesis
    by (rule updated [of c "d\<lparr>cw_revision := cw_revision d + 1\<rparr>"])
      (use False u c s e inv in \<open>auto simp: same_content_def\<close>)
qed

lemma replay_step_preserves:
  assumes "claims_inv authority b claims" "replay_step authority b claims t = Inr claims'"
  shows "claims_inv authority b claims' \<and> revisions claims' = revisions claims + 1 \<and> length claims' \<le> length claims + 1"
  using assms
proof (cases rule: replay_step_cases)
  case (created c)
  then show ?thesis
    using claims_inv_update [OF assms(1), of c] sum_update_new [of claims "cw_claim c" cw_revision c]
    by (simp add: revisions_def length_update)
next
  case (updated c d)
  then show ?thesis
    using claims_inv_update [OF assms(1), of d] sum_update_old [of claims "cw_claim d" c cw_revision d]
    by (simp add: revisions_def length_update)
qed

lemma replay_loop_inv:
  "rfold (replay_step authority b) claims ts = Inr claims' \<Longrightarrow> claims_inv authority b claims
    \<Longrightarrow> claims_inv authority b claims' \<and> revisions claims' = revisions claims + int (length ts)
      \<and> length claims' \<le> length claims + length ts"
proof (induction ts arbitrary: claims)
  case (Cons t ts)
  then obtain s where s: "replay_step authority b claims t = Inr s" "rfold (replay_step authority b) s ts = Inr claims'"
    by auto
  then show ?case using replay_step_preserves [OF Cons.prems(2) s(1)] Cons.IH [OF s(2)] by auto
qed simp

lemma claims_inv_empty: "claims_inv authority b []"
  by (simp add: claims_inv_def keys_ok_def)

subsection \<open>Finality\<close>

definition status_reach :: "claim_status \<Rightarrow> claim_status \<Rightarrow> bool" where
  "status_reach = (\<lambda>s t. \<exists>a. status_step a s t)\<^sup>*\<^sup>*"

lemma status_reach_refl [simp]: "status_reach s s"
  by (simp add: status_reach_def)

lemma status_reach_step: "status_step a s t \<Longrightarrow> status_reach t u \<Longrightarrow> status_reach s u"
  unfolding status_reach_def by (rule converse_rtranclp_into_rtranclp) blast+

lemma status_reach_final: "status_reach s t \<Longrightarrow> s \<in> {REJECTED, REVOKED} \<Longrightarrow> t = s"
  unfolding status_reach_def by (induction rule: converse_rtranclp_induct) auto

lemma status_step_draft: "status_step a s t \<Longrightarrow> s \<noteq> DRAFT \<Longrightarrow> t \<noteq> DRAFT"
  by (cases rule: status_step.cases) auto

lemma status_step_final: "status_step a s t \<Longrightarrow> s \<notin> {REJECTED, REVOKED}"
  by (cases rule: status_step.cases) auto

lemma same_content_trans: "same_content a c \<Longrightarrow> same_content c d \<Longrightarrow> same_content a d"
  by (simp add: same_content_def)

text \<open>A later step keeps a claim; it moves only along the machine, and keeps its content outside the draft state.\<close>

lemma replay_step_claim:
  assumes "claims_inv authority b claims" "replay_step authority b claims t = Inr claims'" "map_of claims k = Some c"
  shows "\<exists>d. map_of claims' k = Some d \<and> (d = c \<or> (\<exists>a. status_step a (cw_status c) (cw_status d)))
    \<and> (cw_status c \<noteq> DRAFT \<longrightarrow> same_content c d)
    \<and> cw_scope d = cw_scope c \<and> cw_statement d = cw_statement c"
  using assms(1,2)
proof (cases rule: replay_step_cases)
  case (created e)
  then have "k \<noteq> cw_claim e" using assms(3) by auto
  then show ?thesis using created assms(3) by (simp add: update_conv' same_content_def)
next
  case (updated e d)
  then show ?thesis using assms(3) by (cases "k = wt_claim t") (auto simp: update_conv' same_content_def)
qed

lemma replay_loop_claim:
  "rfold (replay_step authority b) claims ts = Inr claims' \<Longrightarrow> claims_inv authority b claims
    \<Longrightarrow> map_of claims k = Some c \<Longrightarrow> \<exists>d. map_of claims' k = Some d \<and> status_reach (cw_status c) (cw_status d)
      \<and> (cw_status c \<noteq> DRAFT \<longrightarrow> cw_status d \<noteq> DRAFT \<and> same_content c d)
      \<and> (cw_status c \<in> {REJECTED, REVOKED} \<longrightarrow> d = c)"
proof (induction ts arbitrary: claims c)
  case Nil
  then show ?case by (simp add: same_content_def)
next
  case (Cons t ts)
  then obtain s where s: "replay_step authority b claims t = Inr s" "rfold (replay_step authority b) s ts = Inr claims'"
    by auto
  obtain d where d: "map_of s k = Some d" "d = c \<or> (\<exists>a. status_step a (cw_status c) (cw_status d))"
    "cw_status c \<noteq> DRAFT \<longrightarrow> same_content c d"
    using replay_step_claim [OF Cons.prems(2) s(1) Cons.prems(3)] by blast
  have "claims_inv authority b s" using replay_step_preserves [OF Cons.prems(2) s(1)] by blast
  from Cons.IH [OF s(2) this d(1)] obtain e where e: "map_of claims' k = Some e" "status_reach (cw_status d) (cw_status e)"
    "cw_status d \<noteq> DRAFT \<longrightarrow> cw_status e \<noteq> DRAFT \<and> same_content d e" "cw_status d \<in> {REJECTED, REVOKED} \<longrightarrow> e = d"
    by blast
  show ?case
  proof (cases "d = c")
    case True
    with e show ?thesis by blast
  next
    case False
    then obtain a where a: "status_step a (cw_status c) (cw_status d)" using d(2) by blast
    have "cw_status c \<noteq> DRAFT \<Longrightarrow> cw_status e \<noteq> DRAFT \<and> same_content c e"
      using status_step_draft [OF a] e(3) d(3) same_content_trans by blast
    then show ?thesis using e(1) status_reach_step [OF a e(2)] status_step_final [OF a] by blast
  qed
qed

subsection \<open>Accounting\<close>

definition commands_of :: "ustr \<Rightarrow> workflow_transition list \<Rightarrow> workflow_transition list" where
  "commands_of k ts = filter (\<lambda>t. wt_claim t = k) ts"

text \<open>The commands on a claim name its revisions zero, one, two and so on, without a gap or a repetition.\<close>

lemma replay_history:
  "rfold (replay_step authority b) [] ts = Inr claims
    \<Longrightarrow> map wt_expected (commands_of k ts) = map int [0..<length (commands_of k ts)]
      \<and> (case map_of claims k of None \<Rightarrow> commands_of k ts = []
         | Some c \<Rightarrow> cw_revision c = int (length (commands_of k ts)))"
proof (induction ts arbitrary: claims rule: rev_induct)
  case (snoc t ts)
  then obtain s where s: "rfold (replay_step authority b) [] ts = Inr s" "replay_step authority b s t = Inr claims"
    by (auto simp: rfold_append)
  have inv: "claims_inv authority b s" using replay_loop_inv [OF s(1) claims_inv_empty] by blast
  note ih = snoc.IH [OF s(1)]
  have app: "commands_of k (ts @ [t]) = commands_of k ts @ (if wt_claim t = k then [t] else [])"
    by (simp add: commands_of_def)
  from inv s(2) show ?case
  proof (cases rule: replay_step_cases)
    case (created c)
    have "wt_expected t = 0" using replay_step_Inr(2) [OF s(2) created(1)] by (auto simp: create_step_def)
    then show ?thesis using created ih by (cases "wt_claim t = k") (auto simp: app update_conv' split: option.splits)
  next
    case (updated c d)
    then show ?thesis using ih by (cases "wt_claim t = k") (auto simp: app update_conv' split: option.splits)
  qed
qed (simp add: commands_of_def)

end
