(* ===== verification/Workflow_Chain.thy ===== *)
theory Workflow_Chain
  imports Workflow_Lemmas
begin

text \<open>
  Workflow receipts as a hash chain: the context document is the seed and each receipt's content the link.
  A bundle's head determines its context and every receipt; appending keeps the receipts already there; an
  accepted bundle reads back from its own document.
\<close>

subsection \<open>Views determine records\<close>

lemma ArtifactReference_view_inj:
  assumes "canon (ArtifactReference_to_dict a) = canon (ArtifactReference_to_dict b)"
  shows "a = b"
  using assms unfolding ArtifactReference_to_dict_def
  by (subst (asm) canon_JObj_eq_iff) (simp_all add: artifact_reference.equality)

lemma WorkflowTransition_view_inj:
  assumes "canon (WorkflowTransition_to_dict t) = canon (WorkflowTransition_to_dict u)"
  shows "t = u"
  using assms unfolding WorkflowTransition_to_dict_def
  by (subst (asm) canon_JObj_eq_iff) (simp_all add: workflow_transition.equality)

lemma view_finite [simp]:
  "json_finite (ArtifactReference_to_dict a)" "json_finite (WorkflowTransition_to_dict t)"
  by (simp_all add: ArtifactReference_to_dict_def WorkflowTransition_to_dict_def)

lemma receipt_finite [simp]:
  "json_finite (WorkflowReceipt_content r)" "json_finite (WorkflowReceipt_to_dict r)"
  by (simp_all add: WorkflowReceipt_content_def WorkflowReceipt_to_dict_def receipt_pairs_def)

subsection \<open>The chain\<close>

type_synonym workflow_context = "ustr \<times> ustr \<times> ustr \<times> artifact_reference list"

fun workflow_seed :: "runtime \<Rightarrow> workflow_context \<Rightarrow> bytes" where
  "workflow_seed rt (i, authority, head, artifacts) = canonical_bytes rt (context_document i authority (JStr head) artifacts)"

definition workflow_link :: "runtime \<Rightarrow> workflow_context \<Rightarrow> int \<Rightarrow> ustr \<Rightarrow> workflow_transition \<Rightarrow> bytes" where
  "workflow_link rt c n p t = canonical_bytes rt (JObj (receipt_pairs n (rt_sha256 rt (workflow_seed rt c)) p t))"

lemma context_finite [simp]: "json_finite (context_document i a (JStr h) xs)"
  by (simp add: context_document_def list_all_iff)

lemma workflow_link_inj:
  assumes "repr_contract rt" "workflow_link rt c n p t = workflow_link rt d m q u"
  shows "p = q \<and> t = u"
proof -
  have "map canon (map snd (receipt_pairs n (rt_sha256 rt (workflow_seed rt c)) p t))
      = map canon (map snd (receipt_pairs m (rt_sha256 rt (workflow_seed rt d)) q u))"
    using assms(2) by (intro canonical_bytes_JObj_eq [OF assms(1)]) (simp_all add: workflow_link_def receipt_pairs_def)
  then show ?thesis by (simp add: receipt_pairs_def WorkflowTransition_view_inj)
qed

lemma workflow_seed_inj:
  assumes "repr_contract rt" "workflow_seed rt c = workflow_seed rt d"
  shows "c = d"
proof -
  obtain i a h xs j b k ys where cd: "c = (i, a, h, xs)" "d = (j, b, k, ys)" by (metis prod_cases4)
  have "canon (context_document i a (JStr h) xs) = canon (context_document j b (JStr k) ys)"
    by (rule canonical_bytes_inj [OF assms(1) context_finite context_finite]) (use assms(2) cd in simp)
  then have "i = j \<and> a = b \<and> h = k
      \<and> map (\<lambda>x. canon (ArtifactReference_to_dict x)) xs = map (\<lambda>x. canon (ArtifactReference_to_dict x)) ys"
    unfolding context_document_def by (subst (asm) canon_JObj_eq_iff) (simp_all add: o_def)
  moreover have "inj (\<lambda>x. canon (ArtifactReference_to_dict x))"
    by (rule injI) (rule ArtifactReference_view_inj)
  ultimately show ?thesis using cd by (simp add: inj_map_eq_map)
qed

lemma workflow_link_seed:
  assumes "repr_contract rt"
  shows "workflow_link rt c n p t \<noteq> workflow_seed rt d"
proof
  assume eq: "workflow_link rt c n p t = workflow_seed rt d"
  obtain j b k ys where d: "d = (j, b, k, ys)" by (metis prod_cases4)
  let ?kvs = "receipt_pairs n (rt_sha256 rt (workflow_seed rt c)) p t"
  obtain kws where kws: "context_document j b (JStr k) ys = JObj kws" "U ''kind'' \<in> set (map fst kws)"
    by (simp add: context_document_def)
  have "set (map fst ?kvs) = set (map fst kws)"
  proof (rule canonical_bytes_JObj_keys [OF assms])
    show "json_finite (JObj kws)" using context_finite [of j b k ys] kws(1) by simp
  qed (use eq kws(1) in \<open>simp_all add: workflow_link_def d receipt_pairs_def\<close>)
  moreover have "U ''kind'' \<notin> set (map fst ?kvs)" by (simp add: receipt_pairs_def)
  ultimately show False using kws(2) by blast
qed

interpretation workflow: hash_chain ledger_runtime workflow_seed workflow_link "\<lambda>t. True" "(=)"
proof unfold_locales
  show "ledger_runtime r \<Longrightarrow> is_hash (rt_sha256 r b)" for r b
    by (simp add: ledger_runtime_def sha256_hex_def)
  show "ledger_runtime r \<Longrightarrow> workflow_link r c n p e = workflow_link r d m q f \<Longrightarrow> p = q \<and> e = f" for r c n p e d m q f
    using workflow_link_inj [of r c n p e d m q f] by (simp add: ledger_runtime_def)
  show "ledger_runtime r \<Longrightarrow> workflow_link r c n p e \<noteq> workflow_seed r d" for r c n p e d
    using workflow_link_seed [of r c n p e d] by (simp add: ledger_runtime_def)
qed

text \<open>The receipts of a bundle are the chain over its transitions.\<close>

lemma verify_receipts_chain:
  assumes "context = rt_sha256 rt (workflow_seed rt c)"
  shows "verify_receipts rt context n p ids rs \<Longrightarrow>
    (if rs = [] then p else wr_digest (last rs)) = workflow.head rt c n p (map wr_transition rs)"
proof (induction rs arbitrary: n p ids)
  case (Cons r rs)
  then have r: "wr_sequence r = n" "wr_context r = context" "wr_previous r = p"
    "wr_digest r = sha_json rt (WorkflowReceipt_content r)"
    and rest: "verify_receipts rt context (n + 1) (wr_digest r) (insert (wt_id (wr_transition r)) ids) rs"
    by (simp_all split: if_splits)
  have "wr_digest r = rt_sha256 rt (workflow_link rt c n p (wr_transition r))"
    using r assms by (simp add: sha_json_def WorkflowReceipt_content_def workflow_link_def)
  then show ?case using Cons.IH [OF rest] by (cases "rs = []") simp_all
qed simp

text \<open>Receipts with the same context and transitions are the same receipts.\<close>

lemma verify_receipts_unique:
  "verify_receipts rt context n p ids rs \<Longrightarrow> verify_receipts rt context n p ids' rs'
    \<Longrightarrow> map wr_transition rs = map wr_transition rs' \<Longrightarrow> rs = rs'"
proof (induction rs arbitrary: n p ids ids' rs')
  case (Cons r rs)
  then obtain r' ss where rs': "rs' = r' # ss" "wr_transition r = wr_transition r'" "map wr_transition rs = map wr_transition ss"
    by (cases rs') auto
  have "r = r'" using Cons.prems(1,2) rs'(1,2)
    by (intro workflow_receipt.equality) (simp_all add: WorkflowReceipt_content_def split: if_splits)
  then show ?case using Cons.prems rs' Cons.IH [of "n + 1" "wr_digest r" _ _ ss] by (simp split: if_splits)
qed simp

subsection \<open>Accepted bundles\<close>

text \<open>What the constructor of a bundle checks.\<close>

definition bundle_ok :: "runtime \<Rightarrow> workflow_bundle \<Rightarrow> bool" where
  "bundle_ok rt b \<longleftrightarrow> is_identifier (wb_id b) \<and> is_hash (wb_authority b) \<and> ledger_verify rt (wb_evidence b) None
     \<and> int (length (wb_artifacts b)) \<le> max_workflow_artifacts \<and> distinct (map ar_id (wb_artifacts b))
     \<and> sorted (map ar_id (wb_artifacts b))
     \<and> int (length (wb_records b)) \<le> max_workflow_records
     \<and> verify_receipts rt (WorkflowBundle_context rt b) 0 (WorkflowBundle_context rt b) {} (wb_records b)
     \<and> json_finite (WorkflowBundle_to_dict rt b)
     \<and> int (length (canonical_bytes rt (WorkflowBundle_to_dict rt b))) \<le> max_workflow_bytes"

lemma WorkflowBundle_init_Inr:
  assumes "WorkflowBundle_init rt i a evidence artifacts records = Inr b"
  shows "bundle_ok rt b" "i = JStr (wb_id b)" "a = JStr (wb_authority b)" "wb_evidence b = evidence"
    "wb_artifacts b = sort_key ar_id artifacts" "wb_records b = records"
  using assms
  by (auto simp: WorkflowBundle_init_def bundle_ok_def Let_def canonical_json_Inr canonical_bytes_def)

lemma WorkflowBundle_init_id:
  "bundle_ok rt b \<Longrightarrow> WorkflowBundle_init rt (JStr (wb_id b)) (JStr (wb_authority b)) (wb_evidence b) (wb_artifacts b) (wb_records b) = Inr b"
  by (cases b) (simp add: WorkflowBundle_init_def bundle_ok_def Let_def canonical_json_def canonical_bytes_def sort_key_sorted)

definition bundle_chain :: "workflow_bundle \<Rightarrow> workflow_context" where
  "bundle_chain b = (wb_id b, wb_authority b, (case ledger_head (wb_evidence b) of JStr h \<Rightarrow> h | _ \<Rightarrow> []), wb_artifacts b)"

lemma verified_head_JStr: "ledger_verify rt l e \<Longrightarrow> \<exists>h. ledger_head l = JStr h"
  by (auto simp: ledger_verify_def ledger_head_def split: option.splits if_splits)

lemma bundle_chain_start:
  assumes "bundle_ok rt b"
  shows "WorkflowBundle_context rt b = rt_sha256 rt (workflow_seed rt (bundle_chain b))"
    and "ledger_head (wb_evidence b) = JStr (fst (snd (snd (bundle_chain b))))"
proof -
  have "ledger_verify rt (wb_evidence b) None" using assms by (simp add: bundle_ok_def)
  then obtain h where "ledger_head (wb_evidence b) = JStr h" using verified_head_JStr by blast
  then show "WorkflowBundle_context rt b = rt_sha256 rt (workflow_seed rt (bundle_chain b))"
    "ledger_head (wb_evidence b) = JStr (fst (snd (snd (bundle_chain b))))"
    by (simp_all add: WorkflowBundle_context_def bundle_chain_def sha_json_def)
qed

text \<open>The head of an accepted bundle is the head of its chain.\<close>

lemma bundle_head_chain:
  assumes "bundle_ok rt b"
  shows "WorkflowBundle_head rt b = workflow.head rt (bundle_chain b) 0 (workflow.start rt (bundle_chain b)) (map wr_transition (wb_records b))"
  using verify_receipts_chain [OF bundle_chain_start(1) [OF assms], of 0 _ "{}" "wb_records b"] assms bundle_chain_start(1) [OF assms]
  by (simp add: bundle_ok_def WorkflowBundle_head_def workflow.start_def)

definition bundle_inputs :: "runtime \<Rightarrow> workflow_bundle \<Rightarrow> bytes set" where
  "bundle_inputs rt b = workflow.all_inputs rt (bundle_chain b) (map wr_transition (wb_records b))"

lemma workflow_tamper_evident:
  assumes rt: "ledger_runtime rt" and ok: "bundle_ok rt b" "bundle_ok rt d"
    and head: "WorkflowBundle_head rt b = WorkflowBundle_head rt d"
    and cf: "collision_free rt (bundle_inputs rt b \<union> bundle_inputs rt d)"
  shows "wb_id b = wb_id d \<and> wb_authority b = wb_authority d \<and> wb_artifacts b = wb_artifacts d
    \<and> wb_records b = wb_records d \<and> ledger_head (wb_evidence b) = ledger_head (wb_evidence d)"
proof -
  have rep: "repr_contract rt" using rt by (simp add: ledger_runtime_def)
  have "list_all2 (=) (map wr_transition (wb_records b)) (map wr_transition (wb_records d))
      \<and> workflow_seed rt (bundle_chain b) = workflow_seed rt (bundle_chain d)"
    using head bundle_head_chain [OF ok(1)] bundle_head_chain [OF ok(2)]
    by (intro workflow.head_determines [OF rt cf [unfolded bundle_inputs_def]]) simp_all
  then have eq: "map wr_transition (wb_records b) = map wr_transition (wb_records d)"
    "bundle_chain b = bundle_chain d"
    using workflow_seed_inj [OF rep] by (simp_all add: list.rel_eq)
  then have "WorkflowBundle_context rt b = WorkflowBundle_context rt d"
    using bundle_chain_start(1) [OF ok(1)] bundle_chain_start(1) [OF ok(2)] by simp
  then have "wb_records b = wb_records d"
    using ok by (intro verify_receipts_unique [OF _ _ eq(1), of rt "WorkflowBundle_context rt d" 0
          "WorkflowBundle_context rt d" "{}" "{}"]) (simp_all add: bundle_ok_def)
  moreover have "ledger_head (wb_evidence b) = ledger_head (wb_evidence d)"
    using eq(2) bundle_chain_start(2) [OF ok(1)] bundle_chain_start(2) [OF ok(2)] by metis
  ultimately show ?thesis
    using eq(2) by (simp add: bundle_chain_def)
qed

subsection \<open>Replay accepts exactly the authorized histories\<close>

lemma bundle_head_hex: "ledger_runtime rt \<Longrightarrow> bundle_ok rt b \<Longrightarrow> is_hash (WorkflowBundle_head rt b)"
  by (simp add: bundle_head_chain workflow.head_hex workflow.start_def workflow.hash_hex)

text \<open>The final state is accepted whenever every step is: the accounting of the state never fails.\<close>

lemma replay_workflow_Inr_iff:
  assumes "ledger_runtime rt" "bundle_ok rt b"
  shows "replay_workflow rt b authority expected = Inr s \<longleftrightarrow>
    AuthorityPolicy_digest rt authority = wb_authority b
    \<and> (expected = None \<or> expected = Some (WorkflowBundle_head rt b))
    \<and> (\<exists>claims. rfold (replay_step authority b) [] (map wr_transition (wb_records b)) = Inr claims
      \<and> s = \<lparr>ws_id = wb_id b, ws_head = WorkflowBundle_head rt b, ws_count = int (length (wb_records b)), ws_claims = claims\<rparr>)"
proof -
  have hex: "is_hash (WorkflowBundle_head rt b)" using bundle_head_hex assms .
  have init: "WorkflowState_init (wb_id b) (WorkflowBundle_head rt b) (int (length (wb_records b))) claims = Inr s \<longleftrightarrow>
      s = \<lparr>ws_id = wb_id b, ws_head = WorkflowBundle_head rt b, ws_count = int (length (wb_records b)), ws_claims = claims\<rparr>"
    if "rfold (replay_step authority b) [] (map wr_transition (wb_records b)) = Inr claims" for claims
  proof -
    have inv: "claims_inv authority b claims" "revisions claims = int (length (wb_records b))"
      "length claims \<le> length (wb_records b)"
      using replay_loop_inv [OF that claims_inv_empty] by (simp_all add: revisions_def)
    then have "list_all (\<lambda>(k, c). k = cw_claim c) claims"
      by (auto simp: claims_inv_def keys_ok_def list_all_iff)
    then show ?thesis
      using assms(2) inv hex by (auto simp: WorkflowState_init_def bundle_ok_def revisions_def)
  qed
  show ?thesis
    using init hex by (cases expected) (auto simp: replay_workflow_def)
qed

subsection \<open>Appending\<close>

lemma WorkflowReceipt_init_Inr [simp]:
  "WorkflowReceipt_init (JInt n) (JStr c) (JStr p) t (JStr d) = Inr r \<longleftrightarrow>
     0 \<le> n \<and> n < max_workflow_records \<and> is_hash c \<and> is_hash p \<and> is_hash d
     \<and> r = \<lparr>wr_sequence = n, wr_context = c, wr_previous = p, wr_transition = t, wr_digest = d\<rparr>"
  by (auto simp: WorkflowReceipt_init_def)

text \<open>Appending keeps the receipts of the bundle and adds one per transition, in order.\<close>

lemma append_records_Inr:
  "append_records rt c p rs ts = Inr rs' \<Longrightarrow> \<exists>new. rs' = rs @ new \<and> map wr_transition new = ts"
proof (induction ts arbitrary: p rs)
  case (Cons t ts)
  from Cons.prems obtain q :: workflow_receipt and d r where r: "append_records rt c (wr_digest r) (rs @ [r]) ts = Inr rs'"
    and i: "WorkflowReceipt_init (JInt (wr_sequence q)) (JStr (wr_context q)) (JStr (wr_previous q)) t (JStr d) = Inr r"
    by (simp del: WorkflowReceipt_init_Inr) blast
  from i have t: "wr_transition r = t" by auto
  from Cons.IH [OF r] obtain new where "rs' = (rs @ [r]) @ new" "map wr_transition new = ts" by blast
  with t show ?case by (intro exI [of _ "r # new"]) simp
qed simp

lemma verify_receipts_extend:
  "verify_receipts rt c n p ids (xs @ ys) \<longleftrightarrow> verify_receipts rt c n p ids xs
     \<and> verify_receipts rt c (n + int (length xs)) (if xs = [] then p else wr_digest (last xs))
         (ids \<union> set (map (\<lambda>r. wt_id (wr_transition r)) xs)) ys"
  by (induction xs arbitrary: n p ids) (auto simp: algebra_simps insert_commute)

lemma append_records_total:
  assumes rt: "ledger_runtime rt" and c: "is_hash c"
  shows "is_hash p \<Longrightarrow> int (length rs + length ts) \<le> max_workflow_records \<Longrightarrow>
    \<exists>new. append_records rt c p rs ts = Inr (rs @ new) \<and> map wr_transition new = ts
      \<and> (\<forall>ids. distinct (map wt_id ts) \<longrightarrow> set (map wt_id ts) \<inter> ids = {}
           \<longrightarrow> verify_receipts rt c (int (length rs)) p ids new)"
proof (induction ts arbitrary: p rs)
  case (Cons t ts)
  let ?n = "int (length rs)"
  let ?d = "sha_json rt (JObj (receipt_pairs ?n c p t))"
  let ?r = "\<lparr>wr_sequence = ?n, wr_context = c, wr_previous = p, wr_transition = t, wr_digest = ?d\<rparr>"
  have d: "is_hash ?d" using rt by (simp add: ledger_runtime_def sha256_hex_def sha_json_def)
  have zeros: "is_hash (replicate 64 48)" by (simp add: is_hash_def hex_digit_def list_all_iff)
  obtain new where new: "append_records rt c ?d (rs @ [?r]) ts = Inr ((rs @ [?r]) @ new)" "map wr_transition new = ts"
    "\<And>ids. distinct (map wt_id ts) \<Longrightarrow> set (map wt_id ts) \<inter> ids = {}
       \<Longrightarrow> verify_receipts rt c (int (length (rs @ [?r]))) ?d ids new"
    using Cons.IH [OF d, of "rs @ [?r]"] Cons.prems(2) by fastforce
  have fin: "json_finite (JObj (receipt_pairs ?n c p t))" by (simp add: receipt_pairs_def)
  have content: "WorkflowReceipt_content \<lparr>wr_sequence = ?n, wr_context = c, wr_previous = p, wr_transition = t, wr_digest = z\<rparr>
      = JObj (receipt_pairs ?n c p t)" for z
    by (simp add: WorkflowReceipt_content_def)
  have a: "append_records rt c p rs (t # ts) = Inr (rs @ (?r # new))"
    using new(1) Cons.prems c d zeros fin by (simp add: WorkflowReceipt_init_def content)
  have v: "verify_receipts rt c ?n p ids (?r # new)"
    if "distinct (map wt_id (t # ts))" "set (map wt_id (t # ts)) \<inter> ids = {}" for ids
    using new(3) [of "insert (wt_id t) ids"] that by (simp add: content add.commute)
  have m: "map wr_transition (?r # new) = t # ts" using new(2) by simp
  show ?case by (intro exI [of _ "?r # new"] conjI allI impI a m v)
qed simp

text \<open>
  Appending succeeds exactly when the bundle and its extension replay: within the size limits, with fresh
  transition identifiers, the steps of the new transitions decide.
\<close>

lemma WorkflowBundle_append_Inr:
  assumes "ledger_runtime rt" "bundle_ok rt b" "WorkflowBundle_append rt b ts authority = Inr d"
  shows "\<exists>new. wb_records d = wb_records b @ new \<and> map wr_transition new = ts"
    and "bundle_ok rt d" "wb_id d = wb_id b" "wb_authority d = wb_authority b" "wb_evidence d = wb_evidence b"
    and "wb_artifacts d = wb_artifacts b"
    and "\<exists>s s'. replay_workflow rt b authority None = Inr s \<and> replay_workflow rt d authority None = Inr s'
      \<and> rfold (replay_step authority b) (ws_claims s) ts = Inr (ws_claims s')"
proof -
  from assms(3) obtain s s' rs where s: "replay_workflow rt b authority None = Inr s"
    and rs: "append_records rt (WorkflowBundle_context rt b) (WorkflowBundle_head rt b) (wb_records b) ts = Inr rs"
    and d: "WorkflowBundle_init rt (JStr (wb_id b)) (JStr (wb_authority b)) (wb_evidence b) (wb_artifacts b) rs = Inr d"
    and s': "replay_workflow rt d authority None = Inr s'"
    by (auto simp: WorkflowBundle_append_def)
  obtain new where new: "rs = wb_records b @ new" "map wr_transition new = ts"
    using append_records_Inr [OF rs] by blast
  note i = WorkflowBundle_init_Inr [OF d]
  have "sorted (map ar_id (wb_artifacts b))" using assms(2) by (simp add: bundle_ok_def)
  then have same: "wb_artifacts d = wb_artifacts b" using i(5) by (simp add: sort_key_sorted)
  show "\<exists>new. wb_records d = wb_records b @ new \<and> map wr_transition new = ts" using i(6) new by blast
  show "bundle_ok rt d" "wb_id d = wb_id b" "wb_authority d = wb_authority b" "wb_evidence d = wb_evidence b"
    "wb_artifacts d = wb_artifacts b"
    using i same by simp_all
  have step: "replay_step authority d = replay_step authority b"
    by (intro ext) (simp add: replay_step_def same i(4))
  have "rfold (replay_step authority b) [] (map wr_transition (wb_records b)) = Inr (ws_claims s)"
    using s replay_workflow_Inr_iff [OF assms(1,2)] by auto
  moreover have "rfold (replay_step authority b) [] (map wr_transition (wb_records b) @ ts) = Inr (ws_claims s')"
    using s' replay_workflow_Inr_iff [OF assms(1) i(1)] i(6) new step by auto
  ultimately show "\<exists>s s'. replay_workflow rt b authority None = Inr s \<and> replay_workflow rt d authority None = Inr s'
      \<and> rfold (replay_step authority b) (ws_claims s) ts = Inr (ws_claims s')"
    using s s' by (auto simp: rfold_append)
qed

text \<open>Conversely, an authorized continuation with fresh identifiers and within the limits is accepted.\<close>

definition appended_size :: "runtime \<Rightarrow> workflow_bundle \<Rightarrow> workflow_transition list \<Rightarrow> bool" where
  "appended_size rt b ts \<longleftrightarrow> (\<forall>new. map wr_transition new = ts
      \<and> (\<forall>r \<in> set new. is_hash (wr_context r) \<and> is_hash (wr_previous r) \<and> is_hash (wr_digest r)
           \<and> 0 \<le> wr_sequence r \<and> wr_sequence r < int (length (wb_records b) + length ts))
    \<longrightarrow> int (length (canonical_bytes rt (WorkflowBundle_to_dict rt (b\<lparr>wb_records := wb_records b @ new\<rparr>)))) \<le> max_workflow_bytes)"

lemma verify_receipts_ids:
  "verify_receipts rt c n p ids xs \<Longrightarrow> distinct (map (\<lambda>r. wt_id (wr_transition r)) xs)
     \<and> set (map (\<lambda>r. wt_id (wr_transition r)) xs) \<inter> ids = {}"
  by (induction rt c n p ids xs rule: verify_receipts.induct) (auto split: if_splits)

lemma verify_receipts_hashes:
  "ledger_runtime rt \<Longrightarrow> is_hash c \<Longrightarrow> is_hash p \<Longrightarrow> verify_receipts rt c n p ids rs
    \<Longrightarrow> \<forall>r \<in> set rs. is_hash (wr_context r) \<and> is_hash (wr_previous r) \<and> is_hash (wr_digest r)
      \<and> n \<le> wr_sequence r \<and> wr_sequence r < n + int (length rs)"
proof (induction rs arbitrary: n p ids)
  case (Cons r rs)
  then have r: "wr_sequence r = n" "wr_context r = c" "wr_previous r = p" "wr_digest r = sha_json rt (WorkflowReceipt_content r)"
    and rest: "verify_receipts rt c (n + 1) (wr_digest r) (insert (wt_id (wr_transition r)) ids) rs"
    by (auto split: if_splits)
  have "is_hash (wr_digest r)" using r(4) Cons.prems(1) by (simp add: ledger_runtime_def sha256_hex_def sha_json_def)
  from Cons.IH [OF Cons.prems(1,2) this rest] this show ?case using r Cons.prems by auto
qed simp

lemma WorkflowBundle_append_accepts:
  assumes rt: "ledger_runtime rt" and b: "bundle_ok rt b" "AuthorityPolicy_digest rt authority = wb_authority b"
    and run: "rfold (replay_step authority b) [] (map wr_transition (wb_records b)) = Inr before"
      "rfold (replay_step authority b) before ts = Inr after"
    and ids: "distinct (map wt_id (map wr_transition (wb_records b) @ ts))"
    and len: "int (length (wb_records b) + length ts) \<le> max_workflow_records" "appended_size rt b ts"
  shows "\<exists>d s. WorkflowBundle_append rt b ts authority = Inr d \<and> replay_workflow rt d authority None = Inr s
    \<and> ws_claims s = after"
proof -
  let ?c = "WorkflowBundle_context rt b" and ?h = "WorkflowBundle_head rt b"
  have c: "is_hash ?c" using rt by (simp add: WorkflowBundle_context_def ledger_runtime_def sha256_hex_def sha_json_def)
  have h: "is_hash ?h" using bundle_head_hex rt b(1) .
  obtain s0 where s0: "replay_workflow rt b authority None = Inr s0"
    using replay_workflow_Inr_iff [OF rt b(1)] b(2) run(1) by blast
  obtain new where new: "append_records rt ?c ?h (wb_records b) ts = Inr (wb_records b @ new)" "map wr_transition new = ts"
    "\<And>ids. distinct (map wt_id ts) \<Longrightarrow> set (map wt_id ts) \<inter> ids = {}
       \<Longrightarrow> verify_receipts rt ?c (int (length (wb_records b))) ?h ids new"
    using append_records_total [OF rt c h len(1)] by blast
  let ?d = "b\<lparr>wb_records := wb_records b @ new\<rparr>"
  have old: "verify_receipts rt ?c 0 ?c {} (wb_records b)" using b(1) by (simp add: bundle_ok_def)
  have vn: "verify_receipts rt ?c (int (length (wb_records b))) ?h ({} \<union> set (map (\<lambda>r. wt_id (wr_transition r)) (wb_records b))) new"
    by (rule new(3)) (use ids in \<open>auto simp: o_def\<close>)
  have same: "WorkflowBundle_context rt ?d = ?c" by (simp add: WorkflowBundle_context_def)
  have v: "verify_receipts rt (WorkflowBundle_context rt ?d) 0 (WorkflowBundle_context rt ?d) {} (wb_records ?d)"
    using old vn unfolding same by (simp add: verify_receipts_extend WorkflowBundle_head_def)
  have nl: "length new = length ts" using new(2) by (metis length_map)
  have size: "int (length (canonical_bytes rt (WorkflowBundle_to_dict rt ?d))) \<le> max_workflow_bytes"
  proof -
    have "\<forall>r \<in> set new. is_hash (wr_context r) \<and> is_hash (wr_previous r) \<and> is_hash (wr_digest r)
           \<and> 0 \<le> wr_sequence r \<and> wr_sequence r < int (length (wb_records b) + length ts)"
      using verify_receipts_hashes [OF rt c h vn] by (auto simp: nl)
    then show ?thesis using len(2) new(2) unfolding appended_size_def by blast
  qed
  have fin: "json_finite (WorkflowBundle_to_dict rt ?d)"
    using b(1) by (auto simp: bundle_ok_def WorkflowBundle_to_dict_def list_all_iff WorkflowReceipt_to_dict_def receipt_pairs_def)
  have ok: "bundle_ok rt ?d"
    using b(1) v size fin len(1) nl unfolding bundle_ok_def by simp
  have init: "WorkflowBundle_init rt (JStr (wb_id b)) (JStr (wb_authority b)) (wb_evidence b) (wb_artifacts b) (wb_records b @ new) = Inr ?d"
    using WorkflowBundle_init_id [OF ok] by simp
  have step: "replay_step authority ?d = replay_step authority b"
    by (intro ext) (simp add: replay_step_def)
  have "rfold (replay_step authority ?d) [] (map wr_transition (wb_records ?d)) = Inr after"
    using run new(2) by (simp add: step rfold_append)
  then obtain s where s: "replay_workflow rt ?d authority None = Inr s" "ws_claims s = after"
    using replay_workflow_Inr_iff [OF rt ok] b(2) by auto
  show ?thesis
    by (intro exI [of _ ?d] exI [of _ s]) (simp add: WorkflowBundle_append_def s0 new(1) init s)
qed

subsection \<open>Reading back\<close>

text \<open>Records that came through their constructors.\<close>

definition bundle_typed :: "workflow_bundle \<Rightarrow> bool" where
  "bundle_typed b \<longleftrightarrow> (\<forall>a \<in> set (wb_artifacts b). artifact_ok a)
     \<and> (\<forall>r \<in> set (wb_records b). transition_ok (wr_transition r))"

lemma WorkflowReceipt_roundtrip:
  "transition_ok (wr_transition r) \<Longrightarrow> is_hash (wr_context r) \<Longrightarrow> is_hash (wr_previous r) \<Longrightarrow> is_hash (wr_digest r)
    \<Longrightarrow> 0 \<le> wr_sequence r \<Longrightarrow> wr_sequence r < max_workflow_records
    \<Longrightarrow> WorkflowReceipt_from_dict (WorkflowReceipt_to_dict r) = Inr r"
  by (cases r) (simp add: WorkflowReceipt_from_dict_def WorkflowReceipt_to_dict_def receipt_pairs_def exact_fields_def
      WorkflowTransition_roundtrip)

lemma WorkflowBundle_roundtrip:
  assumes rt: "ledger_runtime rt" "iso_contract rt" and b: "bundle_ok rt b" "bundle_typed b"
    and s: "replay_workflow rt b authority None = Inr s"
  shows "WorkflowBundle_from_dict rt (WorkflowBundle_to_dict rt b) authority None None = Inr b
    \<longleftrightarrow> ledger_written (wb_evidence b)"
proof
  assume "WorkflowBundle_from_dict rt (WorkflowBundle_to_dict rt b) authority None None = Inr b"
  then show "ledger_written (wb_evidence b)"
    by (auto simp: WorkflowBundle_from_dict_def dest!: WorkflowBundle_init_Inr(4) EvidenceLedger_from_dict_written)
next
  assume "ledger_written (wb_evidence b)"
  then have evidence: "EvidenceLedger_from_dict rt (EvidenceLedger_to_dict rt (wb_evidence b)) None = Inr (wb_evidence b)"
    using EvidenceLedger_reread [OF rt] b(1) by (simp add: bundle_ok_def)
  have c: "is_hash (WorkflowBundle_context rt b)"
    using rt(1) bundle_chain_start(1) [OF b(1)] by (simp add: ledger_runtime_def sha256_hex_def)
  have v: "verify_receipts rt (WorkflowBundle_context rt b) 0 (WorkflowBundle_context rt b) {} (wb_records b)"
    and len: "int (length (wb_records b)) \<le> max_workflow_records" "int (length (wb_artifacts b)) \<le> max_workflow_artifacts"
    and fin: "json_finite (WorkflowBundle_to_dict rt b)"
    using b(1) by (simp_all add: bundle_ok_def)
  have "WorkflowReceipt_from_dict (WorkflowReceipt_to_dict r) = Inr r" if "r \<in> set (wb_records b)" for r
    using bspec [OF verify_receipts_hashes [OF rt(1) c c v] that] b(2) len(1) that
    by (intro WorkflowReceipt_roundtrip) (simp_all add: bundle_typed_def)
  then have "rmap WorkflowReceipt_from_dict (map WorkflowReceipt_to_dict (wb_records b)) = Inr (wb_records b)"
    by (simp add: rmap_Inr_iff list.rel_map list.rel_refl_strong)
  moreover have "rmap ArtifactReference_from_dict (map ArtifactReference_to_dict (wb_artifacts b)) = Inr (wb_artifacts b)"
    using b(2) by (auto simp: rmap_Inr_iff list_all2_conv_all_nth bundle_typed_def ArtifactReference_roundtrip)
  moreover have "length (wb_records b) \<le> nat max_workflow_records" "length (wb_artifacts b) \<le> nat max_workflow_artifacts"
    using len by simp_all
  moreover have "canonical_json rt (WorkflowBundle_to_dict rt b) = Inr (dumps rt (WorkflowBundle_to_dict rt b))"
    using fin by (simp add: canonical_json_def)
  ultimately show "WorkflowBundle_from_dict rt (WorkflowBundle_to_dict rt b) authority None None = Inr b"
    using s evidence WorkflowBundle_init_id [OF b(1)]
    by (simp add: WorkflowBundle_from_dict_def WorkflowBundle_to_dict_def [of rt b] exact_fields_def)
qed

end
