(* ===== verification/Case_Core.thy ===== *)
theory Case_Core
  imports Authority
begin

text \<open>
  The epistemic-case core (epistemic_case.py): actors whose kind limits their roles, the four typed records
  (plan, observation, verdict, decision), receipts, journals, and the replay that accepts one complete history
  of declarations. Documents of this component hold strings and integers only, so their canonical bytes
  always exist; \<open>_document\<close>, which reads bytes, rests on the JSON parser and is not modelled.
\<close>

subsection \<open>Bounds and digests\<close>

definition case_domain :: bytes where
  "case_domain = utf8 (U ''evidence-braid:epistemic-case:v1'') @ [0]"

definition max_case_records :: int where
  "max_case_records = 512"

definition max_case_wire_bytes :: nat where
  "max_case_wire_bytes = 2 * 1024 * 1024"

definition max_case_record_bytes :: nat where
  "max_case_record_bytes = 16 * 1024"

definition max_case_authority_bytes :: nat where
  "max_case_authority_bytes = 64 * 1024"

definition case_fields :: "json \<Rightarrow> string list \<Rightarrow> string \<Rightarrow> (ustr \<times> json) list result" where
  "case_fields v names label =
     (case v of
        JObj kvs \<Rightarrow> if set (map fst kvs) = set (map U names) then Inr kvs
          else Inl (ValidationError (label @ '' requires exactly its versioned fields''))
      | _ \<Rightarrow> Inl (ValidationError (label @ '' requires exactly its versioned fields'')))"

definition case_profile :: "(ustr \<times> json) list \<Rightarrow> string \<Rightarrow> unit result" where
  "case_profile data kind =
     require (dget data ''kind'' = JText kind \<and> dget data ''schema_version'' = JText ''1.0'')
       ''unsupported epistemic case wire profile''"

definition case_bounded :: "runtime \<Rightarrow> json \<Rightarrow> nat \<Rightarrow> string \<Rightarrow> bytes result" where
  "case_bounded rt v maximum label =
     rbind (require (length (canonical_bytes rt v) \<le> maximum) (label @ '' exceeds its byte bound'')) (\<lambda>_.
     Inr (canonical_bytes rt v))"

definition case_tuple :: "json \<Rightarrow> nat \<Rightarrow> string \<Rightarrow> json list result" where
  "case_tuple v maximum label =
     (case v of
        JArr xs \<Rightarrow> if length xs \<le> maximum then Inr xs else Inl (ValidationError (label @ '' must be a bounded array''))
      | _ \<Rightarrow> Inl (ValidationError (label @ '' must be a bounded array'')))"

text \<open>A digest in the domain of this component, under a tag byte.\<close>

definition case_hash :: "runtime \<Rightarrow> string \<Rightarrow> bytes \<Rightarrow> ustr" where
  "case_hash rt tag content = rt_sha256 rt (case_domain @ U tag @ content)"

lemma case_fields_Inr: "case_fields v names label = Inr kvs \<longleftrightarrow> v = JObj kvs \<and> set (map fst kvs) = set (map U names)"
  by (cases v) (auto simp: case_fields_def)

lemma case_bounded_Inr [simp]:
  "case_bounded rt v m label = Inr b \<longleftrightarrow> b = canonical_bytes rt v \<and> length (canonical_bytes rt v) \<le> m"
  by (auto simp: case_bounded_def)

lemma case_tuple_Inr [simp]: "case_tuple v m label = Inr xs \<longleftrightarrow> v = JArr xs \<and> length xs \<le> m"
  by (cases v) (auto simp: case_tuple_def)

subsection \<open>Actors\<close>

datatype case_kind = KIND_MODEL | KIND_TOOL | KIND_HUMAN | KIND_POLICY
datatype case_role = PROPOSE | OBSERVE | EVALUATE | DECIDE

fun case_kind_value :: "case_kind \<Rightarrow> string" where
  "case_kind_value KIND_MODEL = ''model''" | "case_kind_value KIND_TOOL = ''tool''"
| "case_kind_value KIND_HUMAN = ''human''" | "case_kind_value KIND_POLICY = ''policy''"

fun case_role_value :: "case_role \<Rightarrow> string" where
  "case_role_value PROPOSE = ''propose''" | "case_role_value OBSERVE = ''observe''"
| "case_role_value EVALUATE = ''evaluate''" | "case_role_value DECIDE = ''decide''"

definition case_kinds_all :: "case_kind list" where
  "case_kinds_all = [KIND_MODEL, KIND_TOOL, KIND_HUMAN, KIND_POLICY]"

definition case_roles_all :: "case_role list" where
  "case_roles_all = [PROPOSE, OBSERVE, EVALUATE, DECIDE]"

fun allowed_roles :: "case_kind \<Rightarrow> case_role set" where
  "allowed_roles KIND_MODEL = {PROPOSE}"
| "allowed_roles KIND_TOOL = {OBSERVE, EVALUATE}"
| "allowed_roles KIND_HUMAN = {PROPOSE, EVALUATE, DECIDE}"
| "allowed_roles KIND_POLICY = {EVALUATE, DECIDE}"

record case_grant =
  cg_scope :: ustr
  cg_role :: case_role

definition CaseGrant_init :: "json \<Rightarrow> case_role \<Rightarrow> case_grant result" where
  "CaseGrant_init scope role =
     rbind (identifier_value scope ''case grant scope'') (\<lambda>s. Inr \<lparr>cg_scope = s, cg_role = role\<rparr>)"

definition CaseGrant_to_dict :: "case_grant \<Rightarrow> json" where
  "CaseGrant_to_dict g = JObj [(U ''scope'', JStr (cg_scope g)), (U ''role'', JText (case_role_value (cg_role g)))]"

definition CaseGrant_from_dict :: "json \<Rightarrow> case_grant result" where
  "CaseGrant_from_dict value =
     rbind (case_fields value [''scope'', ''role''] ''case grant'') (\<lambda>data.
     rbind (known_enum (dget data ''role'') case_role_value case_roles_all ''case grant role'') (\<lambda>role.
     CaseGrant_init (dget data ''scope'') role))"

record case_actor =
  ca_id :: ustr
  ca_kind :: case_kind
  ca_grants :: "case_grant list"

definition CaseActor_init :: "json \<Rightarrow> case_kind \<Rightarrow> case_grant list \<Rightarrow> case_actor result" where
  "CaseActor_init actor_id kind grants =
     rbind (identifier_value actor_id ''case actor ID'') (\<lambda>i.
     rbind (require (1 \<le> length grants \<and> length grants \<le> 64 \<and> distinct grants)
              ''case actor needs unique bounded grants'') (\<lambda>_.
     rbind (require (list_all (\<lambda>g. cg_role g \<in> allowed_roles kind) grants)
              ''case actor kind cannot hold the requested role'') (\<lambda>_.
     Inr \<lparr>ca_id = i, ca_kind = kind, ca_grants = grants\<rparr>)))"

definition CaseActor_permits :: "case_actor \<Rightarrow> ustr \<Rightarrow> case_role \<Rightarrow> bool result" where
  "CaseActor_permits a scope role =
     rbind (CaseGrant_init (JStr scope) role) (\<lambda>g. Inr (g \<in> set (ca_grants a)))"

definition CaseActor_to_dict :: "case_actor \<Rightarrow> json" where
  "CaseActor_to_dict a = JObj
     [(U ''actor_id'', JStr (ca_id a)), (U ''kind'', JText (case_kind_value (ca_kind a))),
      (U ''grants'', JArr (map CaseGrant_to_dict (ca_grants a)))]"

definition CaseActor_from_dict :: "json \<Rightarrow> case_actor result" where
  "CaseActor_from_dict value =
     rbind (case_fields value [''actor_id'', ''kind'', ''grants''] ''case actor'') (\<lambda>data.
     rbind (known_enum (dget data ''kind'') case_kind_value case_kinds_all ''case actor kind'') (\<lambda>kind.
     rbind (case_tuple (dget data ''grants'') 64 ''grants'') (\<lambda>xs.
     rbind (rmap CaseGrant_from_dict xs) (\<lambda>grants.
     CaseActor_init (dget data ''actor_id'') kind grants))))"

record case_authority =
  cau_policy :: ustr
  cau_actors :: "case_actor list"

definition CaseAuthority_to_dict :: "case_authority \<Rightarrow> json" where
  "CaseAuthority_to_dict a = JObj
     [(U ''kind'', JText ''evidence-braid-case-authority''), (U ''schema_version'', JText ''1.0''),
      (U ''policy_id'', JStr (cau_policy a)), (U ''actors'', JArr (map CaseActor_to_dict (cau_actors a)))]"

definition CaseAuthority_init :: "runtime \<Rightarrow> json \<Rightarrow> case_actor list \<Rightarrow> case_authority result" where
  "CaseAuthority_init rt policy_id actors =
     rbind (identifier_value policy_id ''case policy ID'') (\<lambda>i.
     rbind (require (1 \<le> length actors \<and> length actors \<le> 64 \<and> distinct (map ca_id actors))
              ''case authority needs unique bounded actors'') (\<lambda>_.
     let a = \<lparr>cau_policy = i, cau_actors = actors\<rparr> in
     rbind (case_bounded rt (CaseAuthority_to_dict a) max_case_authority_bytes ''case authority'') (\<lambda>_.
     Inr a)))"

text \<open>\<open>to_bytes\<close> checks again the bound the constructor has checked.\<close>

definition CaseAuthority_digest :: "runtime \<Rightarrow> case_authority \<Rightarrow> ustr" where
  "CaseAuthority_digest rt a = case_hash rt ''A'' (canonical_bytes rt (CaseAuthority_to_dict a))"

definition CaseAuthority_from_dict :: "runtime \<Rightarrow> json \<Rightarrow> case_authority result" where
  "CaseAuthority_from_dict rt value =
     rbind (case_fields value [''kind'', ''schema_version'', ''policy_id'', ''actors''] ''case authority'') (\<lambda>data.
     rbind (case_profile data ''evidence-braid-case-authority'') (\<lambda>_.
     rbind (case_tuple (dget data ''actors'') 64 ''actors'') (\<lambda>xs.
     rbind (rmap CaseActor_from_dict xs) (\<lambda>actors.
     CaseAuthority_init rt (dget data ''policy_id'') actors))))"

subsection \<open>Records\<close>

datatype observation_status = OBSERVED | UNAVAILABLE | OBSERVATION_ERROR
datatype verdict_outcome = SUPPORTED | REFUTED | INCONCLUSIVE
datatype disposition = APPROVE_CASE | REJECT_CASE | DEFER_CASE
datatype case_phase = EMPTY | PLANNED | OBSERVED_PHASE | VERDICTED | DECIDED

fun observation_value :: "observation_status \<Rightarrow> string" where
  "observation_value OBSERVED = ''observed''" | "observation_value UNAVAILABLE = ''unavailable''"
| "observation_value OBSERVATION_ERROR = ''error''"

fun verdict_outcome_value :: "verdict_outcome \<Rightarrow> string" where
  "verdict_outcome_value SUPPORTED = ''supported''" | "verdict_outcome_value REFUTED = ''refuted''"
| "verdict_outcome_value INCONCLUSIVE = ''inconclusive''"

fun disposition_value :: "disposition \<Rightarrow> string" where
  "disposition_value APPROVE_CASE = ''approve''" | "disposition_value REJECT_CASE = ''reject''"
| "disposition_value DEFER_CASE = ''defer''"

definition observations_all :: "observation_status list" where
  "observations_all = [OBSERVED, UNAVAILABLE, OBSERVATION_ERROR]"

definition verdict_outcomes_all :: "verdict_outcome list" where
  "verdict_outcomes_all = [SUPPORTED, REFUTED, INCONCLUSIVE]"

definition dispositions_all :: "disposition list" where
  "dispositions_all = [APPROVE_CASE, REJECT_CASE, DEFER_CASE]"

record case_plan =
  cp_case_id :: ustr
  cp_workflow_id :: ustr
  cp_claim_id :: ustr
  cp_scope :: ustr
  cp_proposer :: ustr
  cp_assertion_artifact :: ustr
  cp_assertion_sha256 :: ustr
  cp_hypothesis :: ustr
  cp_prediction :: ustr
  cp_expected_text :: ustr
  cp_input_artifact :: ustr
  cp_input_sha256 :: ustr
  cp_prediction_sha256 :: ustr
  cp_test_id :: ustr
  cp_adapter_id :: ustr
  cp_adapter_version :: ustr
  cp_comparator :: ustr
  cp_authority_digest :: ustr

definition plan_fields :: "string list" where
  "plan_fields = [''case_id'', ''workflow_id'', ''claim_id'', ''scope'', ''proposer_id'', ''assertion_artifact_id'',
     ''assertion_sha256'', ''hypothesis'', ''prediction'', ''expected_observation_text'', ''input_artifact_id'',
     ''input_sha256'', ''prediction_sha256'', ''test_id'', ''adapter_id'', ''adapter_version'', ''comparator_profile'',
     ''authority_digest'']"

definition CasePlan_to_dict :: "case_plan \<Rightarrow> json" where
  "CasePlan_to_dict p = JObj
     [(U ''kind'', JText ''evidence-braid-case-plan''), (U ''schema_version'', JText ''1.0''),
      (U ''case_id'', JStr (cp_case_id p)), (U ''workflow_id'', JStr (cp_workflow_id p)),
      (U ''claim_id'', JStr (cp_claim_id p)), (U ''scope'', JStr (cp_scope p)), (U ''proposer_id'', JStr (cp_proposer p)),
      (U ''assertion_artifact_id'', JStr (cp_assertion_artifact p)), (U ''assertion_sha256'', JStr (cp_assertion_sha256 p)),
      (U ''hypothesis'', JStr (cp_hypothesis p)), (U ''prediction'', JStr (cp_prediction p)),
      (U ''expected_observation_text'', JStr (cp_expected_text p)),
      (U ''input_artifact_id'', JStr (cp_input_artifact p)), (U ''input_sha256'', JStr (cp_input_sha256 p)),
      (U ''prediction_sha256'', JStr (cp_prediction_sha256 p)), (U ''test_id'', JStr (cp_test_id p)),
      (U ''adapter_id'', JStr (cp_adapter_id p)), (U ''adapter_version'', JStr (cp_adapter_version p)),
      (U ''comparator_profile'', JStr (cp_comparator p)), (U ''authority_digest'', JStr (cp_authority_digest p))]"

text \<open>The constructor, over its keyword arguments.\<close>

definition plan_text :: "json \<Rightarrow> ustr result" where
  "plan_text v =
     (case v of JStr s \<Rightarrow> Inr s | _ \<Rightarrow> Inl (ValidationError ''expected observation must be exact UTF-8 text''))"

definition CasePlan_init :: "runtime \<Rightarrow> (ustr \<times> json) list \<Rightarrow> case_plan result" where
  "CasePlan_init rt args =
     rbind (identifier_value (dget args ''case_id'') ''case plan case_id'') (\<lambda>case_id.
     rbind (identifier_value (dget args ''workflow_id'') ''case plan workflow_id'') (\<lambda>workflow_id.
     rbind (identifier_value (dget args ''claim_id'') ''case plan claim_id'') (\<lambda>claim_id.
     rbind (identifier_value (dget args ''scope'') ''case plan scope'') (\<lambda>scope.
     rbind (identifier_value (dget args ''proposer_id'') ''case plan proposer_id'') (\<lambda>proposer.
     rbind (identifier_value (dget args ''assertion_artifact_id'') ''case plan assertion_artifact_id'') (\<lambda>assertion.
     rbind (identifier_value (dget args ''input_artifact_id'') ''case plan input_artifact_id'') (\<lambda>input.
     rbind (identifier_value (dget args ''test_id'') ''case plan test_id'') (\<lambda>test_id.
     rbind (identifier_value (dget args ''adapter_id'') ''case plan adapter_id'') (\<lambda>adapter.
     rbind (identifier_value (dget args ''adapter_version'') ''case plan adapter_version'') (\<lambda>version.
     rbind (hash_value (dget args ''assertion_sha256'') ''case plan assertion_sha256'') (\<lambda>assertion_sha.
     rbind (hash_value (dget args ''input_sha256'') ''case plan input_sha256'') (\<lambda>input_sha.
     rbind (hash_value (dget args ''prediction_sha256'') ''case plan prediction_sha256'') (\<lambda>prediction_sha.
     rbind (hash_value (dget args ''authority_digest'') ''case plan authority_digest'') (\<lambda>authority.
     rbind (description (dget args ''hypothesis'') ''case plan hypothesis'' 2048) (\<lambda>hypothesis.
     rbind (description (dget args ''prediction'') ''case plan prediction'' 2048) (\<lambda>prediction.
     rbind (plan_text (dget args ''expected_observation_text'')) (\<lambda>expected.
     rbind (require (is_xml_character expected) ''expected observation contains unsupported text'') (\<lambda>_.
     rbind (require (length (utf8 expected) \<le> 4096) ''expected observation exceeds the byte bound'') (\<lambda>_.
     rbind (require (rt_sha256 rt (utf8 expected) = prediction_sha)
              ''expected observation text and prediction digest differ'') (\<lambda>_.
     rbind (require (assertion \<noteq> input) ''case assertion and input artifact IDs must differ'') (\<lambda>_.
     rbind (require (dget args ''comparator_profile'' = JText ''sha256-equality-v1'')
              ''case plan comparator profile is unsupported'') (\<lambda>_.
     let p = \<lparr>cp_case_id = case_id, cp_workflow_id = workflow_id, cp_claim_id = claim_id, cp_scope = scope,
              cp_proposer = proposer, cp_assertion_artifact = assertion, cp_assertion_sha256 = assertion_sha,
              cp_hypothesis = hypothesis, cp_prediction = prediction, cp_expected_text = expected,
              cp_input_artifact = input, cp_input_sha256 = input_sha, cp_prediction_sha256 = prediction_sha,
              cp_test_id = test_id, cp_adapter_id = adapter, cp_adapter_version = version,
              cp_comparator = U ''sha256-equality-v1'', cp_authority_digest = authority\<rparr> in
     rbind (case_bounded rt (CasePlan_to_dict p) max_case_record_bytes ''case plan'') (\<lambda>_.
     Inr p)))))))))))))))))))))))"

definition CasePlan_from_dict :: "runtime \<Rightarrow> json \<Rightarrow> case_plan result" where
  "CasePlan_from_dict rt value =
     rbind (case_fields value (''kind'' # ''schema_version'' # plan_fields) ''case plan'') (\<lambda>data.
     rbind (case_profile data ''evidence-braid-case-plan'') (\<lambda>_.
     CasePlan_init rt data))"

record case_observation =
  co_plan :: ustr
  co_request :: ustr
  co_observer :: ustr
  co_status :: observation_status
  co_input_sha256 :: ustr
  co_observed_sha256 :: "ustr option"
  co_artifact :: "ustr option"
  co_error :: "ustr option"

definition CaseObservation_to_dict :: "case_observation \<Rightarrow> json" where
  "CaseObservation_to_dict x = JObj
     [(U ''kind'', JText ''evidence-braid-case-observation''), (U ''schema_version'', JText ''1.0''),
      (U ''plan_digest'', JStr (co_plan x)), (U ''request_id'', JStr (co_request x)),
      (U ''observer_id'', JStr (co_observer x)), (U ''status'', JText (observation_value (co_status x))),
      (U ''input_sha256'', JStr (co_input_sha256 x)), (U ''observed_sha256'', JOpt (co_observed_sha256 x)),
      (U ''artifact_id'', JOpt (co_artifact x)), (U ''error_code'', JOpt (co_error x))]"

text \<open>An observation carries a digest and an artifact, a failed one carries only an error code.\<close>

definition observation_payload ::
  "observation_status \<Rightarrow> json \<Rightarrow> json \<Rightarrow> json \<Rightarrow> (ustr option \<times> ustr option \<times> ustr option) result" where
  "observation_payload status observed artifact code =
     (if status = OBSERVED then
        rbind (hash_value observed ''case observation output digest'') (\<lambda>h.
        rbind (identifier_value artifact ''case observation artifact ID'') (\<lambda>a.
        rbind (require (code = JNull) ''observed case cannot also report an error'') (\<lambda>_.
        Inr (Some h, Some a, None))))
      else if observed \<noteq> JNull \<or> artifact \<noteq> JNull \<or> code = JNull then
        Inl (ValidationError ''failed observation needs only a bounded error code'')
      else rbind (identifier_value code ''case observation error code'') (\<lambda>e. Inr (None, None, Some e)))"

definition CaseObservation_init ::
  "runtime \<Rightarrow> json \<Rightarrow> json \<Rightarrow> json \<Rightarrow> observation_status \<Rightarrow> json \<Rightarrow> json \<Rightarrow> json \<Rightarrow> json \<Rightarrow> case_observation result" where
  "CaseObservation_init rt plan_digest request_id observer_id status input_sha256 observed artifact code =
     rbind (hash_value plan_digest ''case observation plan digest'') (\<lambda>p.
     rbind (hash_value input_sha256 ''case observation input digest'') (\<lambda>i.
     rbind (identifier_value request_id ''case observation request ID'') (\<lambda>r.
     rbind (identifier_value observer_id ''case observation actor ID'') (\<lambda>a.
     rbind (observation_payload status observed artifact code) (\<lambda>(h, art, e).
     let x = \<lparr>co_plan = p, co_request = r, co_observer = a, co_status = status, co_input_sha256 = i,
              co_observed_sha256 = h, co_artifact = art, co_error = e\<rparr> in
     rbind (case_bounded rt (CaseObservation_to_dict x) max_case_record_bytes ''case observation'') (\<lambda>_.
     Inr x))))))"

definition CaseObservation_from_dict :: "runtime \<Rightarrow> json \<Rightarrow> case_observation result" where
  "CaseObservation_from_dict rt value =
     rbind (case_fields value [''kind'', ''schema_version'', ''plan_digest'', ''request_id'', ''observer_id'', ''status'',
              ''input_sha256'', ''observed_sha256'', ''artifact_id'', ''error_code''] ''case observation'') (\<lambda>data.
     rbind (case_profile data ''evidence-braid-case-observation'') (\<lambda>_.
     rbind (known_enum (dget data ''status'') observation_value observations_all ''case observation status'') (\<lambda>status.
     CaseObservation_init rt (dget data ''plan_digest'') (dget data ''request_id'') (dget data ''observer_id'') status
       (dget data ''input_sha256'') (dget data ''observed_sha256'') (dget data ''artifact_id'') (dget data ''error_code''))))"

record case_verdict =
  cv_plan :: ustr
  cv_observation :: ustr
  cv_evaluator :: ustr
  cv_outcome :: verdict_outcome

definition CaseVerdict_init :: "json \<Rightarrow> json \<Rightarrow> json \<Rightarrow> verdict_outcome \<Rightarrow> case_verdict result" where
  "CaseVerdict_init plan_digest observation_digest evaluator_id outcome =
     rbind (hash_value plan_digest ''case verdict plan digest'') (\<lambda>p.
     rbind (hash_value observation_digest ''case verdict observation digest'') (\<lambda>x.
     rbind (identifier_value evaluator_id ''case evaluator ID'') (\<lambda>e.
     Inr \<lparr>cv_plan = p, cv_observation = x, cv_evaluator = e, cv_outcome = outcome\<rparr>)))"

definition CaseVerdict_to_dict :: "case_verdict \<Rightarrow> json" where
  "CaseVerdict_to_dict v = JObj
     [(U ''kind'', JText ''evidence-braid-case-verdict''), (U ''schema_version'', JText ''1.0''),
      (U ''plan_digest'', JStr (cv_plan v)), (U ''observation_digest'', JStr (cv_observation v)),
      (U ''evaluator_id'', JStr (cv_evaluator v)), (U ''outcome'', JText (verdict_outcome_value (cv_outcome v)))]"

definition CaseVerdict_from_dict :: "json \<Rightarrow> case_verdict result" where
  "CaseVerdict_from_dict value =
     rbind (case_fields value [''kind'', ''schema_version'', ''plan_digest'', ''observation_digest'', ''evaluator_id'',
              ''outcome''] ''case verdict'') (\<lambda>data.
     rbind (case_profile data ''evidence-braid-case-verdict'') (\<lambda>_.
     rbind (known_enum (dget data ''outcome'') verdict_outcome_value verdict_outcomes_all ''case verdict outcome'') (\<lambda>outcome.
     CaseVerdict_init (dget data ''plan_digest'') (dget data ''observation_digest'') (dget data ''evaluator_id'') outcome)))"

record case_decision =
  dn_verdict :: ustr
  dn_decider :: ustr
  dn_disposition :: disposition
  dn_reason :: ustr

definition CaseDecision_init :: "json \<Rightarrow> json \<Rightarrow> disposition \<Rightarrow> json \<Rightarrow> case_decision result" where
  "CaseDecision_init verdict_digest decider_id disp reason =
     rbind (hash_value verdict_digest ''case decision verdict digest'') (\<lambda>v.
     rbind (identifier_value decider_id ''case decider ID'') (\<lambda>d.
     rbind (description reason ''case decision reason'' 512) (\<lambda>r.
     Inr \<lparr>dn_verdict = v, dn_decider = d, dn_disposition = disp, dn_reason = r\<rparr>)))"

definition CaseDecision_to_dict :: "case_decision \<Rightarrow> json" where
  "CaseDecision_to_dict d = JObj
     [(U ''kind'', JText ''evidence-braid-case-decision''), (U ''schema_version'', JText ''1.0''),
      (U ''verdict_digest'', JStr (dn_verdict d)), (U ''decider_id'', JStr (dn_decider d)),
      (U ''disposition'', JText (disposition_value (dn_disposition d))), (U ''reason'', JStr (dn_reason d))]"

definition CaseDecision_from_dict :: "json \<Rightarrow> case_decision result" where
  "CaseDecision_from_dict value =
     rbind (case_fields value [''kind'', ''schema_version'', ''verdict_digest'', ''decider_id'', ''disposition'', ''reason'']
              ''case decision'') (\<lambda>data.
     rbind (case_profile data ''evidence-braid-case-decision'') (\<lambda>_.
     rbind (known_enum (dget data ''disposition'') disposition_value dispositions_all ''case decision disposition'') (\<lambda>disp.
     CaseDecision_init (dget data ''verdict_digest'') (dget data ''decider_id'') disp (dget data ''reason''))))"

datatype case_record = Plan case_plan | Observation case_observation | Verdict case_verdict | Decision case_decision

fun record_document :: "case_record \<Rightarrow> json" where
  "record_document (Plan p) = CasePlan_to_dict p"
| "record_document (Observation x) = CaseObservation_to_dict x"
| "record_document (Verdict v) = CaseVerdict_to_dict v"
| "record_document (Decision d) = CaseDecision_to_dict d"

text \<open>
  The \<open>digest\<close> properties. \<open>to_bytes\<close> repeats the byte bound of the constructor; a verdict
  and a decision, whose fields are bounded, never reach it.
\<close>

definition record_bytes :: "runtime \<Rightarrow> case_record \<Rightarrow> bytes" where
  "record_bytes rt r = canonical_bytes rt (record_document r)"

definition CasePlan_digest :: "runtime \<Rightarrow> case_plan \<Rightarrow> ustr" where
  "CasePlan_digest rt p = case_hash rt ''P'' (record_bytes rt (Plan p))"

definition CaseObservation_digest :: "runtime \<Rightarrow> case_observation \<Rightarrow> ustr" where
  "CaseObservation_digest rt x = case_hash rt ''O'' (record_bytes rt (Observation x))"

definition CaseVerdict_digest :: "runtime \<Rightarrow> case_verdict \<Rightarrow> ustr" where
  "CaseVerdict_digest rt v = case_hash rt ''V'' (record_bytes rt (Verdict v))"

definition CaseDecision_digest :: "runtime \<Rightarrow> case_decision \<Rightarrow> ustr" where
  "CaseDecision_digest rt d = case_hash rt ''D'' (record_bytes rt (Decision d))"

definition record_from_dict :: "runtime \<Rightarrow> json \<Rightarrow> case_record result" where
  "record_from_dict rt value =
     (case jget value (U ''kind'') of
        Some (JStr kind) \<Rightarrow>
          if kind = U ''evidence-braid-case-plan'' then rbind (CasePlan_from_dict rt value) (\<lambda>p. Inr (Plan p))
          else if kind = U ''evidence-braid-case-observation'' then
            rbind (CaseObservation_from_dict rt value) (\<lambda>x. Inr (Observation x))
          else if kind = U ''evidence-braid-case-verdict'' then rbind (CaseVerdict_from_dict value) (\<lambda>v. Inr (Verdict v))
          else if kind = U ''evidence-braid-case-decision'' then rbind (CaseDecision_from_dict value) (\<lambda>d. Inr (Decision d))
          else Inl (ValidationError ''case record kind is unsupported'')
      | _ \<Rightarrow> Inl (ValidationError ''case record needs a known kind''))"

subsection \<open>Receipts and journals\<close>

definition case_genesis :: "runtime \<Rightarrow> ustr \<Rightarrow> ustr" where
  "case_genesis rt authority_digest = case_hash rt ''G'' (fromhex authority_digest)"

text \<open>\<open>sequence.to_bytes(4, "big")\<close>.\<close>

definition be32 :: "int \<Rightarrow> bytes" where
  "be32 n = map nat [n div 16777216 mod 256, n div 65536 mod 256, n div 256 mod 256, n mod 256]"

definition receipt_digest :: "runtime \<Rightarrow> int \<Rightarrow> ustr \<Rightarrow> case_record \<Rightarrow> ustr" where
  "receipt_digest rt seq previous r = case_hash rt ''R'' (be32 seq @ fromhex previous @ record_bytes rt r)"

record case_receipt =
  cr_sequence :: int
  cr_previous :: ustr
  cr_record :: case_record
  cr_digest :: ustr

definition CaseReceipt_init :: "runtime \<Rightarrow> json \<Rightarrow> json \<Rightarrow> case_record \<Rightarrow> json \<Rightarrow> case_receipt result" where
  "CaseReceipt_init rt seq previous r digest =
     rbind (integer_value seq ''case receipt sequence'' (max_case_records - 1) 0) (\<lambda>n.
     rbind (hash_value previous ''case receipt previous digest'') (\<lambda>p.
     rbind (hash_value digest ''case receipt digest'') (\<lambda>d.
     rbind (require (d = receipt_digest rt n p r) ''case receipt content digest is invalid'') (\<lambda>_.
     Inr \<lparr>cr_sequence = n, cr_previous = p, cr_record = r, cr_digest = d\<rparr>))))"

definition CaseReceipt_to_dict :: "case_receipt \<Rightarrow> json" where
  "CaseReceipt_to_dict r = JObj
     [(U ''sequence'', JInt (cr_sequence r)), (U ''previous_digest'', JStr (cr_previous r)),
      (U ''record'', record_document (cr_record r)), (U ''digest'', JStr (cr_digest r))]"

definition CaseReceipt_from_dict :: "runtime \<Rightarrow> json \<Rightarrow> case_receipt result" where
  "CaseReceipt_from_dict rt value =
     rbind (case_fields value [''sequence'', ''previous_digest'', ''record'', ''digest''] ''case receipt'') (\<lambda>data.
     rbind (record_from_dict rt (dget data ''record'')) (\<lambda>r.
     CaseReceipt_init rt (dget data ''sequence'') (dget data ''previous_digest'') r (dget data ''digest'')))"

record case_checkpoint =
  ck_count :: int
  ck_head :: ustr

definition CaseCheckpoint_init :: "json \<Rightarrow> json \<Rightarrow> case_checkpoint result" where
  "CaseCheckpoint_init cnt head =
     rbind (integer_value cnt ''case checkpoint record count'' max_case_records 0) (\<lambda>n.
     rbind (hash_value head ''case checkpoint head'') (\<lambda>h.
     Inr \<lparr>ck_count = n, ck_head = h\<rparr>))"

record case_journal =
  cj_authority :: ustr
  cj_receipts :: "case_receipt list"

definition CaseJournal_to_dict :: "case_journal \<Rightarrow> json" where
  "CaseJournal_to_dict j = JObj
     [(U ''kind'', JText ''evidence-braid-case-journal''), (U ''schema_version'', JText ''1.0''),
      (U ''authority_digest'', JStr (cj_authority j)), (U ''receipts'', JArr (map CaseReceipt_to_dict (cj_receipts j)))]"

fun receipts_contiguous :: "int \<Rightarrow> ustr \<Rightarrow> case_receipt list \<Rightarrow> bool" where
  "receipts_contiguous seq previous [] = True"
| "receipts_contiguous seq previous (r # rs) =
     (if cr_sequence r \<noteq> seq \<or> cr_previous r \<noteq> previous then False else receipts_contiguous (seq + 1) (cr_digest r) rs)"

definition CaseJournal_init :: "runtime \<Rightarrow> json \<Rightarrow> case_receipt list \<Rightarrow> case_journal result" where
  "CaseJournal_init rt authority receipts =
     rbind (hash_value authority ''case journal authority'') (\<lambda>a.
     rbind (require (int (length receipts) \<le> max_case_records) ''case journal needs bounded immutable receipts'') (\<lambda>_.
     rbind (require (receipts_contiguous 0 (case_genesis rt a) receipts) ''case receipt chain is not contiguous'') (\<lambda>_.
     let j = \<lparr>cj_authority = a, cj_receipts = receipts\<rparr> in
     rbind (case_bounded rt (CaseJournal_to_dict j) max_case_wire_bytes ''case journal'') (\<lambda>_.
     Inr j))))"

definition CaseJournal_empty :: "runtime \<Rightarrow> case_authority \<Rightarrow> case_journal result" where
  "CaseJournal_empty rt authority = CaseJournal_init rt (JStr (CaseAuthority_digest rt authority)) []"

definition CaseJournal_head :: "runtime \<Rightarrow> case_journal \<Rightarrow> ustr" where
  "CaseJournal_head rt j =
     (if cj_receipts j = [] then case_genesis rt (cj_authority j) else cr_digest (last (cj_receipts j)))"

definition CaseJournal_checkpoint :: "runtime \<Rightarrow> case_journal \<Rightarrow> case_checkpoint result" where
  "CaseJournal_checkpoint rt j =
     CaseCheckpoint_init (JInt (int (length (cj_receipts j)))) (JStr (CaseJournal_head rt j))"

subsection \<open>Replay\<close>

record case_state =
  cs_phase :: case_phase
  cs_case_id :: "ustr option"
  cs_outcome :: "verdict_outcome option"
  cs_decision :: "case_decision option"
  cs_checkpoint :: case_checkpoint

text \<open>The local variables of the loop.\<close>

record case_loop =
  cl_plan :: "case_plan option"
  cl_observation :: "case_observation option"
  cl_verdict :: "case_verdict option"
  cl_decision :: "case_decision option"
  cl_phase :: case_phase

definition loop_start :: case_loop where
  "loop_start = \<lparr>cl_plan = None, cl_observation = None, cl_verdict = None, cl_decision = None, cl_phase = EMPTY\<rparr>"

definition find_actor :: "case_authority \<Rightarrow> ustr \<Rightarrow> case_actor option" where
  "find_actor authority i = map_of (rev (map (\<lambda>a. (ca_id a, a)) (cau_actors authority))) i"

text \<open>An actor that exists, satisfies \<open>ok\<close> and holds the scoped role; \<open>or\<close> short-circuits as the code's does.\<close>

definition actor_may :: "case_authority \<Rightarrow> ustr \<Rightarrow> (case_kind \<Rightarrow> bool) \<Rightarrow> ustr \<Rightarrow> case_role \<Rightarrow> bool result" where
  "actor_may authority i ok scope role =
     (case find_actor authority i of
        None \<Rightarrow> Inr False
      | Some a \<Rightarrow> if \<not> ok (ca_kind a) then Inr False else CaseActor_permits a scope role)"

definition expected_outcome :: "case_plan \<Rightarrow> case_observation \<Rightarrow> verdict_outcome" where
  "expected_outcome p x =
     (if co_status x \<noteq> OBSERVED then INCONCLUSIVE
      else if co_observed_sha256 x = Some (cp_prediction_sha256 p) then SUPPORTED else REFUTED)"

definition plan_step :: "runtime \<Rightarrow> case_authority \<Rightarrow> case_loop \<Rightarrow> case_plan \<Rightarrow> case_loop result" where
  "plan_step rt authority s p =
     rbind (require (cl_phase s = EMPTY \<and> cp_authority_digest p = CaseAuthority_digest rt authority)
              ''case plan must be first and use trusted authority'') (\<lambda>_.
     rbind (actor_may authority (cp_proposer p) (\<lambda>k. True) (cp_scope p) PROPOSE) (\<lambda>ok.
     rbind (require ok ''case proposer lacks exact scoped authority'') (\<lambda>_.
     Inr (s\<lparr>cl_plan := Some p, cl_phase := PLANNED\<rparr>))))"

definition observation_step :: "runtime \<Rightarrow> case_authority \<Rightarrow> case_loop \<Rightarrow> case_observation \<Rightarrow> case_loop result" where
  "observation_step rt authority s x =
     (case (cl_phase s, cl_plan s) of
        (PLANNED, Some p) \<Rightarrow>
          rbind (if co_plan x \<noteq> CasePlan_digest rt p \<or> co_input_sha256 x \<noteq> cp_input_sha256 p
                    \<or> co_observer x = cp_proposer p
                    \<or> co_artifact x \<in> {Some (cp_assertion_artifact p), Some (cp_input_artifact p)}
                 then Inr False
                 else actor_may authority (co_observer x) (\<lambda>k. k = KIND_TOOL) (cp_scope p) OBSERVE) (\<lambda>ok.
          rbind (require ok ''case observation lacks plan binding or independent authority'') (\<lambda>_.
          Inr (s\<lparr>cl_observation := Some x, cl_phase := OBSERVED_PHASE\<rparr>)))
      | _ \<Rightarrow> Inl (ValidationError ''case observation needs one preceding plan''))"

definition verdict_step :: "runtime \<Rightarrow> case_authority \<Rightarrow> case_loop \<Rightarrow> case_verdict \<Rightarrow> case_loop result" where
  "verdict_step rt authority s v =
     (case (cl_phase s, cl_plan s, cl_observation s) of
        (OBSERVED_PHASE, Some p, Some x) \<Rightarrow>
          rbind (if cv_plan v \<noteq> CasePlan_digest rt p \<or> cv_observation v \<noteq> CaseObservation_digest rt x
                    \<or> cv_evaluator v \<in> {cp_proposer p, co_observer x}
                 then Inr False
                 else actor_may authority (cv_evaluator v) (\<lambda>k. k \<noteq> KIND_MODEL) (cp_scope p) EVALUATE) (\<lambda>ok.
          rbind (require ok ''case verdict lacks bindings or independent authority'') (\<lambda>_.
          rbind (require (cv_outcome v = expected_outcome p x)
                   ''case verdict conflicts with the committed observation'') (\<lambda>_.
          Inr (s\<lparr>cl_verdict := Some v, cl_phase := VERDICTED\<rparr>))))
      | _ \<Rightarrow> Inl (ValidationError ''case verdict needs one preceding observation''))"

definition decision_step :: "runtime \<Rightarrow> case_authority \<Rightarrow> case_loop \<Rightarrow> case_decision \<Rightarrow> case_loop result" where
  "decision_step rt authority s d =
     (case (cl_phase s, cl_plan s, cl_verdict s) of
        (VERDICTED, Some p, Some v) \<Rightarrow>
          rbind (if dn_verdict d \<noteq> CaseVerdict_digest rt v
                    \<or> dn_decider d \<in> {cp_proposer p, (case cl_observation s of None \<Rightarrow> [] | Some x \<Rightarrow> co_observer x),
                                       cv_evaluator v}
                 then Inr False
                 else actor_may authority (dn_decider d) (\<lambda>k. k = KIND_HUMAN \<or> k = KIND_POLICY) (cp_scope p) DECIDE) (\<lambda>ok.
          rbind (require ok ''case decision lacks verdict binding or independent authority'') (\<lambda>_.
          rbind (require (dn_disposition d \<noteq> APPROVE_CASE \<or> cv_outcome v = SUPPORTED)
                   ''unsupported case cannot be approved'') (\<lambda>_.
          Inr (s\<lparr>cl_decision := Some d, cl_phase := DECIDED\<rparr>))))
      | _ \<Rightarrow> Inl (ValidationError ''case decision needs one preceding verdict''))"

fun case_step :: "runtime \<Rightarrow> case_authority \<Rightarrow> case_loop \<Rightarrow> case_record \<Rightarrow> case_loop result" where
  "case_step rt authority s (Plan p) = plan_step rt authority s p"
| "case_step rt authority s (Observation x) = observation_step rt authority s x"
| "case_step rt authority s (Verdict v) = verdict_step rt authority s v"
| "case_step rt authority s (Decision d) = decision_step rt authority s d"

definition replay_case :: "runtime \<Rightarrow> case_journal \<Rightarrow> case_authority \<Rightarrow> ustr option \<Rightarrow> case_state result" where
  "replay_case rt j authority expected_head =
     rbind (require (cj_authority j = CaseAuthority_digest rt authority)
              ''case journal authority differs from the trusted policy'') (\<lambda>_.
     rbind (case expected_head of
              None \<Rightarrow> Inr ()
            | Some h \<Rightarrow> rbind (hash_value (JStr h) ''expected case head'') (\<lambda>_.
                require (CaseJournal_head rt j = h) ''case journal differs from the expected head'')) (\<lambda>_.
     rbind (rfold (case_step rt authority) loop_start (map cr_record (cj_receipts j))) (\<lambda>s.
     rbind (CaseJournal_checkpoint rt j) (\<lambda>checkpoint.
     Inr \<lparr>cs_phase = cl_phase s, cs_case_id = map_option cp_case_id (cl_plan s),
          cs_outcome = map_option cv_outcome (cl_verdict s), cs_decision = cl_decision s,
          cs_checkpoint = checkpoint\<rparr>))))"

definition CaseJournal_from_dict :: "runtime \<Rightarrow> json \<Rightarrow> case_authority \<Rightarrow> ustr option \<Rightarrow> case_journal result" where
  "CaseJournal_from_dict rt value authority expected_head =
     rbind (case_fields value [''kind'', ''schema_version'', ''authority_digest'', ''receipts''] ''case journal'') (\<lambda>data.
     rbind (case_profile data ''evidence-braid-case-journal'') (\<lambda>_.
     rbind (case_tuple (dget data ''receipts'') (nat max_case_records) ''receipts'') (\<lambda>xs.
     rbind (rmap (CaseReceipt_from_dict rt) xs) (\<lambda>receipts.
     rbind (CaseJournal_init rt (dget data ''authority_digest'') receipts) (\<lambda>j.
     rbind (replay_case rt j authority expected_head) (\<lambda>_.
     Inr j))))))"

text \<open>The loop of \<open>append\<close>.\<close>

fun append_receipts :: "runtime \<Rightarrow> ustr \<Rightarrow> case_receipt list \<Rightarrow> case_record list \<Rightarrow> case_receipt list result" where
  "append_receipts rt previous supplied [] = Inr supplied"
| "append_receipts rt previous supplied (r # rs) =
     (let seq = int (length supplied) in
      rbind (CaseReceipt_init rt (JInt seq) (JStr previous) r (JStr (receipt_digest rt seq previous r))) (\<lambda>receipt.
      append_receipts rt (cr_digest receipt) (supplied @ [receipt]) rs))"

definition CaseJournal_append ::
  "runtime \<Rightarrow> case_journal \<Rightarrow> case_record list \<Rightarrow> case_authority \<Rightarrow> case_checkpoint option \<Rightarrow> case_journal result" where
  "CaseJournal_append rt j records authority expected =
     rbind (replay_case rt j authority None) (\<lambda>_.
     rbind (require (records \<noteq> [] \<and> int (length (cj_receipts j) + length records) \<le> max_case_records)
              ''case append needs a bounded nonempty immutable record tuple'') (\<lambda>_.
     rbind (case expected of
              None \<Rightarrow> Inr ()
            | Some c \<Rightarrow> rbind (CaseJournal_checkpoint rt j) (\<lambda>now.
                require (c = now) ''case append checkpoint is stale'')) (\<lambda>_.
     rbind (append_receipts rt (CaseJournal_head rt j) (cj_receipts j) records) (\<lambda>supplied.
     rbind (CaseJournal_init rt (JStr (cj_authority j)) supplied) (\<lambda>candidate.
     rbind (replay_case rt candidate authority None) (\<lambda>_.
     Inr candidate))))))"

end
