(* ===== verification/Case_Lemmas.thy ===== *)
theory Case_Lemmas
  imports Case_Core
begin

text \<open>
  What replay guarantees of an epistemic case. The accepted histories are exactly the runs of a
  four-step state machine whose transitions state the bindings and the independence of the actors; an approved
  case has a supporting observation equal to the prediction. Case receipts interpret \<open>hash_chain\<close>.
\<close>

subsection \<open>The state machine\<close>

definition may :: "case_authority \<Rightarrow> ustr \<Rightarrow> (case_kind \<Rightarrow> bool) \<Rightarrow> ustr \<Rightarrow> case_role \<Rightarrow> bool" where
  "may authority i ok scope role \<longleftrightarrow> is_identifier scope \<and> (\<exists>a. find_actor authority i = Some a \<and> ok (ca_kind a)
     \<and> \<lparr>cg_scope = scope, cg_role = role\<rparr> \<in> set (ca_grants a))"

lemma actor_may_True [simp]: "actor_may authority i ok scope role = Inr True \<longleftrightarrow> may authority i ok scope role"
  by (auto simp: actor_may_def may_def CaseActor_permits_def CaseGrant_init_def split: option.splits)

lemma actor_may_ok [simp]: "(\<exists>b. actor_may authority i ok scope role = Inr b \<and> b) \<longleftrightarrow> may authority i ok scope role"
  by (metis (full_types) actor_may_True)

definition plan_sound :: "runtime \<Rightarrow> case_authority \<Rightarrow> case_plan \<Rightarrow> bool" where
  "plan_sound rt authority p \<longleftrightarrow> cp_authority_digest p = CaseAuthority_digest rt authority
     \<and> may authority (cp_proposer p) (\<lambda>k. True) (cp_scope p) PROPOSE"

definition observation_sound :: "runtime \<Rightarrow> case_authority \<Rightarrow> case_plan \<Rightarrow> case_observation \<Rightarrow> bool" where
  "observation_sound rt authority p x \<longleftrightarrow> co_plan x = CasePlan_digest rt p \<and> co_input_sha256 x = cp_input_sha256 p
     \<and> co_observer x \<noteq> cp_proposer p
     \<and> co_artifact x \<noteq> Some (cp_assertion_artifact p) \<and> co_artifact x \<noteq> Some (cp_input_artifact p)
     \<and> may authority (co_observer x) (\<lambda>k. k = KIND_TOOL) (cp_scope p) OBSERVE"

definition verdict_sound :: "runtime \<Rightarrow> case_authority \<Rightarrow> case_plan \<Rightarrow> case_observation \<Rightarrow> case_verdict \<Rightarrow> bool" where
  "verdict_sound rt authority p x v \<longleftrightarrow> cv_plan v = CasePlan_digest rt p \<and> cv_observation v = CaseObservation_digest rt x
     \<and> cv_evaluator v \<noteq> cp_proposer p \<and> cv_evaluator v \<noteq> co_observer x
     \<and> may authority (cv_evaluator v) (\<lambda>k. k \<noteq> KIND_MODEL) (cp_scope p) EVALUATE
     \<and> cv_outcome v = expected_outcome p x"

definition ruling_sound ::
  "runtime \<Rightarrow> case_authority \<Rightarrow> case_plan \<Rightarrow> case_observation \<Rightarrow> case_verdict \<Rightarrow> case_decision \<Rightarrow> bool" where
  "ruling_sound rt authority p x v d \<longleftrightarrow> dn_verdict d = CaseVerdict_digest rt v
     \<and> dn_decider d \<noteq> cp_proposer p \<and> dn_decider d \<noteq> co_observer x \<and> dn_decider d \<noteq> cv_evaluator v
     \<and> may authority (dn_decider d) (\<lambda>k. k = KIND_HUMAN \<or> k = KIND_POLICY) (cp_scope p) DECIDE
     \<and> (dn_disposition d = APPROVE_CASE \<longrightarrow> cv_outcome v = SUPPORTED)"

text \<open>The runs: the records accepted so far and the loop's variables after them.\<close>

inductive case_run :: "runtime \<Rightarrow> case_authority \<Rightarrow> case_record list \<Rightarrow> case_loop \<Rightarrow> bool" for rt authority where
  start: "case_run rt authority [] loop_start"
| planned: "plan_sound rt authority p \<Longrightarrow>
    case_run rt authority [Plan p] \<lparr>cl_plan = Some p, cl_observation = None, cl_verdict = None, cl_decision = None, cl_phase = PLANNED\<rparr>"
| observed: "plan_sound rt authority p \<Longrightarrow> observation_sound rt authority p x \<Longrightarrow>
    case_run rt authority [Plan p, Observation x]
      \<lparr>cl_plan = Some p, cl_observation = Some x, cl_verdict = None, cl_decision = None, cl_phase = OBSERVED_PHASE\<rparr>"
| verdicted: "plan_sound rt authority p \<Longrightarrow> observation_sound rt authority p x \<Longrightarrow> verdict_sound rt authority p x v \<Longrightarrow>
    case_run rt authority [Plan p, Observation x, Verdict v]
      \<lparr>cl_plan = Some p, cl_observation = Some x, cl_verdict = Some v, cl_decision = None, cl_phase = VERDICTED\<rparr>"
| decided: "plan_sound rt authority p \<Longrightarrow> observation_sound rt authority p x \<Longrightarrow> verdict_sound rt authority p x v \<Longrightarrow>
    ruling_sound rt authority p x v d \<Longrightarrow>
    case_run rt authority [Plan p, Observation x, Verdict v, Decision d]
      \<lparr>cl_plan = Some p, cl_observation = Some x, cl_verdict = Some v, cl_decision = Some d, cl_phase = DECIDED\<rparr>"

lemmas case_step_defs = plan_step_def observation_step_def verdict_step_def decision_step_def
lemmas sound_defs = plan_sound_def observation_sound_def verdict_sound_def ruling_sound_def

text \<open>One accepted record extends a run by one step.\<close>

lemma case_run_extend:
  assumes "case_run rt authority rs s" "case_step rt authority s r = Inr t"
  shows "case_run rt authority (rs @ [r]) t"
  using assms
proof (cases rule: case_run.cases)
  case start
  then obtain p where p: "r = Plan p" using assms(2)
    by (cases r) (auto simp: case_step_defs loop_start_def)
  then have "plan_sound rt authority p"
    "t = \<lparr>cl_plan = Some p, cl_observation = None, cl_verdict = None, cl_decision = None, cl_phase = PLANNED\<rparr>"
    using start assms(2) by (auto simp: plan_step_def plan_sound_def loop_start_def)
  then show ?thesis using start p by (auto intro: case_run.planned)
next
  case (planned p)
  then obtain x where x: "r = Observation x" using assms(2) by (cases r) (auto simp: case_step_defs)
  then have "observation_sound rt authority p x"
    "t = \<lparr>cl_plan = Some p, cl_observation = Some x, cl_verdict = None, cl_decision = None, cl_phase = OBSERVED_PHASE\<rparr>"
    using planned assms(2) by (auto simp: observation_step_def observation_sound_def split: if_splits)
  then show ?thesis using planned x by (auto intro: case_run.observed)
next
  case (observed p x)
  then obtain v where v: "r = Verdict v" using assms(2) by (cases r) (auto simp: case_step_defs)
  then have "verdict_sound rt authority p x v"
    "t = \<lparr>cl_plan = Some p, cl_observation = Some x, cl_verdict = Some v, cl_decision = None, cl_phase = VERDICTED\<rparr>"
    using observed assms(2) by (auto simp: verdict_step_def verdict_sound_def split: if_splits)
  then show ?thesis using observed v by (auto intro: case_run.verdicted)
next
  case (verdicted p x v)
  then obtain d where d: "r = Decision d" using assms(2) by (cases r) (auto simp: case_step_defs)
  then have "ruling_sound rt authority p x v d"
    "t = \<lparr>cl_plan = Some p, cl_observation = Some x, cl_verdict = Some v, cl_decision = Some d, cl_phase = DECIDED\<rparr>"
    using verdicted assms(2) by (auto simp: decision_step_def ruling_sound_def split: if_splits)
  then show ?thesis using verdicted d by (auto intro: case_run.decided)
next
  case (decided p x v d)
  then show ?thesis using assms(2) by (cases r) (auto simp: case_step_defs)
qed

text \<open>Each sound record is accepted in its phase.\<close>

lemma sound_steps:
  "plan_sound rt authority p \<Longrightarrow> case_step rt authority loop_start (Plan p)
     = Inr \<lparr>cl_plan = Some p, cl_observation = None, cl_verdict = None, cl_decision = None, cl_phase = PLANNED\<rparr>"
  "observation_sound rt authority p x \<Longrightarrow>
     case_step rt authority \<lparr>cl_plan = Some p, cl_observation = None, cl_verdict = None, cl_decision = None, cl_phase = PLANNED\<rparr>
       (Observation x)
     = Inr \<lparr>cl_plan = Some p, cl_observation = Some x, cl_verdict = None, cl_decision = None, cl_phase = OBSERVED_PHASE\<rparr>"
  "verdict_sound rt authority p x v \<Longrightarrow>
     case_step rt authority
       \<lparr>cl_plan = Some p, cl_observation = Some x, cl_verdict = None, cl_decision = None, cl_phase = OBSERVED_PHASE\<rparr> (Verdict v)
     = Inr \<lparr>cl_plan = Some p, cl_observation = Some x, cl_verdict = Some v, cl_decision = None, cl_phase = VERDICTED\<rparr>"
  "ruling_sound rt authority p x v d \<Longrightarrow>
     case_step rt authority
       \<lparr>cl_plan = Some p, cl_observation = Some x, cl_verdict = Some v, cl_decision = None, cl_phase = VERDICTED\<rparr> (Decision d)
     = Inr \<lparr>cl_plan = Some p, cl_observation = Some x, cl_verdict = Some v, cl_decision = Some d, cl_phase = DECIDED\<rparr>"
  by (auto simp: case_step_defs sound_defs loop_start_def)

text \<open>The loop accepts exactly the runs.\<close>

lemma case_loop_iff: "rfold (case_step rt authority) loop_start rs = Inr s \<longleftrightarrow> case_run rt authority rs s"
proof
  show "rfold (case_step rt authority) loop_start rs = Inr s \<Longrightarrow> case_run rt authority rs s"
  proof (induction rs arbitrary: s rule: rev_induct)
    case (snoc r rs)
    then obtain t where t: "rfold (case_step rt authority) loop_start rs = Inr t" "case_step rt authority t r = Inr s"
      by (auto simp: rfold_append)
    from case_run_extend [OF snoc.IH [OF t(1)] t(2)] show ?case .
  qed (auto intro: case_run.start)
next
  show "case_run rt authority rs s \<Longrightarrow> rfold (case_step rt authority) loop_start rs = Inr s"
    by (induction rule: case_run.induct) (simp_all add: sound_steps del: case_step.simps)
qed

text \<open>What a run that approves consists of.\<close>

inductive_cases case_runE: "case_run rt authority rs s"

lemma approved_run:
  assumes "case_run rt authority rs s" "cl_decision s = Some d" "dn_disposition d = APPROVE_CASE"
  shows "\<exists>p x v. rs = [Plan p, Observation x, Verdict v, Decision d]
    \<and> cv_outcome v = SUPPORTED \<and> co_status x = OBSERVED \<and> co_observed_sha256 x = Some (cp_prediction_sha256 p)
    \<and> distinct [cp_proposer p, co_observer x, cv_evaluator v, dn_decider d]
    \<and> co_plan x = CasePlan_digest rt p \<and> co_input_sha256 x = cp_input_sha256 p
    \<and> cv_plan v = CasePlan_digest rt p \<and> cv_observation v = CaseObservation_digest rt x
    \<and> dn_verdict d = CaseVerdict_digest rt v
    \<and> may authority (cp_proposer p) (\<lambda>k. True) (cp_scope p) PROPOSE
    \<and> may authority (co_observer x) (\<lambda>k. k = KIND_TOOL) (cp_scope p) OBSERVE
    \<and> may authority (cv_evaluator v) (\<lambda>k. k \<noteq> KIND_MODEL) (cp_scope p) EVALUATE
    \<and> may authority (dn_decider d) (\<lambda>k. k = KIND_HUMAN \<or> k = KIND_POLICY) (cp_scope p) DECIDE"
proof -
  from assms(1,2) obtain p x v where rs: "rs = [Plan p, Observation x, Verdict v, Decision d]"
    and sound: "observation_sound rt authority p x" "verdict_sound rt authority p x v" "ruling_sound rt authority p x v d"
      "plan_sound rt authority p"
    by (auto elim: case_runE simp: loop_start_def)
  have "cv_outcome v = SUPPORTED" using sound(3) assms(3) by (simp add: ruling_sound_def)
  moreover have "co_status x = OBSERVED \<and> co_observed_sha256 x = Some (cp_prediction_sha256 p)"
    using sound(2) calculation by (auto simp: verdict_sound_def expected_outcome_def split: if_splits)
  ultimately show ?thesis
    using sound rs by (auto simp: sound_defs)
qed

lemma case_run_length: "case_run rt authority rs s \<Longrightarrow> length rs \<le> 4"
  by (induction rule: case_run.induct) simp_all

inductive_cases case_run_plan_first: "case_run rt authority (r # rs) s"

subsection \<open>Receipts as a hash chain\<close>

lemma case_kind_inj [simp]: "observation_value a = observation_value b \<longleftrightarrow> a = b"
  by (cases a; cases b; simp)

lemma verdict_outcome_inj [simp]: "verdict_outcome_value a = verdict_outcome_value b \<longleftrightarrow> a = b"
  by (cases a; cases b; simp)

lemma disposition_inj [simp]: "disposition_value a = disposition_value b \<longleftrightarrow> a = b"
  by (cases a; cases b; simp)

lemma record_document_finite [simp]: "json_finite (record_document r)"
  by (cases r) (simp_all add: CasePlan_to_dict_def CaseObservation_to_dict_def CaseVerdict_to_dict_def CaseDecision_to_dict_def)

lemma record_kind:
  obtains kvs where "record_document r = JObj kvs" "distinct (map fst kvs)"
    "map_of kvs (U ''kind'') = Some (case r of Plan p \<Rightarrow> JText ''evidence-braid-case-plan''
       | Observation x \<Rightarrow> JText ''evidence-braid-case-observation'' | Verdict v \<Rightarrow> JText ''evidence-braid-case-verdict''
       | Decision d \<Rightarrow> JText ''evidence-braid-case-decision'')"
  by (cases r) (simp_all add: CasePlan_to_dict_def CaseObservation_to_dict_def CaseVerdict_to_dict_def CaseDecision_to_dict_def)

text \<open>The document of a record determines it.\<close>

lemma record_document_inj:
  assumes "canon (record_document r) = canon (record_document s)"
  shows "r = s"
proof -
  obtain kvs kws where k: "record_document r = JObj kvs" "distinct (map fst kvs)"
      "map_of kvs (U ''kind'') = Some (case r of Plan p \<Rightarrow> JText ''evidence-braid-case-plan''
         | Observation x \<Rightarrow> JText ''evidence-braid-case-observation'' | Verdict v \<Rightarrow> JText ''evidence-braid-case-verdict''
         | Decision d \<Rightarrow> JText ''evidence-braid-case-decision'')"
    and w: "record_document s = JObj kws" "distinct (map fst kws)"
      "map_of kws (U ''kind'') = Some (case s of Plan p \<Rightarrow> JText ''evidence-braid-case-plan''
         | Observation x \<Rightarrow> JText ''evidence-braid-case-observation'' | Verdict v \<Rightarrow> JText ''evidence-braid-case-verdict''
         | Decision d \<Rightarrow> JText ''evidence-braid-case-decision'')"
    using record_kind [of r] record_kind [of s] by metis
  have look: "map_option canon (map_of kvs (U ''kind'')) = map_option canon (map_of kws (U ''kind''))"
    by (rule canon_JObj_lookup) (use assms k w in simp_all)
  have plan: "p = q" if "canon (CasePlan_to_dict p) = canon (CasePlan_to_dict q)" for p q
    using that unfolding CasePlan_to_dict_def by (subst (asm) canon_JObj_eq_iff) (simp_all add: case_plan.equality)
  have obs: "x = y" if "canon (CaseObservation_to_dict x) = canon (CaseObservation_to_dict y)" for x y
    using that unfolding CaseObservation_to_dict_def
    by (subst (asm) canon_JObj_eq_iff) (simp_all add: case_observation.equality)
  have ver: "x = y" if "canon (CaseVerdict_to_dict x) = canon (CaseVerdict_to_dict y)" for x y
    using that unfolding CaseVerdict_to_dict_def by (subst (asm) canon_JObj_eq_iff) (simp_all add: case_verdict.equality)
  have dec: "x = y" if "canon (CaseDecision_to_dict x) = canon (CaseDecision_to_dict y)" for x y
    using that unfolding CaseDecision_to_dict_def by (subst (asm) canon_JObj_eq_iff) (simp_all add: case_decision.equality)
  show ?thesis
    using look assms k(3) w(3) plan obs ver dec by (cases r; cases s) auto
qed

text \<open>The prefix of every digest input: the domain and a tag byte.\<close>

definition case_seed :: "runtime \<Rightarrow> ustr \<Rightarrow> bytes" where
  "case_seed rt authority = case_domain @ U ''G'' @ fromhex authority"

definition case_link :: "runtime \<Rightarrow> ustr \<Rightarrow> int \<Rightarrow> ustr \<Rightarrow> case_record \<Rightarrow> bytes" where
  "case_link rt authority n p r = case_domain @ U ''R'' @ be32 n @ fromhex p @ record_bytes rt r"

lemma be32_length [simp]: "length (be32 n) = 4"
  by (simp add: be32_def)

interpretation cases: hash_chain ledger_runtime case_seed case_link "\<lambda>r. True" "(=)"
proof unfold_locales
  show "ledger_runtime r \<Longrightarrow> is_hash (rt_sha256 r b)" for r b
    by (simp add: ledger_runtime_def sha256_hex_def)
  show "p = q \<and> e = f" if "ledger_runtime r" "is_hash p" "is_hash q" "case_link r c n p e = case_link r d m q f"
    for r p q c n e d m f
  proof -
    have "fromhex p @ record_bytes r e = fromhex q @ record_bytes r f"
      using that(4) by (simp add: case_link_def)
    then have "fromhex p = fromhex q" "record_bytes r e = record_bytes r f"
      using that(2,3) by (simp_all add: hash_fromhex_length)
    moreover have "canon (record_document e) = canon (record_document f)"
      by (rule canonical_bytes_inj [of r]) (use that(1) calculation(2) in \<open>simp_all add: ledger_runtime_def record_bytes_def\<close>)
    ultimately show ?thesis using that(2,3) by (simp add: hash_fromhex_inj record_document_inj)
  qed
  show "case_link r c n p e \<noteq> case_seed r d" for r c n p e d
    by (simp add: case_link_def case_seed_def U_def)
qed

subsection \<open>Accepted journals\<close>

definition receipt_ok :: "runtime \<Rightarrow> case_receipt \<Rightarrow> bool" where
  "receipt_ok rt r \<longleftrightarrow> 0 \<le> cr_sequence r \<and> cr_sequence r < max_case_records \<and> is_hash (cr_previous r) \<and> is_hash (cr_digest r)
     \<and> cr_digest r = receipt_digest rt (cr_sequence r) (cr_previous r) (cr_record r)"

definition journal_ok :: "runtime \<Rightarrow> case_journal \<Rightarrow> bool" where
  "journal_ok rt j \<longleftrightarrow> is_hash (cj_authority j) \<and> int (length (cj_receipts j)) \<le> max_case_records
     \<and> receipts_contiguous 0 (case_genesis rt (cj_authority j)) (cj_receipts j)
     \<and> length (canonical_bytes rt (CaseJournal_to_dict j)) \<le> max_case_wire_bytes
     \<and> (\<forall>r \<in> set (cj_receipts j). receipt_ok rt r)"

lemma CaseReceipt_init_Inr:
  "CaseReceipt_init rt n p r d = Inr x \<longleftrightarrow> receipt_ok rt x \<and> n = JInt (cr_sequence x) \<and> p = JStr (cr_previous x)
     \<and> r = cr_record x \<and> d = JStr (cr_digest x)"
  by (auto simp: CaseReceipt_init_def receipt_ok_def)

lemma CaseJournal_init_Inr:
  "CaseJournal_init rt a rs = Inr j \<Longrightarrow> (\<forall>r \<in> set rs. receipt_ok rt r) \<Longrightarrow> journal_ok rt j \<and> cj_receipts j = rs \<and> a = JStr (cj_authority j)"
  by (auto simp: CaseJournal_init_def journal_ok_def Let_def)

lemma CaseJournal_init_id: "journal_ok rt j \<Longrightarrow> CaseJournal_init rt (JStr (cj_authority j)) (cj_receipts j) = Inr j"
  by (cases j) (simp add: CaseJournal_init_def journal_ok_def Let_def case_bounded_def)

lemma receipt_digest_link: "receipt_digest rt n p r = rt_sha256 rt (case_link rt a n p r)"
  by (simp add: receipt_digest_def case_hash_def case_link_def)

lemma contiguous_chain:
  "receipts_contiguous n p rs \<Longrightarrow> \<forall>r \<in> set rs. receipt_ok rt r \<Longrightarrow>
    (if rs = [] then p else cr_digest (last rs)) = cases.head rt a n p (map cr_record rs)"
proof (induction rs arbitrary: n p)
  case (Cons r rs)
  then have "cr_sequence r = n" "cr_previous r = p" "receipts_contiguous (n + 1) (cr_digest r) rs"
    by (simp_all split: if_splits)
  moreover from this Cons.prems(2) have "cr_digest r = rt_sha256 rt (case_link rt a n p (cr_record r))"
    by (simp add: receipt_ok_def receipt_digest_link [of rt n p _ a])
  ultimately show ?case using Cons.IH [of "n + 1" "cr_digest r"] Cons.prems(2) by (cases "rs = []") simp_all
qed simp

lemma contiguous_unique:
  "receipts_contiguous n p rs \<Longrightarrow> receipts_contiguous n p rs' \<Longrightarrow> \<forall>r \<in> set rs \<union> set rs'. receipt_ok rt r
    \<Longrightarrow> map cr_record rs = map cr_record rs' \<Longrightarrow> rs = rs'"
proof (induction rs arbitrary: n p rs')
  case (Cons r rs)
  then obtain r' ss where rs': "rs' = r' # ss" "cr_record r = cr_record r'" "map cr_record rs = map cr_record ss"
    by (cases rs') auto
  have seq: "cr_sequence r = n" "cr_previous r = p" "cr_sequence r' = n" "cr_previous r' = p"
    using Cons.prems(1,2) rs'(1) by (simp_all split: if_splits)
  have "cr_digest r = receipt_digest rt n p (cr_record r)" "cr_digest r' = receipt_digest rt n p (cr_record r')"
    using Cons.prems(3) rs'(1) seq by (simp_all add: receipt_ok_def)
  with seq rs'(2) have "r = r'" by (intro case_receipt.equality) simp_all
  then show ?case using Cons.prems rs' Cons.IH [of "n + 1" "cr_digest r" ss] by (simp split: if_splits)
qed simp

lemma case_start: "cases.start rt a = case_genesis rt a"
  by (simp add: cases.start_def case_genesis_def case_hash_def case_seed_def)

lemma journal_head_chain:
  assumes "journal_ok rt j"
  shows "CaseJournal_head rt j = cases.head rt (cj_authority j) 0 (cases.start rt (cj_authority j)) (map cr_record (cj_receipts j))"
  using assms contiguous_chain [of 0 "case_genesis rt (cj_authority j)" "cj_receipts j" rt "cj_authority j"]
  by (simp add: journal_ok_def CaseJournal_head_def case_start)

definition journal_inputs :: "runtime \<Rightarrow> case_journal \<Rightarrow> bytes set" where
  "journal_inputs rt j = cases.all_inputs rt (cj_authority j) (map cr_record (cj_receipts j))"

lemma journal_tamper_evident:
  assumes rt: "ledger_runtime rt" and ok: "journal_ok rt j" "journal_ok rt k"
    and head: "CaseJournal_head rt j = CaseJournal_head rt k"
    and cf: "collision_free rt (journal_inputs rt j \<union> journal_inputs rt k)"
  shows "j = k"
proof -
  have "list_all2 (=) (map cr_record (cj_receipts j)) (map cr_record (cj_receipts k))
      \<and> case_seed rt (cj_authority j) = case_seed rt (cj_authority k)"
    using head journal_head_chain [OF ok(1)] journal_head_chain [OF ok(2)]
    by (intro cases.head_determines [OF rt cf [unfolded journal_inputs_def]]) simp_all
  then have eq: "map cr_record (cj_receipts j) = map cr_record (cj_receipts k)" "cj_authority j = cj_authority k"
    using ok by (simp_all add: list.rel_eq case_seed_def journal_ok_def hash_fromhex_inj)
  have "cj_receipts j = cj_receipts k"
    using ok eq by (intro contiguous_unique [of 0 "case_genesis rt (cj_authority j)" _ _ rt]) (auto simp: journal_ok_def)
  with eq(2) show ?thesis by (intro case_journal.equality) simp_all
qed

lemma journal_head_hex: "ledger_runtime rt \<Longrightarrow> journal_ok rt j \<Longrightarrow> is_hash (CaseJournal_head rt j)"
  by (simp add: journal_head_chain cases.head_hex cases.start_def cases.hash_hex)

definition journal_checkpoint :: "runtime \<Rightarrow> case_journal \<Rightarrow> case_checkpoint" where
  "journal_checkpoint rt j = \<lparr>ck_count = int (length (cj_receipts j)), ck_head = CaseJournal_head rt j\<rparr>"

lemma CaseJournal_checkpoint_Inr:
  "ledger_runtime rt \<Longrightarrow> journal_ok rt j \<Longrightarrow> CaseJournal_checkpoint rt j = Inr (journal_checkpoint rt j)"
  using journal_head_hex [of rt j]
  by (simp add: CaseJournal_checkpoint_def CaseCheckpoint_init_def journal_checkpoint_def journal_ok_def)

text \<open>Replay accepts exactly the runs of the state machine under the trusted authority.\<close>

lemma replay_case_Inr_iff:
  assumes "ledger_runtime rt" "journal_ok rt j"
  shows "replay_case rt j authority expected = Inr s \<longleftrightarrow>
    cj_authority j = CaseAuthority_digest rt authority \<and> (expected = None \<or> expected = Some (CaseJournal_head rt j))
    \<and> (\<exists>l. case_run rt authority (map cr_record (cj_receipts j)) l
      \<and> s = \<lparr>cs_phase = cl_phase l, cs_case_id = map_option cp_case_id (cl_plan l),
             cs_outcome = map_option cv_outcome (cl_verdict l), cs_decision = cl_decision l,
             cs_checkpoint = journal_checkpoint rt j\<rparr>)"
  using journal_head_hex [OF assms] CaseJournal_checkpoint_Inr [OF assms]
  by (cases expected) (auto simp: replay_case_def case_loop_iff)

lemma find_actor_Some: "find_actor authority i = Some a \<Longrightarrow> a \<in> set (cau_actors authority) \<and> ca_id a = i"
  by (auto simp: find_actor_def dest!: map_of_SomeD)

subsection \<open>Appending\<close>

lemma append_receipts_Inr:
  "append_receipts rt p rs xs = Inr rs' \<Longrightarrow> \<exists>new. rs' = rs @ new \<and> map cr_record new = xs \<and> (\<forall>r \<in> set new. receipt_ok rt r)"
proof (induction xs arbitrary: p rs)
  case (Cons x xs)
  from Cons.prems obtain r where r: "append_receipts rt (cr_digest r) (rs @ [r]) xs = Inr rs'" "cr_record r = x" "receipt_ok rt r"
    by (auto simp: Let_def CaseReceipt_init_Inr)
  from Cons.IH [OF r(1)] obtain new where "rs' = (rs @ [r]) @ new" "map cr_record new = xs" "\<forall>r \<in> set new. receipt_ok rt r"
    by blast
  with r show ?case by (intro exI [of _ "r # new"]) simp
qed simp

text \<open>An append is a compare-and-swap on the checkpoint, and only extends the journal.\<close>

lemma CaseJournal_append_Inr:
  assumes "ledger_runtime rt" "journal_ok rt j" "CaseJournal_append rt j xs authority expected = Inr k"
  shows "journal_ok rt k" "cj_authority k = cj_authority j"
    "expected = None \<or> expected = Some (journal_checkpoint rt j)"
    "\<exists>new. cj_receipts k = cj_receipts j @ new \<and> map cr_record new = xs" "xs \<noteq> []"
    "is_ok (replay_case rt k authority None)"
proof -
  from assms(3) CaseJournal_checkpoint_Inr [OF assms(1,2)] obtain rs where
    rs: "append_receipts rt (CaseJournal_head rt j) (cj_receipts j) xs = Inr rs"
    and k: "CaseJournal_init rt (JStr (cj_authority j)) rs = Inr k"
    and rest: "is_ok (replay_case rt k authority None)" "xs \<noteq> []" "expected = None \<or> expected = Some (journal_checkpoint rt j)"
    by (auto simp: CaseJournal_append_def split: option.splits)
  obtain new where new: "rs = cj_receipts j @ new" "map cr_record new = xs" "\<forall>r \<in> set new. receipt_ok rt r"
    using append_receipts_Inr [OF rs] by blast
  have "\<forall>r \<in> set rs. receipt_ok rt r" using assms(2) new by (auto simp: journal_ok_def)
  note CaseJournal_init_Inr [OF k this]
  then show "journal_ok rt k" "cj_authority k = cj_authority j" "expected = None \<or> expected = Some (journal_checkpoint rt j)"
    "\<exists>new. cj_receipts k = cj_receipts j @ new \<and> map cr_record new = xs" "xs \<noteq> []" "is_ok (replay_case rt k authority None)"
    using new rest by auto
qed

text \<open>Conversely, a run of the state machine within the size limits is accepted, from the current checkpoint.\<close>

definition appended_case_size :: "runtime \<Rightarrow> case_journal \<Rightarrow> case_record list \<Rightarrow> bool" where
  "appended_case_size rt j xs \<longleftrightarrow> (\<forall>new. map cr_record new = xs
      \<and> (\<forall>r \<in> set new. is_hash (cr_previous r) \<and> is_hash (cr_digest r)
           \<and> 0 \<le> cr_sequence r \<and> cr_sequence r < max_case_records)
    \<longrightarrow> length (canonical_bytes rt (CaseJournal_to_dict (j\<lparr>cj_receipts := cj_receipts j @ new\<rparr>))) \<le> max_case_wire_bytes)"

lemma append_receipts_total:
  assumes rt: "ledger_runtime rt"
  shows "is_hash p \<Longrightarrow> int (length rs + length xs) \<le> max_case_records \<Longrightarrow>
    \<exists>new. append_receipts rt p rs xs = Inr (rs @ new) \<and> map cr_record new = xs \<and> (\<forall>r \<in> set new. receipt_ok rt r)
      \<and> receipts_contiguous (int (length rs)) p new"
proof (induction xs arbitrary: p rs)
  case (Cons x xs)
  let ?r = "\<lparr>cr_sequence = int (length rs), cr_previous = p, cr_record = x, cr_digest = receipt_digest rt (int (length rs)) p x\<rparr>"
  have d: "is_hash (cr_digest ?r)" using rt by (simp add: receipt_digest_def case_hash_def ledger_runtime_def sha256_hex_def)
  then have r: "receipt_ok rt ?r" using Cons.prems by (simp add: receipt_ok_def)
  obtain new where new: "append_receipts rt (cr_digest ?r) (rs @ [?r]) xs = Inr ((rs @ [?r]) @ new)" "map cr_record new = xs"
    "\<forall>r \<in> set new. receipt_ok rt r" "receipts_contiguous (int (length (rs @ [?r]))) (cr_digest ?r) new"
    using Cons.IH [of "cr_digest ?r" "rs @ [?r]"] d Cons.prems(2) by auto
  have i: "CaseReceipt_init rt (JInt (int (length rs))) (JStr p) x (JStr (receipt_digest rt (int (length rs)) p x)) = Inr ?r"
    using r by (simp add: CaseReceipt_init_Inr)
  have c: "receipts_contiguous (int (length rs)) p (?r # new)" using new(4) by (simp add: add.commute)
  show ?case
    by (rule exI [of _ "?r # new"]) (use new r i c in \<open>simp add: Let_def\<close>)
qed simp

lemma receipts_contiguous_append:
  "receipts_contiguous n p (xs @ ys) \<longleftrightarrow> receipts_contiguous n p xs
     \<and> receipts_contiguous (n + int (length xs)) (if xs = [] then p else cr_digest (last xs)) ys"
  by (induction xs arbitrary: n p) (auto simp: algebra_simps)

lemma CaseJournal_append_accepts:
  assumes rt: "ledger_runtime rt" and j: "journal_ok rt j" "cj_authority j = CaseAuthority_digest rt authority"
    and run: "case_run rt authority (map cr_record (cj_receipts j)) s" "case_run rt authority (map cr_record (cj_receipts j) @ xs) t"
    and xs: "xs \<noteq> []" and size: "appended_case_size rt j xs"
  shows "\<exists>k. CaseJournal_append rt j xs authority (Some (journal_checkpoint rt j)) = Inr k
    \<and> map cr_record (cj_receipts k) = map cr_record (cj_receipts j) @ xs"
proof -
  have len: "int (length (cj_receipts j) + length xs) \<le> max_case_records"
    using case_run_length [OF run(2)] by (simp add: max_case_records_def)
  have h: "is_hash (CaseJournal_head rt j)" using journal_head_hex rt j(1) .
  obtain s0 where s0: "replay_case rt j authority None = Inr s0"
    using replay_case_Inr_iff [OF rt j(1)] j(2) run(1) by blast
  obtain new where new: "append_receipts rt (CaseJournal_head rt j) (cj_receipts j) xs = Inr (cj_receipts j @ new)"
    "map cr_record new = xs" "\<forall>r \<in> set new. receipt_ok rt r"
    "receipts_contiguous (int (length (cj_receipts j))) (CaseJournal_head rt j) new"
    using append_receipts_total [OF rt h len] by blast
  let ?k = "j\<lparr>cj_receipts := cj_receipts j @ new\<rparr>"
  have nl: "length new = length xs" using new(2) by (metis length_map)
  have ok: "journal_ok rt ?k"
  proof -
    have "receipts_contiguous 0 (case_genesis rt (cj_authority j)) (cj_receipts j @ new)"
      using j(1) new(4) by (simp add: journal_ok_def receipts_contiguous_append CaseJournal_head_def)
    moreover have "length (canonical_bytes rt (CaseJournal_to_dict ?k)) \<le> max_case_wire_bytes"
      using size new(2,3) unfolding appended_case_size_def receipt_ok_def by blast
    ultimately show ?thesis using j(1) len nl new(3) by (auto simp: journal_ok_def)
  qed
  have init: "CaseJournal_init rt (JStr (cj_authority j)) (cj_receipts j @ new) = Inr ?k"
    using CaseJournal_init_id [OF ok] by simp
  have "\<exists>s1. replay_case rt ?k authority None = Inr s1"
    using replay_case_Inr_iff [OF rt ok, of authority None] j(2) run(2) new(2) by auto
  then obtain s1 where "replay_case rt ?k authority None = Inr s1" by blast
  then show ?thesis
    using s0 xs len new init CaseJournal_checkpoint_Inr [OF rt j(1)]
    by (intro exI [of _ ?k]) (simp add: CaseJournal_append_def)
qed

end
