(* ===== verification/Case_Roundtrip.thy ===== *)
theory Case_Roundtrip
  imports Case_Lemmas
begin

text \<open>
  Case records, receipts, journals and authorities read back from the documents they are written as.
\<close>

lemma member_of_case [simp]:
  "member_of case_kind_value case_kinds_all (U (case_kind_value k)) = Some k"
  "member_of case_role_value case_roles_all (U (case_role_value r)) = Some r"
  "member_of observation_value observations_all (U (observation_value s)) = Some s"
  "member_of verdict_outcome_value verdict_outcomes_all (U (verdict_outcome_value v)) = Some v"
  "member_of disposition_value dispositions_all (U (disposition_value d)) = Some d"
  by ((cases k; simp add: member_of_def case_kinds_all_def), (cases r; simp add: member_of_def case_roles_all_def),
      (cases s; simp add: member_of_def observations_all_def), (cases v; simp add: member_of_def verdict_outcomes_all_def),
      (cases d; simp add: member_of_def dispositions_all_def))

lemma plan_text_Inr [simp]: "plan_text v = Inr s \<longleftrightarrow> v = JStr s"
  by (cases v) (simp_all add: plan_text_def)

definition plan_ok :: "runtime \<Rightarrow> case_plan \<Rightarrow> bool" where
  "plan_ok rt p \<longleftrightarrow>
     list_all is_identifier [cp_case_id p, cp_workflow_id p, cp_claim_id p, cp_scope p, cp_proposer p, cp_assertion_artifact p,
       cp_input_artifact p, cp_test_id p, cp_adapter_id p, cp_adapter_version p]
     \<and> list_all is_hash [cp_assertion_sha256 p, cp_input_sha256 p, cp_prediction_sha256 p, cp_authority_digest p]
     \<and> description_ok (cp_hypothesis p) 2048 \<and> description_ok (cp_prediction p) 2048
     \<and> is_xml_character (cp_expected_text p) \<and> length (utf8 (cp_expected_text p)) \<le> 4096
     \<and> rt_sha256 rt (utf8 (cp_expected_text p)) = cp_prediction_sha256 p
     \<and> cp_assertion_artifact p \<noteq> cp_input_artifact p \<and> cp_comparator p = U ''sha256-equality-v1''
     \<and> length (canonical_bytes rt (CasePlan_to_dict p)) \<le> max_case_record_bytes"

lemma CasePlan_init_ok:
  assumes "CasePlan_init rt args = Inr p"
  shows "plan_ok rt p"
  using assms unfolding CasePlan_init_def Let_def
  apply (elim rbindE)
  apply (simp only: identifier_Inr hash_value_Inr description_Inr require_Inr_iff plan_text_Inr case_bounded_Inr sum.inject)
  apply (elim conjE)
  apply hypsubst
  apply (simp only: plan_ok_def case_plan.simps list.pred_inject simp_thms)
  done

lemma CasePlan_roundtrip:
  assumes "plan_ok rt p"
  shows "CasePlan_from_dict rt (CasePlan_to_dict p) = Inr p"
proof -
  have "CasePlan_init rt (case CasePlan_to_dict p of JObj kvs \<Rightarrow> kvs | _ \<Rightarrow> []) = Inr p"
    using assms by (cases p) (simp add: CasePlan_init_def CasePlan_to_dict_def plan_ok_def Let_def case_bounded_def JText_def)
  then show ?thesis
    by (simp add: CasePlan_from_dict_def CasePlan_to_dict_def case_fields_def plan_fields_def case_profile_def)
qed

lemma observation_payload_id:
  "observation_payload s a b c = Inr (x, y, z) \<Longrightarrow> observation_payload s (JOpt x) (JOpt y) (JOpt z) = Inr (x, y, z)"
  by (auto simp: observation_payload_def JOpt_def split: if_splits)

definition observation_ok :: "runtime \<Rightarrow> case_observation \<Rightarrow> bool" where
  "observation_ok rt x \<longleftrightarrow> is_hash (co_plan x) \<and> is_hash (co_input_sha256 x) \<and> is_identifier (co_request x)
     \<and> is_identifier (co_observer x)
     \<and> observation_payload (co_status x) (JOpt (co_observed_sha256 x)) (JOpt (co_artifact x)) (JOpt (co_error x))
         = Inr (co_observed_sha256 x, co_artifact x, co_error x)
     \<and> length (canonical_bytes rt (CaseObservation_to_dict x)) \<le> max_case_record_bytes"

lemma CaseObservation_init_ok: "CaseObservation_init rt a b c s d e f g = Inr x \<Longrightarrow> observation_ok rt x"
  by (auto simp: CaseObservation_init_def Let_def observation_ok_def observation_payload_id)

lemma CaseObservation_roundtrip:
  "observation_ok rt x \<Longrightarrow> CaseObservation_from_dict rt (CaseObservation_to_dict x) = Inr x"
  by (cases x) (simp add: CaseObservation_from_dict_def CaseObservation_init_def CaseObservation_to_dict_def case_fields_def
      case_profile_def known_enum_JText observation_ok_def Let_def case_bounded_def)

definition verdict_ok :: "case_verdict \<Rightarrow> bool" where
  "verdict_ok v \<longleftrightarrow> is_hash (cv_plan v) \<and> is_hash (cv_observation v) \<and> is_identifier (cv_evaluator v)"

definition decision_ok :: "case_decision \<Rightarrow> bool" where
  "decision_ok d \<longleftrightarrow> is_hash (dn_verdict d) \<and> is_identifier (dn_decider d) \<and> description_ok (dn_reason d) 512"

lemma CaseVerdict_init_ok: "CaseVerdict_init a b c d = Inr v \<Longrightarrow> verdict_ok v"
  by (auto simp: CaseVerdict_init_def verdict_ok_def)

lemma CaseDecision_init_ok: "CaseDecision_init a b c e = Inr d \<Longrightarrow> decision_ok d"
  by (auto simp: CaseDecision_init_def decision_ok_def)

lemma CaseVerdict_roundtrip: "verdict_ok v \<Longrightarrow> CaseVerdict_from_dict (CaseVerdict_to_dict v) = Inr v"
  by (cases v) (simp add: CaseVerdict_from_dict_def CaseVerdict_to_dict_def case_fields_def case_profile_def known_enum_JText
      CaseVerdict_init_def verdict_ok_def)

lemma CaseDecision_roundtrip: "decision_ok d \<Longrightarrow> CaseDecision_from_dict (CaseDecision_to_dict d) = Inr d"
  by (cases d) (simp add: CaseDecision_from_dict_def CaseDecision_to_dict_def case_fields_def case_profile_def known_enum_JText
      CaseDecision_init_def decision_ok_def)

fun record_ok :: "runtime \<Rightarrow> case_record \<Rightarrow> bool" where
  "record_ok rt (Plan p) = plan_ok rt p"
| "record_ok rt (Observation x) = observation_ok rt x"
| "record_ok rt (Verdict v) = verdict_ok v"
| "record_ok rt (Decision d) = decision_ok d"

lemma record_roundtrip:
  assumes "record_ok rt r"
  shows "record_from_dict rt (record_document r) = Inr r"
proof (cases r)
  case (Plan p)
  then have "jget (record_document r) (U ''kind'') = Some (JStr (U ''evidence-braid-case-plan''))"
    by (simp add: CasePlan_to_dict_def JText_def)
  then show ?thesis using assms Plan by (simp add: record_from_dict_def CasePlan_roundtrip)
next
  case (Observation x)
  then have "jget (record_document r) (U ''kind'') = Some (JStr (U ''evidence-braid-case-observation''))"
    by (simp add: CaseObservation_to_dict_def JText_def)
  then show ?thesis using assms Observation by (simp add: record_from_dict_def CaseObservation_roundtrip)
next
  case (Verdict v)
  then have "jget (record_document r) (U ''kind'') = Some (JStr (U ''evidence-braid-case-verdict''))"
    by (simp add: CaseVerdict_to_dict_def JText_def)
  then show ?thesis using assms Verdict by (simp add: record_from_dict_def CaseVerdict_roundtrip)
next
  case (Decision d)
  then have "jget (record_document r) (U ''kind'') = Some (JStr (U ''evidence-braid-case-decision''))"
    by (simp add: CaseDecision_to_dict_def JText_def)
  then show ?thesis using assms Decision by (simp add: record_from_dict_def CaseDecision_roundtrip)
qed

lemma CaseReceipt_roundtrip:
  assumes "receipt_ok rt r" "record_ok rt (cr_record r)"
  shows "CaseReceipt_from_dict rt (CaseReceipt_to_dict r) = Inr r"
  using record_roundtrip [OF assms(2)] assms(1)
  by (simp add: CaseReceipt_from_dict_def CaseReceipt_to_dict_def case_fields_def CaseReceipt_init_Inr)

text \<open>A journal that replays reads back unchanged under the same authority.\<close>

lemma CaseJournal_roundtrip:
  assumes "journal_ok rt j" "\<forall>r \<in> set (cj_receipts j). record_ok rt (cr_record r)"
    and "is_ok (replay_case rt j authority None)"
  shows "CaseJournal_from_dict rt (CaseJournal_to_dict j) authority None = Inr j"
proof -
  have "rmap (CaseReceipt_from_dict rt) (map CaseReceipt_to_dict (cj_receipts j)) = Inr (cj_receipts j)"
    using assms(1,2) by (simp add: rmap_Inr_iff list.rel_map list.rel_refl_strong CaseReceipt_roundtrip journal_ok_def)
  moreover have "length (cj_receipts j) \<le> nat max_case_records"
    using assms(1) by (simp add: journal_ok_def max_case_records_def)
  ultimately show ?thesis
    using assms(3) CaseJournal_init_id [OF assms(1)]
    by (simp add: CaseJournal_from_dict_def CaseJournal_to_dict_def case_fields_def case_profile_def is_ok_iff)
qed

definition case_actor_ok :: "case_actor \<Rightarrow> bool" where
  "case_actor_ok a \<longleftrightarrow> is_identifier (ca_id a) \<and> ca_grants a \<noteq> [] \<and> length (ca_grants a) \<le> 64 \<and> distinct (ca_grants a)
     \<and> (\<forall>g \<in> set (ca_grants a). is_identifier (cg_scope g) \<and> cg_role g \<in> allowed_roles (ca_kind a))"

definition case_authority_ok :: "runtime \<Rightarrow> case_authority \<Rightarrow> bool" where
  "case_authority_ok rt a \<longleftrightarrow> is_identifier (cau_policy a) \<and> cau_actors a \<noteq> [] \<and> length (cau_actors a) \<le> 64
     \<and> distinct (map ca_id (cau_actors a)) \<and> (\<forall>x \<in> set (cau_actors a). case_actor_ok x)
     \<and> length (canonical_bytes rt (CaseAuthority_to_dict a)) \<le> max_case_authority_bytes"

lemma CaseGrant_roundtrip: "is_identifier (cg_scope g) \<Longrightarrow> CaseGrant_from_dict (CaseGrant_to_dict g) = Inr g"
  by (simp add: CaseGrant_from_dict_def CaseGrant_to_dict_def case_fields_def known_enum_JText CaseGrant_init_def)

lemma CaseActor_roundtrip:
  assumes "case_actor_ok a"
  shows "CaseActor_from_dict (CaseActor_to_dict a) = Inr a"
proof -
  have "rmap CaseGrant_from_dict (map CaseGrant_to_dict (ca_grants a)) = Inr (ca_grants a)"
    using assms by (simp add: rmap_Inr_iff list.rel_map list.rel_refl_strong CaseGrant_roundtrip case_actor_ok_def)
  moreover have "length (ca_grants a) \<le> 64" "1 \<le> length (ca_grants a)" "distinct (ca_grants a)" "is_identifier (ca_id a)"
    "list_all (\<lambda>g. cg_role g \<in> allowed_roles (ca_kind a)) (ca_grants a)"
    using assms by (simp_all add: case_actor_ok_def Suc_le_eq list_all_iff)
  ultimately show ?thesis
    by (simp add: CaseActor_from_dict_def CaseActor_to_dict_def case_fields_def known_enum_JText CaseActor_init_def)
qed

lemma CaseAuthority_roundtrip:
  assumes "case_authority_ok rt a"
  shows "CaseAuthority_from_dict rt (CaseAuthority_to_dict a) = Inr a"
proof -
  have "rmap CaseActor_from_dict (map CaseActor_to_dict (cau_actors a)) = Inr (cau_actors a)"
    using assms by (simp add: rmap_Inr_iff list.rel_map list.rel_refl_strong CaseActor_roundtrip case_authority_ok_def)
  moreover have "length (cau_actors a) \<le> 64" "1 \<le> length (cau_actors a)" "distinct (map ca_id (cau_actors a))"
    "is_identifier (cau_policy a)" "length (canonical_bytes rt (CaseAuthority_to_dict a)) \<le> max_case_authority_bytes"
    using assms by (simp_all add: case_authority_ok_def Suc_le_eq)
  moreover have "CaseAuthority_init rt (JStr (cau_policy a)) (cau_actors a) = Inr a"
    using calculation(2-6) by (cases a) (simp add: CaseAuthority_init_def Let_def case_bounded_def)
  ultimately show ?thesis
    by (simp add: CaseAuthority_from_dict_def CaseAuthority_to_dict_def [of a] case_fields_def case_profile_def)
qed

end
