(* ===== verification/Query.thy ===== *)
theory Query
  imports Ledger
begin

text \<open>
  Ledger indexes and queries (query.py): the validated query, the index over a verified prefix of a
  ledger, and the selection through postings. The lemmas show that a selection is exactly the filter of
  the indexed events by the query, in ledger order, and that an index over a retained prefix does not depend
  on what was appended after it.
\<close>

subsection \<open>Queries\<close>

definition max_index_bytes :: int where
  "max_index_bytes = 64 * 1024 * 1024"

definition max_page_bytes :: int where
  "max_page_bytes = 16 * 1024 * 1024"

definition count_value :: "json \<Rightarrow> string \<Rightarrow> int \<Rightarrow> int \<Rightarrow> int result" where
  "count_value v name maximum minimum =
     (case v of
        JInt n \<Rightarrow> if minimum \<le> n \<and> n \<le> maximum then Inr n
          else Inl (ValidationError (name @ '' must be an integer in range''))
      | _ \<Rightarrow> Inl (ValidationError (name @ '' must be an integer in range'')))"

lemma count_value_Inr [simp]:
  "count_value v name maximum minimum = Inr n \<longleftrightarrow> v = JInt n \<and> minimum \<le> n \<and> n \<le> maximum"
  by (cases v) (auto simp: count_value_def)

record ledger_query =
  lq_event_ids :: "ustr list"
  lq_claims :: "ustr list"
  lq_sources :: "ustr list"
  lq_modalities :: "modality list"
  lq_signals :: "signal list"
  lq_groups :: "ustr list"
  lq_observed_start :: "int option"
  lq_observed_end :: "int option"
  lq_ingested_start :: "int option"
  lq_ingested_end :: "int option"

text \<open>The checks of one tuple of exact-match values, and the running total of their bytes.\<close>

fun query_texts :: "string \<Rightarrow> int \<Rightarrow> ustr list \<Rightarrow> int result" where
  "query_texts name running [] = Inr running"
| "query_texts name running (v # vs) =
     rbind (require (length v \<le> 4096) (name @ '' values must be bounded text'')) (\<lambda>_.
     rbind (text_value (JStr v) name True) (\<lambda>t.
     rbind (require (t = v) (name @ '' values must already be normalized'')) (\<lambda>_.
     rbind (require (length (utf8 v) \<le> 4096) (name @ '' value exceeds 4096 UTF-8 bytes'')) (\<lambda>_.
     query_texts name (running + int (length (utf8 v))) vs))))"

definition query_tuple :: "string \<Rightarrow> int \<Rightarrow> ustr list \<Rightarrow> (ustr list \<times> int) result" where
  "query_tuple name running vs =
     rbind (require (length vs \<le> 128) (name @ '' must be an immutable tuple of at most 128 values'')) (\<lambda>_.
     rbind (query_texts name running vs) (\<lambda>running'.
     rbind (require (distinct vs) (name @ '' values must be unique'')) (\<lambda>_.
     Inr (sort vs, running'))))"

definition query_enum :: "string \<Rightarrow> ('a \<Rightarrow> string) \<Rightarrow> 'a list \<Rightarrow> 'a list \<Rightarrow> 'a list result" where
  "query_enum name spelling kind vs =
     rbind (require (length vs \<le> length kind \<and> distinct vs)
              (name @ '' must be a tuple of unique typed enum values'')) (\<lambda>_.
     Inr (sort_key (\<lambda>v. U (spelling v)) vs))"

definition query_bound :: "string \<Rightarrow> pydatetime option \<Rightarrow> int option result" where
  "query_bound name v =
     (case v of None \<Rightarrow> Inr None | Some d \<Rightarrow> rbind (normalize_datetime d name) (\<lambda>t. Inr (Some t)))"

definition query_range :: "string \<Rightarrow> pydatetime option \<Rightarrow> pydatetime option \<Rightarrow> (int option \<times> int option) result" where
  "query_range clock start stop =
     rbind (query_bound (clock @ ''_start'') start) (\<lambda>a.
     rbind (query_bound (clock @ ''_end'') stop) (\<lambda>b.
     rbind (require (case (a, b) of (Some x, Some y) \<Rightarrow> x < y | _ \<Rightarrow> True)
              (clock @ '' range must have start before end'')) (\<lambda>_.
     Inr (a, b))))"

definition LedgerQuery_init ::
  "ustr list \<Rightarrow> ustr list \<Rightarrow> ustr list \<Rightarrow> modality list \<Rightarrow> signal list \<Rightarrow> ustr list
     \<Rightarrow> pydatetime option \<Rightarrow> pydatetime option \<Rightarrow> pydatetime option \<Rightarrow> pydatetime option \<Rightarrow> ledger_query result" where
  "LedgerQuery_init event_ids cs sources modalities signals groups o_start o_end i_start i_end =
     rbind (query_tuple ''event_ids'' 0 event_ids) (\<lambda>(event_ids, t1).
     rbind (query_tuple ''claims'' t1 cs) (\<lambda>(cs, t2).
     rbind (query_tuple ''sources'' t2 sources) (\<lambda>(sources, t3).
     rbind (query_tuple ''correlation_groups'' t3 groups) (\<lambda>(groups, t4).
     rbind (require (t4 \<le> 64 * 1024) ''query exact-match text exceeds 64 KiB'') (\<lambda>_.
     rbind (query_enum ''modalities'' modality_value modalities_all modalities) (\<lambda>modalities.
     rbind (query_enum ''signals'' signal_value signals_all signals) (\<lambda>signals.
     rbind (query_range ''observed'' o_start o_end) (\<lambda>(o_start, o_end).
     rbind (query_range ''ingested'' i_start i_end) (\<lambda>(i_start, i_end).
     Inr \<lparr>lq_event_ids = event_ids, lq_claims = cs, lq_sources = sources, lq_modalities = modalities,
          lq_signals = signals, lq_groups = groups, lq_observed_start = o_start, lq_observed_end = o_end,
          lq_ingested_start = i_start, lq_ingested_end = i_end\<rparr>)))))))))"

definition JTime :: "int option \<Rightarrow> json" where
  "JTime t = (case t of None \<Rightarrow> JNull | Some t \<Rightarrow> JStr (format_timestamp t))"

definition LedgerQuery_pairs :: "ledger_query \<Rightarrow> (ustr \<times> json) list" where
  "LedgerQuery_pairs q =
     [(U ''event_ids'', JArr (map JStr (lq_event_ids q))), (U ''claims'', JArr (map JStr (lq_claims q))),
      (U ''sources'', JArr (map JStr (lq_sources q))),
      (U ''modalities'', JArr (map (\<lambda>m. JText (modality_value m)) (lq_modalities q))),
      (U ''signals'', JArr (map (\<lambda>s. JText (signal_value s)) (lq_signals q))),
      (U ''correlation_groups'', JArr (map JStr (lq_groups q))),
      (U ''observed_start'', JTime (lq_observed_start q)), (U ''observed_end'', JTime (lq_observed_end q)),
      (U ''ingested_start'', JTime (lq_ingested_start q)), (U ''ingested_end'', JTime (lq_ingested_end q))]"

definition LedgerQuery_to_dict :: "ledger_query \<Rightarrow> json" where
  "LedgerQuery_to_dict q = JObj (LedgerQuery_pairs q)"

definition LedgerQuery_identity :: "runtime \<Rightarrow> ledger_query \<Rightarrow> ustr" where
  "LedgerQuery_identity rt q = sha_json rt (JObj ((U ''query_version'', JText ''1.0'') # LedgerQuery_pairs q))"

subsection \<open>Indexes\<close>

definition index_fields :: "string list" where
  "index_fields = [''event_id'', ''claim'', ''source'', ''modality'', ''signal'', ''correlation_group'']"

text \<open>\<open>str(getattr(event, name))\<close> where the attribute is not \<open>None\<close>.\<close>

definition event_attr :: "string \<Rightarrow> evidence_event \<Rightarrow> ustr option" where
  "event_attr name e =
     (if name = ''event_id'' then Some (ev_id e)
      else if name = ''claim'' then Some (ev_claim e)
      else if name = ''source'' then Some (ev_source e)
      else if name = ''modality'' then Some (U (modality_value (ev_modality e)))
      else if name = ''signal'' then Some (U (signal_value (ev_signal e)))
      else ev_group e)"

type_synonym posting = "(ustr \<times> int list) list"

definition posting_rows :: "posting \<Rightarrow> ustr \<Rightarrow> int list" where
  "posting_rows p k = (case map_of p k of None \<Rightarrow> [] | Some rows \<Rightarrow> rows)"

text \<open>\<open>setdefault(key, []).append(row)\<close>.\<close>

fun posting_add :: "posting \<Rightarrow> ustr \<Rightarrow> int \<Rightarrow> posting" where
  "posting_add [] k row = [(k, [row])]"
| "posting_add ((k', rows) # p) k row =
     (if k = k' then (k', rows @ [row]) # p else (k', rows) # posting_add p k row)"

definition posting_step :: "evidence_event \<Rightarrow> int \<Rightarrow> string \<times> posting \<Rightarrow> string \<times> posting" where
  "posting_step e seq np =
     (case event_attr (fst np) e of None \<Rightarrow> np | Some v \<Rightarrow> (fst np, posting_add (snd np) v seq))"

record ledger_index =
  li_ledger :: evidence_ledger
  li_events :: "evidence_event list"
  li_sizes :: "int list"
  li_postings :: "(string \<times> posting) list"

text \<open>\<open>_bytes(entry.to_dict())\<close>: an entry's document is frozen, so it always has canonical bytes.\<close>

definition entry_size :: "runtime \<Rightarrow> ledger_entry \<Rightarrow> int" where
  "entry_size rt x = int (length (canonical_bytes rt (LedgerEntry_to_dict x)))"

fun index_sizes :: "runtime \<Rightarrow> int \<Rightarrow> ledger_entry list \<Rightarrow> int list result" where
  "index_sizes rt running [] = Inr []"
| "index_sizes rt running (x # xs) =
     (let running = running + entry_size rt x in
      rbind (require (running \<le> max_index_bytes) ''indexed receipt bytes exceed 64 MiB'') (\<lambda>_.
      rbind (index_sizes rt running xs) (\<lambda>sizes. Inr (entry_size rt x # sizes))))"

text \<open>The loop over the snapshot: the events and the postings, which start empty.\<close>

fun index_entries ::
  "runtime \<Rightarrow> (string \<times> posting) list \<Rightarrow> ledger_entry list \<Rightarrow> (evidence_event list \<times> (string \<times> posting) list) result"
where
  "index_entries rt postings [] = Inr ([], postings)"
| "index_entries rt postings (x # xs) =
     rbind (EvidenceEvent_from_dict rt (le_event x) ''event'') (\<lambda>e.
     rbind (index_entries rt (map (posting_step e (le_sequence x)) postings) xs) (\<lambda>(es, postings').
     Inr (e # es, postings')))"

definition empty_postings :: "(string \<times> posting) list" where
  "empty_postings = map (\<lambda>name. (name, [])) index_fields"

definition LedgerIndex_init :: "runtime \<Rightarrow> evidence_ledger \<Rightarrow> ustr \<Rightarrow> int option \<Rightarrow> ledger_index result" where
  "LedgerIndex_init rt l expected_head prefix_count =
     rbind (hash_value (JStr expected_head) ''expected_head'') (\<lambda>_.
     rbind (require (int (length (lg_entries l)) \<le> max_ledger_entries) ''query index requires a verified ledger'') (\<lambda>_.
     rbind (index_sizes rt 0 (lg_entries l)) (\<lambda>sizes.
     rbind (require (ledger_verify rt l None) ''query index requires a verified ledger'') (\<lambda>_.
     rbind (case prefix_count of
              None \<Rightarrow> Inr (int (length (lg_entries l)))
            | Some n \<Rightarrow> count_value (JInt n) ''prefix_count'' (int (length (lg_entries l))) 0) (\<lambda>cnt.
     let snapshot = l\<lparr>lg_entries := take (nat cnt) (lg_entries l)\<rparr> in
     rbind (require (ledger_head snapshot = JStr expected_head) ''query prefix does not match the expected head'') (\<lambda>_.
     rbind (index_entries rt empty_postings (lg_entries snapshot)) (\<lambda>(events, postings).
     Inr \<lparr>li_ledger = snapshot, li_events = events, li_sizes = take (nat cnt) sizes,
          li_postings = postings\<rparr>)))))))"

subsection \<open>Selections\<close>

definition index_posting :: "ledger_index \<Rightarrow> string \<Rightarrow> posting" where
  "index_posting idx name = (case map_of (li_postings idx) name of None \<Rightarrow> [] | Some p \<Rightarrow> p)"

definition query_values :: "ledger_query \<Rightarrow> (string \<times> ustr list) list" where
  "query_values q =
     [(''event_id'', lq_event_ids q), (''claim'', lq_claims q), (''source'', lq_sources q),
      (''modality'', map (\<lambda>m. U (modality_value m)) (lq_modalities q)),
      (''signal'', map (\<lambda>s. U (signal_value s)) (lq_signals q)),
      (''correlation_group'', lq_groups q)]"

fun candidates :: "ledger_index \<Rightarrow> (string \<times> ustr list) list \<Rightarrow> int list option \<Rightarrow> int list option" where
  "candidates idx [] acc = acc"
| "candidates idx ((name, vs) # rest) acc =
     (if vs = [] then candidates idx rest acc
      else let union = concat (map (posting_rows (index_posting idx name)) vs) in
        candidates idx rest (Some (case acc of None \<Rightarrow> union | Some rows \<Rightarrow> filter (\<lambda>r. r \<in> set union) rows)))"

definition in_range :: "int option \<Rightarrow> int option \<Rightarrow> int \<Rightarrow> bool" where
  "in_range start stop t \<longleftrightarrow> (case start of None \<Rightarrow> True | Some a \<Rightarrow> a \<le> t)
     \<and> (case stop of None \<Rightarrow> True | Some b \<Rightarrow> t < b)"

definition in_time :: "ledger_query \<Rightarrow> evidence_event \<Rightarrow> bool" where
  "in_time q e \<longleftrightarrow> in_range (lq_observed_start q) (lq_observed_end q) (ev_observed_at e)
     \<and> in_range (lq_ingested_start q) (lq_ingested_end q) (ev_ingested_at e)"

record ledger_selection =
  ls_index :: ledger_index
  ls_query :: ledger_query
  ls_positions :: "int list"

definition LedgerSelection_init :: "ledger_index \<Rightarrow> ledger_query \<Rightarrow> ledger_selection" where
  "LedgerSelection_init idx q =
     (let rows = (case candidates idx (query_values q) None of
                    None \<Rightarrow> map int [0..<length (lg_entries (li_ledger idx))]
                  | Some rows \<Rightarrow> sorted_set rows)
      in \<lparr>ls_index = idx, ls_query = q,
          ls_positions = filter (\<lambda>p. in_time q (li_events idx ! nat p)) rows\<rparr>)"

subsection \<open>A selection is a filter\<close>

text \<open>The specification: AND across fields, OR within each nonempty tuple, half-open time ranges.\<close>

definition query_matches :: "ledger_query \<Rightarrow> evidence_event \<Rightarrow> bool" where
  "query_matches q e \<longleftrightarrow>
     (lq_event_ids q = [] \<or> ev_id e \<in> set (lq_event_ids q))
     \<and> (lq_claims q = [] \<or> ev_claim e \<in> set (lq_claims q))
     \<and> (lq_sources q = [] \<or> ev_source e \<in> set (lq_sources q))
     \<and> (lq_modalities q = [] \<or> ev_modality e \<in> set (lq_modalities q))
     \<and> (lq_signals q = [] \<or> ev_signal e \<in> set (lq_signals q))
     \<and> (lq_groups q = [] \<or> (\<exists>g \<in> set (lq_groups q). ev_group e = Some g))
     \<and> in_time q e"

lemma posting_rows_add: "posting_rows (posting_add p k r) k' = posting_rows p k' @ (if k = k' then [r] else [])"
  by (induction p k r rule: posting_add.induct) (auto simp: posting_rows_def split: option.splits)

lemma map_of_posting_step:
  "map_of (map (posting_step e n) ps) name = map_option (\<lambda>p. snd (posting_step e n (name, p))) (map_of ps name)"
  by (induction ps) (auto simp: posting_step_def split: option.splits)

text \<open>Each posting lists the sequence numbers of the events with its value, in ledger order.\<close>

lemma index_entries_rows:
  "index_entries rt ps xs = Inr (es, ps') \<Longrightarrow> map_of ps name = Some p
    \<Longrightarrow> \<exists>p'. map_of ps' name = Some p' \<and> length es = length xs
      \<and> posting_rows p' k = posting_rows p k
          @ map (\<lambda>i. le_sequence (xs ! i)) (filter (\<lambda>i. event_attr name (es ! i) = Some k) [0..<length xs])"
proof (induction xs arbitrary: ps es p)
  case (Cons x xs)
  then obtain e fs where e: "es = e # fs" "index_entries rt (map (posting_step e (le_sequence x)) ps) xs = Inr (fs, ps')"
    by auto
  let ?q = "snd (posting_step e (le_sequence x) (name, p))"
  have q: "map_of (map (posting_step e (le_sequence x)) ps) name = Some ?q"
    using Cons.prems(2) by (simp add: map_of_posting_step)
  obtain p' where p': "map_of ps' name = Some p'" "length fs = length xs"
    "posting_rows p' k = posting_rows ?q k
      @ map (\<lambda>i. le_sequence (xs ! i)) (filter (\<lambda>i. event_attr name (fs ! i) = Some k) [0..<length xs])"
    using Cons.IH [OF e(2) q] by blast
  have "filter (\<lambda>i. event_attr name (es ! i) = Some k) [0..<length (x # xs)]
    = (if event_attr name e = Some k then [0] else [])
      @ map Suc (filter (\<lambda>i. event_attr name (fs ! i) = Some k) [0..<length xs])"
    by (simp add: e upt_conv_Cons map_Suc_upt [symmetric] filter_map o_def del: upt_Suc)
  moreover have "posting_rows ?q k = posting_rows p k @ (if event_attr name e = Some k then [le_sequence x] else [])"
    by (simp add: posting_step_def posting_rows_add split: option.splits)
  ultimately show ?case using p' e by (auto simp: o_def)
qed simp

lemma LedgerIndex_init_Inr:
  assumes "LedgerIndex_init rt l h pc = Inr idx"
  obtains n where "n \<le> length (lg_entries l)" "li_ledger idx = l\<lparr>lg_entries := take n (lg_entries l)\<rparr>"
    "ledger_verify rt l None" "pc = None \<Longrightarrow> n = length (lg_entries l)" "pc \<noteq> None \<Longrightarrow> pc = Some (int n)"
    "ledger_head (li_ledger idx) = JStr h" "is_hash h"
    "index_entries rt empty_postings (take n (lg_entries l)) = Inr (li_events idx, li_postings idx)"
    "\<exists>sizes. index_sizes rt 0 (lg_entries l) = Inr sizes \<and> li_sizes idx = take n sizes"
proof -
  from assms obtain sizes cnt where c: "index_sizes rt 0 (lg_entries l) = Inr sizes" "ledger_verify rt l None"
    "(case pc of None \<Rightarrow> Inr (int (length (lg_entries l)))
       | Some n \<Rightarrow> count_value (JInt n) ''prefix_count'' (int (length (lg_entries l))) 0) = Inr cnt"
    "ledger_head (l\<lparr>lg_entries := take (nat cnt) (lg_entries l)\<rparr>) = JStr h" "is_hash h"
    "li_ledger idx = l\<lparr>lg_entries := take (nat cnt) (lg_entries l)\<rparr>" "li_sizes idx = take (nat cnt) sizes"
    "index_entries rt empty_postings (take (nat cnt) (lg_entries l)) = Inr (li_events idx, li_postings idx)"
    by (auto simp: LedgerIndex_init_def Let_def)
  then show ?thesis
    by (intro that [of "nat cnt"]) (auto split: option.splits)
qed

lemma verified_sequence:
  assumes "ledger_runtime rt" "iso_contract rt" "ledger_verify rt l None" "i < length (lg_entries l)"
  shows "le_sequence (lg_entries l ! i) = int i"
proof -
  have "map le_sequence (lg_entries l) = map int [0..<length (lg_entries l)]"
    using ledger_verify_events [OF assms(1-3)] by blast
  then have "map le_sequence (lg_entries l) ! i = map int [0..<length (lg_entries l)] ! i" by simp
  with assms(4) show ?thesis by simp
qed

lemma empty_postings_Some: "name \<in> set index_fields \<Longrightarrow> map_of empty_postings name = Some []"
  by (auto simp: empty_postings_def index_fields_def)

text \<open>The rows of a value in a built index.\<close>

lemma index_rows:
  assumes rt: "ledger_runtime rt" "iso_contract rt" and idx: "LedgerIndex_init rt l h pc = Inr idx"
    and name: "name \<in> set index_fields"
  shows "posting_rows (index_posting idx name) k
      = map int (filter (\<lambda>i. event_attr name (li_events idx ! i) = Some k) [0..<length (li_events idx)])"
    and "length (li_events idx) = length (lg_entries (li_ledger idx))"
proof -
  obtain n where n: "n \<le> length (lg_entries l)" "li_ledger idx = l\<lparr>lg_entries := take n (lg_entries l)\<rparr>"
    "ledger_verify rt l None"
    "index_entries rt empty_postings (take n (lg_entries l)) = Inr (li_events idx, li_postings idx)"
    using LedgerIndex_init_Inr [OF idx] by metis
  let ?xs = "take n (lg_entries l)"
  obtain p' where p': "map_of (li_postings idx) name = Some p'" "length (li_events idx) = length ?xs"
    "posting_rows p' k = posting_rows [] k
       @ map (\<lambda>i. le_sequence (?xs ! i)) (filter (\<lambda>i. event_attr name (li_events idx ! i) = Some k) [0..<length ?xs])"
    using index_entries_rows [OF n(4) empty_postings_Some [OF name]] by blast
  have "le_sequence (?xs ! i) = int i" if "i < length ?xs" for i
    using verified_sequence [OF rt n(3), of i] that n(1) by simp
  then show "posting_rows (index_posting idx name) k
      = map int (filter (\<lambda>i. event_attr name (li_events idx ! i) = Some k) [0..<length (li_events idx)])"
    using p' by (simp add: index_posting_def posting_rows_def)
  show "length (li_events idx) = length (lg_entries (li_ledger idx))" using p'(2) n(2) by simp
qed

definition rows_of :: "int list option \<Rightarrow> nat \<Rightarrow> int set" where
  "rows_of acc n = (case acc of None \<Rightarrow> int ` {..<n} | Some rows \<Rightarrow> set rows)"

lemma candidates_rows:
  assumes "\<forall>(name, vs) \<in> set qs. \<forall>v. set (posting_rows (index_posting idx name) v) = int ` {i. i < n \<and> P name i v}"
    and "rows_of acc n \<subseteq> int ` {..<n}"
  shows "rows_of (candidates idx qs acc) n
    = {r \<in> rows_of acc n. \<forall>(name, vs) \<in> set qs. vs = [] \<or> (\<exists>v \<in> set vs. P name (nat r) v)}"
  using assms
proof (induction idx qs acc rule: candidates.induct)
  case (2 idx name vs rest acc)
  show ?case
  proof (cases "vs = []")
    case True
    then show ?thesis using 2 by simp
  next
    case False
    let ?union = "concat (map (posting_rows (index_posting idx name)) vs)"
    let ?acc = "Some (case acc of None \<Rightarrow> ?union | Some rows \<Rightarrow> filter (\<lambda>r. r \<in> set ?union) rows)"
    have union: "set ?union = int ` {i. i < n \<and> (\<exists>v \<in> set vs. P name i v)}"
      using 2(3) by auto
    then have "r \<in> set ?union \<longleftrightarrow> (\<exists>i < n. r = int i \<and> (\<exists>v \<in> set vs. P name i v))" for r by auto
    then have rows: "rows_of ?acc n = {r \<in> rows_of acc n. \<exists>v \<in> set vs. P name (nat r) v}"
      using 2(4) by (cases acc) (fastforce simp: rows_of_def simp del: set_concat)+
    then have "rows_of ?acc n \<subseteq> int ` {..<n}" using 2(4) by blast
    from 2(2) [OF False refl _ this] 2(3) have
      "rows_of (candidates idx rest ?acc) n
        = {r \<in> rows_of ?acc n. \<forall>(name, vs) \<in> set rest. vs = [] \<or> (\<exists>v \<in> set vs. P name (nat r) v)}"
      by simp
    then show ?thesis using False rows by (auto simp: Let_def)
  qed
qed simp

lemma query_matches_values:
  "query_matches q e \<longleftrightarrow>
     (\<forall>(name, vs) \<in> set (query_values q). vs = [] \<or> (\<exists>v \<in> set vs. event_attr name e = Some v)) \<and> in_time q e"
  by (auto simp: query_matches_def query_values_def event_attr_def)

lemma selection_spec:
  assumes rt: "ledger_runtime rt" "iso_contract rt" and idx: "LedgerIndex_init rt l h pc = Inr idx"
  shows "ls_positions (LedgerSelection_init idx q)
    = map int (filter (\<lambda>i. query_matches q (li_events idx ! i)) [0..<length (li_events idx)])"
proof -
  let ?n = "length (li_events idx)"
  let ?P = "\<lambda>name i v. event_attr name (li_events idx ! i) = Some v"
  let ?c = "candidates idx (query_values q) None"
  let ?rows = "case ?c of None \<Rightarrow> map int [0..<?n] | Some rows \<Rightarrow> sorted_set rows"
  let ?Q = "\<lambda>r. \<forall>(name, vs) \<in> set (query_values q). vs = [] \<or> (\<exists>v \<in> set vs. ?P name (nat r) v)"
  have fields: "set (map fst (query_values q)) \<subseteq> set index_fields"
    by (simp add: query_values_def index_fields_def)
  have "rows_of ?c ?n = {r \<in> rows_of None ?n. ?Q r}"
  proof (rule candidates_rows)
    show "\<forall>(name, vs) \<in> set (query_values q). \<forall>v. set (posting_rows (index_posting idx name) v)
        = int ` {i. i < ?n \<and> ?P name i v}"
      using index_rows(1) [OF rt idx] fields by fastforce
  qed (simp add: rows_of_def)
  moreover have "rows_of ?c ?n = set ?rows" by (auto simp: rows_of_def split: option.splits)
  ultimately have "set ?rows = {r \<in> int ` {..<?n}. ?Q r}" by (simp add: rows_of_def)
  moreover have "sorted ?rows" "distinct ?rows"
    by (auto split: option.splits simp: distinct_map inj_on_def sorted_map)
  moreover have "sorted (map int (filter (\<lambda>i. ?Q (int i)) [0..<?n]))" "distinct (map int (filter (\<lambda>i. ?Q (int i)) [0..<?n]))"
    by (auto simp: sorted_map distinct_map inj_on_def sorted_wrt_filter)
  moreover have "set (map int (filter (\<lambda>i. ?Q (int i)) [0..<?n])) = {r \<in> int ` {..<?n}. ?Q r}" by auto
  ultimately have rows: "?rows = map int (filter (\<lambda>i. ?Q (int i)) [0..<?n])"
    by (intro sorted_distinct_set_unique) simp_all
  have "ls_positions (LedgerSelection_init idx q) = filter (\<lambda>p. in_time q (li_events idx ! nat p)) ?rows"
    using index_rows(2) [OF rt idx, of "''event_id''"] by (simp add: LedgerSelection_init_def Let_def index_fields_def split: option.splits)
  also have "\<dots> = map int (filter (\<lambda>i. query_matches q (li_events idx ! i)) [0..<?n])"
    unfolding rows by (simp add: filter_map o_def query_matches_values conj_commute)
  finally show ?thesis .
qed

subsection \<open>An index over a retained prefix\<close>

lemma index_sizes_append:
  "index_sizes rt t (xs @ ys) = Inr sizes \<Longrightarrow> index_sizes rt t xs = Inr (take (length xs) sizes)"
proof (induction xs arbitrary: t sizes)
  case (Cons x xs)
  then obtain more where "index_sizes rt (t + entry_size rt x) (xs @ ys) = Inr more" "sizes = entry_size rt x # more"
    "t + entry_size rt x \<le> max_index_bytes"
    by (auto simp: Let_def)
  then show ?case using Cons.IH [of "t + entry_size rt x" more] by (simp add: Let_def)
qed simp

lemma verify_entries_append:
  "verify_entries rt v n p ids (xs @ ys) = Some h \<Longrightarrow> \<exists>k. verify_entries rt v n p ids xs = Some k"
proof (induction xs arbitrary: n p ids)
  case (Cons x xs)
  then obtain y e where y: "LedgerEntry_from_dict rt (LedgerEntry_to_dict x) = Inr y"
    and e: "EvidenceEvent_from_dict rt (le_event y) ''event'' = Inr e"
    by (auto split: sum.splits)
  with Cons show ?case by (simp split: if_splits)
qed simp

lemma ledger_verify_take:
  assumes "ledger_verify rt l None"
  shows "ledger_verify rt (l\<lparr>lg_entries := take n (lg_entries l)\<rparr>) None"
proof -
  from assms obtain g h where g: "map_of (ledger_versions rt) (lg_version l) = Some g" "lg_genesis l = JStr g"
    "int (length (lg_entries l)) \<le> max_ledger_entries" "verify_entries rt (lg_version l) 0 g {} (lg_entries l) = Some h"
    by (auto simp: ledger_verify_def split: option.splits if_splits)
  moreover obtain k where "verify_entries rt (lg_version l) 0 g {} (take n (lg_entries l)) = Some k"
    using verify_entries_append [of rt "lg_version l" 0 g "{}" "take n (lg_entries l)" "drop n (lg_entries l)"] g(4)
    by auto
  ultimately show ?thesis by (simp add: ledger_verify_def)
qed

lemma LedgerIndex_prefix:
  assumes "LedgerIndex_init rt m h (Some (int (length (lg_entries l)))) = Inr idx"
    and "lg_entries m = lg_entries l @ xs" "lg_genesis m = lg_genesis l" "lg_version m = lg_version l"
  shows "LedgerIndex_init rt l h None = Inr idx"
proof -
  let ?n = "length (lg_entries l)"
  obtain n where n: "li_ledger idx = m\<lparr>lg_entries := take n (lg_entries m)\<rparr>" "ledger_verify rt m None"
    "ledger_head (li_ledger idx) = JStr h" "is_hash h"
    "index_entries rt empty_postings (take n (lg_entries m)) = Inr (li_events idx, li_postings idx)"
    "\<exists>sizes. index_sizes rt 0 (lg_entries m) = Inr sizes \<and> li_sizes idx = take n sizes"
    "Some (int ?n) \<noteq> None \<Longrightarrow> Some (int ?n) = Some (int n)"
    by (rule LedgerIndex_init_Inr [OF assms(1)]) blast
  then obtain sizes where sizes: "index_sizes rt 0 (lg_entries m) = Inr sizes" "li_sizes idx = take n sizes" by blast
  have nn: "n = ?n" using n(7) by simp
  have l: "m\<lparr>lg_entries := take ?n (lg_entries m)\<rparr> = l" using assms(2-4) by simp
  then have "ledger_verify rt l None" using ledger_verify_take [OF n(2), of ?n] by simp
  moreover have "index_sizes rt 0 (lg_entries l) = Inr (take ?n sizes)"
    using sizes(1) assms(2) index_sizes_append by metis
  moreover have "int ?n \<le> max_ledger_entries"
    using n(2) assms(2) by (auto simp: ledger_verify_def split: option.splits if_splits)
  moreover have "length (take ?n sizes) \<le> ?n" by simp
  ultimately show ?thesis
    using n(1-5) nn l sizes(2) assms(2) by (simp add: LedgerIndex_init_def Let_def)
qed

text \<open>The events of an index are those of its receipts.\<close>

lemma index_entries_events:
  "index_entries rt ps xs = Inr (es, ps')
    \<Longrightarrow> list_all2 (\<lambda>x e. EvidenceEvent_from_dict rt (le_event x) ''event'' = Inr e) xs es"
  by (induction xs arbitrary: ps es ps') (auto elim!: rbindE split: prod.splits)

lemma LedgerIndex_events:
  assumes "LedgerIndex_init rt l h pc = Inr idx"
  shows "list_all2 (\<lambda>x e. EvidenceEvent_from_dict rt (le_event x) ''event'' = Inr e) (lg_entries (li_ledger idx)) (li_events idx)"
proof -
  obtain n where "li_ledger idx = l\<lparr>lg_entries := take n (lg_entries l)\<rparr>"
    "index_entries rt empty_postings (take n (lg_entries l)) = Inr (li_events idx, li_postings idx)"
    by (rule LedgerIndex_init_Inr [OF assms])
  then show ?thesis using index_entries_events by force
qed

end
