(* ===== verification/Merkle.thy ===== *)
theory Merkle
  imports Hash_Chain
begin

text \<open>
  The binary hash tree under membership proofs (membership.py) and consistency proofs (consistency.py):
  the split at the largest power of two, the route of a leaf, the cached tree, sibling paths, prefix
  roots and the recovery of two roots from a consistency path. The functions are those of the two files with
  the hash of an inner node as a parameter; the locale \<open>merkle\<close> asks of that hash only that a
  node's bytes determine its children, and proves completeness and soundness of both kinds of proof.
\<close>

subsection \<open>Splitting\<close>

text \<open>\<open>1 << ((count - 1).bit_length() - 1)\<close>.\<close>

definition split_at :: "int \<Rightarrow> int" where
  "split_at n = 2 ^ (bit_length (n - 1) - 1)"

lemma split_at_bounds:
  assumes "2 \<le> n"
  shows "1 \<le> split_at n" "split_at n < n" "n \<le> 2 * split_at n"
proof -
  have l: "2 ^ (bit_length (n - 1) - 1) \<le> n - 1" using assms by (intro bit_length_lower) simp
  then show "split_at n < n" by (simp add: split_at_def)
  have "0 < bit_length (n - 1)" using assms by simp
  then obtain k where k: "bit_length (n - 1) = Suc k" by (metis gr0_implies_Suc)
  have "n - 1 < 2 ^ bit_length (n - 1)" by (rule bit_length_upper)
  with k show "n \<le> 2 * split_at n" by (simp add: split_at_def)
  show "1 \<le> split_at n" by (simp add: split_at_def)
qed

lemma power2_between:
  fixes n :: int
  assumes "2 ^ j < n" "n \<le> 2 * 2 ^ j" "2 ^ k < n" "n \<le> 2 * 2 ^ k"
  shows "j = k"
proof -
  have "(2::int) ^ j < 2 ^ Suc k" "(2::int) ^ k < 2 ^ Suc j" using assms by simp_all
  then have "j < Suc k" "k < Suc j" by (simp_all only: power_strict_increasing_iff one_less_numeral_iff semiring_norm)
  then show ?thesis by simp
qed

text \<open>Every count between the split and the whole splits at the same place.\<close>

lemma split_at_same:
  assumes "2 \<le> n" "split_at n < m" "m \<le> n"
  shows "split_at m = split_at n"
proof -
  have m: "2 \<le> m" using split_at_bounds(1) [OF assms(1)] assms(2) by linarith
  have "bit_length (m - 1) - 1 = bit_length (n - 1) - 1"
    using assms split_at_bounds [OF assms(1)] split_at_bounds [OF m]
    by (intro power2_between [of _ m]) (simp_all add: split_at_def)
  then show ?thesis by (simp add: split_at_def)
qed

subsection \<open>Routes\<close>

function route_loop :: "int \<Rightarrow> int \<Rightarrow> bool list" where
  "route_loop position cnt =
     (if cnt > 1
      then let split = split_at cnt; right = position \<ge> split in
           right # (if right then route_loop (position - split) (cnt - split) else route_loop position split)
      else [])"
  by pat_completeness auto
termination
proof (relation "measure (\<lambda>(p, n). nat n)", goal_cases)
  case (2 position cnt x xa)
  then show ?case using split_at_bounds [of cnt] by simp
next
  case (3 position cnt x xa)
  then show ?case using split_at_bounds [of cnt] by simp
qed simp

declare route_loop.simps [simp del]

definition route :: "int \<Rightarrow> int \<Rightarrow> bool list result" where
  "route position cnt =
     (if 0 \<le> position \<and> position \<le> cnt - 1 then Inr (rev (route_loop position cnt))
      else Inl (ValidationError ''sequence must be an integer in range''))"

lemma bit_length_le: "n \<le> 2 ^ k - 1 \<Longrightarrow> bit_length n \<le> k"
proof (rule ccontr)
  assume n: "n \<le> 2 ^ k - 1" and "\<not> bit_length n \<le> k"
  then have k: "k \<le> bit_length n - 1" and "0 < bit_length n" by linarith+
  then have "0 < n" by simp
  then have "2 ^ (bit_length n - 1) \<le> n" by (rule bit_length_lower)
  moreover have "(2::int) ^ k \<le> 2 ^ (bit_length n - 1)" using k by (intro power_increasing) simp_all
  ultimately show False using n by linarith
qed

text \<open>A route is no longer than the binary length of the last position.\<close>

lemma route_length: "cnt \<le> 2 ^ k \<Longrightarrow> length (route_loop position cnt) \<le> k"
proof (induction k arbitrary: position cnt)
  case 0
  then show ?case by (simp add: route_loop.simps [of position cnt])
next
  case (Suc k)
  show ?case
  proof (cases "cnt > 1")
    case True
    let ?s = "split_at cnt"
    have "bit_length (cnt - 1) \<le> Suc k" using Suc.prems by (intro bit_length_le) simp
    then have s: "?s \<le> 2 ^ k" unfolding split_at_def by (intro power_increasing) simp_all
    have "cnt \<le> 2 * ?s" using True by (intro split_at_bounds) simp
    with s have "cnt - ?s \<le> 2 ^ k" by linarith
    with s show ?thesis using Suc.IH [of "cnt - ?s" "position - ?s"] Suc.IH [of ?s position]
      by (simp add: route_loop.simps [of position cnt] Let_def)
  qed (simp add: route_loop.simps [of position cnt])
qed

subsection \<open>Trees\<close>

text \<open>\<open>_Node\<close>: a leaf has count one and no children, an inner node has both.\<close>

datatype node = Leaf ustr | Inner ustr int node node

fun node_digest :: "node \<Rightarrow> ustr" where
  "node_digest (Leaf d) = d"
| "node_digest (Inner d n l r) = d"

fun node_count :: "node \<Rightarrow> int" where
  "node_count (Leaf d) = 1"
| "node_count (Inner d n l r) = n"

text \<open>The code's functions, over the hash of an inner node; \<open>leaves\<close> are leaf hashes by position.\<close>

function build_tree :: "(ustr \<Rightarrow> ustr \<Rightarrow> ustr) \<Rightarrow> (int \<Rightarrow> ustr) \<Rightarrow> int \<Rightarrow> int \<Rightarrow> node" where
  "build_tree h leaves start cnt =
     (if cnt \<le> 1 then Leaf (leaves start)
      else let split = split_at cnt;
               left = build_tree h leaves start split;
               right = build_tree h leaves (start + split) (cnt - split)
           in Inner (h (node_digest left) (node_digest right)) cnt left right)"
  by pat_completeness auto
termination
proof (relation "measure (\<lambda>(h, leaves, s, n). nat n)", goal_cases)
  case (2 h leaves start cnt x)
  then show ?case using split_at_bounds [of cnt] by simp
next
  case (3 h leaves start cnt x xa)
  then show ?case using split_at_bounds [of cnt] by simp
qed simp

declare build_tree.simps [simp del]

text \<open>The sibling hashes of a position, from the root down.\<close>

fun sibling_path :: "node \<Rightarrow> int \<Rightarrow> ustr list" where
  "sibling_path (Leaf d) offset = []"
| "sibling_path (Inner d n l r) offset =
     (if offset < node_count l then node_digest r # sibling_path l offset
      else node_digest l # sibling_path r (offset - node_count l))"

text \<open>The verifier's loop, from the leaf up: \<open>True\<close> puts the sibling on the left.\<close>

fun climb :: "(ustr \<Rightarrow> ustr \<Rightarrow> ustr) \<Rightarrow> ustr \<Rightarrow> (bool \<times> ustr) list \<Rightarrow> ustr" where
  "climb h digest [] = digest"
| "climb h digest ((left, sibling) # rest) = climb h (if left then h sibling digest else h digest sibling) rest"

text \<open>\<open>_children\<close> of a leaf raises.\<close>

fun children :: "node \<Rightarrow> (node \<times> node) result" where
  "children (Leaf d) = Inl (RuntimeError ''consistency tree has an incomplete internal node'')"
| "children (Inner d n l r) = Inr (l, r)"

fun prefix_root :: "(ustr \<Rightarrow> ustr \<Rightarrow> ustr) \<Rightarrow> node \<Rightarrow> int \<Rightarrow> ustr result" where
  "prefix_root h (Leaf d) cnt = (if cnt = 1 then Inr d else rbind (children (Leaf d)) (\<lambda>_. Inr d))"
| "prefix_root h (Inner d n l r) cnt =
     (if cnt = n then Inr d
      else if cnt \<le> node_count l then prefix_root h l cnt
      else rbind (prefix_root h r (cnt - node_count l)) (\<lambda>right. Inr (h (node_digest l) right)))"

text \<open>The hashes \<open>_subproof\<close> appends to its path.\<close>

fun subproof :: "node \<Rightarrow> int \<Rightarrow> bool \<Rightarrow> ustr list result" where
  "subproof (Leaf d) cnt known =
     (if cnt = 1 then Inr (if known then [] else [d]) else rbind (children (Leaf d)) (\<lambda>_. Inr []))"
| "subproof (Inner d n l r) cnt known =
     (if cnt = n then Inr (if known then [] else [d])
      else if cnt \<le> node_count l then rbind (subproof l cnt known) (\<lambda>path. Inr (path @ [node_digest r]))
      else rbind (subproof r (cnt - node_count l) False) (\<lambda>path. Inr (path @ [node_digest l])))"

function path_size :: "int \<Rightarrow> int \<Rightarrow> bool \<Rightarrow> nat" where
  "path_size old new known =
     (if old = 0 then 0
      else if old = new \<or> new < 2 then (if known then 0 else 1)
      else let split = split_at new in
           1 + (if old \<le> split then path_size old split known
                else path_size (old - split) (new - split) False))"
  by pat_completeness auto
termination
proof (relation "measure (\<lambda>(o1, n, k). nat n)", goal_cases)
  case (2 old new known x)
  then show ?case using split_at_bounds [of new] by simp
next
  case (3 old new known x)
  then show ?case using split_at_bounds [of new] by simp
qed simp

declare path_size.simps [simp del]

text \<open>
  \<open>_recover\<close> threads the iterator of path hashes; reading past its end is \<open>None\<close> (the path
  length has been checked against \<open>path_size\<close> before). In both recursions the callers keep
  \<open>0 < old \<le> new\<close>, so a tree of fewer than two leaves is reached only with equal counts (the code's
  shift by a negative amount would raise there).
\<close>

function recover ::
  "(ustr \<Rightarrow> ustr \<Rightarrow> ustr) \<Rightarrow> int \<Rightarrow> int \<Rightarrow> bool \<Rightarrow> ustr \<Rightarrow> ustr list \<Rightarrow> ((ustr \<times> ustr) \<times> ustr list) option" where
  "recover h old new known old_root hashes =
     (if old = new \<or> new < 2
      then (if known then Some ((old_root, old_root), hashes)
            else case hashes of [] \<Rightarrow> None | x # xs \<Rightarrow> Some ((x, x), xs))
      else let split = split_at new in
        if old \<le> split
        then (case recover h old split known old_root hashes of
                Some ((before, after), x # xs) \<Rightarrow> Some ((before, h after x), xs)
              | _ \<Rightarrow> None)
        else (case recover h (old - split) (new - split) False old_root hashes of
                Some ((before, after), x # xs) \<Rightarrow> Some ((h x before, h x after), xs)
              | _ \<Rightarrow> None))"
  by pat_completeness auto
termination
proof (relation "measure (\<lambda>(h, o1, n, k, r, xs). nat n)", goal_cases)
  case (2 h old new known old_root hashes x)
  then show ?case using split_at_bounds [of new] by simp
next
  case (3 h old new known old_root hashes x)
  then show ?case using split_at_bounds [of new] by simp
qed simp

declare recover.simps [simp del]

subsection \<open>The interface: a hash that determines the children\<close>

lemma climb_append: "climb h d (xs @ ys) = climb h (climb h d xs) ys"
  by (induction h d xs rule: climb.induct) simp_all

lemma node_count_build: "1 \<le> cnt \<Longrightarrow> node_count (build_tree h leaves start cnt) = cnt"
  by (simp add: build_tree.simps [of h leaves start cnt] Let_def)

lemma sibling_path_length:
  "length (sibling_path (build_tree h leaves start cnt) pos) = length (route_loop pos cnt)"
proof (induction h leaves start cnt arbitrary: pos rule: build_tree.induct)
  case (1 h leaves start cnt)
  show ?case
  proof (cases "cnt \<le> 1")
    case True
    then show ?thesis by (simp add: build_tree.simps [of h leaves start cnt] route_loop.simps [of pos cnt])
  next
    case False
    have "1 \<le> split_at cnt" using False split_at_bounds [of cnt] by simp
    then show ?thesis
      using False 1(1) [OF False refl] 1(2) [OF False refl refl]
      by (simp add: build_tree.simps [of h leaves start cnt] route_loop.simps [of pos cnt] Let_def node_count_build)
  qed
qed

locale merkle =
  fixes good :: "runtime \<Rightarrow> bool"
    and pair :: "runtime \<Rightarrow> ustr \<Rightarrow> ustr \<Rightarrow> bytes"
  assumes hash_hex: "good r \<Longrightarrow> is_hash (rt_sha256 r b)"
    and pair_inj: "good r \<Longrightarrow> is_hash a \<Longrightarrow> is_hash b \<Longrightarrow> is_hash c \<Longrightarrow> is_hash d
      \<Longrightarrow> pair r a b = pair r c d \<Longrightarrow> a = c \<and> b = d"
begin

definition nh :: "runtime \<Rightarrow> ustr \<Rightarrow> ustr \<Rightarrow> ustr" where
  "nh r a b = rt_sha256 r (pair r a b)"

definition root :: "runtime \<Rightarrow> (int \<Rightarrow> ustr) \<Rightarrow> int \<Rightarrow> int \<Rightarrow> ustr" where
  "root r leaves start cnt = node_digest (build_tree (nh r) leaves start cnt)"

lemma root_leaf: "cnt \<le> 1 \<Longrightarrow> root r leaves start cnt = leaves start"
  by (simp add: root_def build_tree.simps [of _ leaves start cnt])

lemma root_inner:
  "1 < cnt \<Longrightarrow> root r leaves start cnt
     = nh r (root r leaves start (split_at cnt)) (root r leaves (start + split_at cnt) (cnt - split_at cnt))"
  by (simp add: root_def build_tree.simps [of "nh r" leaves start cnt] Let_def)

text \<open>The inner-node bytes hashed in a tree, while climbing, and while recovering.\<close>

function tree_inputs :: "runtime \<Rightarrow> (int \<Rightarrow> ustr) \<Rightarrow> int \<Rightarrow> int \<Rightarrow> bytes set" where
  "tree_inputs r leaves start cnt =
     (if cnt \<le> 1 then {}
      else insert (pair r (root r leaves start (split_at cnt)) (root r leaves (start + split_at cnt) (cnt - split_at cnt)))
             (tree_inputs r leaves start (split_at cnt)
              \<union> tree_inputs r leaves (start + split_at cnt) (cnt - split_at cnt)))"
  by pat_completeness auto
termination
proof (relation "measure (\<lambda>(r, leaves, s, n). nat n)", goal_cases)
  case (2 r leaves start cnt)
  then show ?case using split_at_bounds [of cnt] by simp
next
  case (3 r leaves start cnt)
  then show ?case using split_at_bounds [of cnt] by simp
qed simp

declare tree_inputs.simps [simp del]

fun climb_inputs :: "runtime \<Rightarrow> ustr \<Rightarrow> (bool \<times> ustr) list \<Rightarrow> bytes set" where
  "climb_inputs r digest [] = {}"
| "climb_inputs r digest ((left, sibling) # rest) =
     insert (if left then pair r sibling digest else pair r digest sibling)
       (climb_inputs r (if left then nh r sibling digest else nh r digest sibling) rest)"

lemma climb_inputs_append:
  "climb_inputs r d (xs @ ys) = climb_inputs r d xs \<union> climb_inputs r (climb (nh r) d xs) ys"
  by (induction r d xs rule: climb_inputs.induct) auto

lemma nh_hex: "good r \<Longrightarrow> is_hash (nh r a b)"
  by (simp add: nh_def hash_hex)

lemma root_hex: "good r \<Longrightarrow> \<forall>i. is_hash (leaves i) \<Longrightarrow> is_hash (root r leaves start cnt)"
  by (cases "cnt \<le> 1") (simp_all add: root_leaf root_inner nh_hex)

lemma climb_hex: "good r \<Longrightarrow> is_hash d \<Longrightarrow> is_hash (climb (nh r) d xs)"
proof (induction xs arbitrary: d)
  case (Cons x xs)
  then show ?case by (cases x) (simp add: nh_hex)
qed simp

lemma nh_inj:
  assumes "good r" "is_hash a" "is_hash b" "is_hash c" "is_hash d" "nh r a b = nh r c d"
    and "collision_free r S" "pair r a b \<in> S" "pair r c d \<in> S"
  shows "a = c \<and> b = d"
  using assms pair_inj collision_freeD unfolding nh_def by metis

subsubsection \<open>Membership\<close>

definition steps :: "int \<Rightarrow> int \<Rightarrow> ustr list \<Rightarrow> (bool \<times> ustr) list" where
  "steps pos cnt siblings = zip (rev (route_loop pos cnt)) siblings"

text \<open>The path of the tree leads from a leaf to the root.\<close>

lemma climb_complete:
  assumes "0 \<le> pos" "pos < cnt"
  shows "climb (nh r) (leaves (start + pos))
      (steps pos cnt (rev (sibling_path (build_tree (nh r) leaves start cnt) pos))) = root r leaves start cnt"
  using assms
proof (induction "nh r" leaves start cnt arbitrary: pos rule: build_tree.induct)
  case (1 leaves start cnt)
  show ?case
  proof (cases "cnt \<le> 1")
    case True
    then have "pos = 0" using 1(3,4) by linarith
    then show ?thesis using True
      by (simp add: steps_def build_tree.simps [of _ leaves start cnt] route_loop.simps [of pos cnt] root_leaf)
  next
    case False
    let ?s = "split_at cnt"
    have s: "1 \<le> ?s" "?s < cnt" using False split_at_bounds [of cnt] by simp_all
    let ?L = "build_tree (nh r) leaves start ?s" and ?R = "build_tree (nh r) leaves (start + ?s) (cnt - ?s)"
    have tree: "build_tree (nh r) leaves start cnt = Inner (nh r (node_digest ?L) (node_digest ?R)) cnt ?L ?R"
      using False by (simp add: build_tree.simps [of _ leaves start cnt] Let_def)
    have nc: "node_count ?L = ?s" using s by (simp add: node_count_build)
    show ?thesis
    proof (cases "pos < ?s")
      case True
      have "route_loop pos cnt = False # route_loop pos ?s"
        using False True by (simp add: route_loop.simps [of pos cnt] Let_def)
      then show ?thesis
        using 1(1) [OF False refl, of pos] 1(3) True False nc s
        by (simp add: tree steps_def zip_append sibling_path_length climb_append root_inner root_def [symmetric])
    next
      case F: False
      have "route_loop pos cnt = True # route_loop (pos - ?s) (cnt - ?s)"
        using False F by (simp add: route_loop.simps [of pos cnt] Let_def)
      then show ?thesis
        using 1(2) [OF False refl refl, of "pos - ?s"] 1(4) F False nc s
        by (simp add: tree steps_def zip_append sibling_path_length climb_append root_inner root_def [symmetric])
    qed
  qed
qed

text \<open>Without a collision, a path that leads to the root starts at the leaf of its position.\<close>

lemma climb_sound:
  assumes good: "good r"
  shows "0 \<le> pos \<Longrightarrow> pos < cnt \<Longrightarrow> is_hash d \<Longrightarrow> length sibs = length (route_loop pos cnt)
    \<Longrightarrow> (\<forall>s \<in> set sibs. is_hash s)
    \<Longrightarrow> climb (nh r) d (steps pos cnt sibs) = root r leaves start cnt
    \<Longrightarrow> collision_free r (tree_inputs r leaves start cnt \<union> climb_inputs r d (steps pos cnt sibs))
    \<Longrightarrow> (\<forall>i. is_hash (leaves i))
    \<Longrightarrow> d = leaves (start + pos)"
proof (induction "nh r" leaves start cnt arbitrary: pos sibs rule: build_tree.induct)
  case (1 leaves start cnt)
  show ?case
  proof (cases "cnt \<le> 1")
    case True
    then have "pos = 0" using 1(3,4) by linarith
    then show ?thesis using 1(8) True
      by (simp add: steps_def route_loop.simps [of 0 cnt] root_leaf)
  next
    case False
    let ?s = "split_at cnt"
    let ?L = "root r leaves start ?s" and ?R = "root r leaves (start + ?s) (cnt - ?s)"
    have s: "1 \<le> ?s" "?s < cnt" using False split_at_bounds [of cnt] by simp_all
    define right where "right \<longleftrightarrow> ?s \<le> pos"
    define p' where "p' = (if right then pos - ?s else pos)"
    define c' where "c' = (if right then cnt - ?s else ?s)"
    have rl: "route_loop pos cnt = right # route_loop p' c'"
      using False by (auto simp: route_loop.simps [of pos cnt] Let_def right_def p'_def c'_def)
    then obtain ss t where ss: "sibs = ss @ [t]" "length ss = length (route_loop p' c')"
      using 1(6) by (cases sibs rule: rev_cases) auto
    have st: "steps pos cnt sibs = steps p' c' ss @ [(right, t)]"
      using ss by (simp add: steps_def rl zip_append)
    let ?d = "climb (nh r) d (steps p' c' ss)"
    have hex: "is_hash ?d" "is_hash t" "is_hash ?L" "is_hash ?R"
      using good 1(5,7,10) ss by (simp_all add: climb_hex root_hex)
    have inner: "root r leaves start cnt = nh r ?L ?R" using False by (simp add: root_inner)
    have tin: "pair r ?L ?R \<in> tree_inputs r leaves start cnt"
      "tree_inputs r leaves start ?s \<union> tree_inputs r leaves (start + ?s) (cnt - ?s) \<subseteq> tree_inputs r leaves start cnt"
      using False by (auto simp: tree_inputs.simps [of r leaves start cnt])
    have cin: "climb_inputs r d (steps pos cnt sibs)
        = insert (if right then pair r t ?d else pair r ?d t) (climb_inputs r d (steps p' c' ss))"
      by (simp add: st climb_inputs_append)
    show ?thesis
    proof (cases right)
      case True
      then have "nh r t ?d = nh r ?L ?R" using 1(8) st inner by (simp add: climb_append)
      then have "?d = ?R"
        using nh_inj [OF good hex(2,1,3,4) _ 1(9)] tin cin True by auto
      moreover have "collision_free r (tree_inputs r leaves (start + ?s) (cnt - ?s) \<union> climb_inputs r d (steps p' c' ss))"
        using cin tin by (intro collision_free_subset [OF 1(9)]) auto
      ultimately have "d = leaves (start + ?s + p')"
        using 1(2) [OF False refl refl, of p' ss] True s ss 1(4,5,7,10) by (simp add: p'_def c'_def right_def)
      then show ?thesis using True by (simp add: p'_def)
    next
      case F: False
      then have "nh r ?d t = nh r ?L ?R" using 1(8) st inner by (simp add: climb_append)
      then have "?d = ?L"
        using nh_inj [OF good hex(1,2,3,4) _ 1(9)] tin cin F by auto
      moreover have "collision_free r (tree_inputs r leaves start ?s \<union> climb_inputs r d (steps p' c' ss))"
        using cin tin by (intro collision_free_subset [OF 1(9)]) auto
      ultimately have "d = leaves (start + p')"
        using 1(1) [OF False refl, of p' ss] F s ss 1(3,5,7,10) by (simp add: p'_def c'_def right_def)
      then show ?thesis using F by (simp add: p'_def)
    qed
  qed
qed

text \<open>Equal roots over the same number of leaves come from the same leaves.\<close>

lemma root_inj:
  assumes good: "good r" and lv: "\<forall>i. is_hash (lv i)" and lw: "\<forall>i. is_hash (lw i)"
  shows "root r lv s cnt = root r lw t cnt
    \<Longrightarrow> collision_free r (tree_inputs r lv s cnt \<union> tree_inputs r lw t cnt)
    \<Longrightarrow> 0 \<le> i \<Longrightarrow> i < cnt \<Longrightarrow> lv (s + i) = lw (t + i)"
proof (induction "nat cnt" arbitrary: cnt s t i rule: less_induct)
  case less
  show ?case
  proof (cases "cnt \<le> 1")
    case True
    then have "i = 0" using less.prems(3,4) by linarith
    then show ?thesis using less.prems(1) True by (simp add: root_leaf)
  next
    case False
    let ?s = "split_at cnt"
    have b: "1 \<le> ?s" "?s < cnt" using False split_at_bounds [of cnt] by simp_all
    have sub: "tree_inputs r lx u cnt = insert (pair r (root r lx u ?s) (root r lx (u + ?s) (cnt - ?s)))
        (tree_inputs r lx u ?s \<union> tree_inputs r lx (u + ?s) (cnt - ?s))" for lx u
      using False by (simp add: tree_inputs.simps [of r lx u cnt])
    have "nh r (root r lv s ?s) (root r lv (s + ?s) (cnt - ?s))
        = nh r (root r lw t ?s) (root r lw (t + ?s) (cnt - ?s))"
      using less.prems(1) False by (simp add: root_inner)
    from nh_inj [OF good _ _ _ _ this less.prems(2)]
    have eq: "root r lv s ?s = root r lw t ?s \<and> root r lv (s + ?s) (cnt - ?s) = root r lw (t + ?s) (cnt - ?s)"
      by (simp add: root_hex good lv lw sub)
    have cf: "collision_free r (tree_inputs r lv s ?s \<union> tree_inputs r lw t ?s)"
      "collision_free r (tree_inputs r lv (s + ?s) (cnt - ?s) \<union> tree_inputs r lw (t + ?s) (cnt - ?s))"
      by (rule collision_free_subset [OF less.prems(2)]; auto simp: sub)+
    show ?thesis
    proof (cases "i < ?s")
      case True
      then show ?thesis using less.hyps [of ?s s t i] eq cf(1) b less.prems(3) by simp
    next
      case F: False
      then show ?thesis
        using less.hyps [of "cnt - ?s" "s + ?s" "t + ?s" "i - ?s"] eq cf(2) b less.prems(4) by simp
    qed
  qed
qed

subsubsection \<open>Consistency\<close>

lemma build_tree_inner:
  "1 < cnt \<Longrightarrow> build_tree (nh r) leaves start cnt = Inner (root r leaves start cnt) cnt
      (build_tree (nh r) leaves start (split_at cnt)) (build_tree (nh r) leaves (start + split_at cnt) (cnt - split_at cnt))"
  by (simp add: build_tree.simps [of _ leaves start cnt] Let_def root_inner) (simp add: root_def)

lemma root_split:
  assumes "1 < cnt" "split_at cnt < m" "m \<le> cnt"
  shows "root r leaves start m
    = nh r (root r leaves start (split_at cnt)) (root r leaves (start + split_at cnt) (m - split_at cnt))"
proof -
  have "split_at m = split_at cnt" using assms by (intro split_at_same) simp_all
  moreover have "1 < m" using assms split_at_bounds(1) [of cnt] by simp
  ultimately show ?thesis by (simp add: root_inner)
qed

text \<open>A prefix of the cached tree has the root of the tree over the prefix.\<close>

lemma prefix_root_eq:
  "1 \<le> m \<Longrightarrow> m \<le> cnt \<Longrightarrow> prefix_root (nh r) (build_tree (nh r) leaves start cnt) m = Inr (root r leaves start m)"
proof (induction "nat cnt" arbitrary: cnt start m rule: less_induct)
  case less
  show ?case
  proof (cases "cnt \<le> 1")
    case True
    with less.prems have "m = 1" "cnt = 1" by simp_all
    then show ?thesis by (simp add: root_leaf build_tree.simps [of _ leaves start 1])
  next
    case False
    then have b: "1 \<le> split_at cnt" "split_at cnt < cnt" using split_at_bounds [of cnt] by simp_all
    show ?thesis
      using False b less.prems less.hyps [of "split_at cnt" m start]
        less.hyps [of "cnt - split_at cnt" "m - split_at cnt" "start + split_at cnt"]
      by (auto simp: build_tree_inner node_count_build root_split [of cnt m] root_def [symmetric])
  qed
qed

text \<open>The path of the tree has the declared length, recovers both roots and is used up.\<close>

lemma subproof_Inr:
  "1 \<le> m \<Longrightarrow> m \<le> cnt \<Longrightarrow> (known \<longrightarrow> old = root r leaves start m) \<Longrightarrow> good r \<Longrightarrow> (\<forall>i. is_hash (leaves i))
    \<Longrightarrow> \<exists>path. subproof (build_tree (nh r) leaves start cnt) m known = Inr path \<and> length path = path_size m cnt known
      \<and> (\<forall>x \<in> set path. is_hash x)
      \<and> (\<forall>rest. recover (nh r) m cnt known old (path @ rest) = Some ((root r leaves start m, root r leaves start cnt), rest))"
proof (induction "nat cnt" arbitrary: cnt start m known rule: less_induct)
  case less
  let ?s = "split_at cnt"
  consider "m = cnt" | "m < cnt" "m \<le> ?s" "1 < cnt" | "m < cnt" "?s < m" "1 < cnt" using less.prems by linarith
  then show ?case
  proof cases
    case 1
    have "subproof (build_tree (nh r) leaves start cnt) cnt known = Inr (if known then [] else [root r leaves start cnt])"
    proof (cases "cnt \<le> 1")
      case True
      then show ?thesis using less.prems 1
        by (cases known) (simp_all add: root_leaf build_tree.simps [of _ leaves start 1])
    qed (cases known, simp_all add: build_tree_inner)
    then show ?thesis using 1 less.prems
      by (simp add: recover.simps [of _ cnt cnt] path_size.simps [of cnt cnt] root_hex)
  next
    case 2
    then have b: "1 \<le> ?s" "?s < cnt" using split_at_bounds [of cnt] by simp_all
    obtain path where path: "subproof (build_tree (nh r) leaves start ?s) m known = Inr path"
      "length path = path_size m ?s known" "\<forall>x \<in> set path. is_hash x"
      "\<forall>rest. recover (nh r) m ?s known old (path @ rest) = Some ((root r leaves start m, root r leaves start ?s), rest)"
      using less.hyps [of ?s m known start] less.prems 2 b by auto
    have "subproof (build_tree (nh r) leaves start cnt) m known = Inr (path @ [root r leaves (start + ?s) (cnt - ?s)])"
      using path(1) 2 b by (simp add: build_tree_inner node_count_build root_def [symmetric])
    then show ?thesis using path 2 b less.prems
      by (simp add: path_size.simps [of m cnt] recover.simps [of _ m cnt] Let_def root_hex root_inner [of cnt])
  next
    case 3
    then have b: "1 \<le> ?s" "?s < cnt" using split_at_bounds [of cnt] by simp_all
    obtain path where path: "subproof (build_tree (nh r) leaves (start + ?s) (cnt - ?s)) (m - ?s) False = Inr path"
      "length path = path_size (m - ?s) (cnt - ?s) False" "\<forall>x \<in> set path. is_hash x"
      "\<forall>rest. recover (nh r) (m - ?s) (cnt - ?s) False old (path @ rest)
         = Some ((root r leaves (start + ?s) (m - ?s), root r leaves (start + ?s) (cnt - ?s)), rest)"
      using less.hyps [of "cnt - ?s" "m - ?s" False "start + ?s"] less.prems 3 b by auto
    have "subproof (build_tree (nh r) leaves start cnt) m known = Inr (path @ [root r leaves start ?s])"
      using path(1) 3 b by (simp add: build_tree_inner node_count_build root_def [symmetric])
    then show ?thesis using path 3 b less.prems
      by (simp add: path_size.simps [of m cnt] recover.simps [of _ m cnt] Let_def root_hex root_inner [of cnt]
          root_split [of cnt m])
  qed
qed

text \<open>The inner-node bytes hashed while recovering.\<close>

function recover_inputs :: "runtime \<Rightarrow> int \<Rightarrow> int \<Rightarrow> bool \<Rightarrow> ustr \<Rightarrow> ustr list \<Rightarrow> bytes set" where
  "recover_inputs r old new known old_root hashes =
     (if old = new \<or> new < 2 then {}
      else let split = split_at new in
        if old \<le> split
        then recover_inputs r old split known old_root hashes
          \<union> (case recover (nh r) old split known old_root hashes of
               Some ((before, after), x # xs) \<Rightarrow> {pair r after x} | _ \<Rightarrow> {})
        else recover_inputs r (old - split) (new - split) False old_root hashes
          \<union> (case recover (nh r) (old - split) (new - split) False old_root hashes of
               Some ((before, after), x # xs) \<Rightarrow> {pair r x before, pair r x after} | _ \<Rightarrow> {}))"
  by pat_completeness auto
termination
proof (relation "measure (\<lambda>(r, o1, n, k, w, xs). nat n)", goal_cases)
  case (2 r old new known old_root hashes x)
  then show ?case using split_at_bounds [of new] by simp
next
  case (3 r old new known old_root hashes x)
  then show ?case using split_at_bounds [of new] by simp
qed simp

declare recover_inputs.simps [simp del]

text \<open>The step of a recovery, once for each side of the split.\<close>

lemma recover_left:
  assumes "recover h old new known w hashes = Some ((a, b), rest)" "old \<noteq> new" "2 \<le> new" "old \<le> split_at new"
  obtains after x where "recover h old (split_at new) known w hashes = Some ((a, after), x # rest)" "b = h after x"
  using assms by (subst (asm) recover.simps) (auto simp: Let_def split: option.splits list.splits prod.splits)

lemma recover_right:
  assumes "recover h old new known w hashes = Some ((a, b), rest)" "old \<noteq> new" "2 \<le> new" "\<not> old \<le> split_at new"
  obtains before after x where
    "recover h (old - split_at new) (new - split_at new) False w hashes = Some ((before, after), x # rest)"
    "a = h x before" "b = h x after"
  using assms by (subst (asm) recover.simps) (auto simp: Let_def split: option.splits list.splits prod.splits)

lemma recover_hex:
  assumes good: "good r"
  shows "recover (nh r) old new known w hashes = Some ((a, b), rest) \<Longrightarrow> (known \<longrightarrow> is_hash w)
    \<Longrightarrow> (\<forall>x \<in> set hashes. is_hash x) \<Longrightarrow> is_hash a \<and> is_hash b \<and> (\<forall>x \<in> set rest. is_hash x)"
proof (induction "nat new" arbitrary: old new known a b rest rule: less_induct)
  case less
  consider "old = new \<or> new < 2" | "old \<noteq> new" "2 \<le> new" "old \<le> split_at new"
    | "old \<noteq> new" "2 \<le> new" "\<not> old \<le> split_at new" by linarith
  then show ?case
  proof cases
    case 1
    then show ?thesis using less.prems
      by (auto simp: recover.simps [of _ old new] split: if_splits list.splits)
  next
    case 2
    obtain after x where "recover (nh r) old (split_at new) known w hashes = Some ((a, after), x # rest)" "b = nh r after x"
      using recover_left [OF less.prems(1) 2] .
    then show ?thesis
      using less.hyps [of "split_at new" old known a after "x # rest"] less.prems(2,3) split_at_bounds [OF 2(2)] good
      by (simp add: nh_hex)
  next
    case 3
    obtain before after x where
      "recover (nh r) (old - split_at new) (new - split_at new) False w hashes = Some ((before, after), x # rest)"
      "a = nh r x before" "b = nh r x after"
      using recover_right [OF less.prems(1) 3] .
    then show ?thesis
      using less.hyps [of "new - split_at new" "old - split_at new" False before after "x # rest"]
        less.prems(3) split_at_bounds [OF 3(2)] good
      by (simp add: nh_hex)
  qed
qed

text \<open>Without a collision, recovering the root of a tree also recovers the root of its prefix.\<close>

lemma recover_sound:
  assumes good: "good r" and hex: "\<forall>i. is_hash (leaves i)"
  shows "1 \<le> old \<Longrightarrow> old \<le> new \<Longrightarrow> recover (nh r) old new known w hashes = Some ((a, b), rest)
    \<Longrightarrow> (known \<longrightarrow> is_hash w) \<Longrightarrow> (\<forall>x \<in> set hashes. is_hash x)
    \<Longrightarrow> b = root r leaves start new
    \<Longrightarrow> collision_free r (tree_inputs r leaves start new \<union> recover_inputs r old new known w hashes)
    \<Longrightarrow> a = root r leaves start old"
proof (induction "nat new" arbitrary: old new known a b start rest rule: less_induct)
  case less
  let ?s = "split_at new"
  let ?L = "root r leaves start ?s" and ?R = "root r leaves (start + ?s) (new - ?s)"
  consider "old = new \<or> new < 2" | "old \<noteq> new" "2 \<le> new" "old \<le> ?s"
    | "old \<noteq> new" "2 \<le> new" "\<not> old \<le> ?s" by linarith
  then show ?case
  proof cases
    case 1
    then have "old = new" using less.prems(1,2) by linarith
    then show ?thesis using less.prems(3,6)
      by (auto simp: recover.simps [of _ new new] split: if_splits list.splits)
  next
    case 2
    obtain after x where rec: "recover (nh r) old ?s known w hashes = Some ((a, after), x # rest)" "b = nh r after x"
      using recover_left [OF less.prems(3) 2] .
    note b = split_at_bounds [OF 2(2)]
    have h: "is_hash after" "is_hash x"
      using recover_hex [OF good rec(1)] less.prems(4,5) by auto
    have ri: "recover_inputs r old new known w hashes = insert (pair r after x) (recover_inputs r old ?s known w hashes)"
      using 2 rec(1) by (simp add: recover_inputs.simps [of r old new] Let_def)
    have ti: "tree_inputs r leaves start new = insert (pair r ?L ?R) (tree_inputs r leaves start ?s \<union> tree_inputs r leaves (start + ?s) (new - ?s))"
      using 2 by (simp add: tree_inputs.simps [of r leaves start new])
    have eq: "nh r after x = nh r ?L ?R" using rec(2) less.prems(6) 2 by (simp add: root_inner)
    have "after = ?L"
      using nh_inj [OF good h _ _ eq less.prems(7)] good hex by (simp add: ri ti root_hex)
    moreover have "collision_free r (tree_inputs r leaves start ?s \<union> recover_inputs r old ?s known w hashes)"
      by (rule collision_free_subset [OF less.prems(7)]) (auto simp: ri ti)
    ultimately show ?thesis
      using less.hyps [of ?s old known a after "x # rest" start] rec(1) less.prems(1,4,5) 2 b by simp
  next
    case 3
    obtain before after x where
      rec: "recover (nh r) (old - ?s) (new - ?s) False w hashes = Some ((before, after), x # rest)"
        "a = nh r x before" "b = nh r x after"
      using recover_right [OF less.prems(3) 3] .
    note b = split_at_bounds [OF 3(2)]
    have h: "is_hash x" "is_hash after"
      using recover_hex [OF good rec(1)] less.prems(5) by auto
    have ri: "recover_inputs r old new known w hashes
        = insert (pair r x before) (insert (pair r x after) (recover_inputs r (old - ?s) (new - ?s) False w hashes))"
      using 3 rec(1) by (simp add: recover_inputs.simps [of r old new] Let_def)
    have ti: "tree_inputs r leaves start new = insert (pair r ?L ?R) (tree_inputs r leaves start ?s \<union> tree_inputs r leaves (start + ?s) (new - ?s))"
      using 3 by (simp add: tree_inputs.simps [of r leaves start new])
    have eq: "nh r x after = nh r ?L ?R" using rec(3) less.prems(6) 3 by (simp add: root_inner)
    have x: "x = ?L \<and> after = ?R"
      using nh_inj [OF good h _ _ eq less.prems(7)] good hex by (simp add: ri ti root_hex)
    moreover have "collision_free r (tree_inputs r leaves (start + ?s) (new - ?s) \<union> recover_inputs r (old - ?s) (new - ?s) False w hashes)"
      by (rule collision_free_subset [OF less.prems(7)]) (auto simp: ri ti)
    ultimately have "before = root r leaves (start + ?s) (old - ?s)"
      using less.hyps [of "new - ?s" "old - ?s" False before after "x # rest" "start + ?s"] rec(1) less.prems(2,5) 3 b
      by simp
    then show ?thesis using x rec(2) less.prems(2) 3 by (simp add: root_split [of new old])
  qed
qed

end

subsection \<open>Bounds\<close>

lemma path_size_bound: "new \<le> 2 ^ k \<Longrightarrow> path_size old new known \<le> Suc k"
proof (induction k arbitrary: old new known)
  case 0
  then show ?case by (simp add: path_size.simps [of old new])
next
  case (Suc k)
  show ?case
  proof (cases "new < 2")
    case False
    let ?s = "split_at new"
    have "bit_length (new - 1) \<le> Suc k" using Suc.prems by (intro bit_length_le) simp
    then have s: "?s \<le> 2 ^ k" unfolding split_at_def by (intro power_increasing) simp_all
    have "new \<le> 2 * ?s" using False by (intro split_at_bounds) simp
    with s have "new - ?s \<le> 2 ^ k" by linarith
    with s show ?thesis using Suc.IH [of "new - ?s" "old - ?s" False] Suc.IH [of ?s old known]
      by (simp add: path_size.simps [of old new] Let_def)
  qed (simp add: path_size.simps [of old new])
qed

end
