(* ===== verification/Membership.thy ===== *)
theory Membership
  imports Query Merkle
begin

text \<open>
  Detached membership proofs (membership.py): the commitment header over a ledger prefix, member proofs
  and their bundle, the cached tree that produces them, and the verifier. The hash of an inner node interprets
  \<open>merkle\<close>. The bytes readers rest on the JSON parser and are not modelled here.
\<close>

subsection \<open>Hashes\<close>

definition membership_domain :: bytes where
  "membership_domain = utf8 (U ''evidence-braid:ledger-membership:v1'') @ [0]"

definition max_siblings :: nat where
  "max_siblings = 17"

definition max_receipt_bytes :: int where
  "max_receipt_bytes = 16 * 1024 * 1024"

definition max_bundle_bytes :: int where
  "max_bundle_bytes = 20 * 1024 * 1024"

definition max_json_depth :: int where
  "max_json_depth = 72"

definition max_json_nodes :: int where
  "max_json_nodes = 1000000"

definition hash_bytes :: "runtime \<Rightarrow> string \<Rightarrow> bytes \<Rightarrow> ustr" where
  "hash_bytes rt tag value = rt_sha256 rt (membership_domain @ U tag @ value)"

definition node_input :: "runtime \<Rightarrow> ustr \<Rightarrow> ustr \<Rightarrow> bytes" where
  "node_input rt left right = membership_domain @ U ''N'' @ fromhex left @ fromhex right"

definition node_hash :: "runtime \<Rightarrow> ustr \<Rightarrow> ustr \<Rightarrow> ustr" where
  "node_hash rt left right = rt_sha256 rt (node_input rt left right)"

definition leaf_content :: "runtime \<Rightarrow> ustr \<Rightarrow> ledger_entry \<Rightarrow> bytes" where
  "leaf_content rt version x =
     canonical_bytes rt (JObj [(U ''ledger_version'', JStr version), (U ''receipt'', LedgerEntry_to_dict x)])"

definition leaf_hash :: "runtime \<Rightarrow> ustr \<Rightarrow> ledger_entry \<Rightarrow> ustr" where
  "leaf_hash rt version x = hash_bytes rt ''L'' (leaf_content rt version x)"

interpretation mtree: merkle ledger_runtime node_input
proof unfold_locales
  show "ledger_runtime r \<Longrightarrow> is_hash (rt_sha256 r b)" for r b
    by (simp add: ledger_runtime_def sha256_hex_def)
  show "a = c \<and> b = d"
    if "is_hash a" "is_hash b" "is_hash c" "is_hash d" "node_input r a b = node_input r c d" for r a b c d
    using that by (simp add: node_input_def hash_fromhex_length hash_fromhex_inj)
qed

lemma node_hash_nh: "node_hash rt = mtree.nh rt"
  by (intro ext) (simp add: node_hash_def mtree.nh_def)

subsection \<open>Admission of JSON graphs\<close>

text \<open>\<open>_text_size\<close>: a lone surrogate cannot be encoded.\<close>

definition unicode_scalar :: "nat \<Rightarrow> bool" where
  "unicode_scalar c \<longleftrightarrow> c < 55296 \<or> 57343 < c"

definition text_size :: "ustr \<Rightarrow> int \<Rightarrow> int result" where
  "text_size s remaining =
     rbind (require (int (length s) \<le> remaining) ''membership scalar data exceeds 20 MiB'') (\<lambda>_.
     rbind (require (list_all unicode_scalar s) ''membership text must contain Unicode scalar values'') (\<lambda>_.
     Inr (int (length (utf8 s)))))"

text \<open>The sizes of the keys of an object, added to the scalar bytes so far.\<close>

fun key_sizes :: "int \<Rightarrow> (ustr \<times> json) list \<Rightarrow> int result" where
  "key_sizes n [] = Inr n"
| "key_sizes n ((k, v) # kvs) = rbind (text_size k (max_bundle_bytes - n)) (\<lambda>m. key_sizes (n + m) kvs)"

definition within_bytes :: "int \<Rightarrow> int result" where
  "within_bytes n = rbind (require (n \<le> max_bundle_bytes) ''membership scalar data exceeds 20 MiB'') (\<lambda>_. Inr n)"

text \<open>
  \<open>_preflight\<close>: the depth-first walk with the nodes and scalar bytes counted so far; a JSON tree
  has no cycle.
\<close>

function (sequential) preflight_value :: "runtime \<Rightarrow> int \<Rightarrow> int \<times> int \<Rightarrow> json \<Rightarrow> (int \<times> int) result"
  and preflight_items :: "runtime \<Rightarrow> int \<Rightarrow> int \<times> int \<Rightarrow> json list \<Rightarrow> (int \<times> int) result"
  and preflight_members :: "runtime \<Rightarrow> int \<Rightarrow> int \<times> int \<Rightarrow> (ustr \<times> json) list \<Rightarrow> (int \<times> int) result" where
  "preflight_value rt depth (nodes0, n) v =
     (let nodes = nodes0 + 1 in
      if nodes > max_json_nodes \<or> depth > max_json_depth
      then Inl (ValidationError ''membership JSON graph exceeds node/depth bounds'')
      else case v of
        JObj kvs \<Rightarrow>
          if int (length kvs) * 2 > max_json_nodes - nodes
          then Inl (ValidationError ''membership JSON graph exceeds node bounds'')
          else rbind (key_sizes n kvs) (\<lambda>n. rbind (within_bytes n) (\<lambda>n.
               preflight_members rt (depth + 1) (nodes + int (length kvs), n) kvs))
      | JArr xs \<Rightarrow>
          if int (length xs) > max_json_nodes - nodes
          then Inl (ValidationError ''membership JSON graph exceeds node bounds'')
          else rbind (within_bytes n) (\<lambda>n. preflight_items rt (depth + 1) (nodes, n) xs)
      | JStr s \<Rightarrow>
          rbind (text_size s (max_bundle_bytes - n)) (\<lambda>m. rbind (within_bytes (n + m)) (\<lambda>n. Inr (nodes, n)))
      | JNull \<Rightarrow> rbind (within_bytes (n + 5)) (\<lambda>n. Inr (nodes, n))
      | JBool b \<Rightarrow> rbind (within_bytes (n + 5)) (\<lambda>n. Inr (nodes, n))
      | JInt i \<Rightarrow>
          if \<bar>i\<bar> > max_attribute_integer
          then Inl (ValidationError ''membership JSON integer exceeds attribute bounds'')
          else rbind (within_bytes (n + int (length (int_str i)))) (\<lambda>n. Inr (nodes, n))
      | JFloat x \<Rightarrow>
          if \<not> finite_float x then Inl (ValidationError ''membership JSON numbers must be finite'')
          else rbind (within_bytes (n + int (length (float_str rt x)))) (\<lambda>n. Inr (nodes, n)))"
| "preflight_items rt depth c [] = Inr c"
| "preflight_items rt depth c (x # xs) =
     rbind (preflight_value rt depth c x) (\<lambda>c. preflight_items rt depth c xs)"
| "preflight_members rt depth c [] = Inr c"
| "preflight_members rt depth c ((k, v) # kvs) =
     rbind (preflight_value rt depth c v) (\<lambda>c. preflight_members rt depth c kvs)"
  by pat_completeness auto
termination
  by (relation "measure (\<lambda>x. case x of Inl (_, _, _, v) \<Rightarrow> 2 * size v
        | Inr (Inl (_, _, _, xs)) \<Rightarrow> Suc (2 * size_list size xs)
        | Inr (Inr (_, _, _, kvs)) \<Rightarrow> Suc (2 * size_list (size_prod (\<lambda>_. 0) size) kvs))") auto

declare preflight_value.simps [simp del]

definition preflight :: "runtime \<Rightarrow> json \<Rightarrow> unit result" where
  "preflight rt v = rbind (preflight_value rt 0 (0, 0) v) (\<lambda>_. Inr ())"

definition membership_canonical :: "runtime \<Rightarrow> json \<Rightarrow> bytes result" where
  "membership_canonical rt v = rbind (canonical_json rt v) (\<lambda>s. Inr (utf8 s))"

definition receipt_bytes :: "runtime \<Rightarrow> ledger_entry \<Rightarrow> bytes result" where
  "receipt_bytes rt x =
     (let data = LedgerEntry_to_dict x in
      rbind (preflight rt data) (\<lambda>_.
      rbind (membership_canonical rt data) (\<lambda>raw.
      rbind (require (int (length raw) \<le> max_receipt_bytes) ''selected receipt bytes exceed 16 MiB'') (\<lambda>_.
      rbind (LedgerEntry_from_dict rt data) (\<lambda>parsed.
      rbind (membership_canonical rt (LedgerEntry_to_dict parsed)) (\<lambda>again.
      rbind (require (again = raw) ''membership receipt is not canonical'') (\<lambda>_.
      Inr raw)))))))"

subsection \<open>Commitments\<close>

record ledger_commitment =
  lc_version :: ustr
  lc_genesis :: ustr
  lc_head :: ustr
  lc_count :: int
  lc_root :: ustr

definition LedgerCommitment_init :: "runtime \<Rightarrow> json \<Rightarrow> json \<Rightarrow> json \<Rightarrow> json \<Rightarrow> json \<Rightarrow> ledger_commitment result" where
  "LedgerCommitment_init rt version genesis head cnt root_hash =
     rbind (case version of
              JStr v \<Rightarrow> (case map_of (ledger_versions rt) v of
                 None \<Rightarrow> Inl (ValidationError ''unsupported commitment ledger version'') | Some g \<Rightarrow> Inr (v, g))
            | _ \<Rightarrow> Inl (ValidationError ''unsupported commitment ledger version'')) (\<lambda>(v, expected).
     rbind (hash_value genesis ''genesis'') (\<lambda>g.
     rbind (hash_value head ''head_digest'') (\<lambda>h.
     rbind (hash_value root_hash ''root_hash'') (\<lambda>r.
     rbind (require (g = expected) ''commitment genesis does not match ledger version'') (\<lambda>_.
     rbind (count_value cnt ''entry_count'' max_ledger_entries 0) (\<lambda>n.
     rbind (require (\<not> (n = 0 \<and> (h \<noteq> g \<or> r \<noteq> hash_bytes rt ''E'' [])))
              ''empty commitment must use genesis and the empty-tree root'') (\<lambda>_.
     Inr \<lparr>lc_version = v, lc_genesis = g, lc_head = h, lc_count = n, lc_root = r\<rparr>)))))))"

definition commitment_body :: "ledger_commitment \<Rightarrow> (ustr \<times> json) list" where
  "commitment_body c =
     [(U ''kind'', JText ''evidence-braid-ledger-commitment''), (U ''schema_version'', JText ''1.0''),
      (U ''ledger_version'', JStr (lc_version c)), (U ''genesis'', JStr (lc_genesis c)),
      (U ''head_digest'', JStr (lc_head c)), (U ''entry_count'', JInt (lc_count c)), (U ''root_hash'', JStr (lc_root c))]"

definition commitment_digest :: "runtime \<Rightarrow> ledger_commitment \<Rightarrow> ustr" where
  "commitment_digest rt c = hash_bytes rt ''C'' (canonical_bytes rt (JObj (commitment_body c)))"

definition LedgerCommitment_to_dict :: "runtime \<Rightarrow> ledger_commitment \<Rightarrow> json" where
  "LedgerCommitment_to_dict rt c =
     JObj (commitment_body c @ [(U ''commitment_digest'', JStr (commitment_digest rt c))])"

definition member_object :: "json \<Rightarrow> string list \<Rightarrow> string \<Rightarrow> (ustr \<times> json) list result" where
  "member_object v names path =
     (case v of
        JObj kvs \<Rightarrow> if set (map fst kvs) = set (map U names) then Inr kvs
          else Inl (ValidationError (path @ '' has an invalid field set''))
      | _ \<Rightarrow> Inl (ValidationError (path @ '' has an invalid field set'')))"

definition header_fields :: "string list" where
  "header_fields = [''kind'', ''schema_version'', ''ledger_version'', ''genesis'', ''head_digest'', ''entry_count'',
     ''root_hash'', ''commitment_digest'']"

definition LedgerCommitment_from_dict :: "runtime \<Rightarrow> json \<Rightarrow> ledger_commitment result" where
  "LedgerCommitment_from_dict rt value =
     rbind (member_object value header_fields ''commitment'') (\<lambda>data.
     rbind (require (dget data ''kind'' = JText ''evidence-braid-ledger-commitment''
              \<and> dget data ''schema_version'' = JText ''1.0'') ''unsupported commitment format'') (\<lambda>_.
     rbind (LedgerCommitment_init rt (dget data ''ledger_version'') (dget data ''genesis'') (dget data ''head_digest'')
              (dget data ''entry_count'') (dget data ''root_hash'')) (\<lambda>c.
     rbind (hash_value (dget data ''commitment_digest'') ''commitment_digest'') (\<lambda>d.
     rbind (require (d = commitment_digest rt c) ''commitment digest does not match its header'') (\<lambda>_.
     Inr c)))))"

subsection \<open>Member proofs and bundles\<close>

record member_proof =
  mp_entry :: ledger_entry
  mp_siblings :: "ustr list"

definition LedgerMemberProof_init :: "runtime \<Rightarrow> ledger_entry \<Rightarrow> json list \<Rightarrow> member_proof result" where
  "LedgerMemberProof_init rt x siblings =
     rbind (require (length siblings \<le> max_siblings) ''membership siblings require a tuple of at most 17 hashes'') (\<lambda>_.
     rbind (rmap (\<lambda>s. hash_value s ''sibling'') siblings) (\<lambda>hs.
     rbind (receipt_bytes rt x) (\<lambda>_.
     Inr \<lparr>mp_entry = x, mp_siblings = hs\<rparr>)))"

definition LedgerMemberProof_to_dict :: "member_proof \<Rightarrow> json" where
  "LedgerMemberProof_to_dict m = JObj
     [(U ''entry'', LedgerEntry_to_dict (mp_entry m)), (U ''siblings'', JArr (map JStr (mp_siblings m)))]"

definition sibling_array :: "json \<Rightarrow> json list result" where
  "sibling_array v =
     (case v of
        JArr xs \<Rightarrow> if length xs \<le> max_siblings then Inr xs
          else Inl (ValidationError ''membership siblings must be a bounded array'')
      | _ \<Rightarrow> Inl (ValidationError ''membership siblings must be a bounded array''))"

definition LedgerMemberProof_from_dict :: "runtime \<Rightarrow> json \<Rightarrow> member_proof result" where
  "LedgerMemberProof_from_dict rt value =
     rbind (member_object value [''entry'', ''siblings''] ''member'') (\<lambda>data.
     rbind (sibling_array (dget data ''siblings'')) (\<lambda>siblings.
     rbind (rmap (\<lambda>s. hash_value s ''sibling'') siblings) (\<lambda>_.
     rbind (preflight rt value) (\<lambda>_.
     rbind (LedgerEntry_from_dict rt (dget data ''entry'')) (\<lambda>x.
     LedgerMemberProof_init rt x siblings)))))"

record membership_bundle =
  mb_commitment :: ledger_commitment
  mb_members :: "member_proof list"

text \<open>The loop of the bundle's constructor: strictly increasing positions, path lengths, total size.\<close>

fun bundle_members :: "runtime \<Rightarrow> int \<Rightarrow> int \<Rightarrow> int \<Rightarrow> member_proof list \<Rightarrow> unit result" where
  "bundle_members rt cnt previous used [] = Inr ()"
| "bundle_members rt cnt previous used (m # ms) =
     rbind (require (previous < le_sequence (mp_entry m)) ''membership positions must strictly increase'') (\<lambda>_.
     rbind (route (le_sequence (mp_entry m)) cnt) (\<lambda>directions.
     rbind (require (length (mp_siblings m) = length directions)
              ''membership sibling count disagrees with tree shape'') (\<lambda>_.
     rbind (receipt_bytes rt (mp_entry m)) (\<lambda>raw.
     rbind (require (used + int (length raw) \<le> max_receipt_bytes) ''selected receipt bytes exceed 16 MiB'') (\<lambda>_.
     bundle_members rt cnt (le_sequence (mp_entry m)) (used + int (length raw)) ms)))))"

definition MembershipBundle_init :: "runtime \<Rightarrow> ledger_commitment \<Rightarrow> member_proof list \<Rightarrow> membership_bundle result" where
  "MembershipBundle_init rt c ms =
     rbind (require (1 \<le> length ms \<and> length ms \<le> 1000) ''membership requires 1..1000 immutable member proofs'') (\<lambda>_.
     rbind (bundle_members rt (lc_count c) (- 1) 0 ms) (\<lambda>_.
     Inr \<lparr>mb_commitment = c, mb_members = ms\<rparr>))"

definition MembershipBundle_to_dict :: "runtime \<Rightarrow> membership_bundle \<Rightarrow> json" where
  "MembershipBundle_to_dict rt b = JObj
     [(U ''kind'', JText ''evidence-braid-ledger-membership''), (U ''schema_version'', JText ''1.0''),
      (U ''commitment'', LedgerCommitment_to_dict rt (mb_commitment b)),
      (U ''members'', JArr (map LedgerMemberProof_to_dict (mb_members b)))]"

definition MembershipBundle_to_bytes :: "runtime \<Rightarrow> membership_bundle \<Rightarrow> bytes result" where
  "MembershipBundle_to_bytes rt b =
     rbind (preflight rt (MembershipBundle_to_dict rt b)) (\<lambda>_.
     rbind (membership_canonical rt (MembershipBundle_to_dict rt b)) (\<lambda>raw.
     rbind (require (int (length raw) \<le> max_bundle_bytes) ''membership bundle exceeds 20 MiB'') (\<lambda>_.
     Inr raw)))"

text \<open>The total size of the receipts as they are in the document.\<close>

fun entry_sizes :: "runtime \<Rightarrow> int \<Rightarrow> json list \<Rightarrow> unit result" where
  "entry_sizes rt used [] = Inr ()"
| "entry_sizes rt used (m # ms) =
     rbind (membership_canonical rt (case jget m (U ''entry'') of Some x \<Rightarrow> x | None \<Rightarrow> JNull)) (\<lambda>raw.
     rbind (require (used + int (length raw) \<le> max_receipt_bytes) ''selected receipt bytes exceed 16 MiB'') (\<lambda>_.
     entry_sizes rt (used + int (length raw)) ms))"

definition MembershipBundle_from_dict :: "runtime \<Rightarrow> json \<Rightarrow> membership_bundle result" where
  "MembershipBundle_from_dict rt value =
     rbind (member_object value [''kind'', ''schema_version'', ''commitment'', ''members''] ''bundle'') (\<lambda>data.
     rbind (require (dget data ''kind'' = JText ''evidence-braid-ledger-membership''
              \<and> dget data ''schema_version'' = JText ''1.0'') ''unsupported membership bundle format'') (\<lambda>_.
     rbind (case dget data ''members'' of
              JArr ms \<Rightarrow> if 1 \<le> length ms \<and> length ms \<le> 1000 then Inr ms
                else Inl (ValidationError ''membership requires 1..1000 members'')
            | _ \<Rightarrow> Inl (ValidationError ''membership requires 1..1000 members'')) (\<lambda>ms.
     rbind (rmap (\<lambda>m. rbind (member_object m [''entry'', ''siblings''] ''member'') (\<lambda>fields.
              sibling_array (dget fields ''siblings''))) ms) (\<lambda>_.
     rbind (preflight rt value) (\<lambda>_.
     rbind (entry_sizes rt 0 ms) (\<lambda>_.
     rbind (LedgerCommitment_from_dict rt (dget data ''commitment'')) (\<lambda>c.
     rbind (rmap (LedgerMemberProof_from_dict rt) ms) (\<lambda>members.
     rbind (MembershipBundle_init rt c members) (\<lambda>b.
     rbind (MembershipBundle_to_bytes rt b) (\<lambda>_.
     Inr b))))))))))"

subsection \<open>Verification\<close>

text \<open>One iteration of the loop of \<open>verify_ledger_membership\<close>.\<close>

definition verify_member :: "runtime \<Rightarrow> ledger_commitment \<Rightarrow> member_proof \<Rightarrow> unit result" where
  "verify_member rt header m =
     (let x = mp_entry m in
      rbind (EvidenceEvent_from_dict rt (le_event x) ''event'') (\<lambda>event.
      rbind (require (ledger_digest rt (le_previous x) event (le_sequence x) (lc_version header) = le_digest x)
               ''membership receipt chain digest does not match'') (\<lambda>_.
      rbind (require (\<not> (le_sequence x = 0 \<and> le_previous x \<noteq> lc_genesis header))
               ''first membership receipt does not follow genesis'') (\<lambda>_.
      rbind (require (\<not> (le_sequence x = lc_count header - 1 \<and> le_digest x \<noteq> lc_head header))
               ''last membership receipt differs from the prefix head'') (\<lambda>_.
      rbind (route (le_sequence x) (lc_count header)) (\<lambda>directions.
      rbind (if length directions = length (mp_siblings m) then Inr ()
             else Inl (ValueError ''zip() argument 2 has another length than argument 1'')) (\<lambda>_.
      require (climb (node_hash rt) (leaf_hash rt (lc_version header) x) (zip directions (mp_siblings m)) = lc_root header)
        ''membership proof does not reproduce the committed root'')))))))"

definition verify_ledger_membership :: "runtime \<Rightarrow> membership_bundle \<Rightarrow> ustr \<Rightarrow> ledger_entry list result" where
  "verify_ledger_membership rt b expected =
     rbind (hash_value (JStr expected) ''expected_commitment_digest'') (\<lambda>_.
     rbind (require (commitment_digest rt (mb_commitment b) = expected)
              ''membership commitment differs from the expected anchor'') (\<lambda>_.
     rbind (rmap (verify_member rt (mb_commitment b)) (mb_members b)) (\<lambda>_.
     Inr (map mp_entry (mb_members b)))))"

subsection \<open>The proof index\<close>

text \<open>\<open>_build\<close> over an index: leaf hashes of its ledger's entries.\<close>

definition ledger_leaf :: "runtime \<Rightarrow> evidence_ledger \<Rightarrow> int \<Rightarrow> ustr" where
  "ledger_leaf rt l i = leaf_hash rt (lg_version l) (lg_entries l ! nat i)"

definition ledger_tree :: "runtime \<Rightarrow> evidence_ledger \<Rightarrow> int \<Rightarrow> int \<Rightarrow> node" where
  "ledger_tree rt l start cnt = build_tree (node_hash rt) (ledger_leaf rt l) start cnt"

record proof_index =
  pi_index :: ledger_index
  pi_commitment :: ledger_commitment
  pi_tree :: "node option"

definition LedgerProofIndex_init :: "runtime \<Rightarrow> ledger_index \<Rightarrow> proof_index result" where
  "LedgerProofIndex_init rt idx =
     (let l = li_ledger idx; cnt = int (length (lg_entries l));
          tree = (if lg_entries l \<noteq> [] then Some (ledger_tree rt l 0 cnt) else None) in
      rbind (LedgerCommitment_init rt (JStr (lg_version l)) (lg_genesis l) (ledger_head l) (JInt cnt)
               (JStr (case tree of Some t \<Rightarrow> node_digest t | None \<Rightarrow> hash_bytes rt ''E'' []))) (\<lambda>c.
      Inr \<lparr>pi_index = idx, pi_commitment = c, pi_tree = tree\<rparr>))"

definition proof_member :: "runtime \<Rightarrow> proof_index \<Rightarrow> int \<Rightarrow> member_proof result" where
  "proof_member rt p seq =
     rbind (count_value (JInt seq) ''sequence'' (lc_count (pi_commitment p) - 1) 0) (\<lambda>_.
     let siblings = (case pi_tree p of None \<Rightarrow> [] | Some t \<Rightarrow> sibling_path t seq) in
     LedgerMemberProof_init rt (lg_entries (li_ledger (pi_index p)) ! nat seq) (map JStr (rev siblings)))"

definition prove :: "runtime \<Rightarrow> proof_index \<Rightarrow> int \<Rightarrow> membership_bundle result" where
  "prove rt p seq = rbind (proof_member rt p seq) (\<lambda>m. MembershipBundle_init rt (pi_commitment p) [m])"

end
