(* ===== verification/Sample_Records.thy ===== *)
theory Sample_Records
  imports Samples Json_Size Workflow_Chain Case_Roundtrip Membership
begin

text \<open>
  Concrete ledgers, workflows and cases at which the properties of the logs are applied. The records are
  built by the code's own constructors, so the lemmas here also show that the constructors accept them.
\<close>

subsection \<open>Ledgers\<close>

lemma sample_ledger_runtime: "ledger_runtime sample_runtime"
  using sample_repr sample_hex by (simp add: ledger_runtime_def)

definition sample_report :: evidence_event where
  "sample_report = (sample_event ''e5'' VISION ''cam'' SUPPORT (3 / 4) 4000000 None)
     \<lparr>ev_attributes := JObj [(U ''workflow_scope'', JText ''line-3'')]\<rparr>"

lemma visible_xml: "visible_ascii s \<Longrightarrow> is_xml_character (U s)"
  using text_ok_visible_ascii by (simp add: text_ok_def)

lemma xml_keys: "is_xml_character (U ''event_id'')" "is_xml_character (U ''claim'')" "is_xml_character (U ''modality'')"
  "is_xml_character (U ''source'')" "is_xml_character (U ''signal'')" "is_xml_character (U ''confidence'')"
  "is_xml_character (U ''observed_at'')" "is_xml_character (U ''ingested_at'')" "is_xml_character (U ''attributes'')"
  "is_xml_character (U ''correlation_group'')"
  by (rule visible_xml, code_simp)+

lemma xml_signal: "is_xml_character (U (signal_value g))"
proof -
  have "visible_ascii ''support''" "visible_ascii ''contradict''" by code_simp+
  then show ?thesis by (cases g) (simp_all add: visible_xml)
qed

lemma text_ok_xml: "text_ok s \<Longrightarrow> is_xml_character s"
  by (simp add: text_ok_def)

lemmas freeze_all = freeze.simps max_attribute_nodes_def max_attribute_depth_def JText_def is_ok_def

text \<open>An event whose attributes are flat text can be stored in a ledger.\<close>

lemma storable_plain:
  assumes "event_ok e" "ev_attributes e = JObj [] \<or> (\<exists>k s. ev_attributes e = JObj [(k, JStr s)])"
  shows "storable e"
proof -
  have "frozen (ev_attributes e)" using assms(1) by (simp add: event_ok_def)
  then have attrs: "is_xml_character k \<and> is_xml_character s" if "ev_attributes e = JObj [(k, JStr s)]" for k s
    using that by (simp add: frozen_def freeze_all split: if_splits)
  have texts: "is_xml_character (ev_id e)" "is_xml_character (ev_claim e)" "is_xml_character (ev_source e)"
    "is_double (ev_confidence e)" "case ev_group e of None \<Rightarrow> True | Some g \<Rightarrow> is_xml_character g"
    using assms(1) by (auto simp: event_ok_def text_ok_xml split: option.splits)
  have "is_ok (freeze True 0 max_attribute_nodes (EvidenceEvent_to_dict e))"
    using texts assms(2) attrs
    by (auto simp: EvidenceEvent_to_dict_def freeze_all xml_keys xml_signal text_ok_xml modality_text_ok format_timestamp_text_ok
        split: option.splits)
  then show ?thesis using assms(1) by (simp add: storable_def frozen_def)
qed

lemma sample_storable: "\<forall>e \<in> set (sample_report # sample_events @ sample_late_events). storable e"
proof -
  have "is_xml_character (U ''workflow_scope'')" "is_xml_character (U ''line-3'')" by (rule visible_xml, code_simp)+
  moreover have "text_ok (U ''e5'')" by (rule text_ok_visible_ascii, code_simp)
  ultimately have "event_ok sample_report"
    using sample_event_ok [of "''e5''" "''cam''" "3 / 4" 4000000 None VISION SUPPORT]
    by (simp add: sample_report_def sample_event_def event_ok_def sample_texts sample_doubles frozen_def freeze_all
        valid_instant_def max_instant_def)
  then have "storable sample_report" by (rule storable_plain) (simp add: sample_report_def JText_def)
  moreover have "\<forall>e \<in> set (sample_events @ sample_late_events). event_ok e"
    using sample_stream_ok(1) by (simp add: stream_ok_def)
  moreover have "\<forall>e \<in> set (sample_events @ sample_late_events). ev_attributes e = JObj []"
    by (simp add: sample_events_def sample_late_events_def sample_event_def)
  ultimately show ?thesis using storable_plain by auto
qed

text \<open>The ledger of the sample stream, and the one whose single entry reports on a workflow's scope.\<close>

definition sample_ledger :: evidence_ledger where
  "sample_ledger = projr (build_ledger sample_runtime sample_events)"

definition sample_evidence :: evidence_ledger where
  "sample_evidence = projr (build_ledger sample_runtime [sample_report])"

lemma ledger_order_single [simp]: "ledger_order [e] = [e]"
  by (simp add: ledger_order_def)

lemma projr_Inr: "r = Inr x \<Longrightarrow> r = Inr (projr r)"
  by simp

lemma sample_ledger:
  "build_ledger sample_runtime sample_events = Inr sample_ledger" "lg_version sample_ledger = U ''2.0''"
  "map le_event (lg_entries sample_ledger) = map EvidenceEvent_to_dict (ledger_order sample_events)"
  "ledger_events_are sample_ledger (ledger_order sample_events)" "ledger_verify sample_runtime sample_ledger None"
  "EvidenceLedger_from_dict sample_runtime (EvidenceLedger_to_dict sample_runtime sample_ledger) None = Inr sample_ledger"
proof -
  have "distinct (map ev_id sample_events)" "int (length sample_events) \<le> max_ledger_entries"
    by (simp_all add: sample_events_def sample_event_def max_ledger_entries_def)
  then show "build_ledger sample_runtime sample_events = Inr sample_ledger" "lg_version sample_ledger = U ''2.0''"
    "map le_event (lg_entries sample_ledger) = map EvidenceEvent_to_dict (ledger_order sample_events)"
    "ledger_events_are sample_ledger (ledger_order sample_events)" "ledger_verify sample_runtime sample_ledger None"
    "EvidenceLedger_from_dict sample_runtime (EvidenceLedger_to_dict sample_runtime sample_ledger) None = Inr sample_ledger"
    using build_ledger_Inr [OF sample_ledger_runtime sample_iso, of sample_events] sample_storable
    unfolding sample_ledger_def by auto
qed

lemma sample_evidence:
  "build_ledger sample_runtime [sample_report] = Inr sample_evidence" "lg_version sample_evidence = U ''2.0''"
  "map le_event (lg_entries sample_evidence) = [EvidenceEvent_to_dict sample_report]"
  "ledger_events_are sample_evidence [sample_report]" "ledger_verify sample_runtime sample_evidence None"
  "EvidenceLedger_from_dict sample_runtime (EvidenceLedger_to_dict sample_runtime sample_evidence) None = Inr sample_evidence"
  using build_ledger_Inr [OF sample_ledger_runtime sample_iso, of "[sample_report]"] sample_storable
  unfolding sample_evidence_def by (auto simp: max_ledger_entries_def)

subsection \<open>No collision among the sample's documents\<close>

text \<open>Documents whose last bytes differ have different digests.\<close>

lemma sample_suffix:
  assumes "\<exists>p. x = p @ s" "\<exists>q. y = q @ t" "length s = length t" "length s \<le> 32" "list_all (\<lambda>b. b < 256) (s @ t)" "s \<noteq> t"
  shows "rt_sha256 sample_runtime x \<noteq> rt_sha256 sample_runtime y"
  using assms sample_hash_suffix [of _ s _ t] by (auto simp: sample_runtime_def)

lemma canonical_bytes_JStr: "canonical_bytes rt (JStr s) = utf8 (str_enc s)"
  by (simp add: canonical_bytes_def dumps_def)

lemma digit_bytes: "0 \<le> n \<Longrightarrow> n < 10 \<Longrightarrow> canonical_bytes rt (JInt n) = [48 + nat n]"
  by (simp add: canonical_bytes_def dumps_def int_str_def digits_of.simps utf8_def utf8_char_def)

lemma ledger_link_suffix:
  assumes "0 \<le> n" "n < 10"
  shows "\<exists>p. digest_input rt (U ''2.0'') n previous e = p @ [48 + nat n, 125]"
proof -
  have "U ''schema_version'' < U ''sequence''" "U ''previous_digest'' < U ''sequence''" "U ''event'' < U ''sequence''"
    by code_simp+
  then obtain p where "digest_input rt (U ''2.0'') n previous e
      = p @ utf8 (str_enc (U ''sequence'')) @ 58 # canonical_bytes rt (JInt n) @ [125]"
    using canonical_bytes_last [of "U ''sequence''" "JInt n" "[(U ''schema_version'', JStr (U ''2.0'')), (U ''sequence'', JInt n),
             (U ''previous_digest'', JStr previous), (U ''event'', EvidenceEvent_to_dict e)]" rt]
    by (auto simp: digest_input_def)
  then show ?thesis
    by (intro exI [of _ "p @ utf8 (str_enc (U ''sequence'')) @ [58]"]) (simp add: digit_bytes [OF assms])
qed

lemma ledger_seed_suffix: "\<exists>p. ledger_seed (U ''2.0'') = p @ [118, 50]"
  by (intro exI [of _ "utf8 (U ''evidence-braid-ledger:'')"]) (simp add: ledger_seed_def utf8_def utf8_char_def U_def)

lemma sample_ledger_collision_free:
  assumes "length es \<le> 10"
  shows "collision_free sample_runtime (ledger_inputs sample_runtime (U ''2.0'') es)"
  unfolding ledger_inputs_def
proof (rule ledger.collision_free_inputs)
  show "rt_sha256 sample_runtime (digest_input sample_runtime (U ''2.0'') (int i) p (es ! i))
      \<noteq> rt_sha256 sample_runtime (ledger_seed (U ''2.0''))" if "i < length es" for i p
    by (rule sample_suffix [OF ledger_link_suffix ledger_seed_suffix]) (use that assms in simp_all)
  show "rt_sha256 sample_runtime (digest_input sample_runtime (U ''2.0'') (int i) p (es ! i))
      \<noteq> rt_sha256 sample_runtime (digest_input sample_runtime (U ''2.0'') (int j) q (es ! j))"
    if "i < j" "j < length es" for i j p q
    by (rule sample_suffix [OF ledger_link_suffix ledger_link_suffix]) (use that assms in simp_all)
qed

subsection \<open>A workflow\<close>

definition sample_actor :: "string \<Rightarrow> actor_kind \<Rightarrow> authority_role \<Rightarrow> workflow_actor" where
  "sample_actor i k r = \<lparr>wa_id = U i, wa_kind = k, wa_grants = [\<lparr>sg_scope = U ''line-3'', sg_role = r\<rparr>]\<rparr>"

definition sample_authority :: authority_policy where
  "sample_authority = \<lparr>ap_id = U ''board'', ap_actors = [sample_actor ''ada'' AUTOMATION AUTHOR,
     sample_actor ''ben'' HUMAN REVIEWER, sample_actor ''cyd'' HUMAN REVIEWER, sample_actor ''dee'' HUMAN REVOKER],
     ap_quorum = 2\<rparr>"

definition sample_artifact :: artifact_reference where
  "sample_artifact = \<lparr>ar_id = U ''log'', ar_scope = U ''line-3'', ar_claim = U ''fire'', ar_sha256 = replicate 64 97,
     ar_size = 12, ar_media = U ''text/plain''\<rparr>"

definition sample_transition :: "string \<Rightarrow> workflow_action \<Rightarrow> string \<Rightarrow> int \<Rightarrow> workflow_transition" where
  "sample_transition i a who n = \<lparr>wt_id = U i, wt_action = a, wt_actor = U who, wt_scope = U ''line-3'',
     wt_claim = U ''fire'', wt_expected = n, wt_statement = None, wt_reference = None, wt_reference_digest = None,
     wt_reason = None\<rparr>"

definition sample_transitions :: "workflow_transition list" where
  "sample_transitions =
     [sample_transition ''t1'' CREATE ''ada'' 0 \<lparr>wt_statement := Some (U ''burning'')\<rparr>,
      sample_transition ''t2'' BIND_EVIDENCE ''ada'' 1 \<lparr>wt_reference := Some (U ''e5''),
        wt_reference_digest := Some (le_digest (hd (lg_entries sample_evidence)))\<rparr>,
      sample_transition ''t3'' BIND_ARTIFACT ''ada'' 2 \<lparr>wt_reference := Some (U ''log''),
        wt_reference_digest := Some (replicate 64 97)\<rparr>,
      sample_transition ''t4'' SUBMIT ''ada'' 3,
      sample_transition ''t5'' APPROVE ''ben'' 4,
      sample_transition ''t6'' APPROVE ''cyd'' 5]"

lemma sample_ids: "is_identifier (U ''line-3'')" "is_identifier (U ''board'')" "is_identifier (U ''ada'')" "is_identifier (U ''ben'')"
  "is_identifier (U ''cyd'')" "is_identifier (U ''dee'')" "is_identifier (U ''log'')" "is_identifier (U ''fire'')"
  "is_identifier (U ''t1'')" "is_identifier (U ''t2'')" "is_identifier (U ''t3'')" "is_identifier (U ''t4'')"
  "is_identifier (U ''t5'')" "is_identifier (U ''t6'')" "is_identifier (U ''e5'')" "is_identifier (U ''flow-1'')"
  by (simp_all add: is_identifier_def ident_first_def ident_char_def U_def)

lemma sample_hash_text: "is_hash (replicate 64 97)"
  by (simp add: is_hash_def hex_digit_def list_all_iff)

lemma sample_authority_ok: "authority_ok sample_authority"
proof -
  have "U ''ada'' \<le> U ''ben''" "U ''ben'' \<le> U ''cyd''" "U ''cyd'' \<le> U ''dee''" "U ''ada'' \<le> U ''cyd''"
    "U ''ada'' \<le> U ''dee''" "U ''ben'' \<le> U ''dee''"
    by code_simp+
  then show ?thesis
    by (simp add: authority_ok_def actor_ok_def grant_ok_def sample_authority_def sample_actor_def sample_ids)
qed

lemma sample_descriptions: "description_ok (U ''text/plain'') 128" "description_ok (U ''burning'') 8192"
proof -
  have "text_ok (U ''text/plain'')" "text_ok (U ''burning'')" by (rule text_ok_visible_ascii, code_simp)+
  then show "description_ok (U ''text/plain'') 128" "description_ok (U ''burning'') 8192"
    by (simp_all add: description_ok_def U_def)
qed

lemma sample_artifact_ok: "artifact_ok sample_artifact"
  by (simp add: artifact_ok_def sample_artifact_def sample_ids sample_hash_text sample_descriptions)

lemma sample_entry:
  obtains x where "lg_entries sample_evidence = [x]" "le_event x = EvidenceEvent_to_dict sample_report"
    "le_event_id x = U ''e5''" "is_hash (le_digest x)" "is_hash (le_previous x)" "le_sequence x = 0"
proof -
  have "list_all2 entry_holds (lg_entries sample_evidence) [sample_report]"
    using sample_evidence(4) by (simp add: ledger_events_are_def)
  then obtain x where x: "lg_entries sample_evidence = [x]" "entry_holds x sample_report"
    by (auto simp: list_all2_Cons2)
  moreover have "le_sequence x = 0"
    using verified_sequence [OF sample_ledger_runtime sample_iso sample_evidence(5), of 0] x(1) by simp
  ultimately show thesis
    using sample_evidence(3) that by (auto simp: entry_holds_def sample_report_def sample_event_def)
qed

lemma sample_transitions_ok: "\<forall>t \<in> set sample_transitions. transition_ok t"
proof -
  obtain x where "lg_entries sample_evidence = [x]" "is_hash (le_digest x)" by (rule sample_entry)
  then show ?thesis
    by (simp add: sample_transitions_def sample_transition_def transition_ok_def given_when_def sample_ids sample_hash_text
        sample_descriptions max_workflow_records_def)
qed

text \<open>The claim after every command.\<close>

definition sample_claim :: "claim_status \<Rightarrow> int \<Rightarrow> ustr list \<Rightarrow> ustr list \<Rightarrow> ustr list \<Rightarrow> claim_map" where
  "sample_claim st n evidence artifacts approvals = [(U ''fire'', \<lparr>cw_claim = U ''fire'', cw_scope = U ''line-3'',
     cw_statement = U ''burning'', cw_status = st, cw_revision = n, cw_authors = [U ''ada''],
     cw_evidence = evidence, cw_artifacts = artifacts, cw_approvals = approvals\<rparr>)]"

lemma permits_known: "is_identifier scope \<Longrightarrow> WorkflowActor_permits a scope role = Inr (\<lparr>sg_scope = scope, sg_role = role\<rparr> \<in> set (wa_grants a))"
  by (simp add: WorkflowActor_permits_def ScopeGrant_init_def identifier_value_def)

lemma ClaimWorkflow_init_id: "claim_ok c \<Longrightarrow> ClaimWorkflow_init c = Inr c"
  by simp

lemma sorted_set_twice [simp]: "sorted_set [x, x] = [x]"
  by (simp add: sorted_set_def)

lemmas sample_step_defs = replay_step_def dict_of_def sample_authority_def sample_actor_def sample_transition_def
  action_role_def permits_known sample_ids create_step_def update_step_def author_step_def review_step_def
  sample_claim_def ClaimWorkflow_init_id claim_ok_def tuple_ok_def sample_descriptions max_workflow_records_def
  max_workflow_artifacts_def opt_str_def Let_def

lemma sample_steps:
  assumes "wb_evidence b = sample_evidence" "wb_artifacts b = [sample_artifact]"
  shows "rfold (replay_step sample_authority b) [] sample_transitions
    = Inr (sample_claim APPROVED 6 [U ''e5''] [U ''log''] [U ''ben'', U ''cyd''])"
proof -
  obtain x where x: "lg_entries sample_evidence = [x]" "le_event x = EvidenceEvent_to_dict sample_report" "le_event_id x = U ''e5''"
    by (rule sample_entry)
  have binds: "evidence_binds (Some x) (sample_transition i a w n \<lparr>wt_reference := r, wt_reference_digest := Some (le_digest x)\<rparr>) c"
    if "cw_claim c = U ''fire''" "cw_scope c = U ''line-3''" "cw_evidence c = []" for i a w n r c
    using that x by (simp add: evidence_binds_def sample_transition_def EvidenceEvent_to_dict_def sample_report_def sample_event_def JText_def)
  have "replay_step sample_authority b [] (sample_transition ''t1'' CREATE ''ada'' 0 \<lparr>wt_statement := Some (U ''burning'')\<rparr>)
      = Inr (sample_claim DRAFT 1 [] [] [])"
    by (simp add: sample_step_defs)
  moreover have "replay_step sample_authority b (sample_claim DRAFT 1 [] [] [])
      (sample_transition ''t2'' BIND_EVIDENCE ''ada'' 1 \<lparr>wt_reference := Some (U ''e5''), wt_reference_digest := Some (le_digest x)\<rparr>)
      = Inr (sample_claim DRAFT 2 [U ''e5''] [] [])"
    using binds by (simp add: sample_step_defs assms x)
  moreover have "replay_step sample_authority b (sample_claim DRAFT 2 [U ''e5''] [] [])
      (sample_transition ''t3'' BIND_ARTIFACT ''ada'' 2 \<lparr>wt_reference := Some (U ''log''), wt_reference_digest := Some (replicate 64 97)\<rparr>)
      = Inr (sample_claim DRAFT 3 [U ''e5''] [U ''log''] [])"
    by (simp add: sample_step_defs assms artifact_binds_def sample_artifact_def)
  moreover have "replay_step sample_authority b (sample_claim DRAFT 3 [U ''e5''] [U ''log''] []) (sample_transition ''t4'' SUBMIT ''ada'' 3)
      = Inr (sample_claim SUBMITTED 4 [U ''e5''] [U ''log''] [])"
    by (simp add: sample_step_defs)
  moreover have "replay_step sample_authority b (sample_claim SUBMITTED 4 [U ''e5''] [U ''log''] []) (sample_transition ''t5'' APPROVE ''ben'' 4)
      = Inr (sample_claim SUBMITTED 5 [U ''e5''] [U ''log''] [U ''ben''])"
    by (simp add: sample_step_defs)
  moreover have "replay_step sample_authority b (sample_claim SUBMITTED 5 [U ''e5''] [U ''log''] [U ''ben'']) (sample_transition ''t6'' APPROVE ''cyd'' 5)
      = Inr (sample_claim APPROVED 6 [U ''e5''] [U ''log''] [U ''ben'', U ''cyd''])"
    by (simp add: sample_step_defs)
  ultimately show ?thesis using x(1) by (simp add: sample_transitions_def)
qed

text \<open>Its bundle, built by \<open>append\<close> on the empty one.\<close>

definition sample_start :: workflow_bundle where
  "sample_start = \<lparr>wb_id = U ''flow-1'', wb_authority = AuthorityPolicy_digest sample_runtime sample_authority,
     wb_evidence = sample_evidence, wb_artifacts = [sample_artifact], wb_records = []\<rparr>"

lemma sample_report_weight: "json_weight sample_runtime (EvidenceEvent_to_dict sample_report) \<le> 5000"
proof -
  have "length (format_timestamp 4000000) = 20" "length (format_timestamp 5000000) = 20" by code_simp+
  moreover have "length (float_str sample_runtime (Fin (3 / 4))) = 5"
    by (simp add: sample_runtime_def) code_simp
  ultimately show ?thesis
    by (simp add: EvidenceEvent_to_dict_def sample_report_def sample_event_def)
qed

lemma digit_length: "0 \<le> n \<Longrightarrow> n < 10 \<Longrightarrow> length (int_str n) = 1"
  by (simp add: int_str_def digits_of.simps)

lemma sample_evidence_weight: "json_weight sample_runtime (EvidenceLedger_to_dict sample_runtime sample_evidence) \<le> 20000"
proof -
  obtain x where x: "lg_entries sample_evidence = [x]" "le_event x = EvidenceEvent_to_dict sample_report" "le_event_id x = U ''e5''"
    "is_hash (le_digest x)" "is_hash (le_previous x)" "le_sequence x = 0"
    by (rule sample_entry)
  have "json_weight sample_runtime (LedgerEntry_to_dict x) \<le> 10000"
    using x(2-6) sample_report_weight by (simp add: LedgerEntry_to_dict_def is_hash_length digit_length)
  moreover have "ledger_head sample_evidence = JStr (le_digest x)" by (simp add: ledger_head_def x(1))
  moreover have "\<exists>g. lg_genesis sample_evidence = JStr g \<and> is_hash g"
    using sample_evidence(5) sample_ledger_runtime
    by (auto simp: ledger_verify_def ledger_versions_def ledger_runtime_def sha256_hex_def split: option.splits if_splits json.splits)
  ultimately show ?thesis
    using x(1,4) sample_evidence(2) by (auto simp: EvidenceLedger_to_dict_def is_hash_length digit_length)
qed

lemma sample_receipt_weight:
  assumes "wr_transition r \<in> set sample_transitions" "is_hash (wr_context r)" "is_hash (wr_previous r)" "is_hash (wr_digest r)"
    "0 \<le> wr_sequence r" "wr_sequence r < 10"
  shows "json_weight sample_runtime (WorkflowReceipt_to_dict r) \<le> 10000"
proof -
  have "is_hash (le_digest (hd (lg_entries sample_evidence)))" by (rule sample_entry) simp
  then have "json_weight sample_runtime (WorkflowTransition_to_dict (wr_transition r)) \<le> 3000"
    using assms(1) by (auto simp: sample_transitions_def sample_transition_def WorkflowTransition_to_dict_def digit_length is_hash_length)
  then show ?thesis
    using assms(2-6) by (simp add: WorkflowReceipt_to_dict_def receipt_pairs_def is_hash_length digit_length)
qed

lemma sample_bundle_weight:
  assumes "\<forall>r \<in> set rs. json_weight sample_runtime (WorkflowReceipt_to_dict r) \<le> 10000" "length rs < 10"
    "is_hash (WorkflowBundle_head sample_runtime (sample_start\<lparr>wb_records := rs\<rparr>))"
  shows "int (length (canonical_bytes sample_runtime (WorkflowBundle_to_dict sample_runtime (sample_start\<lparr>wb_records := rs\<rparr>))))
    \<le> max_workflow_bytes"
proof -
  have "sum_list (map (\<lambda>r. 1 + json_weight sample_runtime (WorkflowReceipt_to_dict r)) rs) \<le> length rs * 10001"
    by (rule sum_list_le) (use assms(1) in auto)
  moreover have "length rs * 10001 \<le> 100010" using assms(2) by simp
  moreover have "is_hash (WorkflowBundle_context sample_runtime b)" "is_hash (AuthorityPolicy_digest sample_runtime sample_authority)" for b
    using sample_hex by (simp_all add: WorkflowBundle_context_def AuthorityPolicy_digest_def sha_json_def sha256_hex_def)
  moreover have "json_weight sample_runtime (ArtifactReference_to_dict sample_artifact) \<le> 3000"
    by (simp add: ArtifactReference_to_dict_def sample_artifact_def int_str_def digits_of.simps)
  moreover note is_hash_length [OF assms(3)]
  ultimately have "json_weight sample_runtime (WorkflowBundle_to_dict sample_runtime (sample_start\<lparr>wb_records := rs\<rparr>)) \<le> 200000"
    using sample_evidence_weight assms(2)
    by (simp add: WorkflowBundle_to_dict_def sample_start_def is_hash_length digit_length o_def)
  then show ?thesis
    using canonical_bytes_weight [of sample_runtime "WorkflowBundle_to_dict sample_runtime (sample_start\<lparr>wb_records := rs\<rparr>)"]
    by (simp add: max_workflow_bytes_def)
qed

lemma sample_start_ok: "bundle_ok sample_runtime sample_start"
proof -
  have start: "sample_start\<lparr>wb_records := []\<rparr> = sample_start" by (simp add: sample_start_def)
  have h: "is_hash (WorkflowBundle_context sample_runtime b)" "is_hash (AuthorityPolicy_digest sample_runtime sample_authority)" for b
    using sample_hex by (simp_all add: WorkflowBundle_context_def AuthorityPolicy_digest_def sha_json_def sha256_hex_def)
  have "WorkflowBundle_head sample_runtime sample_start = WorkflowBundle_context sample_runtime sample_start"
    by (simp add: WorkflowBundle_head_def sample_start_def)
  then have "int (length (canonical_bytes sample_runtime (WorkflowBundle_to_dict sample_runtime sample_start))) \<le> max_workflow_bytes"
    using sample_bundle_weight [of "[]"] h by (simp add: start)
  moreover have "json_finite (WorkflowBundle_to_dict sample_runtime sample_start)"
  proof -
    obtain x where x: "lg_entries sample_evidence = [x]" "le_event x = EvidenceEvent_to_dict sample_report" by (rule sample_entry)
    have "event_ok sample_report" using sample_storable by (simp add: storable_def)
    then have "json_finite (EvidenceEvent_to_dict sample_report)" by (rule EvidenceEvent_to_dict_finite)
    moreover have "\<exists>g. lg_genesis sample_evidence = JStr g"
      using sample_evidence(5) by (auto simp: ledger_verify_def split: option.splits if_splits json.splits)
    ultimately show ?thesis
      using x by (auto simp: WorkflowBundle_to_dict_def EvidenceLedger_to_dict_def LedgerEntry_to_dict_def ledger_head_def sample_start_def)
  qed
  ultimately show ?thesis
    using h sample_evidence(5)
    by (simp add: bundle_ok_def sample_start_def sample_ids max_workflow_artifacts_def max_workflow_records_def)
qed

definition sample_workflow :: workflow_bundle where
  "sample_workflow = projr (WorkflowBundle_append sample_runtime sample_start sample_transitions sample_authority)"

definition sample_state :: workflow_state where
  "sample_state = projr (replay_workflow sample_runtime sample_workflow sample_authority None)"

lemma sample_appended_size: "appended_size sample_runtime sample_start sample_transitions"
unfolding appended_size_def
proof (intro allI impI; elim conjE)
  have len: "length sample_transitions = 6" by (simp add: sample_transitions_def)
  fix new :: "workflow_receipt list"
  assume new: "map wr_transition new = sample_transitions"
    and f: "\<forall>r \<in> set new. is_hash (wr_context r) \<and> is_hash (wr_previous r) \<and> is_hash (wr_digest r)
         \<and> 0 \<le> wr_sequence r \<and> wr_sequence r < int (length (wb_records sample_start) + length sample_transitions)"
  have nl: "length new = 6" using new len by (metis length_map)
  have "\<forall>r \<in> set new. json_weight sample_runtime (WorkflowReceipt_to_dict r) \<le> 10000"
    using f sample_receipt_weight unfolding new [symmetric] by (auto simp: sample_start_def nl)
  moreover have "is_hash (WorkflowBundle_head sample_runtime (sample_start\<lparr>wb_records := new\<rparr>))"
    using f nl by (auto simp: WorkflowBundle_head_def)
  moreover have "wb_records sample_start @ new = new" by (simp add: sample_start_def)
  ultimately show "int (length (canonical_bytes sample_runtime
      (WorkflowBundle_to_dict sample_runtime (sample_start\<lparr>wb_records := wb_records sample_start @ new\<rparr>)))) \<le> max_workflow_bytes"
    using sample_bundle_weight [of new] nl by simp
qed

lemma sample_workflow:
  "WorkflowBundle_append sample_runtime sample_start sample_transitions sample_authority = Inr sample_workflow"
  "replay_workflow sample_runtime sample_workflow sample_authority None = Inr sample_state"
  "ws_claims sample_state = sample_claim APPROVED 6 [U ''e5''] [U ''log''] [U ''ben'', U ''cyd'']"
proof -
  have run: "rfold (replay_step sample_authority sample_start) [] (map wr_transition (wb_records sample_start)) = Inr []"
    by (simp add: sample_start_def)
  have "\<exists>d s. WorkflowBundle_append sample_runtime sample_start sample_transitions sample_authority = Inr d
      \<and> replay_workflow sample_runtime d sample_authority None = Inr s
      \<and> ws_claims s = sample_claim APPROVED 6 [U ''e5''] [U ''log''] [U ''ben'', U ''cyd'']"
    by (rule WorkflowBundle_append_accepts [OF sample_ledger_runtime sample_start_ok _ run sample_steps _ _ sample_appended_size])
      (simp_all add: sample_start_def sample_transitions_def sample_transition_def max_workflow_records_def)
  then show "WorkflowBundle_append sample_runtime sample_start sample_transitions sample_authority = Inr sample_workflow"
    "replay_workflow sample_runtime sample_workflow sample_authority None = Inr sample_state"
    "ws_claims sample_state = sample_claim APPROVED 6 [U ''e5''] [U ''log''] [U ''ben'', U ''cyd'']"
    by (auto simp: sample_workflow_def sample_state_def)
qed

lemma sample_workflow_ok:
  "bundle_ok sample_runtime sample_workflow" "bundle_typed sample_workflow"
  "map wr_transition (wb_records sample_workflow) = sample_transitions" "wb_evidence sample_workflow = sample_evidence"
  "wb_artifacts sample_workflow = [sample_artifact]"
proof -
  note a = WorkflowBundle_append_Inr [OF sample_ledger_runtime sample_start_ok sample_workflow(1)]
  show "bundle_ok sample_runtime sample_workflow" using a(2) .
  show e: "wb_evidence sample_workflow = sample_evidence" "wb_artifacts sample_workflow = [sample_artifact]"
    using a(5,6) by (simp_all add: sample_start_def)
  show t: "map wr_transition (wb_records sample_workflow) = sample_transitions"
    using a(1) by (auto simp: sample_start_def)
  have "\<forall>r \<in> set (wb_records sample_workflow). wr_transition r \<in> set sample_transitions"
    unfolding t [symmetric] by auto
  then show "bundle_typed sample_workflow"
    using e(2) sample_transitions_ok sample_artifact_ok by (auto simp: bundle_typed_def)
qed

text \<open>After its first command the claim is a draft, from which the others lead to the final state.\<close>

lemma sample_created:
  assumes "rfold (replay_step sample_authority b) [] (take 1 sample_transitions) = Inr ms"
  shows "\<exists>c. map_of ms (U ''fire'') = Some c \<and> cw_status c = DRAFT"
proof -
  from assms have "replay_step sample_authority b [] (hd sample_transitions) = Inr ms"
    by (auto simp: sample_transitions_def)
  then have "create_step [] (hd sample_transitions) = Inr ms"
    by (rule replay_step_Inr(2)) (simp add: sample_transitions_def sample_transition_def)
  from create_step_Inr(2) [OF this] show ?thesis by (auto simp: sample_transitions_def sample_transition_def)
qed

lemma sample_split:
  obtains ms where "rfold (replay_step sample_authority sample_workflow) [] (take 1 sample_transitions) = Inr ms"
    "rfold (replay_step sample_authority sample_workflow) ms (drop 1 sample_transitions) = Inr (ws_claims sample_state)"
proof -
  have "rfold (replay_step sample_authority sample_workflow) [] (take 1 sample_transitions @ drop 1 sample_transitions)
      = Inr (ws_claims sample_state)"
    using sample_steps [OF sample_workflow_ok(4,5)] by (simp add: sample_workflow(3))
  then show thesis unfolding rfold_append by (elim rbindE) (rule that)
qed

text \<open>Its receipts are told apart by their transition identifiers.\<close>

lemma plain_str_enc:
  "list_all (\<lambda>c. 32 \<le> c \<and> c < 128 \<and> c \<noteq> 34 \<and> c \<noteq> 92) s \<Longrightarrow> utf8 (str_enc s) = 34 # s @ [34]"
proof -
  assume s: "list_all (\<lambda>c. 32 \<le> c \<and> c < 128 \<and> c \<noteq> 34 \<and> c \<noteq> 92) s"
  then have "concat (map esc s) = s" by (induction s) (simp_all add: esc_def)
  then show ?thesis using s by (simp add: str_enc_def utf8_small list_all_iff)
qed

lemma transition_suffix:
  assumes "wt_id t = i" "list_all (\<lambda>c. 32 \<le> c \<and> c < 128 \<and> c \<noteq> 34 \<and> c \<noteq> 92) i"
  shows "\<exists>p. workflow_link rt c n h t = p @ [34] @ i @ [34, 125, 125]"
proof -
  have "U ''action'' < U ''transition_id''" "U ''actor_id'' < U ''transition_id''" "U ''claim_id'' < U ''transition_id''"
    "U ''expected_revision'' < U ''transition_id''" "U ''reason'' < U ''transition_id''"
    "U ''reference_digest'' < U ''transition_id''" "U ''reference_id'' < U ''transition_id''"
    "U ''scope'' < U ''transition_id''" "U ''statement'' < U ''transition_id''"
    by code_simp+
  then obtain p where p: "canonical_bytes rt (WorkflowTransition_to_dict t)
      = p @ utf8 (str_enc (U ''transition_id'')) @ 58 # canonical_bytes rt (JStr i) @ [125]"
    unfolding WorkflowTransition_to_dict_def
    by (elim exE [OF canonical_bytes_last [of "U ''transition_id''" "JStr i"], rotated -1]) (auto simp: assms(1))
  have "U ''schema_version'' < U ''transition''" "U ''sequence'' < U ''transition''" "U ''context_digest'' < U ''transition''"
    "U ''previous_digest'' < U ''transition''"
    by code_simp+
  then obtain q where "workflow_link rt c n h t
      = q @ utf8 (str_enc (U ''transition'')) @ 58 # canonical_bytes rt (WorkflowTransition_to_dict t) @ [125]"
    unfolding workflow_link_def receipt_pairs_def
    by (elim exE [OF canonical_bytes_last [of "U ''transition''" "WorkflowTransition_to_dict t"], rotated -1]) auto
  then show ?thesis using p plain_str_enc [OF assms(2)] by (simp add: canonical_bytes_JStr)
qed

lemma workflow_seed_suffix:
  "\<exists>p. workflow_seed rt (U ''flow-1'', a, h, xs) = p @ U ''ow-1'' @ [34, 125]"
proof -
  have "U ''kind'' < U ''workflow_id''" "U ''schema_version'' < U ''workflow_id''" "U ''authority_digest'' < U ''workflow_id''"
    "U ''evidence_head'' < U ''workflow_id''" "U ''artifacts'' < U ''workflow_id''"
    by code_simp+
  then obtain p where p: "canonical_bytes rt (context_document (U ''flow-1'') a (JStr h) xs)
      = p @ utf8 (str_enc (U ''workflow_id'')) @ 58 # canonical_bytes rt (JStr (U ''flow-1'')) @ [125]"
    unfolding context_document_def
    by (elim exE [OF canonical_bytes_last [of "U ''workflow_id''" "JStr (U ''flow-1'')"], rotated -1]) auto
  have "utf8 (str_enc (U ''flow-1'')) = 34 # U ''flow-1'' @ [34]" by (rule plain_str_enc) (simp add: U_def)
  then show ?thesis using p by (simp add: canonical_bytes_JStr U_def)
qed

lemma sample_workflow_collision_free:
  "collision_free sample_runtime (bundle_inputs sample_runtime sample_workflow)"
  unfolding bundle_inputs_def sample_workflow_ok(3)
proof (rule workflow.collision_free_inputs)
  have id: "wt_id (sample_transitions ! i) = [116, 49 + i] \<and> i < 6" if "i < length sample_transitions" for i
    using that by (auto simp: sample_transitions_def sample_transition_def U_def less_Suc_eq nth_Cons')
  have link: "\<exists>p. workflow_link sample_runtime c n h (sample_transitions ! i) = p @ [34, 116, 49 + i, 34, 125, 125]"
    if "i < length sample_transitions" for c n h i
    using transition_suffix [of "sample_transitions ! i" "[116, 49 + i]"] id [OF that] by simp
  have small: "i < 6" if "i < length sample_transitions" for i using id [OF that] by blast
  have wid: "wb_id sample_workflow = U ''flow-1''"
    using WorkflowBundle_append_Inr(3) [OF sample_ledger_runtime sample_start_ok sample_workflow(1)] by (simp add: sample_start_def)
  have seed: "\<exists>p. workflow_seed sample_runtime (bundle_chain sample_workflow) = p @ [111, 119, 45, 49, 34, 125]"
    using workflow_seed_suffix by (simp add: bundle_chain_def wid U_def)
  show "rt_sha256 sample_runtime (workflow_link sample_runtime (bundle_chain sample_workflow) (int i) p (sample_transitions ! i))
      \<noteq> rt_sha256 sample_runtime (workflow_seed sample_runtime (bundle_chain sample_workflow))"
    if "i < length sample_transitions" for i p
    by (rule sample_suffix [OF link [OF that] seed]) (use small [OF that] in simp_all)
  show "rt_sha256 sample_runtime (workflow_link sample_runtime (bundle_chain sample_workflow) (int i) p (sample_transitions ! i))
      \<noteq> rt_sha256 sample_runtime (workflow_link sample_runtime (bundle_chain sample_workflow) (int j) q (sample_transitions ! j))"
    if "i < j" "j < length sample_transitions" for i j p q
    by (rule sample_suffix [OF link link]) (use that small [of i] small [of j] in simp_all)
qed

end
