(* ===== verification/Sample_Case.thy ===== *)
theory Sample_Case
  imports Sample_Records
begin

text \<open>
  A decided case at which the properties of journals are applied, in a runtime whose digest spells the bytes after
  the domain of the case documents, so that positions in the journal have different digests.
\<close>

definition case_sample_hash :: "bytes \<Rightarrow> ustr" where
  "case_sample_hash b = concat (map hex_pair (take 32 (drop (length case_domain) b @ replicate 32 0)))"

definition case_runtime :: runtime where
  "case_runtime = sample_runtime\<lparr>rt_sha256 := case_sample_hash\<rparr>"

lemma case_hex [simp]: "is_hash (rt_sha256 case_runtime b)"
  using hex_pairs_ok [of "take 32 (drop (length case_domain) b @ replicate 32 0)"]
  by (simp add: is_hash_def case_sample_hash_def case_runtime_def)

lemma case_ledger_runtime: "ledger_runtime case_runtime"
proof -
  have "repr_contract case_runtime" using sample_repr by (simp add: repr_contract_def case_runtime_def)
  then show ?thesis by (simp add: ledger_runtime_def sha256_hex_def)
qed

lemma case_hash_hex [simp]: "is_hash (case_hash case_runtime tag b)"
  by (simp add: case_hash_def)

definition sample_case_actor :: "string \<Rightarrow> case_kind \<Rightarrow> case_role \<Rightarrow> case_actor" where
  "sample_case_actor i k r = \<lparr>ca_id = U i, ca_kind = k, ca_grants = [\<lparr>cg_scope = U ''line-3'', cg_role = r\<rparr>]\<rparr>"

definition sample_case_authority :: case_authority where
  "sample_case_authority = \<lparr>cau_policy = U ''rules'', cau_actors = [sample_case_actor ''mia'' KIND_MODEL PROPOSE,
     sample_case_actor ''tom'' KIND_TOOL OBSERVE, sample_case_actor ''hal'' KIND_HUMAN EVALUATE,
     sample_case_actor ''pol'' KIND_POLICY DECIDE]\<rparr>"

definition sample_plan :: case_plan where
  "sample_plan = \<lparr>cp_case_id = U ''case-1'', cp_workflow_id = U ''flow-1'', cp_claim_id = U ''fire'', cp_scope = U ''line-3'',
     cp_proposer = U ''mia'', cp_assertion_artifact = U ''log'', cp_assertion_sha256 = replicate 64 97,
     cp_hypothesis = U ''burning'', cp_prediction = U ''hot'', cp_expected_text = U ''90'',
     cp_input_artifact = U ''frame'', cp_input_sha256 = replicate 64 98,
     cp_prediction_sha256 = rt_sha256 case_runtime (utf8 (U ''90'')), cp_test_id = U ''probe'', cp_adapter_id = U ''meter'',
     cp_adapter_version = U ''v1'', cp_comparator = U ''sha256-equality-v1'',
     cp_authority_digest = CaseAuthority_digest case_runtime sample_case_authority\<rparr>"

definition sample_observation :: case_observation where
  "sample_observation = \<lparr>co_plan = CasePlan_digest case_runtime sample_plan, co_request = U ''req-1'', co_observer = U ''tom'',
     co_status = OBSERVED, co_input_sha256 = replicate 64 98,
     co_observed_sha256 = Some (rt_sha256 case_runtime (utf8 (U ''90''))), co_artifact = Some (U ''out''), co_error = None\<rparr>"

definition sample_verdict :: case_verdict where
  "sample_verdict = \<lparr>cv_plan = CasePlan_digest case_runtime sample_plan,
     cv_observation = CaseObservation_digest case_runtime sample_observation, cv_evaluator = U ''hal'', cv_outcome = SUPPORTED\<rparr>"

definition sample_decision :: case_decision where
  "sample_decision = \<lparr>dn_verdict = CaseVerdict_digest case_runtime sample_verdict, dn_decider = U ''pol'',
     dn_disposition = APPROVE_CASE, dn_reason = U ''matched''\<rparr>"

definition sample_records :: "case_record list" where
  "sample_records = [Plan sample_plan, Observation sample_observation, Verdict sample_verdict, Decision sample_decision]"

definition sample_final :: case_loop where
  "sample_final = \<lparr>cl_plan = Some sample_plan, cl_observation = Some sample_observation, cl_verdict = Some sample_verdict,
     cl_decision = Some sample_decision, cl_phase = DECIDED\<rparr>"

lemma case_ids: "is_identifier (U ''mia'')" "is_identifier (U ''tom'')" "is_identifier (U ''hal'')" "is_identifier (U ''pol'')"
  "is_identifier (U ''rules'')" "is_identifier (U ''case-1'')" "is_identifier (U ''frame'')" "is_identifier (U ''probe'')"
  "is_identifier (U ''meter'')" "is_identifier (U ''v1'')" "is_identifier (U ''req-1'')" "is_identifier (U ''out'')"
  by (simp_all add: is_identifier_def ident_first_def ident_char_def U_def)

lemma case_digests [simp]:
  "is_hash (CasePlan_digest case_runtime p)" "is_hash (CaseObservation_digest case_runtime x)"
  "is_hash (CaseVerdict_digest case_runtime v)" "is_hash (CaseAuthority_digest case_runtime a)" "is_hash (case_genesis case_runtime g)"
  by (simp_all add: CasePlan_digest_def CaseObservation_digest_def CaseVerdict_digest_def CaseAuthority_digest_def case_genesis_def)

lemma sample_run: "case_run case_runtime sample_case_authority sample_records sample_final"
  unfolding sample_records_def sample_final_def
proof (rule case_run.decided)
  note defs = may_def find_actor_def sample_case_authority_def sample_case_actor_def sample_ids
  show "plan_sound case_runtime sample_case_authority sample_plan"
    unfolding plan_sound_def by (simp add: sample_plan_def) (simp add: defs)
  show "observation_sound case_runtime sample_case_authority sample_plan sample_observation"
    unfolding observation_sound_def by (simp add: sample_observation_def) (simp add: sample_plan_def defs)
  show "verdict_sound case_runtime sample_case_authority sample_plan sample_observation sample_verdict"
    unfolding verdict_sound_def by (simp add: sample_verdict_def expected_outcome_def)
      (simp add: sample_plan_def sample_observation_def defs)
  show "ruling_sound case_runtime sample_case_authority sample_plan sample_observation sample_verdict sample_decision"
    unfolding ruling_sound_def by (simp add: sample_decision_def)
      (simp add: sample_plan_def sample_observation_def sample_verdict_def defs)
qed

subsection \<open>The journal\<close>

definition sample_journal_start :: case_journal where
  "sample_journal_start = \<lparr>cj_authority = CaseAuthority_digest case_runtime sample_case_authority, cj_receipts = []\<rparr>"

definition sample_journal :: case_journal where
  "sample_journal = projr (CaseJournal_append case_runtime sample_journal_start sample_records sample_case_authority
     (Some (journal_checkpoint case_runtime sample_journal_start)))"

lemma case_digest_lengths [simp]:
  "length (CasePlan_digest case_runtime p) = 64" "length (CaseObservation_digest case_runtime x) = 64"
  "length (CaseVerdict_digest case_runtime v) = 64" "length (CaseAuthority_digest case_runtime a) = 64"
  "length (rt_sha256 case_runtime b) = 64"
  by (simp_all add: is_hash_length)

lemma sample_record_weights:
  "json_weight case_runtime (CasePlan_to_dict sample_plan) \<le> 6000"
  "json_weight case_runtime (CaseObservation_to_dict sample_observation) \<le> 6000"
  "json_weight case_runtime (CaseVerdict_to_dict sample_verdict) \<le> 6000"
  "json_weight case_runtime (CaseDecision_to_dict sample_decision) \<le> 6000"
  by (simp_all add: CasePlan_to_dict_def sample_plan_def CaseObservation_to_dict_def sample_observation_def
      CaseVerdict_to_dict_def sample_verdict_def CaseDecision_to_dict_def sample_decision_def)

lemma sample_record_weight: "r \<in> set sample_records \<Longrightarrow> json_weight case_runtime (record_document r) \<le> 6000"
  using sample_record_weights by (auto simp: sample_records_def)

lemma small_digits: "0 \<le> n \<Longrightarrow> n < 1000 \<Longrightarrow> length (int_str n) \<le> 3"
  by (simp add: int_str_def digits_of.simps)

lemma sample_journal_weight:
  assumes "\<forall>r \<in> set rs. cr_record r \<in> set sample_records \<and> is_hash (cr_previous r) \<and> is_hash (cr_digest r)
      \<and> 0 \<le> cr_sequence r \<and> cr_sequence r < max_case_records" "length rs < 10"
  shows "length (canonical_bytes case_runtime (CaseJournal_to_dict (sample_journal_start\<lparr>cj_receipts := rs\<rparr>))) \<le> max_case_wire_bytes"
proof -
  have "json_weight case_runtime (CaseReceipt_to_dict r) \<le> 8000" if "r \<in> set rs" for r
  proof -
    have "json_weight case_runtime (record_document (cr_record r)) \<le> 6000" "length (int_str (cr_sequence r)) \<le> 3"
      using assms(1) that small_digits [of "cr_sequence r"] by (auto simp: sample_record_weight max_case_records_def)
    then show ?thesis using assms(1) that by (simp add: CaseReceipt_to_dict_def is_hash_length)
  qed
  then have "sum_list (map (\<lambda>r. 1 + json_weight case_runtime (CaseReceipt_to_dict r)) rs) \<le> length rs * 8001"
    by (intro sum_list_le) auto
  moreover have "length rs * 8001 \<le> 80010" using assms(2) by simp
  ultimately have "json_weight case_runtime (CaseJournal_to_dict (sample_journal_start\<lparr>cj_receipts := rs\<rparr>)) \<le> 100000"
    by (simp add: CaseJournal_to_dict_def sample_journal_start_def o_def)
  then show ?thesis
    using canonical_bytes_weight [of case_runtime "CaseJournal_to_dict (sample_journal_start\<lparr>cj_receipts := rs\<rparr>)"]
    by (simp add: max_case_wire_bytes_def)
qed

lemma sample_journal_start_ok: "journal_ok case_runtime sample_journal_start"
proof -
  have "sample_journal_start\<lparr>cj_receipts := []\<rparr> = sample_journal_start" by (simp add: sample_journal_start_def)
  then have "length (canonical_bytes case_runtime (CaseJournal_to_dict sample_journal_start)) \<le> max_case_wire_bytes"
    using sample_journal_weight [of "[]"] by simp
  then show ?thesis by (simp add: journal_ok_def sample_journal_start_def max_case_records_def)
qed

lemma sample_appended_case_size: "appended_case_size case_runtime sample_journal_start sample_records"
unfolding appended_case_size_def
proof (intro allI impI; elim conjE)
  fix new :: "case_receipt list"
  assume new: "map cr_record new = sample_records"
    and f: "\<forall>r \<in> set new. is_hash (cr_previous r) \<and> is_hash (cr_digest r) \<and> 0 \<le> cr_sequence r \<and> cr_sequence r < max_case_records"
  have "length new = 4" using arg_cong [OF new, of length] by (simp add: sample_records_def)
  moreover have "\<forall>r \<in> set new. cr_record r \<in> set sample_records" unfolding new [symmetric] by auto
  moreover have "cj_receipts sample_journal_start @ new = new" by (simp add: sample_journal_start_def)
  ultimately show "length (canonical_bytes case_runtime (CaseJournal_to_dict
      (sample_journal_start\<lparr>cj_receipts := cj_receipts sample_journal_start @ new\<rparr>))) \<le> max_case_wire_bytes"
    using sample_journal_weight [of new] f by simp
qed

lemma sample_journal:
  "CaseJournal_append case_runtime sample_journal_start sample_records sample_case_authority
     (Some (journal_checkpoint case_runtime sample_journal_start)) = Inr sample_journal"
  "map cr_record (cj_receipts sample_journal) = sample_records" "journal_ok case_runtime sample_journal"
  "cj_authority sample_journal = CaseAuthority_digest case_runtime sample_case_authority"
proof -
  have "\<exists>k. CaseJournal_append case_runtime sample_journal_start sample_records sample_case_authority
        (Some (journal_checkpoint case_runtime sample_journal_start)) = Inr k
      \<and> map cr_record (cj_receipts k) = map cr_record (cj_receipts sample_journal_start) @ sample_records"
  proof (rule CaseJournal_append_accepts [OF case_ledger_runtime sample_journal_start_ok _ _ _ _ sample_appended_case_size])
    show "case_run case_runtime sample_case_authority (map cr_record (cj_receipts sample_journal_start)) loop_start"
      by (simp add: sample_journal_start_def case_run.start)
    show "case_run case_runtime sample_case_authority (map cr_record (cj_receipts sample_journal_start) @ sample_records) sample_final"
      using sample_run by (simp add: sample_journal_start_def)
  qed (simp_all add: sample_journal_start_def sample_records_def)
  then show j: "CaseJournal_append case_runtime sample_journal_start sample_records sample_case_authority
     (Some (journal_checkpoint case_runtime sample_journal_start)) = Inr sample_journal"
    and "map cr_record (cj_receipts sample_journal) = sample_records"
    by (auto simp: sample_journal_def sample_journal_start_def)
  note a = CaseJournal_append_Inr [OF case_ledger_runtime sample_journal_start_ok j]
  show "journal_ok case_runtime sample_journal" using a(1) .
  show "cj_authority sample_journal = CaseAuthority_digest case_runtime sample_case_authority"
    using a(2) by (simp add: sample_journal_start_def)
qed

lemma sample_journal_replay:
  "\<exists>s. replay_case case_runtime sample_journal sample_case_authority None = Inr s \<and> cs_phase s = DECIDED
    \<and> cs_decision s = Some sample_decision \<and> cs_outcome s = Some SUPPORTED"
  using replay_case_Inr_iff [OF case_ledger_runtime sample_journal(3), of sample_case_authority None] sample_journal(2,4)
    sample_run by (auto simp: sample_final_def sample_verdict_def)

lemma sample_records_ok: "\<forall>r \<in> set (cj_receipts sample_journal). record_ok case_runtime (cr_record r)"
proof -
  have texts: "text_ok (U ''burning'')" "text_ok (U ''hot'')" "text_ok (U ''90'')" "text_ok (U ''matched'')"
    by (rule text_ok_visible_ascii, code_simp)+
  have w: "length (canonical_bytes case_runtime (CasePlan_to_dict sample_plan)) \<le> max_case_record_bytes"
    "length (canonical_bytes case_runtime (CaseObservation_to_dict sample_observation)) \<le> max_case_record_bytes"
    using canonical_bytes_weight [of case_runtime "CasePlan_to_dict sample_plan"] sample_record_weights(1,2)
      canonical_bytes_weight [of case_runtime "CaseObservation_to_dict sample_observation"]
    by (auto simp: max_case_record_bytes_def)
  have "is_xml_character (U ''90'')" "length (utf8 (U ''90'')) \<le> 4096"
    using texts(3) length_utf8 [of "U ''90''"] by (simp_all add: text_ok_def)
  moreover have "is_hash (replicate 64 98)" by (simp add: is_hash_def hex_digit_def list_all_iff)
  ultimately have "\<forall>r \<in> set sample_records. record_ok case_runtime r"
    using texts w sample_hash_text
    by (simp add: sample_records_def sample_plan_def sample_observation_def sample_verdict_def sample_decision_def
        plan_ok_def observation_ok_def observation_payload_def JOpt_def verdict_ok_def decision_ok_def case_ids sample_ids description_ok_def)
  then show ?thesis unfolding sample_journal(2) [symmetric] by auto
qed

text \<open>The receipts are told apart by their positions.\<close>

lemma case_sample_hash_prefix:
  assumes "case_sample_hash (case_domain @ x @ s) = case_sample_hash (case_domain @ y @ t)" "length x = length y" "length x \<le> 32"
    and "list_all (\<lambda>b. b < 256) (x @ y)"
  shows "x = y"
proof -
  have split: "case_sample_hash (case_domain @ z @ u) = concat (map hex_pair z)
      @ concat (map hex_pair (take (32 - length z) (u @ replicate 32 0)))"
    if "length z \<le> 32" for z u
    using that by (simp add: case_sample_hash_def)
  show ?thesis
    by (rule hex_pairs_inj) (use assms split [of x s] split [of y t] in auto)
qed

lemma sample_journal_collision_free: "collision_free case_runtime (journal_inputs case_runtime sample_journal)"
  unfolding journal_inputs_def sample_journal(2)
proof (rule cases.collision_free_inputs)
  fix i j :: nat and p q :: ustr
  show "rt_sha256 case_runtime (case_link case_runtime (cj_authority sample_journal) (int i) p (sample_records ! i))
      \<noteq> rt_sha256 case_runtime (case_seed case_runtime (cj_authority sample_journal))"
    using case_sample_hash_prefix [of "[82]" "be32 (int i) @ fromhex p @ record_bytes case_runtime (sample_records ! i)" "[71]"
        "fromhex (cj_authority sample_journal)"]
    by (auto simp: case_runtime_def case_link_def case_seed_def U_def)
  assume ij: "i < j" "j < length sample_records"
  then have "i < 4" "j < 4" by (simp_all add: sample_records_def)
  then have b: "be32 (int i) = [0, 0, 0, i]" "be32 (int j) = [0, 0, 0, j]"
    by (simp_all add: be32_def)
  show "rt_sha256 case_runtime (case_link case_runtime (cj_authority sample_journal) (int i) p (sample_records ! i))
      \<noteq> rt_sha256 case_runtime (case_link case_runtime (cj_authority sample_journal) (int j) q (sample_records ! j))"
    using case_sample_hash_prefix [of "[82, 0, 0, 0, i]" "fromhex p @ record_bytes case_runtime (sample_records ! i)"
        "[82, 0, 0, 0, j]" "fromhex q @ record_bytes case_runtime (sample_records ! j)"] ij \<open>i < 4\<close> \<open>j < 4\<close>
    by (auto simp: case_runtime_def case_link_def b U_def)
qed

lemma sample_case_authority_ok: "case_authority_ok case_runtime sample_case_authority"
proof -
  have "json_weight case_runtime (CaseAuthority_to_dict sample_case_authority) \<le> 6000"
    by (simp add: CaseAuthority_to_dict_def sample_case_authority_def sample_case_actor_def CaseActor_to_dict_def CaseGrant_to_dict_def)
  then have "length (canonical_bytes case_runtime (CaseAuthority_to_dict sample_case_authority)) \<le> max_case_authority_bytes"
    using canonical_bytes_weight [of case_runtime "CaseAuthority_to_dict sample_case_authority"]
    by (simp add: max_case_authority_bytes_def)
  then show ?thesis
    by (simp add: case_authority_ok_def) (simp add: sample_case_authority_def sample_case_actor_def case_actor_ok_def case_ids sample_ids)
qed

end
