(* ===== verification/Membership_Lemmas.thy ===== *)
theory Membership_Lemmas
  imports Membership
begin

text \<open>
  Membership proofs are complete and sound: the index proves every receipt it admits and the verifier
  returns it; and any bundle that reads and verifies against the digest of an honest commitment carries
  only receipts of that ledger, at their own positions, unless two of the hashed inputs collide.
\<close>

subsection \<open>Results up to their message\<close>

definition value_of :: "'a result \<Rightarrow> 'a option" where
  "value_of r = (case r of Inl _ \<Rightarrow> None | Inr x \<Rightarrow> Some x)"

lemma value_of_simps [simp]: "value_of (Inl e) = None" "value_of (Inr x) = Some x"
  by (simp_all add: value_of_def)

lemma value_of_Some [simp]: "value_of r = Some x \<longleftrightarrow> r = Inr x"
  by (cases r) simp_all

lemma value_of_rbind: "value_of (rbind a f) = Option.bind (value_of a) (\<lambda>x. value_of (f x))"
  by (cases a) simp_all

lemma value_of_require: "value_of (require b m) = (if b then Some () else None)"
  by (simp add: require_def)

text \<open>The path of a field is only part of a message.\<close>

lemma path_text: "value_of (text_value v p t) = value_of (text_value v q t)"
  by (simp add: text_value_def Let_def split: json.splits)

lemma path_mapping: "value_of (mapping_value v p) = value_of (mapping_value v q)"
  by (simp add: mapping_value_def split: json.splits)

lemma path_only: "value_of (only_fields kvs fs p) = value_of (only_fields kvs fs q)"
  by (simp add: only_fields_def value_of_require)

lemma path_required: "value_of (required_string kvs k p) = value_of (required_string kvs k q)"
  by (simp only: required_string_def path_text [of _ "p @ ''.'' @ k" _ "q @ ''.'' @ k"])

lemma path_enum: "value_of (enum_from_json v f ms p) = value_of (enum_from_json v f ms q)"
  by (simp add: enum_from_json_def split: json.splits option.splits)

lemma path_number: "value_of (number_value v p a b) = value_of (number_value v q a b)"
  by (simp add: number_value_def Let_def split: json.splits option.splits)

lemma path_datetime: "value_of (normalize_datetime d p) = value_of (normalize_datetime d q)"
  by (simp add: normalize_datetime_def Let_def split: option.splits)

lemma path_timestamp: "value_of (parse_timestamp rt v p) = value_of (parse_timestamp rt v q)"
proof (cases v)
  case (JStr s)
  then show ?thesis
    by (simp add: parse_timestamp_def value_of_rbind path_text [of _ p _ q] Let_def option.case_distrib [of value_of]
        prod.case_distrib [of value_of] path_datetime [of _ p q]
        cong: option.case_cong prod.case_cong)
qed (simp_all add: parse_timestamp_def)

lemma path_optional: "value_of (optional_text v p) = value_of (optional_text v q)"
  by (simp add: optional_text_def value_of_rbind path_text [of _ p _ q])

lemma value_of_handler: "value_of (case r of Inl e \<Rightarrow> Inl (f e) | Inr x \<Rightarrow> Inr x) = value_of r"
  by (cases r) simp_all

lemma EvidenceEvent_path: "value_of (EvidenceEvent_from_dict rt v p) = value_of (EvidenceEvent_from_dict rt v q)"
  unfolding EvidenceEvent_from_dict_def value_of_rbind value_of_handler
  by (simp only: path_mapping [of _ p q] path_only [of _ _ p q] path_required [of _ _ p q] path_optional [of _ p q]
      path_enum [of _ _ _ "p @ ''.modality''" "q @ ''.modality''"] path_enum [of _ _ _ "p @ ''.signal''" "q @ ''.signal''"]
      path_number [of _ "p @ ''.confidence''" _ _ "q @ ''.confidence''"]
      path_timestamp [of _ _ "p @ ''.observed_at''" "q @ ''.observed_at''"]
      path_timestamp [of _ _ "p @ ''.ingested_at''" "q @ ''.ingested_at''"]
      path_mapping [of _ "p @ ''.attributes''" "q @ ''.attributes''"])

lemma EvidenceEvent_from_dict_path: "EvidenceEvent_from_dict rt v p = Inr e \<Longrightarrow> EvidenceEvent_from_dict rt v q = Inr e"
  by (metis EvidenceEvent_path value_of_Some)

subsection \<open>Entries of a verified ledger\<close>

lemma LedgerEntry_parse_event:
  assumes "LedgerEntry_from_dict rt (LedgerEntry_to_dict x) = Inr y"
  shows "\<exists>e. EvidenceEvent_from_dict rt (le_event x) ''entry.event'' = Inr e \<and> le_event y = EvidenceEvent_to_dict e"
proof -
  obtain kvs where k: "LedgerEntry_to_dict x = JObj kvs" by (simp add: LedgerEntry_to_dict_def)
  then show ?thesis
    using assms by (auto simp: LedgerEntry_from_dict_def exact_fields_Inr LedgerEntry_init_def split: if_splits)
qed

lemma verify_entries_nth:
  assumes rt: "ledger_runtime rt" "iso_contract rt"
  shows "verify_entries rt v n p ids xs = Some h \<Longrightarrow> i < length xs \<Longrightarrow>
    \<exists>e. EvidenceEvent_from_dict rt (le_event (xs ! i)) ''event'' = Inr e \<and> entry_holds (xs ! i) e
      \<and> le_sequence (xs ! i) = n + int i \<and> le_previous (xs ! i) = (if i = 0 then p else le_digest (xs ! (i - 1)))
      \<and> le_digest (xs ! i) = ledger_digest rt (le_previous (xs ! i)) e (le_sequence (xs ! i)) v"
proof (induction xs arbitrary: n p ids i)
  case (Cons x xs)
  from Cons.prems(1) obtain y e where y: "LedgerEntry_from_dict rt (LedgerEntry_to_dict x) = Inr y"
      "EvidenceEvent_from_dict rt (le_event y) ''event'' = Inr e" "le_sequence y = n" "le_previous y = p"
      "le_digest y = ledger_digest rt p e n v"
    and rest: "verify_entries rt v (n + 1) (le_digest y) (insert (le_event_id y) ids) xs = Some h"
    by (auto split: sum.splits if_splits)
  obtain f where f: "entry_holds x f" "y = x\<lparr>le_event := EvidenceEvent_to_dict f\<rparr>"
    "EvidenceEvent_from_dict rt (le_event y) ''event'' = Inr f"
    using LedgerEntry_parse [OF rt y(1)] by blast
  have ef: "e = f" using y(2) f(3) by simp
  obtain g where g: "EvidenceEvent_from_dict rt (le_event x) ''entry.event'' = Inr g" "le_event y = EvidenceEvent_to_dict g"
    using LedgerEntry_parse_event [OF y(1)] by blast
  have "event_ok g" using g(1) by (rule EvidenceEvent_from_dict_ok)
  then have "EvidenceEvent_from_dict rt (EvidenceEvent_to_dict g) ''event'' = Inr g"
    using EvidenceEvent_roundtrip rt(2) by blast
  then have "EvidenceEvent_from_dict rt (le_event x) ''entry.event'' = Inr f" using g f(3) by simp
  then have parse: "EvidenceEvent_from_dict rt (le_event x) ''event'' = Inr f" by (rule EvidenceEvent_from_dict_path)
  show ?case
  proof (cases i)
    case 0
    then show ?thesis using parse f y ef by (intro exI [of _ f]) simp
  next
    case (Suc j)
    then have "j < length xs" using Cons.prems(2) by simp
    from Cons.IH [OF rest this] Suc f(2) show ?thesis by (cases j) (auto simp: algebra_simps)
  qed
qed simp

lemma verify_entries_finite:
  "verify_entries rt v n p ids xs = Some h \<Longrightarrow> \<forall>x \<in> set xs. json_finite (LedgerEntry_to_dict x)"
proof (induction xs arbitrary: n p ids)
  case (Cons x xs)
  obtain kvs where k: "LedgerEntry_to_dict x = JObj kvs" by (simp add: LedgerEntry_to_dict_def)
  from Cons.prems obtain y q m js where y: "LedgerEntry_from_dict rt (LedgerEntry_to_dict x) = Inr y"
    and rest: "verify_entries rt v m q js xs = Some h"
    by (auto split: sum.splits if_splits)
  from y have "json_finite (le_event x)"
    unfolding k LedgerEntry_from_dict_def using k by (elim rbindE) (auto simp: exact_fields_Inr canonical_json_Inr)
  then show ?case using Cons.IH [OF rest] by (simp add: LedgerEntry_to_dict_def)
qed simp

lemma verified_finite:
  assumes "ledger_runtime rt" "iso_contract rt" "ledger_verify rt l None" "x \<in> set (lg_entries l)"
  shows "json_finite (LedgerEntry_to_dict x)"
  using verify_entries_finite assms(4) assms(3) by (auto simp: ledger_verify_def split: option.splits if_splits)

subsection \<open>The proof index of a verified ledger\<close>

lemma leaf_hash_hex: "ledger_runtime rt \<Longrightarrow> is_hash (leaf_hash rt v x)"
  by (simp add: leaf_hash_def hash_bytes_def ledger_runtime_def sha256_hex_def)

lemma ledger_leaf_hex: "ledger_runtime rt \<Longrightarrow> \<forall>i. is_hash (ledger_leaf rt l i)"
  by (simp add: ledger_leaf_def leaf_hash_hex)

definition ledger_root :: "runtime \<Rightarrow> evidence_ledger \<Rightarrow> ustr" where
  "ledger_root rt l = (if lg_entries l = [] then hash_bytes rt ''E'' []
     else mtree.root rt (ledger_leaf rt l) 0 (int (length (lg_entries l))))"

text \<open>The commitment of a ledger, and the index that holds it.\<close>

definition honest_commitment :: "runtime \<Rightarrow> evidence_ledger \<Rightarrow> ledger_commitment" where
  "honest_commitment rt l = \<lparr>lc_version = lg_version l, lc_genesis = (case lg_genesis l of JStr g \<Rightarrow> g | _ \<Rightarrow> []),
     lc_head = (case ledger_head l of JStr h \<Rightarrow> h | _ \<Rightarrow> []), lc_count = int (length (lg_entries l)), lc_root = ledger_root rt l\<rparr>"

lemma verified_parts:
  assumes rt: "ledger_runtime rt" "iso_contract rt" and v: "ledger_verify rt l None"
  obtains g h where "lg_genesis l = JStr g" "map_of (ledger_versions rt) (lg_version l) = Some g" "is_hash g"
    "ledger_head l = JStr h" "is_hash h" "int (length (lg_entries l)) \<le> max_ledger_entries"
    "verify_entries rt (lg_version l) 0 g {} (lg_entries l) = Some h"
proof -
  from v obtain g h where g: "map_of (ledger_versions rt) (lg_version l) = Some g" "lg_genesis l = JStr g"
      "int (length (lg_entries l)) \<le> max_ledger_entries"
    and h: "verify_entries rt (lg_version l) 0 g {} (lg_entries l) = Some h"
    by (auto simp: ledger_verify_def split: option.splits if_splits)
  have "is_hash g"
    using ledger_versions_genesis [OF g(1)] rt(1) by (simp add: ledger.start_def ledger_runtime_def sha256_hex_def)
  moreover have "h = (if lg_entries l = [] then g else le_digest (last (lg_entries l)))"
    using verify_entries_Some [OF rt h] by blast
  moreover have "is_hash h"
    using verify_entries_Some [OF rt h] calculation(1) rt(1) ledger.head_hex by metis
  moreover have "ledger_head l = JStr h" using calculation(2) g(2) by (simp add: ledger_head_def)
  ultimately show thesis using that [OF g(2,1) _ _ _ g(3) h] by blast
qed

lemma LedgerProofIndex_init_Inr:
  assumes rt: "ledger_runtime rt" "iso_contract rt" and v: "ledger_verify rt (li_ledger idx) None"
  shows "LedgerProofIndex_init rt idx = Inr \<lparr>pi_index = idx, pi_commitment = honest_commitment rt (li_ledger idx),
    pi_tree = (if lg_entries (li_ledger idx) = [] then None
       else Some (ledger_tree rt (li_ledger idx) 0 (int (length (lg_entries (li_ledger idx))))))\<rparr>"
proof -
  let ?l = "li_ledger idx"
  obtain g h where l: "lg_genesis ?l = JStr g" "map_of (ledger_versions rt) (lg_version ?l) = Some g" "is_hash g"
    "ledger_head ?l = JStr h" "is_hash h" "int (length (lg_entries ?l)) \<le> max_ledger_entries"
    using verified_parts [OF rt v] by blast
  have r: "is_hash (ledger_root rt ?l)"
    using rt(1) mtree.root_hex ledger_leaf_hex
    by (auto simp: ledger_root_def hash_bytes_def ledger_runtime_def sha256_hex_def)
  have tree: "node_digest (ledger_tree rt ?l 0 (int (length (lg_entries ?l)))) = ledger_root rt ?l" if "lg_entries ?l \<noteq> []"
    using that by (simp add: ledger_tree_def ledger_root_def mtree.root_def node_hash_nh)
  have empty: "ledger_root rt ?l = hash_bytes rt ''E'' []" "h = g" if "lg_entries ?l = []"
    using that l(1,4) by (simp_all add: ledger_root_def ledger_head_def)
  show ?thesis
    using l r tree empty
    by (cases "lg_entries ?l = []")
      (simp_all add: LedgerProofIndex_init_def Let_def LedgerCommitment_init_def honest_commitment_def hash_value_def count_value_def)
qed

subsection \<open>Completeness\<close>

lemma node_digests_hex:
  assumes "ledger_runtime rt" "\<forall>i. is_hash (leaves i)"
  shows "is_hash (node_digest (build_tree (node_hash rt) leaves start cnt))"
  using mtree.root_hex [OF assms] by (simp add: mtree.root_def node_hash_nh)

lemma sibling_path_hex:
  assumes rt: "ledger_runtime rt" and hex: "\<forall>i. is_hash (leaves i)"
  shows "\<forall>s \<in> set (sibling_path (build_tree (node_hash rt) leaves start cnt) pos). is_hash s"
  using hex
proof (induction "node_hash rt" leaves start cnt arbitrary: pos rule: build_tree.induct)
  case (1 leaves start cnt)
  show ?case
  proof (cases "cnt \<le> 1")
    case True
    then show ?thesis by (simp add: build_tree.simps [of _ leaves start cnt])
  next
    case False
    then show ?thesis
      using 1(1) [OF False refl 1(3)] 1(2) [OF False refl refl 1(3)] node_digests_hex [OF rt 1(3)]
      by (simp add: build_tree.simps [of _ leaves start cnt] Let_def)
  qed
qed

lemma receipt_sibling_bound: "cnt \<le> max_ledger_entries \<Longrightarrow> length (route_loop pos cnt) \<le> max_siblings"
  unfolding max_siblings_def by (rule route_length) (simp add: max_ledger_entries_def)

definition proof_of :: "runtime \<Rightarrow> evidence_ledger \<Rightarrow> int \<Rightarrow> member_proof" where
  "proof_of rt l seq = \<lparr>mp_entry = lg_entries l ! nat seq,
     mp_siblings = rev (sibling_path (ledger_tree rt l 0 (int (length (lg_entries l)))) seq)\<rparr>"

lemma proof_of_siblings:
  assumes "ledger_runtime rt"
  shows "\<forall>s \<in> set (mp_siblings (proof_of rt l seq)). is_hash s"
    "length (mp_siblings (proof_of rt l seq)) = length (route_loop seq (int (length (lg_entries l))))"
  using sibling_path_hex [OF assms ledger_leaf_hex [OF assms, of l]]
  by (simp_all add: proof_of_def ledger_tree_def sibling_path_length)

lemma rmap_hash_JStr: "\<forall>s \<in> set ss. is_hash s \<Longrightarrow> rmap (\<lambda>v. hash_value v path) (map JStr ss) = Inr ss"
  by (induction ss) (simp_all add: hash_value_def)

lemma prove_Inr:
  assumes rt: "ledger_runtime rt" "iso_contract rt" and v: "ledger_verify rt (li_ledger idx) None"
    and p: "LedgerProofIndex_init rt idx = Inr P"
    and seq: "0 \<le> seq" "seq < int (length (lg_entries (li_ledger idx)))"
    and raw: "receipt_bytes rt (lg_entries (li_ledger idx) ! nat seq) = Inr raw"
  shows "prove rt P seq = Inr \<lparr>mb_commitment = honest_commitment rt (li_ledger idx), mb_members = [proof_of rt (li_ledger idx) seq]\<rparr>"
proof -
  let ?l = "li_ledger idx" and ?n = "int (length (lg_entries (li_ledger idx)))"
  have ne: "lg_entries ?l \<noteq> []" using seq by auto
  then have P: "P = \<lparr>pi_index = idx, pi_commitment = honest_commitment rt ?l, pi_tree = Some (ledger_tree rt ?l 0 ?n)\<rparr>"
    using p LedgerProofIndex_init_Inr [OF rt v] by simp
  have n: "?n \<le> max_ledger_entries" using verified_parts [OF rt v] by blast
  have member: "proof_member rt P seq = Inr (proof_of rt ?l seq)"
    using proof_of_siblings [OF rt(1), of ?l seq] receipt_sibling_bound [OF n, of seq] raw seq rmap_hash_JStr
    by (simp add: proof_member_def P count_value_def honest_commitment_def LedgerMemberProof_init_def proof_of_def)
  have size: "int (length raw) \<le> max_receipt_bytes" using raw by (auto simp: receipt_bytes_def Let_def)
  obtain g h where "verify_entries rt (lg_version ?l) 0 g {} (lg_entries ?l) = Some h" using verified_parts [OF rt v] by blast
  moreover have "nat seq < length (lg_entries ?l)" using seq by simp
  ultimately obtain e where "le_sequence (lg_entries ?l ! nat seq) = 0 + int (nat seq)" using verify_entries_nth [OF rt] by blast
  then have s: "le_sequence (lg_entries ?l ! nat seq) = seq" using seq by simp
  have "bundle_members rt ?n (- 1) 0 [proof_of rt ?l seq] = Inr ()"
    using proof_of_siblings(2) [OF rt(1), of ?l seq] raw size s seq by (simp add: proof_of_def route_def)
  then show ?thesis
    using member by (simp add: prove_def MembershipBundle_init_def P) (simp add: honest_commitment_def)
qed

lemma commitment_digest_hex: "ledger_runtime rt \<Longrightarrow> is_hash (commitment_digest rt c)"
  by (simp add: commitment_digest_def hash_bytes_def ledger_runtime_def sha256_hex_def)

lemma verify_member_honest:
  assumes rt: "ledger_runtime rt" "iso_contract rt" and v: "ledger_verify rt l None"
    and seq: "0 \<le> seq" "seq < int (length (lg_entries l))"
  shows "verify_member rt (honest_commitment rt l) (proof_of rt l seq) = Inr ()"
proof -
  let ?x = "lg_entries l ! nat seq" and ?n = "int (length (lg_entries l))"
  obtain g h where g: "lg_genesis l = JStr g" "ledger_head l = JStr h"
    and ver: "verify_entries rt (lg_version l) 0 g {} (lg_entries l) = Some h"
    using verified_parts [OF rt v] by blast
  obtain e where e: "EvidenceEvent_from_dict rt (le_event ?x) ''event'' = Inr e" "le_sequence ?x = seq"
    "le_previous ?x = (if nat seq = 0 then g else le_digest (lg_entries l ! (nat seq - 1)))"
    "le_digest ?x = ledger_digest rt (le_previous ?x) e (le_sequence ?x) (lg_version l)"
  proof -
    have "nat seq < length (lg_entries l)" "0 + int (nat seq) = seq" using seq by simp_all
    then show thesis using verify_entries_nth [OF rt ver, of "nat seq"] that by metis
  qed
  have first: "le_previous (lg_entries l ! 0) = g" if "seq = 0" using e(3) that by simp
  have last: "le_digest ?x = h" if "seq = ?n - 1"
  proof -
    have "lg_entries l \<noteq> []" "nat seq = length (lg_entries l) - 1" using seq that by auto
    then show ?thesis using g by (simp add: ledger_head_def last_conv_nth)
  qed
  have "climb (mtree.nh rt) (ledger_leaf rt l (0 + seq)) (mtree.steps seq ?n (rev (sibling_path (build_tree (mtree.nh rt) (ledger_leaf rt l) 0 ?n) seq)))
      = mtree.root rt (ledger_leaf rt l) 0 ?n"
    using seq by (rule mtree.climb_complete)
  then have climb: "climb (node_hash rt) (leaf_hash rt (lg_version l) ?x) (zip (rev (route_loop seq ?n)) (mp_siblings (proof_of rt l seq)))
      = ledger_root rt l"
    using seq by (auto simp: mtree.steps_def proof_of_def ledger_tree_def node_hash_nh ledger_leaf_def ledger_root_def)
  show ?thesis
    using e last g seq climb first proof_of_siblings(2) [OF rt(1), of l seq]
    by (simp add: verify_member_def Let_def honest_commitment_def route_def) (simp add: proof_of_def)
qed

lemma membership_complete:
  assumes rt: "ledger_runtime rt" "iso_contract rt" and v: "ledger_verify rt (li_ledger idx) None"
    and seq: "0 \<le> seq" "seq < int (length (lg_entries (li_ledger idx)))"
    and raw: "receipt_bytes rt (lg_entries (li_ledger idx) ! nat seq) = Inr raw"
  shows "\<exists>P b. LedgerProofIndex_init rt idx = Inr P \<and> prove rt P seq = Inr b
    \<and> verify_ledger_membership rt b (commitment_digest rt (pi_commitment P)) = Inr [lg_entries (li_ledger idx) ! nat seq]"
proof -
  obtain P where p: "LedgerProofIndex_init rt idx = Inr P" "pi_commitment P = honest_commitment rt (li_ledger idx)"
    using LedgerProofIndex_init_Inr [OF rt v] by simp
  show ?thesis
    using prove_Inr [OF rt v p(1) seq raw] p verify_member_honest [OF rt v seq] commitment_digest_hex [OF rt(1)]
    by (simp add: verify_ledger_membership_def hash_value_def) (simp add: proof_of_def)
qed

subsection \<open>Soundness\<close>

text \<open>The inputs hashed for a commitment, for a leaf, and while verifying a bundle.\<close>

definition commitment_input :: "runtime \<Rightarrow> ledger_commitment \<Rightarrow> bytes" where
  "commitment_input rt c = membership_domain @ U ''C'' @ canonical_bytes rt (JObj (commitment_body c))"

definition leaf_input :: "runtime \<Rightarrow> ustr \<Rightarrow> ledger_entry \<Rightarrow> bytes" where
  "leaf_input rt v x = membership_domain @ U ''L'' @ leaf_content rt v x"

definition member_inputs :: "runtime \<Rightarrow> ledger_commitment \<Rightarrow> member_proof \<Rightarrow> bytes set" where
  "member_inputs rt c m = insert (leaf_input rt (lc_version c) (mp_entry m))
     (mtree.climb_inputs rt (leaf_hash rt (lc_version c) (mp_entry m))
        (mtree.steps (le_sequence (mp_entry m)) (lc_count c) (mp_siblings m)))"

definition ledger_tree_inputs :: "runtime \<Rightarrow> evidence_ledger \<Rightarrow> bytes set" where
  "ledger_tree_inputs rt l = (leaf_input rt (lg_version l)) ` set (lg_entries l)
     \<union> mtree.tree_inputs rt (ledger_leaf rt l) 0 (int (length (lg_entries l)))"

definition membership_inputs :: "runtime \<Rightarrow> evidence_ledger \<Rightarrow> membership_bundle \<Rightarrow> bytes set" where
  "membership_inputs rt l b = {commitment_input rt (honest_commitment rt l), commitment_input rt (mb_commitment b)}
     \<union> ledger_tree_inputs rt l \<union> (\<Union>m \<in> set (mb_members b). member_inputs rt (mb_commitment b) m)"

lemma commitment_input_inj:
  assumes "repr_contract rt" "commitment_input rt c = commitment_input rt d"
  shows "c = d"
proof -
  have "canon (JObj (commitment_body c)) = canon (JObj (commitment_body d))"
    by (rule canonical_bytes_inj [OF assms(1)]) (use assms(2) in \<open>simp_all add: commitment_input_def commitment_body_def\<close>)
  then show ?thesis
    unfolding commitment_body_def by (subst (asm) canon_JObj_eq_iff) (simp_all add: ledger_commitment.equality)
qed

text \<open>What a bundle that was read satisfies.\<close>

definition bundle_wellformed :: "membership_bundle \<Rightarrow> bool" where
  "bundle_wellformed b \<longleftrightarrow> (\<forall>m \<in> set (mb_members b). 0 \<le> le_sequence (mp_entry m)
      \<and> le_sequence (mp_entry m) < lc_count (mb_commitment b)
      \<and> length (mp_siblings m) = length (route_loop (le_sequence (mp_entry m)) (lc_count (mb_commitment b)))
      \<and> (\<forall>s \<in> set (mp_siblings m). is_hash s) \<and> json_finite (LedgerEntry_to_dict (mp_entry m)))
    \<and> sorted_wrt (<) (map (\<lambda>m. le_sequence (mp_entry m)) (mb_members b))"

lemma rmap_hash_Inr: "rmap (\<lambda>v. hash_value v path) vs = Inr hs \<Longrightarrow> vs = map JStr hs \<and> (\<forall>s \<in> set hs. is_hash s)"
proof (induction vs arbitrary: hs)
  case (Cons v vs)
  then show ?case by auto
qed simp

lemma LedgerMemberProof_init_hex: "LedgerMemberProof_init rt x ss = Inr m \<Longrightarrow> \<forall>s \<in> set (mp_siblings m). is_hash s"
  by (auto simp: LedgerMemberProof_init_def dest!: rmap_hash_Inr)

lemma receipt_bytes_finite: "receipt_bytes rt x = Inr raw \<Longrightarrow> json_finite (LedgerEntry_to_dict x)"
  by (auto simp: receipt_bytes_def Let_def membership_canonical_def canonical_json_Inr)

lemma bundle_members_Inr:
  "bundle_members rt cnt previous used ms = Inr u \<Longrightarrow> - 1 \<le> previous \<Longrightarrow>
    (\<forall>m \<in> set ms. previous < le_sequence (mp_entry m) \<and> le_sequence (mp_entry m) < cnt
       \<and> length (mp_siblings m) = length (route_loop (le_sequence (mp_entry m)) cnt)
       \<and> json_finite (LedgerEntry_to_dict (mp_entry m)))
    \<and> sorted_wrt (<) (map (\<lambda>m. le_sequence (mp_entry m)) ms)"
proof (induction ms arbitrary: previous used)
  case (Cons m ms)
  from Cons.prems obtain d raw where m: "previous < le_sequence (mp_entry m)" "route (le_sequence (mp_entry m)) cnt = Inr d"
      "length (mp_siblings m) = length (d :: bool list)" "json_finite (LedgerEntry_to_dict (mp_entry m))"
    and rest: "bundle_members rt cnt (le_sequence (mp_entry m)) (used + int (length (raw :: bytes))) ms = Inr u"
    unfolding bundle_members.simps by (elim rbindE) (auto dest: receipt_bytes_finite)
  have r: "le_sequence (mp_entry m) < cnt" "length d = length (route_loop (le_sequence (mp_entry m)) cnt)"
    using m(2) by (auto simp: route_def split: if_splits)
  from Cons.IH [OF rest] m r Cons.prems(2) show ?case by fastforce
qed simp

lemma MembershipBundle_from_dict_wellformed:
  assumes "MembershipBundle_from_dict rt v = Inr b"
  shows "bundle_wellformed b"
proof -
  from assms obtain ms c members where members: "rmap (LedgerMemberProof_from_dict rt) ms = Inr members"
    and init: "MembershipBundle_init rt c members = Inr b"
    unfolding MembershipBundle_from_dict_def by (elim rbindE) blast
  have b: "mb_members b = members" "bundle_members rt (lc_count (mb_commitment b)) (- 1) 0 members = Inr ()"
    using init by (auto simp: MembershipBundle_init_def)
  have "\<forall>m \<in> set members. \<forall>s \<in> set (mp_siblings m). is_hash s"
  proof
    fix m assume "m \<in> set members"
    then obtain j where "LedgerMemberProof_from_dict rt j = Inr m"
      using rmap_Inr_elem_rev [OF members] by blast
    then show "\<forall>s \<in> set (mp_siblings m). is_hash s"
      unfolding LedgerMemberProof_from_dict_def by (elim rbindE) (blast dest: LedgerMemberProof_init_hex)
  qed
  then show ?thesis
    using bundle_members_Inr [OF b(2)] b(1) by (auto simp: bundle_wellformed_def)
qed

lemma verify_member_climb:
  assumes "verify_member rt c m = Inr u"
  shows "climb (node_hash rt) (leaf_hash rt (lc_version c) (mp_entry m))
    (mtree.steps (le_sequence (mp_entry m)) (lc_count c) (mp_siblings m)) = lc_root c"
  using assms unfolding verify_member_def Let_def
  by (elim rbindE) (auto simp: route_def mtree.steps_def split: if_splits)

text \<open>Without a collision, a leaf hash determines the receipt up to the order of object members.\<close>

lemma leaf_hash_canon:
  assumes rep: "repr_contract rt" and eq: "leaf_hash rt v x = leaf_hash rt v y" and cf: "collision_free rt S"
    and mem: "leaf_input rt v x \<in> S" "leaf_input rt v y \<in> S"
    and fin: "json_finite (LedgerEntry_to_dict x)" "json_finite (LedgerEntry_to_dict y)"
  shows "canon (LedgerEntry_to_dict x) = canon (LedgerEntry_to_dict y)"
proof -
  have "leaf_input rt v x = leaf_input rt v y"
  proof (rule collision_freeD [OF cf])
    show "rt_sha256 rt (leaf_input rt v x) = rt_sha256 rt (leaf_input rt v y)"
      using eq by (simp add: leaf_hash_def hash_bytes_def leaf_input_def)
  qed (fact mem)+
  then have eq: "canonical_bytes rt (JObj [(U ''ledger_version'', JStr v), (U ''receipt'', LedgerEntry_to_dict x)])
      = canonical_bytes rt (JObj [(U ''ledger_version'', JStr v), (U ''receipt'', LedgerEntry_to_dict y)])"
    by (simp add: leaf_input_def leaf_content_def)
  have "map canon (map snd [(U ''ledger_version'', JStr v), (U ''receipt'', LedgerEntry_to_dict x)])
    = map canon (map snd [(U ''ledger_version'', JStr v), (U ''receipt'', LedgerEntry_to_dict y)])"
    by (rule canonical_bytes_JObj_eq [OF rep _ _ eq]) (use fin in simp_all)
  then show ?thesis by simp
qed

theorem membership_sound:
  assumes rt: "ledger_runtime rt" "iso_contract rt" and v: "ledger_verify rt l None"
    and b: "bundle_wellformed b"
    and verified: "verify_ledger_membership rt b (commitment_digest rt (honest_commitment rt l)) = Inr xs"
    and cf: "collision_free rt (membership_inputs rt l b)"
  shows "mb_commitment b = honest_commitment rt l \<and> sorted_wrt (<) (map le_sequence xs)
    \<and> (\<forall>x \<in> set xs. 0 \<le> le_sequence x \<and> le_sequence x < int (length (lg_entries l))
        \<and> canon (LedgerEntry_to_dict x) = canon (LedgerEntry_to_dict (lg_entries l ! nat (le_sequence x))))"
proof -
  let ?c = "honest_commitment rt l" and ?n = "int (length (lg_entries l))"
  have rep: "repr_contract rt" using rt(1) by (simp add: ledger_runtime_def)
  have digest: "commitment_digest rt (mb_commitment b) = commitment_digest rt ?c"
    and members: "\<forall>m \<in> set (mb_members b). verify_member rt (mb_commitment b) m = Inr ()"
    and xs: "xs = map mp_entry (mb_members b)"
  proof -
    from verified obtain us where us: "rmap (verify_member rt (mb_commitment b)) (mb_members b) = Inr us"
        "commitment_digest rt (mb_commitment b) = commitment_digest rt ?c" "xs = map mp_entry (mb_members b)"
      unfolding verify_ledger_membership_def by (elim rbindE) auto
    show "commitment_digest rt (mb_commitment b) = commitment_digest rt ?c" "xs = map mp_entry (mb_members b)"
      using us by simp_all
    show "\<forall>m \<in> set (mb_members b). verify_member rt (mb_commitment b) m = Inr ()"
    proof
      fix m assume "m \<in> set (mb_members b)"
      from rmap_Inr_elem [OF us(1) this] show "verify_member rt (mb_commitment b) m = Inr ()" by auto
    qed
  qed
  have "commitment_input rt (mb_commitment b) = commitment_input rt ?c"
  proof (rule collision_freeD [OF cf])
    show "rt_sha256 rt (commitment_input rt (mb_commitment b)) = rt_sha256 rt (commitment_input rt ?c)"
      using digest by (simp add: commitment_digest_def hash_bytes_def commitment_input_def)
  qed (simp_all only: membership_inputs_def Un_iff insert_iff simp_thms)
  then have c: "mb_commitment b = ?c" by (rule commitment_input_inj [OF rep])
  have entry: "canon (LedgerEntry_to_dict (mp_entry m)) = canon (LedgerEntry_to_dict (lg_entries l ! nat (le_sequence (mp_entry m))))"
    if m: "m \<in> set (mb_members b)" for m
  proof -
    let ?x = "mp_entry m" and ?s = "le_sequence (mp_entry m)"
    have s: "0 \<le> ?s" "?s < ?n" "length (mp_siblings m) = length (route_loop ?s ?n)" "\<forall>h \<in> set (mp_siblings m). is_hash h"
      using b m c by (auto simp: bundle_wellformed_def honest_commitment_def)
    have root: "lc_root ?c = mtree.root rt (ledger_leaf rt l) 0 ?n" "lc_count ?c = ?n" "lc_version ?c = lg_version l"
      using s(1,2) by (auto simp: honest_commitment_def ledger_root_def)
    have "climb (mtree.nh rt) (leaf_hash rt (lg_version l) ?x) (mtree.steps ?s ?n (mp_siblings m)) = mtree.root rt (ledger_leaf rt l) 0 ?n"
      using verify_member_climb [of rt ?c m] members m c root by (simp add: node_hash_nh)
    moreover have "collision_free rt (mtree.tree_inputs rt (ledger_leaf rt l) 0 ?n
        \<union> mtree.climb_inputs rt (leaf_hash rt (lg_version l) ?x) (mtree.steps ?s ?n (mp_siblings m)))"
      by (rule collision_free_subset [OF cf])
        (use m c root in \<open>auto simp: membership_inputs_def ledger_tree_inputs_def member_inputs_def\<close>)
    ultimately have "leaf_hash rt (lg_version l) ?x = ledger_leaf rt l (0 + ?s)"
      using mtree.climb_sound [OF rt(1) s(1,2) leaf_hash_hex [OF rt(1)] s(3,4) _ _ ledger_leaf_hex [OF rt(1)]] by blast
    then have eq: "leaf_hash rt (lg_version l) ?x = leaf_hash rt (lg_version l) (lg_entries l ! nat ?s)"
      by (simp add: ledger_leaf_def)
    have mem: "leaf_input rt (lg_version l) ?x \<in> membership_inputs rt l b"
      "leaf_input rt (lg_version l) (lg_entries l ! nat ?s) \<in> membership_inputs rt l b"
      using m c root s by (auto simp: membership_inputs_def member_inputs_def ledger_tree_inputs_def)
    have fin: "json_finite (LedgerEntry_to_dict ?x)" "json_finite (LedgerEntry_to_dict (lg_entries l ! nat ?s))"
      using b m verified_finite [OF rt v, of "lg_entries l ! nat ?s"] s(1,2) by (simp_all add: bundle_wellformed_def)
    show ?thesis by (rule leaf_hash_canon [OF rep eq cf mem fin])
  qed
  show ?thesis
    using c entry b xs by (auto simp: bundle_wellformed_def honest_commitment_def o_def)
qed

end
