(* ===== verification/Preflight.thy ===== *)
theory Preflight
  imports Membership_Lemmas Json_Size
begin

text \<open>
  The admission of JSON graphs by the membership documents: every value that the freezing of attributes accepts passes
  the walk of \<open>_preflight\<close>, in at most twice its nodes and at most its canonical bytes and one byte for each
  node. So every receipt of a built ledger up to 16 MiB is admitted.
\<close>

lemma length_utf8_ge: "length s \<le> length (utf8 s)"
proof (induction s)
  case (Cons c s)
  have "1 \<le> length (utf8_char c)" by (simp add: utf8_char_def)
  then show ?case using Cons by (simp add: utf8_def)
qed (simp add: utf8_def)

lemma str_enc_ge: "2 + length (utf8 s) \<le> length (utf8 (str_enc s))"
proof -
  have one: "length (utf8 [c]) \<le> length (utf8 (esc c))" for c
    by (auto simp: esc_def utf8_def utf8_char_def hex_char_def)
  have "length (utf8 s) \<le> length (utf8 (concat (map esc s)))"
  proof (induction s)
    case (Cons c s)
    then show ?case using one [of c] utf8_app [of "[c]" s] by (simp add: utf8_app)
  qed simp
  moreover have "utf8 (str_enc s) = 34 # utf8 (concat (map esc s)) @ [34]"
    by (simp add: str_enc_def utf8_app) (simp add: utf8_def utf8_char_def)
  ultimately show ?thesis by simp
qed

lemma xml_scalar: "is_xml_character s \<Longrightarrow> list_all unicode_scalar s"
  by (auto simp: is_xml_character_def unicode_scalar_def list_all_iff)

lemma text_size_Inr:
  assumes "is_xml_character s" "int (length (utf8 s)) \<le> remaining"
  shows "text_size s remaining = Inr (int (length (utf8 s)))"
  using assms xml_scalar [OF assms(1)] length_utf8_ge [of s] by (simp add: text_size_def require_def)

text \<open>The bytes of the keys, and of the members, of an object.\<close>

definition keys_bytes :: "(ustr \<times> json) list \<Rightarrow> int" where
  "keys_bytes kvs = (\<Sum>kv \<leftarrow> kvs. int (length (utf8 (fst kv))))"

definition enc_bytes :: "runtime \<Rightarrow> json \<Rightarrow> int" where
  "enc_bytes rt v = int (length (utf8 (enc rt v)))"

lemma utf8_simps: "utf8 (c # s) = utf8_char c @ utf8 s" "utf8 [] = []"
  by (simp_all add: utf8_def)

lemma utf8_char_ascii: "c < 128 \<Longrightarrow> utf8_char c = [c]"
  by (simp add: utf8_char_def)

lemma items_bytes:
  "c < 128 \<Longrightarrow> (\<Sum>x \<leftarrow> xs. int (length (utf8 (f x)))) + 1 \<le> int (length (utf8 (items f c xs)))"
  by (induction f c xs rule: items.induct) (auto simp: utf8_app utf8_simps utf8_char_ascii)

lemma enc_bytes_JArr: "(\<Sum>x \<leftarrow> xs. enc_bytes rt x) + 2 \<le> enc_bytes rt (JArr xs)"
  using items_bytes [of 93 "enc rt" xs]
  by (simp add: enc_bytes_def utf8_simps utf8_char_ascii)

lemma enc_bytes_JObj: "keys_bytes kvs + (\<Sum>kv \<leftarrow> kvs. enc_bytes rt (snd kv)) + 2 \<le> enc_bytes rt (JObj kvs)"
proof -
  have "int (length (utf8 (fst kv))) + enc_bytes rt (snd kv) \<le> int (length (utf8 (str_enc (fst kv) @ 58 # enc rt (snd kv))))" for kv
    using str_enc_ge [of "fst kv"] by (simp add: utf8_app utf8_simps utf8_char_ascii enc_bytes_def)
  then have "(\<Sum>kv \<leftarrow> kvs. int (length (utf8 (fst kv))) + enc_bytes rt (snd kv))
      \<le> (\<Sum>kv \<leftarrow> kvs. int (length (utf8 (str_enc (fst kv) @ 58 # enc rt (snd kv)))))"
    by (intro sum_list_mono)
  then show ?thesis
    using items_bytes [of 125 "\<lambda>kv. str_enc (fst kv) @ 58 # enc rt (snd kv)" kvs]
    by (simp add: enc_bytes_def keys_bytes_def sum_list_addf utf8_simps utf8_char_ascii)
qed

lemma key_sizes_Inr:
  "\<forall>k \<in> set (map fst kvs). is_xml_character k \<Longrightarrow> n + keys_bytes kvs \<le> max_bundle_bytes
    \<Longrightarrow> key_sizes n kvs = Inr (n + keys_bytes kvs)"
proof (induction n kvs rule: key_sizes.induct)
  case (2 n k v kvs)
  have "0 \<le> keys_bytes kvs" unfolding keys_bytes_def by (rule sum_list_nonneg) auto
  then have "text_size k (max_bundle_bytes - n) = Inr (int (length (utf8 k)))"
    using 2(2,3) by (intro text_size_Inr) (simp_all add: keys_bytes_def)
  then show ?case using 2 by (simp add: keys_bytes_def algebra_simps)
qed (simp add: keys_bytes_def)

lemma freeze_budget:
  "freeze sc d b v = Inr b' \<Longrightarrow> b' + 1 \<le> b"
  "freeze_items sc d b xs = Inr b' \<Longrightarrow> b' + int (length xs) \<le> b"
  "freeze_members sc d b kvs = Inr b' \<Longrightarrow> b' + int (length kvs) \<le> b"
proof (induction sc d b v and sc d b xs and sc d b kvs arbitrary: b' and b' and b' rule: freeze_freeze_items_freeze_members.induct)
  case (1 sc d b v)
  from 1(3) have "b \<noteq> 0" "\<not> d > max_attribute_depth" by (auto simp: freeze.simps [of sc d b v] split: if_splits)
  with 1 show ?case
    by (cases v) (fastforce simp: freeze.simps [of sc d b] split: if_splits)+
qed (fastforce elim!: rbindE split: if_splits)+

lemma enc_bytes_simps:
  "enc_bytes rt JNull = 4" "4 \<le> enc_bytes rt (JBool b)" "int (length (int_str i)) \<le> enc_bytes rt (JInt i)"
  "int (length (float_str rt x)) \<le> enc_bytes rt (JFloat x)" "int (length (utf8 s)) + 2 \<le> enc_bytes rt (JStr s)"
  using length_utf8_ge [of "int_str i"] length_utf8_ge [of "float_str rt x"] str_enc_ge [of s]
  by (simp_all add: enc_bytes_def U_def utf8_simps utf8_char_ascii)

text \<open>Every counted value takes at least one byte.\<close>

lemma freeze_bytes:
  assumes "repr_contract rt"
  shows "freeze True d b v = Inr b' \<Longrightarrow> b - b' \<le> enc_bytes rt v"
    "freeze_items True d b xs = Inr b' \<Longrightarrow> b - b' \<le> (\<Sum>x \<leftarrow> xs. enc_bytes rt x)"
    "freeze_members True d b kvs = Inr b' \<Longrightarrow> b - b' \<le> (\<Sum>kv \<leftarrow> kvs. enc_bytes rt (snd kv))"
proof (induction True d b v and True d b xs and True d b kvs arbitrary: b' and b' and b' rule: freeze_freeze_items_freeze_members.induct)
  case (1 d b v)
  from 1(3) have nb: "b \<noteq> 0" "\<not> d > max_attribute_depth" by (auto simp: freeze.simps [of True d b v] split: if_splits)
  have kb: "0 \<le> keys_bytes kvs" for kvs unfolding keys_bytes_def by (rule sum_list_nonneg) auto
  have fl: "1 \<le> length (float_str rt x)" for x
    using repr_contractD(1) [OF assms] by (cases x) (auto simp: U_def Suc_le_eq)
  have il: "1 \<le> length (int_str i)" for i by (cases "digits_of i"; cases "digits_of (- i)") (auto simp: int_str_def)
  show ?case
  proof (cases v)
    case (JObj kvs)
    then show ?thesis using 1(2) [OF nb JObj] 1(3) nb kb [of kvs] enc_bytes_JObj [of kvs rt]
      by (auto simp: freeze.simps [of True d b "JObj kvs"])
  next
    case (JArr xs)
    then show ?thesis using 1(1) [OF nb JArr] 1(3) nb enc_bytes_JArr [of rt xs]
      by (auto simp: freeze.simps [of True d b "JArr xs"])
  next
    case (JFloat x)
    then show ?thesis using 1(3) nb enc_bytes_simps(4) [of rt x] fl [of x]
      by (auto simp: freeze.simps [of True d b "JFloat x"] split: if_splits)
  next
    case (JInt i)
    then show ?thesis using 1(3) nb enc_bytes_simps(3) [of i rt] il [of i]
      by (auto simp: freeze.simps [of True d b "JInt i"] split: if_splits)
  next
    case (JStr s)
    then show ?thesis using 1(3) nb enc_bytes_simps(5) [of s rt]
      by (auto simp: freeze.simps [of True d b "JStr s"] split: if_splits)
  next
    case JNull
    then show ?thesis using 1(3) nb enc_bytes_simps(1) [of rt] by (simp add: freeze.simps [of True d b JNull])
  next
    case (JBool x)
    then show ?thesis using 1(3) nb enc_bytes_simps(2) [of rt x] by (simp add: freeze.simps [of True d b "JBool x"])
  qed
qed (fastforce elim!: rbindE split: if_splits)+

text \<open>The walk over a frozen value.\<close>

lemma preflight_frozen:
  "freeze True d b v = Inr b' \<Longrightarrow> depth \<le> d + 8 \<Longrightarrow> nodes + 2 * (b - b') \<le> max_json_nodes + 1
    \<Longrightarrow> n + enc_bytes rt v + (b - b') \<le> max_bundle_bytes
    \<Longrightarrow> \<exists>nodes' n'. preflight_value rt depth (nodes, n) v = Inr (nodes', n')
      \<and> nodes' + 1 \<le> nodes + 2 * (b - b') \<and> n' \<le> n + enc_bytes rt v + (b - b')"
  "freeze_items True d b xs = Inr b' \<Longrightarrow> depth \<le> d + 8 \<Longrightarrow> nodes + 2 * (b - b') \<le> max_json_nodes
    \<Longrightarrow> n + (\<Sum>x \<leftarrow> xs. enc_bytes rt x) + (b - b') \<le> max_bundle_bytes
    \<Longrightarrow> \<exists>nodes' n'. preflight_items rt depth (nodes, n) xs = Inr (nodes', n')
      \<and> nodes' \<le> nodes + 2 * (b - b') \<and> n' \<le> n + (\<Sum>x \<leftarrow> xs. enc_bytes rt x) + (b - b')"
  "freeze_members True d b kvs = Inr b' \<Longrightarrow> depth \<le> d + 8 \<Longrightarrow> nodes + 2 * (b - b') - int (length kvs) \<le> max_json_nodes
    \<Longrightarrow> n + (\<Sum>kv \<leftarrow> kvs. enc_bytes rt (snd kv)) + (b - b') \<le> max_bundle_bytes
    \<Longrightarrow> (\<forall>k \<in> set (map fst kvs). is_xml_character k) \<and> (\<exists>nodes' n'. preflight_members rt depth (nodes, n) kvs = Inr (nodes', n')
      \<and> nodes' + int (length kvs) \<le> nodes + 2 * (b - b') \<and> n' \<le> n + (\<Sum>kv \<leftarrow> kvs. enc_bytes rt (snd kv)) + (b - b'))"
proof (induction True d b v and True d b xs and True d b kvs arbitrary: b' depth nodes n and b' depth nodes n and b' depth nodes n
    rule: freeze_freeze_items_freeze_members.induct)
  case (1 d b v)
  from 1(3) have nb: "b \<noteq> 0" "\<not> d > max_attribute_depth" by (auto simp: freeze.simps [of True d b v] split: if_splits)
  have b: "b' + 1 \<le> b" by (rule freeze_budget(1) [OF 1(3)])
  have guard: "\<not> (nodes + 1 > max_json_nodes \<or> depth > max_json_depth)"
    using 1(4,5) nb b by (simp add: max_attribute_depth_def max_json_depth_def)
  have kb: "0 \<le> keys_bytes kvs" for kvs unfolding keys_bytes_def by (rule sum_list_nonneg) auto
  show ?case
  proof (cases v)
    case (JObj kvs)
    then have m: "freeze_members True (d + 1) (b - 1) kvs = Inr b'" using 1(3) nb by (simp add: freeze.simps [of True d b "JObj kvs"])
    have len: "b' + int (length kvs) \<le> b - 1" by (rule freeze_budget(3) [OF m])
    have bytes: "n + keys_bytes kvs + (\<Sum>kv \<leftarrow> kvs. enc_bytes rt (snd kv)) + 2 \<le> n + enc_bytes rt v"
      using enc_bytes_JObj [of kvs rt] JObj by simp
    have sums: "0 \<le> (\<Sum>kv \<leftarrow> kvs. enc_bytes rt (snd kv))" by (rule sum_list_nonneg) (auto simp: enc_bytes_def)
    note ih = 1(2) [OF nb JObj m, of "depth + 1" "nodes + 1 + int (length kvs)" "n + keys_bytes kvs"]
    have k: "key_sizes n kvs = Inr (n + keys_bytes kvs)"
      using ih 1(4-6) bytes len sums by (intro key_sizes_Inr) auto
    show ?thesis
      using ih 1(4-6) bytes len sums guard k JObj
      by (auto simp: preflight_value.simps [of rt depth nodes n "JObj kvs"] within_bytes_def require_def)
  next
    case (JArr xs)
    then have m: "freeze_items True (d + 1) (b - 1) xs = Inr b'" using 1(3) nb by (simp add: freeze.simps [of True d b "JArr xs"])
    have len: "b' + int (length xs) \<le> b - 1" by (rule freeze_budget(2) [OF m])
    have bytes: "n + (\<Sum>x \<leftarrow> xs. enc_bytes rt x) + 2 \<le> n + enc_bytes rt v"
      using enc_bytes_JArr [of rt xs] JArr by simp
    have sums: "0 \<le> (\<Sum>x \<leftarrow> xs. enc_bytes rt x)" by (rule sum_list_nonneg) (auto simp: enc_bytes_def)
    show ?thesis
      using 1(1) [OF nb JArr m, of "depth + 1" "nodes + 1" n] 1(4-6) bytes len sums guard JArr
      by (auto simp: preflight_value.simps [of rt depth nodes n "JArr xs"] within_bytes_def require_def)
  next
    case (JStr s)
    then have x: "is_xml_character s" using 1(3) nb by (auto simp: freeze.simps [of True d b "JStr s"] split: if_splits)
    then have "text_size s (max_bundle_bytes - n) = Inr (int (length (utf8 s)))"
      using 1(6) b enc_bytes_simps(5) [of s rt] JStr by (intro text_size_Inr) auto
    then show ?thesis
      using 1(4-6) b guard enc_bytes_simps(5) [of s rt] JStr
      by (auto simp: preflight_value.simps [of rt depth nodes n "JStr s"] within_bytes_def require_def)
  next
    case (JFloat x)
    then show ?thesis
      using 1(3-6) nb b guard enc_bytes_simps(4) [of rt x]
      by (auto simp: preflight_value.simps [of rt depth nodes n "JFloat x"] freeze.simps [of True d b "JFloat x"] within_bytes_def require_def
          split: if_splits)
  next
    case (JInt i)
    then show ?thesis
      using 1(3-6) nb b guard enc_bytes_simps(3) [of i rt]
      by (auto simp: preflight_value.simps [of rt depth nodes n "JInt i"] freeze.simps [of True d b "JInt i"] within_bytes_def require_def
          split: if_splits)
  next
    case JNull
    then show ?thesis
      using 1(4-6) b guard enc_bytes_simps(1) [of rt]
      by (auto simp: preflight_value.simps [of rt depth nodes n JNull] within_bytes_def require_def)
  next
    case (JBool x)
    then show ?thesis
      using 1(4-6) b guard enc_bytes_simps(2) [of rt x]
      by (auto simp: preflight_value.simps [of rt depth nodes n "JBool x"] within_bytes_def require_def)
  qed
next
  case (2 d b)
  then show ?case by simp
next
  case (3 d b x xs)
  then obtain b1 where b1: "freeze True d b x = Inr b1" "freeze_items True d b1 xs = Inr b'" by (auto elim: rbindE)
  have c: "b1 + 1 \<le> b" "b' \<le> b1" "0 \<le> (\<Sum>y \<leftarrow> xs. enc_bytes rt y)"
    using freeze_budget(1) [OF b1(1)] freeze_budget(2) [OF b1(2)] by (auto intro!: sum_list_nonneg simp: enc_bytes_def)
  obtain nodes1 n1 where p: "preflight_value rt depth (nodes, n) x = Inr (nodes1, n1)"
    "nodes1 + 1 \<le> nodes + 2 * (b - b1)" "n1 \<le> n + enc_bytes rt x + (b - b1)"
    using 3(1) [OF b1(1), of depth nodes n] 3(4-6) c by auto
  show ?case using 3(2) [OF b1, of depth nodes1 n1] 3(4-6) c p by auto
next
  case (4 d b)
  then show ?case by simp
next
  case (5 d b k v kvs)
  then obtain b1 where b1: "freeze True d b v = Inr b1" "freeze_members True d b1 kvs = Inr b'" and k: "is_xml_character k"
    by (auto elim!: rbindE split: if_splits)
  have c: "b1 + 1 \<le> b" "b' + int (length kvs) \<le> b1" "0 \<le> (\<Sum>kv \<leftarrow> kvs. enc_bytes rt (snd kv))"
    using freeze_budget(1) [OF b1(1)] freeze_budget(3) [OF b1(2)] by (auto intro!: sum_list_nonneg simp: enc_bytes_def)
  obtain nodes1 n1 where p: "preflight_value rt depth (nodes, n) v = Inr (nodes1, n1)"
    "nodes1 + 1 \<le> nodes + 2 * (b - b1)" "n1 \<le> n + enc_bytes rt v + (b - b1)"
    using 5(1) [OF _ b1(1), of depth nodes n] 5(4-6) c k by auto
  show ?case using 5(2) [OF _ b1, of depth nodes1 n1] 5(4-6) c p k by auto
qed

subsection \<open>Receipts\<close>

lemma entry_view_finite: "entry_holds x e \<Longrightarrow> json_finite (LedgerEntry_to_dict x)"
  using json_finite_canon [of "le_event x"] json_finite_canon [of "EvidenceEvent_to_dict e"] frozen_finite [of "EvidenceEvent_to_dict e"]
  by (simp add: entry_holds_def LedgerEntry_to_dict_def)

lemma freeze_nonneg:
  "freeze sc d b v = Inr b' \<Longrightarrow> 0 \<le> b \<Longrightarrow> 0 \<le> b'"
  "freeze_items sc d b xs = Inr b' \<Longrightarrow> 0 \<le> b \<Longrightarrow> 0 \<le> b'"
  "freeze_members sc d b kvs = Inr b' \<Longrightarrow> 0 \<le> b \<Longrightarrow> 0 \<le> b'"
proof (induction sc d b v and sc d b xs and sc d b kvs arbitrary: b' and b' and b' rule: freeze_freeze_items_freeze_members.induct)
  case (1 sc d b v)
  from 1(3) have "b \<noteq> 0" "\<not> d > max_attribute_depth" by (auto simp: freeze.simps [of sc d b v] split: if_splits)
  with 1 show ?case
    by (cases v) (fastforce simp: freeze.simps [of sc d b] split: if_splits)+
qed (fastforce elim!: rbindE split: if_splits)+

text \<open>A larger budget leaves more of it.\<close>

lemma freeze_shift:
  "freeze sc d b v = Inr b' \<Longrightarrow> 0 \<le> b \<Longrightarrow> 0 \<le> k \<Longrightarrow> freeze sc d (b + k) v = Inr (b' + k)"
  "freeze_items sc d b xs = Inr b' \<Longrightarrow> 0 \<le> b \<Longrightarrow> 0 \<le> k \<Longrightarrow> freeze_items sc d (b + k) xs = Inr (b' + k)"
  "freeze_members sc d b kvs = Inr b' \<Longrightarrow> 0 \<le> b \<Longrightarrow> 0 \<le> k \<Longrightarrow> freeze_members sc d (b + k) kvs = Inr (b' + k)"
proof (induction sc d b v and sc d b xs and sc d b kvs arbitrary: b' and b' and b' rule: freeze_freeze_items_freeze_members.induct)
  case (1 sc d b v)
  from 1(3) have nb: "b \<noteq> 0" "\<not> d > max_attribute_depth" by (auto simp: freeze.simps [of sc d b v] split: if_splits)
  then have c: "b + k \<noteq> 0" "0 \<le> b - 1" using 1(4,5) by simp_all
  have e: "b + k - 1 = b - 1 + k" by simp
  show ?case
  proof (cases v)
    case (JObj kvs)
    have "freeze_members sc (d + 1) (b - 1) kvs = Inr b'" using 1(3) nb JObj by (simp add: freeze.simps [of sc d b "JObj kvs"])
    from 1(2) [OF nb JObj this c(2) 1(5)] have "freeze_members sc (d + 1) (b + k - 1) kvs = Inr (b' + k)" unfolding e .
    then show ?thesis using JObj nb c by (simp add: freeze.simps [of sc d "b + k" "JObj kvs"])
  next
    case (JArr xs)
    have "freeze_items sc (d + 1) (b - 1) xs = Inr b'" using 1(3) nb JArr by (simp add: freeze.simps [of sc d b "JArr xs"])
    from 1(1) [OF nb JArr this c(2) 1(5)] have "freeze_items sc (d + 1) (b + k - 1) xs = Inr (b' + k)" unfolding e .
    then show ?thesis using JArr nb c by (simp add: freeze.simps [of sc d "b + k" "JArr xs"])
  qed (use 1(3) nb c in \<open>auto simp: freeze.simps [of sc d] split: if_splits\<close>)
next
  case (3 sc d b x xs)
  then obtain b1 where "freeze sc d b x = Inr b1" "freeze_items sc d b1 xs = Inr b'" by (auto elim: rbindE)
  then show ?case using 3 freeze_nonneg(1) [of sc d b x b1] by simp
next
  case (5 sc d b j v kvs)
  then obtain b1 where "is_xml_character j" "freeze sc d b v = Inr b1" "freeze_members sc d b1 kvs = Inr b'"
    by (auto elim!: rbindE split: if_splits)
  then show ?case using 5 freeze_nonneg(1) [of sc d b v b1] by simp
qed simp_all

text \<open>Documents of at most 480 KiB that freeze, up to eight levels around their reports, are admitted.\<close>

lemma preflight_small:
  assumes rt: "repr_contract rt" and f: "freeze True d b v = Inr b'" and d: "- 8 \<le> d" and small: "enc_bytes rt v \<le> 480 * 1024"
  shows "preflight rt v = Inr ()"
proof -
  have "b - b' \<le> 480 * 1024" using freeze_bytes(1) [OF rt f] small by simp
  then show ?thesis
    using preflight_frozen(1) [OF f, of 0 0 0 rt] d small
    by (force simp: preflight_def max_json_nodes_def max_bundle_bytes_def)
qed

text \<open>A report frozen inside a document.\<close>

lemma frozen_inside:
  assumes "frozen v" "max_attribute_nodes \<le> b"
  shows "\<exists>b'. freeze True 0 b v = Inr b' \<and> 0 \<le> b' \<and> b - max_attribute_nodes \<le> b'"
proof -
  obtain b' where b': "freeze True 0 max_attribute_nodes v = Inr b'"
    using assms(1) by (auto simp: frozen_def is_ok_def split: sum.splits)
  have "0 \<le> b'" using freeze_nonneg(1) [OF b'] by (simp add: max_attribute_nodes_def)
  then show ?thesis
    using freeze_shift(1) [OF b', of "b - max_attribute_nodes"] assms(2) by (auto simp: max_attribute_nodes_def)
qed

lemma document_keys [simp]:
  "is_xml_character (U ''sequence'')" "is_xml_character (U ''event_id'')" "is_xml_character (U ''event'')"
  "is_xml_character (U ''previous_digest'')" "is_xml_character (U ''digest'')"
  by (simp_all add: is_xml_character_def U_def)

lemma hash_xml:
  assumes "is_hash h"
  shows "is_xml_character h" "length (utf8 h) = 64"
proof -
  have "list_all (\<lambda>c. c < 128) h" using assms by (auto simp: is_hash_def hex_digit_def list_all_iff)
  then show "length (utf8 h) = 64" using assms by (simp add: utf8_small is_hash_length)
qed (use assms in \<open>auto simp: is_hash_def is_xml_character_def hex_digit_def list_all_iff\<close>)

text \<open>Sorting members keeps the length of the encoding.\<close>

lemma items_length:
  "c < 128 \<Longrightarrow> length (utf8 (items f c xs))
    = (if xs = [] then 1 else sum_list (map (\<lambda>x. length (utf8 (f x))) xs) + length xs)"
  by (induction f c xs rule: items.induct) (simp_all add: utf8_app utf8_simps utf8_char_ascii)

lemma enc_length_canon: "length (utf8 (enc rt (canon v))) = length (utf8 (enc rt v))"
proof (induction v rule: canon.induct)
  case (6 xs)
  have "map (\<lambda>x. length (utf8 (enc rt (canon x)))) xs = map (\<lambda>x. length (utf8 (enc rt x))) xs" using 6 by simp
  then have "sum_list (map (\<lambda>x. length (utf8 (enc rt (canon x)))) xs) = sum_list (map (\<lambda>x. length (utf8 (enc rt x))) xs)"
    by (rule arg_cong)
  then show ?case by (simp add: utf8_simps items_length o_def del: map_eq_conv)
next
  case (7 kvs)
  let ?f = "\<lambda>kv. length (utf8 (str_enc (fst kv) @ 58 # enc rt (snd kv)))"
  have "map (\<lambda>kv. ?f (fst kv, canon (snd kv))) kvs = map ?f kvs"
    using 7 by (simp add: utf8_app utf8_simps)
  moreover have "(sort_key fst (map (\<lambda>kv. (fst kv, canon (snd kv))) kvs) = []) = (kvs = [])"
    by (metis length_0_conv length_map length_sort)
  ultimately show ?case
    by (simp only: canon.simps enc.simps utf8_simps length_append items_length sum_list_sort_key map_map o_def
        length_sort length_map split: if_split)
qed simp_all

lemma entry_size_enc: "entry_size rt x = enc_bytes rt (LedgerEntry_to_dict x)"
  by (simp add: entry_size_def canonical_bytes_def dumps_def enc_length_canon enc_bytes_def)

text \<open>A receipt of at most 400 KiB is admitted.\<close>

definition small_receipt :: "runtime \<Rightarrow> ledger_entry \<Rightarrow> bool" where
  "small_receipt rt x \<longleftrightarrow> entry_size rt x \<le> 400 * 1024"

lemma freeze_scalars:
  "d \<le> max_attribute_depth \<Longrightarrow> b \<noteq> 0 \<Longrightarrow> is_xml_character s \<Longrightarrow> freeze True d b (JStr s) = Inr (b - 1)"
  "d \<le> max_attribute_depth \<Longrightarrow> b \<noteq> 0 \<Longrightarrow> \<bar>i\<bar> \<le> max_attribute_integer \<Longrightarrow> freeze True d b (JInt i) = Inr (b - 1)"
  "d \<le> max_attribute_depth \<Longrightarrow> b \<noteq> 0 \<Longrightarrow> freeze True d b (JObj kvs) = freeze_members True (d + 1) (b - 1) kvs"
  "d \<le> max_attribute_depth \<Longrightarrow> b \<noteq> 0 \<Longrightarrow> freeze True d b (JArr xs) = freeze_items True (d + 1) (b - 1) xs"
  by (simp_all add: freeze.simps)

lemma freeze_entry:
  assumes e: "frozen (le_event x)" "is_xml_character (le_event_id x)" "is_hash (le_previous x)" "is_hash (le_digest x)"
    and s: "0 \<le> le_sequence x" "le_sequence x < max_ledger_entries" and b: "max_attribute_nodes + 10 \<le> b"
  shows "\<exists>b'. freeze True (- 1) b (LedgerEntry_to_dict x) = Inr b' \<and> b - max_attribute_nodes - 10 \<le> b'"
proof -
  obtain b' where "freeze True 0 (b - 3) (le_event x) = Inr b'" "0 \<le> b'" "b - 3 - max_attribute_nodes \<le> b'"
    using frozen_inside [OF e(1), of "b - 3"] b by auto
  moreover have "\<bar>le_sequence x\<bar> \<le> max_attribute_integer"
    by (rule small_count) (use s in \<open>simp add: max_ledger_entries_def\<close>)
  ultimately show ?thesis
    using e b hash_xml(1) by (simp add: LedgerEntry_to_dict_def freeze_scalars max_attribute_depth_def max_attribute_nodes_def)
qed

lemma preflight_entry:
  assumes rt: "repr_contract rt" and e: "frozen (le_event x)" "is_xml_character (le_event_id x)"
    and h: "is_hash (le_previous x)" "is_hash (le_digest x)" and s: "0 \<le> le_sequence x" "le_sequence x < max_ledger_entries"
    and small: "small_receipt rt x"
  shows "preflight rt (LedgerEntry_to_dict x) = Inr ()"
  using freeze_entry [OF e h s, of "max_attribute_nodes + 10"] preflight_small [OF rt, of "- 1" _ "LedgerEntry_to_dict x"] small
  by (auto simp: small_receipt_def entry_size_enc)

lemma receipt_bytes_small:
  assumes rt: "repr_contract rt" "iso_contract rt" and e: "storable e"
    and x: "x = \<lparr>le_sequence = n, le_event_id = ev_id e, le_event = EvidenceEvent_to_dict e, le_previous = p, le_digest = d\<rparr>"
    and h: "is_hash p" "is_hash d" and s: "0 \<le> n" "n < max_ledger_entries" and small: "small_receipt rt x"
  shows "receipt_bytes rt x = Inr (canonical_bytes rt (LedgerEntry_to_dict x))"
proof -
  have parsed: "LedgerEntry_from_dict rt (LedgerEntry_to_dict x) = Inr x"
    using LedgerEntry_reparse [OF e rt(2) s h] x by simp
  have pre: "preflight rt (LedgerEntry_to_dict x) = Inr ()"
    by (rule preflight_entry [OF rt(1)]) (use e h s small x in \<open>auto simp: storable_def event_ok_def text_ok_def\<close>)
  have "json_finite (LedgerEntry_to_dict x)"
    using e x by (simp add: LedgerEntry_to_dict_def storable_def EvidenceEvent_to_dict_finite)
  then have raw: "membership_canonical rt (LedgerEntry_to_dict x) = Inr (canonical_bytes rt (LedgerEntry_to_dict x))"
    by (simp add: membership_canonical_def canonical_json_def canonical_bytes_def)
  have "int (length (canonical_bytes rt (LedgerEntry_to_dict x))) \<le> max_receipt_bytes"
    using small by (simp add: small_receipt_def entry_size_def max_receipt_bytes_def)
  then show ?thesis using pre raw parsed by (simp add: receipt_bytes_def Let_def require_def)
qed

text \<open>So every receipt of at most 400 KiB of a built ledger is admitted, and a verified ledger within 64 MiB has an index.\<close>

lemma built_receipt:
  assumes rt: "ledger_runtime rt" "iso_contract rt"
    and es: "\<forall>e \<in> set es. storable e" "distinct (map ev_id es)" "int (length es) \<le> max_ledger_entries"
    and l: "build_ledger rt es = Inr l" and i: "i < length (lg_entries l)" and small: "small_receipt rt (lg_entries l ! i)"
  shows "\<exists>raw. receipt_bytes rt (lg_entries l ! i) = Inr raw"
proof -
  have built: "map le_event (lg_entries l) = map EvidenceEvent_to_dict (ledger_order es)" "ledger_events_are l (ledger_order es)"
    "ledger_verify rt l None"
    using build_ledger_Inr [OF rt es] l by auto
  let ?x = "lg_entries l ! i" and ?e = "ledger_order es ! i"
  have len: "length (lg_entries l) = length es" using arg_cong [OF built(1), of length] by simp
  have "le_event ?x = EvidenceEvent_to_dict ?e" using arg_cong [OF built(1), of "\<lambda>xs. xs ! i"] i len by simp
  moreover have "entry_holds ?x ?e" using built(2) i by (auto simp: ledger_events_are_def list_all2_conv_all_nth)
  moreover have "le_sequence ?x = int i" by (rule verified_sequence [OF rt built(3) i])
  moreover have "storable ?e" using es(1) i len nth_mem [of i "ledger_order es"] by simp
  ultimately show ?thesis
    using receipt_bytes_small [OF _ rt(2), of ?e ?x "int i" "le_previous ?x" "le_digest ?x"] rt(1) i len es(3) small
    by (simp add: ledger_runtime_def entry_holds_def)
qed

lemma index_sizes_total:
  "running + sum_list (map (entry_size rt) xs) \<le> max_index_bytes \<Longrightarrow> \<exists>sizes. index_sizes rt running xs = Inr sizes"
proof (induction rt running xs rule: index_sizes.induct)
  case (2 rt running x xs)
  have "0 \<le> sum_list (map (entry_size rt) xs)" by (rule sum_list_nonneg) (auto simp: entry_size_def)
  then show ?case using 2 by (auto simp: Let_def require_def add.assoc)
qed simp

lemma index_entries_total:
  "(\<forall>x \<in> set xs. \<exists>e. EvidenceEvent_from_dict rt (le_event x) ''event'' = Inr e) \<Longrightarrow> \<exists>r. index_entries rt ps xs = Inr r"
  by (induction xs arbitrary: ps) (auto, fastforce)

lemma LedgerIndex_init_total:
  assumes rt: "ledger_runtime rt" "iso_contract rt" and v: "ledger_verify rt l None" and h: "ledger_head l = JStr h"
    and size: "sum_list (map (entry_size rt) (lg_entries l)) \<le> max_index_bytes"
  shows "\<exists>idx. LedgerIndex_init rt l h None = Inr idx \<and> li_ledger idx = l"
proof -
  obtain k g where p: "ledger_head l = JStr k" "is_hash k" "int (length (lg_entries l)) \<le> max_ledger_entries"
    "verify_entries rt (lg_version l) 0 g {} (lg_entries l) = Some k"
    using verified_parts [OF rt v] by blast
  obtain sizes where s: "index_sizes rt 0 (lg_entries l) = Inr sizes" using index_sizes_total [of 0 rt "lg_entries l"] size by auto
  have "\<exists>e. EvidenceEvent_from_dict rt (le_event x) ''event'' = Inr e" if "x \<in> set (lg_entries l)" for x
    using verify_entries_nth [OF rt p(4)] that unfolding in_set_conv_nth by blast
  then obtain es ps where "index_entries rt empty_postings (lg_entries l) = Inr (es, ps)"
    using index_entries_total [of "lg_entries l" rt empty_postings] by auto
  then show ?thesis using p h s v by (simp add: LedgerIndex_init_def require_def Let_def)
qed

end
