(* ===== verification/Consistency.thy ===== *)
theory Consistency
  imports Membership_Lemmas Json_Size
begin

text \<open>
  Consistency proofs between two commitments (consistency.py): the closed shape of the document, the proof object,
  its generation from a verified index and its verification. The last part shows that a generated proof
  verifies, that a verified proof between commitments of two ledgers makes the first a prefix of the second unless
  two of the listed inputs collide, and that every proof object has a document within the byte limit that
  reads back as itself.
\<close>

subsection \<open>The closed shape\<close>

definition consistency_fields :: "string list" where
  "consistency_fields = [''kind'', ''schema_version'', ''old_commitment'', ''new_commitment'', ''path'']"

definition max_path :: nat where
  "max_path = 18"

definition max_consistency_bytes :: int where
  "max_consistency_bytes = 4096"

definition consistency_object :: "json \<Rightarrow> string list \<Rightarrow> (ustr \<times> json) list result" where
  "consistency_object v names =
     (case v of
        JObj kvs \<Rightarrow> if length kvs = length names \<and> set (map fst kvs) = set (map U names) then Inr kvs
          else Inl (ValidationError ''consistency object has an invalid field set'')
      | _ \<Rightarrow> Inl (ValidationError ''consistency object has an invalid field set''))"

text \<open>One field of a header: a bounded count, or text of at most 64 characters.\<close>

definition header_item :: "ustr \<times> json \<Rightarrow> unit result" where
  "header_item kv =
     (if fst kv = U ''entry_count''
      then (case snd kv of
              JInt n \<Rightarrow> require (0 \<le> n \<and> n \<le> max_ledger_entries) ''consistency count exceeds ledger bounds''
            | _ \<Rightarrow> Inl (ValidationError ''consistency count exceeds ledger bounds''))
      else (case snd kv of
              JStr s \<Rightarrow> require (length s \<le> 64) ''consistency header fields must be bounded text''
            | _ \<Rightarrow> Inl (ValidationError ''consistency header fields must be bounded text'')))"

definition header_shape :: "json \<Rightarrow> unit result" where
  "header_shape v =
     rbind (consistency_object v header_fields) (\<lambda>header.
     rbind (rmap header_item header) (\<lambda>_. Inr ()))"

text \<open>The path of a document of that shape, and its fields.\<close>

definition consistency_shape :: "json \<Rightarrow> ((ustr \<times> json) list \<times> ustr list) result" where
  "consistency_shape v =
     rbind (consistency_object v consistency_fields) (\<lambda>data.
     rbind (require (dget data ''kind'' = JText ''evidence-braid-ledger-consistency''
              \<and> dget data ''schema_version'' = JText ''1.0'') ''unsupported consistency proof format'') (\<lambda>_.
     rbind (case dget data ''path'' of
              JArr xs \<Rightarrow> if length xs \<le> max_path then Inr xs
                else Inl (ValidationError ''consistency path must contain at most 18 hashes'')
            | _ \<Rightarrow> Inl (ValidationError ''consistency path must contain at most 18 hashes'')) (\<lambda>path.
     rbind (rmap (\<lambda>x. hash_value x ''consistency path hash'') path) (\<lambda>hashes.
     rbind (header_shape (dget data ''old_commitment'')) (\<lambda>_.
     rbind (header_shape (dget data ''new_commitment'')) (\<lambda>_.
     Inr (data, hashes)))))))"

text \<open>\<open>_admit_bytes\<close>: the container depth outside string literals, read byte by byte.\<close>

fun admit_loop :: "int \<Rightarrow> bool \<Rightarrow> bool \<Rightarrow> bytes \<Rightarrow> unit result" where
  "admit_loop depth quoted escaped [] = Inr ()"
| "admit_loop depth quoted escaped (b # bs) =
     (if quoted then
        (if escaped then admit_loop depth True False bs
         else if b = 92 then admit_loop depth True True bs
         else if b = 34 then admit_loop depth False False bs
         else admit_loop depth True False bs)
      else if b = 34 then admit_loop depth True escaped bs
      else if b = 91 \<or> b = 123 then
        (if depth + 1 > 2 then Inl (ValidationError ''consistency JSON exceeds two container levels'')
         else admit_loop (depth + 1) quoted escaped bs)
      else if b = 93 \<or> b = 125 then admit_loop (depth - 1) quoted escaped bs
      else admit_loop depth quoted escaped bs)"

definition admit_bytes :: "bytes \<Rightarrow> unit result" where
  "admit_bytes raw =
     rbind (require (int (length raw) \<le> max_consistency_bytes) ''consistency input must be bytes within 4096 bytes'') (\<lambda>_.
     admit_loop 0 False False raw)"

subsection \<open>The proof object\<close>

definition consistency_headers :: "ledger_commitment \<Rightarrow> ledger_commitment \<Rightarrow> unit result" where
  "consistency_headers old new =
     rbind (require ((lc_version old, lc_genesis old) = (lc_version new, lc_genesis new))
              ''consistency headers use different ledger versions or genesis'') (\<lambda>_.
     rbind (require (lc_count old \<le> lc_count new) ''consistency cannot decrease the committed count'') (\<lambda>_.
     require (lc_count old = lc_count new \<longrightarrow> old = new)
       ''equal counts require identical complete commitment headers''))"

record consistency_proof =
  cp_old :: ledger_commitment
  cp_new :: ledger_commitment
  cp_path :: "ustr list"

definition LedgerConsistencyProof_init ::
  "ledger_commitment \<Rightarrow> ledger_commitment \<Rightarrow> ustr list \<Rightarrow> consistency_proof result" where
  "LedgerConsistencyProof_init old new path =
     rbind (consistency_headers old new) (\<lambda>_.
     rbind (require (length path \<le> max_path) ''consistency path requires an immutable tuple of at most 18 hashes'') (\<lambda>_.
     rbind (require (length path = path_size (lc_count old) (lc_count new) True)
              ''consistency path length disagrees with committed tree sizes'') (\<lambda>_.
     rbind (rmap (\<lambda>x. hash_value (JStr x) ''consistency path hash'') path) (\<lambda>_.
     Inr \<lparr>cp_old = old, cp_new = new, cp_path = path\<rparr>))))"

definition LedgerConsistencyProof_to_dict :: "runtime \<Rightarrow> consistency_proof \<Rightarrow> json" where
  "LedgerConsistencyProof_to_dict rt p = JObj
     [(U ''kind'', JText ''evidence-braid-ledger-consistency''), (U ''schema_version'', JText ''1.0''),
      (U ''old_commitment'', LedgerCommitment_to_dict rt (cp_old p)),
      (U ''new_commitment'', LedgerCommitment_to_dict rt (cp_new p)),
      (U ''path'', JArr (map JStr (cp_path p)))]"

definition LedgerConsistencyProof_to_bytes :: "runtime \<Rightarrow> consistency_proof \<Rightarrow> bytes result" where
  "LedgerConsistencyProof_to_bytes rt p =
     rbind (consistency_shape (LedgerConsistencyProof_to_dict rt p)) (\<lambda>_.
     rbind (membership_canonical rt (LedgerConsistencyProof_to_dict rt p)) (\<lambda>raw.
     rbind (require (int (length raw) \<le> max_consistency_bytes) ''consistency proof exceeds 4096 bytes'') (\<lambda>_.
     Inr raw)))"

definition LedgerConsistencyProof_from_dict :: "runtime \<Rightarrow> json \<Rightarrow> consistency_proof result" where
  "LedgerConsistencyProof_from_dict rt value =
     rbind (consistency_shape value) (\<lambda>(data, path).
     rbind (LedgerCommitment_from_dict rt (dget data ''old_commitment'')) (\<lambda>old.
     rbind (LedgerCommitment_from_dict rt (dget data ''new_commitment'')) (\<lambda>new.
     rbind (LedgerConsistencyProof_init old new path) (\<lambda>p.
     rbind (LedgerConsistencyProof_to_bytes rt p) (\<lambda>_.
     Inr p)))))"

subsection \<open>Generation\<close>

definition prove_ledger_consistency :: "runtime \<Rightarrow> proof_index \<Rightarrow> ledger_commitment \<Rightarrow> consistency_proof result" where
  "prove_ledger_consistency rt index old =
     rbind (consistency_headers old (pi_commitment index)) (\<lambda>_.
     let cnt = lc_count old in
     rbind (if cnt = 0 then Inr []
            else case pi_tree index of
              None \<Rightarrow> Inl (RuntimeError ''nonempty consistency index has no tree'')
            | Some tree \<Rightarrow>
                rbind (require (le_digest (lg_entries (li_ledger (pi_index index)) ! nat (cnt - 1)) = lc_head old)
                         ''old commitment head differs from the actual indexed prefix'') (\<lambda>_.
                rbind (prefix_root (node_hash rt) tree cnt) (\<lambda>prefix.
                rbind (require (prefix = lc_root old)
                         ''old commitment root differs from the actual indexed prefix'') (\<lambda>_.
                subproof tree cnt True)))) (\<lambda>path.
     LedgerConsistencyProof_init old (pi_commitment index) path))"

subsection \<open>Verification\<close>

definition verify_ledger_consistency :: "runtime \<Rightarrow> consistency_proof \<Rightarrow> ustr \<Rightarrow> ustr \<Rightarrow> unit result" where
  "verify_ledger_consistency rt p expected_old expected_new =
     rbind (hash_value (JStr expected_old) ''expected_old_commitment_digest'') (\<lambda>_.
     rbind (hash_value (JStr expected_new) ''expected_new_commitment_digest'') (\<lambda>_.
     let old = cp_old p; new = cp_new p in
     rbind (require (commitment_digest rt old = expected_old \<and> commitment_digest rt new = expected_new)
              ''consistency commitment differs from an expected external anchor'') (\<lambda>_.
     if lc_count old = 0 \<or> lc_count old = lc_count new then Inr ()
     else case recover (node_hash rt) (lc_count old) (lc_count new) True (lc_root old) (cp_path p) of
       None \<Rightarrow> Inl (RuntimeError ''StopIteration'')
     | Some (recovered, rest) \<Rightarrow>
         require (recovered = (lc_root old, lc_root new) \<and> rest = [])
           ''consistency path does not reproduce both committed roots'')))"


subsection \<open>Documents and their size\<close>

text \<open>A commitment as its constructor accepts it.\<close>

definition commitment_ok :: "runtime \<Rightarrow> ledger_commitment \<Rightarrow> bool" where
  "commitment_ok rt c \<longleftrightarrow> LedgerCommitment_init rt (JStr (lc_version c)) (JStr (lc_genesis c)) (JStr (lc_head c))
     (JInt (lc_count c)) (JStr (lc_root c)) = Inr c"

lemma LedgerCommitment_init_ok: "LedgerCommitment_init rt v g h n r = Inr c \<Longrightarrow> commitment_ok rt c"
  unfolding LedgerCommitment_init_def
  by (elim rbindE) (auto simp: commitment_ok_def LedgerCommitment_init_def require_def split: json.splits option.splits if_splits)

lemma commitment_ok_fields:
  assumes "commitment_ok rt c"
  shows "lc_version c = U ''1.0'' \<or> lc_version c = U ''2.0''" "is_hash (lc_genesis c)" "is_hash (lc_head c)"
    "is_hash (lc_root c)" "0 \<le> lc_count c" "lc_count c \<le> max_ledger_entries"
  using assms unfolding commitment_ok_def LedgerCommitment_init_def
  by (auto simp: ledger_versions_def require_def elim!: rbindE split: option.splits if_splits)

lemma LedgerCommitment_roundtrip:
  assumes "ledger_runtime rt" "commitment_ok rt c"
  shows "LedgerCommitment_from_dict rt (LedgerCommitment_to_dict rt c) = Inr c"
proof -
  let ?kvs = "commitment_body c @ [(U ''commitment_digest'', JStr (commitment_digest rt c))]"
  have "member_object (LedgerCommitment_to_dict rt c) header_fields ''commitment'' = Inr ?kvs"
    by (auto simp: member_object_def LedgerCommitment_to_dict_def commitment_body_def header_fields_def)
  moreover have "dget ?kvs ''kind'' = JText ''evidence-braid-ledger-commitment''" "dget ?kvs ''schema_version'' = JText ''1.0''"
    "dget ?kvs ''ledger_version'' = JStr (lc_version c)" "dget ?kvs ''genesis'' = JStr (lc_genesis c)"
    "dget ?kvs ''head_digest'' = JStr (lc_head c)" "dget ?kvs ''entry_count'' = JInt (lc_count c)"
    "dget ?kvs ''root_hash'' = JStr (lc_root c)" "dget ?kvs ''commitment_digest'' = JStr (commitment_digest rt c)"
    by (simp_all add: commitment_body_def dget_def)
  ultimately show ?thesis
    using assms(2) commitment_digest_hex [OF assms(1), of c]
    unfolding LedgerCommitment_from_dict_def by (simp add: commitment_ok_def require_def)
qed

lemma header_shape_ok:
  assumes "ledger_runtime rt" "commitment_ok rt c"
  shows "header_shape (LedgerCommitment_to_dict rt c) = Inr ()"
proof -
  let ?kvs = "commitment_body c @ [(U ''commitment_digest'', JStr (commitment_digest rt c))]"
  have "consistency_object (LedgerCommitment_to_dict rt c) header_fields = Inr ?kvs"
    by (auto simp: consistency_object_def LedgerCommitment_to_dict_def commitment_body_def header_fields_def)
  moreover have "length (lc_version c) \<le> 64" using commitment_ok_fields(1) [OF assms(2)] by auto
  then have "\<forall>kv \<in> set ?kvs. header_item kv = Inr ()"
    using commitment_ok_fields(2-) [OF assms(2)] commitment_digest_hex [OF assms(1), of c]
    by (simp add: commitment_body_def header_item_def require_def JText_def is_hash_length)
  then have "rmap header_item ?kvs = Inr (map (\<lambda>_. ()) ?kvs)"
    by (intro rmap_map_Inr) blast
  ultimately show ?thesis by (simp add: header_shape_def)
qed

lemma header_cost:
  assumes "ledger_runtime rt" "commitment_ok rt c"
  shows "json_cost text_cost rt (LedgerCommitment_to_dict rt c) \<le> 600"
proof -
  note f = commitment_ok_fields [OF assms(2)]
  have v: "text_cost (lc_version c) = 5"
    using f(1) by (elim disjE; simp only:; code_simp)
  have n: "length (int_str (lc_count c)) \<le> 6"
    using int_str_length [of "lc_count c" 5] f(5,6) by (simp add: max_ledger_entries_def)
  have keys: "text_cost (U ''kind'') = 6" "text_cost (U ''schema_version'') = 16" "text_cost (U ''ledger_version'') = 16"
    "text_cost (U ''genesis'') = 9" "text_cost (U ''head_digest'') = 13" "text_cost (U ''entry_count'') = 13"
    "text_cost (U ''root_hash'') = 11" "text_cost (U ''commitment_digest'') = 19"
    "text_cost (U ''evidence-braid-ledger-commitment'') = 34" "text_cost (U ''1.0'') = 5"
    by code_simp+
  show ?thesis
    using v n f(2-4) commitment_digest_hex [OF assms(1), of c]
    by (simp add: LedgerCommitment_to_dict_def commitment_body_def JText_def keys hash_cost)
qed

definition consistency_ok :: "runtime \<Rightarrow> consistency_proof \<Rightarrow> bool" where
  "consistency_ok rt p \<longleftrightarrow> commitment_ok rt (cp_old p) \<and> commitment_ok rt (cp_new p)
     \<and> LedgerConsistencyProof_init (cp_old p) (cp_new p) (cp_path p) = Inr p"

lemma consistency_ok_fields:
  assumes "consistency_ok rt p"
  shows "lc_version (cp_old p) = lc_version (cp_new p)" "lc_genesis (cp_old p) = lc_genesis (cp_new p)"
    "lc_count (cp_old p) \<le> lc_count (cp_new p)" "lc_count (cp_old p) = lc_count (cp_new p) \<Longrightarrow> cp_old p = cp_new p"
    "length (cp_path p) \<le> max_path" "\<forall>h \<in> set (cp_path p). is_hash h"
    "length (cp_path p) = path_size (lc_count (cp_old p)) (lc_count (cp_new p)) True"
proof -
  from assms have init: "LedgerConsistencyProof_init (cp_old p) (cp_new p) (cp_path p) = Inr p" by (simp add: consistency_ok_def)
  then obtain hs where hs: "rmap (\<lambda>x. hash_value (JStr x) ''consistency path hash'') (cp_path p) = Inr hs"
    unfolding LedgerConsistencyProof_init_def by (elim rbindE) auto
  show "\<forall>h \<in> set (cp_path p). is_hash h"
    using rmap_Inr_elem [OF hs] by auto
qed (use assms in \<open>auto simp: consistency_ok_def LedgerConsistencyProof_init_def consistency_headers_def require_def
      elim!: rbindE split: if_splits\<close>)

lemma consistency_shape_ok:
  assumes "ledger_runtime rt" "consistency_ok rt p"
  shows "\<exists>data. consistency_shape (LedgerConsistencyProof_to_dict rt p) = Inr (data, cp_path p)
    \<and> dget data ''old_commitment'' = LedgerCommitment_to_dict rt (cp_old p)
    \<and> dget data ''new_commitment'' = LedgerCommitment_to_dict rt (cp_new p)"
proof -
  let ?kvs = "[(U ''kind'', JText ''evidence-braid-ledger-consistency''), (U ''schema_version'', JText ''1.0''),
      (U ''old_commitment'', LedgerCommitment_to_dict rt (cp_old p)),
      (U ''new_commitment'', LedgerCommitment_to_dict rt (cp_new p)),
      (U ''path'', JArr (map JStr (cp_path p)))]"
  have "consistency_object (LedgerConsistencyProof_to_dict rt p) consistency_fields = Inr ?kvs"
    by (auto simp: consistency_object_def LedgerConsistencyProof_to_dict_def consistency_fields_def)
  moreover have "dget ?kvs ''kind'' = JText ''evidence-braid-ledger-consistency''" "dget ?kvs ''schema_version'' = JText ''1.0''"
    "dget ?kvs ''old_commitment'' = LedgerCommitment_to_dict rt (cp_old p)"
    "dget ?kvs ''new_commitment'' = LedgerCommitment_to_dict rt (cp_new p)" "dget ?kvs ''path'' = JArr (map JStr (cp_path p))"
    by (simp_all add: dget_def)
  moreover have "commitment_ok rt (cp_old p)" "commitment_ok rt (cp_new p)"
    using assms(2) by (simp_all add: consistency_ok_def)
  ultimately show ?thesis
    using consistency_ok_fields(5,6) [OF assms(2)] header_shape_ok [OF assms(1)] rmap_hash_JStr
    by (simp add: consistency_shape_def require_def)
qed

lemma consistency_bytes:
  assumes "ledger_runtime rt" "consistency_ok rt p"
  shows "LedgerConsistencyProof_to_bytes rt p = Inr (canonical_bytes rt (LedgerConsistencyProof_to_dict rt p))"
    "int (length (canonical_bytes rt (LedgerConsistencyProof_to_dict rt p))) \<le> max_consistency_bytes"
proof -
  let ?d = "LedgerConsistencyProof_to_dict rt p"
  have ok: "commitment_ok rt (cp_old p)" "commitment_ok rt (cp_new p)"
    using assms(2) by (simp_all add: consistency_ok_def)
  have keys: "text_cost (U ''kind'') = 6" "text_cost (U ''schema_version'') = 16" "text_cost (U ''old_commitment'') = 16"
    "text_cost (U ''new_commitment'') = 16" "text_cost (U ''path'') = 6"
    "text_cost (U ''evidence-braid-ledger-consistency'') = 35" "text_cost (U ''1.0'') = 5"
    by code_simp+
  have "sum_list (map (\<lambda>s. Suc (text_cost s)) (cp_path p)) \<le> length (cp_path p) * 67"
    by (rule sum_list_le) (use consistency_ok_fields(6) [OF assms(2)] in \<open>simp add: hash_cost\<close>)
  then have path: "sum_list (map (\<lambda>s. Suc (text_cost s)) (cp_path p)) \<le> 1206"
    using consistency_ok_fields(5) [OF assms(2)] by (simp add: max_path_def)
  have "json_cost text_cost rt ?d \<le> 4096"
    using header_cost [OF assms(1) ok(1)] header_cost [OF assms(1) ok(2)] path
    by (simp add: LedgerConsistencyProof_to_dict_def JText_def keys o_def)
  moreover have "length (canonical_bytes rt ?d) \<le> json_cost text_cost rt ?d" by (rule canonical_bytes_cost) simp
  ultimately show size: "int (length (canonical_bytes rt ?d)) \<le> max_consistency_bytes"
    by (simp add: max_consistency_bytes_def)
  have "json_finite ?d"
    by (auto simp: LedgerConsistencyProof_to_dict_def LedgerCommitment_to_dict_def commitment_body_def list_all_iff)
  then have "membership_canonical rt ?d = Inr (canonical_bytes rt ?d)"
    by (simp add: membership_canonical_def canonical_json_def canonical_bytes_def)
  then show "LedgerConsistencyProof_to_bytes rt p = Inr (canonical_bytes rt ?d)"
    using consistency_shape_ok [OF assms] size by (auto simp: LedgerConsistencyProof_to_bytes_def require_def)
qed

lemma consistency_roundtrip:
  assumes "ledger_runtime rt" "consistency_ok rt p"
  shows "LedgerConsistencyProof_from_dict rt (LedgerConsistencyProof_to_dict rt p) = Inr p"
proof -
  have "commitment_ok rt (cp_old p)" "commitment_ok rt (cp_new p)"
    "LedgerConsistencyProof_init (cp_old p) (cp_new p) (cp_path p) = Inr p"
    using assms(2) by (simp_all add: consistency_ok_def)
  then show ?thesis
    using consistency_shape_ok [OF assms] consistency_bytes(1) [OF assms] assms(1)
    by (auto simp: LedgerConsistencyProof_from_dict_def LedgerCommitment_roundtrip)
qed

lemma LedgerConsistencyProof_init_id: "LedgerConsistencyProof_init old new path = Inr p \<Longrightarrow> cp_old p = old \<and> cp_new p = new \<and> cp_path p = path"
  unfolding LedgerConsistencyProof_init_def by (elim rbindE) auto

lemma LedgerConsistencyProof_from_dict_ok:
  assumes "LedgerConsistencyProof_from_dict rt v = Inr p"
  shows "consistency_ok rt p"
  using assms unfolding LedgerConsistencyProof_from_dict_def LedgerCommitment_from_dict_def
  by (elim rbindE) (auto simp: consistency_ok_def dest: LedgerCommitment_init_ok LedgerConsistencyProof_init_id elim!: rbindE)

subsection \<open>A generated proof verifies\<close>

text \<open>The first receipts of a ledger.\<close>

definition ledger_prefix :: "evidence_ledger \<Rightarrow> nat \<Rightarrow> evidence_ledger" where
  "ledger_prefix l n = l\<lparr>lg_entries := take n (lg_entries l)\<rparr>"

lemma build_tree_cong:
  "(\<And>i. start \<le> i \<Longrightarrow> i < start + max 1 cnt \<Longrightarrow> f i = g i) \<Longrightarrow> build_tree h f start cnt = build_tree h g start cnt"
proof (induction h f start cnt rule: build_tree.induct)
  case (1 h f start cnt)
  show ?case
  proof (cases "cnt \<le> 1")
    case True
    then show ?thesis using 1(3) [of start] by (simp add: build_tree.simps [of h _ start cnt])
  next
    case False
    then have b: "1 \<le> split_at cnt" "split_at cnt < cnt" using split_at_bounds [of cnt] by simp_all
    have "build_tree h f start (split_at cnt) = build_tree h g start (split_at cnt)"
      "build_tree h f (start + split_at cnt) (cnt - split_at cnt) = build_tree h g (start + split_at cnt) (cnt - split_at cnt)"
      using 1(1) [OF False refl] 1(2) [OF False refl refl] 1(3) b by auto
    then show ?thesis using False by (simp add: build_tree.simps [of h _ start cnt] Let_def)
  qed
qed

lemma prefix_root_hash:
  assumes "1 \<le> n" "n \<le> length (lg_entries l)"
  shows "mtree.root rt (ledger_leaf rt (ledger_prefix l n)) 0 (int n) = mtree.root rt (ledger_leaf rt l) 0 (int n)"
  unfolding mtree.root_def
proof (rule arg_cong [where f = node_digest], rule build_tree_cong)
  fix i assume "0 \<le> i" "i < 0 + max 1 (int n)"
  then have "nat i < n" using assms(1) by linarith
  then show "ledger_leaf rt (ledger_prefix l n) i = ledger_leaf rt l i"
    by (simp add: ledger_leaf_def ledger_prefix_def)
qed

lemma prefix_commitment:
  assumes "1 \<le> n" "n \<le> length (lg_entries l)"
  shows "honest_commitment rt (ledger_prefix l n) = \<lparr>lc_version = lg_version l,
    lc_genesis = (case lg_genesis l of JStr g \<Rightarrow> g | _ \<Rightarrow> []), lc_head = le_digest (lg_entries l ! (n - 1)),
    lc_count = int n, lc_root = mtree.root rt (ledger_leaf rt l) 0 (int n)\<rparr>"
proof -
  have "last (take n (lg_entries l)) = lg_entries l ! (n - 1)"
    using assms by (subst last_conv_nth) auto
  moreover have "take n (lg_entries l) \<noteq> []" using assms by auto
  ultimately show ?thesis
    using prefix_root_hash [OF assms, of rt] assms
    by (simp add: honest_commitment_def ledger_root_def ledger_head_def) (simp add: ledger_prefix_def ledger_head_def)
qed

lemma prefix_all: "length (lg_entries l) \<le> n \<Longrightarrow> ledger_prefix l n = l"
  by (simp add: ledger_prefix_def)

lemma consistency_complete:
  assumes rt: "ledger_runtime rt" "iso_contract rt" and v: "ledger_verify rt (li_ledger idx) None"
    and n: "n \<le> length (lg_entries (li_ledger idx))"
  shows "\<exists>P p. LedgerProofIndex_init rt idx = Inr P
    \<and> prove_ledger_consistency rt P (honest_commitment rt (ledger_prefix (li_ledger idx) n)) = Inr p
    \<and> verify_ledger_consistency rt p (commitment_digest rt (honest_commitment rt (ledger_prefix (li_ledger idx) n)))
        (commitment_digest rt (pi_commitment P)) = Inr ()"
proof -
  let ?l = "li_ledger idx"
  let ?old = "honest_commitment rt (ledger_prefix ?l n)" and ?new = "honest_commitment rt ?l"
  let ?N = "int (length (lg_entries ?l))"
  have P: "LedgerProofIndex_init rt idx = Inr \<lparr>pi_index = idx, pi_commitment = ?new,
      pi_tree = (if lg_entries ?l = [] then None else Some (ledger_tree rt ?l 0 ?N))\<rparr>"
    by (rule LedgerProofIndex_init_Inr [OF rt v])
  have cnt: "lc_count ?old = int n" "lc_count ?new = ?N"
    using n by (simp_all add: honest_commitment_def ledger_prefix_def)
  have bound: "?N \<le> max_ledger_entries" using verified_parts [OF rt v] by blast
  have "n = length (lg_entries ?l) \<Longrightarrow> ?old = ?new" by (simp add: prefix_all)
  then have headers: "consistency_headers ?old ?new = Inr ()"
    using n by (auto simp: consistency_headers_def require_def cnt) (simp_all add: honest_commitment_def ledger_prefix_def)
  have digests: "is_hash (commitment_digest rt ?old)" "is_hash (commitment_digest rt ?new)"
    by (rule commitment_digest_hex [OF rt(1)])+
  show ?thesis
  proof (cases "n = 0")
    case True
    then show ?thesis using P headers digests cnt
      by (simp add: prove_ledger_consistency_def LedgerConsistencyProof_init_def verify_ledger_consistency_def
          require_def path_size.simps [of 0])
  next
    case False
    then have n1: "1 \<le> n" and ne: "lg_entries ?l \<noteq> []" using n by auto
    let ?T = "build_tree (mtree.nh rt) (ledger_leaf rt ?l) 0 ?N"
    obtain path where path: "subproof ?T (int n) True = Inr path" "length path = path_size (int n) ?N True"
      "\<forall>x \<in> set path. is_hash x"
      "recover (mtree.nh rt) (int n) ?N True (mtree.root rt (ledger_leaf rt ?l) 0 (int n)) path
         = Some ((mtree.root rt (ledger_leaf rt ?l) 0 (int n), mtree.root rt (ledger_leaf rt ?l) 0 ?N), [])"
      using mtree.subproof_Inr [of "int n" ?N True "mtree.root rt (ledger_leaf rt ?l) 0 (int n)" rt "ledger_leaf rt ?l" 0]
        n n1 rt(1) ledger_leaf_hex [OF rt(1)] by force
    have "path_size (int n) ?N True \<le> Suc 17"
      by (rule path_size_bound) (use bound in \<open>simp add: max_ledger_entries_def\<close>)
    then have len: "length path \<le> max_path" using path(2) by (simp add: max_path_def)
    have hashes: "rmap (\<lambda>x. hash_value (JStr x) ''consistency path hash'') path = Inr (map (\<lambda>x. x) path)"
      by (rule rmap_map_Inr) (use path(3) in simp)
    have old: "lc_root ?old = mtree.root rt (ledger_leaf rt ?l) 0 (int n)" "lc_head ?old = le_digest (lg_entries ?l ! (n - 1))"
      using prefix_commitment [OF n1 n] by simp_all
    have new: "lc_root ?new = mtree.root rt (ledger_leaf rt ?l) 0 ?N" using ne by (simp add: honest_commitment_def ledger_root_def)
    have pr: "prefix_root (mtree.nh rt) ?T (int n) = Inr (mtree.root rt (ledger_leaf rt ?l) 0 (int n))"
      using mtree.prefix_root_eq n n1 by force
    have idx: "nat (int n - 1) = n - 1" using n1 by simp
    show ?thesis
      using P headers digests False ne path len hashes old new pr idx
      by (simp add: prove_ledger_consistency_def LedgerConsistencyProof_init_def verify_ledger_consistency_def
          require_def cnt ledger_tree_def node_hash_nh Let_def)
  qed
qed

subsection \<open>A verified proof shows a prefix\<close>

definition consistency_inputs :: "runtime \<Rightarrow> evidence_ledger \<Rightarrow> evidence_ledger \<Rightarrow> consistency_proof \<Rightarrow> bytes set" where
  "consistency_inputs rt l m p = commitment_input rt ` {honest_commitment rt l, honest_commitment rt m, cp_old p, cp_new p}
     \<union> ledger_tree_inputs rt l \<union> ledger_tree_inputs rt m
     \<union> mtree.tree_inputs rt (ledger_leaf rt m) 0 (int (length (lg_entries l)))
     \<union> mtree.recover_inputs rt (lc_count (cp_old p)) (lc_count (cp_new p)) True (lc_root (cp_old p)) (cp_path p)"

lemma anchor_commitment:
  assumes rep: "repr_contract rt" and digest: "commitment_digest rt c = commitment_digest rt d" and cf: "collision_free rt S"
    and mem: "commitment_input rt c \<in> S" "commitment_input rt d \<in> S"
  shows "c = d"
proof (rule commitment_input_inj [OF rep])
  show "commitment_input rt c = commitment_input rt d"
    by (rule collision_freeD [OF cf]) (use digest mem in \<open>simp_all add: commitment_digest_def hash_bytes_def commitment_input_def\<close>)
qed

lemma verify_ledger_consistency_Inr:
  assumes "verify_ledger_consistency rt p d e = Inr u"
  shows "commitment_digest rt (cp_old p) = d" "commitment_digest rt (cp_new p) = e"
    "lc_count (cp_old p) \<noteq> 0 \<Longrightarrow> lc_count (cp_old p) \<noteq> lc_count (cp_new p)
      \<Longrightarrow> recover (node_hash rt) (lc_count (cp_old p)) (lc_count (cp_new p)) True (lc_root (cp_old p)) (cp_path p)
        = Some ((lc_root (cp_old p), lc_root (cp_new p)), [])"
  using assms unfolding verify_ledger_consistency_def Let_def
  by (auto simp: require_def elim!: rbindE split: if_splits option.splits)

theorem consistency_sound:
  assumes rt: "ledger_runtime rt" "iso_contract rt" and v: "ledger_verify rt l None" "ledger_verify rt m None"
    and ok: "consistency_ok rt p"
    and verified: "verify_ledger_consistency rt p (commitment_digest rt (honest_commitment rt l))
      (commitment_digest rt (honest_commitment rt m)) = Inr ()"
    and cf: "collision_free rt (consistency_inputs rt l m p)"
  shows "lg_version l = lg_version m \<and> length (lg_entries l) \<le> length (lg_entries m)
    \<and> list_all2 (\<lambda>x y. canon (LedgerEntry_to_dict x) = canon (LedgerEntry_to_dict y))
        (lg_entries l) (take (length (lg_entries l)) (lg_entries m))"
proof -
  let ?cl = "honest_commitment rt l" and ?cm = "honest_commitment rt m"
  let ?n = "length (lg_entries l)" and ?N = "length (lg_entries m)"
  have rep: "repr_contract rt" using rt(1) by (simp add: ledger_runtime_def)
  have old: "cp_old p = ?cl" and new: "cp_new p = ?cm"
    using anchor_commitment [OF rep verify_ledger_consistency_Inr(1) [OF verified] cf]
      anchor_commitment [OF rep verify_ledger_consistency_Inr(2) [OF verified] cf]
    by (simp_all add: consistency_inputs_def)
  have ver: "lg_version l = lg_version m" and le: "?n \<le> ?N"
    using consistency_ok_fields(1,3) [OF ok] old new by (simp_all add: honest_commitment_def)
  have entry: "canon (LedgerEntry_to_dict (lg_entries l ! i)) = canon (LedgerEntry_to_dict (lg_entries m ! i))" if i: "i < ?n" for i
  proof -
    have ne: "lg_entries l \<noteq> []" "lg_entries m \<noteq> []" "1 \<le> int ?n" using i le by auto
    have roots: "lc_root ?cl = mtree.root rt (ledger_leaf rt l) 0 (int ?n)" "lc_root ?cm = mtree.root rt (ledger_leaf rt m) 0 (int ?N)"
      and counts: "lc_count ?cl = int ?n" "lc_count ?cm = int ?N"
      using ne by (simp_all add: honest_commitment_def ledger_root_def)
    have "mtree.root rt (ledger_leaf rt l) 0 (int ?n) = mtree.root rt (ledger_leaf rt m) 0 (int ?n)"
    proof (cases "?n = ?N")
      case True
      then show ?thesis using consistency_ok_fields(4) [OF ok] old new roots counts by simp
    next
      case False
      then have rec: "recover (mtree.nh rt) (int ?n) (int ?N) True (lc_root ?cl) (cp_path p) = Some ((lc_root ?cl, lc_root ?cm), [])"
        using verify_ledger_consistency_Inr(3) [OF verified] old new counts ne by (simp add: node_hash_nh)
      have "is_hash (lc_root ?cl)" using roots mtree.root_hex [OF rt(1) ledger_leaf_hex [OF rt(1)]] by simp
      moreover have "collision_free rt (mtree.tree_inputs rt (ledger_leaf rt m) 0 (int ?N)
          \<union> mtree.recover_inputs rt (int ?n) (int ?N) True (lc_root ?cl) (cp_path p))"
        by (rule collision_free_subset [OF cf]) (auto simp: consistency_inputs_def old new counts ledger_tree_inputs_def)
      ultimately have "lc_root ?cl = mtree.root rt (ledger_leaf rt m) 0 (int ?n)"
        by (intro mtree.recover_sound [OF rt(1) ledger_leaf_hex [OF rt(1)] ne(3) _ rec _ consistency_ok_fields(6) [OF ok] roots(2)])
          (use le in auto)
      then show ?thesis using roots by simp
    qed
    moreover have "collision_free rt (mtree.tree_inputs rt (ledger_leaf rt l) 0 (int ?n)
        \<union> mtree.tree_inputs rt (ledger_leaf rt m) 0 (int ?n))"
      by (rule collision_free_subset [OF cf]) (auto simp: consistency_inputs_def ledger_tree_inputs_def)
    ultimately have "ledger_leaf rt l (0 + int i) = ledger_leaf rt m (0 + int i)"
      by (rule mtree.root_inj [OF rt(1) ledger_leaf_hex [OF rt(1)] ledger_leaf_hex [OF rt(1)]]) (use i in simp_all)
    then have eq: "leaf_hash rt (lg_version m) (lg_entries l ! i) = leaf_hash rt (lg_version m) (lg_entries m ! i)"
      by (simp add: ledger_leaf_def ver)
    have mem: "leaf_input rt (lg_version m) (lg_entries l ! i) \<in> consistency_inputs rt l m p"
      "leaf_input rt (lg_version m) (lg_entries m ! i) \<in> consistency_inputs rt l m p"
      using i le by (auto simp: consistency_inputs_def ledger_tree_inputs_def ver)
    show ?thesis
      by (rule leaf_hash_canon [OF rep eq cf mem]) (use verified_finite [OF rt] v i le in auto)
  qed
  show ?thesis using ver le entry by (auto simp: list_all2_conv_all_nth)
qed

end
