(* ===== verification/Membership_Roundtrip.thy ===== *)
theory Membership_Roundtrip
  imports Preflight Consistency
begin

text \<open>
  The document of a proved membership reads back: for a receipt of at most 400 KiB of a built ledger, the bundle that
  the proof index returns is written to a document that the reader accepts and turns into the same bundle.
\<close>

subsection \<open>Sizes\<close>

lemma enc_bytes_obj: "enc_bytes rt (JObj kvs) \<le> 2 + (\<Sum>kv \<leftarrow> kvs. int (text_cost (fst kv)) + 2 + enc_bytes rt (snd kv))"
proof -
  let ?f = "\<lambda>kv. str_enc (fst kv) @ 58 # enc rt (snd kv)"
  have "(\<Sum>kv \<leftarrow> kvs. int (text_cost (fst kv)) + 2 + enc_bytes rt (snd kv))
      = int (sum_list (map (\<lambda>kv. length (utf8 (?f kv))) kvs) + length kvs)"
    by (induction kvs) (simp_all add: text_cost_def enc_bytes_def utf8_app utf8_simps utf8_char_ascii)
  then show ?thesis by (simp add: enc_bytes_def utf8_simps utf8_char_ascii items_length)
qed

lemma enc_bytes_arr: "enc_bytes rt (JArr xs) \<le> 2 + (\<Sum>x \<leftarrow> xs. 1 + enc_bytes rt x)"
proof -
  have "(\<Sum>x \<leftarrow> xs. 1 + enc_bytes rt x) = int (sum_list (map (\<lambda>x. length (utf8 (enc rt x))) xs) + length xs)"
    by (induction xs) (simp_all add: enc_bytes_def)
  then show ?thesis by (simp add: enc_bytes_def utf8_simps utf8_char_ascii items_length)
qed

lemma enc_bytes_hash: "is_hash h \<Longrightarrow> enc_bytes rt (JStr h) = 66"
  using hash_cost [of h] by (simp add: enc_bytes_def text_cost_def)

lemma enc_bytes_header:
  assumes "ledger_runtime rt" "commitment_ok rt c"
  shows "enc_bytes rt (LedgerCommitment_to_dict rt c) \<le> 600"
  using header_cost [OF assms] enc_cost [of text_cost rt "LedgerCommitment_to_dict rt c"] by (simp add: enc_bytes_def)

lemma siblings_bytes:
  assumes "\<forall>s \<in> set ss. is_hash s" "length ss \<le> max_siblings"
  shows "enc_bytes rt (JArr (map JStr ss)) \<le> 1141"
proof -
  have "(\<Sum>x \<leftarrow> map JStr ss. 1 + enc_bytes rt x) = int (length ss) * 67"
    using assms(1) by (induction ss) (simp_all add: enc_bytes_hash algebra_simps)
  then show ?thesis using enc_bytes_arr [of rt "map JStr ss"] assms(2) by (simp add: max_siblings_def)
qed

subsection \<open>Freezing\<close>

lemma freeze_siblings:
  "\<forall>s \<in> set ss. is_hash s \<Longrightarrow> d \<le> max_attribute_depth \<Longrightarrow> int (length ss) \<le> b
    \<Longrightarrow> freeze_items True d b (map JStr ss) = Inr (b - int (length ss))"
  by (induction ss arbitrary: b) (simp_all add: freeze_scalars hash_xml(1))

lemma member_keys [simp]: "is_xml_character (U ''entry'')" "is_xml_character (U ''siblings'')"
  by (simp_all add: is_xml_character_def U_def)

definition member_ready :: "runtime \<Rightarrow> member_proof \<Rightarrow> bool" where
  "member_ready rt m \<longleftrightarrow> (\<exists>e. storable e \<and> le_event (mp_entry m) = EvidenceEvent_to_dict e \<and> le_event_id (mp_entry m) = ev_id e)
     \<and> is_hash (le_previous (mp_entry m)) \<and> is_hash (le_digest (mp_entry m))
     \<and> 0 \<le> le_sequence (mp_entry m) \<and> le_sequence (mp_entry m) < max_ledger_entries \<and> small_receipt rt (mp_entry m)
     \<and> (\<forall>s \<in> set (mp_siblings m). is_hash s) \<and> length (mp_siblings m) \<le> max_siblings"

lemma freeze_member:
  assumes "member_ready rt m" "max_attribute_nodes + 100 \<le> b"
  shows "\<exists>b'. freeze True (- 2) b (LedgerMemberProof_to_dict m) = Inr b' \<and> b - max_attribute_nodes - 100 \<le> b'"
proof -
  from assms(1) obtain e where e: "storable e" "le_event (mp_entry m) = EvidenceEvent_to_dict e" "le_event_id (mp_entry m) = ev_id e"
    by (auto simp: member_ready_def)
  then have "frozen (le_event (mp_entry m))" "is_xml_character (le_event_id (mp_entry m))"
    by (auto simp: storable_def event_ok_def text_ok_def)
  then obtain b' where b': "freeze True (- 1) (b - 1) (LedgerEntry_to_dict (mp_entry m)) = Inr b'" "b - 1 - max_attribute_nodes - 10 \<le> b'"
    using freeze_entry [of "mp_entry m" "b - 1"] assms by (auto simp: member_ready_def)
  then have "freeze_items True 0 (b' - 1) (map JStr (mp_siblings m)) = Inr (b' - 1 - int (length (mp_siblings m)))"
    using assms by (intro freeze_siblings) (auto simp: member_ready_def max_siblings_def max_attribute_depth_def)
  then show ?thesis
    using b' assms
    by (simp add: LedgerMemberProof_to_dict_def freeze_scalars max_attribute_depth_def max_attribute_nodes_def member_ready_def max_siblings_def)
qed

lemma member_bytes:
  assumes "member_ready rt m"
  shows "enc_bytes rt (LedgerMemberProof_to_dict m) \<le> 411000"
proof -
  have k: "text_cost (U ''entry'') = 7" "text_cost (U ''siblings'') = 10" by code_simp+
  have "enc_bytes rt (JArr (map JStr (mp_siblings m))) \<le> 1141"
    by (rule siblings_bytes) (use assms in \<open>simp_all add: member_ready_def\<close>)
  moreover have "enc_bytes rt (LedgerEntry_to_dict (mp_entry m)) \<le> 409600"
    using assms by (simp add: member_ready_def small_receipt_def entry_size_enc)
  ultimately show ?thesis
    using enc_bytes_obj [of rt "[(U ''entry'', LedgerEntry_to_dict (mp_entry m)), (U ''siblings'', JArr (map JStr (mp_siblings m)))]"]
    by (simp add: LedgerMemberProof_to_dict_def k)
qed

subsection \<open>One member\<close>

lemma member_ready_receipt:
  assumes rt: "ledger_runtime rt" "iso_contract rt" and m: "member_ready rt m"
  shows "receipt_bytes rt (mp_entry m) = Inr (canonical_bytes rt (LedgerEntry_to_dict (mp_entry m)))"
    "LedgerEntry_from_dict rt (LedgerEntry_to_dict (mp_entry m)) = Inr (mp_entry m)"
    "json_finite (LedgerEntry_to_dict (mp_entry m))"
proof -
  obtain e where e: "storable e" "le_event (mp_entry m) = EvidenceEvent_to_dict e" "le_event_id (mp_entry m) = ev_id e"
    using m by (auto simp: member_ready_def)
  let ?x = "mp_entry m"
  have x: "?x = \<lparr>le_sequence = le_sequence ?x, le_event_id = ev_id e, le_event = EvidenceEvent_to_dict e,
      le_previous = le_previous ?x, le_digest = le_digest ?x\<rparr>" using e(2,3) by simp
  have rep: "repr_contract rt" using rt(1) by (simp add: ledger_runtime_def)
  note f = m [unfolded member_ready_def]
  show "receipt_bytes rt ?x = Inr (canonical_bytes rt (LedgerEntry_to_dict ?x))"
    by (rule receipt_bytes_small [OF rep rt(2) e(1) x]) (use f in simp_all)
  show "LedgerEntry_from_dict rt (LedgerEntry_to_dict ?x) = Inr ?x"
    by (subst (1 2) x, rule LedgerEntry_reparse [OF e(1) rt(2)]) (use f in simp_all)
  show "json_finite (LedgerEntry_to_dict ?x)"
    using e by (simp add: LedgerEntry_to_dict_def storable_def EvidenceEvent_to_dict_finite)
qed

lemma member_document:
  "member_object (LedgerMemberProof_to_dict m) [''entry'', ''siblings''] ''member''
    = Inr [(U ''entry'', LedgerEntry_to_dict (mp_entry m)), (U ''siblings'', JArr (map JStr (mp_siblings m)))]"
  by (auto simp: member_object_def LedgerMemberProof_to_dict_def)

lemma LedgerMemberProof_roundtrip:
  assumes rt: "ledger_runtime rt" "iso_contract rt" and m: "member_ready rt m"
  shows "LedgerMemberProof_from_dict rt (LedgerMemberProof_to_dict m) = Inr m"
proof -
  have rep: "repr_contract rt" using rt(1) by (simp add: ledger_runtime_def)
  have hs: "\<forall>s \<in> set (mp_siblings m). is_hash s" "length (mp_siblings m) \<le> max_siblings"
    using m by (simp_all add: member_ready_def)
  have "preflight rt (LedgerMemberProof_to_dict m) = Inr ()"
    using freeze_member [OF m, of "max_attribute_nodes + 100"] preflight_small [OF rep, of "- 2"] member_bytes [OF m] by fastforce
  then show ?thesis
    using member_ready_receipt [OF assms] hs
    by (simp add: LedgerMemberProof_from_dict_def member_document sibling_array_def rmap_hash_JStr LedgerMemberProof_init_def)
qed

subsection \<open>The bundle\<close>

lemma bundle_keys [simp]:
  "is_xml_character (U ''kind'')" "is_xml_character (U ''schema_version'')" "is_xml_character (U ''commitment'')"
  "is_xml_character (U ''members'')" "is_xml_character (U ''ledger_version'')" "is_xml_character (U ''genesis'')"
  "is_xml_character (U ''head_digest'')" "is_xml_character (U ''entry_count'')" "is_xml_character (U ''root_hash'')"
  "is_xml_character (U ''commitment_digest'')" "is_xml_character (U ''1.0'')" "is_xml_character (U ''2.0'')"
  "is_xml_character (U ''evidence-braid-ledger-commitment'')" "is_xml_character (U ''evidence-braid-ledger-membership'')"
  by (simp_all add: is_xml_character_def U_def)

lemma freeze_header:
  assumes "ledger_runtime rt" "commitment_ok rt c" "10 \<le> b"
  shows "freeze True (- 3) b (LedgerCommitment_to_dict rt c) = Inr (b - 9)"
proof -
  note f = commitment_ok_fields [OF assms(2)]
  have "\<bar>lc_count c\<bar> \<le> max_attribute_integer"
    by (rule small_count) (use f(5,6) in \<open>simp add: max_ledger_entries_def\<close>)
  moreover have "is_xml_character (lc_version c)" using f(1) by auto
  ultimately show ?thesis
    using assms(3) f(2-4) hash_xml(1) commitment_digest_hex [OF assms(1), of c]
    by (simp add: LedgerCommitment_to_dict_def commitment_body_def JText_def freeze_scalars max_attribute_depth_def)
qed

definition bundle_ready :: "runtime \<Rightarrow> membership_bundle \<Rightarrow> bool" where
  "bundle_ready rt b \<longleftrightarrow> commitment_ok rt (mb_commitment b) \<and> (\<exists>m. mb_members b = [m] \<and> member_ready rt m)
     \<and> MembershipBundle_init rt (mb_commitment b) (mb_members b) = Inr b"

lemma bundle_admitted:
  assumes rt: "ledger_runtime rt" and b: "bundle_ready rt b"
  shows "preflight rt (MembershipBundle_to_dict rt b) = Inr ()" "enc_bytes rt (MembershipBundle_to_dict rt b) \<le> 420000"
proof -
  obtain m where m: "mb_members b = [m]" "member_ready rt m" and c: "commitment_ok rt (mb_commitment b)"
    using b by (auto simp: bundle_ready_def)
  have rep: "repr_contract rt" using rt by (simp add: ledger_runtime_def)
  have k: "text_cost (U ''kind'') = 6" "text_cost (U ''schema_version'') = 16" "text_cost (U ''commitment'') = 12"
    "text_cost (U ''members'') = 9" "text_cost (U ''evidence-braid-ledger-membership'') = 34" "text_cost (U ''1.0'') = 5"
    by code_simp+
  have "enc_bytes rt (JStr s) = int (text_cost s)" for s by (simp add: enc_bytes_def text_cost_def)
  then show size: "enc_bytes rt (MembershipBundle_to_dict rt b) \<le> 420000"
    using enc_bytes_obj [of rt "[(U ''kind'', JText ''evidence-braid-ledger-membership''), (U ''schema_version'', JText ''1.0''),
        (U ''commitment'', LedgerCommitment_to_dict rt (mb_commitment b)), (U ''members'', JArr [LedgerMemberProof_to_dict m])]"]
      enc_bytes_arr [of rt "[LedgerMemberProof_to_dict m]"] enc_bytes_header [OF rt c] member_bytes [OF m(2)] m(1)
    by (simp add: MembershipBundle_to_dict_def JText_def k)
  have "\<exists>b'. freeze True (- 4) (max_attribute_nodes + 200) (MembershipBundle_to_dict rt b) = Inr b'"
    using freeze_member [OF m(2), of "max_attribute_nodes + 200 - 1 - 2 - 9 - 1"] m(1)
    by (auto simp: MembershipBundle_to_dict_def JText_def freeze_scalars max_attribute_depth_def max_attribute_nodes_def
        freeze_header [OF rt c])
  then show "preflight rt (MembershipBundle_to_dict rt b) = Inr ()"
    using preflight_small [OF rep, of "- 4"] size by fastforce
qed

lemma MembershipBundle_roundtrip:
  assumes rt: "ledger_runtime rt" "iso_contract rt" and b: "bundle_ready rt b"
  shows "MembershipBundle_from_dict rt (MembershipBundle_to_dict rt b) = Inr b"
proof -
  obtain m where m: "mb_members b = [m]" "member_ready rt m" and c: "commitment_ok rt (mb_commitment b)"
    and init: "MembershipBundle_init rt (mb_commitment b) (mb_members b) = Inr b"
    using b by (auto simp: bundle_ready_def)
  let ?kvs = "[(U ''kind'', JText ''evidence-braid-ledger-membership''), (U ''schema_version'', JText ''1.0''),
      (U ''commitment'', LedgerCommitment_to_dict rt (mb_commitment b)), (U ''members'', JArr [LedgerMemberProof_to_dict m])]"
  have doc: "member_object (MembershipBundle_to_dict rt b) [''kind'', ''schema_version'', ''commitment'', ''members''] ''bundle'' = Inr ?kvs"
    using m(1) by (auto simp: member_object_def MembershipBundle_to_dict_def)
  note r = member_ready_receipt [OF rt m(2)]
  have entry: "jget (LedgerMemberProof_to_dict m) (U ''entry'') = Some (LedgerEntry_to_dict (mp_entry m))"
    by (simp add: LedgerMemberProof_to_dict_def)
  have small: "int (length (canonical_bytes rt (LedgerEntry_to_dict (mp_entry m)))) \<le> max_receipt_bytes"
    using m(2) by (simp add: member_ready_def small_receipt_def entry_size_def max_receipt_bytes_def)
  have sizes: "entry_sizes rt 0 [LedgerMemberProof_to_dict m] = Inr ()"
    using r(3) entry small by (simp add: membership_canonical_def canonical_json_def canonical_bytes_def)
  have fin: "json_finite (MembershipBundle_to_dict rt b)"
    using r(3) m(1) by (simp add: MembershipBundle_to_dict_def LedgerMemberProof_to_dict_def LedgerCommitment_to_dict_def
        commitment_body_def list_all_iff)
  have "int (length (canonical_bytes rt (MembershipBundle_to_dict rt b))) \<le> max_bundle_bytes"
    using bundle_admitted(2) [OF rt(1) b]
    by (simp add: enc_bytes_def canonical_bytes_def dumps_def enc_length_canon max_bundle_bytes_def)
  then have raw: "MembershipBundle_to_bytes rt b = Inr (canonical_bytes rt (MembershipBundle_to_dict rt b))"
    using bundle_admitted(1) [OF rt(1) b] fin
    by (simp add: MembershipBundle_to_bytes_def membership_canonical_def canonical_json_def canonical_bytes_def require_def)
  have "length (mp_siblings m) \<le> max_siblings" using m(2) by (simp add: member_ready_def)
  then show ?thesis
    using doc sizes bundle_admitted(1) [OF rt(1) b] LedgerCommitment_roundtrip [OF rt(1) c] LedgerMemberProof_roundtrip [OF rt m(2)]
      init raw m(1)
    by (simp add: MembershipBundle_from_dict_def member_document sibling_array_def require_def)
qed

subsection \<open>Bundles of the index\<close>

lemma honest_commitment_ok:
  fixes idx :: ledger_index
  assumes "ledger_runtime rt" "iso_contract rt" "ledger_verify rt (li_ledger idx) None"
  shows "commitment_ok rt (honest_commitment rt (li_ledger idx))"
  using LedgerProofIndex_init_Inr [OF assms] unfolding LedgerProofIndex_init_def Let_def
  by (elim rbindE) (auto dest: LedgerCommitment_init_ok)

lemma proved_bundle_ready:
  fixes idx :: ledger_index
  assumes rt: "ledger_runtime rt" "iso_contract rt"
    and es: "\<forall>e \<in> set es. storable e" "distinct (map ev_id es)" "int (length es) \<le> max_ledger_entries"
    and l: "build_ledger rt es = Inr (li_ledger idx)"
    and seq: "0 \<le> seq" "seq < int (length es)" and small: "small_receipt rt (lg_entries (li_ledger idx) ! nat seq)"
  shows "\<exists>P b. LedgerProofIndex_init rt idx = Inr P \<and> prove rt P seq = Inr b \<and> bundle_ready rt b
    \<and> mb_commitment b = honest_commitment rt (li_ledger idx) \<and> mb_members b = [proof_of rt (li_ledger idx) seq]"
proof -
  let ?l = "li_ledger idx" and ?i = "nat seq"
  have built: "map le_event (lg_entries ?l) = map EvidenceEvent_to_dict (ledger_order es)" "ledger_events_are ?l (ledger_order es)"
    "ledger_verify rt ?l None"
    using build_ledger_Inr [OF rt es] l by auto
  have len: "length (lg_entries ?l) = length es" using arg_cong [OF built(1), of length] by simp
  then have i: "?i < length (lg_entries ?l)" "seq < int (length (lg_entries ?l))" using seq by simp_all
  let ?x = "lg_entries ?l ! ?i" and ?e = "ledger_order es ! ?i"
  have x: "le_event ?x = EvidenceEvent_to_dict ?e" using arg_cong [OF built(1), of "\<lambda>xs. xs ! ?i"] i len by simp
  have holds: "entry_holds ?x ?e" using built(2) i by (auto simp: ledger_events_are_def list_all2_conv_all_nth)
  have "storable ?e" using es(1) i len nth_mem [of ?i "ledger_order es"] by simp
  moreover have "le_sequence ?x = int ?i" by (rule verified_sequence [OF rt built(3) i(1)])
  moreover have "length (route_loop seq (int (length (lg_entries ?l)))) \<le> max_siblings"
    by (rule receipt_sibling_bound) (use es(3) len in simp)
  ultimately have ready: "member_ready rt (proof_of rt ?l seq)"
    using holds x small proof_of_siblings [OF rt(1), of ?l seq] i es(3) len
    by (auto simp: member_ready_def proof_of_def entry_holds_def)
  obtain P where P: "LedgerProofIndex_init rt idx = Inr P" using LedgerProofIndex_init_Inr [OF rt built(3)] by simp
  obtain raw where raw: "receipt_bytes rt ?x = Inr raw" using built_receipt [OF rt es l i(1) small] by blast
  note pr = prove_Inr [OF rt built(3) P seq(1) i(2) raw]
  moreover have "bundle_ready rt \<lparr>mb_commitment = honest_commitment rt ?l, mb_members = [proof_of rt ?l seq]\<rparr>"
    using pr ready honest_commitment_ok [OF rt built(3)]
    unfolding bundle_ready_def prove_def by (auto elim!: rbindE simp: MembershipBundle_init_def)
  ultimately show ?thesis using P by auto
qed

text \<open>A generated consistency proof is as its constructor and its commitments' constructor accept it.\<close>

lemma proved_consistency_ok:
  assumes "prove_ledger_consistency rt P c = Inr p" "commitment_ok rt c" "commitment_ok rt (pi_commitment P)"
  shows "consistency_ok rt p \<and> cp_old p = c \<and> cp_new p = pi_commitment P"
  using assms unfolding prove_ledger_consistency_def Let_def
  by (elim rbindE) (frule LedgerConsistencyProof_init_id, auto simp: consistency_ok_def)

lemma proved_consistency_accepted:
  fixes idx :: ledger_index
  assumes rt: "ledger_runtime rt" "iso_contract rt" and v: "ledger_verify rt (li_ledger idx) None"
    and p: "LedgerProofIndex_init rt idx = Inr P"
      "prove_ledger_consistency rt P (honest_commitment rt (ledger_prefix (li_ledger idx) n)) = Inr p"
  shows "consistency_ok rt p"
proof -
  have "ledger_verify rt (ledger_prefix (li_ledger idx) n) None" using ledger_verify_take [OF v] by (simp add: ledger_prefix_def)
  then have "commitment_ok rt (honest_commitment rt (ledger_prefix (li_ledger idx) n))"
    using honest_commitment_ok [OF rt, of "idx\<lparr>li_ledger := ledger_prefix (li_ledger idx) n\<rparr>"] by simp
  moreover have "pi_commitment P = honest_commitment rt (li_ledger idx)" using p(1) LedgerProofIndex_init_Inr [OF rt v] by auto
  ultimately show ?thesis using proved_consistency_ok [OF p(2)] honest_commitment_ok [OF rt v] by simp
qed

text \<open>The bundles of a built ledger verify.\<close>

lemma proved_bundle_verifies:
  fixes idx :: ledger_index
  assumes rt: "ledger_runtime rt" "iso_contract rt"
    and es: "\<forall>e \<in> set es. storable e" "distinct (map ev_id es)" "int (length es) \<le> max_ledger_entries"
    and l: "build_ledger rt es = Inr (li_ledger idx)"
    and seq: "0 \<le> seq" "seq < int (length es)" and small: "small_receipt rt (lg_entries (li_ledger idx) ! nat seq)"
  shows "\<exists>P b. LedgerProofIndex_init rt idx = Inr P \<and> prove rt P seq = Inr b
    \<and> verify_ledger_membership rt b (commitment_digest rt (pi_commitment P)) = Inr [lg_entries (li_ledger idx) ! nat seq]"
proof -
  have built: "map le_event (lg_entries (li_ledger idx)) = map EvidenceEvent_to_dict (ledger_order es)"
    "ledger_verify rt (li_ledger idx) None"
    using build_ledger_Inr [OF rt es] l by auto
  have len: "length (lg_entries (li_ledger idx)) = length es" using arg_cong [OF built(1), of length] by simp
  obtain raw where "receipt_bytes rt (lg_entries (li_ledger idx) ! nat seq) = Inr raw"
    using built_receipt [OF rt es l _ small] seq len by (auto simp: nat_less_iff)
  from membership_complete [OF rt built(2) seq(1) _ this] show ?thesis using seq(2) len by simp
qed

end
