(* ===== verification/Sample_Tree.thy ===== *)
theory Sample_Tree
  imports Sample_Records Membership_Roundtrip
begin

text \<open>
  A ledger of two reports with its index, membership and consistency proofs, at which the properties of proofs are applied. Its
  runtime tells the hashed documents apart by their tag: leaves by their last bytes, all others by their first.
\<close>

definition tree_hash :: "bytes \<Rightarrow> ustr" where
  "tree_hash b =
     (case drop (length membership_domain) b of
        [] \<Rightarrow> sample_hash [0]
      | t # rest \<Rightarrow> if t = 76 then sample_hash (rest @ [1]) else sample_hash (rev (take 31 rest) @ [t]))"

definition tree_runtime :: runtime where
  "tree_runtime = sample_runtime\<lparr>rt_sha256 := tree_hash\<rparr>"

lemma tree_hex: "is_hash (tree_hash b)"
  by (auto simp: tree_hash_def sample_hash_is_hash split: list.splits)

lemma tree_ledger_runtime: "ledger_runtime tree_runtime"
proof -
  have "repr_contract tree_runtime" using sample_repr by (simp add: repr_contract_def tree_runtime_def)
  then show ?thesis by (simp add: ledger_runtime_def sha256_hex_def tree_hex tree_runtime_def)
qed

lemma tree_iso: "iso_contract tree_runtime"
  using sample_iso by (simp add: iso_contract_def tree_runtime_def)

subsection \<open>The hashed documents\<close>

lemma leaf_suffix:
  assumes "0 \<le> le_sequence x" "le_sequence x < 10"
  shows "\<exists>p. leaf_content rt v x = p @ [48 + nat (le_sequence x), 125, 125]"
proof -
  have "U ''ledger_version'' < U ''receipt''" by code_simp
  then obtain p where p: "leaf_content rt v x = p @ canonical_bytes rt (LedgerEntry_to_dict x) @ [125]"
    using canonical_bytes_last [of "U ''receipt''" "LedgerEntry_to_dict x"
        "[(U ''ledger_version'', JStr v), (U ''receipt'', LedgerEntry_to_dict x)]" rt]
    by (auto simp: leaf_content_def)
  have "U ''event_id'' < U ''sequence''" "U ''event'' < U ''sequence''" "U ''previous_digest'' < U ''sequence''"
    "U ''digest'' < U ''sequence''" by code_simp+
  then obtain q where q: "canonical_bytes rt (LedgerEntry_to_dict x)
      = q @ utf8 (str_enc (U ''sequence'')) @ 58 # canonical_bytes rt (JInt (le_sequence x)) @ [125]"
    unfolding LedgerEntry_to_dict_def
    using canonical_bytes_last [of "U ''sequence''" "JInt (le_sequence x)"
        "[(U ''sequence'', JInt (le_sequence x)), (U ''event_id'', JStr (le_event_id x)), (U ''event'', le_event x),
          (U ''previous_digest'', JStr (le_previous x)), (U ''digest'', JStr (le_digest x))]" rt]
    by auto
  show ?thesis using p q digit_bytes [OF assms, of rt]
    by (intro exI [of _ "p @ q @ utf8 (str_enc (U ''sequence'')) @ [58]"]) simp
qed

lemma commitment_first:
  assumes "0 \<le> lc_count c" "lc_count c < 10"
  shows "\<exists>s. canonical_bytes rt (JObj (commitment_body c)) = 123 # utf8 (str_enc (U ''entry_count'')) @ [58, 48 + nat (lc_count c)] @ s"
proof -
  have "U ''entry_count'' < U ''kind''" "U ''entry_count'' < U ''schema_version''" "U ''entry_count'' < U ''ledger_version''"
    "U ''entry_count'' < U ''genesis''" "U ''entry_count'' < U ''head_digest''" "U ''entry_count'' < U ''root_hash''"
    by code_simp+
  then obtain s where "canonical_bytes rt (JObj (commitment_body c))
      = 123 # utf8 (str_enc (U ''entry_count'')) @ 58 # canonical_bytes rt (JInt (lc_count c)) @ s"
    using canonical_bytes_first [of "U ''entry_count''" "JInt (lc_count c)" "commitment_body c" rt]
    by (auto simp: commitment_body_def)
  then show ?thesis using digit_bytes [OF assms, of rt] by simp
qed

text \<open>What the runtime hashes instead: the ends differ between the kinds, and within each kind by position or count.\<close>

lemma tree_leaf:
  assumes "0 \<le> le_sequence x" "le_sequence x < 10"
  shows "\<exists>p. rt_sha256 tree_runtime (leaf_input tree_runtime v x) = sample_hash (p @ [48 + nat (le_sequence x), 125, 125, 1])"
proof -
  obtain p where "leaf_content tree_runtime v x = p @ [48 + nat (le_sequence x), 125, 125]" using leaf_suffix [OF assms] by blast
  then show ?thesis by (intro exI [of _ p]) (simp add: leaf_input_def tree_runtime_def tree_hash_def U_def)
qed

lemma tree_commitment:
  assumes "0 \<le> lc_count c" "lc_count c < 10"
  shows "\<exists>p. rt_sha256 tree_runtime (commitment_input tree_runtime c)
    = sample_hash (p @ (48 + nat (lc_count c)) # 58 # rev (utf8 (str_enc (U ''entry_count''))) @ [123, 67])"
proof -
  obtain s where s: "canonical_bytes tree_runtime (JObj (commitment_body c))
      = (123 # utf8 (str_enc (U ''entry_count'')) @ [58, 48 + nat (lc_count c)]) @ s"
    using commitment_first [OF assms, of tree_runtime] by auto
  have len: "length (123 # utf8 (str_enc (U ''entry_count'')) @ [58, 48 + nat (lc_count c)]) = 16"
    by (simp add: U_def str_enc_def esc_def utf8_def utf8_char_def)
  show ?thesis
    unfolding commitment_input_def s
    by (intro exI [of _ "rev (take 15 s)"]) (use len in \<open>simp add: tree_runtime_def tree_hash_def U_def take_append\<close>)
qed

lemma tree_node: "\<exists>p. rt_sha256 tree_runtime (node_input rt a b) = sample_hash (p @ [78])"
  by (intro exI [of _ "rev (take 31 (fromhex a @ fromhex b))"]) (simp add: node_input_def tree_runtime_def tree_hash_def U_def)

text \<open>So a set of leaves, commitments and one inner node, told apart by position and by count, has no collision.\<close>

lemma entry_count_bytes: "list_all (\<lambda>b. b < 256) (utf8 (str_enc (U ''entry_count'')))" "length (utf8 (str_enc (U ''entry_count''))) = 13"
  by (simp_all add: U_def str_enc_def esc_def utf8_def utf8_char_def)

lemma tree_collision_free:
  assumes xs: "\<forall>x \<in> xs. 0 \<le> le_sequence x \<and> le_sequence x < 10" "inj_on le_sequence xs"
    and cs: "\<forall>c \<in> cs. 0 \<le> lc_count c \<and> lc_count c < 10" "inj_on lc_count cs"
    and S: "S \<subseteq> leaf_input tree_runtime v ` xs \<union> commitment_input tree_runtime ` cs \<union> {node_input tree_runtime a b}"
  shows "collision_free tree_runtime S"
proof -
  let ?h = "rt_sha256 tree_runtime"
  have leaf: "\<exists>p. ?h (leaf_input tree_runtime v x) = sample_hash (p @ [48 + nat (le_sequence x), 125, 125, 1])" if "x \<in> xs" for x
    using tree_leaf xs(1) that by blast
  have com: "\<exists>p. ?h (commitment_input tree_runtime c)
      = sample_hash (p @ (48 + nat (lc_count c)) # 58 # rev (utf8 (str_enc (U ''entry_count''))) @ [123, 67])" if "c \<in> cs" for c
    using tree_commitment cs(1) that by blast
  obtain n where node: "?h (node_input tree_runtime a b) = sample_hash (n @ [78])" using tree_node by blast
  have ll: "x = y" if m: "x \<in> xs" "y \<in> xs" "?h (leaf_input tree_runtime v x) = ?h (leaf_input tree_runtime v y)" for x y
  proof -
    obtain p q where "sample_hash (p @ [48 + nat (le_sequence x), 125, 125, 1]) = sample_hash (q @ [48 + nat (le_sequence y), 125, 125, 1])"
      using leaf [OF m(1)] leaf [OF m(2)] m(3) by metis
    then have "[48 + nat (le_sequence x), 125, 125, 1] = [48 + nat (le_sequence y), 125, 125, 1]"
      by (rule sample_hash_suffix) (use xs(1) m in auto)
    then have "le_sequence x = le_sequence y" using xs(1) m by (simp add: eq_nat_nat_iff)
    then show ?thesis using xs(2) m by (auto dest: inj_onD)
  qed
  have cc: "c = d" if m: "c \<in> cs" "d \<in> cs" "?h (commitment_input tree_runtime c) = ?h (commitment_input tree_runtime d)" for c d
  proof -
    let ?t = "\<lambda>c. (48 + nat (lc_count c)) # 58 # rev (utf8 (str_enc (U ''entry_count''))) @ [123, 67]"
    obtain p q where "sample_hash (p @ ?t c) = sample_hash (q @ ?t d)"
      using com [OF m(1)] com [OF m(2)] m(3) by metis
    then have "?t c = ?t d"
      by (rule sample_hash_suffix) (use cs(1) m entry_count_bytes in \<open>auto simp: list_all_iff\<close>)
    then have "lc_count c = lc_count d" using cs(1) m by (simp add: eq_nat_nat_iff)
    then show ?thesis using cs(2) m by (auto dest: inj_onD)
  qed
  have leaf1: "\<exists>p. ?h (leaf_input tree_runtime v x) = sample_hash (p @ [1])" if "x \<in> xs" for x
    using leaf [OF that] by (metis append_Cons append_Nil append_assoc)
  have com1: "\<exists>p. ?h (commitment_input tree_runtime c) = sample_hash (p @ [67])" if "c \<in> cs" for c
    using com [OF that] by (metis append_Cons append_Nil append_assoc)
  have one: "sample_hash (p @ [x]) \<noteq> sample_hash (q @ [y])" if "x < 256" "y < 256" "x \<noteq> y" for p q x y
    using sample_hash_suffix [of p "[x]" q "[y]"] that by auto
  have lc: "?h (leaf_input tree_runtime v x) \<noteq> ?h (commitment_input tree_runtime c)" if "x \<in> xs" "c \<in> cs" for x c
    using leaf1 [OF that(1)] com1 [OF that(2)] one [where x = 1 and y = 67] by (elim exE) simp
  have ln: "?h (leaf_input tree_runtime v x) \<noteq> ?h (node_input tree_runtime a b)" if "x \<in> xs" for x
    using leaf1 [OF that] node one [where x = 1 and y = 78] by (elim exE) simp
  have cn: "?h (commitment_input tree_runtime c) \<noteq> ?h (node_input tree_runtime a b)" if "c \<in> cs" for c
    using com1 [OF that] node one [where x = 67 and y = 78] by (elim exE) simp
  have "inj_on ?h (leaf_input tree_runtime v ` xs \<union> commitment_input tree_runtime ` cs \<union> {node_input tree_runtime a b})"
    unfolding inj_on_def
  proof (intro ballI impI)
    fix u w
    assume "u \<in> leaf_input tree_runtime v ` xs \<union> commitment_input tree_runtime ` cs \<union> {node_input tree_runtime a b}"
      "w \<in> leaf_input tree_runtime v ` xs \<union> commitment_input tree_runtime ` cs \<union> {node_input tree_runtime a b}" "?h u = ?h w"
    then show "u = w" by (elim UnE imageE singletonE) (metis ll cc lc ln cn)+
  qed
  then show ?thesis unfolding collision_free_def by (rule inj_on_subset) (rule S)
qed

subsection \<open>The ledger, its index and its proofs\<close>

definition tree_events :: "evidence_event list" where
  "tree_events = take 2 sample_events"

definition tree_ledger :: evidence_ledger where
  "tree_ledger = projr (build_ledger tree_runtime tree_events)"

definition tree_head :: ustr where
  "tree_head = (case ledger_head tree_ledger of JStr h \<Rightarrow> h | _ \<Rightarrow> [])"

definition tree_index :: ledger_index where
  "tree_index = projr (LedgerIndex_init tree_runtime tree_ledger tree_head None)"

lemma tree_events_ok:
  "\<forall>e \<in> set tree_events. storable e" "distinct (map ev_id tree_events)" "int (length tree_events) \<le> max_ledger_entries"
  "length tree_events = 2" "set tree_events \<subseteq> set sample_events"
proof -
  show sub: "set tree_events \<subseteq> set sample_events" unfolding tree_events_def by (rule set_take_subset)
  then show "\<forall>e \<in> set tree_events. storable e" using sample_storable by auto
  show "distinct (map ev_id tree_events)" "int (length tree_events) \<le> max_ledger_entries" "length tree_events = 2"
    by (simp_all add: tree_events_def sample_events_def sample_event_def max_ledger_entries_def)
qed

lemma tree_ledger:
  "build_ledger tree_runtime tree_events = Inr tree_ledger" "lg_version tree_ledger = U ''2.0''"
  "map le_event (lg_entries tree_ledger) = map EvidenceEvent_to_dict (ledger_order tree_events)"
  "ledger_events_are tree_ledger (ledger_order tree_events)" "ledger_verify tree_runtime tree_ledger None"
  "length (lg_entries tree_ledger) = 2"
proof -
  obtain l where b: "build_ledger tree_runtime tree_events = Inr l" "lg_version l = U ''2.0''"
    "map le_event (lg_entries l) = map EvidenceEvent_to_dict (ledger_order tree_events)"
    "ledger_events_are l (ledger_order tree_events)" "ledger_verify tree_runtime l None"
    using build_ledger_Inr [OF tree_ledger_runtime tree_iso tree_events_ok(1-3)] by blast
  have eq: "tree_ledger = l" by (simp add: tree_ledger_def b(1))
  show l: "build_ledger tree_runtime tree_events = Inr tree_ledger" "lg_version tree_ledger = U ''2.0''"
    "map le_event (lg_entries tree_ledger) = map EvidenceEvent_to_dict (ledger_order tree_events)"
    "ledger_events_are tree_ledger (ledger_order tree_events)" "ledger_verify tree_runtime tree_ledger None"
    unfolding eq by (rule b)+
  show "length (lg_entries tree_ledger) = 2" using arg_cong [OF l(3), of length] tree_events_ok(4) by simp
qed

lemma tree_head: "ledger_head tree_ledger = JStr tree_head"
proof -
  obtain h where "ledger_head tree_ledger = JStr h"
    by (rule verified_parts [OF tree_ledger_runtime tree_iso tree_ledger(5)])
  then show ?thesis by (simp add: tree_head_def)
qed

lemma tree_event_weight: "e \<in> set sample_events \<Longrightarrow> json_weight tree_runtime (EvidenceEvent_to_dict e) \<le> 5000"
proof -
  have "length (format_timestamp 1000000) = 20" "length (format_timestamp 2000000) = 20" "length (format_timestamp 3000000) = 20"
    "length (format_timestamp 4000000) = 20" by code_simp+
  moreover have "length (float_str tree_runtime (Fin (3 / 4))) = 5" "length (float_str tree_runtime (Fin 1)) = 4"
    "length (float_str tree_runtime (Fin (1 / 2))) = 4"
    by (simp add: tree_runtime_def sample_runtime_def, code_simp)+
  ultimately show "e \<in> set sample_events \<Longrightarrow> ?thesis"
    by (auto simp: EvidenceEvent_to_dict_def sample_events_def sample_event_def)
qed

lemma tree_entry:
  assumes "i < 2"
  shows "le_sequence (lg_entries tree_ledger ! i) = int i" "entry_size tree_runtime (lg_entries tree_ledger ! i) \<le> 10000"
proof -
  let ?x = "lg_entries tree_ledger ! i" and ?e = "ledger_order tree_events ! i"
  show seq: "le_sequence ?x = int i"
    by (rule verified_sequence [OF tree_ledger_runtime tree_iso tree_ledger(5)]) (use assms tree_ledger(6) in simp)
  have len: "length (ledger_order tree_events) = 2" using tree_events_ok(4) by simp
  then have e: "?e \<in> set sample_events" using nth_mem [of i "ledger_order tree_events"] assms tree_events_ok(5) by auto
  have h: "entry_holds ?x ?e" using tree_ledger(4,6) assms by (auto simp: ledger_events_are_def list_all2_conv_all_nth)
  have ids: "length (ev_id ?e) = 2" using e by (auto simp: sample_events_def sample_event_def U_def)
  have event: "le_event ?x = EvidenceEvent_to_dict ?e"
    using arg_cong [OF tree_ledger(3), of "\<lambda>xs. xs ! i"] assms tree_ledger(6) len by simp
  have "json_weight tree_runtime (LedgerEntry_to_dict ?x) \<le> 10000"
    using h ids tree_event_weight [OF e] assms
    by (simp add: LedgerEntry_to_dict_def entry_holds_def event seq is_hash_length digit_length)
  then show "entry_size tree_runtime ?x \<le> 10000"
    using canonical_bytes_weight [of tree_runtime "LedgerEntry_to_dict ?x"] by (simp add: entry_size_def)
qed

lemma tree_entries: "set (lg_entries tree_ledger) = {lg_entries tree_ledger ! 0, lg_entries tree_ledger ! 1}"
  "lg_entries tree_ledger = [lg_entries tree_ledger ! 0, lg_entries tree_ledger ! 1]"
proof -
  show e: "lg_entries tree_ledger = [lg_entries tree_ledger ! 0, lg_entries tree_ledger ! 1]"
    by (rule nth_equalityI) (auto simp: tree_ledger(6) less_Suc_eq numeral_2_eq_2)
  show "set (lg_entries tree_ledger) = {lg_entries tree_ledger ! 0, lg_entries tree_ledger ! 1}"
    by (subst e) simp
qed

lemma tree_index:
  "LedgerIndex_init tree_runtime tree_ledger tree_head None = Inr tree_index" "li_ledger tree_index = tree_ledger"
proof -
  have "sum_list (map (entry_size tree_runtime) (lg_entries tree_ledger)) \<le> max_index_bytes"
    using tree_entry(2) [of 0] tree_entry(2) [of 1] by (subst tree_entries(2)) (simp add: max_index_bytes_def)
  from LedgerIndex_init_total [OF tree_ledger_runtime tree_iso tree_ledger(5) tree_head this]
  show "LedgerIndex_init tree_runtime tree_ledger tree_head None = Inr tree_index" "li_ledger tree_index = tree_ledger"
    unfolding tree_index_def by auto
qed

lemma tree_small: "i < 2 \<Longrightarrow> small_receipt tree_runtime (lg_entries tree_ledger ! i)"
  using tree_entry(2) [of i] by (simp add: small_receipt_def)

text \<open>With two leaves there is one inner node, in the ledger's tree and in every proof.\<close>

definition tree_root_input :: bytes where
  "tree_root_input = node_input tree_runtime (ledger_leaf tree_runtime tree_ledger 0) (ledger_leaf tree_runtime tree_ledger 1)"

lemma split_2: "split_at 2 = 1"
  by code_simp

lemma tree_node_inputs: "mtree.tree_inputs tree_runtime (ledger_leaf tree_runtime tree_ledger) 0 2 = {tree_root_input}"
  by (simp add: mtree.tree_inputs.simps [of _ _ 0 2] mtree.tree_inputs.simps [of _ _ 0 1] mtree.tree_inputs.simps [of _ _ 1 1]
      split_2 mtree.root_leaf tree_root_input_def)

lemma tree_ledger_inputs:
  "ledger_tree_inputs tree_runtime tree_ledger
    = leaf_input tree_runtime (U ''2.0'') ` set (lg_entries tree_ledger) \<union> {tree_root_input}"
  by (simp add: ledger_tree_inputs_def tree_ledger(2,6) tree_node_inputs)

lemma tree_sequences:
  "\<forall>x \<in> set (lg_entries tree_ledger). 0 \<le> le_sequence x \<and> le_sequence x < 10" "inj_on le_sequence (set (lg_entries tree_ledger))"
  using tree_entry(1) [of 0] tree_entry(1) [of 1] by (auto simp: tree_entries(1) inj_on_def)

definition tree_bundle :: membership_bundle where
  "tree_bundle = \<lparr>mb_commitment = honest_commitment tree_runtime tree_ledger, mb_members = [proof_of tree_runtime tree_ledger 0]\<rparr>"

lemma tree_siblings: "mp_siblings (proof_of tree_runtime tree_ledger 0) = [ledger_leaf tree_runtime tree_ledger 1]"
  by (simp add: proof_of_def tree_ledger(6) ledger_tree_def build_tree.simps [of _ _ 0 2] build_tree.simps [of _ _ 0 1]
      build_tree.simps [of _ _ 1 1] split_2)

lemma tree_bundle:
  "bundle_ready tree_runtime tree_bundle"
  "verify_ledger_membership tree_runtime tree_bundle (commitment_digest tree_runtime (honest_commitment tree_runtime tree_ledger))
    = Inr [lg_entries tree_ledger ! 0]"
  "collision_free tree_runtime (membership_inputs tree_runtime tree_ledger tree_bundle)"
proof -
  obtain P b where P: "LedgerProofIndex_init tree_runtime tree_index = Inr P"
    and pb: "prove tree_runtime P 0 = Inr b" "bundle_ready tree_runtime b"
    "mb_commitment b = honest_commitment tree_runtime tree_ledger" "mb_members b = [proof_of tree_runtime tree_ledger 0]"
    using proved_bundle_ready [OF tree_ledger_runtime tree_iso tree_events_ok(1-3), of tree_index 0] tree_ledger(1)
      tree_small [of 0] tree_events_ok(4)
    by (auto simp: tree_index(2))
  have "b = tree_bundle" using pb(3,4) by (simp add: tree_bundle_def)
  with pb have b: "prove tree_runtime P 0 = Inr tree_bundle" "bundle_ready tree_runtime tree_bundle" by simp_all
  show "bundle_ready tree_runtime tree_bundle" by (rule b(2))
  obtain raw where "receipt_bytes tree_runtime (lg_entries tree_ledger ! 0) = Inr raw"
    using built_receipt [OF tree_ledger_runtime tree_iso tree_events_ok(1-3) tree_ledger(1), of 0] tree_small [of 0] tree_ledger(6)
    by auto
  then show "verify_ledger_membership tree_runtime tree_bundle
      (commitment_digest tree_runtime (honest_commitment tree_runtime tree_ledger)) = Inr [lg_entries tree_ledger ! 0]"
    using membership_complete [OF tree_ledger_runtime tree_iso, of tree_index 0] P b(1)
      LedgerProofIndex_init_Inr [OF tree_ledger_runtime tree_iso, of tree_index]
    by (auto simp: tree_index(2) tree_ledger(5,6))
  have sub: "membership_inputs tree_runtime tree_ledger tree_bundle
      \<subseteq> leaf_input tree_runtime (U ''2.0'') ` set (lg_entries tree_ledger)
        \<union> commitment_input tree_runtime ` {honest_commitment tree_runtime tree_ledger}
        \<union> {node_input tree_runtime (ledger_leaf tree_runtime tree_ledger 0) (ledger_leaf tree_runtime tree_ledger 1)}"
    using tree_siblings
    by (auto simp: membership_inputs_def tree_bundle_def tree_ledger_inputs member_inputs_def honest_commitment_def tree_ledger(2,6)
        proof_of_def tree_entries(1) tree_entry(1) mtree.steps_def route_loop.simps [of 0 2] route_loop.simps [of 0 1] split_2
        tree_root_input_def ledger_leaf_def)
  show "collision_free tree_runtime (membership_inputs tree_runtime tree_ledger tree_bundle)"
    by (rule tree_collision_free [OF tree_sequences _ _ sub]) (simp_all add: honest_commitment_def tree_ledger(6))
qed

text \<open>The proof that the first report's ledger is a prefix.\<close>

definition tree_prefix :: evidence_ledger where
  "tree_prefix = ledger_prefix tree_ledger 1"

definition tree_consistency :: consistency_proof where
  "tree_consistency = \<lparr>cp_old = honest_commitment tree_runtime tree_prefix, cp_new = honest_commitment tree_runtime tree_ledger,
     cp_path = [ledger_leaf tree_runtime tree_ledger 1]\<rparr>"

lemma tree_prefix:
  "ledger_verify tree_runtime tree_prefix None" "lg_entries tree_prefix = [lg_entries tree_ledger ! 0]"
  "lg_version tree_prefix = U ''2.0''" "lc_count (honest_commitment tree_runtime tree_prefix) = 1"
  "lc_root (honest_commitment tree_runtime tree_prefix) = ledger_leaf tree_runtime tree_ledger 0"
proof -
  show "ledger_verify tree_runtime tree_prefix None"
    using ledger_verify_take [OF tree_ledger(5), of 1] by (simp add: tree_prefix_def ledger_prefix_def)
  show "lg_entries tree_prefix = [lg_entries tree_ledger ! 0]"
    by (simp add: tree_prefix_def ledger_prefix_def) (subst tree_entries(2), simp)
  show "lg_version tree_prefix = U ''2.0''" using tree_ledger(2) by (simp add: tree_prefix_def ledger_prefix_def)
  show "lc_count (honest_commitment tree_runtime tree_prefix) = 1"
    "lc_root (honest_commitment tree_runtime tree_prefix) = ledger_leaf tree_runtime tree_ledger 0"
    using prefix_commitment [of 1 tree_ledger tree_runtime] tree_ledger(6)
    by (simp_all add: tree_prefix_def mtree.root_leaf)
qed

lemma tree_consistency:
  "consistency_ok tree_runtime tree_consistency"
  "verify_ledger_consistency tree_runtime tree_consistency (commitment_digest tree_runtime (honest_commitment tree_runtime tree_prefix))
     (commitment_digest tree_runtime (honest_commitment tree_runtime tree_ledger)) = Inr ()"
  "collision_free tree_runtime (consistency_inputs tree_runtime tree_prefix tree_ledger tree_consistency)"
proof -
  let ?old = "honest_commitment tree_runtime tree_prefix" and ?new = "honest_commitment tree_runtime tree_ledger"
  note rt = tree_ledger_runtime tree_iso
  obtain P p where P: "LedgerProofIndex_init tree_runtime tree_index = Inr P"
    and p: "prove_ledger_consistency tree_runtime P ?old = Inr p"
    and v: "verify_ledger_consistency tree_runtime p (commitment_digest tree_runtime ?old)
      (commitment_digest tree_runtime (pi_commitment P)) = Inr ()"
    using consistency_complete [OF rt, of tree_index 1] by (auto simp: tree_index(2) tree_ledger(5,6) tree_prefix_def)
  have Pc: "pi_commitment P = ?new" "pi_tree P = Some (ledger_tree tree_runtime tree_ledger 0 2)"
    using P LedgerProofIndex_init_Inr [OF rt, of tree_index] tree_ledger(5,6) by (auto simp: tree_index(2))
  have "commitment_ok tree_runtime ?old" "commitment_ok tree_runtime ?new"
    using honest_commitment_ok [OF rt, of "tree_index\<lparr>li_ledger := tree_prefix\<rparr>"] honest_commitment_ok [OF rt, of tree_index]
    by (simp_all add: tree_prefix(1) tree_index(2) tree_ledger(5))
  then have ok: "consistency_ok tree_runtime p" "cp_old p = ?old" "cp_new p = ?new"
    using proved_consistency_ok [OF p] by (simp_all add: Pc)
  have "subproof (ledger_tree tree_runtime tree_ledger 0 2) 1 True = Inr [ledger_leaf tree_runtime tree_ledger 1]"
    by (simp add: ledger_tree_def build_tree.simps [of _ _ 0 2] build_tree.simps [of _ _ 0 1] build_tree.simps [of _ _ 1 1] split_2)
  then have "cp_path p = [ledger_leaf tree_runtime tree_ledger 1]"
    using p unfolding prove_ledger_consistency_def Let_def
    by (elim rbindE) (auto simp: Pc tree_prefix(4) dest!: LedgerConsistencyProof_init_id elim!: rbindE)
  then have "p = tree_consistency" using ok(2,3) by (simp add: tree_consistency_def)
  then show "consistency_ok tree_runtime tree_consistency"
    "verify_ledger_consistency tree_runtime tree_consistency (commitment_digest tree_runtime ?old)
      (commitment_digest tree_runtime ?new) = Inr ()"
    using ok(1) v by (simp_all add: Pc)
  have counts: "lc_count ?old = 1" "lc_count ?new = 2" using tree_prefix(4) by (simp_all add: honest_commitment_def tree_ledger(6))
  have sub: "consistency_inputs tree_runtime tree_prefix tree_ledger tree_consistency
      \<subseteq> leaf_input tree_runtime (U ''2.0'') ` set (lg_entries tree_ledger) \<union> commitment_input tree_runtime ` {?old, ?new}
        \<union> {node_input tree_runtime (ledger_leaf tree_runtime tree_ledger 0) (ledger_leaf tree_runtime tree_ledger 1)}"
    by (auto simp: consistency_inputs_def tree_consistency_def tree_ledger(2,6) tree_node_inputs counts tree_prefix ledger_tree_inputs_def
        mtree.tree_inputs.simps [of _ _ 0 1] mtree.recover_inputs.simps [of _ 1 2] mtree.recover_inputs.simps [of _ 1 1]
        recover.simps [of _ 1 1] split_2 tree_root_input_def tree_entries(1))
  show "collision_free tree_runtime (consistency_inputs tree_runtime tree_prefix tree_ledger tree_consistency)"
    by (rule tree_collision_free [OF tree_sequences _ _ sub]) (auto simp: counts inj_on_def)
qed

subsection \<open>A query\<close>

definition tree_query :: ledger_query where
  "tree_query = \<lparr>lq_event_ids = [], lq_claims = [U ''fire''], lq_sources = [], lq_modalities = [VISION, AUDIO], lq_signals = [],
     lq_groups = [], lq_observed_start = Some 1000000, lq_observed_end = Some 2000000, lq_ingested_start = None,
     lq_ingested_end = None\<rparr>"

lemma tree_parsed:
  assumes "list_all2 (\<lambda>x e. EvidenceEvent_from_dict tree_runtime (le_event x) ''event'' = Inr e) (lg_entries tree_ledger) es"
  shows "es = ledger_order tree_events"
proof (rule nth_equalityI)
  show len: "length es = length (ledger_order tree_events)"
    using list_all2_lengthD [OF assms] tree_ledger(6) tree_events_ok(4) by simp
  fix i
  assume i: "i < length es"
  let ?e = "ledger_order tree_events ! i"
  have "le_event (lg_entries tree_ledger ! i) = EvidenceEvent_to_dict ?e"
    using arg_cong [OF tree_ledger(3), of "\<lambda>xs. xs ! i"] i len tree_ledger(6) tree_events_ok(4) by simp
  moreover have "event_ok ?e" using nth_mem [of i "ledger_order tree_events"] i len tree_events_ok(1) by (auto simp: storable_def)
  ultimately show "es ! i = ?e"
    using assms i EvidenceEvent_roundtrip [OF _ tree_iso, of ?e] list_all2_lengthD [OF assms]
    by (auto simp: list_all2_conv_all_nth)
qed

lemma tree_query_matches:
  "map int (filter (\<lambda>i. query_matches tree_query (ledger_order tree_events ! i)) [0..<2]) = [0]"
proof -
  have order: "ledger_order tree_events = tree_events"
    by (simp add: ledger_order_def tree_events_def sample_events_def sample_event_def)
  have "query_matches tree_query (tree_events ! 0)" "\<not> query_matches tree_query (tree_events ! 1)"
    by (simp_all add: query_matches_def tree_query_def tree_events_def sample_events_def sample_event_def in_time_def in_range_def)
  then show ?thesis by (simp add: order upt_rec)
qed

end
