(* ===== verification/Sample_Policy.thy ===== *)
theory Sample_Policy
  imports Sample_Records
begin

text \<open>
  A policy document of schema 1 and the document it is migrated to, at which the properties of migration are applied.
\<close>

definition old_rule :: "(ustr \<times> json) list" where
  "old_rule = [(U ''support_threshold'', JFloat (Fin (1 / 2))), (U ''contradiction_threshold'', JFloat (Fin (1 / 2))),
     (U ''quorum'', JInt 2)]"

definition policy_document :: "int \<Rightarrow> (ustr \<times> json) list \<Rightarrow> json" where
  "policy_document version rule = JObj [(U ''schema_version'', JInt version), (U ''policy_id'', JText ''plant-7''),
     (U ''claims'', JObj [(U ''fire'', JObj rule)]), (U ''decay'', JObj [(U ''default_half_life_seconds'', JFloat (Fin 600))])]"

definition sample_old_policy :: json where
  "sample_old_policy = policy_document 1 old_rule"

definition sample_new_policy :: json where
  "sample_new_policy = policy_document 2 (old_rule @ [(U ''required_modalities'', JArr [])])"

lemma policy_texts:
  "text_ok (U ''policy.claims.'' @ U ''fire'' @ U ''.required_modalities'')"
  "text_ok (U ''added [] because schema 1 could not require a modality'')"
proof -
  have "visible_ascii ''policy.claims.fire.required_modalities''" by code_simp
  then show "text_ok (U ''policy.claims.'' @ U ''fire'' @ U ''.required_modalities'')"
    using text_ok_visible_ascii unfolding U_append [symmetric] by simp
  show "text_ok (U ''added [] because schema 1 could not require a modality'')"
    by (simp add: text_ok_def is_xml_character_def U_def stripped_def is_space_def)
qed

lemma policy_keys:
  "is_xml_character (U ''schema_version'')" "is_xml_character (U ''policy_id'')" "is_xml_character (U ''claims'')"
  "is_xml_character (U ''decay'')" "is_xml_character (U ''fire'')" "is_xml_character (U ''support_threshold'')"
  "is_xml_character (U ''contradiction_threshold'')" "is_xml_character (U ''quorum'')"
  "is_xml_character (U ''required_modalities'')" "is_xml_character (U ''default_half_life_seconds'')"
  by (rule visible_xml, code_simp)+

lemma sample_migration:
  "\<exists>report. migrate_policy_document sample_old_policy = Inr (sample_new_policy, report)"
  "is_ok (freeze_json False sample_new_policy)"
proof -
  have frozen: "is_ok (freeze False 0 max_attribute_nodes (policy_document v rule))"
    if "rule = old_rule \<or> rule = old_rule @ [(U ''required_modalities'', JArr [])]" for v rule
    using that by (auto simp: policy_document_def old_rule_def freeze_all policy_keys)
  show "is_ok (freeze_json False sample_new_policy)"
    using frozen by (auto simp: sample_new_policy_def freeze_json_def is_ok_iff)
  obtain b where b: "freeze False 0 max_attribute_nodes sample_old_policy = Inr b" using frozen by (auto simp: sample_old_policy_def is_ok_iff)
  let ?n = "\<lparr>note_path = U ''policy.claims.'' @ U ''fire'' @ U ''.required_modalities'',
    note_change = U ''added [] because schema 1 could not require a modality''\<rparr>"
  have mn: "MigrationNote_init (JStr (U ''policy.claims.'' @ U ''fire'' @ U ''.required_modalities''))
      (JText ''added [] because schema 1 could not require a modality'') = Inr ?n"
    using policy_texts by (simp add: MigrationNote_init_def text_value_id JText_def)
  then have "MigrationReport_init (JInt 1) (JInt 2) [?n] = Inr \<lparr>from_version = 1, to_version = 2, report_notes = [?n]\<rparr>"
    using small_count [of 1] small_count [of 2]
    by (simp add: MigrationReport_init_def nonnegative_int_Inr earliest_policy_schema_version_def current_policy_schema_version_def
        max_migration_notes_def MigrationNote_snapshot_def JText_def)
  with mn b show "\<exists>report. migrate_policy_document sample_old_policy = Inr (sample_new_policy, report)"
    by (simp add: migrate_policy_document_def sample_old_policy_def sample_new_policy_def policy_document_def freeze_json_def
        policy_schema_version_def dget_def dget_or_def earliest_policy_schema_version_def current_policy_schema_version_def
        upgrade_loop.simps [of 1] upgrade_loop.simps [of 2] upgrade_1_to_2_def policy_claims_def upgrade_claim_def old_rule_def)
qed

lemma sample_old_policy_read: "is_ok (Policy_from_dict sample_old_policy)"
proof -
  obtain report where m: "migrate_policy_document sample_old_policy = Inr (sample_new_policy, report)" using sample_migration by blast
  have keys: "text_ok (U ''fire'')" "text_ok (U ''plant-7'')" by (simp_all add: sample_texts)
  have "named_mapping [(U ''fire'', v)] path = Inr [(U ''fire'', v)]" for v :: "json" and path
    using keys by (simp add: named_mapping_def text_ok_def strip_fix_iff)
  moreover have "named_mapping [(U ''fire'', v)] path = Inr [(U ''fire'', v)]" for v :: "claim_rule" and path
    using keys by (simp add: named_mapping_def text_ok_def strip_fix_iff)
  moreover have counts: "positive_int (JInt 1) path = Inr 1" "positive_int (JInt 2) path = Inr 2" for path
    by (simp_all add: small_count)
  moreover have mods: "modality_tuple (JArr []) path = Inr []" for path
    by (simp add: modality_tuple_def canonical_text_tuple_def immutable_text_tuple_def)
  moreover obtain r where "ClaimRule_from_dict (JObj (old_rule @ [(U ''required_modalities'', JArr [])])) ''policy.claims'' = Inr r"
    using sample_doubles is_double_0_1
    by (simp add: ClaimRule_from_dict_def old_rule_def mapping_value_def only_fields_def claim_rule_fields_def dget_def dget_or_def
        number_value_Fin number_ok_def ClaimRule_init_def counts mods)
  moreover have zero: "number_value (JInt 0) path 0 None = Inr 0" for path
    by (simp add: number_value_def max_double_def)
  moreover have "named_mapping [] path = Inr ([] :: (ustr \<times> json) list)" "named_mapping [] path = Inr ([] :: (ustr \<times> rat) list)" for path
    by (simp_all add: named_mapping_def)
  moreover obtain d where "DecayPolicy_from_dict (JObj [(U ''default_half_life_seconds'', JFloat (Fin 600))]) ''policy.decay'' = Inr d"
    using sample_doubles is_double_0_1 zero
    by (simp add: DecayPolicy_from_dict_def mapping_value_def only_fields_def dget_def dget_or_def number_value_Fin number_ok_def
        named_mapping_def DecayPolicy_init_def)
  ultimately show ?thesis
    using m sample_doubles is_double_0_1 keys
    by (simp add: Policy_from_dict_def mapping_value_def policy_schema_version_def only_fields_def policy_fields_def dget_def dget_or_def
        required_string_def number_value_Fin number_ok_def parse_named_def parse_updates_def Policy_init_def
        sample_old_policy_def sample_new_policy_def policy_document_def JText_def is_ok_def
        current_policy_schema_version_def earliest_policy_schema_version_def)
qed

end
