(* ===== verification/Json_Parser.thy ===== *)
theory Json_Parser
  imports Values
begin

text \<open>
  Reading JSON: UTF-8 decoding, \<open>json.loads\<close> of the standard library with the hooks the code gives it, and \<open>_loads\<close>
  of io.py. A scanner returns the value and the rest of the text. Every syntax error is one \<open>ValueError\<close> (a
  \<open>JSONDecodeError\<close> is one); its position is not modelled. The interpreter's recursion limit, past which the decoder
  raises \<open>RecursionError\<close>, is the argument that bounds the nesting of containers. The main result is that canonical text
  reads back as the document it was written from.
\<close>

subsection \<open>UTF-8\<close>

definition continuation :: "nat \<Rightarrow> bool" where
  "continuation b \<longleftrightarrow> 128 \<le> b \<and> b < 192"

text \<open>\<open>bytes.decode("utf-8")\<close>: shortest forms of Unicode scalar values only.\<close>

fun utf8_decode :: "bytes \<Rightarrow> ustr option" where
  "utf8_decode [] = Some []"
| "utf8_decode (a # r) =
     (if a < 128 then map_option (Cons a) (utf8_decode r)
      else if 194 \<le> a \<and> a < 224 then
        (case r of b # r \<Rightarrow>
           if continuation b then map_option (Cons ((a - 192) * 64 + (b - 128))) (utf8_decode r) else None
         | _ \<Rightarrow> None)
      else if 224 \<le> a \<and> a < 240 then
        (case r of b # c # r \<Rightarrow>
           let x = (a - 224) * 4096 + (b - 128) * 64 + (c - 128) in
           if continuation b \<and> continuation c \<and> 2048 \<le> x \<and> \<not> (55296 \<le> x \<and> x < 57344)
           then map_option (Cons x) (utf8_decode r) else None
         | _ \<Rightarrow> None)
      else if 240 \<le> a \<and> a < 245 then
        (case r of b # c # d # r \<Rightarrow>
           let x = (a - 240) * 262144 + (b - 128) * 4096 + (c - 128) * 64 + (d - 128) in
           if continuation b \<and> continuation c \<and> continuation d \<and> 65536 \<le> x \<and> x < 1114112
           then map_option (Cons x) (utf8_decode r) else None
         | _ \<Rightarrow> None)
      else None)"

definition decode :: "bytes \<Rightarrow> ustr result" where
  "decode raw = (case utf8_decode raw of None \<Rightarrow> Inl (ValueError ''invalid UTF-8'') | Some s \<Rightarrow> Inr s)"

subsection \<open>Scanners\<close>

definition malformed :: "'a result" where
  "malformed = Inl (ValueError ''malformed JSON'')"

text \<open>The insignificant characters: blank, tabulator, line feed and carriage return.\<close>

definition is_ws :: "nat \<Rightarrow> bool" where
  "is_ws c \<longleftrightarrow> c = 32 \<or> c = 9 \<or> c = 10 \<or> c = 13"

definition skip_ws :: "ustr \<Rightarrow> ustr" where
  "skip_ws s = dropWhile is_ws s"

definition hex_digit_val :: "nat \<Rightarrow> nat option" where
  "hex_digit_val c =
     (if 48 \<le> c \<and> c \<le> 57 then Some (c - 48)
      else if 97 \<le> c \<and> c \<le> 102 then Some (c - 87)
      else if 65 \<le> c \<and> c \<le> 70 then Some (c - 55) else None)"

fun hex4 :: "ustr \<Rightarrow> (nat \<times> ustr) option" where
  "hex4 (a # b # c # d # r) =
     (case (hex_digit_val a, hex_digit_val b, hex_digit_val c, hex_digit_val d) of
        (Some w, Some x, Some y, Some z) \<Rightarrow> Some (((w * 16 + x) * 16 + y) * 16 + z, r)
      | _ \<Rightarrow> None)"
| "hex4 _ = None"

definition simple_escape :: "nat \<Rightarrow> nat option" where
  "simple_escape c =
     (if c = 34 \<or> c = 92 \<or> c = 47 then Some c else if c = 98 then Some 8 else if c = 102 then Some 12
      else if c = 110 then Some 10 else if c = 114 then Some 13 else if c = 116 then Some 9 else None)"

text \<open>
  The four digits after a backslash and a u, joined with the low half of a surrogate pair when that follows: the
  character and the rest of the text.
\<close>

definition unicode_escape :: "ustr \<Rightarrow> (nat \<times> ustr) option" where
  "unicode_escape s =
     (case hex4 s of
        None \<Rightarrow> None
      | Some (hi, r) \<Rightarrow>
          if 55296 \<le> hi \<and> hi < 56320 \<and> take 2 r = [92, 117]
          then (case hex4 (drop 2 r) of
                  None \<Rightarrow> None
                | Some (lo, r') \<Rightarrow>
                    if 56320 \<le> lo \<and> lo < 57344 then Some (65536 + (hi - 55296) * 1024 + (lo - 56320), r')
                    else Some (hi, r))
          else Some (hi, r))"

lemma hex4_length: "hex4 s = Some (x, r) \<Longrightarrow> length r < length s"
  by (induction s rule: hex4.induct) (auto split: option.splits)

lemma unicode_escape_length: "unicode_escape s = Some (x, r) \<Longrightarrow> length r < length s"
  using hex4_length [of s] hex4_length [of "drop 2 r'" for r']
  by (fastforce simp: unicode_escape_def split: option.splits if_splits)

text \<open>The text of a string after its opening quotation mark, with control characters refused.\<close>

function scan_string :: "ustr \<Rightarrow> (ustr \<times> ustr) result" where
  "scan_string [] = malformed"
| "scan_string (c # r) =
     (if c = 34 then Inr ([], r)
      else if c = 92 then
        (case r of
           [] \<Rightarrow> malformed
         | e # r' \<Rightarrow>
             if e = 117 then
               (case unicode_escape r' of
                  None \<Rightarrow> malformed
                | Some (x, r'') \<Rightarrow> rbind (scan_string r'') (\<lambda>(s, t). Inr (x # s, t)))
             else
               (case simple_escape e of
                  None \<Rightarrow> malformed
                | Some x \<Rightarrow> rbind (scan_string r') (\<lambda>(s, t). Inr (x # s, t))))
      else if c < 32 then malformed
      else rbind (scan_string r) (\<lambda>(s, t). Inr (c # s, t)))"
  by pat_completeness auto
termination
  by (relation "measure length") (auto dest: unicode_escape_length)

subsection \<open>Numbers\<close>

definition is_digit :: "nat \<Rightarrow> bool" where
  "is_digit c \<longleftrightarrow> 48 \<le> c \<and> c \<le> 57"

text \<open>
  The decoder's number grammar: a sign, an integer part without leading zeros, and a fraction and an exponent where
  they have a digit. The result is the literal, whether it has a fraction or an exponent, and the rest.
\<close>

definition scan_fraction :: "ustr \<Rightarrow> ustr \<times> ustr" where
  "scan_fraction s =
     (case s of p # r \<Rightarrow> if p = 46 \<and> takeWhile is_digit r \<noteq> [] then (p # takeWhile is_digit r, dropWhile is_digit r) else ([], s)
      | [] \<Rightarrow> ([], []))"

definition scan_exponent :: "ustr \<Rightarrow> ustr \<times> ustr" where
  "scan_exponent s =
     (case s of
        [] \<Rightarrow> ([], [])
      | e # r \<Rightarrow>
          let (sign, r') = (case r of x # r' \<Rightarrow> if x = 43 \<or> x = 45 then ([x], r') else ([], r) | [] \<Rightarrow> ([], []));
              digits = takeWhile is_digit r'
          in if (e = 101 \<or> e = 69) \<and> digits \<noteq> [] then (e # sign @ digits, dropWhile is_digit r') else ([], s))"

definition scan_number :: "ustr \<Rightarrow> (ustr \<times> bool \<times> ustr) option" where
  "scan_number s =
     (let (sign, r) = (case s of c # r \<Rightarrow> if c = 45 then ([c], r) else ([], s) | [] \<Rightarrow> ([], [])) in
      case r of
        [] \<Rightarrow> None
      | c # r' \<Rightarrow>
          if \<not> is_digit c then None
          else
            let (whole, r) = (if c = 48 then ([c], r') else (takeWhile is_digit r, dropWhile is_digit r));
                (fraction, r) = scan_fraction r;
                (exponent, r) = scan_exponent r
            in Some (sign @ whole @ fraction @ exponent, fraction \<noteq> [] \<or> exponent \<noteq> [], r))"

text \<open>The hooks \<open>parse_int\<close> and \<open>parse_float\<close>.\<close>

record hooks =
  hk_int :: "ustr \<Rightarrow> json result"
  hk_float :: "ustr \<Rightarrow> json result"

subsection \<open>Values\<close>

text \<open>
  The items of an array after its opening bracket and the members of an object after its opening brace, given the
  scanner of a value. Every round consumes a comma, so the length of the text is a sufficient bound of the rounds.
\<close>

fun scan_items :: "(ustr \<Rightarrow> (json \<times> ustr) result) \<Rightarrow> nat \<Rightarrow> ustr \<Rightarrow> (json list \<times> ustr) result" where
  "scan_items scan 0 s = malformed"
| "scan_items scan (Suc n) s =
     rbind (scan s) (\<lambda>(v, r).
     case skip_ws r of
       [] \<Rightarrow> malformed
     | c # r' \<Rightarrow>
         if c = 93 then Inr ([v], r')
         else if c = 44 then rbind (scan_items scan n (skip_ws r')) (\<lambda>(vs, t). Inr (v # vs, t))
         else malformed)"

definition scan_member :: "(ustr \<Rightarrow> (json \<times> ustr) result) \<Rightarrow> ustr \<Rightarrow> ((ustr \<times> json) \<times> ustr) result" where
  "scan_member scan s =
     (case s of
        [] \<Rightarrow> malformed
      | c # r \<Rightarrow>
          if c \<noteq> 34 then malformed
          else rbind (scan_string r) (\<lambda>(k, r).
            case skip_ws r of
              [] \<Rightarrow> malformed
            | c # r \<Rightarrow> if c \<noteq> 58 then malformed else rbind (scan (skip_ws r)) (\<lambda>(v, r). Inr ((k, v), r))))"

fun scan_members :: "(ustr \<Rightarrow> (json \<times> ustr) result) \<Rightarrow> nat \<Rightarrow> ustr \<Rightarrow> ((ustr \<times> json) list \<times> ustr) result" where
  "scan_members scan 0 s = malformed"
| "scan_members scan (Suc n) s =
     rbind (scan_member scan s) (\<lambda>(kv, r).
     case skip_ws r of
       [] \<Rightarrow> malformed
     | c # r' \<Rightarrow>
         if c = 125 then Inr ([kv], r')
         else if c = 44 then rbind (scan_members scan n (skip_ws r')) (\<lambda>(kvs, t). Inr (kv # kvs, t))
         else malformed)"

text \<open>\<open>_reject_duplicate_keys\<close>, the hook for the pairs of an object.\<close>

definition reject_duplicate_keys :: "(ustr \<times> json) list \<Rightarrow> json result" where
  "reject_duplicate_keys kvs =
     (if distinct (map fst kvs) then Inr (JObj kvs) else Inl (ValueError ''duplicate object key''))"

text \<open>The constants and numbers. The hook for \<open>NaN\<close> and the infinities refuses them.\<close>

definition scan_constant :: "string \<Rightarrow> json \<Rightarrow> ustr \<Rightarrow> (json \<times> ustr) result" where
  "scan_constant w v s = (if take (length w) s = U w then Inr (v, drop (length w) s) else malformed)"

definition scan_scalar :: "hooks \<Rightarrow> ustr \<Rightarrow> (json \<times> ustr) result" where
  "scan_scalar hk s =
     (case s of
        [] \<Rightarrow> malformed
      | c # r \<Rightarrow>
          if c = 34 then rbind (scan_string r) (\<lambda>(t, r). Inr (JStr t, r))
          else if c = 110 then scan_constant ''null'' JNull s
          else if c = 116 then scan_constant ''true'' (JBool True) s
          else if c = 102 then scan_constant ''false'' (JBool False) s
          else if take 3 s = U ''NaN'' \<or> take 8 s = U ''Infinity'' \<or> take 9 s = U ''-Infinity''
          then Inl (ValueError ''non-standard numeric constant'')
          else case scan_number s of
            None \<Rightarrow> malformed
          | Some (literal, float, r) \<Rightarrow> rbind (if float then hk_float hk literal else hk_int hk literal) (\<lambda>v. Inr (v, r)))"

definition scan_level :: "hooks \<Rightarrow> (ustr \<Rightarrow> (json \<times> ustr) result) option \<Rightarrow> ustr \<Rightarrow> (json \<times> ustr) result" where
  "scan_level hk nested s =
     (case s of
       [] \<Rightarrow> malformed
     | c # r \<Rightarrow>
         if c \<noteq> 91 \<and> c \<noteq> 123 then scan_scalar hk s
         else case nested of
           None \<Rightarrow> Inl (RuntimeError ''RecursionError'')
         | Some scan \<Rightarrow>
             case skip_ws r of
               [] \<Rightarrow> malformed
             | x # r' \<Rightarrow>
                 if c = 91
                 then if x = 93 then Inr (JArr [], r')
                      else rbind (scan_items scan (length r) (x # r')) (\<lambda>(vs, t). Inr (JArr vs, t))
                 else if x = 125 then Inr (JObj [], r')
                      else rbind (scan_members scan (length r) (x # r')) (\<lambda>(kvs, t).
                        rbind (reject_duplicate_keys kvs) (\<lambda>v. Inr (v, t))))"

primrec scan_value :: "hooks \<Rightarrow> nat \<Rightarrow> ustr \<Rightarrow> (json \<times> ustr) result" where
  "scan_value hk 0 = scan_level hk None"
| "scan_value hk (Suc d) = scan_level hk (Some (scan_value hk d))"

text \<open>\<open>json.loads\<close>: a byte order mark is refused, and only blanks may follow the value.\<close>

definition json_loads :: "hooks \<Rightarrow> nat \<Rightarrow> ustr \<Rightarrow> json result" where
  "json_loads hk limit s =
     (if take 1 s = [65279] then malformed
      else rbind (scan_value hk limit (skip_ws s)) (\<lambda>(v, r). if skip_ws r = [] then Inr v else malformed))"

subsection \<open>The hooks of io.py\<close>

definition read_int :: "ustr \<Rightarrow> int" where
  "read_int s = (if take 1 s = [45] then - digits_val (drop 1 s) else digits_val s)"

text \<open>\<open>int\<close>, which refuses literals of more than 4300 digits.\<close>

definition max_str_digits :: nat where
  "max_str_digits = 4300"

definition int_value :: "ustr \<Rightarrow> json result" where
  "int_value s =
     (if max_str_digits < length (if take 1 s = [45] then drop 1 s else s)
      then Inl (ValueError ''Exceeds the limit for integer string conversion'') else Inr (JInt (read_int s)))"

text \<open>The number a decimal literal denotes, without its sign.\<close>

definition read_decimal :: "ustr \<Rightarrow> rat" where
  "read_decimal s =
     (let mantissa = takeWhile (\<lambda>c. c \<noteq> 101 \<and> c \<noteq> 69) s;
          exponent = drop (Suc (length mantissa)) s;
          whole = takeWhile is_digit mantissa;
          fraction = drop (Suc (length whole)) mantissa;
          power = (if take 1 exponent = [45] then - digits_val (drop 1 exponent)
                   else if take 1 exponent = [43] then digits_val (drop 1 exponent) else digits_val exponent)
      in of_int (digits_val (whole @ fraction)) * 10 powi (power - int (length fraction)))"

text \<open>\<open>float\<close> of a literal: the nearest double, infinite past the largest one, and a negative zero where the sign is lost.\<close>

definition read_float :: "ustr \<Rightarrow> pyfloat" where
  "read_float s =
     (let negative = (take 1 s = [45]);
          q = fl (read_decimal (if negative then drop 1 s else s))
      in if max_double < q then if negative then NegInf else PosInf
         else if negative then if q = 0 then NegZero else Fin (- q) else Fin q)"

definition parse_finite_float :: "ustr \<Rightarrow> json result" where
  "parse_finite_float s =
     (case read_float s of
        PosInf \<Rightarrow> Inl (ValueError ''JSON number is outside the finite float range'')
      | NegInf \<Rightarrow> Inl (ValueError ''JSON number is outside the finite float range'')
      | x \<Rightarrow> Inr (JFloat x))"

definition io_hooks :: hooks where
  "io_hooks = \<lparr>hk_int = int_value, hk_float = parse_finite_float\<rparr>"

definition io_loads :: "nat \<Rightarrow> ustr \<Rightarrow> json result" where
  "io_loads limit text = json_loads io_hooks limit text"

subsection \<open>Decoding inverts encoding\<close>

lemma continuation_mod: "continuation (128 + x mod 64)" "128 + x mod 64 - 128 = (x mod 64 :: nat)"
  by (simp_all add: continuation_def)

lemma utf8_decode_char:
  assumes "c < 1114112" "\<not> (55296 \<le> c \<and> c < 57344)"
  shows "utf8_decode (utf8_char c @ r) = map_option (Cons c) (utf8_decode r)"
proof -
  have D2: "c div 4096 = c div 64 div 64" and D3: "c div 262144 = c div 64 div 64 div 64"
    by (simp_all add: div_mult2_eq [symmetric])
  have e1: "c div 64 * 64 + c mod 64 = c" by simp
  have e2: "c div 64 div 64 * 64 + c div 64 mod 64 = c div 64" by simp
  have e3: "c div 64 div 64 div 64 * 64 + c div 64 div 64 mod 64 = c div 64 div 64" by simp
  have b2: "c div 4096 * 4096 + c div 64 mod 64 * 64 + c mod 64 = c" using e1 e2 unfolding D2 by linarith
  have b3: "c div 262144 * 262144 + c div 4096 mod 64 * 4096 + c div 64 mod 64 * 64 + c mod 64 = c"
    using e1 e2 e3 unfolding D2 D3 by linarith
  consider "c < 128" | "128 \<le> c" "c < 2048" | "2048 \<le> c" "c < 65536" | "65536 \<le> c" by linarith
  then show ?thesis
  proof cases
    case 1
    then show ?thesis by (simp add: utf8_char_def)
  next
    case 2
    then have "2 \<le> c div 64" "c div 64 < 32" by (simp_all add: div_less_iff_less_mult less_eq_div_iff_mult_less_eq)
    then show ?thesis using 2 by (simp add: utf8_char_def continuation_mod)
  next
    case 3
    then have "c div 4096 < 16" by (simp add: div_less_iff_less_mult)
    then show ?thesis using 3 assms(2) b2 by (simp add: utf8_char_def continuation_mod Let_def)
  next
    case 4
    then have "c div 262144 < 5" using assms(1) by (simp add: div_less_iff_less_mult)
    then show ?thesis using 4 assms(1) b3 by (simp add: utf8_char_def continuation_mod Let_def)
  qed
qed

lemma decode_utf8: "\<forall>c \<in> set s. c < 1114112 \<and> \<not> (55296 \<le> c \<and> c < 57344) \<Longrightarrow> decode (utf8 s) = Inr s"
proof -
  have "\<forall>c \<in> set s. c < 1114112 \<and> \<not> (55296 \<le> c \<and> c < 57344) \<Longrightarrow> utf8_decode (utf8 s) = Some s"
    by (induction s) (simp_all add: utf8_def utf8_decode_char)
  then show "\<forall>c \<in> set s. c < 1114112 \<and> \<not> (55296 \<le> c \<and> c < 57344) \<Longrightarrow> ?thesis" by (simp add: decode_def)
qed

subsection \<open>Scanning what was written\<close>

lemma skip_ws_id: "s = [] \<or> \<not> is_ws (hd s) \<Longrightarrow> skip_ws s = s"
  by (cases s) (simp_all add: skip_ws_def)

lemma skip_ws_Cons [simp]: "\<not> is_ws c \<Longrightarrow> skip_ws (c # s) = c # s"
  by (simp add: skip_ws_def)

lemma not_ws [simp]: "\<not> is_ws 34" "\<not> is_ws 44" "\<not> is_ws 58" "\<not> is_ws 91" "\<not> is_ws 93" "\<not> is_ws 123" "\<not> is_ws 125"
  by (simp_all add: is_ws_def)

lemma scan_string_esc: "scan_string (esc c @ r) = rbind (scan_string r) (\<lambda>(s, t). Inr (c # s, t))"
proof -
  have hex: "hex_digit_val (hex_char d) = Some d" if "d < 16" for d
    using that by (auto simp: hex_digit_val_def hex_char_def)
  consider "c \<in> {34, 92, 10, 13, 9, 8, 12}" | "c < 32" "c \<notin> {34, 92, 10, 13, 9, 8, 12}" | "32 \<le> c" "c \<notin> {34, 92}" by fastforce
  then show ?thesis
  proof cases
    case 1
    then show ?thesis by (auto simp: esc_def simple_escape_def)
  next
    case 2
    then have "c div 16 < 16" "hex_digit_val 48 = Some 0" by (auto simp: hex_digit_val_def)
    then have "unicode_escape (48 # 48 # hex_char (c div 16) # hex_char (c mod 16) # r) = Some (c, r)"
      using 2 by (simp add: unicode_escape_def hex)
    then show ?thesis using 2 by (simp add: esc_def)
  next
    case 3
    then show ?thesis by (auto simp: esc_def)
  qed
qed

lemma scan_string_enc: "scan_string (concat (map esc s) @ 34 # r) = Inr (s, r)"
  by (induction s) (simp_all add: scan_string_esc)

lemma digits_of_all: "takeWhile is_digit (digits_of n @ r) = digits_of n @ takeWhile is_digit r"
  "dropWhile is_digit (digits_of n @ r) = dropWhile is_digit r"
  using digits_of_chars [of n] by (simp_all add: list_all_iff is_digit_def)

lemma digits_of_lead: "0 < n \<Longrightarrow> digits_of n = c # s \<Longrightarrow> c \<noteq> 48"
proof (induction n arbitrary: c s rule: digits_of.induct)
  case (1 n)
  show ?case
  proof (cases "n < 10")
    case True
    then show ?thesis using 1(2,3) by (auto simp: digits_of.simps [of n])
  next
    case False
    then obtain d t where d: "digits_of (n div 10) = d # t" by (cases "digits_of (n div 10)") auto
    moreover have "0 < n div 10" using False by (simp add: pos_imp_zdiv_pos_iff)
    ultimately have "d \<noteq> 48" using 1(1) [OF False] by blast
    then show ?thesis using d False 1(3) by (simp add: digits_of.simps [of n])
  qed
qed

lemma delim_digit: "delim r \<Longrightarrow> takeWhile is_digit r = []" "delim r \<Longrightarrow> dropWhile is_digit r = r"
  "delim r \<Longrightarrow> scan_fraction r = ([], r)" "delim r \<Longrightarrow> scan_exponent r = ([], r)"
  by (cases r; auto simp: delim_def is_digit_def scan_fraction_def scan_exponent_def split: list.splits)+

lemma scan_number_digits:
  assumes "0 \<le> n" "delim r"
  shows "scan_number (digits_of n @ r) = Some (digits_of n, False, r)"
proof -
  obtain c s where c: "digits_of n = c # s" by (cases "digits_of n") auto
  have ds: "is_digit c" "\<forall>x \<in> set s. is_digit x" "48 \<le> c" using digits_of_chars [of n] c by (auto simp: is_digit_def list_all_iff)
  have "c = 48 \<Longrightarrow> s = []"
    using digits_of_lead [of n c s] c assms(1) by (cases "n = 0") (auto simp: digits_of.simps [of 0])
  then show ?thesis using c ds assms(2) by (auto simp: scan_number_def Let_def delim_digit)
qed

lemma scan_number_int:
  assumes "delim r"
  shows "scan_number (int_str i @ r) = Some (int_str i, False, r)"
proof (cases "i < 0")
  case True
  obtain c s where c: "digits_of (- i) = c # s" by (cases "digits_of (- i)") auto
  have c45: "c \<noteq> 45" using digits_of_hd [OF c] by simp
  have "scan_number (digits_of (- i) @ r) = Some (digits_of (- i), False, r)" by (rule scan_number_digits) (use True assms in simp_all)
  then show ?thesis using True c c45
    by (simp add: int_str_def scan_number_def Let_def split: if_splits prod.splits)
next
  case False
  then show ?thesis using scan_number_digits [of i r] assms by (simp add: int_str_def)
qed

lemma read_int_str: "read_int (int_str i) = i"
proof -
  have "take 1 (digits_of n) \<noteq> [45]" for n by (cases "digits_of n") (auto dest: digits_of_hd)
  then show ?thesis by (simp add: read_int_def int_str_def digits_val_digits_of)
qed

subsection \<open>Canonical text reads back\<close>

text \<open>Containers nested at most \<open>d\<close> deep.\<close>

fun nested :: "nat \<Rightarrow> json \<Rightarrow> bool" where
  "nested d (JArr xs) = (case d of 0 \<Rightarrow> False | Suc e \<Rightarrow> list_all (nested e) xs)"
| "nested d (JObj kvs) = (case d of 0 \<Rightarrow> False | Suc e \<Rightarrow> list_all (\<lambda>kv. nested e (snd kv)) kvs)"
| "nested d v = True"

text \<open>Documented behaviour: the spelling of a float is a JSON number with a fraction or an exponent, and reads as that float.\<close>

definition repr_reads :: "runtime \<Rightarrow> bool" where
  "repr_reads rt \<longleftrightarrow> (\<forall>x. is_double x \<and> \<bar>x\<bar> \<le> max_double \<longrightarrow>
     (\<forall>r. delim r \<longrightarrow> scan_number (rt_repr rt x @ r) = Some (rt_repr rt x, True, r)) \<and> read_float (rt_repr rt x) = Fin x)"

text \<open>Documents whose objects have distinct keys and whose numbers the hooks read as they are spelled.\<close>

fun in_range_float :: "pyfloat \<Rightarrow> bool" where
  "in_range_float (Fin x) = (is_double x \<and> \<bar>x\<bar> \<le> max_double)"
| "in_range_float NegZero = True"
| "in_range_float _ = False"

function readable :: "hooks \<Rightarrow> runtime \<Rightarrow> json \<Rightarrow> bool" where
  "readable hk rt (JInt i) = (hk_int hk (int_str i) = Inr (JInt i))"
| "readable hk rt (JFloat x) = (in_range_float x \<and> hk_float hk (float_str rt x) = Inr (JFloat x))"
| "readable hk rt (JArr xs) = list_all (\<lambda>x. readable hk rt x) xs"
| "readable hk rt (JObj kvs) = (distinct (map fst kvs) \<and> list_all (\<lambda>kv. readable hk rt (snd kv)) kvs)"
| "readable hk rt JNull = True"
| "readable hk rt (JBool b) = True"
| "readable hk rt (JStr s) = True"
  by pat_completeness auto
termination
  by (relation "measure (\<lambda>(hk, rt, v). size v)") (auto simp: less_Suc_eq_le size_list_estimation' dest!: json_member_size)

lemma scan_number_float:
  assumes "repr_reads rt" "in_range_float x" "delim r"
  shows "scan_number (float_str rt x @ r) = Some (float_str rt x, True, r)"
proof (cases x)
  case (Fin y)
  then show ?thesis using assms by (simp add: repr_reads_def)
next
  case NegZero
  then show ?thesis using assms(3)
    by (simp add: negzero_chars scan_number_def scan_fraction_def is_digit_def delim_digit Let_def)
qed (use assms in auto)

lemma scan_scalar_number:
  assumes "scan_number (c # r) = Some (literal, b, t)" "c = 45 \<and> literal \<noteq> [45] \<or> 48 \<le> c \<and> c \<le> 57"
  shows "scan_scalar hk (c # r) = rbind (if b then hk_float hk literal else hk_int hk literal) (\<lambda>v. Inr (v, t))"
proof -
  have "r \<noteq> [] \<and> is_digit (hd r)" if "c = 45"
    using assms(1) that by (cases r) (auto simp: scan_number_def Let_def split: if_splits)
  then have "take 9 (c # r) \<noteq> U ''-Infinity''" if "c = 45"
    using that by (cases r) (auto simp: U_def is_digit_def)
  moreover have "take 3 (c # r) \<noteq> U ''NaN''" "take 8 (c # r) \<noteq> U ''Infinity''" using assms(2) by (auto simp: U_def)
  moreover have "take 9 (c # r) \<noteq> U ''-Infinity''" if "c \<noteq> 45" using that by (auto simp: U_def)
  ultimately show ?thesis using assms by (auto simp: scan_scalar_def)
qed

lemma scan_items_enc:
  assumes "\<And>x r. x \<in> set xs \<Longrightarrow> delim r \<Longrightarrow> scan (f x @ r) = Inr (x, r)" "\<And>x. x \<in> set xs \<Longrightarrow> f x \<noteq> [] \<and> \<not> is_ws (hd (f x))"
    and "xs \<noteq> []" "length xs \<le> n"
  shows "scan_items scan n (items f 93 xs @ r) = Inr (xs, r)"
  using assms
proof (induction xs arbitrary: n)
  case (Cons x xs)
  then obtain m where n: "n = Suc m" by (cases n) auto
  have ws: "skip_ws (items f 93 xs @ r) = items f 93 xs @ r" if "xs \<noteq> []"
    using Cons.prems(2) [of "hd xs"] that by (intro skip_ws_id) (cases xs; auto simp: items_Cons)
  show ?case
  proof (cases "xs = []")
    case True
    then show ?thesis using Cons.prems(1) [of x "93 # r"] n by simp
  next
    case False
    then show ?thesis
      using Cons.prems(1) [of x "44 # items f 93 xs @ r"] Cons.IH [of m] Cons.prems(1,2,4) n ws by (simp add: items_Cons)
  qed
qed simp

lemma scan_members_enc:
  assumes "\<And>kv r. kv \<in> set kvs \<Longrightarrow> delim r \<Longrightarrow> scan (f (snd kv) @ r) = Inr (snd kv, r)"
    "\<And>kv. kv \<in> set kvs \<Longrightarrow> f (snd kv) \<noteq> [] \<and> \<not> is_ws (hd (f (snd kv)))"
    and "kvs \<noteq> []" "length kvs \<le> n"
  shows "scan_members scan n (items (\<lambda>kv. str_enc (fst kv) @ 58 # f (snd kv)) 125 kvs @ r) = Inr (kvs, r)"
  using assms
proof (induction kvs arbitrary: n)
  case (Cons kv kvs)
  let ?f = "\<lambda>kv. str_enc (fst kv) @ 58 # f (snd kv)"
  from Cons.prems obtain m where n: "n = Suc m" by (cases n) auto
  have member: "scan_member scan (?f kv @ t) = Inr (kv, t)" if "delim t" for t
  proof -
    have "skip_ws (f (snd kv) @ t) = f (snd kv) @ t"
      using Cons.prems(2) [of kv] by (intro skip_ws_id) auto
    then show ?thesis
      using Cons.prems(1) [of kv t] that by (simp add: scan_member_def str_enc_def scan_string_enc)
  qed
  have ws: "skip_ws (items ?f 125 kvs @ r) = items ?f 125 kvs @ r" if "kvs \<noteq> []"
    using that by (intro skip_ws_id) (cases kvs; auto simp: items_Cons str_enc_def)
  show ?case
  proof (cases "kvs = []")
    case True
    then show ?thesis using member [of "125 # r"] n by simp
  next
    case False
    then show ?thesis
      using member [of "44 # items ?f 125 kvs @ r"] Cons.IH [of m] Cons.prems(1,2,4) n ws by (simp add: items_Cons)
  qed
qed simp

lemma readable_finite: "readable hk rt v \<Longrightarrow> json_finite v"
proof (induction hk rt v rule: readable.induct)
  case (2 hk rt x)
  then show ?case by (cases x) auto
qed (auto simp: list_all_iff)

lemma enc_start:
  assumes "repr_contract rt" "json_finite v"
  shows "enc rt v \<noteq> [] \<and> \<not> is_ws (hd (enc rt v))"
  using enc_first_char [OF assms] by (cases v) (auto simp: is_ws_def split: if_splits)

lemma scan_value_scalar: "c \<noteq> 91 \<Longrightarrow> c \<noteq> 123 \<Longrightarrow> scan_value hk d (c # r) = scan_scalar hk (c # r)"
  by (cases d) (simp_all add: scan_level_def)

lemma items_shorter: "length xs \<le> length (items f c xs)"
  by (induction f c xs rule: items.induct) auto

lemma scan_enc:
  assumes rt: "repr_contract rt" "repr_reads rt"
  shows "readable hk rt v \<Longrightarrow> nested d v \<Longrightarrow> delim r \<Longrightarrow> scan_value hk d (enc rt v @ r) = Inr (v, r)"
proof (induction v arbitrary: d r)
  case JNull
  then show ?case by (simp add: U_def scan_value_scalar scan_scalar_def scan_constant_def)
next
  case (JBool b)
  then show ?case by (simp add: U_def scan_value_scalar scan_scalar_def scan_constant_def)
next
  case (JInt i)
  obtain c s where c: "int_str i = c # s" "c = 45 \<or> 48 \<le> c \<and> c \<le> 57" using int_str_hd [of i] by (cases "int_str i") auto
  have "int_str i \<noteq> [45]" using digits_of_hd [of i] by (auto simp: int_str_def)
  then have "scan_scalar hk (c # s @ r) = rbind (if False then hk_float hk (int_str i) else hk_int hk (int_str i)) (\<lambda>v. Inr (v, r))"
    by (intro scan_scalar_number) (use scan_number_int [OF JInt(3), of i] c in auto)
  then have "scan_scalar hk (c # s @ r) = Inr (JInt i, r)" using JInt(1) by simp
  then show ?case using c by (auto simp: scan_value_scalar)
next
  case (JFloat x)
  then have fin: "finite_float x" by (cases x) auto
  obtain c s where c: "float_str rt x = c # s" "c = 45 \<or> 48 \<le> c \<and> c \<le> 57"
    using float_str_token(3,4) [OF rt(1) fin] by (cases "float_str rt x") auto
  have "float_str rt x \<noteq> [45]" using float_str_token(2) [OF rt(1) fin] by auto
  then have "scan_scalar hk (c # s @ r) = rbind (if True then hk_float hk (float_str rt x) else hk_int hk (float_str rt x)) (\<lambda>v. Inr (v, r))"
    by (intro scan_scalar_number) (use scan_number_float [OF rt(2) _ JFloat(3), of x] c JFloat(1) in auto)
  then have "scan_scalar hk (c # s @ r) = Inr (JFloat x, r)" using JFloat(1) by simp
  then show ?case using c by (auto simp: scan_value_scalar)
next
  case (JStr t)
  then show ?case by (simp add: str_enc_def scan_value_scalar scan_scalar_def scan_string_enc)
next
  case (JArr xs)
  then obtain e where d: "d = Suc e" "list_all (nested e) xs" by (auto split: nat.splits)
  have el: "scan_value hk e (enc rt x @ r) = Inr (x, r)" if "x \<in> set xs" "delim r" for x r
    using JArr that d(2) by (auto simp: list_all_iff)
  have st: "enc rt x \<noteq> [] \<and> \<not> is_ws (hd (enc rt x))" if "x \<in> set xs" for x
    using enc_start [OF rt(1)] readable_finite JArr.prems(1) that by (auto simp: list_all_iff)
  show ?case
  proof (cases "xs = []")
    case True
    then show ?thesis by (simp add: d(1) scan_level_def)
  next
    case False
    then obtain x ys where xs: "xs = x # ys" by (cases xs) auto
    obtain c s where c: "items (enc rt) 93 xs = c # s" "\<not> is_ws c" "c \<noteq> 93"
      using st [of x] enc_first_char [OF rt(1), of x] readable_finite [of hk rt x] JArr.prems(1) xs
      by (cases "enc rt x"; cases x) (auto simp: items_Cons split: if_splits)
    have "length xs \<le> Suc (length s + length r)" using items_shorter [of xs "enc rt" 93] c(1) by simp
    then have "scan_items (scan_value hk e) (Suc (length s + length r)) (items (enc rt) 93 xs @ r) = Inr (xs, r)"
      by (intro scan_items_enc) (use el st False in auto)
    then show ?thesis using c by (simp add: d(1) scan_level_def)
  qed
next
  case (JObj kvs)
  let ?f = "\<lambda>kv. str_enc (fst kv) @ 58 # enc rt (snd kv)"
  obtain e where d: "d = Suc e" "list_all (\<lambda>kv. nested e (snd kv)) kvs" using JObj.prems(2) by (auto split: nat.splits)
  have el: "scan_value hk e (enc rt (snd kv) @ r) = Inr (snd kv, r)" if "kv \<in> set kvs" "delim r" for kv r
    by (rule JObj.IH [of kv]) (use that d(2) JObj.prems(1) in \<open>auto simp: list_all_iff snds.simps\<close>)
  have st: "enc rt (snd kv) \<noteq> [] \<and> \<not> is_ws (hd (enc rt (snd kv)))" if "kv \<in> set kvs" for kv
    using enc_start [OF rt(1)] readable_finite JObj.prems(1) that by (auto simp: list_all_iff)
  show ?case
  proof (cases "kvs = []")
    case True
    then show ?thesis by (simp add: d(1) scan_level_def)
  next
    case False
    then obtain kv ys where kvs: "kvs = kv # ys" by (cases kvs) auto
    obtain s where c: "items ?f 125 kvs = 34 # s" by (simp add: kvs items_Cons str_enc_def)
    have "length kvs \<le> Suc (length s + length r)" using items_shorter [of kvs ?f 125] c by simp
    then have "scan_members (scan_value hk e) (Suc (length s + length r)) (items ?f 125 kvs @ r) = Inr (kvs, r)"
      by (intro scan_members_enc) (use el st False in auto)
    then show ?thesis using c JObj.prems(1) by (simp add: d(1) scan_level_def reject_duplicate_keys_def del: scan_members.simps)
  qed
qed

text \<open>Sorting the members keeps documents readable and their nesting.\<close>

lemma nested_canon [simp]: "nested d (canon v) = nested d v"
proof (induction v arbitrary: d rule: canon.induct)
  case (7 kvs)
  then show ?case by (cases d) (auto simp: list_all_iff)
qed (auto simp: list_all_iff split: nat.splits)

lemma readable_canon [simp]: "readable hk rt (canon v) = readable hk rt v"
proof (induction v rule: canon.induct)
  case (7 kvs)
  have "distinct (map fst (sort_key fst (map (\<lambda>kv. (fst kv, canon (snd kv))) kvs))) = distinct (map fst kvs)"
    by (simp add: distinct_map_sort_key comp_def)
  with 7 show ?case by (auto simp: list_all_iff)
qed (auto simp: list_all_iff)

theorem loads_dumps:
  assumes rt: "repr_contract rt" "repr_reads rt" and v: "readable hk rt v" "nested limit v"
  shows "json_loads hk limit (dumps rt v) = Inr (canon v)"
proof -
  have fin: "json_finite (canon v)" using readable_finite [OF v(1)] by (simp add: json_finite_canon)
  have "take 1 (dumps rt v) \<noteq> [65279]"
    using enc_first_char [OF rt(1) fin] unfolding dumps_def
    by (cases "enc rt (canon v)"; cases "canon v") (auto split: if_splits)
  moreover have "skip_ws (dumps rt v) = dumps rt v" using enc_start [OF rt(1) fin] by (intro skip_ws_id) (simp add: dumps_def)
  moreover have "scan_value hk limit (dumps rt v @ []) = Inr (canon v, [])"
    unfolding dumps_def by (rule scan_enc [OF rt]) (use v in simp_all)
  ultimately show ?thesis by (simp add: json_loads_def skip_ws_def)
qed

subsection \<open>Canonical bytes read back\<close>

text \<open>All keys and strings consist of characters of \<open>P\<close>.\<close>

function texts :: "(nat \<Rightarrow> bool) \<Rightarrow> json \<Rightarrow> bool" where
  "texts P (JStr s) = list_all P s"
| "texts P (JArr xs) = list_all (\<lambda>x. texts P x) xs"
| "texts P (JObj kvs) = list_all (\<lambda>kv. list_all P (fst kv) \<and> texts P (snd kv)) kvs"
| "texts P JNull = True"
| "texts P (JBool b) = True"
| "texts P (JInt i) = True"
| "texts P (JFloat x) = True"
  by pat_completeness auto
termination
  by (relation "measure (\<lambda>(P, v). size v)") (auto simp: less_Suc_eq_le size_list_estimation' dest!: json_member_size)

lemma texts_canon [simp]: "texts P (canon v) = texts P v"
  by (induction v rule: canon.induct) (auto simp: list_all_iff)

lemma set_items: "set (items f c xs) \<subseteq> insert c (insert 44 (\<Union>x \<in> set xs. set (f x)))"
  by (induction f c xs rule: items.induct) auto

text \<open>Control characters are spelled with visible ones.\<close>

lemma set_esc: "x \<in> set (esc c) \<Longrightarrow> 32 \<le> x \<and> (x < 128 \<or> x = c)"
proof -
  have "c < 32 \<Longrightarrow> c div 16 < 16" "c mod 16 < 16" by simp_all
  then show "x \<in> set (esc c) \<Longrightarrow> ?thesis" by (auto simp: esc_def hex_char_def split: if_splits)
qed

lemma str_enc_chars:
  assumes "\<forall>c. 32 \<le> c \<and> c < 128 \<longrightarrow> P c" "list_all (\<lambda>c. 32 \<le> c \<longrightarrow> P c) s"
  shows "\<forall>c \<in> set (str_enc s). P c"
proof
  fix c assume "c \<in> set (str_enc s)"
  then have "c = 34 \<or> (\<exists>x \<in> set s. c \<in> set (esc x))" by (auto simp: str_enc_def)
  then show "P c" using assms set_esc by (force simp: list_all_iff)
qed

lemma enc_chars:
  assumes rt: "repr_contract rt" and P: "\<forall>c. 32 \<le> c \<and> c < 128 \<longrightarrow> P c"
  shows "json_finite v \<Longrightarrow> texts (\<lambda>c. 32 \<le> c \<longrightarrow> P c) v \<Longrightarrow> \<forall>c \<in> set (enc rt v). P c"
proof (induction v)
  case JNull
  then show ?case using P by (simp add: U_def)
next
  case (JBool b)
  then show ?case using P by (simp add: U_def)
next
  case (JInt i)
  then show ?case using P int_str_chars [of i] by (auto simp: list_all_iff)
next
  case (JFloat x)
  then show ?case using P float_str_token(1) [OF rt, of x] by (auto simp: list_all_iff numeric_char_def)
next
  case (JStr s)
  then show ?case using str_enc_chars [OF P] by simp
next
  case (JArr xs)
  then have "\<forall>x \<in> set xs. \<forall>c \<in> set (enc rt x). P c" by (auto simp: list_all_iff)
  then show ?case using set_items [of "enc rt" 93 xs] P by auto
next
  case (JObj kvs)
  have "\<forall>c \<in> set (enc rt (snd kv)). P c" if "kv \<in> set kvs" for kv
    by (rule JObj.IH [of kv]) (use that JObj.prems in \<open>auto simp: list_all_iff snds.simps\<close>)
  moreover have "\<forall>c \<in> set (str_enc (fst kv)). P c" if "kv \<in> set kvs" for kv
    by (rule str_enc_chars [OF P]) (use that JObj.prems in \<open>auto simp: list_all_iff\<close>)
  ultimately have each: "\<forall>kv \<in> set kvs. \<forall>c \<in> set (str_enc (fst kv) @ 58 # enc rt (snd kv)). P c" using P by auto
  have "set (enc rt (JObj kvs)) \<subseteq> {123, 125, 44} \<union> (\<Union>kv \<in> set kvs. set (str_enc (fst kv) @ 58 # enc rt (snd kv)))"
    using set_items [of "\<lambda>kv. str_enc (fst kv) @ 58 # enc rt (snd kv)" 125 kvs] by auto
  moreover have "P 123" "P 125" "P 44" using P by simp_all
  ultimately show ?case using each by (blast dest: subsetD)
qed

lemma texts_mono: "(\<And>c. P c \<Longrightarrow> Q c) \<Longrightarrow> texts P v \<Longrightarrow> texts Q v"
  by (induction P v rule: texts.induct) (auto simp: list_all_iff)

lemma texts_True: "texts (\<lambda>c. True) v"
  by (induction v rule: canon.induct) (auto simp: list_all_iff)

lemma enc_texts:
  assumes "repr_contract rt" "\<forall>c < 128. P c"
  shows "json_finite v \<Longrightarrow> texts P v \<Longrightarrow> \<forall>c \<in> set (enc rt v). P c"
  by (rule enc_chars [OF assms(1)]) (use assms(2) in \<open>auto intro: texts_mono [of P]\<close>)

lemma enc_printable:
  assumes "repr_contract rt" "json_finite v"
  shows "\<forall>c \<in> set (enc rt v). 32 \<le> c"
  by (rule enc_chars [OF assms(1)]) (use assms(2) texts_True in auto)

lemma canonical_bytes_printable:
  assumes "repr_contract rt" "json_finite v"
  shows "\<forall>b \<in> set (canonical_bytes rt v). 32 \<le> b"
proof -
  have "\<forall>c \<in> set (dumps rt v). 32 \<le> c"
    unfolding dumps_def using enc_printable [OF assms(1), of "canon v"] assms(2) by (simp add: json_finite_canon)
  moreover have "32 \<le> c \<Longrightarrow> \<forall>b \<in> set (utf8_char c). 32 \<le> b" for c by (auto simp: utf8_char_def)
  ultimately show ?thesis by (auto simp: canonical_bytes_def utf8_def)
qed

definition scalar :: "nat \<Rightarrow> bool" where
  "scalar c \<longleftrightarrow> c < 1114112 \<and> \<not> (55296 \<le> c \<and> c < 57344)"

lemma decode_canonical:
  assumes "repr_contract rt" "json_finite v" "texts scalar v"
  shows "decode (canonical_bytes rt v) = Inr (dumps rt v)"
  unfolding canonical_bytes_def
  by (rule decode_utf8) (use enc_texts [OF assms(1), of scalar "canon v"] assms(2,3) in
    \<open>auto simp: dumps_def json_finite_canon scalar_def\<close>)

theorem parse_canonical:
  assumes "repr_contract rt" "repr_reads rt" "readable hk rt v" "nested limit v" "texts scalar v"
  shows "rbind (decode (canonical_bytes rt v)) (json_loads hk limit) = Inr (canon v)"
  using decode_canonical [OF assms(1) readable_finite [OF assms(3)] assms(5)] loads_dumps [OF assms(1-4)] by simp

lemma bytes_of_scalars: "\<forall>c \<in> set s. c < 1114112 \<Longrightarrow> list_all (\<lambda>b. b < 256) (utf8 s)"
proof -
  have "list_all (\<lambda>b. b < 256) (utf8_char c)" if "c < 1114112" for c
  proof -
    have d: "c < 2048 \<Longrightarrow> c div 64 < 32" "c < 65536 \<Longrightarrow> c div 4096 < 16" "c div 262144 < 5"
      using that by (simp_all add: div_less_iff_less_mult)
    have m: "x mod 64 < 128" for x :: nat using mod_less_divisor [of 64 x] by linarith
    show ?thesis using d by (auto simp: utf8_char_def intro: m less_trans)
  qed
  then show "\<forall>c \<in> set s. c < 1114112 \<Longrightarrow> ?thesis" by (auto simp: utf8_def list_all_iff)
qed

end
