(* ===== verification/Base64.thy ===== *)
theory Base64
  imports Json_Parser
begin

text \<open>
  The URL-safe base64 spelling of continuation tokens: \<open>base64.urlsafe_b64encode\<close> without its padding and
  \<open>base64.b64decode\<close> with \<open>altchars=b"-_", validate=True\<close> of the standard library. Decoding inverts encoding.
\<close>

subsection \<open>Encoding\<close>

definition b64_char :: "nat \<Rightarrow> nat" where
  "b64_char n = (if n < 26 then 65 + n else if n < 52 then 71 + n else if n < 62 then n - 4 else if n = 62 then 45 else 95)"

fun b64_encode :: "bytes \<Rightarrow> ustr" where
  "b64_encode (a # b # c # r) =
     b64_char (a div 4) # b64_char (a mod 4 * 16 + b div 16) # b64_char (b mod 16 * 4 + c div 64) # b64_char (c mod 64)
       # b64_encode r"
| "b64_encode [a, b] = [b64_char (a div 4), b64_char (a mod 4 * 16 + b div 16), b64_char (b mod 16 * 4), 61]"
| "b64_encode [a] = [b64_char (a div 4), b64_char (a mod 4 * 16), 61, 61]"
| "b64_encode [] = []"

text \<open>\<open>.rstrip("=")\<close>\<close>

definition rstrip_pad :: "ustr \<Rightarrow> ustr" where
  "rstrip_pad s = rev (dropWhile (\<lambda>c. c = 61) (rev s))"

subsection \<open>Decoding\<close>

text \<open>Both spellings of the last two digits are read: \<open>altchars\<close> are translated to the standard ones.\<close>

definition b64_val :: "nat \<Rightarrow> nat option" where
  "b64_val c =
     (if 65 \<le> c \<and> c \<le> 90 then Some (c - 65) else if 97 \<le> c \<and> c \<le> 122 then Some (c - 71)
      else if 48 \<le> c \<and> c \<le> 57 then Some (c + 4) else if c = 43 \<or> c = 45 then Some 62
      else if c = 47 \<or> c = 95 then Some 63 else None)"

fun b64_decode :: "ustr \<Rightarrow> bytes option" where
  "b64_decode [] = Some []"
| "b64_decode (a # b # c # d # r) =
     (case (b64_val a, b64_val b) of
        (Some w, Some x) \<Rightarrow>
          if c = 61 \<and> d = 61 \<and> r = [] then Some [w * 4 + x div 16]
          else (case b64_val c of
             None \<Rightarrow> None
           | Some y \<Rightarrow>
               if d = 61 \<and> r = [] then Some [w * 4 + x div 16, x mod 16 * 16 + y div 4]
               else (case b64_val d of
                  None \<Rightarrow> None
                | Some z \<Rightarrow>
                    map_option (\<lambda>s. [w * 4 + x div 16, x mod 16 * 16 + y div 4, y mod 4 * 64 + z] @ s) (b64_decode r)))
      | _ \<Rightarrow> None)"
| "b64_decode _ = None"

definition pad_token :: "ustr \<Rightarrow> ustr" where
  "pad_token s = s @ replicate (nat (- int (length s) mod 4)) 61"

definition b64_token :: "bytes \<Rightarrow> ustr" where
  "b64_token raw = rstrip_pad (b64_encode raw)"

subsection \<open>Tokens read back\<close>

lemma b64_val_char: "n < 64 \<Longrightarrow> b64_val (b64_char n) = Some n"
  by (auto simp: b64_val_def b64_char_def)

lemma b64_char_not_pad [simp]: "n < 64 \<Longrightarrow> b64_char n \<noteq> 61"
  by (auto simp: b64_char_def)

lemma six_bits:
  assumes "a < 256" "b < 256" "c < (256 :: nat)"
  shows "a div 4 < 64" "a mod 4 * 16 + b div 16 < 64" "b mod 16 * 4 + c div 64 < 64" "a mod 4 * 16 < 64" "b mod 16 * 4 < 64"
    "a div 4 * 4 + (a mod 4 * 16 + b div 16) div 16 = a" "a div 4 * 4 + (a mod 4 * 16) div 16 = a"
    "(a mod 4 * 16 + b div 16) mod 16 * 16 + (b mod 16 * 4 + c div 64) div 4 = b"
    "(a mod 4 * 16 + b div 16) mod 16 * 16 + (b mod 16 * 4) div 4 = b"
    "(b mod 16 * 4 + c div 64) mod 4 * 64 + c mod 64 = c"
proof -
  have d: "x div 64 < 4" "x div 16 < 16" "x div 4 < 64" if "x < 256" for x :: nat
    using that by (simp_all add: div_less_iff_less_mult)
  have low: "x mod 4 * 16 + y < 64" if "y < 16" for x y :: nat using that mod_less_divisor [of 4 x] by linarith
  have mid: "x mod 16 * 4 + y < 64" if "y < 4" for x y :: nat using that mod_less_divisor [of 16 x] by linarith
  show "a div 4 < 64" "a mod 4 * 16 + b div 16 < 64" "b mod 16 * 4 + c div 64 < 64" "a mod 4 * 16 < 64" "b mod 16 * 4 < 64"
    using d assms low [of "b div 16" a] mid [of "c div 64" b] low [of 0 a] mid [of 0 b] by simp_all
  show "a div 4 * 4 + (a mod 4 * 16 + b div 16) div 16 = a" "a div 4 * 4 + (a mod 4 * 16) div 16 = a"
    "(a mod 4 * 16 + b div 16) mod 16 * 16 + (b mod 16 * 4 + c div 64) div 4 = b"
    "(a mod 4 * 16 + b div 16) mod 16 * 16 + (b mod 16 * 4) div 4 = b"
    "(b mod 16 * 4 + c div 64) mod 4 * 64 + c mod 64 = c"
    using d assms by simp_all
qed

lemma b64_decode_encode: "list_all (\<lambda>b. b < 256) raw \<Longrightarrow> b64_decode (b64_encode raw) = Some raw"
proof (induction raw rule: b64_encode.induct)
  case (1 a b c r)
  then show ?case using six_bits [of a b c] by (simp add: b64_val_char)
next
  case (2 a b)
  then show ?case using six_bits [of a b 0] by (simp add: b64_val_char)
next
  case (3 a)
  then show ?case using six_bits [of a 0 0] by (simp add: b64_val_char)
qed simp

text \<open>The encoding has whole groups, padded only at its end.\<close>

lemma b64_encode_shape:
  "list_all (\<lambda>b. b < 256) raw \<Longrightarrow> \<exists>s n. b64_encode raw = s @ replicate n 61 \<and> n < 4 \<and> 61 \<notin> set s \<and> (length s + n) mod 4 = 0"
proof (induction raw rule: b64_encode.induct)
  case (1 a b c r)
  then obtain s n where "b64_encode r = s @ replicate n 61" "n < 4" "61 \<notin> set s" "(length s + n) mod 4 = 0" by auto
  then show ?case
    using six_bits [of a b c] 1(2) b64_char_not_pad
    by (intro exI [of _ "[b64_char (a div 4), b64_char (a mod 4 * 16 + b div 16), b64_char (b mod 16 * 4 + c div 64), b64_char (c mod 64)] @ s"]
        exI [of _ n]) (auto simp: eq_commute [of 61])
next
  case (2 a b)
  then show ?case using six_bits [of a b 0]
    by (intro exI [of _ "[b64_char (a div 4), b64_char (a mod 4 * 16 + b div 16), b64_char (b mod 16 * 4)]"] exI [of _ 1])
      (auto simp: eq_commute [of 61])
next
  case (3 a)
  then show ?case using six_bits [of a 0 0]
    by (intro exI [of _ "[b64_char (a div 4), b64_char (a mod 4 * 16)]"] exI [of _ 2])
      (auto simp: eq_commute [of 61] numeral_2_eq_2)
next
  case 4
  show ?case by (rule exI [of _ "[]"], rule exI [of _ 0]) simp
qed

lemma rstrip_pad_append: "61 \<notin> set s \<Longrightarrow> rstrip_pad (s @ replicate n 61) = s"
proof -
  assume s: "61 \<notin> set s"
  have "dropWhile (\<lambda>c. c = 61) (replicate n 61 @ rev s) = dropWhile (\<lambda>c. c = 61) (rev s)" by (induction n) simp_all
  also have "\<dots> = rev s" using s by (cases "rev s") (auto simp: dropWhile_eq_self_iff dest: arg_cong [of _ _ set])
  finally show ?thesis by (simp add: rstrip_pad_def)
qed

theorem b64_token_decode:
  assumes "list_all (\<lambda>b. b < 256) raw"
  shows "b64_decode (pad_token (b64_token raw)) = Some raw"
proof -
  obtain s n where e: "b64_encode raw = s @ replicate n 61" "n < 4" "61 \<notin> set s" "(length s + n) mod 4 = 0"
    using b64_encode_shape [OF assms] by auto
  have "(int (length s) + int n) mod 4 = 0" using arg_cong [OF e(4), of int] by (simp add: zmod_int)
  then have "- int (length s) mod 4 = int n" using e(2) by presburger
  then have "nat (- int (length s) mod 4) = n" by simp
  then have "pad_token (b64_token raw) = b64_encode raw" by (simp add: b64_token_def pad_token_def e(1) rstrip_pad_append [OF e(3)])
  then show ?thesis by (simp add: b64_decode_encode [OF assms])
qed

lemma b64_token_length: "length (b64_token raw) \<le> length raw + length raw div 3 + 4"
proof -
  have "length (dropWhile P xs) \<le> length xs" for P and xs :: "nat list" by (induction xs) auto
  then have "length (b64_token raw) \<le> length (b64_encode raw)" by (simp add: b64_token_def rstrip_pad_def) (metis length_rev)
  also have "\<dots> \<le> length raw + length raw div 3 + 4" by (induction raw rule: b64_encode.induct) auto
  finally show ?thesis .
qed

lemma b64_token_ascii:
  assumes "list_all (\<lambda>b. b < 256) raw"
  shows "\<forall>c \<in> set (b64_token raw). c < 128"
proof -
  have "b64_char n < 128" for n by (auto simp: b64_char_def)
  then have "\<forall>c \<in> set (b64_encode raw). c < 128" by (induction raw rule: b64_encode.induct) auto
  then show ?thesis using set_dropWhileD by (fastforce simp: b64_token_def rstrip_pad_def)
qed

end
