(* ===== verification/Paging.thy ===== *)
theory Paging
  imports Query Base64 Json_Size
begin

text \<open>
  Pages and continuation tokens (query.py, \<open>LedgerPage\<close> and \<open>LedgerSelection\<close>). A token is the base64 spelling of a
  document that names the snapshot, the query and the next sequence. The lemmas show that a selection accepts exactly the
  tokens it issues, and that a client that follows them receives every selected receipt once and in order.
\<close>

subsection \<open>Pages\<close>

record ledger_page =
  lp_entries :: "ledger_entry list"
  lp_head :: json
  lp_snapshot_entries :: int
  lp_total_matches :: int
  lp_entry_bytes :: int
  lp_next_cursor :: "ustr option"
  lp_identity :: ustr

definition max_token :: nat where
  "max_token = 2048"

text \<open>The loop over the receipts of a page: re-validated, increasing within the snapshot, with their bytes added up.\<close>

fun page_receipts :: "runtime \<Rightarrow> int \<Rightarrow> int \<Rightarrow> int \<Rightarrow> ledger_entry list \<Rightarrow> int result" where
  "page_receipts rt snapshot previous sz [] = Inr sz"
| "page_receipts rt snapshot previous sz (x # xs) =
     rbind (LedgerEntry_from_dict rt (LedgerEntry_to_dict x)) (\<lambda>_.
     rbind (require (previous < le_sequence x \<and> le_sequence x < snapshot)
              ''page receipt sequences must increase within the snapshot'') (\<lambda>_.
     page_receipts rt snapshot (le_sequence x) (sz + entry_size rt x) xs))"

definition LedgerPage_init :: "runtime \<Rightarrow> ledger_page \<Rightarrow> ledger_page result" where
  "LedgerPage_init rt p =
     rbind (hash_value (lp_head p) ''head_digest'') (\<lambda>_.
     rbind (hash_value (JStr (lp_identity p)) ''query_identity'') (\<lambda>_.
     rbind (count_value (JInt (lp_snapshot_entries p)) ''snapshot_entries'' max_ledger_entries 0) (\<lambda>_.
     rbind (count_value (JInt (lp_total_matches p)) ''total_matches'' (lp_snapshot_entries p) 0) (\<lambda>_.
     rbind (count_value (JInt (lp_entry_bytes p)) ''entry_bytes'' max_page_bytes 0) (\<lambda>_.
     rbind (require (int (length (lp_entries p)) \<le> min 1000 (lp_total_matches p)) ''page entries must be a bounded immutable tuple'') (\<lambda>_.
     rbind (page_receipts rt (lp_snapshot_entries p) (- 1) 0 (lp_entries p)) (\<lambda>sz.
     rbind (require (sz = lp_entry_bytes p) ''page entry byte accounting disagrees with receipts'') (\<lambda>_.
     rbind (require (case lp_next_cursor p of None \<Rightarrow> True | Some c \<Rightarrow> c \<noteq> [] \<and> length c \<le> max_token)
              ''page cursor must be bounded text or None'') (\<lambda>_.
     Inr p)))))))))"

definition LedgerPage_to_dict :: "ledger_page \<Rightarrow> json" where
  "LedgerPage_to_dict p = JObj
     [(U ''kind'', JText ''evidence-braid-ledger-page''), (U ''schema_version'', JText ''1.0''),
      (U ''entries'', JArr (map LedgerEntry_to_dict (lp_entries p))), (U ''head_digest'', lp_head p),
      (U ''snapshot_entries'', JInt (lp_snapshot_entries p)), (U ''total_matches'', JInt (lp_total_matches p)),
      (U ''entry_bytes'', JInt (lp_entry_bytes p)), (U ''next_cursor'', JOpt (lp_next_cursor p)),
      (U ''query_identity'', JStr (lp_identity p))]"

subsection \<open>Tokens\<close>

definition cursor_payload :: "runtime \<Rightarrow> ledger_selection \<Rightarrow> int \<Rightarrow> json" where
  "cursor_payload rt sel next_sequence = JObj
     [(U ''kind'', JText ''evidence-braid-ledger-cursor''), (U ''schema_version'', JText ''1.0''),
      (U ''ledger_version'', JStr (lg_version (li_ledger (ls_index sel)))),
      (U ''head'', ledger_head (li_ledger (ls_index sel))),
      (U ''entries'', JInt (int (length (lg_entries (li_ledger (ls_index sel)))))),
      (U ''query'', JStr (LedgerQuery_identity rt (ls_query sel))), (U ''next_sequence'', JInt next_sequence)]"

definition LedgerSelection_cursor :: "runtime \<Rightarrow> ledger_selection \<Rightarrow> int \<Rightarrow> ustr" where
  "LedgerSelection_cursor rt sel next_sequence = b64_token (canonical_bytes rt (cursor_payload rt sel next_sequence))"

text \<open>The object that a token spells.\<close>

definition token_object :: "nat \<Rightarrow> ustr \<Rightarrow> (ustr \<times> json) list result" where
  "token_object limit cursor =
     (case b64_decode (pad_token cursor) of
        None \<Rightarrow> Inl (ValueError ''invalid base64'')
      | Some raw \<Rightarrow>
          rbind (decode raw) (\<lambda>text.
          rbind (io_loads limit text) (\<lambda>data.
          case data of JObj kvs \<Rightarrow> Inr kvs | _ \<Rightarrow> Inl (ValueError ''not an object''))))"

text \<open>Every exception of the reading becomes one error.\<close>

definition LedgerSelection_resume :: "runtime \<Rightarrow> nat \<Rightarrow> ledger_selection \<Rightarrow> ustr \<Rightarrow> int result" where
  "LedgerSelection_resume rt limit sel cursor =
     rbind (require (1 \<le> length cursor \<and> length cursor \<le> max_token \<and> list_all (\<lambda>c. c < 128) cursor)
              ''cursor must be bounded ASCII text'') (\<lambda>_.
     case rbind (token_object limit cursor) (\<lambda>data.
          rbind (count_value (dget data ''next_sequence'') ''next_sequence''
                   (int (length (lg_entries (li_ledger (ls_index sel))))) 0) (\<lambda>n.
          if LedgerSelection_cursor rt sel n = cursor then Inr n
          else Inl (ValueError ''cursor identity or canonical encoding differs''))) of
       Inl e \<Rightarrow> Inl (ValidationError ''cursor does not match this snapshot and query'')
     | Inr n \<Rightarrow> Inr n)"

subsection \<open>Reading a page\<close>

text \<open>
  The loop over the positions from the offset on. It stops at the page limit or before the byte budget would be
  exceeded, and returns the positions it left.
\<close>

fun page_loop ::
  "ledger_index \<Rightarrow> int \<Rightarrow> int \<Rightarrow> int list \<Rightarrow> ledger_entry list \<Rightarrow> int \<Rightarrow> (ledger_entry list \<times> int \<times> int list) result"
where
  "page_loop idx limit budget [] entries sz = Inr (entries, sz, [])"
| "page_loop idx limit budget (p # ps) entries sz =
     (if limit \<le> int (length entries) then Inr (entries, sz, p # ps)
      else
        let proposed = sz + li_sizes idx ! nat p in
        if budget < proposed
        then if entries = [] then Inl (ValidationError ''next receipt exceeds the page byte budget'')
             else Inr (entries, sz, p # ps)
        else page_loop idx limit budget ps (entries @ [lg_entries (li_ledger idx) ! nat p]) proposed)"

text \<open>\<open>bisect_left\<close> on the sorted positions drops those before the start.\<close>

definition LedgerSelection_page ::
  "runtime \<Rightarrow> nat \<Rightarrow> ledger_selection \<Rightarrow> int \<Rightarrow> int \<Rightarrow> ustr option \<Rightarrow> ledger_page result" where
  "LedgerSelection_page rt recursion sel limit budget cursor =
     rbind (count_value (JInt limit) ''limit'' 1000 1) (\<lambda>_.
     rbind (count_value (JInt budget) ''max_entry_bytes'' max_page_bytes 1) (\<lambda>_.
     rbind (case cursor of None \<Rightarrow> Inr 0 | Some c \<Rightarrow> LedgerSelection_resume rt recursion sel c) (\<lambda>start.
     let idx = ls_index sel in
     rbind (page_loop idx limit budget (dropWhile (\<lambda>p. p < start) (ls_positions sel)) [] 0) (\<lambda>(entries, sz, rest).
     LedgerPage_init rt
       \<lparr>lp_entries = entries, lp_head = ledger_head (li_ledger idx),
        lp_snapshot_entries = int (length (lg_entries (li_ledger idx))),
        lp_total_matches = int (length (ls_positions sel)), lp_entry_bytes = sz,
        lp_next_cursor = (case rest of [] \<Rightarrow> None | p # _ \<Rightarrow> Some (LedgerSelection_cursor rt sel p)),
        lp_identity = LedgerQuery_identity rt (ls_query sel)\<rparr>))))"

subsection \<open>A selection accepts exactly its own tokens\<close>

lemma LedgerSelection_resume_Inr:
  assumes "LedgerSelection_resume rt limit sel c = Inr n"
  shows "c = LedgerSelection_cursor rt sel n \<and> 0 \<le> n \<and> n \<le> int (length (lg_entries (li_ledger (ls_index sel))))"
  using assms
  by (auto simp: LedgerSelection_resume_def split: sum.splits if_splits)

text \<open>What the constructor of an index establishes of its snapshot.\<close>

definition selection_ok :: "runtime \<Rightarrow> ledger_selection \<Rightarrow> bool" where
  "selection_ok rt sel \<longleftrightarrow>
     (let l = li_ledger (ls_index sel) in
      (lg_version l = U ''1.0'' \<or> lg_version l = U ''2.0'') \<and> (\<exists>h. ledger_head l = JStr h \<and> is_hash h)
      \<and> int (length (lg_entries l)) \<le> max_ledger_entries)"

lemma identity_hash: "ledger_runtime rt \<Longrightarrow> is_hash (LedgerQuery_identity rt q)"
  by (simp add: LedgerQuery_identity_def sha_json_def ledger_runtime_def sha256_hex_def)

lemma hash_scalar: "is_hash s \<Longrightarrow> list_all scalar s"
  by (auto simp: is_hash_def hex_digit_def list_all_iff scalar_def)

lemma cursor_payload_parts:
  assumes rt: "ledger_runtime rt" and ok: "selection_ok rt sel" and n: "0 \<le> n" "n \<le> max_ledger_entries"
  shows "readable io_hooks rt (cursor_payload rt sel n)" "nested (Suc d) (cursor_payload rt sel n)"
    "texts scalar (cursor_payload rt sel n)" "length (canonical_bytes rt (cursor_payload rt sel n)) \<le> 400"
proof -
  let ?l = "li_ledger (ls_index sel)"
  obtain h where h: "ledger_head ?l = JStr h" "is_hash h" and ver: "lg_version ?l = U ''1.0'' \<or> lg_version ?l = U ''2.0''"
    and len: "int (length (lg_entries ?l)) \<le> max_ledger_entries"
    using ok by (auto simp: selection_ok_def Let_def)
  have num: "length (int_str i) \<le> 6" if "0 \<le> i" "i \<le> max_ledger_entries" for i
    using int_str_length [of i 5] that by (simp add: max_ledger_entries_def)
  have digits: "int_value (int_str i) = Inr (JInt i)" if "0 \<le> i" "i \<le> max_ledger_entries" for i
    using num [OF that] read_int_str [of i] by (auto simp: int_value_def max_str_digits_def)
  show "readable io_hooks rt (cursor_payload rt sel n)"
    using digits n len by (simp add: cursor_payload_def JText_def h io_hooks_def)
  show "nested (Suc d) (cursor_payload rt sel n)" by (simp add: cursor_payload_def JText_def h)
  have keys: "list_all scalar (U ''kind'')" "list_all scalar (U ''schema_version'')" "list_all scalar (U ''ledger_version'')"
    "list_all scalar (U ''head'')" "list_all scalar (U ''entries'')" "list_all scalar (U ''query'')"
    "list_all scalar (U ''next_sequence'')" "list_all scalar (U ''evidence-braid-ledger-cursor'')"
    "list_all scalar (U ''1.0'')" "list_all scalar (U ''2.0'')"
    by (simp_all add: U_def scalar_def)
  show "texts scalar (cursor_payload rt sel n)"
    using ver keys hash_scalar [OF h(2)] hash_scalar [OF identity_hash [OF rt]] by (auto simp: cursor_payload_def JText_def h(1))
  have k: "text_cost (U ''kind'') = 6" "text_cost (U ''schema_version'') = 16" "text_cost (U ''ledger_version'') = 16"
    "text_cost (U ''head'') = 6" "text_cost (U ''entries'') = 9" "text_cost (U ''query'') = 7" "text_cost (U ''next_sequence'') = 15"
    "text_cost (U ''evidence-braid-ledger-cursor'') = 30" "text_cost (U ''1.0'') = 5" "text_cost (U ''2.0'') = 5"
    by code_simp+
  have "json_cost text_cost rt (cursor_payload rt sel n) \<le> 400"
    using ver num [of n] num [of "int (length (lg_entries ?l))"] n len h(2) hash_cost identity_hash [OF rt]
    by (auto simp: cursor_payload_def JText_def h(1) k)
  then show "length (canonical_bytes rt (cursor_payload rt sel n)) \<le> 400"
    using canonical_bytes_cost [of text_cost rt "cursor_payload rt sel n"] by simp
qed

lemma LedgerSelection_resume_cursor:
  assumes rt: "ledger_runtime rt" "repr_reads rt" and ok: "selection_ok rt sel"
    and n: "0 \<le> n" "n \<le> int (length (lg_entries (li_ledger (ls_index sel))))"
  shows "LedgerSelection_resume rt (Suc d) sel (LedgerSelection_cursor rt sel n) = Inr n"
    "LedgerSelection_cursor rt sel n \<noteq> []" "length (LedgerSelection_cursor rt sel n) \<le> max_token"
proof -
  let ?v = "cursor_payload rt sel n" and ?raw = "canonical_bytes rt (cursor_payload rt sel n)" and ?c = "LedgerSelection_cursor rt sel n"
  have rep: "repr_contract rt" using rt(1) by (simp add: ledger_runtime_def)
  have bound: "n \<le> max_ledger_entries" using ok n(2) by (auto simp: selection_ok_def Let_def)
  note p = cursor_payload_parts [OF rt(1) ok n(1) bound]
  have fin: "json_finite ?v" by (rule readable_finite [OF p(1)])
  have "\<forall>c \<in> set (dumps rt ?v). scalar c"
    using enc_texts [OF rep, of scalar "canon ?v"] p(3) fin by (simp add: dumps_def json_finite_canon scalar_def)
  then have raw: "list_all (\<lambda>b. b < 256) ?raw" unfolding canonical_bytes_def by (intro bytes_of_scalars) (auto simp: scalar_def)
  have c: "?c = b64_token ?raw" by (simp add: LedgerSelection_cursor_def)
  have dec: "b64_decode (pad_token ?c) = Some ?raw" unfolding c by (rule b64_token_decode [OF raw])
  have "?raw \<noteq> []" by (simp add: canonical_bytes_def dumps_def cursor_payload_def utf8_def utf8_char_def)
  then show ne: "?c \<noteq> []" using dec by (auto simp: pad_token_def)
  show len: "length ?c \<le> max_token"
    using b64_token_length [of ?raw] p(4) unfolding c by (simp add: max_token_def)
  have "rbind (decode ?raw) (io_loads (Suc d)) = Inr (canon ?v)"
    using parse_canonical [OF rep rt(2) p(1,2,3)] by (simp add: io_loads_def)
  then obtain t where t: "decode ?raw = Inr t" "io_loads (Suc d) t = Inr (canon ?v)" by auto
  let ?kvs = "map (\<lambda>kv. (fst kv, canon (snd kv))) (case ?v of JObj kvs \<Rightarrow> kvs | _ \<Rightarrow> [])"
  have obj: "canon ?v = JObj (sort_key fst ?kvs)" by (simp add: cursor_payload_def)
  have "distinct (map fst ?kvs)" by (simp add: cursor_payload_def)
  then have "dget (sort_key fst ?kvs) ''next_sequence'' = JInt n"
    by (simp add: dget_def dget_or_def map_of_sort_key) (simp add: cursor_payload_def)
  moreover have cv: "count_value (JInt n) ''next_sequence'' (int (length (lg_entries (li_ledger (ls_index sel))))) 0 = Inr n"
    using n by simp
  ultimately show "LedgerSelection_resume rt (Suc d) sel ?c = Inr n"
    using ne len dec t n b64_token_ascii [OF raw]
    by (simp add: LedgerSelection_resume_def token_object_def obj require_def cv c [symmetric] list_all_iff Suc_le_eq)
qed

subsection \<open>Following the tokens\<close>

text \<open>A selection whose positions are receipts of its snapshot, in order, with their recorded sizes.\<close>

definition position_ok :: "runtime \<Rightarrow> ledger_index \<Rightarrow> int \<Rightarrow> bool" where
  "position_ok rt idx p \<longleftrightarrow>
     (let x = lg_entries (li_ledger idx) ! nat p in
      0 \<le> p \<and> p < int (length (lg_entries (li_ledger idx))) \<and> le_sequence x = p \<and> li_sizes idx ! nat p = entry_size rt x
      \<and> is_ok (LedgerEntry_from_dict rt (LedgerEntry_to_dict x)))"

definition pageable :: "runtime \<Rightarrow> ledger_selection \<Rightarrow> bool" where
  "pageable rt sel \<longleftrightarrow> selection_ok rt sel \<and> sorted_wrt (<) (ls_positions sel)
     \<and> (\<forall>p \<in> set (ls_positions sel). position_ok rt (ls_index sel) p)"

abbreviation receipts_at :: "ledger_index \<Rightarrow> int list \<Rightarrow> ledger_entry list" where
  "receipts_at idx ps \<equiv> map (\<lambda>p. lg_entries (li_ledger idx) ! nat p) ps"

definition size_at :: "ledger_index \<Rightarrow> int list \<Rightarrow> int" where
  "size_at idx ps = sum_list (map (\<lambda>p. li_sizes idx ! nat p) ps)"

lemma page_loop_Inr:
  assumes "\<forall>p \<in> set ps. 0 \<le> li_sizes idx ! nat p \<and> li_sizes idx ! nat p \<le> budget"
    "sz \<le> budget" "entries = [] \<longrightarrow> sz = 0" "1 \<le> limit" "int (length entries) \<le> limit"
  shows "\<exists>k \<le> length ps. page_loop idx limit budget ps entries sz
      = Inr (entries @ receipts_at idx (take k ps), sz + size_at idx (take k ps), drop k ps)
    \<and> (entries = [] \<and> ps \<noteq> [] \<longrightarrow> 0 < k) \<and> int (length entries + k) \<le> limit \<and> sz + size_at idx (take k ps) \<le> budget"
  using assms
proof (induction ps arbitrary: entries sz)
  case Nil
  then show ?case by (simp add: size_at_def)
next
  case (Cons p ps)
  let ?x = "lg_entries (li_ledger idx) ! nat p" and ?sz = "sz + li_sizes idx ! nat p"
  show ?case
  proof (cases "limit \<le> int (length entries) \<or> budget < ?sz")
    case True
    then have "entries \<noteq> []" using Cons.prems by auto
    then show ?thesis using True Cons.prems by (intro exI [of _ 0]) (auto simp: size_at_def Let_def)
  next
    case False
    have "entries @ [?x] = [] \<longrightarrow> ?sz = 0" by simp
    with False Cons.IH [of ?sz "entries @ [?x]"] Cons.prems
    obtain k where "k \<le> length ps" "page_loop idx limit budget ps (entries @ [?x]) ?sz
        = Inr (entries @ [?x] @ receipts_at idx (take k ps), ?sz + size_at idx (take k ps), drop k ps)"
      "int (length entries + 1 + k) \<le> limit" "?sz + size_at idx (take k ps) \<le> budget"
      by auto
    then show ?thesis using False by (intro exI [of _ "Suc k"]) (simp add: size_at_def Let_def)
  qed
qed

lemma page_receipts_Inr:
  assumes "\<forall>p \<in> set ps. position_ok rt idx p" "sorted_wrt (<) ps" "\<forall>p \<in> set ps. previous < p"
    and n: "snapshot = int (length (lg_entries (li_ledger idx)))"
  shows "page_receipts rt snapshot previous sz (receipts_at idx ps) = Inr (sz + size_at idx ps)"
  using assms(1-3)
proof (induction ps arbitrary: previous sz)
  case (Cons p ps)
  let ?x = "lg_entries (li_ledger idx) ! nat p"
  have p: "le_sequence ?x = p" "p < snapshot" "li_sizes idx ! nat p = entry_size rt ?x" "previous < p"
    "is_ok (LedgerEntry_from_dict rt (LedgerEntry_to_dict ?x))"
    using Cons.prems n by (auto simp: position_ok_def Let_def)
  have "page_receipts rt snapshot p (sz + entry_size rt ?x) (receipts_at idx ps) = Inr (sz + entry_size rt ?x + size_at idx ps)"
    by (rule Cons.IH) (use Cons.prems in auto)
  then show ?case using p by (auto simp: size_at_def is_ok_iff)
qed (simp add: size_at_def)

lemma sorted_bounded_length:
  assumes "sorted_wrt (<) ps" "\<forall>p \<in> set ps. 0 \<le> p \<and> p < (n :: int)"
  shows "int (length ps) \<le> n \<or> ps = []"
proof (cases "ps = []")
  case False
  then have n: "0 \<le> n" using assms(2) by (cases ps) auto
  have "distinct ps" using assms(1) by (simp add: strict_sorted_iff)
  then have "length ps = card (set ps)" by (simp add: distinct_card)
  also have "\<dots> \<le> card {0..<n}" by (rule card_mono) (use assms(2) in auto)
  finally show ?thesis using n by auto
qed simp

lemma size_at_nonneg: "\<forall>p \<in> set ps. 0 \<le> li_sizes idx ! nat p \<Longrightarrow> 0 \<le> size_at idx ps"
  unfolding size_at_def by (rule sum_list_nonneg) auto

text \<open>The page that begins at a start: some of the remaining receipts, at least one unless none remains.\<close>

lemma LedgerSelection_page_Inr:
  assumes rt: "ledger_runtime rt" "repr_reads rt" and sel: "pageable rt sel"
    and lim: "1 \<le> limit" "limit \<le> 1000" "1 \<le> budget" "budget \<le> max_page_bytes"
    and fits: "\<forall>p \<in> set (ls_positions sel). li_sizes (ls_index sel) ! nat p \<le> budget"
    and start: "(case cursor of None \<Rightarrow> Inr 0 | Some c \<Rightarrow> LedgerSelection_resume rt d sel c) = Inr start"
      "dropWhile (\<lambda>p. p < start) (ls_positions sel) = rest" "set rest \<subseteq> set (ls_positions sel)" "sorted_wrt (<) rest"
  shows "\<exists>p k. LedgerSelection_page rt d sel limit budget cursor = Inr p \<and> k \<le> length rest \<and> (rest \<noteq> [] \<longrightarrow> 0 < k)
    \<and> lp_entries p = receipts_at (ls_index sel) (take k rest) \<and> int k \<le> limit \<and> lp_entry_bytes p \<le> budget
    \<and> lp_next_cursor p = (case drop k rest of [] \<Rightarrow> None | q # _ \<Rightarrow> Some (LedgerSelection_cursor rt sel q))"
proof -
  let ?idx = "ls_index sel" and ?l = "li_ledger (ls_index sel)"
  have ok: "selection_ok rt sel" "sorted_wrt (<) (ls_positions sel)" "\<forall>p \<in> set (ls_positions sel). position_ok rt ?idx p"
    using sel by (auto simp: pageable_def)
  have sizes: "\<forall>p \<in> set rest. 0 \<le> li_sizes ?idx ! nat p \<and> li_sizes ?idx ! nat p \<le> budget"
    using ok(3) start(3) fits by (force simp: position_ok_def Let_def entry_size_def)
  obtain k where k: "k \<le> length rest" "page_loop ?idx limit budget rest [] 0
      = Inr (receipts_at ?idx (take k rest), size_at ?idx (take k rest), drop k rest)"
    "rest \<noteq> [] \<longrightarrow> 0 < k" "int k \<le> limit" "size_at ?idx (take k rest) \<le> budget"
    using page_loop_Inr [OF sizes, of 0 "[]" limit] lim by auto
  have sub: "set (take k rest) \<subseteq> set (ls_positions sel)" using start(3) set_take_subset by fast
  have total: "int (length (ls_positions sel)) \<le> int (length (lg_entries ?l))"
    using sorted_bounded_length [OF ok(2), of "int (length (lg_entries ?l))"] ok(3) by (auto simp: position_ok_def Let_def)
  have "length (take k rest) = card (set (take k rest))"
    using start(4) by (simp add: distinct_card strict_sorted_iff)
  also have "\<dots> \<le> card (set (ls_positions sel))" by (rule card_mono) (use sub in auto)
  also have "\<dots> \<le> length (ls_positions sel)" by (rule card_length)
  finally have few: "k \<le> length (ls_positions sel)" using k(1) by simp
  have sorted: "sorted_wrt (<) (take k rest)" using start(4) by (simp add: sorted_wrt_take)
  have nonneg: "0 \<le> size_at ?idx (take k rest)" by (rule size_at_nonneg) (use sizes in \<open>auto dest: in_set_takeD\<close>)
  have receipts: "page_receipts rt (int (length (lg_entries ?l))) (- 1) 0 (receipts_at ?idx (take k rest)) = Inr (0 + size_at ?idx (take k rest))"
  proof (rule page_receipts_Inr [OF _ sorted])
    show each: "\<forall>p \<in> set (take k rest). position_ok rt ?idx p" using ok(3) sub by blast
    show "\<forall>p \<in> set (take k rest). - 1 < p"
    proof
      fix p assume "p \<in> set (take k rest)"
      then have "0 \<le> p" using each by (simp add: position_ok_def Let_def)
      then show "- 1 < p" by simp
    qed
  qed simp
  obtain h where head: "ledger_head ?l = JStr h" "is_hash h" and bound: "int (length (lg_entries ?l)) \<le> max_ledger_entries"
    using ok(1) by (auto simp: selection_ok_def Let_def)
  have cur: "case (case drop k rest of [] \<Rightarrow> None | q # _ \<Rightarrow> Some (LedgerSelection_cursor rt sel q)) of
      None \<Rightarrow> True | Some c \<Rightarrow> c \<noteq> [] \<and> length c \<le> max_token"
  proof (cases "drop k rest")
    case (Cons q qs)
    then have "q \<in> set (ls_positions sel)" using start(3) in_set_dropD [of q k rest] by auto
    then have "0 \<le> q" "q \<le> int (length (lg_entries ?l))" using ok(3) by (auto simp: position_ok_def Let_def)
    then show ?thesis using LedgerSelection_resume_cursor(2,3) [OF rt ok(1)] Cons by simp
  qed simp
  have cv: "count_value (JInt n) name hi lo = Inr n" if "lo \<le> n" "n \<le> hi" for n name hi lo using that by simp
  show ?thesis
    by (intro exI [of _ "\<lparr>lp_entries = receipts_at ?idx (take k rest), lp_head = ledger_head ?l,
          lp_snapshot_entries = int (length (lg_entries ?l)), lp_total_matches = int (length (ls_positions sel)),
          lp_entry_bytes = size_at ?idx (take k rest),
          lp_next_cursor = (case drop k rest of [] \<Rightarrow> None | q # _ \<Rightarrow> Some (LedgerSelection_cursor rt sel q)),
          lp_identity = LedgerQuery_identity rt (ls_query sel)\<rparr>"] exI [of _ k])
      (use k few total bound nonneg lim start(1,2) receipts cur head identity_hash [OF rt(1), of "ls_query sel"] in
        \<open>simp add: LedgerSelection_page_def LedgerPage_init_def Let_def cv require_def\<close>)
qed

text \<open>A client that reads the first page and follows every token it is given, for at most \<open>n\<close> pages.\<close>

fun read_all :: "runtime \<Rightarrow> nat \<Rightarrow> ledger_selection \<Rightarrow> int \<Rightarrow> int \<Rightarrow> nat \<Rightarrow> ustr option \<Rightarrow> ledger_page list result" where
  "read_all rt d sel limit budget 0 cursor = Inl (RuntimeError ''more pages'')"
| "read_all rt d sel limit budget (Suc n) cursor =
     rbind (LedgerSelection_page rt d sel limit budget cursor) (\<lambda>p.
     case lp_next_cursor p of
       None \<Rightarrow> Inr [p]
     | Some c \<Rightarrow> rbind (read_all rt d sel limit budget n (Some c)) (\<lambda>ps. Inr (p # ps)))"

lemma drop_sorted: "sorted_wrt (<) ps \<Longrightarrow> j < length ps \<Longrightarrow> dropWhile (\<lambda>p. p < ps ! j) ps = drop j (ps :: int list)"
proof (induction ps arbitrary: j)
  case (Cons p ps)
  show ?case
  proof (cases j)
    case (Suc i)
    then have "p < ps ! i" using Cons.prems by simp
    then show ?thesis using Cons Suc by simp
  qed simp
qed simp

text \<open>From any position on, the pages hold exactly the remaining receipts.\<close>

lemma read_all_from:
  assumes rt: "ledger_runtime rt" "repr_reads rt" and sel: "pageable rt sel"
    and lim: "1 \<le> limit" "limit \<le> 1000" "1 \<le> budget" "budget \<le> max_page_bytes"
    and fits: "\<forall>p \<in> set (ls_positions sel). li_sizes (ls_index sel) ! nat p \<le> budget"
    and d: "d = Suc e"
  shows "j \<le> length (ls_positions sel) \<Longrightarrow> length (ls_positions sel) - j < n
    \<Longrightarrow> (if j = length (ls_positions sel) \<or> j = 0 then cursor = None \<and> j = 0
         else cursor = Some (LedgerSelection_cursor rt sel (ls_positions sel ! j)))
    \<Longrightarrow> \<exists>ps. read_all rt d sel limit budget n cursor = Inr ps
      \<and> concat (map lp_entries ps) = receipts_at (ls_index sel) (drop j (ls_positions sel))
      \<and> length ps \<le> max 1 (length (ls_positions sel) - j)
      \<and> (\<forall>p \<in> set ps. int (length (lp_entries p)) \<le> limit \<and> lp_entry_bytes p \<le> budget)"
proof (induction n arbitrary: j cursor)
  case (Suc n)
  let ?ps = "ls_positions sel" and ?rest = "drop j (ls_positions sel)"
  have ok: "selection_ok rt sel" "sorted_wrt (<) ?ps" "\<forall>p \<in> set ?ps. position_ok rt (ls_index sel) p"
    using sel by (auto simp: pageable_def)
  have pos: "0 \<le> p" "p \<le> int (length (lg_entries (li_ledger (ls_index sel))))" if "p \<in> set ?ps" for p
    using ok(3) that by (auto simp: position_ok_def Let_def)
  obtain start where start: "(case cursor of None \<Rightarrow> Inr 0 | Some c \<Rightarrow> LedgerSelection_resume rt d sel c) = Inr start"
    "dropWhile (\<lambda>p. p < start) ?ps = ?rest"
  proof (cases "j = 0")
    case True
    have "dropWhile (\<lambda>p. p < 0) ?ps = ?ps" using pos(1) by (cases ?ps) (auto simp: not_less)
    then show thesis using True Suc.prems(3) that [of 0] by simp
  next
    case False
    then have j: "j < length ?ps" "cursor = Some (LedgerSelection_cursor rt sel (?ps ! j))" using Suc.prems by (auto split: if_splits)
    then show thesis
      using that [of "?ps ! j"] LedgerSelection_resume_cursor(1) [OF rt ok(1)] pos nth_mem [OF j(1)] drop_sorted [OF ok(2) j(1)] d by simp
  qed
  have "set ?rest \<subseteq> set ?ps" "sorted_wrt (<) ?rest" using set_drop_subset [of j ?ps] ok(2) by (simp_all add: sorted_wrt_drop)
  then obtain p k where p: "LedgerSelection_page rt d sel limit budget cursor = Inr p" "k \<le> length ?rest" "?rest \<noteq> [] \<longrightarrow> 0 < k"
    "lp_entries p = receipts_at (ls_index sel) (take k ?rest)" "int k \<le> limit" "lp_entry_bytes p \<le> budget"
    "lp_next_cursor p = (case drop k ?rest of [] \<Rightarrow> None | q # _ \<Rightarrow> Some (LedgerSelection_cursor rt sel q))"
    using LedgerSelection_page_Inr [OF rt sel lim fits start] by blast
  show ?case
  proof (cases "j + k < length ?ps")
    case True
    then have next_: "lp_next_cursor p = Some (LedgerSelection_cursor rt sel (?ps ! (j + k)))" and k: "0 < k"
      using p(3,7) Cons_nth_drop_Suc [of "j + k" ?ps, symmetric] by (auto simp: add.commute)
    have m: "length ?ps - (j + k) < n" using Suc.prems(2) True k by linarith
    obtain ps where ps: "read_all rt d sel limit budget n (lp_next_cursor p) = Inr ps"
      "concat (map lp_entries ps) = receipts_at (ls_index sel) (drop (j + k) ?ps)" "length ps \<le> max 1 (length ?ps - (j + k))"
      "\<forall>p \<in> set ps. int (length (lp_entries p)) \<le> limit \<and> lp_entry_bytes p \<le> budget"
      using Suc.IH [of "j + k" "lp_next_cursor p"] m True k next_ by auto
    have "take k ?rest @ drop (j + k) ?ps = ?rest" using append_take_drop_id [of k ?rest] by (simp add: add.commute)
    then have all: "receipts_at (ls_index sel) (take k ?rest) @ receipts_at (ls_index sel) (drop (j + k) ?ps) = receipts_at (ls_index sel) ?rest"
      unfolding map_append [symmetric] by (rule arg_cong)
    have "read_all rt d sel limit budget (Suc n) cursor = Inr (p # ps)" using p(1) ps(1) next_ by simp
    moreover have "concat (map lp_entries (p # ps)) = receipts_at (ls_index sel) ?rest" using p(4) ps(2) all by simp
    moreover have "length (p # ps) \<le> max 1 (length ?ps - j)" using ps(3) True k by auto
    moreover have "\<forall>q \<in> set (p # ps). int (length (lp_entries q)) \<le> limit \<and> lp_entry_bytes q \<le> budget"
      using p(4,5,6) ps(4) by auto
    ultimately show ?thesis by blast
  next
    case False
    then have k: "k = length ?rest" "lp_next_cursor p = None" using p(2,7) by auto
    then show ?thesis using p by (intro exI [of _ "[p]"]) auto
  qed
qed simp

subsection \<open>Selections of a built ledger\<close>

lemma index_sizes_eq: "index_sizes rt running xs = Inr sizes \<Longrightarrow> sizes = map (entry_size rt) xs"
  by (induction xs arbitrary: running sizes) (auto simp: Let_def)

lemma ledger_receipts_read:
  assumes "EvidenceLedger_from_dict rt (EvidenceLedger_to_dict rt l) None = Inr l" "x \<in> set (lg_entries l)"
  shows "is_ok (LedgerEntry_from_dict rt (LedgerEntry_to_dict x))"
proof -
  have "\<exists>xs. rmap (LedgerEntry_from_dict rt) (map LedgerEntry_to_dict (lg_entries l)) = Inr xs"
    using assms(1) unfolding EvidenceLedger_from_dict_def
    by (elim rbindE) (auto simp: exact_fields_def EvidenceLedger_to_dict_def Let_def split: if_splits)
  then obtain xs where xs: "rmap (LedgerEntry_from_dict rt) (map LedgerEntry_to_dict (lg_entries l)) = Inr xs" by blast
  have "LedgerEntry_to_dict x \<in> set (map LedgerEntry_to_dict (lg_entries l))" using assms(2) by simp
  from rmap_Inr_elem [OF xs this] show ?thesis by (auto simp: is_ok_iff)
qed

lemma built_pageable:
  assumes rt: "ledger_runtime rt" "iso_contract rt"
    and es: "\<forall>e \<in> set es. storable e" "distinct (map ev_id es)" "int (length es) \<le> max_ledger_entries"
    and l: "build_ledger rt es = Inr l" and idx: "LedgerIndex_init rt l h None = Inr idx"
  shows "pageable rt (LedgerSelection_init idx q)"
proof -
  have built: "lg_version l = U ''2.0''" "map le_event (lg_entries l) = map EvidenceEvent_to_dict (ledger_order es)"
    "ledger_verify rt l None" "EvidenceLedger_from_dict rt (EvidenceLedger_to_dict rt l) None = Inr l"
    using build_ledger_Inr [OF rt es] l by auto
  have len: "length (lg_entries l) = length es" using arg_cong [OF built(2), of length] by simp
  obtain n where n: "n \<le> length (lg_entries l)" "li_ledger idx = l\<lparr>lg_entries := take n (lg_entries l)\<rparr>" "n = length (lg_entries l)"
    "ledger_head (li_ledger idx) = JStr h" "is_hash h" "\<exists>sizes. index_sizes rt 0 (lg_entries l) = Inr sizes \<and> li_sizes idx = take n sizes"
    by (rule LedgerIndex_init_Inr [OF idx]) simp
  then have snap: "li_ledger idx = l" "li_sizes idx = map (entry_size rt) (lg_entries l)" by (auto dest: index_sizes_eq)
  have "length (li_events idx) = length (lg_entries l)"
    using index_rows(2) [OF rt idx, of "''claim''"] snap(1) by (simp add: index_fields_def)
  then have pos: "ls_positions (LedgerSelection_init idx q) = map int (filter (\<lambda>i. query_matches q (li_events idx ! i)) [0..<length (lg_entries l)])"
    using selection_spec [OF rt idx] by simp
  have sel: "ls_index (LedgerSelection_init idx q) = idx" by (simp add: LedgerSelection_init_def Let_def)
  have "selection_ok rt (LedgerSelection_init idx q)"
    using n(4,5) es(3) built(1) len by (simp add: selection_ok_def sel snap(1))
  moreover have "sorted_wrt (<) (ls_positions (LedgerSelection_init idx q))"
    unfolding pos by (simp add: sorted_wrt_map sorted_wrt_filter)
  moreover have "position_ok rt idx (int i)" if i: "i < length (lg_entries l)" for i
    using i verified_sequence [OF rt built(3) i] ledger_receipts_read [OF built(4), of "lg_entries l ! i"]
    by (simp add: position_ok_def snap)
  ultimately show ?thesis by (auto simp: pageable_def sel pos)
qed


text \<open>The receipts whose reports match a query, in order.\<close>

definition matching_receipts :: "runtime \<Rightarrow> evidence_ledger \<Rightarrow> ledger_query \<Rightarrow> ledger_entry list" where
  "matching_receipts rt l q =
     filter (\<lambda>x. case EvidenceEvent_from_dict rt (le_event x) ''event'' of Inr e \<Rightarrow> query_matches q e | Inl _ \<Rightarrow> False) (lg_entries l)"

lemma filter_nth_map: "map (\<lambda>i. xs ! i) (filter (\<lambda>i. P (xs ! i)) [0..<length xs]) = filter P xs"
proof (induction xs rule: rev_induct)
  case (snoc x xs)
  have "filter (\<lambda>i. P ((xs @ [x]) ! i)) [0..<length xs] = filter (\<lambda>i. P (xs ! i)) [0..<length xs]"
    by (rule filter_cong) (simp_all add: nth_append)
  moreover have "map (\<lambda>i. (xs @ [x]) ! i) (filter (\<lambda>i. P (xs ! i)) [0..<length xs]) = map (\<lambda>i. xs ! i) (filter (\<lambda>i. P (xs ! i)) [0..<length xs])"
    by (rule map_cong) (auto simp: nth_append)
  ultimately show ?case using snoc by simp
qed simp

lemma selected_receipts:
  assumes rt: "ledger_runtime rt" "iso_contract rt" and idx: "LedgerIndex_init rt l h None = Inr idx"
  shows "receipts_at idx (ls_positions (LedgerSelection_init idx q)) = matching_receipts rt l q"
    "length (ls_positions (LedgerSelection_init idx q)) \<le> length (lg_entries l)"
    "p \<in> set (ls_positions (LedgerSelection_init idx q)) \<Longrightarrow> li_sizes idx ! nat p \<le> budget
      \<longleftrightarrow> entry_size rt (lg_entries l ! nat p) \<le> budget"
    "p \<in> set (ls_positions (LedgerSelection_init idx q)) \<Longrightarrow> lg_entries l ! nat p \<in> set (matching_receipts rt l q)"
proof -
  obtain n where n: "n = length (lg_entries l)" "li_ledger idx = l\<lparr>lg_entries := take n (lg_entries l)\<rparr>"
    "\<exists>sizes. index_sizes rt 0 (lg_entries l) = Inr sizes \<and> li_sizes idx = take n sizes"
    by (rule LedgerIndex_init_Inr [OF idx]) simp
  then have snap: "li_ledger idx = l" "li_sizes idx = map (entry_size rt) (lg_entries l)" by (auto dest: index_sizes_eq)
  have ev: "list_all2 (\<lambda>x e. EvidenceEvent_from_dict rt (le_event x) ''event'' = Inr e) (lg_entries l) (li_events idx)"
    using LedgerIndex_events [OF idx] by (simp add: snap)
  then have len: "length (li_events idx) = length (lg_entries l)" by (simp add: list_all2_lengthD)
  let ?P = "\<lambda>x. case EvidenceEvent_from_dict rt (le_event x) ''event'' of Inr e \<Rightarrow> query_matches q e | Inl _ \<Rightarrow> False"
  have "filter (\<lambda>i. query_matches q (li_events idx ! i)) [0..<length (lg_entries l)] = filter (\<lambda>i. ?P (lg_entries l ! i)) [0..<length (lg_entries l)]"
    by (rule filter_cong) (use ev in \<open>auto simp: list_all2_conv_all_nth\<close>)
  then have pos: "ls_positions (LedgerSelection_init idx q) = map int (filter (\<lambda>i. ?P (lg_entries l ! i)) [0..<length (lg_entries l)])"
    using selection_spec [OF rt idx, of q] len by simp
  show rec: "receipts_at idx (ls_positions (LedgerSelection_init idx q)) = matching_receipts rt l q"
    using filter_nth_map [of "lg_entries l" ?P] by (simp add: pos matching_receipts_def snap comp_def)
  show "length (ls_positions (LedgerSelection_init idx q)) \<le> length (lg_entries l)"
    unfolding pos using length_filter_le [of _ "[0..<length (lg_entries l)]"] by simp
  assume p: "p \<in> set (ls_positions (LedgerSelection_init idx q))"
  then show "li_sizes idx ! nat p \<le> budget \<longleftrightarrow> entry_size rt (lg_entries l ! nat p) \<le> budget"
    by (auto simp: pos snap)
  show "lg_entries l ! nat p \<in> set (matching_receipts rt l q)"
    unfolding rec [symmetric] snap(1) using p by simp
qed

lemma pages_cover:
  assumes rt: "ledger_runtime rt" "iso_contract rt" "repr_reads rt"
    and es: "\<forall>e \<in> set es. storable e" "distinct (map ev_id es)" "int (length es) \<le> max_ledger_entries"
    and l: "build_ledger rt es = Inr l" and idx: "LedgerIndex_init rt l h None = Inr idx"
    and lim: "1 \<le> limit" "limit \<le> 1000" "1 \<le> budget" "budget \<le> max_page_bytes"
    and fits: "\<forall>x \<in> set (matching_receipts rt l q). entry_size rt x \<le> budget"
  shows "\<exists>ps. read_all rt (Suc d) (LedgerSelection_init idx q) limit budget (Suc (length (lg_entries l))) None = Inr ps
    \<and> concat (map lp_entries ps) = matching_receipts rt l q
    \<and> length ps \<le> max 1 (length (matching_receipts rt l q))
    \<and> (\<forall>p \<in> set ps. int (length (lp_entries p)) \<le> limit \<and> lp_entry_bytes p \<le> budget)"
proof -
  let ?sel = "LedgerSelection_init idx q"
  note page = built_pageable [OF rt(1,2) es l idx, of q]
  note sel = selected_receipts(3,4) [OF rt(1,2) idx, where q = q]
  have s: "ls_index ?sel = idx" by (simp add: LedgerSelection_init_def Let_def)
  have "length (matching_receipts rt l q) = length (ls_positions ?sel)"
    using arg_cong [OF selected_receipts(1) [OF rt(1,2) idx, where q = q], of length] by simp
  then show ?thesis
    using read_all_from [OF rt(1,3) page lim _ refl, of 0 "Suc (length (lg_entries l))" None d]
      selected_receipts(1,2) [OF rt(1,2) idx, where q = q] fits sel
    by (simp add: s)
qed

end
