(* ===== verification/Frozen_Json.thy ===== *)
theory Frozen_Json
  imports Json_Parser Json_Size
begin

text \<open>
  What \<open>_freeze_json\<close> accepts, without its budget: a predicate on the values at each depth, and the number of values.
  Accepted documents are read back by the parser, whatever the order of their members.
\<close>

fun freezes :: "int \<Rightarrow> json \<Rightarrow> bool" where
  "freezes d (JInt i) = (d \<le> max_attribute_depth \<and> \<bar>i\<bar> \<le> max_attribute_integer)"
| "freezes d (JFloat x) = (d \<le> max_attribute_depth \<and> finite_float x)"
| "freezes d (JStr s) = (d \<le> max_attribute_depth \<and> is_xml_character s)"
| "freezes d (JArr xs) = (d \<le> max_attribute_depth \<and> list_all (freezes (d + 1)) xs)"
| "freezes d (JObj kvs) =
     (d \<le> max_attribute_depth \<and> list_all (\<lambda>kv. is_xml_character (fst kv) \<and> freezes (d + 1) (snd kv)) kvs)"
| "freezes d _ = (d \<le> max_attribute_depth)"

fun json_nodes :: "json \<Rightarrow> int" where
  "json_nodes (JArr xs) = 1 + sum_list (map json_nodes xs)"
| "json_nodes (JObj kvs) = 1 + sum_list (map (\<lambda>kv. json_nodes (snd kv)) kvs)"
| "json_nodes _ = 1"

lemma json_nodes_pos: "0 < json_nodes v"
proof (induction v)
  case (JArr xs)
  then show ?case using sum_list_nonneg [of "map json_nodes xs"] by fastforce
next
  case (JObj kvs)
  have "0 \<le> json_nodes (snd kv)" if "kv \<in> set kvs" for kv
    using JObj.IH [of kv "snd kv"] that by (cases kv) (auto intro: less_imp_le)
  then show ?case using sum_list_nonneg [of "map (\<lambda>kv. json_nodes (snd kv)) kvs"] by fastforce
qed simp_all

lemma nodes_nonneg: "0 \<le> sum_list (map json_nodes xs)" "0 \<le> sum_list (map (\<lambda>kv. json_nodes (snd kv)) kvs)"
  by (auto intro!: sum_list_nonneg intro: less_imp_le [OF json_nodes_pos])

lemma freeze_spec:
  "0 \<le> b \<Longrightarrow> freeze True d b v = Inr b' \<longleftrightarrow> freezes d v \<and> json_nodes v \<le> b \<and> b' = b - json_nodes v"
  "0 \<le> b \<Longrightarrow> freeze_items True d b xs = Inr b'
    \<longleftrightarrow> list_all (freezes d) xs \<and> sum_list (map json_nodes xs) \<le> b \<and> b' = b - sum_list (map json_nodes xs)"
  "0 \<le> b \<Longrightarrow> freeze_members True d b kvs = Inr b'
    \<longleftrightarrow> list_all (\<lambda>kv. is_xml_character (fst kv) \<and> freezes d (snd kv)) kvs
      \<and> sum_list (map (\<lambda>kv. json_nodes (snd kv)) kvs) \<le> b \<and> b' = b - sum_list (map (\<lambda>kv. json_nodes (snd kv)) kvs)"
proof (induction True d b v and True d b xs and True d b kvs arbitrary: b' and b' and b'
    rule: freeze_freeze_items_freeze_members.induct)
  case (1 d b v)
  have pos: "0 < json_nodes v" by (rule json_nodes_pos)
  show ?case
  proof (cases "b = 0 \<or> d > max_attribute_depth")
    case True
    then show ?thesis using pos by (cases v) (auto simp: freeze.simps [of True d b])
  next
    case False
    then have b: "0 \<le> b - 1" using 1(3) by simp
    show ?thesis
    proof (cases v)
      case (JObj kvs)
      then show ?thesis using False 1(2) [OF _ _ JObj, simplified] b by (auto simp: freeze.simps [of True d b])
    next
      case (JArr xs)
      then show ?thesis using False 1(1) [OF _ _ JArr, simplified] b by (auto simp: freeze.simps [of True d b])
    qed (use False b in \<open>auto simp: freeze.simps [of True d b]\<close>)
  qed
next
  case (3 d b x xs)
  have n: "0 \<le> sum_list (map json_nodes xs)" "0 < json_nodes x" by (rule nodes_nonneg json_nodes_pos)+
  show ?case
  proof (cases "freezes d x \<and> json_nodes x \<le> b")
    case True
    then show ?thesis using 3 n by auto
  next
    case False
    then show ?thesis using 3(1,3) n by auto
  qed
next
  case (5 d b k v kvs)
  have n: "0 \<le> sum_list (map (\<lambda>kv. json_nodes (snd kv)) kvs)" "0 < json_nodes v" by (rule nodes_nonneg json_nodes_pos)+
  show ?case
  proof (cases "is_xml_character k \<and> freezes d v \<and> json_nodes v \<le> b")
    case True
    then show ?thesis using 5 n by auto
  next
    case False
    then show ?thesis using 5(1,3) n by auto
  qed
qed auto

lemma frozen_spec: "frozen v \<longleftrightarrow> freezes 0 v \<and> json_nodes v \<le> max_attribute_nodes"
  using freeze_spec(1) [of max_attribute_nodes 0 v] by (auto simp: frozen_def is_ok_iff max_attribute_nodes_def)

lemma sum_list_sort_map: "sum_list (map f (sort_key g xs)) = (sum_list (map f xs) :: int)"
  by (metis mset_map mset_sort sum_mset_sum_list)

lemma map_sort_key:
  assumes "\<And>x. g (f x) = h x"
  shows "map f (sort_key h xs) = sort_key g (map f xs)"
proof -
  have "map f (insort_key h x ys) = insort_key g (f x) (map f ys)" for x ys
    by (induction ys) (simp_all add: assms)
  then show ?thesis by (induction xs) simp_all
qed

lemma canon_idem: "canon (canon v) = canon v"
proof (induction v rule: canon.induct)
  case (7 kvs)
  let ?c = "\<lambda>kv. (fst kv, canon (snd kv))"
  have "map ?c (map ?c kvs) = map ?c kvs" using 7 by (auto intro: map_cong)
  then have "map ?c (sort_key fst (map ?c kvs)) = sort_key fst (map ?c kvs)"
    using map_sort_key [of fst ?c fst "map ?c kvs"] by (simp del: map_map)
  moreover have "sort_key fst (sort_key fst (map ?c kvs)) = sort_key fst (map ?c kvs)" by (rule sort_key_id_if_sorted) simp
  ultimately show ?case by simp
qed (auto intro: map_cong)

lemma freezes_canon [simp]: "freezes d (canon v) = freezes d v"
  by (induction v arbitrary: d rule: canon.induct) (auto simp: list_all_iff)

lemma json_nodes_canon [simp]: "json_nodes (canon v) = json_nodes v"
proof (induction v rule: canon.induct)
  case (7 kvs)
  then have e: "map (\<lambda>kv. json_nodes (canon (snd kv))) kvs = map (\<lambda>kv. json_nodes (snd kv)) kvs" by (auto intro: map_cong)
  show ?case by (simp add: sum_list_sort_map comp_def e)
next
  case (6 xs)
  then have e: "map (\<lambda>x. json_nodes (canon x)) xs = map json_nodes xs" by (auto intro: map_cong)
  show ?case by (simp add: comp_def e)
qed simp_all

lemma frozen_canon [simp]: "frozen (canon v) = frozen v"
  by (simp add: frozen_spec)

text \<open>A value that Python can hold: the keys of a dict are distinct and the finite floats are at most the largest double.\<close>

function representable :: "json \<Rightarrow> bool" where
  "representable (JFloat x) = (case x of Fin q \<Rightarrow> \<bar>q\<bar> \<le> max_double | _ \<Rightarrow> True)"
| "representable (JArr xs) = list_all (\<lambda>x. representable x) xs"
| "representable (JObj kvs) = (distinct (map fst kvs) \<and> list_all (\<lambda>kv. representable (snd kv)) kvs)"
| "representable JNull = True"
| "representable (JBool b) = True"
| "representable (JInt i) = True"
| "representable (JStr s) = True"
  by pat_completeness auto
termination
  by (relation "measure size") (auto simp: less_Suc_eq_le size_list_estimation' dest!: json_member_size)

lemma int_value_small:
  assumes "\<bar>i\<bar> < 10 ^ Suc k" "Suc k \<le> max_str_digits"
  shows "int_value (int_str i) = Inr (JInt i)"
proof -
  have len: "length (digits_of n) \<le> Suc k" if "0 \<le> n" "n < 10 ^ Suc k" for n
    using int_str_length [OF that] that(1) by (simp add: int_str_def)
  have "length (if take 1 (int_str i) = [45] then drop 1 (int_str i) else int_str i) \<le> Suc k"
  proof (cases "i < 0")
    case True
    then show ?thesis using len [of "- i"] assms(1) by (simp add: int_str_def)
  next
    case False
    moreover have "take 1 (digits_of i) \<noteq> [45]" by (cases "digits_of i") (auto dest: digits_of_hd)
    ultimately show ?thesis using len [of i] assms(1) by (simp add: int_str_def)
  qed
  then show ?thesis using read_int_str [of i] assms(2) by (simp add: int_value_def)
qed

lemma int_value_attribute: "\<bar>i\<bar> \<le> max_attribute_integer \<Longrightarrow> int_value (int_str i) = Inr (JInt i)"
proof -
  assume i: "\<bar>i\<bar> \<le> max_attribute_integer"
  have k: "(640 :: nat) = Suc 639" by simp
  have "\<bar>i\<bar> < 10 ^ Suc 639" using i unfolding max_attribute_integer_def k by linarith
  then show ?thesis by (rule int_value_small) (simp add: max_str_digits_def)
qed

text \<open>Accepted values read back.\<close>

lemma xml_scalars: "is_xml_character s \<Longrightarrow> list_all scalar s"
  by (auto simp: is_xml_character_def list_all_iff scalar_def)

lemma read_negzero: "read_float (U ''-0.0'') = NegZero"
  by code_simp

lemma freezes_readable:
  assumes "repr_reads rt"
  shows "freezes d v \<Longrightarrow> representable v \<Longrightarrow> readable io_hooks rt v"
proof (induction v arbitrary: d rule: canon.induct)
  case (3 i)
  then show ?case by (simp add: io_hooks_def int_value_attribute)
next
  case (4 x)
  then show ?case
    using assms by (cases x) (simp_all add: io_hooks_def parse_finite_float_def repr_reads_def read_negzero)
qed (auto simp: list_all_iff)

lemma freezes_texts: "freezes d v \<Longrightarrow> texts scalar v"
  by (induction v arbitrary: d rule: canon.induct) (auto simp: list_all_iff xml_scalars [unfolded list_all_iff])

lemma freezes_depth: "freezes d v \<Longrightarrow> d \<le> 64"
  by (cases v) (simp_all add: max_attribute_depth_def)

lemma freezes_nested: "freezes (64 - int n) v \<Longrightarrow> nested (Suc n) v"
proof (induction v arbitrary: n rule: canon.induct)
  case (6 xs)
  have "nested n x" if x: "x \<in> set xs" for x
  proof (cases n)
    case 0
    then show ?thesis using 6(2) x freezes_depth [of "65 - int n" x] by (auto simp: list_all_iff)
  next
    case (Suc m)
    then show ?thesis using 6 x by (auto simp: list_all_iff)
  qed
  then show ?case by (simp add: list_all_iff)
next
  case (7 kvs)
  have "nested n (snd kv)" if x: "kv \<in> set kvs" for kv
  proof (cases n)
    case 0
    then show ?thesis using 7(2) x freezes_depth [of "65 - int n" "snd kv"] by (auto simp: list_all_iff)
  next
    case (Suc m)
    then show ?thesis using 7 x by (auto simp: list_all_iff)
  qed
  then show ?case by (simp add: list_all_iff)
qed simp_all

lemma nested_mono: "nested d v \<Longrightarrow> d \<le> e \<Longrightarrow> nested e v"
proof (induction v arbitrary: d e rule: canon.induct)
  case (6 xs)
  then obtain a where a: "d = Suc a" "list_all (nested a) xs" by (cases d) auto
  moreover from a 6(3) obtain b where b: "e = Suc b" "a \<le> b" by (cases e) auto
  ultimately have "nested b x" if "x \<in> set xs" for x
    using 6(1) [OF that, of a b] that by (simp add: list_all_iff)
  with b show ?case by (simp add: list_all_iff)
next
  case (7 kvs)
  then obtain a where a: "d = Suc a" "list_all (\<lambda>kv. nested a (snd kv)) kvs" by (cases d) auto
  moreover from a 7(3) obtain b where b: "e = Suc b" "a \<le> b" by (cases e) auto
  ultimately have "nested b (snd kv)" if "kv \<in> set kvs" for kv
    using 7(1) [OF that, of a b] that by (simp add: list_all_iff)
  with b show ?case by (simp add: list_all_iff)
qed simp_all

theorem parse_frozen:
  assumes rt: "repr_contract rt" "repr_reads rt" and v: "frozen v" "representable v" and d: "65 \<le> d"
  shows "rbind (decode (canonical_bytes rt v)) (io_loads d) = Inr (canon v)"
proof -
  have f: "freezes (64 - int 64) v" using v(1) by (simp add: frozen_spec)
  have "nested d v" by (rule nested_mono [OF freezes_nested [OF f]]) (use d in simp)
  then show ?thesis
    using parse_canonical [OF rt freezes_readable [OF rt(2) f v(2)] _ freezes_texts [OF f]] unfolding io_loads_def by simp
qed

end
