(* ===== verification/Readers.thy ===== *)
theory Readers
  imports Policies Frozen_Json
begin

text \<open>
  The bounded readers of io.py: a JSON document, a policy, and the JSONL streams of reports and adjudications. The file
  system is the content of the file, or nothing where it cannot be read. The lemmas show that a stream that is written
  line by line reads back as the same reports, and that a stream that is accepted is read completely.
\<close>

subsection \<open>Bounded bytes\<close>

definition default_max_policy_bytes :: int where
  "default_max_policy_bytes = 4 * 1024 * 1024"

definition max_policy_bytes :: int where
  "max_policy_bytes = 16 * 1024 * 1024"

definition default_max_event_file_bytes :: int where
  "default_max_event_file_bytes = 64 * 1024 * 1024"

definition max_event_file_bytes :: int where
  "max_event_file_bytes = 256 * 1024 * 1024"

definition default_max_line_bytes :: int where
  "default_max_line_bytes = 1 * 1024 * 1024"

definition max_line_bytes :: int where
  "max_line_bytes = 16 * 1024 * 1024"

definition limit_value :: "json \<Rightarrow> string \<Rightarrow> int \<Rightarrow> int result" where
  "limit_value v name maximum =
     (case v of
        JInt n \<Rightarrow> if 1 \<le> n \<and> n \<le> maximum then Inr n else Inl (ValidationError (name @ '' must be an integer within its ceiling''))
      | _ \<Rightarrow> Inl (ValidationError (name @ '' must be an integer within its ceiling'')))"

text \<open>One byte more than the limit is requested, so that an oversized file is refused and never truncated.\<close>

definition read_bounded :: "bytes option \<Rightarrow> int \<Rightarrow> bytes result" where
  "read_bounded content maximum =
     (case content of
        None \<Rightarrow> Inl (InputFormatError ''cannot read'')
      | Some stored \<Rightarrow>
          let raw = take (nat (maximum + 1)) stored in
          if maximum < int (length raw) then Inl (InputFormatError ''exceeds the byte limit'') else Inr raw)"

definition decode_text :: "bytes \<Rightarrow> ustr result" where
  "decode_text raw = (case decode raw of Inl _ \<Rightarrow> Inl (InputFormatError ''cannot decode as UTF-8'') | Inr s \<Rightarrow> Inr s)"

subsection \<open>Lines\<close>

text \<open>\<open>bytes.splitlines\<close>: a line ends at a line feed, a carriage return or both; the end of the file ends the last one.\<close>

definition line_byte :: "nat \<Rightarrow> bool" where
  "line_byte b \<longleftrightarrow> b \<noteq> 10 \<and> b \<noteq> 13"

definition after_newline :: "bytes \<Rightarrow> bytes" where
  "after_newline s = (if take 2 s = [13, 10] then drop 2 s else drop 1 s)"

function splitlines :: "bytes \<Rightarrow> bytes list" where
  "splitlines s =
     (if s = [] then []
      else takeWhile line_byte s # splitlines (after_newline (dropWhile line_byte s)))"
  by pat_completeness auto
termination
proof (relation "measure length")
  fix s :: bytes
  assume "s \<noteq> []"
  moreover have "length (after_newline (dropWhile line_byte s)) \<le> length (dropWhile line_byte s) - 1"
    by (auto simp: after_newline_def intro: diff_le_mono2)
  moreover have "length (dropWhile line_byte s) \<le> length s" by (rule length_dropWhile_le)
  moreover have "0 < length s" using \<open>s \<noteq> []\<close> by simp
  ultimately have "length (after_newline (dropWhile line_byte s)) < length s" by linarith
  then show "(after_newline (dropWhile line_byte s), s) \<in> measure length" by simp
qed simp

declare splitlines.simps [simp del]

subsection \<open>Readers\<close>

definition load_json :: "nat \<Rightarrow> bytes option \<Rightarrow> json \<Rightarrow> json result" where
  "load_json depth content max_bytes =
     rbind (limit_value max_bytes ''max_bytes'' max_policy_bytes) (\<lambda>maximum.
     rbind (read_bounded content maximum) (\<lambda>raw.
     rbind (decode_text raw) (\<lambda>s.
     case io_loads depth s of Inl _ \<Rightarrow> Inl (InputFormatError ''invalid JSON'') | Inr v \<Rightarrow> Inr v)))"

definition load_policy :: "nat \<Rightarrow> bytes option \<Rightarrow> json \<Rightarrow> policy result" where
  "load_policy depth content max_bytes = rbind (load_json depth content max_bytes) Policy_from_dict"

text \<open>One record: a syntax error becomes an input error, a validation error is raised again with the name of the file.\<close>

definition load_record :: "nat \<Rightarrow> (json \<Rightarrow> 'a result) \<Rightarrow> ustr \<Rightarrow> 'a result" where
  "load_record depth build line =
     (case io_loads depth line of
        Inl _ \<Rightarrow> Inl (InputFormatError ''invalid JSONL'')
      | Inr raw \<Rightarrow> build raw)"

fun load_lines :: "nat \<Rightarrow> (json \<Rightarrow> 'a result) \<Rightarrow> int \<Rightarrow> bytes list \<Rightarrow> 'a list result" where
  "load_lines depth build line_maximum [] = Inr []"
| "load_lines depth build line_maximum (chunk # rest) =
     (if line_maximum < int (length chunk) then Inl (InputFormatError ''line exceeds the byte limit'')
      else
        rbind (decode_text chunk) (\<lambda>line.
        if strip line = [] then load_lines depth build line_maximum rest
        else
          rbind (load_record depth build line) (\<lambda>x.
          rbind (load_lines depth build line_maximum rest) (\<lambda>xs. Inr (x # xs)))))"

definition load_records :: "nat \<Rightarrow> (json \<Rightarrow> 'a result) \<Rightarrow> bytes option \<Rightarrow> int \<Rightarrow> int \<Rightarrow> 'a list result" where
  "load_records depth build content maximum line_maximum =
     rbind (read_bounded content maximum) (\<lambda>raw. load_lines depth build line_maximum (splitlines raw))"

definition load_events :: "runtime \<Rightarrow> nat \<Rightarrow> bytes option \<Rightarrow> json \<Rightarrow> json \<Rightarrow> evidence_event list result" where
  "load_events rt depth content max_bytes max_line =
     rbind (limit_value max_bytes ''max_bytes'' max_event_file_bytes) (\<lambda>maximum.
     rbind (limit_value max_line ''max_line_bytes'' max_line_bytes) (\<lambda>line_maximum.
     load_records depth (\<lambda>raw. EvidenceEvent_from_dict rt raw ''events'') content maximum line_maximum))"

definition load_adjudications :: "runtime \<Rightarrow> nat \<Rightarrow> bytes option \<Rightarrow> json \<Rightarrow> json \<Rightarrow> adjudication list result" where
  "load_adjudications rt depth content max_bytes max_line =
     rbind (limit_value max_bytes ''max_bytes'' max_event_file_bytes) (\<lambda>maximum.
     rbind (limit_value max_line ''max_line_bytes'' max_line_bytes) (\<lambda>line_maximum.
     load_records depth (\<lambda>raw. Adjudication_from_dict rt raw ''adjudications'') content maximum line_maximum))"

subsection \<open>Streams that are written line by line\<close>

definition jsonl :: "runtime \<Rightarrow> json list \<Rightarrow> bytes" where
  "jsonl rt vs = concat (map (\<lambda>v. canonical_bytes rt v @ [10]) vs)"

lemma splitlines_line: "list_all line_byte l \<Longrightarrow> splitlines (l @ 10 # s) = l # splitlines s"
proof -
  assume "list_all line_byte l"
  then have l: "\<forall>b \<in> set l. line_byte b" by (simp add: list_all_iff)
  have "\<not> line_byte 10" by (simp add: line_byte_def)
  with l have "takeWhile line_byte (l @ 10 # s) = l" "dropWhile line_byte (l @ 10 # s) = 10 # s" by simp_all
  then show ?thesis by (simp add: splitlines.simps [of "l @ 10 # s"] after_newline_def)
qed

lemma splitlines_written: "\<forall>l \<in> set ls. list_all line_byte l \<Longrightarrow> splitlines (concat (map (\<lambda>l. l @ [10]) ls)) = ls"
proof (induction ls)
  case Nil
  then show ?case by (simp add: splitlines.simps)
next
  case (Cons l ls)
  then show ?case by (simp add: splitlines_line)
qed

lemma strip_nonempty: "c \<in> set s \<Longrightarrow> \<not> is_space c \<Longrightarrow> strip s \<noteq> []"
proof
  assume c: "c \<in> set s" "\<not> is_space c" and "strip s = []"
  then have all: "\<forall>x \<in> set (dropWhile is_space s). is_space x" by (simp add: strip_def dropWhile_eq_Nil_conv)
  have "s = takeWhile is_space s @ dropWhile is_space s" by simp
  then have "c \<in> set (takeWhile is_space s) \<or> c \<in> set (dropWhile is_space s)" using c(1) by (metis Un_iff set_append)
  then show False using c(2) all set_takeWhileD by metis
qed

text \<open>A document that the parser reads back, with what the builder makes of it.\<close>

definition written_as :: "runtime \<Rightarrow> nat \<Rightarrow> (json \<Rightarrow> 'a result) \<Rightarrow> json \<Rightarrow> 'a \<Rightarrow> bool" where
  "written_as rt d build v x \<longleftrightarrow>
     json_finite v \<and> (\<exists>kvs. v = JObj kvs) \<and> decode (canonical_bytes rt v) = Inr (dumps rt v)
     \<and> io_loads d (dumps rt v) = Inr (canon v) \<and> build (canon v) = Inr x"

lemma load_lines_written:
  "list_all2 (written_as rt d build) vs xs \<Longrightarrow> \<forall>v \<in> set vs. int (length (canonical_bytes rt v)) \<le> m
    \<Longrightarrow> load_lines d build m (map (canonical_bytes rt) vs) = Inr xs"
proof (induction vs xs rule: list_all2_induct)
  case (Cons v vs x xs)
  have "123 \<in> set (dumps rt v)" using Cons(1) by (auto simp: written_as_def dumps_def)
  then have "strip (dumps rt v) \<noteq> []" by (rule strip_nonempty) (simp add: is_space_def)
  then show ?case using Cons by (simp add: decode_text_def load_record_def written_as_def)
qed simp

lemma load_records_written:
  assumes rt: "repr_contract rt" and w: "list_all2 (written_as rt d build) vs xs"
    and small: "\<forall>v \<in> set vs. int (length (canonical_bytes rt v)) \<le> lm" "int (length (jsonl rt vs)) \<le> m"
  shows "load_records d build (Some (jsonl rt vs)) m lm = Inr xs"
proof -
  have "list_all line_byte (canonical_bytes rt v)" if "v \<in> set vs" for v
  proof -
    have "json_finite v" using w that by (auto simp: list_all2_conv_all_nth written_as_def in_set_conv_nth)
    from canonical_bytes_printable [OF rt this] show ?thesis by (auto simp: list_all_iff line_byte_def)
  qed
  then have "splitlines (jsonl rt vs) = map (canonical_bytes rt) vs"
    using splitlines_written [of "map (canonical_bytes rt) vs"] by (simp add: jsonl_def comp_def)
  moreover have "read_bounded (Some (jsonl rt vs)) m = Inr (jsonl rt vs)"
    using small(2) by (simp add: read_bounded_def Let_def)
  ultimately show ?thesis using load_lines_written [OF w small(1)] by (simp add: load_records_def)
qed

text \<open>The readers look members up by their key, so the order of the members does not matter.\<close>

lemma dget_sorted:
  "distinct (map fst kvs) \<Longrightarrow> dget (sort_key f kvs) k = dget kvs k" "distinct (map fst kvs) \<Longrightarrow> dget_or (sort_key f kvs) k v = dget_or kvs k v"
  by (simp_all add: dget_def dget_or_def map_of_sort_key)

lemma EvidenceEvent_from_dict_sorted:
  assumes "distinct (map fst kvs)"
  shows "EvidenceEvent_from_dict rt (JObj (sort_key f kvs)) path = EvidenceEvent_from_dict rt (JObj kvs) path"
  using assms by (simp add: EvidenceEvent_from_dict_def mapping_value_def only_fields_def required_string_def dget_sorted)

lemma Adjudication_from_dict_sorted:
  assumes "distinct (map fst kvs)"
  shows "Adjudication_from_dict rt (JObj (sort_key f kvs)) path = Adjudication_from_dict rt (JObj kvs) path"
  using assms by (simp add: Adjudication_from_dict_def mapping_value_def only_fields_def required_string_def dget_sorted)

text \<open>A report as it is read back: the members of its attributes are in order.\<close>

definition sorted_event :: "evidence_event \<Rightarrow> evidence_event" where
  "sorted_event e = e\<lparr>ev_attributes := canon (ev_attributes e)\<rparr>"

lemma sorted_event_same: "same_event (sorted_event e) e"
  by (simp add: sorted_event_def same_event_def canon_idem)

lemma sorted_event_ok: "event_ok e \<Longrightarrow> event_ok (sorted_event e)"
  by (auto simp: sorted_event_def event_ok_def)

lemma EvidenceEvent_from_sorted:
  assumes e: "event_ok e" and iso: "iso_contract rt"
  shows "EvidenceEvent_from_dict rt (canon (EvidenceEvent_to_dict e)) path = Inr (sorted_event e)"
proof -
  obtain kws where kws: "EvidenceEvent_to_dict e = JObj kws" by (simp add: EvidenceEvent_to_dict_def)
  obtain kvs where kvs: "EvidenceEvent_to_dict (sorted_event e) = JObj kvs" by (simp add: EvidenceEvent_to_dict_def)
  have d: "distinct (map fst kvs)" using kvs by (auto simp: EvidenceEvent_to_dict_def split: option.splits if_splits)
  obtain xs where "ev_attributes e = JObj xs" using e by (auto simp: event_ok_def)
  then have "canon (ev_attributes e) = JObj [] \<longleftrightarrow> ev_attributes e = JObj []"
    using arg_cong [of "sort_key fst (map (\<lambda>kv. (fst kv, canon (snd kv))) xs)" "[]" length] by auto
  then have "map (\<lambda>kv. (fst kv, canon (snd kv))) kws = kvs"
    using kws kvs by (auto simp: EvidenceEvent_to_dict_def sorted_event_def JText_def split: option.splits)
  then have "canon (EvidenceEvent_to_dict e) = JObj (sort_key fst kvs)" by (simp add: kws)
  then show ?thesis
    using EvidenceEvent_from_dict_sorted [OF d, where f = fst] EvidenceEvent_roundtrip [OF sorted_event_ok [OF e] iso, of path] kvs by simp
qed

lemma Adjudication_from_sorted:
  assumes a: "adjudication_ok a" and iso: "iso_contract rt"
  shows "Adjudication_from_dict rt (canon (Adjudication_to_dict a)) path = Inr a"
proof -
  obtain kvs where kvs: "Adjudication_to_dict a = JObj kvs" by (simp add: Adjudication_to_dict_def)
  have d: "distinct (map fst kvs)" and "map (\<lambda>kv. (fst kv, canon (snd kv))) kvs = kvs"
    using kvs by (auto simp: Adjudication_to_dict_def JText_def)
  then have "canon (Adjudication_to_dict a) = JObj (sort_key fst kvs)" by (simp add: kvs)
  then show ?thesis
    using Adjudication_from_dict_sorted [OF d, where f = fst] Adjudication_roundtrip [OF a iso, of path] kvs by simp
qed

lemma text_scalars: "text_ok s \<Longrightarrow> list_all scalar s"
  by (simp add: text_ok_def xml_scalars)

lemma timestamp_scalars: "valid_instant t \<Longrightarrow> list_all scalar (format_timestamp t)"
  using format_timestamp_text_ok by (rule text_scalars)

lemma written_document:
  assumes rt: "repr_contract rt" "repr_reads rt"
    and v: "readable io_hooks rt v" "nested d v" "texts scalar v" "\<exists>kvs. v = JObj kvs" and b: "build (canon v) = Inr x"
  shows "written_as rt d build v x"
  using decode_canonical [OF rt(1) readable_finite [OF v(1)] v(3)] loads_dumps [OF rt v(1,2)] v(4) b readable_finite [OF v(1)]
  by (simp add: written_as_def io_loads_def)

lemma written_event:
  assumes rt: "repr_contract rt" "repr_reads rt" "iso_contract rt"
    and e: "event_ok e" "representable (ev_attributes e)" and d: "66 \<le> d"
  shows "written_as rt d (\<lambda>raw. EvidenceEvent_from_dict rt raw path) (EvidenceEvent_to_dict e) (sorted_event e)"
proof (rule written_document [OF rt(1,2)])
  have f: "freezes (64 - int 64) (ev_attributes e)" using e(1) by (simp add: event_ok_def frozen_spec)
  have q: "in_range_float (Fin (ev_confidence e))" using e(1) by (auto simp: event_ok_def max_double_def)
  have "readable io_hooks rt (JFloat (Fin (ev_confidence e)))"
    using q rt(2) by (simp add: io_hooks_def parse_finite_float_def repr_reads_def)
  then show "readable io_hooks rt (EvidenceEvent_to_dict e)"
    using freezes_readable [OF rt(2) f e(2)] by (auto simp: EvidenceEvent_to_dict_def JText_def split: option.splits)
  have "nested 65 (ev_attributes e)" using freezes_nested [OF f] by (simp add: eval_nat_numeral)
  then have "nested 66 (EvidenceEvent_to_dict e)"
    by (auto simp: EvidenceEvent_to_dict_def JText_def split: option.splits)
  then show "nested d (EvidenceEvent_to_dict e)" using d by (rule nested_mono)
  have keys: "list_all scalar (U ''event_id'')" "list_all scalar (U ''claim'')" "list_all scalar (U ''modality'')"
    "list_all scalar (U ''source'')" "list_all scalar (U ''signal'')" "list_all scalar (U ''confidence'')"
    "list_all scalar (U ''observed_at'')" "list_all scalar (U ''ingested_at'')" "list_all scalar (U ''correlation_group'')"
    "list_all scalar (U ''attributes'')"
    by (simp_all add: U_def scalar_def)
  have enums: "list_all scalar (U (modality_value m))" "list_all scalar (U (signal_value s))" for m s
    by (cases m; simp add: U_def scalar_def) (cases s; simp add: U_def scalar_def)
  show "texts scalar (EvidenceEvent_to_dict e)"
    using e(1) freezes_texts [OF f] keys enums timestamp_scalars
    by (auto simp: EvidenceEvent_to_dict_def JText_def event_ok_def text_scalars split: option.splits)
  show "\<exists>kvs. EvidenceEvent_to_dict e = JObj kvs" by (simp add: EvidenceEvent_to_dict_def)
  show "EvidenceEvent_from_dict rt (canon (EvidenceEvent_to_dict e)) path = Inr (sorted_event e)"
    by (rule EvidenceEvent_from_sorted [OF e(1) rt(3)])
qed

lemma written_adjudication:
  assumes rt: "repr_contract rt" "repr_reads rt" "iso_contract rt" and a: "adjudication_ok a" and d: "1 \<le> d"
  shows "written_as rt d (\<lambda>raw. Adjudication_from_dict rt raw path) (Adjudication_to_dict a) a"
proof (rule written_document [OF rt(1,2)])
  show "readable io_hooks rt (Adjudication_to_dict a)" "nested d (Adjudication_to_dict a)"
    using d by (simp_all add: Adjudication_to_dict_def JText_def Suc_le_eq split: nat.split)
  have "list_all scalar (U ''event_id'')" "list_all scalar (U ''source'')" "list_all scalar (U ''verdict'')"
    "list_all scalar (U ''adjudicated_at'')" "list_all scalar (U (verdict_value v))" for v
    by (cases v; simp add: U_def scalar_def)+
  then show "texts scalar (Adjudication_to_dict a)"
    using a timestamp_scalars by (auto simp: Adjudication_to_dict_def JText_def adjudication_ok_def text_scalars)
  show "\<exists>kvs. Adjudication_to_dict a = JObj kvs" by (simp add: Adjudication_to_dict_def)
  show "Adjudication_from_dict rt (canon (Adjudication_to_dict a)) path = Inr a"
    by (rule Adjudication_from_sorted [OF a rt(3)])
qed

text \<open>The streams that the readers accept, written line by line.\<close>

lemma load_events_written:
  assumes rt: "repr_contract rt" "repr_reads rt" "iso_contract rt" and d: "66 \<le> d"
    and es: "\<forall>e \<in> set es. event_ok e \<and> representable (ev_attributes e)
      \<and> int (length (canonical_bytes rt (EvidenceEvent_to_dict e))) \<le> lm"
    and size: "int (length (jsonl rt (map EvidenceEvent_to_dict es))) \<le> m"
    and lim: "1 \<le> m" "m \<le> max_event_file_bytes" "1 \<le> lm" "lm \<le> max_line_bytes"
  shows "load_events rt d (Some (jsonl rt (map EvidenceEvent_to_dict es))) (JInt m) (JInt lm) = Inr (map sorted_event es)"
proof -
  have "list_all2 (written_as rt d (\<lambda>raw. EvidenceEvent_from_dict rt raw ''events'')) (map EvidenceEvent_to_dict es) (map sorted_event es)"
    using written_event [OF rt _ _ d] es by (auto simp: list_all2_map1 list_all2_map2 list.rel_refl_strong intro!: list.rel_refl_strong)
  from load_records_written [OF rt(1) this, of lm m] show ?thesis using es size lim
    by (simp add: load_events_def limit_value_def)
qed

lemma load_adjudications_written:
  assumes rt: "repr_contract rt" "repr_reads rt" "iso_contract rt" and d: "1 \<le> d"
    and as: "\<forall>a \<in> set as. adjudication_ok a \<and> int (length (canonical_bytes rt (Adjudication_to_dict a))) \<le> lm"
    and size: "int (length (jsonl rt (map Adjudication_to_dict as))) \<le> m"
    and lim: "1 \<le> m" "m \<le> max_event_file_bytes" "1 \<le> lm" "lm \<le> max_line_bytes"
  shows "load_adjudications rt d (Some (jsonl rt (map Adjudication_to_dict as))) (JInt m) (JInt lm) = Inr as"
proof -
  have "list_all2 (written_as rt d (\<lambda>raw. Adjudication_from_dict rt raw ''adjudications'')) (map Adjudication_to_dict as) as"
    using written_adjudication [OF rt _ d] as by (auto simp: list_all2_map1 intro!: list.rel_refl_strong)
  from load_records_written [OF rt(1) this, of lm m] show ?thesis using as size lim
    by (simp add: load_adjudications_def limit_value_def)
qed

subsection \<open>Nothing is skipped\<close>

text \<open>A line that holds more than white space.\<close>

definition meaningful :: "bytes \<Rightarrow> bool" where
  "meaningful l \<longleftrightarrow> (case decode l of Inl _ \<Rightarrow> True | Inr s \<Rightarrow> strip s \<noteq> [])"

definition line_value :: "nat \<Rightarrow> (json \<Rightarrow> 'a result) \<Rightarrow> bytes \<Rightarrow> 'a result" where
  "line_value d build l = rbind (decode l) (\<lambda>s. rbind (io_loads d s) build)"

lemma load_lines_Inr:
  "load_lines d build m ls = Inr xs
    \<Longrightarrow> list_all2 (\<lambda>l x. line_value d build l = Inr x) (filter meaningful ls) xs \<and> (\<forall>l \<in> set ls. int (length l) \<le> m)"
proof (induction ls arbitrary: xs)
  case (Cons l ls)
  from Cons.prems obtain s where s: "int (length l) \<le> m" "decode l = Inr s"
    by (auto simp: decode_text_def split: if_splits sum.splits elim!: rbindE)
  show ?case
  proof (cases "strip s = []")
    case True
    then show ?thesis using Cons s by (simp add: decode_text_def meaningful_def)
  next
    case False
    then obtain v x ys where "io_loads d s = Inr v" "build v = Inr x" "load_lines d build m ls = Inr ys" "xs = x # ys"
      using Cons.prems s by (auto simp: decode_text_def load_record_def split: sum.splits elim!: rbindE)
    then show ?thesis using Cons.IH s False by (simp add: meaningful_def line_value_def)
  qed
qed simp

lemma load_records_Inr:
  assumes "load_records d build content m lm = Inr xs"
  shows "\<exists>raw. content = Some raw \<and> int (length raw) \<le> m
    \<and> list_all2 (\<lambda>l x. line_value d build l = Inr x) (filter meaningful (splitlines raw)) xs
    \<and> (\<forall>l \<in> set (splitlines raw). int (length l) \<le> lm)"
proof -
  obtain stored where c: "content = Some stored" using assms by (cases content) (auto simp: load_records_def read_bounded_def)
  have "int (length stored) \<le> m \<and> take (nat (m + 1)) stored = stored"
    using assms by (auto simp: load_records_def read_bounded_def c Let_def min_def split: if_splits)
  then show ?thesis using assms load_lines_Inr
    by (fastforce simp: load_records_def read_bounded_def c Let_def split: if_splits)
qed

end
