(* ===== verification/Sample_Pages.thy ===== *)
theory Sample_Pages
  imports Sample_Tree Paging Readers
begin

text \<open>The spelling of floats in the sample runtimes reads back, and the pages of the sample ledger.\<close>

lemma read_decimal_digits:
  assumes "list_all is_digit w" "list_all is_digit d"
  shows "read_decimal (w @ 101 # 45 # d) = of_int (digits_val w) / 10 powi digits_val d"
proof -
  have "takeWhile (\<lambda>c. c \<noteq> 101 \<and> c \<noteq> 69) (w @ 101 # 45 # d) = w @ takeWhile (\<lambda>c. c \<noteq> 101 \<and> c \<noteq> 69) (101 # 45 # d)"
    by (rule takeWhile_append2) (use assms(1) in \<open>auto simp: list_all_iff is_digit_def\<close>)
  then have p: "takeWhile (\<lambda>c. c \<noteq> 101 \<and> c \<noteq> 69) (w @ 101 # 45 # d) = w" "takeWhile is_digit w = w"
    using assms(1) by (auto simp: list_all_iff)
  show ?thesis by (simp add: read_decimal_def Let_def p power_int_minus divide_inverse)
qed

lemma digits_are_digits: "list_all is_digit (digits_of n)"
  using digits_of_chars [of n] by (auto simp: is_digit_def list_all_iff)

lemma read_float_spelled:
  assumes "is_double x" "\<bar>x\<bar> \<le> max_double" "x = of_int m / 10 ^ k"
  shows "read_float (int_str m @ [101, 45] @ digits_of (int k)) = Fin x"
proof -
  let ?d = "\<lambda>i. read_decimal (digits_of i @ 101 # 45 # digits_of (int k))"
  have dec: "?d i = of_int i / 10 ^ k" if "0 \<le> i" for i
    using read_decimal_digits [OF digits_are_digits digits_are_digits, of i "int k"] that by (simp add: digits_val_digits_of)
  have hd: "digits_of i = c # s \<Longrightarrow> c \<noteq> 45" for i c s by (auto dest: digits_of_hd)
  have fl: "fl x = x" "fl (- x) = - x" using assms(1) by (simp_all add: is_double_def fl_minus)
  show ?thesis
  proof (cases "m < 0")
    case True
    then have "x < 0" using assms(3) by (simp add: divide_less_0_iff)
    moreover have "?d (- m) = - x" using dec [of "- m"] True assms(3) by simp
    ultimately show ?thesis using assms(2) fl True by (simp add: read_float_def int_str_def Let_def)
  next
    case False
    then have "0 \<le> x" "?d m = x" using assms(3) dec [of m] by simp_all
    moreover have "take 1 (digits_of m @ s) \<noteq> [45]" for s by (cases "digits_of m") (auto dest: hd)
    ultimately show ?thesis using assms(2) fl False by (simp add: read_float_def int_str_def Let_def)
  qed
qed


lemma scan_number_spelled:
  assumes "delim r"
  shows "scan_number (int_str m @ [101, 45] @ digits_of (int k) @ r) = Some (int_str m @ [101, 45] @ digits_of (int k), True, r)"
proof -
  have ex: "scan_exponent (101 # 45 # digits_of (int k) @ r) = (101 # 45 # digits_of (int k), r)"
    using assms by (simp add: scan_exponent_def digits_of_all delim_digit)
  have fr: "scan_fraction (101 # s) = ([], 101 # s)" for s by (simp add: scan_fraction_def)
  have nat: "scan_number (digits_of n @ 101 # 45 # digits_of (int k) @ r)
      = Some (digits_of n @ 101 # 45 # digits_of (int k), True, r)" if "0 \<le> n" for n
  proof -
    obtain c s where c: "digits_of n = c # s" by (cases "digits_of n") auto
    have ds: "is_digit c" "\<forall>x \<in> set s. is_digit x" "48 \<le> c" using digits_are_digits [of n] c by (auto simp: is_digit_def list_all_iff)
    have no: "\<not> is_digit 101" by (simp add: is_digit_def)
    have "c = 48 \<Longrightarrow> s = []"
      using digits_of_lead [of n c s] c that by (cases "n = 0") (auto simp: digits_of.simps [of 0])
    then show ?thesis using c ds no by (auto simp: scan_number_def Let_def fr ex)
  qed
  show ?thesis
  proof (cases "m < 0")
    case True
    then show ?thesis
      using nat [of "- m"] digits_of_hd [of "- m"]
      by (cases "digits_of (- m)") (auto simp: int_str_def scan_number_def Let_def split: if_splits prod.splits)
  qed (use nat [of m] in \<open>simp add: int_str_def\<close>)
qed

lemma sample_reads: "repr_reads sample_runtime" "repr_reads tree_runtime"
proof -
  have "(\<forall>r. delim r \<longrightarrow> scan_number (spell_float x @ r) = Some (spell_float x, True, r)) \<and> read_float (spell_float x) = Fin x"
    if x: "is_double x" "\<bar>x\<bar> \<le> max_double" for x
  proof -
    obtain m k where s: "spell_float x = int_str m @ [101, 45] @ digits_of (int k)" "x = of_int m / 10 ^ k"
      by (rule spell_double [OF x(1)])
    have "read_float (spell_float x) = Fin x" unfolding s(1) by (rule read_float_spelled [OF x s(2)])
    moreover have "scan_number (spell_float x @ r) = Some (spell_float x, True, r)" if "delim r" for r
      using scan_number_spelled [OF that, of m k] unfolding s(1) by simp
    ultimately show ?thesis by blast
  qed
  then show "repr_reads sample_runtime" "repr_reads tree_runtime" by (simp_all add: repr_reads_def tree_runtime_def sample_runtime_def)
qed


lemma tree_receipts_small: "x \<in> set (matching_receipts tree_runtime tree_ledger q) \<Longrightarrow> entry_size tree_runtime x \<le> 10000"
proof -
  assume "x \<in> set (matching_receipts tree_runtime tree_ledger q)"
  then have "x \<in> set (lg_entries tree_ledger)" by (simp add: matching_receipts_def)
  then show ?thesis using tree_entry(2) [of 0] tree_entry(2) [of 1] unfolding tree_entries(1) by auto
qed

text \<open>The sample stream as a file.\<close>

lemma sample_lines:
  "\<forall>e \<in> set sample_events. event_ok e \<and> representable (ev_attributes e)
     \<and> int (length (canonical_bytes tree_runtime (EvidenceEvent_to_dict e))) \<le> 5000"
  "int (length (jsonl tree_runtime (map EvidenceEvent_to_dict sample_events))) \<le> 100000"
proof -
  have small: "length (canonical_bytes tree_runtime (EvidenceEvent_to_dict e)) \<le> 5000" if "e \<in> set sample_events" for e
    using tree_event_weight [OF that] canonical_bytes_weight [of tree_runtime "EvidenceEvent_to_dict e"] by simp
  have "event_ok e" if "e \<in> set sample_events" for e
    using sample_stream_ok(2) that by (simp add: stream_ok_def)
  then show "\<forall>e \<in> set sample_events. event_ok e \<and> representable (ev_attributes e)
     \<and> int (length (canonical_bytes tree_runtime (EvidenceEvent_to_dict e))) \<le> 5000"
    using small by (auto simp: sample_events_def sample_event_def)
  have "length (jsonl tree_runtime (map EvidenceEvent_to_dict sample_events))
      = sum_list (map (\<lambda>e. length (canonical_bytes tree_runtime (EvidenceEvent_to_dict e)) + 1) sample_events)"
    by (simp add: jsonl_def length_concat comp_def)
  also have "\<dots> \<le> sum_list (map (\<lambda>e. 5001) sample_events)"
    by (rule sum_list_mono) (use small in force)
  also have "\<dots> \<le> 100000" by (simp add: sample_events_def)
  finally show "int (length (jsonl tree_runtime (map EvidenceEvent_to_dict sample_events))) \<le> 100000" by simp
qed

end
