(* ===== verification/Robustness.thy ===== *)
theory Robustness
  imports Evaluation
begin

text \<open>
  Leave-one-out robustness (robustness.py): the report's records with their checks and JSON views, and the analysis that
  removes one visible report at a time. The main result says what the report holds: for every claim exactly the visible
  reports whose removal changes the outcome.
\<close>

subsection \<open>Impacts\<close>

record impact =
  ri_event :: ustr
  ri_claim :: ustr
  ri_outcome :: outcome
  ri_without_outcome :: outcome
  ri_reason :: ustr
  ri_without_reason :: ustr
  ri_margin :: rat
  ri_without_margin :: rat

definition RobustnessImpact_init :: "impact \<Rightarrow> impact result" where
  "RobustnessImpact_init i =
     rbind (text_value (JStr (ri_event i)) ''impact.event_id'' True) (\<lambda>e.
     rbind (text_value (JStr (ri_claim i)) ''impact.claim'' True) (\<lambda>c.
     rbind (require (ri_outcome i \<noteq> ri_without_outcome i) ''a robustness impact must change the outcome'') (\<lambda>_.
     rbind (text_value (JStr (ri_reason i)) ''impact.baseline_reason'' True) (\<lambda>r.
     rbind (text_value (JStr (ri_without_reason i)) ''impact.without_event_reason'' True) (\<lambda>w.
     rbind (number_value (JFloat (Fin (ri_margin i))) ''impact.baseline_margin'' (- 1) (Some 1)) (\<lambda>m.
     rbind (number_value (JFloat (Fin (ri_without_margin i))) ''impact.without_event_margin'' (- 1) (Some 1)) (\<lambda>n.
     Inr (i\<lparr>ri_event := e, ri_claim := c, ri_reason := r, ri_without_reason := w, ri_margin := m,
            ri_without_margin := n\<rparr>))))))))"

definition margin_delta :: "impact \<Rightarrow> rat" where
  "margin_delta i = stable_float (fl (ri_without_margin i - ri_margin i))"

definition RobustnessImpact_to_dict :: "impact \<Rightarrow> json" where
  "RobustnessImpact_to_dict i = JObj
     [(U ''event_id'', JStr (ri_event i)), (U ''claim'', JStr (ri_claim i)),
      (U ''baseline_outcome'', JText (outcome_value (ri_outcome i))),
      (U ''without_event_outcome'', JText (outcome_value (ri_without_outcome i))),
      (U ''baseline_reason'', JStr (ri_reason i)), (U ''without_event_reason'', JStr (ri_without_reason i)),
      (U ''baseline_margin'', JFloat (Fin (stable_float (ri_margin i)))),
      (U ''without_event_margin'', JFloat (Fin (stable_float (ri_without_margin i)))),
      (U ''margin_delta'', JFloat (Fin (margin_delta i)))]"

subsection \<open>Claims\<close>

definition max_perturbations :: int where
  "max_perturbations = 10000"

record claim_robustness =
  rc_claim :: ustr
  rc_outcome :: outcome
  rc_margin :: rat
  rc_tested :: int
  rc_changed :: int
  rc_impacts :: "impact list"

definition ClaimRobustness_init :: "claim_robustness \<Rightarrow> claim_robustness result" where
  "ClaimRobustness_init r =
     rbind (text_value (JStr (rc_claim r)) ''claim_robustness.claim'' True) (\<lambda>c.
     rbind (number_value (JFloat (Fin (rc_margin r))) ''claim_robustness.baseline_margin'' (- 1) (Some 1)) (\<lambda>m.
     rbind (nonnegative_int (JInt (rc_tested r)) ''claim_robustness.tested_event_count'') (\<lambda>tested.
     rbind (nonnegative_int (JInt (rc_changed r)) ''claim_robustness.changed_event_count'') (\<lambda>changed.
     rbind (require (changed \<le> tested) ''claim_robustness.changed_event_count cannot exceed tested events'') (\<lambda>_.
     rbind (require (int (length (rc_impacts r)) \<le> max_perturbations) ''claim_robustness.impacts exceeds the compiled limit'') (\<lambda>_.
     rbind (require (list_all (\<lambda>i. ri_claim i = c) (rc_impacts r)) ''claim_robustness.impacts contains another claim'') (\<lambda>_.
     rbind (require (distinct (map ri_event (rc_impacts r))) ''claim_robustness.impacts contains duplicate event IDs'') (\<lambda>_.
     rbind (require (int (length (rc_impacts r)) = changed) ''claim_robustness.changed_event_count does not match impacts'') (\<lambda>_.
     Inr (r\<lparr>rc_claim := c, rc_margin := m, rc_tested := tested, rc_changed := changed,
            rc_impacts := sort_key ri_event (rc_impacts r)\<rparr>))))))))))"

definition stability :: "claim_robustness \<Rightarrow> rat" where
  "stability r =
     (if rc_tested r = 0 then 1
      else stable_float (fl (of_int (rc_tested r - rc_changed r) / of_int (rc_tested r))))"

definition ClaimRobustness_to_dict :: "claim_robustness \<Rightarrow> json" where
  "ClaimRobustness_to_dict r = JObj
     [(U ''claim'', JStr (rc_claim r)), (U ''baseline_outcome'', JText (outcome_value (rc_outcome r))),
      (U ''baseline_margin'', JFloat (Fin (stable_float (rc_margin r)))),
      (U ''tested_event_count'', JInt (rc_tested r)), (U ''changed_event_count'', JInt (rc_changed r)),
      (U ''stability'', JFloat (Fin (stability r))), (U ''impacts'', JArr (map RobustnessImpact_to_dict (rc_impacts r)))]"

subsection \<open>Reports\<close>

definition result_digest :: "ustr \<Rightarrow> bool" where
  "result_digest s \<longleftrightarrow> take 7 s = U ''sha256:'' \<and> is_hash (drop 7 s)"

record robustness_report =
  rr_policy_id :: ustr
  rr_evaluated_at :: int
  rr_input_count :: int
  rr_considered_count :: int
  rr_digest :: ustr
  rr_claims :: "claim_robustness list"

definition RobustnessReport_init ::
  "json \<Rightarrow> ustr \<Rightarrow> pydatetime \<Rightarrow> int \<Rightarrow> int \<Rightarrow> ustr \<Rightarrow> claim_robustness list \<Rightarrow> robustness_report result" where
  "RobustnessReport_init version pid evaluated_at input considered digest cs =
     rbind (require (version = JInt 1) ''robustness.schema_version must be 1'') (\<lambda>_.
     rbind (text_value (JStr pid) ''robustness.policy_id'' True) (\<lambda>i.
     rbind (normalize_datetime evaluated_at ''robustness.evaluated_at'') (\<lambda>t.
     rbind (nonnegative_int (JInt input) ''robustness.input_event_count'') (\<lambda>n.
     rbind (nonnegative_int (JInt considered) ''robustness.considered_event_count'') (\<lambda>k.
     rbind (require (k \<le> n) ''robustness.considered_event_count cannot exceed input events'') (\<lambda>_.
     rbind (require (result_digest digest) ''robustness.baseline_digest must be a lowercase SHA-256 digest'') (\<lambda>_.
     rbind (require (int (length cs) \<le> max_perturbations) ''robustness.claims exceeds the compiled limit'') (\<lambda>_.
     rbind (require (list_all (\<lambda>c. rc_tested c = k) cs) ''every claim must test the report's considered event count'') (\<lambda>_.
     rbind (require (distinct (map rc_claim cs)) ''robustness.claims contains duplicate claims'') (\<lambda>_.
     Inr \<lparr>rr_policy_id = i, rr_evaluated_at = t, rr_input_count = n, rr_considered_count = k, rr_digest = digest,
          rr_claims = sort_key rc_claim cs\<rparr>))))))))))"

definition fragile_claims :: "robustness_report \<Rightarrow> ustr list" where
  "fragile_claims r = map rc_claim (filter (\<lambda>c. rc_changed c \<noteq> 0) (rr_claims r))"

definition RobustnessReport_to_dict :: "robustness_report \<Rightarrow> json" where
  "RobustnessReport_to_dict r = JObj
     [(U ''schema_version'', JInt 1), (U ''policy_id'', JStr (rr_policy_id r)),
      (U ''evaluated_at'', JStr (format_timestamp (rr_evaluated_at r))),
      (U ''input_event_count'', JInt (rr_input_count r)), (U ''considered_event_count'', JInt (rr_considered_count r)),
      (U ''baseline_digest'', JStr (rr_digest r)), (U ''fragile_claims'', JArr (map JStr (fragile_claims r))),
      (U ''claims'', JArr (map ClaimRobustness_to_dict (rr_claims r)))]"

subsection \<open>The analysis\<close>

text \<open>The stream without one report and without its adjudications.\<close>

definition without_event :: "ustr \<Rightarrow> evidence_event list \<Rightarrow> evidence_event list" where
  "without_event i es = filter (\<lambda>e. ev_id e \<noteq> i) es"

definition without_adjudications :: "ustr \<Rightarrow> adjudication list \<Rightarrow> adjudication list" where
  "without_adjudications i as = filter (\<lambda>a. adj_event_id a \<noteq> i) as"

text \<open>The decisions by claim: the later of two entries with one key wins.\<close>

definition by_claim :: "evaluation_result \<Rightarrow> (ustr \<times> claim_decision) list" where
  "by_claim r = rev (map (\<lambda>d. (cd_claim d, d)) (er_decisions r))"

text \<open>The body of the inner loop for one claim, whose decision is paired with the impacts so far.\<close>

definition claim_impact ::
  "ustr \<Rightarrow> evaluation_result \<Rightarrow> claim_decision \<times> impact list \<Rightarrow> (claim_decision \<times> impact list) result" where
  "claim_impact event without acc =
     (case map_of (by_claim without) (cd_claim (fst acc)) of
        None \<Rightarrow> Inl (RuntimeError ''KeyError'')
      | Some replacement \<Rightarrow>
          if cd_outcome replacement = cd_outcome (fst acc) then Inr acc
          else
            rbind (RobustnessImpact_init
              \<lparr>ri_event = event, ri_claim = cd_claim (fst acc), ri_outcome = cd_outcome (fst acc),
               ri_without_outcome = cd_outcome replacement, ri_reason = cd_reason (fst acc),
               ri_without_reason = cd_reason replacement, ri_margin = cd_margin (fst acc),
               ri_without_margin = cd_margin replacement\<rparr>) (\<lambda>i.
            Inr (fst acc, snd acc @ [i])))"

definition removal_step ::
  "runtime \<Rightarrow> policy \<Rightarrow> evidence_event list \<Rightarrow> adjudication list \<Rightarrow> int \<Rightarrow> (claim_decision \<times> impact list) list \<Rightarrow> evidence_event
     \<Rightarrow> (claim_decision \<times> impact list) list result" where
  "removal_step rt p es as t acc e =
     rbind (evaluate rt p (without_event (ev_id e) es) (utc t) (without_adjudications (ev_id e) as)) (\<lambda>without.
     rmap (claim_impact (ev_id e) without) acc)"

definition robustness ::
  "runtime \<Rightarrow> policy \<Rightarrow> evidence_event list \<Rightarrow> pydatetime \<Rightarrow> adjudication list \<Rightarrow> json \<Rightarrow> robustness_report result" where
  "robustness rt p events as_of adjudications max_events =
     rbind (case max_events of
              JInt n \<Rightarrow> if 1 \<le> n \<and> n \<le> max_perturbations then Inr n
                else Inl (ValidationError ''max_events must be an integer in [1, 10000]'')
            | _ \<Rightarrow> Inl (ValidationError ''max_events must be an integer in [1, 10000]'')) (\<lambda>limit.
     rbind (normalize_datetime as_of ''as_of'') (\<lambda>t.
     rbind (validate_event_set p events) (\<lambda>event_list.
     rbind (validate_adjudication_set p event_list adjudications) (\<lambda>adj_list.
     rbind (evaluate rt p event_list (utc t) adj_list) (\<lambda>baseline.
     let visible = sort_key ev_id (filter (\<lambda>e. ev_ingested_at e \<le> t) event_list) in
     rbind (require (int (length visible) \<le> limit) ''robustness would require more leave-one-out evaluations than max_events'') (\<lambda>_.
     rbind (rfold (removal_step rt p event_list adj_list t) (map (\<lambda>d. (d, [])) (er_decisions baseline)) visible) (\<lambda>impacts.
     rbind (rmap (\<lambda>(d, is). ClaimRobustness_init
              \<lparr>rc_claim = cd_claim d, rc_outcome = cd_outcome d, rc_margin = cd_margin d, rc_tested = int (length visible),
               rc_changed = int (length is), rc_impacts = is\<rparr>) (sort_key (\<lambda>x. cd_claim (fst x)) impacts)) (\<lambda>cs.
     RobustnessReport_init (JInt 1) (er_policy_id baseline) (utc (er_evaluated_at baseline)) (er_input_count baseline)
       (er_considered_count baseline) (EvaluationResult_digest rt baseline) cs))))))))"

subsection \<open>The stream without one report\<close>

lemma event_index_without:
  "i \<noteq> j \<Longrightarrow> map_of (rev (map (\<lambda>e. (ev_id e, e)) (without_event i es))) j = map_of (rev (map (\<lambda>e. (ev_id e, e)) es)) j"
  by (induction es rule: rev_induct) (auto simp: without_event_def)

lemma without_stream_ok:
  assumes "stream_ok p es as"
  shows "stream_ok p (without_event i es) (without_adjudications i as)"
proof -
  have "length (without_event i es) \<le> length es" "length (without_adjudications i as) \<le> length as"
    by (simp_all add: without_event_def without_adjudications_def)
  then have len: "int (length (without_event i es)) \<le> max_attribute_integer"
    "int (length (without_adjudications i as)) \<le> max_attribute_integer"
    using assms unfolding stream_ok_def by linarith+
  have "adjudication_mismatched (without_event i es) a = adjudication_mismatched es a"
    "adjudication_premature (without_event i es) a = adjudication_premature es a" if "adj_event_id a \<noteq> i" for a
    using event_index_without [of i "adj_event_id a" es] that
    by (simp_all add: adjudication_mismatched_def adjudication_premature_def event_of_adjudication_def)
  then show ?thesis
    using assms len
    by (auto simp: stream_ok_def validate_event_set_Inr validate_adjudication_set_Inr without_event_def without_adjudications_def
        distinct_map_filter)
qed

subsection \<open>Decisions by claim\<close>

lemma map_of_by_claim:
  "distinct (map cd_claim (er_decisions r)) \<Longrightarrow> d \<in> set (er_decisions r) \<Longrightarrow> map_of (by_claim r) (cd_claim d) = Some d"
  by (auto simp: by_claim_def comp_def rev_map [symmetric] intro!: map_of_is_SomeI)

definition decision_valid :: "claim_decision \<Rightarrow> bool" where
  "decision_valid d \<longleftrightarrow> text_ok (cd_claim d) \<and> text_ok (cd_reason d) \<and> is_double (cd_margin d)
     \<and> - 1 \<le> cd_margin d \<and> cd_margin d \<le> 1"

lemma ClaimDecision_init_valid: "ClaimDecision_init c ot r s k m tr co = Inr d \<Longrightarrow> decision_valid d"
  by (auto simp: ClaimDecision_init_def decision_valid_def Let_def number_ok_def dest!: text_value_trim_ok number_value_bounds)

lemma evaluate_claim_valid: "evaluate_claim rt c rule es p t rels = Inr d \<Longrightarrow> decision_valid d"
  by (auto simp: evaluate_claim_def Let_def case_prod_beta dest: ClaimDecision_init_valid)

lemma evaluated:
  assumes ok: "stream_ok p es as" and exp: "exp2_contract rt" and t: "valid_instant t"
  obtains r where "evaluate rt p es (utc t) as = Inr r" "map cd_claim (er_decisions r) = sort (map fst (claims p))"
    "distinct (map cd_claim (er_decisions r))" "\<forall>d \<in> set (er_decisions r). decision_valid d"
    "er_policy_id r = policy_id p" "er_evaluated_at r = t" "er_input_count r = int (length es)"
    "er_considered_count r = int (length (known_events t es))"
proof -
  obtain as' decs us where e: "claim_decisions rt p (known_events t es) t (applied_of as') = Inr decs"
    "map cd_claim decs = sort (map fst (claims p))"
    "evaluate rt p es (utc t) as = Inr \<lparr>er_policy_id = policy_id p, er_evaluated_at = t,
        er_input_count = int (length es), er_considered_count = int (length (known_events t es)),
        er_pending = pending_ids t es, er_decisions = decs, er_updates = us\<rparr>"
    using evaluate_Inr [OF ok exp, of "utc t" t] t by auto
  have "distinct (map cd_claim decs)" using ok by (simp add: e(2) stream_ok_def)
  moreover have "\<forall>d \<in> set decs. decision_valid d"
    using e(1) evaluate_claim_valid unfolding claim_decisions_def by (blast dest: rmap_Inr_elem_rev)
  ultimately show thesis using that [OF e(3)] e(2) by simp
qed

text \<open>The outcome of a claim on a stream.\<close>

definition outcome_at :: "runtime \<Rightarrow> policy \<Rightarrow> evidence_event list \<Rightarrow> adjudication list \<Rightarrow> int \<Rightarrow> ustr \<Rightarrow> outcome option" where
  "outcome_at rt p es as t c =
     (case evaluate rt p es (utc t) as of
        Inl _ \<Rightarrow> None
      | Inr r \<Rightarrow> map_option cd_outcome (map_of (by_claim r) c))"

definition outcome_without ::
  "runtime \<Rightarrow> policy \<Rightarrow> evidence_event list \<Rightarrow> adjudication list \<Rightarrow> int \<Rightarrow> ustr \<Rightarrow> ustr \<Rightarrow> outcome option" where
  "outcome_without rt p es as t c i = outcome_at rt p (without_event i es) (without_adjudications i as) t c"

subsection \<open>What the loops compute\<close>

lemma claim_impact_Inr:
  assumes w: "evaluate rt p (without_event i es) (utc t) (without_adjudications i as) = Inr r"
      "distinct (map cd_claim (er_decisions r))" "\<forall>d \<in> set (er_decisions r). decision_valid d"
    and d: "decision_valid d" "cd_claim d \<in> set (map cd_claim (er_decisions r))" and i: "text_ok i"
  shows "\<exists>x. claim_impact i r (d, is) = Inr (d, is @ x)
    \<and> map ri_event x = (if outcome_without rt p es as t (cd_claim d) i = Some (cd_outcome d) then [] else [i])
    \<and> (\<forall>y \<in> set x. ri_claim y = cd_claim d)"
proof -
  obtain n where n: "n \<in> set (er_decisions r)" "cd_claim n = cd_claim d" using d(2) by auto
  have look: "map_of (by_claim r) (cd_claim d) = Some n" using map_of_by_claim [OF w(2) n(1)] n(2) by simp
  then have out: "outcome_without rt p es as t (cd_claim d) i = Some (cd_outcome n)"
    by (simp add: outcome_without_def outcome_at_def w(1))
  have num: "number_value (JFloat (Fin (cd_margin x))) path (- 1) (Some 1) = Inr (cd_margin x)" if "decision_valid x" for x path
    using that by (simp add: number_value_signed decision_valid_def)
  have "decision_valid n" using w(3) n(1) by blast
  then show ?thesis
    using d(1) i look out num [OF d(1)] num [of n]
    by (auto simp: claim_impact_def RobustnessImpact_init_def decision_valid_def)
qed

lemma removal_step_Inr:
  assumes ok: "stream_ok p es as" and exp: "exp2_contract rt" and t: "valid_instant t" and e: "text_ok (ev_id e)"
    and acc: "\<forall>x \<in> set acc. decision_valid (fst x) \<and> cd_claim (fst x) \<in> set (map fst (claims p))"
  shows "\<exists>acc'. removal_step rt p es as t acc e = Inr acc'
    \<and> list_all2 (\<lambda>x y. fst y = fst x \<and> (\<exists>new. snd y = snd x @ new \<and> (\<forall>z \<in> set new. ri_claim z = cd_claim (fst x))
        \<and> map ri_event new
          = (if outcome_without rt p es as t (cd_claim (fst x)) (ev_id e) = Some (cd_outcome (fst x)) then [] else [ev_id e]))) acc acc'"
proof -
  obtain r where r: "evaluate rt p (without_event (ev_id e) es) (utc t) (without_adjudications (ev_id e) as) = Inr r"
    "map cd_claim (er_decisions r) = sort (map fst (claims p))"
    "distinct (map cd_claim (er_decisions r))" "\<forall>d \<in> set (er_decisions r). decision_valid d"
    by (rule evaluated [OF without_stream_ok [OF ok] exp t])
  let ?P = "\<lambda>x y. fst y = fst x \<and> (\<exists>new. snd y = snd x @ new \<and> (\<forall>z \<in> set new. ri_claim z = cd_claim (fst x))
        \<and> map ri_event new
          = (if outcome_without rt p es as t (cd_claim (fst x)) (ev_id e) = Some (cd_outcome (fst x)) then [] else [ev_id e]))"
  have each: "\<exists>y. claim_impact (ev_id e) r x = Inr y \<and> ?P x y" if "x \<in> set acc" for x
  proof -
    have "cd_claim (fst x) \<in> set (map cd_claim (er_decisions r))" using acc that r(2) by simp
    from claim_impact_Inr [OF r(1,3,4) _ this e, of "snd x"] show ?thesis using acc that by force
  qed
  then obtain acc' where acc': "rmap (claim_impact (ev_id e) r) acc = Inr acc'" using rmap_total by metis
  then have "list_all2 (\<lambda>x y. claim_impact (ev_id e) r x = Inr y) acc acc'" by (simp add: rmap_Inr_iff)
  then have "list_all2 ?P acc acc'"
    by (rule list.rel_mono_strong) (use each in fastforce)
  then show ?thesis using acc' r(1) by (auto simp: removal_step_def)
qed

lemma list_all2_trans_rel:
  "(\<And>x y z. P x y \<Longrightarrow> Q y z \<Longrightarrow> R x z) \<Longrightarrow> list_all2 P xs ys \<Longrightarrow> list_all2 Q ys zs \<Longrightarrow> list_all2 R xs zs"
  by (auto simp: list_all2_conv_all_nth)

text \<open>All removals: the impacts of a claim are the removed reports that change its outcome.\<close>

lemma removals_Inr:
  assumes ok: "stream_ok p es as" and exp: "exp2_contract rt" and t: "valid_instant t"
  shows "\<forall>e \<in> set vs. text_ok (ev_id e) \<Longrightarrow> \<forall>x \<in> set acc. decision_valid (fst x) \<and> cd_claim (fst x) \<in> set (map fst (claims p))
    \<Longrightarrow> \<exists>acc'. rfold (removal_step rt p es as t) acc vs = Inr acc'
    \<and> list_all2 (\<lambda>x y. fst y = fst x \<and> (\<exists>new. snd y = snd x @ new \<and> (\<forall>z \<in> set new. ri_claim z = cd_claim (fst x))
        \<and> map ri_event new
          = filter (\<lambda>i. outcome_without rt p es as t (cd_claim (fst x)) i \<noteq> Some (cd_outcome (fst x))) (map ev_id vs))) acc acc'"
proof (induction vs arbitrary: acc)
  case (Cons e vs)
  have e: "text_ok (ev_id e)" using Cons.prems(1) by simp
  obtain mid where mid: "removal_step rt p es as t acc e = Inr mid"
    "list_all2 (\<lambda>x y. fst y = fst x \<and> (\<exists>new. snd y = snd x @ new \<and> (\<forall>z \<in> set new. ri_claim z = cd_claim (fst x))
        \<and> map ri_event new
          = (if outcome_without rt p es as t (cd_claim (fst x)) (ev_id e) = Some (cd_outcome (fst x)) then [] else [ev_id e]))) acc mid"
    using removal_step_Inr [OF ok exp t e Cons.prems(2)] by blast
  have "\<forall>y \<in> set mid. \<exists>x \<in> set acc. fst y = fst x" using mid(2) by (force simp: list_all2_conv_all_nth in_set_conv_nth)
  then have "\<forall>x \<in> set mid. decision_valid (fst x) \<and> cd_claim (fst x) \<in> set (map fst (claims p))"
    using Cons.prems(2) by force
  then obtain acc' where acc': "rfold (removal_step rt p es as t) mid vs = Inr acc'"
    "list_all2 (\<lambda>x y. fst y = fst x \<and> (\<exists>new. snd y = snd x @ new \<and> (\<forall>z \<in> set new. ri_claim z = cd_claim (fst x))
        \<and> map ri_event new
          = filter (\<lambda>i. outcome_without rt p es as t (cd_claim (fst x)) i \<noteq> Some (cd_outcome (fst x))) (map ev_id vs))) mid acc'"
    using Cons.IH Cons.prems(1) by force
  have "list_all2 (\<lambda>x y. fst y = fst x \<and> (\<exists>new. snd y = snd x @ new \<and> (\<forall>z \<in> set new. ri_claim z = cd_claim (fst x))
        \<and> map ri_event new
          = filter (\<lambda>i. outcome_without rt p es as t (cd_claim (fst x)) i \<noteq> Some (cd_outcome (fst x))) (map ev_id (e # vs)))) acc acc'"
    by (rule list_all2_trans_rel [OF _ mid(2) acc'(2)]) (force split: if_splits)
  then show ?case using mid(1) acc'(1) by simp
qed (simp add: list.rel_refl)

lemma ClaimRobustness_init_Inr:
  assumes "decision_valid d" "\<forall>z \<in> set is. ri_claim z = cd_claim d" "distinct (map ri_event is)" "sorted (map ri_event is)"
    and "length is \<le> n" "int n \<le> max_perturbations"
  shows "ClaimRobustness_init \<lparr>rc_claim = cd_claim d, rc_outcome = cd_outcome d, rc_margin = cd_margin d, rc_tested = int n,
      rc_changed = int (length is), rc_impacts = is\<rparr>
    = Inr \<lparr>rc_claim = cd_claim d, rc_outcome = cd_outcome d, rc_margin = cd_margin d, rc_tested = int n,
        rc_changed = int (length is), rc_impacts = is\<rparr>"
proof -
  have "(10000 :: int) \<le> max_attribute_integer" using small_count [of 10000] by simp
  then show ?thesis
    using assms by (auto simp: ClaimRobustness_init_def decision_valid_def number_value_signed max_perturbations_def list_all_iff
        sort_key_id_if_sorted)
qed

text \<open>What a report says about one claim.\<close>

definition robustness_of ::
  "runtime \<Rightarrow> policy \<Rightarrow> evidence_event list \<Rightarrow> adjudication list \<Rightarrow> int \<Rightarrow> claim_robustness \<Rightarrow> bool" where
  "robustness_of rt p es as t c \<longleftrightarrow>
     outcome_at rt p es as t (rc_claim c) = Some (rc_outcome c)
     \<and> rc_tested c = int (length (known_events t es)) \<and> rc_changed c = int (length (rc_impacts c))
     \<and> map ri_event (rc_impacts c)
        = filter (\<lambda>i. outcome_without rt p es as t (rc_claim c) i \<noteq> outcome_at rt p es as t (rc_claim c))
            (sort (map ev_id (known_events t es)))"

lemma sort_map_key: "map f (sort_key f xs) = sort (map f xs)"
  by (rule properties_for_sort [symmetric]) (simp_all add: sorted_sort_key)

lemma robustness_Inr:
  assumes ok: "stream_ok p es as" and exp: "exp2_contract rt" and hex: "sha256_hex rt"
    and t: "normalize_datetime as_of ''as_of'' = Inr t"
    and lim: "1 \<le> limit" "limit \<le> max_perturbations" "int (length (known_events t es)) \<le> limit"
    and cl: "int (length (claims p)) \<le> max_perturbations"
  shows "\<exists>r. robustness rt p es as_of as (JInt limit) = Inr r \<and> rr_evaluated_at r = t
    \<and> rr_input_count r = int (length es) \<and> rr_considered_count r = int (length (known_events t es))
    \<and> map rc_claim (rr_claims r) = sort (map fst (claims p))
    \<and> (\<forall>c \<in> set (rr_claims r). robustness_of rt p es as t c)"
proof -
  have tv: "valid_instant t" using t by (rule normalize_datetime_valid)
  obtain b where b: "evaluate rt p es (utc t) as = Inr b" "map cd_claim (er_decisions b) = sort (map fst (claims p))"
    "distinct (map cd_claim (er_decisions b))" "\<forall>d \<in> set (er_decisions b). decision_valid d"
    "er_policy_id b = policy_id p" "er_evaluated_at b = t" "er_input_count b = int (length es)"
    "er_considered_count b = int (length (known_events t es))"
    by (rule evaluated [OF ok exp tv])
  define vs where "vs = sort_key ev_id (known_events t es)"
  have vs: "map ev_id vs = sort (map ev_id (known_events t es))" "length vs = length (known_events t es)" "set vs = set (known_events t es)"
    by (simp_all add: vs_def sort_map_key)
  have dist: "distinct (map ev_id (known_events t es))"
    using ok by (auto simp: stream_ok_def validate_event_set_Inr known_events_def distinct_map_filter)
  let ?acc = "map (\<lambda>d. (d, [])) (er_decisions b)"
  have texts: "\<forall>e \<in> set vs. text_ok (ev_id e)"
    using ok unfolding vs(3) by (auto simp: stream_ok_def known_events_def event_ok_def)
  have "cd_claim d \<in> set (map fst (claims p))" if "d \<in> set (er_decisions b)" for d
  proof -
    have "cd_claim d \<in> set (map cd_claim (er_decisions b))" using that by simp
    then show ?thesis unfolding b(2) by simp
  qed
  then have acc: "\<forall>x \<in> set ?acc. decision_valid (fst x) \<and> cd_claim (fst x) \<in> set (map fst (claims p))" using b(4) by auto
  let ?ids = "\<lambda>d. filter (\<lambda>i. outcome_without rt p es as t (cd_claim d) i \<noteq> Some (cd_outcome d)) (map ev_id vs)"
  obtain imp where imp: "rfold (removal_step rt p es as t) ?acc vs = Inr imp"
    "list_all2 (\<lambda>x y. fst y = fst x \<and> (\<exists>new. snd y = snd x @ new \<and> (\<forall>z \<in> set new. ri_claim z = cd_claim (fst x))
        \<and> map ri_event new = ?ids (fst x))) ?acc imp"
    using removals_Inr [OF ok exp tv texts acc] by blast
  then have each: "list_all2 (\<lambda>d y. fst y = d \<and> (\<forall>z \<in> set (snd y). ri_claim z = cd_claim d) \<and> map ri_event (snd y) = ?ids d) (er_decisions b) imp"
    by (auto simp: list_all2_map1 elim!: list.rel_mono_strong)
  then have fst_imp: "map fst imp = er_decisions b"
    by (auto simp: list_eq_iff_nth_eq list_all2_conv_all_nth)
  have ids: "sorted (?ids d)" "distinct (?ids d)" "length (?ids d) \<le> length (known_events t es)" for d
    using dist vs(2) length_filter_le [of _ "map ev_id vs"] unfolding vs(1) by (auto simp: sorted_filter [where f = id, simplified])
  let ?r = "\<lambda>(d, is). \<lparr>rc_claim = cd_claim d, rc_outcome = cd_outcome d, rc_margin = cd_margin d, rc_tested = int (length vs),
               rc_changed = int (length is), rc_impacts = is\<rparr>"
  have init: "ClaimRobustness_init (?r y) = Inr (?r y) \<and> robustness_of rt p es as t (?r y)" if "y \<in> set imp" for y
  proof -
    obtain k where k: "k < length imp" "imp ! k = y" using \<open>y \<in> set imp\<close> by (auto simp: in_set_conv_nth)
    define d where "d = er_decisions b ! k"
    have d: "d \<in> set (er_decisions b)" "fst y = d" "\<forall>z \<in> set (snd y). ri_claim z = cd_claim d" "map ri_event (snd y) = ?ids d"
      using each k by (auto simp: list_all2_conv_all_nth d_def)
    have "length (snd y) = length (?ids d)" using arg_cong [OF d(4), of length] by simp
    then have len: "length (snd y) \<le> length vs" using ids(3) [of d] vs(2) by simp
    have "outcome_at rt p es as t (cd_claim d) = Some (cd_outcome d)"
      using map_of_by_claim [OF b(3) d(1)] by (simp add: outcome_at_def b(1))
    moreover have "ClaimRobustness_init (?r (d, snd y)) = Inr (?r (d, snd y))"
      using ClaimRobustness_init_Inr [of d "snd y" "length vs"] b(4) d ids(1,2) [of d] len lim vs(2) by simp
    ultimately show ?thesis using d(2,4) vs(1,2) by (cases y) (simp add: robustness_of_def)
  qed
  have sorted: "sort_key (\<lambda>x. cd_claim (fst x)) imp = imp"
  proof (rule sort_key_id_if_sorted)
    have "map (\<lambda>x. cd_claim (fst x)) imp = sort (map fst (claims p))"
      using b(2) unfolding fst_imp [symmetric] by (simp add: comp_def)
    then show "sorted (map (\<lambda>x. cd_claim (fst x)) imp)" by simp
  qed
  let ?cs = "map ?r imp"
  have claims: "map rc_claim ?cs = sort (map fst (claims p))"
    using b(2) unfolding fst_imp [symmetric] by (simp add: comp_def case_prod_beta)
  have small: "int (length es) \<le> max_attribute_integer" "length (known_events t es) \<le> length es" "text_ok (policy_id p)"
    using ok by (auto simp: stream_ok_def known_events_def policy_ok_def)
  have dig: "result_digest (EvaluationResult_digest rt b)"
    using hex by (simp add: result_digest_def EvaluationResult_digest_def U_def sha_json_def sha256_hex_def)
  have n: "int (length ?cs) \<le> max_perturbations"
    using cl arg_cong [OF claims, of length] by simp
  have d: "distinct (map rc_claim ?cs)" unfolding claims using ok by (simp add: stream_ok_def)
  have s: "sort_key rc_claim ?cs = ?cs" by (rule sort_key_id_if_sorted) (simp only: claims sorted_sort)
  have "RobustnessReport_init (JInt 1) (er_policy_id b) (utc (er_evaluated_at b)) (er_input_count b) (er_considered_count b)
      (EvaluationResult_digest rt b) ?cs
    = Inr \<lparr>rr_policy_id = policy_id p, rr_evaluated_at = t, rr_input_count = int (length es),
        rr_considered_count = int (length (known_events t es)), rr_digest = EvaluationResult_digest rt b, rr_claims = ?cs\<rparr>"
    using small tv dig n d s vs(2)
    by (simp add: RobustnessReport_init_def b(5-8) require_def list_all_iff case_prod_beta del: map_map)
  note report = this
  have cs: "rmap (\<lambda>(d, is). ClaimRobustness_init (?r (d, is))) imp = Inr ?cs"
    using init by (intro rmap_map_Inr) auto
  have visible: "sort_key ev_id (filter (\<lambda>e. ev_ingested_at e \<le> t) es) = vs" by (simp add: vs_def known_events_def)
  have guard: "require (int (length vs) \<le> limit) m = Inr ()" "(1 \<le> limit \<and> limit \<le> max_perturbations) = True" for m
    using lim vs(2) by simp_all
  have valid: "validate_event_set p es = Inr es" "validate_adjudication_set p es as = Inr as" using ok by (simp_all add: stream_ok_def)
  have "robustness rt p es as_of as (JInt limit) = Inr \<lparr>rr_policy_id = policy_id p, rr_evaluated_at = t, rr_input_count = int (length es),
        rr_considered_count = int (length (known_events t es)), rr_digest = EvaluationResult_digest rt b, rr_claims = ?cs\<rparr>"
    by (simp only: robustness_def json.case guard if_True rbind.simps t valid b(1) Let_def visible imp(1) sorted cs [unfolded prod.case] report)
  then show ?thesis using claims init by (auto simp del: map_map)
qed

end
