(* ===== verification/Provenance.thy ===== *)
theory Provenance
  imports Models
begin

text \<open>
  The provenance graph (provenance.py): nodes for claims, sources, reports and correlation groups, and the edges that
  reports give rise to. The lemmas say which nodes and edges a graph has, whatever the order of the reports, and what the
  trace of a claim returns.
\<close>

datatype node_kind = CLAIM_NODE | SOURCE_NODE | EVENT_NODE | CORRELATION_NODE

fun node_kind_value :: "node_kind \<Rightarrow> string" where
  "node_kind_value CLAIM_NODE = ''claim''"
| "node_kind_value SOURCE_NODE = ''source''"
| "node_kind_value EVENT_NODE = ''event''"
| "node_kind_value CORRELATION_NODE = ''correlation''"

record prov_node =
  pn_id :: ustr
  pn_kind :: node_kind
  pn_label :: ustr

definition ProvenanceNode_to_dict :: "prov_node \<Rightarrow> json" where
  "ProvenanceNode_to_dict n =
     JObj [(U ''id'', JStr (pn_id n)), (U ''kind'', JText (node_kind_value (pn_kind n))), (U ''label'', JStr (pn_label n))]"

record prov_edge =
  pe_source :: ustr
  pe_target :: ustr
  pe_relation :: ustr

definition ProvenanceEdge_to_dict :: "prov_edge \<Rightarrow> json" where
  "ProvenanceEdge_to_dict e =
     JObj [(U ''source'', JStr (pe_source e)), (U ''target'', JStr (pe_target e)), (U ''relation'', JStr (pe_relation e))]"

record prov_graph =
  pg_nodes :: "prov_node list"
  pg_edges :: "prov_edge list"

definition ProvenanceGraph_to_dict :: "prov_graph \<Rightarrow> json" where
  "ProvenanceGraph_to_dict g = JObj
     [(U ''schema_version'', JText ''1.0''), (U ''kind'', JText ''evidence-braid-provenance''),
      (U ''node_count'', JInt (int (length (pg_nodes g)))), (U ''edge_count'', JInt (int (length (pg_edges g)))),
      (U ''nodes'', JArr (map ProvenanceNode_to_dict (pg_nodes g))),
      (U ''edges'', JArr (map ProvenanceEdge_to_dict (pg_edges g)))]"

text \<open>The loop over the edges collects the ends of those at the claim.\<close>

fun neighbors :: "ustr \<Rightarrow> ustr set \<Rightarrow> prov_edge list \<Rightarrow> ustr set" where
  "neighbors target acc [] = acc"
| "neighbors target acc (e # es) =
     neighbors target
       (if pe_target e = target \<or> pe_source e = target then insert (pe_target e) (insert (pe_source e) acc) else acc) es"

definition trace_claim :: "prov_graph \<Rightarrow> ustr \<Rightarrow> prov_node list" where
  "trace_claim g claim =
     (let target = U ''claim:'' @ claim; ids = neighbors target {target} (pg_edges g)
      in filter (\<lambda>n. pn_id n \<in> ids) (pg_nodes g))"

text \<open>\<open>dict.setdefault\<close> and item assignment on the nodes, which are keyed by their identifiers.\<close>

definition set_default :: "prov_node list \<Rightarrow> prov_node \<Rightarrow> prov_node list" where
  "set_default ns n = (if pn_id n \<in> pn_id ` set ns then ns else ns @ [n])"

definition set_node :: "prov_node list \<Rightarrow> prov_node \<Rightarrow> prov_node list" where
  "set_node ns n =
     (if pn_id n \<in> pn_id ` set ns then map (\<lambda>m. if pn_id m = pn_id n then n else m) ns else ns @ [n])"

definition claim_node :: "evidence_event \<Rightarrow> prov_node" where
  "claim_node e = \<lparr>pn_id = U ''claim:'' @ ev_claim e, pn_kind = CLAIM_NODE, pn_label = ev_claim e\<rparr>"

definition source_node :: "evidence_event \<Rightarrow> prov_node" where
  "source_node e = \<lparr>pn_id = U ''source:'' @ ev_source e, pn_kind = SOURCE_NODE, pn_label = ev_source e\<rparr>"

definition event_node :: "evidence_event \<Rightarrow> prov_node" where
  "event_node e = \<lparr>pn_id = U ''event:'' @ ev_id e, pn_kind = EVENT_NODE, pn_label = ev_id e\<rparr>"

definition correlation_node :: "ustr \<Rightarrow> prov_node" where
  "correlation_node g = \<lparr>pn_id = U ''correlation:'' @ g, pn_kind = CORRELATION_NODE, pn_label = g\<rparr>"

definition event_edges :: "evidence_event \<Rightarrow> (ustr \<times> ustr \<times> ustr) list" where
  "event_edges e =
     [(pn_id (event_node e), pn_id (claim_node e), if ev_signal e = SUPPORT then U ''supports'' else U ''contradicts''),
      (pn_id (source_node e), pn_id (event_node e), U ''produced'')]
     @ (case ev_group e of None \<Rightarrow> [] | Some g \<Rightarrow> [(pn_id (correlation_node g), pn_id (event_node e), U ''groups'')])"

definition provenance_step :: "prov_node list \<times> (ustr \<times> ustr \<times> ustr) list \<Rightarrow> evidence_event
    \<Rightarrow> prov_node list \<times> (ustr \<times> ustr \<times> ustr) list" where
  "provenance_step acc e =
     (let (nodes, edges) = acc;
          nodes = set_node (set_default (set_default nodes (claim_node e)) (source_node e)) (event_node e);
          nodes = (case ev_group e of None \<Rightarrow> nodes | Some g \<Rightarrow> set_default nodes (correlation_node g))
      in (nodes, edges @ event_edges e))"

definition build_provenance :: "evidence_event list \<Rightarrow> prov_graph result" where
  "build_provenance supplied =
     rbind (require (distinct (map ev_id supplied)) ''provenance event IDs must be unique'') (\<lambda>_.
     let (nodes, edges) = foldl provenance_step ([], []) (sort_key ev_id supplied) in
     Inr \<lparr>pg_nodes = sort_key (\<lambda>n. (U (node_kind_value (pn_kind n)), pn_id n)) nodes,
          pg_edges = map (\<lambda>(s, t, r). \<lparr>pe_source = s, pe_target = t, pe_relation = r\<rparr>) (sorted_set edges)\<rparr>)"

subsection \<open>What a graph holds\<close>

text \<open>The nodes that one report gives rise to.\<close>

definition event_nodes :: "evidence_event \<Rightarrow> prov_node list" where
  "event_nodes e = [claim_node e, source_node e, event_node e] @ (case ev_group e of None \<Rightarrow> [] | Some g \<Rightarrow> [correlation_node g])"

text \<open>A node is determined by its identifier: the prefix tells its kind, the rest its label.\<close>

definition proper_node :: "prov_node \<Rightarrow> bool" where
  "proper_node n \<longleftrightarrow> pn_id n = U (node_kind_value (pn_kind n)) @ 58 # pn_label n"

lemma proper_nodes: "\<forall>n \<in> set (event_nodes e). proper_node n"
  by (auto simp: event_nodes_def proper_node_def claim_node_def source_node_def event_node_def correlation_node_def U_def
      split: option.splits)

lemma node_kind_colon: "58 \<notin> set (U (node_kind_value k))"
  by (cases k) (simp_all add: U_def)

lemma colon_split: "58 \<notin> set a \<Longrightarrow> 58 \<notin> set b \<Longrightarrow> a @ (58 :: nat) # x = b @ 58 # y \<Longrightarrow> a = b \<and> x = y"
proof (induction a arbitrary: b)
  case Nil
  then show ?case by (cases b) auto
next
  case (Cons c a)
  then show ?case by (cases b) auto
qed

lemma node_kind_inj: "node_kind_value j = node_kind_value k \<Longrightarrow> j = k"
  by (cases j; cases k) simp_all

lemma proper_node_eq:
  assumes "proper_node m" "proper_node n" "pn_id m = pn_id n"
  shows "m = n"
proof -
  have "U (node_kind_value (pn_kind m)) @ 58 # pn_label m = U (node_kind_value (pn_kind n)) @ 58 # pn_label n"
    using assms by (simp add: proper_node_def)
  then have "U (node_kind_value (pn_kind m)) = U (node_kind_value (pn_kind n)) \<and> pn_label m = pn_label n"
    by (rule colon_split [OF node_kind_colon node_kind_colon])
  then show ?thesis using node_kind_inj [of "pn_kind m" "pn_kind n"] assms(3) by (intro prov_node.equality) (simp_all add: U_eq_iff)
qed

definition nodes_ok :: "prov_node list \<Rightarrow> bool" where
  "nodes_ok ns \<longleftrightarrow> distinct (map pn_id ns) \<and> (\<forall>n \<in> set ns. proper_node n)"

lemma set_default_ok:
  assumes "nodes_ok ns" "proper_node n"
  shows "nodes_ok (set_default ns n) \<and> set (set_default ns n) = insert n (set ns)"
proof (cases "pn_id n \<in> pn_id ` set ns")
  case True
  then obtain m where "m \<in> set ns" "pn_id m = pn_id n" by auto
  then have "n \<in> set ns" using assms proper_node_eq by (metis nodes_ok_def)
  then show ?thesis using True assms(1) by (auto simp: set_default_def)
next
  case False
  then show ?thesis using assms by (auto simp: set_default_def nodes_ok_def)
qed

lemma set_node_ok:
  assumes "nodes_ok ns" "proper_node n"
  shows "nodes_ok (set_node ns n) \<and> set (set_node ns n) = insert n (set ns)"
proof (cases "pn_id n \<in> pn_id ` set ns")
  case True
  then obtain m where "m \<in> set ns" "pn_id m = pn_id n" by auto
  then have "n \<in> set ns" using assms proper_node_eq by (metis nodes_ok_def)
  moreover have "map (\<lambda>m. if pn_id m = pn_id n then n else m) ns = ns"
    using assms proper_node_eq by (intro map_idI) (auto simp: nodes_ok_def)
  ultimately show ?thesis using True assms(1) by (auto simp: set_node_def)
next
  case False
  then show ?thesis using assms by (auto simp: set_node_def nodes_ok_def)
qed

lemma provenance_step_ok:
  assumes "nodes_ok ns"
  shows "nodes_ok (fst (provenance_step (ns, es) e)) \<and> set (fst (provenance_step (ns, es) e)) = set ns \<union> set (event_nodes e)
    \<and> snd (provenance_step (ns, es) e) = es @ event_edges e"
proof -
  have p: "proper_node (claim_node e)" "proper_node (source_node e)" "proper_node (event_node e)"
    "\<And>g. proper_node (correlation_node g)"
    by (simp_all add: proper_node_def claim_node_def source_node_def event_node_def correlation_node_def U_def)
  show ?thesis
    using set_default_ok [OF assms p(1)] set_default_ok [OF _ p(2)] set_node_ok [OF _ p(3)] set_default_ok [OF _ p(4)]
    by (auto simp: provenance_step_def event_nodes_def Let_def split: option.splits)
qed

lemma provenance_fold:
  "nodes_ok ns \<Longrightarrow> nodes_ok (fst (foldl provenance_step (ns, es) xs))
    \<and> set (fst (foldl provenance_step (ns, es) xs)) = set ns \<union> (\<Union>e \<in> set xs. set (event_nodes e))
    \<and> set (snd (foldl provenance_step (ns, es) xs)) = set es \<union> (\<Union>e \<in> set xs. set (event_edges e))"
proof (induction xs arbitrary: ns es)
  case (Cons x xs)
  obtain ns' es' where s: "provenance_step (ns, es) x = (ns', es')" by fastforce
  have "nodes_ok ns'" "set ns' = set ns \<union> set (event_nodes x)" "es' = es @ event_edges x"
    using provenance_step_ok [OF Cons.prems, of es x] s by simp_all
  then show ?case using Cons.IH [of ns' es'] s by auto
qed simp

text \<open>The whole graph.\<close>

definition edge_of :: "prov_edge \<Rightarrow> ustr \<times> ustr \<times> ustr" where
  "edge_of e = (pe_source e, pe_target e, pe_relation e)"

lemma build_provenance_Inr:
  assumes "distinct (map ev_id es)"
  shows "\<exists>g. build_provenance es = Inr g \<and> set (pg_nodes g) = (\<Union>e \<in> set es. set (event_nodes e)) \<and> nodes_ok (pg_nodes g)
    \<and> sorted (map (\<lambda>n. (U (node_kind_value (pn_kind n)), pn_id n)) (pg_nodes g))
    \<and> map edge_of (pg_edges g) = sorted_list_of_set (\<Union>e \<in> set es. set (event_edges e))"
proof -
  obtain ns eds where f: "foldl provenance_step ([], []) (sort_key ev_id es) = (ns, eds)" by fastforce
  have fold: "nodes_ok ns" "set ns = (\<Union>e \<in> set es. set (event_nodes e))" "set eds = (\<Union>e \<in> set es. set (event_edges e))"
    using provenance_fold [of "[]" "[]" "sort_key ev_id es"] f by (simp_all add: nodes_ok_def)
  let ?g = "\<lparr>pg_nodes = sort_key (\<lambda>n. (U (node_kind_value (pn_kind n)), pn_id n)) ns,
          pg_edges = map (\<lambda>(s, t, r). \<lparr>pe_source = s, pe_target = t, pe_relation = r\<rparr>) (sorted_set eds)\<rparr>"
  have "map edge_of (pg_edges ?g) = sorted_set eds" by (simp add: edge_of_def comp_def case_prod_beta)
  moreover have "sorted_set eds = sorted_list_of_set (\<Union>e \<in> set es. set (event_edges e))"
    unfolding fold(3) [symmetric] by (simp add: sorted_set_def sorted_list_of_set_sort_remdups)
  ultimately show ?thesis
    using assms f fold by (auto simp: build_provenance_def nodes_ok_def sorted_sort_key intro!: exI [of _ ?g])
qed

lemma neighbors_eq:
  "neighbors target acc es = acc \<union> (\<Union>e \<in> {e \<in> set es. pe_target e = target \<or> pe_source e = target}. {pe_source e, pe_target e})"
  by (induction target acc es rule: neighbors.induct) auto

lemma node_ids:
  "pn_id (claim_node e) = U ''claim:'' @ ev_claim e" "pn_id (source_node e) = U ''source:'' @ ev_source e"
  "pn_id (event_node e) = U ''event:'' @ ev_id e" "pn_id (correlation_node g) = U ''correlation:'' @ g"
  by (simp_all add: claim_node_def source_node_def event_node_def correlation_node_def)

lemma id_prefixes:
  "U ''event:'' @ x \<noteq> U ''claim:'' @ y" "U ''source:'' @ x \<noteq> U ''claim:'' @ y" "U ''correlation:'' @ x \<noteq> U ''claim:'' @ y"
  "U ''claim:'' @ y \<noteq> U ''event:'' @ x" "U ''claim:'' @ y \<noteq> U ''source:'' @ x" "U ''claim:'' @ y \<noteq> U ''correlation:'' @ x"
  "U ''event:'' @ x \<noteq> U ''source:'' @ y" "U ''event:'' @ x \<noteq> U ''correlation:'' @ y"
  by (simp_all add: U_def)

lemma edges_at_claim:
  "(s, t, r) \<in> set (event_edges e) \<Longrightarrow> t = U ''claim:'' @ c \<or> s = U ''claim:'' @ c
    \<longleftrightarrow> ev_claim e = c \<and> s = pn_id (event_node e) \<and> t = pn_id (claim_node e)"
  by (auto simp: event_edges_def node_ids id_prefixes split: option.splits)

lemma trace_claim_eq:
  assumes "distinct (map ev_id es)" "build_provenance es = Inr g"
  shows "set (trace_claim g c) = (\<Union>e \<in> {e \<in> set es. ev_claim e = c}. {claim_node e, event_node e})"
proof -
  have nodes: "set (pg_nodes g) = (\<Union>e \<in> set es. set (event_nodes e))" and ok: "nodes_ok (pg_nodes g)"
    and edges: "map edge_of (pg_edges g) = sorted_list_of_set (\<Union>e \<in> set es. set (event_edges e))"
    using build_provenance_Inr [OF assms(1)] assms(2) by auto
  have E: "edge_of ` set (pg_edges g) = (\<Union>e \<in> set es. set (event_edges e))"
    using arg_cong [OF edges, of set] by simp
  let ?t = "U ''claim:'' @ c" and ?es = "{e \<in> set es. ev_claim e = c}"
  have touch: "{edge_of x |x. x \<in> set (pg_edges g) \<and> (pe_target x = ?t \<or> pe_source x = ?t)}
      = (\<Union>e \<in> ?es. {y \<in> set (event_edges e). fst y = pn_id (event_node e) \<and> fst (snd y) = pn_id (claim_node e)})" (is "?L = ?R")
  proof
    show "?L \<subseteq> ?R"
    proof
      fix y assume "y \<in> ?L"
      then obtain x where x: "x \<in> set (pg_edges g)" "pe_target x = ?t \<or> pe_source x = ?t" "y = edge_of x" by blast
      then obtain e where e: "e \<in> set es" "(pe_source x, pe_target x, pe_relation x) \<in> set (event_edges e)"
        using E by (force simp: edge_of_def)
      then show "y \<in> ?R" using edges_at_claim [OF e(2), of c] x by (auto simp: edge_of_def)
    qed
    show "?R \<subseteq> ?L"
    proof
      fix y assume "y \<in> ?R"
      then obtain e where e: "e \<in> set es" "ev_claim e = c" "y \<in> set (event_edges e)" "fst (snd y) = pn_id (claim_node e)" by blast
      then obtain x where "x \<in> set (pg_edges g)" "y = edge_of x" using E by blast
      then show "y \<in> ?L" using e(2,4) by (auto simp: edge_of_def node_ids)
    qed
  qed
  have "(\<Union>x \<in> {x \<in> set (pg_edges g). pe_target x = ?t \<or> pe_source x = ?t}. {pe_source x, pe_target x})
      = (\<Union>y \<in> ?L. {fst y, fst (snd y)})"
    by (auto simp: edge_of_def)
  also have "\<dots> = (\<Union>e \<in> ?es. {pn_id (event_node e), pn_id (claim_node e)})"
    unfolding touch by (fastforce simp: event_edges_def)
  finally have ids: "neighbors ?t {?t} (pg_edges g) = insert ?t (\<Union>e \<in> ?es. {pn_id (event_node e), pn_id (claim_node e)})"
    by (simp add: neighbors_eq)
  show ?thesis
  proof
    show "set (trace_claim g c) \<subseteq> (\<Union>e \<in> ?es. {claim_node e, event_node e})"
    proof
      fix n assume "n \<in> set (trace_claim g c)"
      then have n: "n \<in> set (pg_nodes g)" "pn_id n = ?t \<or> (\<exists>e \<in> ?es. pn_id n = pn_id (event_node e) \<or> pn_id n = pn_id (claim_node e))"
        by (auto simp: trace_claim_def Let_def ids)
      obtain f where f: "f \<in> set es" "n \<in> set (event_nodes f)" using n(1) nodes by blast
      have p: "proper_node n" using ok n(1) by (simp add: nodes_ok_def)
      from n(2) show "n \<in> (\<Union>e \<in> ?es. {claim_node e, event_node e})"
      proof
        assume t: "pn_id n = ?t"
        then have "n = claim_node f \<and> ev_claim f = c"
          using f(2) by (auto simp: event_nodes_def node_ids id_prefixes split: option.splits)
        then show ?thesis using f(1) by blast
      next
        assume "\<exists>e \<in> ?es. pn_id n = pn_id (event_node e) \<or> pn_id n = pn_id (claim_node e)"
        then obtain e where e: "e \<in> ?es" "pn_id n = pn_id (event_node e) \<or> pn_id n = pn_id (claim_node e)" by blast
        moreover have "proper_node (event_node e)" "proper_node (claim_node e)" using proper_nodes [of e] by (simp_all add: event_nodes_def)
        ultimately have "n = event_node e \<or> n = claim_node e" using proper_node_eq [OF p] by blast
        then show ?thesis using e(1) by blast
      qed
    qed
    show "(\<Union>e \<in> ?es. {claim_node e, event_node e}) \<subseteq> set (trace_claim g c)"
      using nodes by (auto simp: trace_claim_def Let_def ids event_nodes_def)
  qed
qed

text \<open>The ends of every edge are nodes of the graph.\<close>

lemma edges_closed:
  assumes "distinct (map ev_id es)" "build_provenance es = Inr g" "x \<in> set (pg_edges g)"
  shows "pe_source x \<in> pn_id ` set (pg_nodes g) \<and> pe_target x \<in> pn_id ` set (pg_nodes g)"
proof -
  have nodes: "set (pg_nodes g) = (\<Union>e \<in> set es. set (event_nodes e))"
    and edges: "map edge_of (pg_edges g) = sorted_list_of_set (\<Union>e \<in> set es. set (event_edges e))"
    using build_provenance_Inr [OF assms(1)] assms(2) by auto
  have "edge_of x \<in> (\<Union>e \<in> set es. set (event_edges e))"
    using arg_cong [OF edges, of set] assms(3) by auto
  then obtain e where e: "e \<in> set es" "edge_of x \<in> set (event_edges e)" by blast
  then have "\<exists>m \<in> set (event_nodes e). pn_id m = pe_source x" "\<exists>m \<in> set (event_nodes e). pn_id m = pe_target x"
    by (auto simp: event_edges_def event_nodes_def edge_of_def split: option.splits)
  then show ?thesis using e(1) unfolding nodes by force
qed

end
