(* ===== verification/Baselines.thy ===== *)
theory Baselines
  imports Evaluation
begin

text \<open>
  The comparison baselines (baselines.py): the decision record with its consistency checks, the majority vote and the
  reliability weighted vote. \<open>fsum\<close> is the correctly rounded sum. The lemmas show that both votes return a decision for every
  claim of a validated stream: no check of the record can fail, in spite of the rounding.
\<close>

subsection \<open>Rounding to twelve digits, beyond the unit interval\<close>

lemma fl_half_ulp: "\<bar>fl x - x\<bar> \<le> 1 / 2 * 2 powi fl_exponent \<bar>x\<bar>"
proof (cases "x = 0")
  case False
  let ?e = "fl_exponent \<bar>x\<bar>"
  have "fl x - x = (of_int (rnd_even (x / 2 powi ?e)) - x / 2 powi ?e) * 2 powi ?e"
    using False by (simp add: fl_def Let_def left_diff_distrib)
  then have "\<bar>fl x - x\<bar> = \<bar>of_int (rnd_even (x / 2 powi ?e)) - x / 2 powi ?e\<bar> * 2 powi ?e" by (simp add: abs_mult)
  also have "\<dots> \<le> 1 / 2 * 2 powi ?e" by (intro mult_right_mono rnd_even_error) simp
  finally show ?thesis .
qed simp

lemma fl_nearest:
  assumes "2 powi k \<le> w" "w < 2 powi (k + 1)" "- 1022 \<le> k" "y = of_int n * 2 powi (k - 52)"
    and "\<bar>w - y\<bar> < 1 / 2 * 2 powi (k - 52)"
  shows "fl w = y"
proof -
  have pos: "0 < w" using assms(1) by (meson less_le_trans powi2_pos)
  have "ilog2 w = k"
  proof -
    have "2 powi ilog2 w \<le> w" "w < 2 powi (ilog2 w + 1)" using ilog2_bounds [OF pos] by simp_all
    then have "(2::rat) powi ilog2 w < 2 powi (k + 1)" "(2::rat) powi k < 2 powi (ilog2 w + 1)" using assms(1,2) by linarith+
    then show ?thesis by (simp only: powi2_less_iff)
  qed
  then have e: "fl_exponent w = k - 52" using assms(3) pos by (simp add: fl_exponent_def)
  have p: "0 < (2::rat) powi (k - 52)" by simp
  have "\<bar>w - y\<bar> / 2 powi (k - 52) < 1 / 2" using assms(5) p by (simp add: divide_less_eq)
  moreover have "of_int n - w / 2 powi (k - 52) = (y - w) / 2 powi (k - 52)"
    using assms(4) p by (simp add: diff_divide_distrib)
  ultimately have "\<bar>of_int n - w / 2 powi (k - 52)\<bar> < 1 / 2"
    using p by (simp only: abs_divide abs_minus_commute [of w] abs_of_pos)
  then have "rnd_even (w / 2 powi (k - 52)) = n" by (rule rnd_even_unique)
  then show ?thesis using pos assms(4) by (simp add: fl_def Let_def e)
qed

lemma stable_float_small:
  assumes "0 \<le> m" "of_int m / 10 ^ 12 < (2::rat) powi 13"
  shows "rnd_even (fl (of_int m / 10 ^ 12) * 10 ^ 12) = m"
proof (cases "m = 0")
  case False
  let ?z = "of_int m / 10 ^ 12 :: rat"
  have z: "0 < ?z" using False assms(1) by simp
  have "(2::rat) powi ilog2 ?z < 2 powi 13" using ilog2_bounds(1) [OF z] assms(2) by linarith
  then have "ilog2 ?z < 13" by (simp only: powi2_less_iff)
  then have "fl_exponent \<bar>?z\<bar> \<le> - 40" unfolding fl_exponent_def abs_of_pos [OF z] by linarith
  then have "\<bar>fl ?z - ?z\<bar> \<le> 1 / 2 * 2 powi (- 40)"
    using fl_half_ulp [of ?z] powi2_mono [of "fl_exponent \<bar>?z\<bar>" "- 40"] by linarith
  also have "\<dots> < 1 / 2 / (10 ^ 12 :: rat)" by (simp add: power_int_def power_one_over)
  finally have "\<bar>fl ?z - ?z\<bar> * 10 ^ 12 < 1 / 2" by (simp add: field_simps)
  moreover have "of_int m - fl ?z * 10 ^ 12 = (?z - fl ?z) * 10 ^ 12" by (simp add: left_diff_distrib)
  then have "\<bar>of_int m - fl ?z * 10 ^ 12\<bar> = \<bar>fl ?z - ?z\<bar> * 10 ^ 12" by (simp only: abs_mult abs_minus_commute) simp
  ultimately show ?thesis by (intro rnd_even_unique) simp
qed simp

lemma stable_float_large:
  assumes y: "is_double y" "2 powi 13 \<le> y"
  shows "stable_float y = y"
proof -
  define k where "k = ilog2 y"
  have pos: "0 < y" using y(2) by (meson less_le_trans powi2_pos)
  have k: "2 powi k \<le> y" "y < 2 powi (k + 1)" using ilog2_bounds [OF pos] by (simp_all add: k_def)
  have "(2::rat) powi 13 < 2 powi (k + 1)" using k(2) y(2) by linarith
  then have k13: "13 \<le> k" by (simp only: powi2_less_iff)
  define n where "n = rnd_even (y / 2 powi (k - 52))"
  have ex: "fl_exponent y = k - 52" using pos k13 by (simp add: fl_exponent_def k_def)
  have yn: "y = of_int n * 2 powi (k - 52)"
    using y(1) pos by (simp add: is_double_def fl_def Let_def ex n_def)
  let ?u = "2 powi (k - 52) :: rat"
  have u: "1 / 10 ^ 12 < ?u"
  proof -
    have "1 / 10 ^ 12 < (2::rat) powi (- 39)" by (simp add: power_int_def power_one_over)
    also have "\<dots> \<le> ?u" using k13 by (intro powi2_mono) simp
    finally show ?thesis .
  qed
  have top: "2 powi (k + 1) = (2 ^ 53 :: rat) * ?u"
  proof -
    have "(2::rat) powi (k + 1) = 2 powi (53 + (k - 52))" by (simp add: add.commute)
    also have "\<dots> = 2 powi 53 * ?u" by (simp only: powi2_mult [symmetric])
    finally show ?thesis by simp
  qed
  have "of_int n * ?u < (2 ^ 53 :: rat) * ?u" using k(2) yn top by simp
  then have "of_int n < (2 ^ 53 :: rat)" by (simp only: mult_less_cancel_right_pos powi2_pos)
  then have "n < 2 ^ 53" by (metis of_int_less_iff of_int_numeral of_int_power)
  then have "of_int n \<le> (of_int (2 ^ 53 - 1) :: rat)" by (simp only: of_int_le_iff)
  then have "of_int n \<le> (2 ^ 53 - 1 :: rat)" by simp
  then have "of_int n * ?u \<le> (2 ^ 53 - 1) * ?u" by (rule mult_right_mono) simp
  then have below: "y \<le> 2 powi (k + 1) - ?u" using yn top by (simp add: left_diff_distrib)
  define w where "w = of_int (rnd_even (y * 10 ^ 12)) / (10 ^ 12 :: rat)"
  have "w - y = (of_int (rnd_even (y * 10 ^ 12)) - y * 10 ^ 12) / 10 ^ 12" by (simp add: w_def diff_divide_distrib)
  then have "\<bar>w - y\<bar> = \<bar>of_int (rnd_even (y * 10 ^ 12)) - y * 10 ^ 12\<bar> / 10 ^ 12" by (simp only: abs_divide) simp
  also have "\<dots> \<le> 1 / 2 / 10 ^ 12" by (intro divide_right_mono rnd_even_error) simp
  finally have near: "\<bar>w - y\<bar> \<le> 1 / 2 / 10 ^ 12" .
  have "of_int (2 ^ nat k * 10 ^ 12) \<le> y * 10 ^ 12" using k(1) k13 by (simp add: power_int_def)
  then have "2 ^ nat k * 10 ^ 12 \<le> rnd_even (y * 10 ^ 12)" using rnd_even_mono by (metis rnd_even_of_int)
  then have "of_int (2 ^ nat k * 10 ^ 12) \<le> (of_int (rnd_even (y * 10 ^ 12)) :: rat)" by (simp only: of_int_le_iff)
  then have low: "2 powi k \<le> w" using k13 by (simp add: w_def power_int_def le_divide_eq)
  have "\<bar>w - y\<bar> < 1 / 2 * ?u" using near u by linarith
  moreover have "w < 2 powi (k + 1)" using near u below by linarith
  ultimately have "fl w = y" using low k13 yn by (intro fl_nearest [of k]) simp_all
  then show ?thesis by (simp add: stable_float_def w_def)
qed

lemma stable_float_twice:
  assumes "0 \<le> x"
  shows "stable_float (stable_float x) = stable_float x"
proof -
  let ?m = "rnd_even (x * 10 ^ 12)"
  have m: "0 \<le> ?m" using assms rnd_even_mono [of 0 "x * 10 ^ 12"] by simp
  show ?thesis
  proof (cases "of_int ?m / 10 ^ 12 < (2::rat) powi 13")
    case True
    then show ?thesis using stable_float_small [OF m] by (simp only: stable_float_def)
  next
    case False
    have "is_double (2 powi 13)" by (rule is_double_powi) simp
    then have "2 powi 13 \<le> stable_float x" using False unfolding stable_float_def by (intro fl_ge) simp_all
    then show ?thesis by (intro stable_float_large) simp_all
  qed
qed

lemma stable_float_int:
  assumes "\<bar>i\<bar> < 2 ^ 53"
  shows "stable_float (of_int i) = of_int i"
proof -
  have "rnd_even (of_int i * 10 ^ 12 :: rat) = i * 10 ^ 12"
    using rnd_even_of_int [of "i * 10 ^ 12"] by simp
  then have "stable_float (of_int i) = fl (of_int i)" by (simp add: stable_float_def)
  then show ?thesis using is_double_of_int [OF assms] by (simp add: is_double_def)
qed

subsection \<open>Decisions\<close>

definition baseline_methods :: "ustr set" where
  "baseline_methods = {U ''majority_vote'', U ''reliability_weighted_vote''}"

definition max_event_count :: int where
  "max_event_count = max_attribute_integer"

definition mass_tolerance :: rat where
  "mass_tolerance = fl (1 / 10 ^ 12)"

record baseline =
  bd_claim :: ustr
  bd_method :: ustr
  bd_outcome :: outcome
  bd_support :: rat
  bd_contradict :: rat
  bd_probability :: rat
  bd_count :: int

definition baseline_outcome :: "rat \<Rightarrow> rat \<Rightarrow> outcome" where
  "baseline_outcome support contradict =
     (if contradict < support then ESCALATE else if support < contradict then REJECT else REVIEW)"

definition BaselineDecision_init ::
  "ustr \<Rightarrow> ustr \<Rightarrow> outcome \<Rightarrow> json \<Rightarrow> json \<Rightarrow> json \<Rightarrow> int \<Rightarrow> baseline result" where
  "BaselineDecision_init claim method ot support contradict probability n =
     rbind (text_value (JStr claim) ''baseline.claim'' True) (\<lambda>c.
     rbind (require (c = claim) ''baseline.claim must be canonical non-empty text'') (\<lambda>_.
     rbind (require (method \<in> baseline_methods) ''baseline.method is not a supported baseline'') (\<lambda>_.
     rbind (number_value support ''baseline.support_mass'' 0 None) (\<lambda>s.
     rbind (number_value contradict ''baseline.contradict_mass'' 0 None) (\<lambda>k.
     rbind (number_value probability ''baseline.support_probability'' 0 (Some 1)) (\<lambda>q.
     let s = stable_float s; k = stable_float k; q = stable_float q in
     rbind (require (0 \<le> n \<and> n \<le> max_event_count) ''baseline.event_count must be an integer >= 0 with at most 640 digits'') (\<lambda>_.
     let total = fl (s + k) in
     rbind (require (total \<le> max_double) ''baseline support and contradiction mass sum must be finite'') (\<lambda>_.
     rbind (require (\<not> (n = 0 \<and> total \<noteq> 0)) ''baseline mass must be zero when event_count is zero'') (\<lambda>_.
     rbind (if method = U ''majority_vote''
            then rbind (require (s = of_int \<lfloor>s\<rfloor> \<and> k = of_int \<lfloor>k\<rfloor>) ''majority_vote masses must be whole event counts'') (\<lambda>_.
                 require (\<lfloor>total\<rfloor> = n) ''majority_vote masses must sum to event_count'')
            else require (\<not> (of_int n < total \<and> mass_tolerance < stable_float (fl (total - fl (of_int n)))))
                   ''reliability_weighted_vote masses cannot exceed event_count'') (\<lambda>_.
     rbind (require (ot = baseline_outcome s k) ''baseline.outcome is inconsistent with support and contradiction mass'') (\<lambda>_.
     rbind (require (q = (if total \<noteq> 0 then stable_float (fl (s / total)) else 1 / 2))
              ''baseline.support_probability is inconsistent with support and contradiction mass'') (\<lambda>_.
     Inr \<lparr>bd_claim = c, bd_method = method, bd_outcome = ot, bd_support = s, bd_contradict = k, bd_probability = q,
          bd_count = n\<rparr>))))))))))))"

definition BaselineDecision_to_dict :: "baseline \<Rightarrow> json" where
  "BaselineDecision_to_dict b = JObj
     [(U ''claim'', JStr (bd_claim b)), (U ''method'', JStr (bd_method b)),
      (U ''outcome'', JText (outcome_value (bd_outcome b))), (U ''support_mass'', JFloat (Fin (bd_support b))),
      (U ''contradict_mass'', JFloat (Fin (bd_contradict b))),
      (U ''support_probability'', JFloat (Fin (bd_probability b))), (U ''event_count'', JInt (bd_count b))]"

subsection \<open>The votes\<close>

definition visible_events :: "policy \<Rightarrow> evidence_event list \<Rightarrow> pydatetime \<Rightarrow> evidence_event list result" where
  "visible_events p events as_of =
     rbind (normalize_datetime as_of ''as_of'') (\<lambda>t.
     rbind (validate_event_set p events) (\<lambda>validated.
     Inr (filter (\<lambda>e. ev_ingested_at e \<le> t) validated)))"

definition majority_claim :: "evidence_event list \<Rightarrow> ustr \<Rightarrow> baseline result" where
  "majority_claim visible c =
     (let matching = filter (\<lambda>e. ev_claim e = c) visible;
          support = int (length (filter (\<lambda>e. ev_signal e = SUPPORT) matching));
          contradict = int (length (filter (\<lambda>e. ev_signal e = CONTRADICT) matching));
          total = support + contradict
      in BaselineDecision_init c (U ''majority_vote'') (baseline_outcome (of_int support) (of_int contradict))
           (JInt support) (JInt contradict) (JFloat (Fin (if total \<noteq> 0 then fl (of_int support / of_int total) else 1 / 2))) total)"

definition majority_vote :: "policy \<Rightarrow> evidence_event list \<Rightarrow> pydatetime \<Rightarrow> baseline list result" where
  "majority_vote p events as_of =
     rbind (visible_events p events as_of) (\<lambda>visible. rmap (majority_claim visible) (sort (map fst (claims p))))"

definition weighted_mass :: "policy \<Rightarrow> signal \<Rightarrow> evidence_event list \<Rightarrow> rat" where
  "weighted_mass p s matching =
     fl (sum_list (map (\<lambda>e. fl (ev_confidence e * reliability_for p (ev_source e))) (filter (\<lambda>e. ev_signal e = s) matching)))"

definition weighted_claim :: "policy \<Rightarrow> evidence_event list \<Rightarrow> ustr \<Rightarrow> baseline result" where
  "weighted_claim p visible c =
     (let matching = sort_key ev_id (filter (\<lambda>e. ev_claim e = c) visible);
          support = stable_float (weighted_mass p SUPPORT matching);
          contradict = stable_float (weighted_mass p CONTRADICT matching);
          total = fl (support + contradict)
      in BaselineDecision_init c (U ''reliability_weighted_vote'') (baseline_outcome support contradict)
           (JFloat (Fin support)) (JFloat (Fin contradict))
           (JFloat (Fin (if total \<noteq> 0 then stable_float (fl (support / total)) else 1 / 2))) (int (length matching)))"

definition reliability_weighted_vote :: "policy \<Rightarrow> evidence_event list \<Rightarrow> pydatetime \<Rightarrow> baseline list result" where
  "reliability_weighted_vote p events as_of =
     rbind (visible_events p events as_of) (\<lambda>visible. rmap (weighted_claim p visible) (sort (map fst (claims p))))"

subsection \<open>The votes are total\<close>

lemma half_double: "is_double (1 / 2)" "stable_float (1 / 2) = 1 / 2"
proof -
  show h: "is_double (1 / 2)" using is_double_powi [of "- 1"] by (simp add: power_int_def)
  have "rnd_even (1 / 2 * 10 ^ 12) = 5 * 10 ^ 11" using rnd_even_of_int [of "5 * 10 ^ 11"] by simp
  then show "stable_float (1 / 2) = 1 / 2" using h by (simp add: stable_float_def is_double_def)
qed

lemma count_number:
  assumes "0 \<le> n" "n < 2 ^ 53"
  shows "number_value (JInt n) path 0 None = Inr (of_int n)" "fl (of_int n) = of_int n" "(of_int n :: rat) \<le> max_double"
proof -
  show f: "fl (of_int n) = of_int n" using is_double_of_int [of n] assms by (simp add: is_double_def)
  have "n \<le> (2 ^ 53 - 1) * 2 ^ 971" using assms by simp
  then show m: "(of_int n :: rat) \<le> max_double" unfolding max_double_def by (simp only: of_int_le_iff)
  show "number_value (JInt n) path 0 None = Inr (of_int n)"
    using assms f m by (simp add: number_value_def Let_def)
qed

lemma signal_counts:
  "length (filter (\<lambda>e. ev_signal e = SUPPORT) es) + length (filter (\<lambda>e. ev_signal e = CONTRADICT) es) = length es"
  by (induction es) (auto intro: signal.exhaust)

lemma ratio_probability:
  assumes "0 \<le> s" "0 \<le> k" "t = fl (s + k)" "t \<noteq> 0" "is_double s"
  shows "0 \<le> fl (s / t) \<and> fl (s / t) \<le> 1"
proof -
  have "0 \<le> t" using assms(1-3) fl_nonneg by simp
  then have t: "0 < t" using assms(4) by simp
  have "s \<le> t" unfolding assms(3) by (rule fl_ge) (use assms in simp_all)
  then show ?thesis using assms(1) t by (intro fl_in_unit) simp_all
qed

lemma BaselineDecision_init_Inr:
  assumes "text_ok c" "method \<in> baseline_methods"
    and "\<And>path. number_value sm path 0 None = Inr s0" "\<And>path. number_value km path 0 None = Inr k0"
      "\<And>path. number_value pr path 0 (Some 1) = Inr q0"
    and "stable_float s0 = s" "stable_float k0 = k" "stable_float q0 = q"
    and "0 \<le> n" "n \<le> max_event_count" "fl (s + k) = t" "t \<le> max_double" "n = 0 \<Longrightarrow> t = 0"
    and "if method = U ''majority_vote'' then s = of_int \<lfloor>s\<rfloor> \<and> k = of_int \<lfloor>k\<rfloor> \<and> \<lfloor>t\<rfloor> = n else t \<le> of_int n"
    and "q = (if t \<noteq> 0 then stable_float (fl (s / t)) else 1 / 2)"
  shows "BaselineDecision_init c method (baseline_outcome s k) sm km pr n
    = Inr \<lparr>bd_claim = c, bd_method = method, bd_outcome = baseline_outcome s k, bd_support = s, bd_contradict = k,
        bd_probability = q, bd_count = n\<rparr>"
  using assms(1,2,9,10,12-15)
  unfolding BaselineDecision_init_def
  by (simp only: text_value_id assms(3-8,11) rbind.simps Let_def require_True split: if_splits) (auto simp: require_def)

definition signal_count :: "signal \<Rightarrow> ustr \<Rightarrow> evidence_event list \<Rightarrow> int" where
  "signal_count s c es = int (length (filter (\<lambda>e. ev_claim e = c \<and> ev_signal e = s) es))"

lemma small_event_count:
  assumes "n < 2 ^ 53"
  shows "n \<le> max_event_count"
proof -
  have "(2 :: int) ^ 53 \<le> 10 ^ 53" by (rule power_mono) simp_all
  also have "\<dots> < 10 ^ 640" by (rule power_strict_increasing) simp_all
  finally have "(2 :: int) ^ 53 < 10 ^ 640" .
  then show ?thesis using assms unfolding max_event_count_def max_attribute_integer_def by linarith
qed

lemma majority_claim_Inr:
  assumes c: "text_ok c" and n: "length es < 2 ^ 53"
  defines "s \<equiv> signal_count SUPPORT c es" and "k \<equiv> signal_count CONTRADICT c es"
  shows "majority_claim es c = Inr \<lparr>bd_claim = c, bd_method = U ''majority_vote'', bd_outcome = baseline_outcome (of_int s) (of_int k),
      bd_support = of_int s, bd_contradict = of_int k,
      bd_probability = (if s + k \<noteq> 0 then stable_float (fl (of_int s / of_int (s + k))) else 1 / 2), bd_count = s + k\<rparr>"
proof -
  have sk: "s + k = int (length (filter (\<lambda>e. ev_claim e = c) es))"
    using signal_counts [of "filter (\<lambda>e. ev_claim e = c) es"] by (simp add: s_def k_def signal_count_def conj_commute)
  moreover have "length (filter (\<lambda>e. ev_claim e = c) es) < 2 ^ 53" using n length_filter_le le_less_trans by blast
  ultimately have b: "0 \<le> s" "0 \<le> k" "s + k < 2 ^ 53" by (simp_all add: s_def k_def signal_count_def)
  have small: "s < 2 ^ 53" "k < 2 ^ 53" using b by linarith+
  have total: "fl (of_int s + of_int k) = of_int (s + k)" "(of_int (s + k) :: rat) \<le> max_double"
    using count_number(2,3) [of "s + k"] b by simp_all
  have st: "stable_float (of_int s) = of_int s" "stable_float (of_int k) = of_int k"
    using stable_float_int b small by simp_all
  have count: "s + k \<le> max_event_count" using b(3) by (rule small_event_count)
  let ?q = "if s + k \<noteq> 0 then fl (of_int s / of_int (s + k)) else 1 / 2 :: rat"
  have q: "0 \<le> ?q \<and> ?q \<le> 1 \<and> is_double ?q"
  proof (cases "s + k = 0")
    case False
    then have "(0 :: rat) < of_int (s + k)" "(of_int s :: rat) \<le> of_int (s + k)" using b by simp_all
    then show ?thesis using False b(1) fl_in_unit [of "of_int s / of_int (s + k)"] by (simp add: is_double_fl)
  qed (simp add: half_double)
  have num: "number_value (JFloat (Fin ?q)) path 0 (Some 1) = Inr ?q" for path
    using q by (simp add: number_value_Fin number_ok_def)
  have fil: "int (length (filter (\<lambda>e. ev_signal e = SUPPORT) (filter (\<lambda>e. ev_claim e = c) es))) = s"
    "int (length (filter (\<lambda>e. ev_signal e = CONTRADICT) (filter (\<lambda>e. ev_claim e = c) es))) = k"
    by (simp_all add: s_def k_def signal_count_def conj_commute)
  have "stable_float ?q = (if s + k \<noteq> 0 then stable_float (fl (of_int s / of_int (s + k))) else 1 / 2)"
    by (simp add: half_double)
  note probability = this
  have "majority_claim es c = BaselineDecision_init c (U ''majority_vote'') (baseline_outcome (of_int s) (of_int k))
      (JInt s) (JInt k) (JFloat (Fin ?q)) (s + k)"
    unfolding majority_claim_def Let_def fil ..
  also have "\<dots> = Inr \<lparr>bd_claim = c, bd_method = U ''majority_vote'', bd_outcome = baseline_outcome (of_int s) (of_int k),
      bd_support = of_int s, bd_contradict = of_int k,
      bd_probability = (if s + k \<noteq> 0 then stable_float (fl (of_int s / of_int (s + k))) else 1 / 2), bd_count = s + k\<rparr>"
    by (rule BaselineDecision_init_Inr [OF c _ count_number(1) [OF b(1) small(1)] count_number(1) [OF b(2) small(2)] num
        st probability _ count total]) (use b in \<open>simp_all add: baseline_methods_def del: of_int_add\<close>)
  finally show ?thesis .
qed

text \<open>The exact sum does not depend on the order of the reports.\<close>

lemma weighted_mass_perm:
  assumes "mset xs = mset ys"
  shows "weighted_mass p s xs = weighted_mass p s ys"
proof -
  let ?f = "\<lambda>e. fl (ev_confidence e * reliability_for p (ev_source e))"
  have "mset (map ?f (filter (\<lambda>e. ev_signal e = s) xs)) = mset (map ?f (filter (\<lambda>e. ev_signal e = s) ys))"
    using assms by simp
  then have "sum_list (map ?f (filter (\<lambda>e. ev_signal e = s) xs)) = sum_list (map ?f (filter (\<lambda>e. ev_signal e = s) ys))"
    by (simp only: sum_mset_sum_list [symmetric])
  then show ?thesis by (simp add: weighted_mass_def)
qed

lemma weighted_mass_bounds:
  assumes p: "policy_ok p" and es: "\<forall>e \<in> set es. event_ok e" and n: "length es < 2 ^ 53"
  shows "0 \<le> weighted_mass p s es \<and> weighted_mass p s es \<le> of_int (int (length (filter (\<lambda>e. ev_signal e = s) es)))"
proof -
  let ?f = "\<lambda>e. fl (ev_confidence e * reliability_for p (ev_source e))" and ?xs = "filter (\<lambda>e. ev_signal e = s) es"
  have unit: "0 \<le> ?f e \<and> ?f e \<le> 1" if "e \<in> set es" for e
  proof -
    have "0 \<le> ev_confidence e" "ev_confidence e \<le> 1" using es that by (auto simp: event_ok_def)
    then show ?thesis using reliability_for_unit [OF p, of "ev_source e"] by (intro fl_in_unit) (simp_all add: mult_le_one)
  qed
  have "0 \<le> sum_list (map ?f xs) \<and> sum_list (map ?f xs) \<le> of_int (int (length xs))" if "set xs \<subseteq> set es" for xs
    using that
  proof (induction xs)
    case (Cons x xs)
    then have "0 \<le> sum_list (map ?f xs)" "sum_list (map ?f xs) \<le> of_int (int (length xs))" "0 \<le> ?f x" "?f x \<le> 1" using unit [of x] by simp_all
    then show ?case by simp
  qed simp
  then have sum: "0 \<le> sum_list (map ?f ?xs)" "sum_list (map ?f ?xs) \<le> of_int (int (length ?xs))" by auto
  have "length ?xs < 2 ^ 53" using n length_filter_le le_less_trans by blast
  then have "is_double (of_int (int (length ?xs)))" by (intro is_double_of_int) simp
  then show ?thesis using sum fl_nonneg fl_le unfolding weighted_mass_def by blast
qed

definition claim_mass :: "policy \<Rightarrow> signal \<Rightarrow> ustr \<Rightarrow> evidence_event list \<Rightarrow> rat" where
  "claim_mass p s c es = stable_float (weighted_mass p s (filter (\<lambda>e. ev_claim e = c) es))"

lemma claim_mass_bounds:
  assumes p: "policy_ok p" and es: "\<forall>e \<in> set es. event_ok e" and n: "length es < 2 ^ 53"
  shows "0 \<le> claim_mass p s c es \<and> claim_mass p s c es \<le> of_int (signal_count s c es)"
proof -
  let ?m = "filter (\<lambda>e. ev_claim e = c) es"
  have len: "length ?m < 2 ^ 53" using n length_filter_le le_less_trans by blast
  have cnt: "int (length (filter (\<lambda>e. ev_signal e = s) ?m)) = signal_count s c es" by (simp add: signal_count_def conj_commute)
  have b: "0 \<le> weighted_mass p s ?m" "weighted_mass p s ?m \<le> of_int (signal_count s c es)"
    using weighted_mass_bounds [OF p _ len, of s] es unfolding cnt by auto
  have "length (filter (\<lambda>e. ev_claim e = c \<and> ev_signal e = s) es) < 2 ^ 53" by (rule le_less_trans [OF length_filter_le n])
  then have "signal_count s c es < 2 ^ 53" by (simp add: signal_count_def)
  then have "stable_float (of_int (signal_count s c es)) = of_int (signal_count s c es)"
    by (intro stable_float_int) (simp add: signal_count_def)
  then show ?thesis using stable_float_nonneg [OF b(1)] stable_float_mono [OF b(2)] by (simp add: claim_mass_def)
qed

lemma weighted_claim_Inr:
  assumes c: "text_ok c" and p: "policy_ok p" and es: "\<forall>e \<in> set es. event_ok e" and n: "length es < 2 ^ 53"
  defines "s \<equiv> claim_mass p SUPPORT c es" and "k \<equiv> claim_mass p CONTRADICT c es"
  shows "weighted_claim p es c = Inr \<lparr>bd_claim = c, bd_method = U ''reliability_weighted_vote'', bd_outcome = baseline_outcome s k,
      bd_support = s, bd_contradict = k, bd_probability = (if fl (s + k) \<noteq> 0 then stable_float (fl (s / fl (s + k))) else 1 / 2),
      bd_count = signal_count SUPPORT c es + signal_count CONTRADICT c es\<rparr>"
proof -
  let ?m = "filter (\<lambda>e. ev_claim e = c) es" and ?n = "signal_count SUPPORT c es + signal_count CONTRADICT c es"
  have sk: "?n = int (length ?m)"
    using signal_counts [of ?m] by (simp add: signal_count_def conj_commute)
  have len: "length ?m < 2 ^ 53" using n length_filter_le le_less_trans by blast
  have b: "0 \<le> s" "s \<le> of_int (signal_count SUPPORT c es)" "0 \<le> k" "k \<le> of_int (signal_count CONTRADICT c es)"
    using claim_mass_bounds [OF p es n] by (simp_all add: s_def k_def)
  have dbl: "is_double s" "is_double k" by (simp_all add: s_def k_def claim_mass_def)
  have cn: "0 \<le> ?n" "?n < 2 ^ 53" using sk len by simp_all
  have "s + k \<le> of_int ?n" using b(2,4) by simp
  moreover have "is_double (of_int ?n)" using cn by (intro is_double_of_int) linarith
  ultimately have "fl (s + k) \<le> of_int ?n" by (rule fl_le)
  moreover have "0 \<le> fl (s + k)" by (rule fl_nonneg) (use b(1,3) in linarith)
  ultimately have t: "0 \<le> fl (s + k)" "fl (s + k) \<le> of_int ?n" by simp_all
  have count: "?n \<le> max_event_count" using cn(2) by (rule small_event_count)
  let ?q = "if fl (s + k) \<noteq> 0 then stable_float (fl (s / fl (s + k))) else 1 / 2 :: rat"
  have q: "0 \<le> ?q \<and> ?q \<le> 1 \<and> is_double ?q"
    using ratio_probability [OF b(1,3) refl _ dbl(1)] stable_float_in_unit [of "fl (s / fl (s + k))"] by (auto simp: half_double)
  have num: "number_value (JFloat (Fin ?q)) path 0 (Some 1) = Inr ?q" for path
    using q by (simp add: number_value_Fin number_ok_def)
  have twice: "stable_float s = s" "stable_float k = k" "stable_float ?q = ?q"
    using weighted_mass_bounds [OF p _ len] es ratio_probability [OF b(1,3) refl _ dbl(1)]
    by (auto simp: s_def k_def claim_mass_def stable_float_twice half_double)
  have mass: "weighted_mass p g (sort_key ev_id ?m) = weighted_mass p g ?m" for g by (rule weighted_mass_perm) simp
  have "weighted_claim p es c = BaselineDecision_init c (U ''reliability_weighted_vote'') (baseline_outcome s k)
      (JFloat (Fin s)) (JFloat (Fin k)) (JFloat (Fin ?q)) ?n"
    unfolding weighted_claim_def Let_def mass sk by (simp add: s_def k_def claim_mass_def)
  also have "\<dots> = Inr \<lparr>bd_claim = c, bd_method = U ''reliability_weighted_vote'', bd_outcome = baseline_outcome s k,
      bd_support = s, bd_contradict = k, bd_probability = ?q, bd_count = ?n\<rparr>"
  proof (rule BaselineDecision_init_Inr [OF c _ number_value_nonneg_double [OF b(1) dbl(1)] number_value_nonneg_double [OF b(3) dbl(2)]
        num twice cn(1) count refl])
    show "U ''reliability_weighted_vote'' \<in> baseline_methods" by (simp add: baseline_methods_def)
    show "fl (s + k) \<le> max_double" using t(2) count_number(3) [OF cn] by linarith
    show "?n = 0 \<Longrightarrow> fl (s + k) = 0" using t by simp
    show "if U ''reliability_weighted_vote'' = U ''majority_vote''
      then s = of_int \<lfloor>s\<rfloor> \<and> k = of_int \<lfloor>k\<rfloor> \<and> \<lfloor>fl (s + k)\<rfloor> = ?n else fl (s + k) \<le> of_int ?n"
      using t(2) by simp
  qed simp
  finally show ?thesis .
qed

text \<open>Both votes over a stream.\<close>

lemma visible_events_Inr:
  assumes "stream_ok p es as" "normalize_datetime as_of ''as_of'' = Inr t"
  shows "visible_events p es as_of = Inr (known_events t es)"
  using assms by (simp add: visible_events_def stream_ok_def known_events_def)

lemma votes_Inr:
  assumes ok: "stream_ok p es as" and t: "normalize_datetime as_of ''as_of'' = Inr t" and n: "length es < 2 ^ 53"
  shows "\<exists>ms ws. majority_vote p es as_of = Inr ms \<and> reliability_weighted_vote p es as_of = Inr ws
    \<and> map bd_claim ms = sort (map fst (claims p)) \<and> map bd_claim ws = sort (map fst (claims p))
    \<and> (\<forall>b \<in> set ms. bd_support b = of_int (signal_count SUPPORT (bd_claim b) (known_events t es))
        \<and> bd_contradict b = of_int (signal_count CONTRADICT (bd_claim b) (known_events t es))
        \<and> bd_outcome b = baseline_outcome (bd_support b) (bd_contradict b))
    \<and> (\<forall>b \<in> set ws. bd_support b = claim_mass p SUPPORT (bd_claim b) (known_events t es)
        \<and> bd_contradict b = claim_mass p CONTRADICT (bd_claim b) (known_events t es)
        \<and> bd_outcome b = baseline_outcome (bd_support b) (bd_contradict b)
        \<and> 0 \<le> bd_support b \<and> bd_support b \<le> of_int (signal_count SUPPORT (bd_claim b) (known_events t es))
        \<and> 0 \<le> bd_contradict b \<and> bd_contradict b \<le> of_int (signal_count CONTRADICT (bd_claim b) (known_events t es)))"
proof -
  let ?v = "known_events t es" and ?cs = "sort (map fst (claims p))"
  have len: "length ?v < 2 ^ 53" using n by (auto simp: known_events_def intro: le_less_trans [OF length_filter_le])
  have p: "policy_ok p" and v: "\<forall>e \<in> set ?v. event_ok e" and c: "\<forall>c \<in> set ?cs. text_ok c"
    using ok by (auto simp: stream_ok_def known_events_def policy_ok_def)
  let ?M = "\<lambda>c. projr (majority_claim ?v c)" and ?W = "\<lambda>c. projr (weighted_claim p ?v c)"
  have m: "majority_vote p es as_of = Inr (map ?M ?cs)"
  proof -
    have "rmap (majority_claim ?v) ?cs = Inr (map ?M ?cs)"
    proof (rule rmap_map_Inr)
      fix x assume "x \<in> set ?cs"
      then have "text_ok x" using c by blast
      then show "majority_claim ?v x = Inr (?M x)" using majority_claim_Inr [OF _ len] by simp
    qed
    then show ?thesis by (simp add: majority_vote_def visible_events_Inr [OF ok t])
  qed
  have w: "reliability_weighted_vote p es as_of = Inr (map ?W ?cs)"
  proof -
    have "rmap (weighted_claim p ?v) ?cs = Inr (map ?W ?cs)"
    proof (rule rmap_map_Inr)
      fix x assume "x \<in> set ?cs"
      then have "text_ok x" using c by blast
      then show "weighted_claim p ?v x = Inr (?W x)" using weighted_claim_Inr [OF _ p v len] by simp
    qed
    then show ?thesis by (simp add: reliability_weighted_vote_def visible_events_Inr [OF ok t])
  qed
  have mc: "\<forall>x \<in> set ?cs. bd_claim (?M x) = x" and wc: "\<forall>x \<in> set ?cs. bd_claim (?W x) = x"
    using majority_claim_Inr [OF _ len] weighted_claim_Inr [OF _ p v len] c by auto
  have "map bd_claim (map ?M ?cs) = ?cs" "map bd_claim (map ?W ?cs) = ?cs"
    unfolding map_map comp_def using mc wc by (intro map_idI; blast)+
  moreover have "bd_support (?M c) = of_int (signal_count SUPPORT c ?v) \<and> bd_contradict (?M c) = of_int (signal_count CONTRADICT c ?v)
      \<and> bd_outcome (?M c) = baseline_outcome (bd_support (?M c)) (bd_contradict (?M c)) \<and> bd_claim (?M c) = c" if "c \<in> set ?cs" for c
    using majority_claim_Inr [OF _ len, of c] c that by auto
  moreover have "bd_support (?W c) = claim_mass p SUPPORT c ?v \<and> bd_contradict (?W c) = claim_mass p CONTRADICT c ?v
      \<and> bd_outcome (?W c) = baseline_outcome (bd_support (?W c)) (bd_contradict (?W c)) \<and> bd_claim (?W c) = c" if "c \<in> set ?cs" for c
    using weighted_claim_Inr [OF _ p v len, of c] c that by auto
  ultimately show ?thesis using m w claim_mass_bounds [OF p v len] by (auto simp del: set_sort)
qed

end
