(* ===== verification/Checks.thy ===== *)
theory Checks
  imports Authority Json_Parser
begin

text \<open>
  Claim checks (checks.py): rules over retained JSON and bytes, plans that pin their inputs, and their evaluation under
  explicit budgets of work, JSON nodes and bytes. A budget is threaded through every step and an exhausted one raises
  \<open>CheckLimitError\<close>, never a verdict.
\<close>

subsection \<open>Bounds and scalars\<close>

definition check_engine_version :: string where
  "check_engine_version = ''retained-integer-scalars-v1''"

definition safe_integer_max :: int where
  "safe_integer_max = 2 ^ 53 - 1"

definition max_plan_bytes :: int where
  "max_plan_bytes = 256 * 1024"

definition max_check_rules :: nat where
  "max_check_rules = 256"

definition max_check_inputs :: nat where
  "max_check_inputs = 64"

definition max_check_depth :: nat where
  "max_check_depth = 32"

definition max_check_nodes :: int where
  "max_check_nodes = 500000"

definition max_check_work :: int where
  "max_check_work = 256 * 1024 * 1024"

definition max_output_bytes :: int where
  "max_output_bytes = 256 * 1024"

datatype check_operator = EXISTS | EQUALS | INTEGER_RANGE | SAME_VALUE | BYTES_EQUAL

datatype check_outcome = PASS | FAIL | UNKNOWN

datatype check_reason = PASSED | PREDICATE_FALSE | PATH_MISSING | TYPE_UNSUPPORTED

fun operator_value :: "check_operator \<Rightarrow> string" where
  "operator_value EXISTS = ''exists''" | "operator_value EQUALS = ''equals''"
| "operator_value INTEGER_RANGE = ''integer_range''" | "operator_value SAME_VALUE = ''same_value''"
| "operator_value BYTES_EQUAL = ''bytes_equal''"

fun check_outcome_value :: "check_outcome \<Rightarrow> string" where
  "check_outcome_value PASS = ''pass''" | "check_outcome_value FAIL = ''fail''" | "check_outcome_value UNKNOWN = ''unknown''"

fun check_reason_value :: "check_reason \<Rightarrow> string" where
  "check_reason_value PASSED = ''passed''" | "check_reason_value PREDICATE_FALSE = ''predicate_false''"
| "check_reason_value PATH_MISSING = ''path_missing''" | "check_reason_value TYPE_UNSUPPORTED = ''type_unsupported''"

definition operators_all :: "check_operator list" where
  "operators_all = [EXISTS, EQUALS, INTEGER_RANGE, SAME_VALUE, BYTES_EQUAL]"

definition check_outcomes_all :: "check_outcome list" where
  "check_outcomes_all = [PASS, FAIL, UNKNOWN]"

definition safe_int :: "int \<Rightarrow> bool" where
  "safe_int n \<longleftrightarrow> - safe_integer_max \<le> n \<and> n \<le> safe_integer_max"

fun check_scalar :: "json \<Rightarrow> bool" where
  "check_scalar JNull = True"
| "check_scalar (JBool b) = True"
| "check_scalar (JInt n) = safe_int n"
| "check_scalar (JStr s) = (length s \<le> 65536 \<and> is_xml_character s)"
| "check_scalar _ = False"

text \<open>A path into a document: the key of a member or the index of an item.\<close>

datatype path_part = Key ustr | Index int

definition path_part_value :: "json \<Rightarrow> path_part result" where
  "path_part_value v =
     (case v of
        JInt n \<Rightarrow> if 0 \<le> n \<and> n \<le> safe_integer_max then Inr (Index n)
          else Inl (ValidationError ''check path requires bounded string keys or nonnegative integer indices'')
      | JStr s \<Rightarrow> if length s \<le> 256 \<and> is_xml_character s then Inr (Key s)
          else Inl (ValidationError ''check path requires bounded string keys or nonnegative integer indices'')
      | _ \<Rightarrow> Inl (ValidationError ''check path requires bounded string keys or nonnegative integer indices''))"

definition path_value :: "json list option \<Rightarrow> path_part list result" where
  "path_value path =
     (case path of
        None \<Rightarrow> Inl (ValidationError ''check path must be an immutable bounded tuple'')
      | Some parts \<Rightarrow>
          rbind (require (length parts \<le> max_check_depth) ''check path must be an immutable bounded tuple'') (\<lambda>_.
          rmap path_part_value parts))"

fun path_part_json :: "path_part \<Rightarrow> json" where
  "path_part_json (Key s) = JStr s"
| "path_part_json (Index n) = JInt n"

definition check_wire :: "(ustr \<times> json) list \<Rightarrow> string \<Rightarrow> unit result" where
  "check_wire data kind =
     require (dget data ''kind'' = JText kind \<and> dget data ''schema_version'' = JText ''1.0'') ''unsupported check wire profile''"

subsection \<open>Rules\<close>

text \<open>\<open>None\<close> is the value that was not given: the sentinel for \<open>expected\<close>, Python's \<open>None\<close> for the others.\<close>

record check_rule =
  kr_id :: ustr
  kr_operator :: check_operator
  kr_artifact :: ustr
  kr_path :: "path_part list"
  kr_expected :: "json option"
  kr_minimum :: "int option"
  kr_maximum :: "int option"
  kr_other :: "ustr option"
  kr_other_path :: "path_part list option"

definition rule_expected :: "check_operator \<Rightarrow> json option \<Rightarrow> unit result" where
  "rule_expected operator expected =
     (if operator = EQUALS then
        require (case expected of
                   None \<Rightarrow> False
                 | Some v \<Rightarrow> check_scalar v \<and> (case v of JStr s \<Rightarrow> length s \<le> 4096 | _ \<Rightarrow> True))
          ''expected must be an explicit bounded integer-profile scalar''
      else require (expected = None) ''expected is only valid for equals'')"

definition rule_range :: "check_operator \<Rightarrow> json \<Rightarrow> json \<Rightarrow> (int option \<times> int option) result" where
  "rule_range operator minimum maximum =
     (if operator = INTEGER_RANGE then
        (case (minimum, maximum) of
           (JInt a, JInt b) \<Rightarrow>
             if - safe_integer_max \<le> a \<and> a \<le> b \<and> b \<le> safe_integer_max then Inr (Some a, Some b)
             else Inl (ValidationError ''integer range requires ordered safe integer endpoints'')
         | _ \<Rightarrow> Inl (ValidationError ''integer range requires ordered safe integer endpoints''))
      else if minimum \<noteq> JNull \<or> maximum \<noteq> JNull
      then Inl (ValidationError ''range endpoints are only valid for integer_range'')
      else Inr (None, None))"

definition rule_other ::
  "check_operator \<Rightarrow> json list \<Rightarrow> json \<Rightarrow> json list option \<Rightarrow> (ustr option \<times> path_part list option) result" where
  "rule_other operator path other other_path =
     (if operator = SAME_VALUE \<or> operator = BYTES_EQUAL then
        rbind (identifier_value other ''rule.other_artifact_id'') (\<lambda>i.
        if operator = SAME_VALUE then rbind (path_value other_path) (\<lambda>p. Inr (Some i, Some p))
        else if other_path \<noteq> None \<or> path \<noteq> [] then Inl (ValidationError ''byte equality cannot carry JSON paths'')
        else Inr (Some i, None))
      else if other \<noteq> JNull \<or> other_path \<noteq> None
      then Inl (ValidationError ''other input is only valid for cross-artifact equality'')
      else Inr (None, None))"

definition CheckRule_init ::
  "json \<Rightarrow> check_operator \<Rightarrow> json \<Rightarrow> json list \<Rightarrow> json option \<Rightarrow> json \<Rightarrow> json \<Rightarrow> json \<Rightarrow> json list option \<Rightarrow> check_rule result"
where
  "CheckRule_init rule_id operator artifact_id path expected minimum maximum other other_path =
     rbind (identifier_value rule_id ''rule.rule_id'') (\<lambda>i.
     rbind (identifier_value artifact_id ''rule.artifact_id'') (\<lambda>a.
     rbind (path_value (Some path)) (\<lambda>p.
     rbind (rule_expected operator expected) (\<lambda>_.
     rbind (rule_range operator minimum maximum) (\<lambda>(low, high).
     rbind (rule_other operator path other other_path) (\<lambda>(o_id, o_path).
     Inr \<lparr>kr_id = i, kr_operator = operator, kr_artifact = a, kr_path = p, kr_expected = expected,
          kr_minimum = low, kr_maximum = high, kr_other = o_id, kr_other_path = o_path\<rparr>))))))"

definition CheckRule_to_dict :: "check_rule \<Rightarrow> json" where
  "CheckRule_to_dict r = JObj
     ([(U ''rule_id'', JStr (kr_id r)), (U ''operator'', JText (operator_value (kr_operator r))),
       (U ''artifact_id'', JStr (kr_artifact r))]
      @ (if kr_operator r \<noteq> BYTES_EQUAL then [(U ''path'', JArr (map path_part_json (kr_path r)))] else [])
      @ (if kr_operator r = EQUALS then [(U ''expected'', case kr_expected r of None \<Rightarrow> JNull | Some v \<Rightarrow> v)] else [])
      @ (if kr_operator r = INTEGER_RANGE
         then [(U ''minimum'', case kr_minimum r of None \<Rightarrow> JNull | Some n \<Rightarrow> JInt n),
               (U ''maximum'', case kr_maximum r of None \<Rightarrow> JNull | Some n \<Rightarrow> JInt n)] else [])
      @ (case kr_other r of None \<Rightarrow> [] | Some i \<Rightarrow> [(U ''other_artifact_id'', JStr i)])
      @ (case kr_other_path r of None \<Rightarrow> [] | Some p \<Rightarrow> [(U ''other_path'', JArr (map path_part_json p))]))"

definition rule_fields :: "check_operator \<Rightarrow> string list" where
  "rule_fields operator =
     [''rule_id'', ''operator'', ''artifact_id''] @ (if operator \<noteq> BYTES_EQUAL then [''path''] else [])
     @ (case operator of
          EXISTS \<Rightarrow> [] | EQUALS \<Rightarrow> [''expected''] | INTEGER_RANGE \<Rightarrow> [''minimum'', ''maximum'']
        | SAME_VALUE \<Rightarrow> [''other_artifact_id'', ''other_path''] | BYTES_EQUAL \<Rightarrow> [''other_artifact_id''])"

text \<open>The optional members of a rule: absent, or an array that is made a tuple.\<close>

definition tuple_member :: "(ustr \<times> json) list \<Rightarrow> string \<Rightarrow> json list option result" where
  "tuple_member data name =
     (case map_of data (U name) of
        None \<Rightarrow> Inr None
      | Some v \<Rightarrow> rbind (array_value v name max_check_depth) (\<lambda>xs. Inr (Some xs)))"

definition CheckRule_from_dict :: "json \<Rightarrow> check_rule result" where
  "CheckRule_from_dict value =
     (case value of
        JObj kvs \<Rightarrow>
          (case map_of kvs (U ''operator'') of
             None \<Rightarrow> Inl (ValidationError ''rule must be a closed object'')
           | Some v \<Rightarrow>
               (case v of
                  JStr s \<Rightarrow>
                    (case member_of operator_value operators_all s of
                       None \<Rightarrow> Inl (ValidationError ''rule operator must be a known enum string'')
                     | Some operator \<Rightarrow>
                         rbind (exact_fields value (rule_fields operator) ''rule'') (\<lambda>data.
                         rbind (tuple_member data ''path'') (\<lambda>path.
                         rbind (tuple_member data ''other_path'') (\<lambda>other_path.
                         CheckRule_init (dget data ''rule_id'') operator (dget data ''artifact_id'')
                           (case path of None \<Rightarrow> [] | Some p \<Rightarrow> p) (map_of data (U ''expected'')) (dget data ''minimum'')
                           (dget data ''maximum'') (dget data ''other_artifact_id'') other_path))))
                | _ \<Rightarrow> Inl (ValidationError ''rule operator must be a known enum string'')))
      | _ \<Rightarrow> Inl (ValidationError ''rule must be a closed object''))"

subsection \<open>Limits\<close>

record check_limits =
  kl_inputs :: int
  kl_rules :: int
  kl_input_bytes :: int
  kl_total_bytes :: int
  kl_depth :: int
  kl_nodes :: int
  kl_work :: int
  kl_plan_bytes :: int
  kl_output_bytes :: int

definition CheckLimits_init ::
  "json \<Rightarrow> json \<Rightarrow> json \<Rightarrow> json \<Rightarrow> json \<Rightarrow> json \<Rightarrow> json \<Rightarrow> json \<Rightarrow> json \<Rightarrow> check_limits result" where
  "CheckLimits_init ins rules input_bytes overall depth nodes work plan output =
     rbind (integer_value ins ''max_inputs'' (int max_check_inputs) 1) (\<lambda>a.
     rbind (integer_value rules ''max_rules'' (int max_check_rules) 1) (\<lambda>b.
     rbind (integer_value input_bytes ''max_input_bytes'' (4 * 1024 * 1024) 1) (\<lambda>c.
     rbind (integer_value overall ''max_total_input_bytes'' (16 * 1024 * 1024) 1) (\<lambda>d.
     rbind (integer_value depth ''max_json_depth'' (int max_check_depth) 1) (\<lambda>e.
     rbind (integer_value nodes ''max_json_nodes'' max_check_nodes 1) (\<lambda>f.
     rbind (integer_value work ''max_work_units'' max_check_work 1) (\<lambda>g.
     rbind (integer_value plan ''max_plan_bytes'' max_plan_bytes 1) (\<lambda>h.
     rbind (integer_value output ''max_output_bytes'' max_output_bytes 1) (\<lambda>i.
     Inr \<lparr>kl_inputs = a, kl_rules = b, kl_input_bytes = c, kl_total_bytes = d, kl_depth = e, kl_nodes = f,
          kl_work = g, kl_plan_bytes = h, kl_output_bytes = i\<rparr>)))))))))"

definition default_check_limits :: check_limits where
  "default_check_limits = \<lparr>kl_inputs = 16, kl_rules = 64, kl_input_bytes = 1024 * 1024, kl_total_bytes = 4 * 1024 * 1024,
     kl_depth = 16, kl_nodes = 100000, kl_work = 32 * 1024 * 1024, kl_plan_bytes = 64 * 1024, kl_output_bytes = 64 * 1024\<rparr>"

definition check_limits_of :: "check_limits option \<Rightarrow> check_limits" where
  "check_limits_of value = (case value of None \<Rightarrow> default_check_limits | Some l \<Rightarrow> l)"

subsection \<open>Plans\<close>

record check_plan =
  kp_id :: ustr
  kp_workflow :: ustr
  kp_scope :: ustr
  kp_claim :: ustr
  kp_statement :: ustr
  kp_authority :: ustr
  kp_evidence :: ustr
  kp_inputs :: "artifact_reference list"
  kp_rules :: "check_rule list"

definition CheckPlan_to_dict :: "check_plan \<Rightarrow> json" where
  "CheckPlan_to_dict p = JObj
     [(U ''kind'', JText ''evidence-braid-check-plan''), (U ''schema_version'', JText ''1.0''),
      (U ''engine_version'', JText check_engine_version), (U ''plan_id'', JStr (kp_id p)),
      (U ''workflow_id'', JStr (kp_workflow p)), (U ''scope'', JStr (kp_scope p)), (U ''claim_id'', JStr (kp_claim p)),
      (U ''statement_digest'', JStr (kp_statement p)), (U ''authority_digest'', JStr (kp_authority p)),
      (U ''evidence_head'', JStr (kp_evidence p)),
      (U ''inputs'', JArr (map ArtifactReference_to_dict (kp_inputs p))),
      (U ''rules'', JArr (map CheckRule_to_dict (kp_rules p)))]"

definition CheckPlan_to_bytes :: "runtime \<Rightarrow> check_plan \<Rightarrow> bytes" where
  "CheckPlan_to_bytes rt p = canonical_bytes rt (CheckPlan_to_dict p)"

definition CheckPlan_digest :: "runtime \<Rightarrow> check_plan \<Rightarrow> ustr" where
  "CheckPlan_digest rt p = rt_sha256 rt (CheckPlan_to_bytes rt p)"

text \<open>The inputs that a rule reads.\<close>

definition rule_inputs :: "check_rule \<Rightarrow> ustr list" where
  "rule_inputs r = kr_artifact r # (case kr_other r of None \<Rightarrow> [] | Some i \<Rightarrow> [i])"

definition rule_input_declared :: "artifact_reference list \<Rightarrow> check_rule \<Rightarrow> ustr \<Rightarrow> unit result" where
  "rule_input_declared ins r i =
     (case map_of (map (\<lambda>a. (ar_id a, a)) ins) i of
        None \<Rightarrow> Inl (ValidationError ''rule refers to an undeclared input'')
      | Some a \<Rightarrow> require (kr_operator r = BYTES_EQUAL \<or> ar_media a = U ''application/json'')
          ''JSON rules require application/json input commitments'')"

definition CheckPlan_init ::
  "runtime \<Rightarrow> json \<Rightarrow> json \<Rightarrow> json \<Rightarrow> json \<Rightarrow> json \<Rightarrow> json \<Rightarrow> json \<Rightarrow> artifact_reference list \<Rightarrow> check_rule list \<Rightarrow> check_plan result"
where
  "CheckPlan_init rt plan_id workflow_id scope claim_id statement authority evidence ins rules =
     rbind (identifier_value plan_id ''plan_id'') (\<lambda>i.
     rbind (identifier_value workflow_id ''workflow_id'') (\<lambda>w.
     rbind (identifier_value scope ''scope'') (\<lambda>s.
     rbind (identifier_value claim_id ''claim_id'') (\<lambda>c.
     rbind (hash_value statement ''statement_digest'') (\<lambda>st.
     rbind (hash_value authority ''authority_digest'') (\<lambda>au.
     rbind (hash_value evidence ''evidence_head'') (\<lambda>ev.
     rbind (require (1 \<le> length ins \<and> length ins \<le> max_check_inputs)
              ''plan inputs require a nonempty bounded immutable reference tuple'') (\<lambda>_.
     rbind (require (distinct (map ar_id ins) \<and> list_all (\<lambda>a. ar_scope a = s \<and> ar_claim a = c) ins)
              ''plan input IDs must be unique and match its claim and scope'') (\<lambda>_.
     rbind (require (1 \<le> length rules \<and> length rules \<le> max_check_rules \<and> distinct (map kr_id rules))
              ''plan rules require a nonempty ordered tuple with unique rule IDs'') (\<lambda>_.
     rbind (rmap (\<lambda>r. rmap (rule_input_declared ins r) (rule_inputs r)) rules) (\<lambda>_.
     rbind (require (set (concat (map rule_inputs rules)) = set (map ar_id ins))
              ''every declared input must participate in a rule'') (\<lambda>_.
     let p = \<lparr>kp_id = i, kp_workflow = w, kp_scope = s, kp_claim = c, kp_statement = st, kp_authority = au,
              kp_evidence = ev, kp_inputs = sort_key ar_id ins, kp_rules = rules\<rparr>
     in if int (length (CheckPlan_to_bytes rt p)) > max_plan_bytes
        then Inl (CheckLimitError ''plan exceeds the compiled byte bound'') else Inr p))))))))))))"

definition check_plan_fields :: "string list" where
  "check_plan_fields = [''kind'', ''schema_version'', ''engine_version'', ''plan_id'', ''workflow_id'', ''scope'', ''claim_id'',
     ''statement_digest'', ''authority_digest'', ''evidence_head'', ''inputs'', ''rules'']"

fun is_object :: "json \<Rightarrow> bool" where
  "is_object (JObj kvs) = True"
| "is_object _ = False"

definition CheckPlan_from_dict :: "runtime \<Rightarrow> json \<Rightarrow> check_plan result" where
  "CheckPlan_from_dict rt value =
     rbind (require (is_object value) ''plan must be a plain closed object'') (\<lambda>_.
     rbind (exact_fields value check_plan_fields ''plan'') (\<lambda>data.
     rbind (check_wire data ''evidence-braid-check-plan'') (\<lambda>_.
     rbind (require (dget data ''engine_version'' = JText check_engine_version) ''unsupported check engine version'') (\<lambda>_.
     rbind (array_value (dget data ''inputs'') ''inputs'' max_check_inputs) (\<lambda>ins.
     rbind (require (list_all is_object ins) ''plan input commitments must be plain closed objects'') (\<lambda>_.
     rbind (rmap ArtifactReference_from_dict ins) (\<lambda>references.
     rbind (array_value (dget data ''rules'') ''rules'' max_check_rules) (\<lambda>xs.
     rbind (rmap CheckRule_from_dict xs) (\<lambda>rules.
     CheckPlan_init rt (dget data ''plan_id'') (dget data ''workflow_id'') (dget data ''scope'') (dget data ''claim_id'')
       (dget data ''statement_digest'') (dget data ''authority_digest'') (dget data ''evidence_head'') references rules)))))))))"

subsection \<open>Results\<close>

record check_result =
  ks_rule :: ustr
  ks_outcome :: check_outcome
  ks_reason :: check_reason

fun reason_outcome :: "check_reason \<Rightarrow> check_outcome" where
  "reason_outcome PASSED = PASS" | "reason_outcome PREDICATE_FALSE = FAIL" | "reason_outcome PATH_MISSING = UNKNOWN"
| "reason_outcome TYPE_UNSUPPORTED = UNKNOWN"

definition CheckResult_init :: "json \<Rightarrow> check_outcome \<Rightarrow> check_reason \<Rightarrow> check_result result" where
  "CheckResult_init rule_id outcome reason =
     rbind (identifier_value rule_id ''result.rule_id'') (\<lambda>i.
     rbind (require (outcome = reason_outcome reason) ''result outcome contradicts its reason'') (\<lambda>_.
     Inr \<lparr>ks_rule = i, ks_outcome = outcome, ks_reason = reason\<rparr>))"

definition CheckResult_to_dict :: "check_result \<Rightarrow> json" where
  "CheckResult_to_dict r = JObj
     [(U ''rule_id'', JStr (ks_rule r)), (U ''outcome'', JText (check_outcome_value (ks_outcome r))),
      (U ''reason'', JText (check_reason_value (ks_reason r)))]"

record check_evaluation =
  ke_plan :: ustr
  ke_results :: "check_result list"

definition CheckEvaluation_init :: "json \<Rightarrow> check_result list \<Rightarrow> check_evaluation result" where
  "CheckEvaluation_init plan_digest results =
     rbind (hash_value plan_digest ''evaluation.plan_digest'') (\<lambda>h.
     rbind (require (1 \<le> length results \<and> length results \<le> max_check_rules \<and> distinct (map ks_rule results))
              ''evaluation requires nonempty immutable unique rule results'') (\<lambda>_.
     Inr \<lparr>ke_plan = h, ke_results = results\<rparr>))"

definition evaluation_outcome :: "check_evaluation \<Rightarrow> check_outcome" where
  "evaluation_outcome e =
     (if list_ex (\<lambda>r. ks_outcome r = FAIL) (ke_results e) then FAIL
      else if list_ex (\<lambda>r. ks_outcome r = UNKNOWN) (ke_results e) then UNKNOWN
      else PASS)"

definition CheckEvaluation_to_dict :: "check_evaluation \<Rightarrow> json" where
  "CheckEvaluation_to_dict e = JObj
     [(U ''kind'', JText ''evidence-braid-check-evaluation''), (U ''schema_version'', JText ''1.0''),
      (U ''engine_version'', JText check_engine_version), (U ''plan_digest'', JStr (ke_plan e)),
      (U ''outcome'', JText (check_outcome_value (evaluation_outcome e))),
      (U ''counts'', JObj (map (\<lambda>s. (U (check_outcome_value s), JInt (int (length (filter (\<lambda>r. ks_outcome r = s) (ke_results e))))))
         check_outcomes_all)),
      (U ''results'', JArr (map CheckResult_to_dict (ke_results e)))]"

definition CheckEvaluation_to_bytes :: "runtime \<Rightarrow> check_evaluation \<Rightarrow> bytes" where
  "CheckEvaluation_to_bytes rt e = canonical_bytes rt (CheckEvaluation_to_dict e)"

definition CheckEvaluation_digest :: "runtime \<Rightarrow> check_evaluation \<Rightarrow> ustr" where
  "CheckEvaluation_digest rt e = rt_sha256 rt (CheckEvaluation_to_bytes rt e)"

subsection \<open>Budgets and documents\<close>

record check_budget =
  kb_limits :: check_limits
  kb_used :: int
  kb_nodes :: int

definition fresh_budget :: "check_limits \<Rightarrow> check_budget" where
  "fresh_budget l = \<lparr>kb_limits = l, kb_used = 0, kb_nodes = 0\<rparr>"

definition charge :: "int \<Rightarrow> check_budget \<Rightarrow> check_budget result" where
  "charge n b =
     (if n > kl_work (kb_limits b) - kb_used b then Inl (CheckLimitError ''check work budget exhausted'')
      else Inr (b\<lparr>kb_used := kb_used b + n\<rparr>))"

text \<open>The hooks of the parser: short safe integers and no floats.\<close>

definition safe_integer :: "ustr \<Rightarrow> json result" where
  "safe_integer s =
     (if length s > 17 then Inl (ValueError ''integer token exceeds the check profile'')
      else rbind (int_value s) (\<lambda>v.
        case v of JInt n \<Rightarrow> if \<bar>n\<bar> > safe_integer_max then Inl (ValueError ''integer exceeds the check profile'') else Inr v
        | _ \<Rightarrow> Inr v))"

definition no_float :: "ustr \<Rightarrow> json result" where
  "no_float s = Inl (ValueError ''the check profile accepts lexical integers, not floating-point numbers'')"

definition check_hooks :: hooks where
  "check_hooks = \<lparr>hk_int = safe_integer, hk_float = no_float\<rparr>"

text \<open>The lexical scan of the nesting: the depth, and whether the byte stands in a string and after a backslash.\<close>

definition lexical_step :: "int \<Rightarrow> int \<times> bool \<times> bool \<Rightarrow> nat \<Rightarrow> (int \<times> bool \<times> bool) result" where
  "lexical_step max_depth st byte =
     (let (depth, quoted, escaped) = st in
      if quoted then
        (if escaped then Inr (depth, quoted, False)
         else if byte = 92 then Inr (depth, quoted, True)
         else if byte = 34 then Inr (depth, False, escaped)
         else Inr st)
      else if byte = 34 then Inr (depth, True, escaped)
      else if byte = 91 \<or> byte = 123 then
        (if depth + 1 > max_depth then Inl (CheckLimitError ''check JSON nesting exceeds its bound'')
         else Inr (depth + 1, quoted, escaped))
      else if byte = 93 \<or> byte = 125 then Inr (depth - 1, quoted, escaped)
      else Inr st)"

text \<open>The walk over the parsed value; the stack is held with its top first.\<close>

definition count_node :: "check_budget \<Rightarrow> check_budget result" where
  "count_node b =
     rbind (charge 1 b) (\<lambda>b.
     let b = b\<lparr>kb_nodes := kb_nodes b + 1\<rparr> in
     if kb_nodes b > kl_nodes (kb_limits b) then Inl (CheckLimitError ''shared check JSON node budget exhausted'') else Inr b)"

definition check_key :: "ustr \<Rightarrow> bool" where
  "check_key k \<longleftrightarrow> length k \<le> 65536 \<and> is_xml_character k"

lemma stack_sizes:
  "size_list size (rev xs) = size_list size (xs :: json list)"
  "size_list (size \<circ> snd) kvs \<le> size_list (size_prod (\<lambda>_. 0) size) (kvs :: (ustr \<times> json) list)"
  by (induction xs) (auto simp: size_list_append, induction kvs, auto simp: size_list_append)

function walk_document :: "check_budget \<Rightarrow> json list \<Rightarrow> check_budget result" where
  "walk_document b [] = Inr b"
| "walk_document b (v # stack) =
     rbind (count_node b) (\<lambda>b.
     case v of
       JObj kvs \<Rightarrow>
         if list_all (\<lambda>kv. check_key (fst kv)) kvs then walk_document b (rev (map snd kvs) @ stack)
         else Inl (InputFormatError ''JSON key is outside the check text profile'')
     | JArr xs \<Rightarrow> walk_document b (rev xs @ stack)
     | _ \<Rightarrow> if check_scalar v then walk_document b stack
         else Inl (InputFormatError ''JSON scalar is outside the check profile''))"
  by pat_completeness auto
termination
  by (relation "measure (\<lambda>(b, stack). size_list size stack)")
    (auto simp: stack_sizes(1) less_Suc_eq_le intro: le_SucI stack_sizes(2))

definition parse_document :: "nat \<Rightarrow> bytes \<Rightarrow> json result" where
  "parse_document recursion raw =
     (case rbind (decode raw) (json_loads check_hooks recursion) of
        Inl _ \<Rightarrow> Inl (InputFormatError ''invalid JSON for the retained integer/scalar check profile'')
      | Inr v \<Rightarrow> Inr v)"

definition check_document :: "nat \<Rightarrow> bytes \<Rightarrow> check_budget \<Rightarrow> int \<Rightarrow> (json \<times> check_budget) result" where
  "check_document recursion raw b maximum =
     (if int (length raw) > maximum
      then Inl (CheckLimitError ''check document exceeds its byte bound or is not immutable bytes'')
      else
        rbind (charge (int (length raw)) b) (\<lambda>b.
        rbind (rfold (lexical_step (kl_depth (kb_limits b))) (0, False, False) raw) (\<lambda>_.
        rbind (parse_document recursion raw) (\<lambda>v.
        rbind (walk_document b [v]) (\<lambda>b. Inr (v, b))))))"

subsection \<open>Evaluation\<close>

text \<open>The retained bytes by identifier, copied with their sizes checked.\<close>

definition snapshot_item ::
  "check_limits \<Rightarrow> int \<Rightarrow> int \<times> (ustr \<times> bytes) list \<Rightarrow> ustr \<times> bytes \<Rightarrow> (int \<times> (ustr \<times> bytes) list) result" where
  "snapshot_item l extra acc entry =
     (let (used, copied) = acc; (i, raw) = entry in
      if int (length copied) \<ge> kl_inputs l + extra then Inl (CheckLimitError ''retained input count exceeds its bound'')
      else
        rbind (identifier_value (JStr i) ''retained artifact ID'') (\<lambda>_.
        let used = used + int (length raw) in
        if int (length raw) > kl_input_bytes l \<or> used > kl_total_bytes l
        then Inl (CheckLimitError ''retained input byte budget exceeded'')
        else Inr (used, copied @ [(i, raw)])))"

definition check_snapshot :: "(ustr \<times> bytes) list \<Rightarrow> check_limits \<Rightarrow> int \<Rightarrow> (ustr \<times> bytes) list result" where
  "check_snapshot contents l extra =
     rbind (require (int (length contents) \<le> kl_inputs l + extra) ''retained contents require a bounded plain dict'') (\<lambda>_.
     rbind (rfold (snapshot_item l extra) (0, []) contents) (\<lambda>(_, copied). Inr copied))"

text \<open>
  One step of a path, and the whole path; \<open>None\<close> is the sentinel for absence. The indices of accepted rules are not
  negative.
\<close>

definition path_step :: "json \<Rightarrow> path_part \<Rightarrow> json option" where
  "path_step v part =
     (case (part, v) of
        (Key k, JObj kvs) \<Rightarrow> map_of kvs k
      | (Index n, JArr xs) \<Rightarrow> if n < int (length xs) then Some (xs ! nat n) else None
      | _ \<Rightarrow> None)"

fun part_cost :: "path_part \<Rightarrow> int" where
  "part_cost (Key k) = 1 + int (length k)"
| "part_cost (Index n) = 1"

fun value_at :: "json \<Rightarrow> path_part list \<Rightarrow> check_budget \<Rightarrow> (json option \<times> check_budget) result" where
  "value_at v [] b = Inr (Some v, b)"
| "value_at v (part # path) b =
     rbind (charge (part_cost part) b) (\<lambda>b.
     case path_step v part of None \<Rightarrow> Inr (None, b) | Some w \<Rightarrow> value_at w path b)"

fun scalar_cost :: "json \<Rightarrow> int" where
  "scalar_cost (JStr s) = int (length s)"
| "scalar_cost _ = 0"

text \<open>Equality of two scalars, which agree in their types when they are equal JSON values.\<close>

definition equal_scalars :: "json \<Rightarrow> json \<Rightarrow> check_budget \<Rightarrow> (bool \<times> check_budget) result" where
  "equal_scalars x y b = rbind (charge (1 + scalar_cost x + scalar_cost y) b) (\<lambda>b. Inr (x = y, b))"

definition lookup_item :: "(ustr \<times> 'a) list \<Rightarrow> ustr \<Rightarrow> 'a result" where
  "lookup_item kvs k = (case map_of kvs k of None \<Rightarrow> Inl (RuntimeError ''KeyError'') | Some v \<Rightarrow> Inr v)"

definition other_id :: "check_rule \<Rightarrow> ustr" where
  "other_id r = (case kr_other r of None \<Rightarrow> U ''None'' | Some i \<Rightarrow> i)"

definition rule_result :: "check_rule \<Rightarrow> check_outcome \<Rightarrow> check_reason \<Rightarrow> check_budget \<Rightarrow> (check_result \<times> check_budget) result" where
  "rule_result r outcome reason b = rbind (CheckResult_init (JStr (kr_id r)) outcome reason) (\<lambda>x. Inr (x, b))"

definition passed_result :: "check_rule \<Rightarrow> bool \<Rightarrow> check_budget \<Rightarrow> (check_result \<times> check_budget) result" where
  "passed_result r passed b =
     rule_result r (if passed then PASS else FAIL) (if passed then PASSED else PREDICATE_FALSE) b"

definition bytes_rule :: "check_rule \<Rightarrow> (ustr \<times> bytes) list \<Rightarrow> check_budget \<Rightarrow> (check_result \<times> check_budget) result" where
  "bytes_rule r raw b =
     rbind (lookup_item raw (kr_artifact r)) (\<lambda>left.
     rbind (lookup_item raw (other_id r)) (\<lambda>right.
     rbind (charge (int (length left) + int (length right)) b) (\<lambda>b. passed_result r (left = right) b)))"

text \<open>The value a rule compares with: that of the other path, or the expected one.\<close>

definition other_value :: "check_rule \<Rightarrow> (ustr \<times> json) list \<Rightarrow> check_budget \<Rightarrow> (json option \<times> check_budget) result" where
  "other_value r parsed b =
     (if kr_operator r = SAME_VALUE then
        rbind (lookup_item parsed (other_id r)) (\<lambda>v.
        value_at v (case kr_other_path r of None \<Rightarrow> [] | Some p \<Rightarrow> p) b)
      else Inr (kr_expected r, b))"

definition optional_scalar :: "json option \<Rightarrow> bool" where
  "optional_scalar x = (case x of None \<Rightarrow> False | Some v \<Rightarrow> check_scalar v)"

definition compare_values ::
  "check_rule \<Rightarrow> json option \<Rightarrow> json option \<Rightarrow> check_budget \<Rightarrow> (check_result \<times> check_budget) result" where
  "compare_values r x y b =
     (if x = None \<or> kr_operator r = SAME_VALUE \<and> y = None then rule_result r UNKNOWN PATH_MISSING b
      else if \<not> optional_scalar x \<or> kr_operator r = SAME_VALUE \<and> \<not> optional_scalar y
      then rule_result r UNKNOWN TYPE_UNSUPPORTED b
      else if kr_operator r = INTEGER_RANGE then
        (case x of
           Some (JInt n) \<Rightarrow>
             rbind (charge 2 b) (\<lambda>b.
             case (kr_minimum r, kr_maximum r) of
               (Some low, Some high) \<Rightarrow> passed_result r (low \<le> n \<and> n \<le> high) b
             | _ \<Rightarrow> Inl (RuntimeError ''TypeError''))
         | _ \<Rightarrow> rule_result r UNKNOWN TYPE_UNSUPPORTED b)
      else
        (case (x, y) of
           (Some v, Some w) \<Rightarrow> rbind (equal_scalars v w b) (\<lambda>(passed, b). passed_result r passed b)
         | (Some v, None) \<Rightarrow> rbind (charge (1 + scalar_cost v) b) (\<lambda>b. passed_result r False b)
         | _ \<Rightarrow> rule_result r UNKNOWN PATH_MISSING b))"

definition json_rule :: "check_rule \<Rightarrow> (ustr \<times> json) list \<Rightarrow> check_budget \<Rightarrow> (check_result \<times> check_budget) result" where
  "json_rule r parsed b =
     rbind (lookup_item parsed (kr_artifact r)) (\<lambda>v.
     rbind (value_at v (kr_path r) b) (\<lambda>(x, b).
     if kr_operator r = EXISTS then passed_result r (x \<noteq> None) b
     else rbind (other_value r parsed b) (\<lambda>(y, b). compare_values r x y b)))"

definition check_rule_step ::
  "check_rule \<Rightarrow> (ustr \<times> json) list \<Rightarrow> (ustr \<times> bytes) list \<Rightarrow> check_budget \<Rightarrow> (check_result \<times> check_budget) result" where
  "check_rule_step r parsed raw b =
     rbind (charge 1 b) (\<lambda>b. if kr_operator r = BYTES_EQUAL then bytes_rule r raw b else json_rule r parsed b)"

text \<open>The loops of the evaluation: commitments, documents in the order of their identifiers, rules in order.\<close>

definition match_input ::
  "runtime \<Rightarrow> (ustr \<times> bytes) list \<Rightarrow> check_budget \<Rightarrow> artifact_reference \<Rightarrow> check_budget result" where
  "match_input rt retained b a =
     rbind (lookup_item retained (ar_id a)) (\<lambda>raw.
     rbind (charge (int (length raw)) b) (\<lambda>b.
     rbind (require (ArtifactReference_matches rt a raw) ''retained artifact content differs from its plan commitment'') (\<lambda>_.
     Inr b)))"

definition json_inputs :: "check_plan \<Rightarrow> ustr list" where
  "json_inputs p = sorted_set (concat (map rule_inputs (filter (\<lambda>r. kr_operator r \<noteq> BYTES_EQUAL) (kp_rules p))))"

definition parse_input ::
  "nat \<Rightarrow> (ustr \<times> bytes) list \<Rightarrow> (ustr \<times> json) list \<times> check_budget \<Rightarrow> ustr \<Rightarrow> ((ustr \<times> json) list \<times> check_budget) result" where
  "parse_input recursion retained acc i =
     (let (docs, b) = acc in
      rbind (lookup_item retained i) (\<lambda>raw.
      rbind (check_document recursion raw b (kl_input_bytes (kb_limits b))) (\<lambda>(v, b). Inr (docs @ [(i, v)], b))))"

definition run_rule ::
  "(ustr \<times> json) list \<Rightarrow> (ustr \<times> bytes) list \<Rightarrow> check_result list \<times> check_budget \<Rightarrow> check_rule
     \<Rightarrow> (check_result list \<times> check_budget) result" where
  "run_rule parsed retained acc r =
     (let (results, b) = acc in
      rbind (check_rule_step r parsed retained b) (\<lambda>(x, b). Inr (results @ [x], b)))"

definition finish_evaluation ::
  "runtime \<Rightarrow> check_plan \<Rightarrow> check_result list \<Rightarrow> check_budget \<Rightarrow> (check_evaluation \<times> check_budget) result" where
  "finish_evaluation rt p results b =
     rbind (CheckEvaluation_init (JStr (rt_sha256 rt (CheckPlan_to_bytes rt p))) results) (\<lambda>e.
     let output = CheckEvaluation_to_bytes rt e in
     if int (length output) > kl_output_bytes (kb_limits b)
     then Inl (CheckLimitError ''check result exceeds the configured output bound'')
     else rbind (charge (int (length output)) b) (\<lambda>b. Inr (e, b)))"

definition evaluate_plan ::
  "runtime \<Rightarrow> nat \<Rightarrow> check_plan \<Rightarrow> (ustr \<times> bytes) list \<Rightarrow> check_budget \<Rightarrow> (check_evaluation \<times> check_budget) result" where
  "evaluate_plan rt recursion p retained b =
     (let l = kb_limits b; encoded = CheckPlan_to_bytes rt p in
      if int (length encoded) > kl_plan_bytes l \<or> int (length (kp_rules p)) > kl_rules l \<or> int (length (kp_inputs p)) > kl_inputs l
      then Inl (CheckLimitError ''plan exceeds the configured admission bound'')
      else
        rbind (charge (int (length encoded)) b) (\<lambda>b.
        rbind (require (set (map fst retained) = set (map ar_id (kp_inputs p)))
                 ''retained input inventory must exactly match the plan'') (\<lambda>_.
        rbind (rfold (match_input rt retained) b (kp_inputs p)) (\<lambda>b.
        rbind (rfold (parse_input recursion retained) ([], b) (json_inputs p)) (\<lambda>(parsed, b).
        rbind (rfold (run_rule parsed retained) ([], b) (kp_rules p)) (\<lambda>(results, b).
        finish_evaluation rt p results b))))))"

definition evaluate_checks ::
  "runtime \<Rightarrow> nat \<Rightarrow> check_plan \<Rightarrow> (ustr \<times> bytes) list \<Rightarrow> check_limits option \<Rightarrow> check_evaluation result" where
  "evaluate_checks rt recursion p contents limits =
     (let bounds = check_limits_of limits in
      rbind (check_snapshot contents bounds 0) (\<lambda>retained.
      rbind (evaluate_plan rt recursion p retained (fresh_budget bounds)) (\<lambda>(e, b). Inr e)))"

definition parse_check_plan :: "runtime \<Rightarrow> nat \<Rightarrow> bytes \<Rightarrow> check_limits option \<Rightarrow> check_plan result" where
  "parse_check_plan rt recursion raw limits =
     (let bounds = check_limits_of limits in
      rbind (check_document recursion raw (fresh_budget bounds) (kl_plan_bytes bounds)) (\<lambda>(v, b).
      rbind (CheckPlan_from_dict rt v) (\<lambda>p.
      if int (length (kp_inputs p)) > kl_inputs bounds \<or> int (length (kp_rules p)) > kl_rules bounds
      then Inl (CheckLimitError ''parsed plan exceeds the configured count bounds'')
      else
        let encoded = CheckPlan_to_bytes rt p in
        rbind (charge (int (length encoded) + int (length raw)) b) (\<lambda>b.
        if encoded \<noteq> raw then Inl (InputFormatError ''check plans require their exact canonical bytes'') else Inr p))))"

end
