(* ===== verification/Check_Gate.thy ===== *)
theory Check_Gate
  imports Checks Workflow_Chain
begin

text \<open>
  The semantic gate over a workflow (check_workflow.py): a policy that pins one claim and one plan, the result record, and
  \<open>verify_claim_checks\<close>, which replays the workflow, checks every retained byte against its commitment and recomputes the
  evaluation.
\<close>

subsection \<open>Policies\<close>

record check_policy =
  kq_id :: ustr
  kq_workflow :: ustr
  kq_scope :: ustr
  kq_claim :: ustr
  kq_authority :: ustr
  kq_plan_artifact :: ustr
  kq_plan :: ustr
  kq_evaluation_artifact :: ustr

definition CheckPolicy_init ::
  "json \<Rightarrow> json \<Rightarrow> json \<Rightarrow> json \<Rightarrow> json \<Rightarrow> json \<Rightarrow> json \<Rightarrow> json \<Rightarrow> check_policy result" where
  "CheckPolicy_init policy_id workflow_id scope claim_id authority plan_artifact plan evaluation_artifact =
     rbind (identifier_value policy_id ''policy_id'') (\<lambda>i.
     rbind (identifier_value workflow_id ''workflow_id'') (\<lambda>w.
     rbind (identifier_value scope ''scope'') (\<lambda>s.
     rbind (identifier_value claim_id ''claim_id'') (\<lambda>c.
     rbind (identifier_value plan_artifact ''plan_artifact_id'') (\<lambda>p.
     rbind (identifier_value evaluation_artifact ''evaluation_artifact_id'') (\<lambda>e.
     rbind (hash_value authority ''policy.authority_digest'') (\<lambda>a.
     rbind (hash_value plan ''policy.plan_digest'') (\<lambda>d.
     rbind (require (p \<noteq> e) ''plan and evaluation artifact IDs must be distinct'') (\<lambda>_.
     Inr \<lparr>kq_id = i, kq_workflow = w, kq_scope = s, kq_claim = c, kq_authority = a, kq_plan_artifact = p, kq_plan = d,
          kq_evaluation_artifact = e\<rparr>)))))))))"

definition CheckPolicy_to_dict :: "check_policy \<Rightarrow> json" where
  "CheckPolicy_to_dict p = JObj
     [(U ''kind'', JText ''evidence-braid-check-policy''), (U ''schema_version'', JText ''1.0''),
      (U ''policy_id'', JStr (kq_id p)), (U ''workflow_id'', JStr (kq_workflow p)), (U ''scope'', JStr (kq_scope p)),
      (U ''claim_id'', JStr (kq_claim p)), (U ''authority_digest'', JStr (kq_authority p)),
      (U ''plan_artifact_id'', JStr (kq_plan_artifact p)), (U ''plan_digest'', JStr (kq_plan p)),
      (U ''evaluation_artifact_id'', JStr (kq_evaluation_artifact p))]"

definition CheckPolicy_to_bytes :: "runtime \<Rightarrow> check_policy \<Rightarrow> bytes" where
  "CheckPolicy_to_bytes rt p = canonical_bytes rt (CheckPolicy_to_dict p)"

definition CheckPolicy_digest :: "runtime \<Rightarrow> check_policy \<Rightarrow> ustr" where
  "CheckPolicy_digest rt p = rt_sha256 rt (CheckPolicy_to_bytes rt p)"

definition check_policy_fields :: "string list" where
  "check_policy_fields = [''policy_id'', ''workflow_id'', ''scope'', ''claim_id'', ''authority_digest'', ''plan_artifact_id'',
     ''plan_digest'', ''evaluation_artifact_id'']"

definition CheckPolicy_from_dict :: "json \<Rightarrow> check_policy result" where
  "CheckPolicy_from_dict value =
     rbind (require (is_object value) ''check policy must be a plain closed object'') (\<lambda>_.
     rbind (exact_fields value (check_policy_fields @ [''kind'', ''schema_version'']) ''check policy'') (\<lambda>data.
     rbind (check_wire data ''evidence-braid-check-policy'') (\<lambda>_.
     CheckPolicy_init (dget data ''policy_id'') (dget data ''workflow_id'') (dget data ''scope'') (dget data ''claim_id'')
       (dget data ''authority_digest'') (dget data ''plan_artifact_id'') (dget data ''plan_digest'')
       (dget data ''evaluation_artifact_id''))))"

definition parse_check_policy :: "runtime \<Rightarrow> nat \<Rightarrow> bytes \<Rightarrow> check_limits option \<Rightarrow> check_policy result" where
  "parse_check_policy rt recursion raw limits =
     (let bounds = check_limits_of limits in
      rbind (check_document recursion raw (fresh_budget bounds) 4096) (\<lambda>(v, b).
      rbind (CheckPolicy_from_dict v) (\<lambda>p.
      let encoded = CheckPolicy_to_bytes rt p in
      rbind (charge (int (length encoded) + int (length raw)) b) (\<lambda>b.
      if encoded \<noteq> raw then Inl (InputFormatError ''check policies require their exact canonical bytes'') else Inr p))))"

subsection \<open>Checked claims\<close>

record checked_claim =
  kc_workflow :: ustr
  kc_scope :: ustr
  kc_claim :: ustr
  kc_head :: ustr
  kc_evidence :: ustr
  kc_authority :: ustr
  kc_policy :: ustr
  kc_plan :: ustr
  kc_status :: claim_status
  kc_evaluation :: check_evaluation

definition CheckedClaim_init ::
  "json \<Rightarrow> json \<Rightarrow> json \<Rightarrow> json \<Rightarrow> json \<Rightarrow> json \<Rightarrow> json \<Rightarrow> json \<Rightarrow> claim_status \<Rightarrow> check_evaluation \<Rightarrow> checked_claim result" where
  "CheckedClaim_init workflow_id scope claim_id head evidence authority policy plan status evaluation =
     rbind (identifier_value workflow_id ''workflow_id'') (\<lambda>w.
     rbind (identifier_value scope ''scope'') (\<lambda>s.
     rbind (identifier_value claim_id ''claim_id'') (\<lambda>c.
     rbind (hash_value head ''workflow_head'') (\<lambda>h.
     rbind (hash_value evidence ''evidence_head'') (\<lambda>ev.
     rbind (hash_value authority ''authority_digest'') (\<lambda>a.
     rbind (hash_value policy ''policy_digest'') (\<lambda>p.
     rbind (hash_value plan ''plan_digest'') (\<lambda>d.
     rbind (require (ke_plan evaluation = d) ''checked claim evaluation must refer to the same plan'') (\<lambda>_.
     Inr \<lparr>kc_workflow = w, kc_scope = s, kc_claim = c, kc_head = h, kc_evidence = ev, kc_authority = a, kc_policy = p,
          kc_plan = d, kc_status = status, kc_evaluation = evaluation\<rparr>)))))))))"

definition accepted :: "checked_claim \<Rightarrow> bool" where
  "accepted c \<longleftrightarrow> kc_status c = APPROVED \<and> evaluation_outcome (kc_evaluation c) = PASS"

definition CheckedClaim_to_dict :: "runtime \<Rightarrow> checked_claim \<Rightarrow> json" where
  "CheckedClaim_to_dict rt c = JObj
     [(U ''kind'', JText ''evidence-braid-checked-claim''), (U ''schema_version'', JText ''1.0''),
      (U ''workflow_id'', JStr (kc_workflow c)), (U ''scope'', JStr (kc_scope c)), (U ''claim_id'', JStr (kc_claim c)),
      (U ''workflow_head'', JStr (kc_head c)), (U ''evidence_head'', JStr (kc_evidence c)),
      (U ''authority_digest'', JStr (kc_authority c)), (U ''policy_digest'', JStr (kc_policy c)),
      (U ''plan_digest'', JStr (kc_plan c)),
      (U ''evaluation_digest'', JStr (CheckEvaluation_digest rt (kc_evaluation c))),
      (U ''procedural_status'', JText (status_value (kc_status c))),
      (U ''evaluation'', CheckEvaluation_to_dict (kc_evaluation c)), (U ''accepted'', JBool (accepted c))]"

definition CheckedClaim_to_bytes :: "runtime \<Rightarrow> checked_claim \<Rightarrow> bytes" where
  "CheckedClaim_to_bytes rt c = canonical_bytes rt (CheckedClaim_to_dict rt c)"

subsection \<open>The gate\<close>

definition artifact_by_id :: "workflow_bundle \<Rightarrow> ustr \<Rightarrow> artifact_reference option" where
  "artifact_by_id b i = dict_of (map (\<lambda>a. (ar_id a, a)) (wb_artifacts b)) i"

text \<open>The plan and the evaluation must be retained, bound to the claim, JSON, and committed to by the workflow.\<close>

definition gate_metadata ::
  "runtime \<Rightarrow> workflow_bundle \<Rightarrow> claim_workflow \<Rightarrow> (ustr \<times> bytes) list \<Rightarrow> check_budget \<Rightarrow> ustr \<Rightarrow> check_budget result" where
  "gate_metadata rt bundle claim retained b i =
     (case (artifact_by_id bundle i, map_of retained i) of
        (Some a, Some raw) \<Rightarrow>
          if i \<notin> set (cw_artifacts claim) \<or> ar_claim a \<noteq> cw_claim claim \<or> ar_scope a \<noteq> cw_scope claim
             \<or> ar_media a \<noteq> U ''application/json''
          then Inl (ValidationError ''check plan and evaluation must be retained bound JSON artifacts'')
          else
            rbind (charge (int (length raw)) b) (\<lambda>b.
            rbind (require (ArtifactReference_matches rt a raw) ''check metadata bytes differ from the workflow commitment'') (\<lambda>_.
            Inr b))
      | _ \<Rightarrow> Inl (ValidationError ''check plan and evaluation must be retained bound JSON artifacts''))"

text \<open>The pinned plan, read from its retained bytes, and its agreement with the claim and the evidence.\<close>

definition gate_plan ::
  "runtime \<Rightarrow> nat \<Rightarrow> check_policy \<Rightarrow> bytes \<Rightarrow> check_budget \<Rightarrow> (check_plan \<times> check_budget) result" where
  "gate_plan rt recursion policy raw b =
     rbind (charge (int (length raw)) b) (\<lambda>b.
     rbind (require (rt_sha256 rt raw = kq_plan policy) ''retained plan differs from the external plan pin'') (\<lambda>_.
     rbind (check_document recursion raw b (kl_plan_bytes (kb_limits b))) (\<lambda>(v, b).
     rbind (CheckPlan_from_dict rt v) (\<lambda>p.
     let encoded = CheckPlan_to_bytes rt p in
     rbind (charge (int (length encoded) + int (length raw)) b) (\<lambda>b.
     if encoded \<noteq> raw then Inl (InputFormatError ''retained plan must use its exact canonical bytes'') else Inr (p, b))))))"

definition plan_context ::
  "runtime \<Rightarrow> workflow_bundle \<Rightarrow> authority_policy \<Rightarrow> claim_workflow \<Rightarrow> ustr \<Rightarrow> check_plan \<Rightarrow> bool" where
  "plan_context rt bundle authority claim evidence p \<longleftrightarrow>
     kp_workflow p = wb_id bundle \<and> kp_scope p = cw_scope claim \<and> kp_claim p = cw_claim claim
     \<and> kp_authority p = AuthorityPolicy_digest rt authority \<and> kp_evidence p = evidence
     \<and> kp_statement p = rt_sha256 rt (utf8 (cw_statement claim))"

text \<open>The inventory: the inputs are bound artifacts, apart from the metadata, and nothing else is retained.\<close>

definition gate_inventory ::
  "workflow_bundle \<Rightarrow> claim_workflow \<Rightarrow> check_policy \<Rightarrow> (ustr \<times> bytes) list \<Rightarrow> check_plan \<Rightarrow> unit result" where
  "gate_inventory bundle claim policy retained p =
     (let ins = set (map ar_id (kp_inputs p)); metadata = {kq_plan_artifact policy, kq_evaluation_artifact policy} in
      rbind (require (ins \<inter> metadata = {}) ''plan inputs cannot include the plan or its evaluation'') (\<lambda>_.
      rbind (require (set (map fst retained) = ins \<union> metadata)
               ''retained gate inventory must exactly match plan inputs and metadata'') (\<lambda>_.
      require (list_all (\<lambda>a. ar_id a \<in> set (cw_artifacts claim) \<and> artifact_by_id bundle (ar_id a) = Some a) (kp_inputs p))
        ''plan inputs must match exact bound claim artifact commitments'')))"

text \<open>The recomputation and its comparison with the retained evaluation.\<close>

definition gate_evaluate ::
  "runtime \<Rightarrow> nat \<Rightarrow> check_policy \<Rightarrow> (ustr \<times> bytes) list \<Rightarrow> check_plan \<Rightarrow> check_budget
     \<Rightarrow> (check_evaluation \<times> check_budget) result" where
  "gate_evaluate rt recursion policy retained p b =
     (let ins = set (map ar_id (kp_inputs p)) in
      rbind (evaluate_plan rt recursion p (filter (\<lambda>kv. fst kv \<in> ins) retained) b) (\<lambda>(e, b).
      rbind (lookup_item retained (kq_evaluation_artifact policy)) (\<lambda>claimed.
      rbind (check_document recursion claimed b (kl_output_bytes (kb_limits b))) (\<lambda>(_, b).
      let actual = CheckEvaluation_to_bytes rt e in
      rbind (charge (int (length actual) + int (length claimed)) b) (\<lambda>b.
      rbind (require (actual = claimed) ''retained evaluation differs from independent recomputation'') (\<lambda>_.
      Inr (e, b)))))))"

text \<open>The description of the result, within its own bound.\<close>

definition gate_result ::
  "runtime \<Rightarrow> workflow_bundle \<Rightarrow> authority_policy \<Rightarrow> check_policy \<Rightarrow> claim_workflow \<Rightarrow> ustr \<Rightarrow> check_plan \<Rightarrow> check_evaluation
     \<Rightarrow> check_budget \<Rightarrow> checked_claim result" where
  "gate_result rt bundle authority policy claim head plan evaluation b =
     rbind (CheckedClaim_init (JStr (wb_id bundle)) (JStr (cw_scope claim)) (JStr (cw_claim claim)) (JStr head)
              (ledger_head (wb_evidence bundle)) (JStr (AuthorityPolicy_digest rt authority)) (JStr (CheckPolicy_digest rt policy))
              (JStr (CheckPlan_digest rt plan)) (cw_status claim) evaluation) (\<lambda>c.
     let output = CheckedClaim_to_bytes rt c in
     if int (length output) > kl_output_bytes (kb_limits b)
     then Inl (CheckLimitError ''checked-claim output exceeds its configured bound'')
     else rbind (charge (int (length output)) b) (\<lambda>_. Inr c))"

text \<open>The checks of the retained bytes, in order.\<close>

definition gate_checks ::
  "runtime \<Rightarrow> nat \<Rightarrow> workflow_bundle \<Rightarrow> authority_policy \<Rightarrow> check_policy \<Rightarrow> claim_workflow \<Rightarrow> ustr \<Rightarrow> ustr
     \<Rightarrow> (ustr \<times> bytes) list \<Rightarrow> check_budget \<Rightarrow> checked_claim result" where
  "gate_checks rt recursion bundle authority policy claim head evidence retained b =
     rbind (rfold (gate_metadata rt bundle claim retained) b [kq_plan_artifact policy, kq_evaluation_artifact policy]) (\<lambda>b.
     rbind (lookup_item retained (kq_plan_artifact policy)) (\<lambda>raw.
     rbind (gate_plan rt recursion policy raw b) (\<lambda>(plan, b).
     rbind (charge (int (length (utf8 (cw_statement claim)))) b) (\<lambda>b.
     rbind (require (plan_context rt bundle authority claim evidence plan)
              ''plan context does not match the authorized claim and evidence'') (\<lambda>_.
     rbind (gate_inventory bundle claim policy retained plan) (\<lambda>_.
     rbind (gate_evaluate rt recursion policy retained plan b) (\<lambda>(evaluation, b).
     gate_result rt bundle authority policy claim head plan evaluation b)))))))"

text \<open>The claim of the policy in the replayed workflow.\<close>

definition gate_claim :: "workflow_state \<Rightarrow> check_policy \<Rightarrow> claim_workflow result" where
  "gate_claim state policy =
     (case map_of (ws_claims state) (kq_claim policy) of
        None \<Rightarrow> Inl (ValidationError ''policy claim is missing or belongs to another scope'')
      | Some claim \<Rightarrow>
          if cw_scope claim = kq_scope policy then Inr claim
          else Inl (ValidationError ''policy claim is missing or belongs to another scope''))"

definition verify_claim_checks ::
  "runtime \<Rightarrow> nat \<Rightarrow> workflow_bundle \<Rightarrow> authority_policy \<Rightarrow> check_policy \<Rightarrow> (ustr \<times> bytes) list \<Rightarrow> json \<Rightarrow> json
     \<Rightarrow> check_limits option \<Rightarrow> checked_claim result" where
  "verify_claim_checks rt recursion bundle authority policy contents expected_head expected_evidence_head limits =
     rbind (hash_value expected_head ''expected_head'') (\<lambda>head.
     rbind (hash_value expected_evidence_head ''expected_evidence_head'') (\<lambda>evidence.
     rbind (require (wb_id bundle = kq_workflow policy \<and> AuthorityPolicy_digest rt authority = kq_authority policy
                \<and> ledger_head (wb_evidence bundle) = JStr evidence)
              ''workflow does not match the externally pinned policy or evidence head'') (\<lambda>_.
     rbind (replay_workflow rt bundle authority (Some head)) (\<lambda>state.
     rbind (gate_claim state policy) (\<lambda>claim.
     let bounds = check_limits_of limits in
     rbind (charge (int (length (CheckPolicy_to_bytes rt policy))) (fresh_budget bounds)) (\<lambda>b.
     rbind (check_snapshot contents bounds 2) (\<lambda>retained.
     gate_checks rt recursion bundle authority policy claim (ws_head state) evidence retained b)))))))"

end
