(* ===== verification/Check_Lemmas.thy ===== *)
theory Check_Lemmas
  imports Checks Frozen_Json
begin

text \<open>
  What an evaluation of checks computes and what it costs. \<open>yields L f P x n m\<close> says of a step that threads a budget: it
  returns exactly when \<open>P\<close> holds and \<open>n\<close> units of work and \<open>m\<close> nodes are left, and then it returns \<open>x\<close> and has spent
  exactly these. Rules for sequencing and loops compose such facts, so that the whole evaluation is characterised by an
  equivalence: the verdicts depend on the retained bytes alone, the limits decide only whether there is a result.
\<close>

subsection \<open>Steps that spend\<close>

definition affords :: "int \<Rightarrow> int \<Rightarrow> check_budget \<Rightarrow> bool" where
  "affords n m b \<longleftrightarrow> kb_used b + n \<le> kl_work (kb_limits b) \<and> kb_nodes b + m \<le> kl_nodes (kb_limits b)"

definition spend :: "int \<Rightarrow> int \<Rightarrow> check_budget \<Rightarrow> check_budget" where
  "spend n m b = b\<lparr>kb_used := kb_used b + n, kb_nodes := kb_nodes b + m\<rparr>"

definition yields :: "check_limits \<Rightarrow> (check_budget \<Rightarrow> ('a \<times> check_budget) result) \<Rightarrow> bool \<Rightarrow> 'a \<Rightarrow> int \<Rightarrow> int \<Rightarrow> bool" where
  "yields L f P x n m \<longleftrightarrow> 0 \<le> n \<and> 0 \<le> m
     \<and> (\<forall>b y b'. kb_limits b = L \<and> affords 0 0 b \<longrightarrow> (f b = Inr (y, b') \<longleftrightarrow> P \<and> y = x \<and> affords n m b \<and> b' = spend n m b))"

text \<open>A step without a value.\<close>

definition spends :: "check_limits \<Rightarrow> (check_budget \<Rightarrow> check_budget result) \<Rightarrow> bool \<Rightarrow> int \<Rightarrow> int \<Rightarrow> bool" where
  "spends L f P n m \<longleftrightarrow> 0 \<le> n \<and> 0 \<le> m
     \<and> (\<forall>b b'. kb_limits b = L \<and> affords 0 0 b \<longrightarrow> (f b = Inr b' \<longleftrightarrow> P \<and> affords n m b \<and> b' = spend n m b))"

lemma spend_limits [simp]: "kb_limits (spend n m b) = kb_limits b"
  by (simp add: spend_def)

lemma spend_spend: "spend n m (spend k l b) = spend (k + n) (l + m) b"
  by (simp add: spend_def add.assoc)

lemma spend_0 [simp]: "spend 0 0 b = b"
  by (simp add: spend_def)

lemma affords_spend: "affords n m (spend k l b) \<longleftrightarrow> affords (k + n) (l + m) b"
  by (auto simp: affords_def spend_def)

lemma affords_mono: "affords n m b \<Longrightarrow> k \<le> n \<Longrightarrow> l \<le> m \<Longrightarrow> affords k l b"
  by (auto simp: affords_def)

lemma yieldsD: "yields L f P x n m \<Longrightarrow> kb_limits b = L \<Longrightarrow> affords 0 0 b \<Longrightarrow> f b = Inr (y, b') \<longleftrightarrow> P \<and> y = x \<and> affords n m b \<and> b' = spend n m b"
  by (auto simp: yields_def)

lemma spendsD: "spends L f P n m \<Longrightarrow> kb_limits b = L \<Longrightarrow> affords 0 0 b \<Longrightarrow> f b = Inr b' \<longleftrightarrow> P \<and> affords n m b \<and> b' = spend n m b"
  by (auto simp: spends_def)

lemma yields_nonneg: "yields L f P x n m \<Longrightarrow> 0 \<le> n \<and> 0 \<le> m"
  and spends_nonneg: "spends L g P n m \<Longrightarrow> 0 \<le> n \<and> 0 \<le> m"
  by (simp_all add: yields_def spends_def)

lemma yields_return: "yields L (\<lambda>b. Inr (x, b)) True x 0 0"
  by (auto simp: yields_def)

lemma spends_return: "spends L (\<lambda>b. Inr b) True 0 0"
  by (auto simp: spends_def)

lemma yields_fail: "0 \<le> n \<Longrightarrow> 0 \<le> m \<Longrightarrow> yields L (\<lambda>b. Inl e) False x n m"
  by (simp add: yields_def)

lemma spends_fail: "0 \<le> n \<Longrightarrow> 0 \<le> m \<Longrightarrow> spends L (\<lambda>b. Inl e) False n m"
  by (simp add: spends_def)

lemma spends_charge: "0 \<le> n \<Longrightarrow> spends L (charge n) True n 0"
  by (auto simp: spends_def charge_def affords_def spend_def)

lemma yields_cong: "yields L f P x n m \<Longrightarrow> P = Q \<Longrightarrow> (P \<Longrightarrow> x = y) \<Longrightarrow> n = k \<Longrightarrow> m = l \<Longrightarrow> yields L f Q y k l"
  by (auto simp: yields_def)

lemma yields_limits: "(\<And>b. kb_limits b = L \<Longrightarrow> f b = g b) \<Longrightarrow> yields L f P x n m \<longleftrightarrow> yields L g P x n m"
  by (auto simp: yields_def)

lemma charge_limits: "charge n b = Inr b' \<Longrightarrow> kb_limits b' = kb_limits b"
  by (auto simp: charge_def split: if_splits)

lemma spends_yields:
  assumes f: "spends L f P n m" and g: "P \<Longrightarrow> yields L g Q x k l" and kl: "0 \<le> k" "0 \<le> l"
  shows "yields L (\<lambda>b. rbind (f b) g) (P \<and> Q) x (n + k) (m + l)"
proof -
  have nm: "0 \<le> n" "0 \<le> m" using spends_nonneg [OF f] by simp_all
  have "rbind (f b) g = Inr (y, b') \<longleftrightarrow> (P \<and> Q) \<and> y = x \<and> affords (n + k) (m + l) b \<and> b' = spend (n + k) (m + l) b"
    if b: "kb_limits b = L" "affords 0 0 b" for b y b'
  proof (cases "P \<and> affords n m b")
    case True
    then have "f b = Inr (spend n m b)" using spendsD [OF f b] by blast
    moreover have "affords 0 0 (spend n m b)" using True by (simp add: affords_spend)
    ultimately show ?thesis using yieldsD [OF g, of "spend n m b"] True b(1) by (simp add: affords_spend spend_spend)
  next
    case False
    then have "\<nexists>b'. f b = Inr b'" using spendsD [OF f b] by blast
    moreover have "\<not> (P \<and> affords (n + k) (m + l) b)" using False affords_mono [of "n + k" "m + l" b n m] kl by auto
    ultimately show ?thesis by auto
  qed
  then show ?thesis using nm kl by (simp add: yields_def)
qed

lemma yields_bind:
  assumes f: "yields L f P x n m" and g: "P \<Longrightarrow> yields L (g x) Q y k l" and kl: "0 \<le> k" "0 \<le> l"
  shows "yields L (\<lambda>b. rbind (f b) (\<lambda>(x, b). g x b)) (P \<and> Q) y (n + k) (m + l)"
proof -
  have nm: "0 \<le> n" "0 \<le> m" using yields_nonneg [OF f] by simp_all
  have "rbind (f b) (\<lambda>(x, b). g x b) = Inr (z, b') \<longleftrightarrow> (P \<and> Q) \<and> z = y \<and> affords (n + k) (m + l) b \<and> b' = spend (n + k) (m + l) b"
    if b: "kb_limits b = L" "affords 0 0 b" for b z b'
  proof (cases "P \<and> affords n m b")
    case True
    then have "f b = Inr (x, spend n m b)" using yieldsD [OF f b] by blast
    moreover have "affords 0 0 (spend n m b)" using True by (simp add: affords_spend)
    ultimately show ?thesis using yieldsD [OF g, of "spend n m b"] True b(1) by (simp add: affords_spend spend_spend)
  next
    case False
    then have "\<nexists>x b'. f b = Inr (x, b')" using yieldsD [OF f b] by blast
    moreover have "\<not> (P \<and> affords (n + k) (m + l) b)" using False affords_mono [of "n + k" "m + l" b n m] kl by auto
    ultimately show ?thesis by (cases "f b") auto
  qed
  then show ?thesis using nm kl by (simp add: yields_def)
qed

text \<open>The same rules for steps without a value, by adding one.\<close>

lemma spends_iff: "spends L f P n m \<longleftrightarrow> yields L (\<lambda>b. rbind (f b) (\<lambda>b. Inr ((), b))) P () n m"
  by (simp add: spends_def yields_def)

lemma spends_bind:
  assumes "spends L f P n m" "P \<Longrightarrow> spends L g Q k l" "0 \<le> k" "0 \<le> l"
  shows "spends L (\<lambda>b. rbind (f b) g) (P \<and> Q) (n + k) (m + l)"
  using spends_yields [OF assms(1), of "\<lambda>b. rbind (g b) (\<lambda>b. Inr ((), b))" Q "()" k l] assms(2-4)
  unfolding spends_iff [of L "\<lambda>b. rbind (f b) g"] rbind_assoc by (simp add: spends_iff)

text \<open>Loops.\<close>

lemma spends_rfold:
  assumes "\<And>x. x \<in> set xs \<Longrightarrow> spends L (\<lambda>b. f b x) (P x) (n x) (m x)"
  shows "spends L (\<lambda>b. rfold f b xs) (\<forall>x \<in> set xs. P x) (\<Sum>x \<leftarrow> xs. n x) (\<Sum>x \<leftarrow> xs. m x)"
  using assms
proof (induction xs)
  case (Cons x xs)
  have IH: "spends L (\<lambda>b. rfold f b xs) (\<forall>x \<in> set xs. P x) (\<Sum>x \<leftarrow> xs. n x) (\<Sum>x \<leftarrow> xs. m x)" by (rule Cons.IH) (simp add: Cons.prems)
  then have "spends L (\<lambda>b. rbind (f b x) (\<lambda>b. rfold f b xs)) (P x \<and> (\<forall>x \<in> set xs. P x)) (n x + (\<Sum>x \<leftarrow> xs. n x)) (m x + (\<Sum>x \<leftarrow> xs. m x))"
    using spends_nonneg [OF IH] by (intro spends_bind [OF Cons.prems]) auto
  then show ?case by simp
qed (simp add: spends_return)

lemma yields_rfold:
  assumes "\<And>acc x. x \<in> set xs \<Longrightarrow> yields L (\<lambda>b. f (acc, b) x) (P x) (acc @ [g x]) (n x) (m x)"
  shows "yields L (\<lambda>b. rfold f (acc, b) xs) (\<forall>x \<in> set xs. P x) (acc @ map g xs) (\<Sum>x \<leftarrow> xs. n x) (\<Sum>x \<leftarrow> xs. m x)"
  using assms
proof (induction xs arbitrary: acc)
  case Nil
  then show ?case by (simp add: yields_return)
next
  case (Cons x xs)
  have IH: "yields L (\<lambda>b. rfold f (acc', b) xs) (\<forall>x \<in> set xs. P x) (acc' @ map g xs) (\<Sum>x \<leftarrow> xs. n x) (\<Sum>x \<leftarrow> xs. m x)" for acc'
    by (rule Cons.IH) (simp add: Cons.prems)
  have "yields L (\<lambda>b. rbind (f (acc, b) x) (\<lambda>(acc, b). rfold f (acc, b) xs)) (P x \<and> (\<forall>x \<in> set xs. P x))
      ((acc @ [g x]) @ map g xs) (n x + (\<Sum>x \<leftarrow> xs. n x)) (m x + (\<Sum>x \<leftarrow> xs. m x))"
    using yields_nonneg [OF IH] by (intro yields_bind [OF Cons.prems] IH) auto
  moreover have "(\<lambda>(acc, b). rfold f (acc, b) xs) = (\<lambda>s. rfold f s xs)" by (rule ext) (simp split: prod.split)
  ultimately show ?case by simp
qed

subsection \<open>Documents\<close>

text \<open>Documents of the profile: bounded keys, and scalars without floats and large integers.\<close>

fun check_profile :: "json \<Rightarrow> bool" where
  "check_profile (JArr xs) = list_all check_profile xs"
| "check_profile (JObj kvs) = list_all (\<lambda>kv. check_key (fst kv) \<and> check_profile (snd kv)) kvs"
| "check_profile v = check_scalar v"

lemma count_node_spends: "spends L count_node True 1 1"
  by (auto simp: spends_def count_node_def charge_def affords_def spend_def Let_def)

lemma walk_document_spends:
  "spends L (\<lambda>b. walk_document b stack) (list_all check_profile stack) (\<Sum>v \<leftarrow> stack. json_nodes v) (\<Sum>v \<leftarrow> stack. json_nodes v)"
proof (induction "size_list size stack" arbitrary: stack rule: less_induct)
  case less
  show ?case
  proof (cases stack)
    case Nil
    then show ?thesis by (simp add: spends_return)
  next
    case (Cons v rest)
    have IH: "spends L (\<lambda>b. walk_document b st) (list_all check_profile st) (\<Sum>v \<leftarrow> st. json_nodes v) (\<Sum>v \<leftarrow> st. json_nodes v)"
      if "size_list size st < size_list size stack" for st
      using less that by blast
    have nn: "0 \<le> (\<Sum>v \<leftarrow> st. json_nodes v)" for st by (rule nodes_nonneg)
    define body where "body b = (case v of
       JObj kvs \<Rightarrow>
         if list_all (\<lambda>kv. check_key (fst kv)) kvs then walk_document b (rev (map snd kvs) @ rest)
         else Inl (InputFormatError ''JSON key is outside the check text profile'')
     | JArr xs \<Rightarrow> walk_document b (rev xs @ rest)
     | _ \<Rightarrow> if check_scalar v then walk_document b rest
         else Inl (InputFormatError ''JSON scalar is outside the check profile''))" for b
    have body: "spends L body (check_profile v \<and> list_all check_profile rest)
        (json_nodes v - 1 + (\<Sum>v \<leftarrow> rest. json_nodes v)) (json_nodes v - 1 + (\<Sum>v \<leftarrow> rest. json_nodes v))"
    proof -
      have rest: "spends L (\<lambda>b. walk_document b rest) (list_all check_profile rest) (\<Sum>v \<leftarrow> rest. json_nodes v) (\<Sum>v \<leftarrow> rest. json_nodes v)"
        by (rule IH) (simp add: Cons)
      show ?thesis
      proof (cases v)
        case (JArr xs)
        have "spends L (\<lambda>b. walk_document b (rev xs @ rest)) (list_all check_profile (rev xs @ rest))
            (\<Sum>v \<leftarrow> rev xs @ rest. json_nodes v) (\<Sum>v \<leftarrow> rev xs @ rest. json_nodes v)"
          by (rule IH) (simp add: Cons JArr stack_sizes(1))
        then show ?thesis unfolding body_def by (simp add: JArr sum_list_rev rev_map [symmetric])
      next
        case (JObj kvs)
        let ?st = "rev (map snd kvs) @ rest"
        have st: "spends L (\<lambda>b. walk_document b ?st) (list_all check_profile ?st) (\<Sum>v \<leftarrow> ?st. json_nodes v) (\<Sum>v \<leftarrow> ?st. json_nodes v)"
          by (rule IH) (use stack_sizes(2) [of kvs] in \<open>simp add: Cons JObj stack_sizes(1)\<close>)
        have sum: "(\<Sum>v \<leftarrow> ?st. json_nodes v) = json_nodes v - 1 + (\<Sum>v \<leftarrow> rest. json_nodes v)"
          by (simp add: JObj rev_map [symmetric] sum_list_rev comp_def)
        show ?thesis
        proof (cases "list_all (\<lambda>kv. check_key (fst kv)) kvs")
          case True
          then have "list_all check_profile ?st = (check_profile v \<and> list_all check_profile rest)"
            by (auto simp: JObj list_all_iff)
          then show ?thesis using st True unfolding body_def sum by (simp add: JObj)
        next
          case False
          then have "\<not> check_profile v" by (auto simp: JObj list_all_iff)
          moreover have "0 \<le> json_nodes v - 1 + (\<Sum>v \<leftarrow> rest. json_nodes v)" using nn [of ?st] sum by simp
          ultimately show ?thesis using False unfolding body_def by (simp add: JObj spends_fail)
        qed
      qed (use rest nn [of rest] in \<open>auto simp: body_def spends_def\<close>)
    qed
    have "0 \<le> json_nodes v - 1 + (\<Sum>v \<leftarrow> rest. json_nodes v)" using spends_nonneg [OF body] by simp
    moreover have "(\<lambda>b. walk_document b stack) = (\<lambda>b. rbind (count_node b) body)" unfolding Cons body_def [abs_def] by simp
    ultimately show ?thesis using spends_bind [OF count_node_spends body] by (simp add: Cons)
  qed
qed

text \<open>A document that the reader accepts, without regard to the budget.\<close>

definition lexical_ok :: "int \<Rightarrow> bytes \<Rightarrow> bool" where
  "lexical_ok depth raw \<longleftrightarrow> is_ok (rfold (lexical_step depth) (0, False, False) raw)"

definition document_ok :: "nat \<Rightarrow> int \<Rightarrow> int \<Rightarrow> bytes \<Rightarrow> bool" where
  "document_ok recursion depth maximum raw \<longleftrightarrow> int (length raw) \<le> maximum \<and> lexical_ok depth raw
     \<and> (\<exists>v. parse_document recursion raw = Inr v \<and> check_profile v)"

definition document_value :: "nat \<Rightarrow> bytes \<Rightarrow> json" where
  "document_value recursion raw = projr (parse_document recursion raw)"

definition document_nodes :: "nat \<Rightarrow> bytes \<Rightarrow> int" where
  "document_nodes recursion raw = json_nodes (document_value recursion raw)"

lemma lexical_spends: "spends L (\<lambda>b. rbind (rfold (lexical_step depth) (0, False, False) raw) (\<lambda>_. Inr b)) (lexical_ok depth raw) 0 0"
  by (cases "rfold (lexical_step depth) (0, False, False) raw") (auto simp: spends_def lexical_ok_def is_ok_def)

lemma check_document_yields:
  "yields L (\<lambda>b. check_document recursion raw b maximum) (document_ok recursion (kl_depth L) maximum raw)
     (document_value recursion raw) (int (length raw) + document_nodes recursion raw) (document_nodes recursion raw)"
proof -
  let ?n = "document_nodes recursion raw" and ?v = "document_value recursion raw"
  have n: "0 \<le> ?n" using json_nodes_pos [of ?v] by (simp add: document_nodes_def)
  have parse: "yields L (\<lambda>b. rbind (parse_document recursion raw) (\<lambda>v. rbind (walk_document b [v]) (\<lambda>b. Inr (v, b))))
      (\<exists>v. parse_document recursion raw = Inr v \<and> check_profile v) ?v ?n ?n"
  proof (cases "parse_document recursion raw")
    case (Inl e)
    then show ?thesis using n by (simp add: yields_fail)
  next
    case (Inr v)
    have w: "spends L (\<lambda>b. walk_document b [v]) (check_profile v) ?n ?n"
      using walk_document_spends [of L "[v]"] Inr by (simp add: document_nodes_def document_value_def)
    from spends_yields [OF w yields_return, where x = v] show ?thesis using Inr by (simp add: document_value_def)
  qed
  have "yields L (\<lambda>b. rbind (rfold (lexical_step (kl_depth L)) (0, False, False) raw) (\<lambda>_. rbind (parse_document recursion raw) (\<lambda>v. rbind (walk_document b [v]) (\<lambda>b. Inr (v, b)))))
      (lexical_ok (kl_depth L) raw \<and> (\<exists>v. parse_document recursion raw = Inr v \<and> check_profile v)) ?v ?n ?n"
    using spends_yields [OF lexical_spends parse n n, of "kl_depth L" raw] by (simp add: rbind_assoc)
  from spends_yields [OF spends_charge this] n
  have "yields L (\<lambda>b. rbind (charge (int (length raw)) b) (\<lambda>b. rbind (rfold (lexical_step (kl_depth L)) (0, False, False) raw) (\<lambda>_. rbind (parse_document recursion raw) (\<lambda>v. rbind (walk_document b [v]) (\<lambda>b. Inr (v, b))))))
      (lexical_ok (kl_depth L) raw \<and> (\<exists>v. parse_document recursion raw = Inr v \<and> check_profile v)) ?v (int (length raw) + ?n) ?n"
    by simp
  note run = this
  have eq: "check_document recursion raw b maximum
      = rbind (charge (int (length raw)) b) (\<lambda>b. rbind (rfold (lexical_step (kl_depth L)) (0, False, False) raw) (\<lambda>_. rbind (parse_document recursion raw) (\<lambda>v. rbind (walk_document b [v]) (\<lambda>b. Inr (v, b)))))"
    if "kb_limits b = L" "int (length raw) \<le> maximum" for b
    using that charge_limits by (auto simp: check_document_def intro!: rbind_cong)
  show ?thesis
  proof (cases "int (length raw) \<le> maximum")
    case True
    have "document_ok recursion (kl_depth L) maximum raw
        = (lexical_ok (kl_depth L) raw \<and> (\<exists>v. parse_document recursion raw = Inr v \<and> check_profile v))"
      using True by (simp add: document_ok_def)
    then show ?thesis using iffD2 [OF yields_limits [OF eq [OF _ True]] run] by simp
  next
    case False
    then show ?thesis using n by (simp add: check_document_def document_ok_def yields_fail)
  qed
qed

subsection \<open>What a rule means\<close>

fun lookup_path :: "json \<Rightarrow> path_part list \<Rightarrow> json option" where
  "lookup_path v [] = Some v"
| "lookup_path v (part # path) = (case path_step v part of None \<Rightarrow> None | Some w \<Rightarrow> lookup_path w path)"

fun path_cost :: "json \<Rightarrow> path_part list \<Rightarrow> int" where
  "path_cost v [] = 0"
| "path_cost v (part # path) = part_cost part + (case path_step v part of None \<Rightarrow> 0 | Some w \<Rightarrow> path_cost w path)"

lemma part_cost_nonneg: "0 \<le> part_cost p"
  by (cases p) simp_all

lemma path_cost_nonneg: "0 \<le> path_cost v path"
  by (induction v path rule: path_cost.induct) (auto simp: part_cost_nonneg add_nonneg_nonneg split: option.splits)

lemma value_at_yields: "yields L (value_at v path) True (lookup_path v path) (path_cost v path) 0"
proof (induction v path rule: path_cost.induct)
  case (2 v part path)
  have body: "yields L (\<lambda>b. case path_step v part of None \<Rightarrow> Inr (None, b) | Some w \<Rightarrow> value_at w path b) True
      (lookup_path v (part # path)) (case path_step v part of None \<Rightarrow> 0 | Some w \<Rightarrow> path_cost w path) 0"
    using 2 by (cases "path_step v part") (simp_all add: yields_return)
  from spends_yields [OF spends_charge body] part_cost_nonneg [of part] yields_nonneg [OF body] show ?case
    by (simp add: fun_eq_iff)
qed (simp add: yields_return)

text \<open>The documents and bytes by identifier; a scalar is what is neither an array nor an object.\<close>

definition truth :: "bool \<Rightarrow> check_reason" where
  "truth passed = (if passed then PASSED else PREDICATE_FALSE)"

fun plain :: "json \<Rightarrow> bool" where
  "plain (JArr xs) = False"
| "plain (JObj kvs) = False"
| "plain v = True"

definition rule_value :: "check_rule \<Rightarrow> (ustr \<Rightarrow> json) \<Rightarrow> json option" where
  "rule_value r docs = lookup_path (docs (kr_artifact r)) (kr_path r)"

definition rule_other_value :: "check_rule \<Rightarrow> (ustr \<Rightarrow> json) \<Rightarrow> json option" where
  "rule_other_value r docs = lookup_path (docs (the (kr_other r))) (the (kr_other_path r))"

definition rule_verdict :: "check_rule \<Rightarrow> (ustr \<Rightarrow> json) \<Rightarrow> (ustr \<Rightarrow> bytes) \<Rightarrow> check_reason" where
  "rule_verdict r docs raws =
     (case kr_operator r of
        BYTES_EQUAL \<Rightarrow> truth (raws (kr_artifact r) = raws (the (kr_other r)))
      | EXISTS \<Rightarrow> truth (rule_value r docs \<noteq> None)
      | INTEGER_RANGE \<Rightarrow>
          (case rule_value r docs of
             None \<Rightarrow> PATH_MISSING
           | Some (JInt n) \<Rightarrow> truth (the (kr_minimum r) \<le> n \<and> n \<le> the (kr_maximum r))
           | Some _ \<Rightarrow> TYPE_UNSUPPORTED)
      | EQUALS \<Rightarrow>
          (case rule_value r docs of
             None \<Rightarrow> PATH_MISSING
           | Some v \<Rightarrow> if plain v then truth (kr_expected r = Some v) else TYPE_UNSUPPORTED)
      | SAME_VALUE \<Rightarrow>
          (case (rule_value r docs, rule_other_value r docs) of
             (Some v, Some w) \<Rightarrow> if plain v \<and> plain w then truth (v = w) else TYPE_UNSUPPORTED
           | _ \<Rightarrow> PATH_MISSING))"

definition rule_outcome :: "check_rule \<Rightarrow> check_reason \<Rightarrow> check_result" where
  "rule_outcome r reason = \<lparr>ks_rule = kr_id r, ks_outcome = reason_outcome reason, ks_reason = reason\<rparr>"

text \<open>What a rule costs beyond its own unit.\<close>

definition compare_cost :: "check_rule \<Rightarrow> json option \<Rightarrow> json option \<Rightarrow> int" where
  "compare_cost r x y =
     (case x of
        None \<Rightarrow> 0
      | Some v \<Rightarrow>
          (case kr_operator r of
             INTEGER_RANGE \<Rightarrow> (case v of JInt n \<Rightarrow> 2 | _ \<Rightarrow> 0)
           | _ \<Rightarrow> (case y of Some w \<Rightarrow> if plain v \<and> plain w then 1 + scalar_cost v + scalar_cost w else 0 | None \<Rightarrow> 0)))"

definition rule_cost :: "check_rule \<Rightarrow> (ustr \<Rightarrow> json) \<Rightarrow> (ustr \<Rightarrow> bytes) \<Rightarrow> int" where
  "rule_cost r docs raws = 1 +
     (case kr_operator r of
        BYTES_EQUAL \<Rightarrow> int (length (raws (kr_artifact r))) + int (length (raws (the (kr_other r))))
      | EXISTS \<Rightarrow> path_cost (docs (kr_artifact r)) (kr_path r)
      | SAME_VALUE \<Rightarrow> path_cost (docs (kr_artifact r)) (kr_path r)
          + path_cost (docs (the (kr_other r))) (the (kr_other_path r))
          + compare_cost r (rule_value r docs) (rule_other_value r docs)
      | _ \<Rightarrow> path_cost (docs (kr_artifact r)) (kr_path r) + compare_cost r (rule_value r docs) (kr_expected r))"

lemma rule_cost_nonneg: "0 \<le> rule_cost r docs raws"
proof -
  have "0 \<le> scalar_cost v" for v by (cases v) simp_all
  then have "0 \<le> compare_cost r x y" for x y
    by (cases "kr_operator r") (auto simp: compare_cost_def add_nonneg_nonneg split: option.splits json.splits)
  then show ?thesis by (cases "kr_operator r") (simp_all add: rule_cost_def path_cost_nonneg add_nonneg_nonneg)
qed

subsection \<open>Accepted rules\<close>

definition part_ok :: "path_part \<Rightarrow> bool" where
  "part_ok p = (case p of Key s \<Rightarrow> length s \<le> 256 \<and> is_xml_character s | Index n \<Rightarrow> 0 \<le> n \<and> n \<le> safe_integer_max)"

definition path_ok :: "path_part list \<Rightarrow> bool" where
  "path_ok path \<longleftrightarrow> length path \<le> max_check_depth \<and> list_all part_ok path"

definition check_rule_ok :: "check_rule \<Rightarrow> bool" where
  "check_rule_ok r \<longleftrightarrow> is_identifier (kr_id r) \<and> is_identifier (kr_artifact r) \<and> path_ok (kr_path r)
     \<and> (if kr_operator r = EQUALS
        then (\<exists>v. kr_expected r = Some v \<and> check_scalar v \<and> (case v of JStr s \<Rightarrow> length s \<le> 4096 | _ \<Rightarrow> True))
        else kr_expected r = None)
     \<and> (if kr_operator r = INTEGER_RANGE
        then (\<exists>a b. kr_minimum r = Some a \<and> kr_maximum r = Some b \<and> - safe_integer_max \<le> a \<and> a \<le> b \<and> b \<le> safe_integer_max)
        else kr_minimum r = None \<and> kr_maximum r = None)
     \<and> (case kr_operator r of
          SAME_VALUE \<Rightarrow> (\<exists>i p. kr_other r = Some i \<and> is_identifier i \<and> kr_other_path r = Some p \<and> path_ok p)
        | BYTES_EQUAL \<Rightarrow> (\<exists>i. kr_other r = Some i \<and> is_identifier i) \<and> kr_other_path r = None \<and> kr_path r = []
        | _ \<Rightarrow> kr_other r = None \<and> kr_other_path r = None)"

lemma path_part_value_Inr: "path_part_value v = Inr p \<longleftrightarrow> v = path_part_json p \<and> part_ok p"
  by (cases v; cases p) (auto simp: path_part_value_def part_ok_def)

lemma path_value_Inr: "path_value path = Inr p \<longleftrightarrow> path = Some (map path_part_json p) \<and> path_ok p"
proof -
  have "rmap path_part_value vs = Inr p \<longleftrightarrow> vs = map path_part_json p \<and> list_all part_ok p" for vs
    by (auto simp: rmap_Inr_iff path_part_value_Inr list_all2_conv_all_nth list_all_length list_eq_iff_nth_eq)
  then show ?thesis by (auto simp: path_value_def path_ok_def split: option.splits)
qed

lemma rule_expected_Inr:
  "rule_expected op ex = Inr u \<longleftrightarrow>
     (if op = EQUALS then (\<exists>v. ex = Some v \<and> check_scalar v \<and> (case v of JStr s \<Rightarrow> length s \<le> 4096 | _ \<Rightarrow> True)) else ex = None)"
  by (cases ex) (auto simp: rule_expected_def require_def)

lemma rule_range_Inr:
  "rule_range op lo hi = Inr (a, b) \<longleftrightarrow>
     (if op = INTEGER_RANGE
      then (\<exists>x y. lo = JInt x \<and> hi = JInt y \<and> a = Some x \<and> b = Some y \<and> - safe_integer_max \<le> x \<and> x \<le> y \<and> y \<le> safe_integer_max)
      else lo = JNull \<and> hi = JNull \<and> a = None \<and> b = None)"
  by (cases lo; cases hi) (auto simp: rule_range_def)

lemma rule_other_Inr:
  "rule_other op path other other_path = Inr (i, p) \<longleftrightarrow>
     (case op of
        SAME_VALUE \<Rightarrow> (\<exists>s q. other = JStr s \<and> is_identifier s \<and> i = Some s \<and> other_path = Some (map path_part_json q) \<and> path_ok q \<and> p = Some q)
      | BYTES_EQUAL \<Rightarrow> (\<exists>s. other = JStr s \<and> is_identifier s \<and> i = Some s) \<and> other_path = None \<and> path = [] \<and> p = None
      | _ \<Rightarrow> other = JNull \<and> other_path = None \<and> i = None \<and> p = None)"
  by (cases op) (auto simp: rule_other_def path_value_Inr)

lemma CheckRule_init_Inr:
  "CheckRule_init i op a p ex lo hi o_id o_path = Inr r \<longleftrightarrow>
     check_rule_ok r \<and> i = JStr (kr_id r) \<and> op = kr_operator r \<and> a = JStr (kr_artifact r) \<and> p = map path_part_json (kr_path r)
     \<and> ex = kr_expected r \<and> lo = (case kr_minimum r of None \<Rightarrow> JNull | Some n \<Rightarrow> JInt n)
     \<and> hi = (case kr_maximum r of None \<Rightarrow> JNull | Some n \<Rightarrow> JInt n) \<and> o_id = JOpt (kr_other r)
     \<and> o_path = map_option (map path_part_json) (kr_other_path r)"
proof -
  have "CheckRule_init i op a p ex lo hi o_id o_path = Inr r \<longleftrightarrow>
      i = JStr (kr_id r) \<and> is_identifier (kr_id r) \<and> a = JStr (kr_artifact r) \<and> is_identifier (kr_artifact r)
      \<and> p = map path_part_json (kr_path r) \<and> path_ok (kr_path r) \<and> rule_expected op ex = Inr ()
      \<and> rule_range op lo hi = Inr (kr_minimum r, kr_maximum r) \<and> rule_other op p o_id o_path = Inr (kr_other r, kr_other_path r)
      \<and> kr_operator r = op \<and> kr_expected r = ex"
    by (cases r) (auto simp: CheckRule_init_def path_value_Inr)
  then show ?thesis
    by (cases op) (auto simp: check_rule_ok_def rule_expected_Inr rule_range_Inr rule_other_Inr JOpt_def split: option.splits)
qed

subsection \<open>Rules compute what they mean\<close>

lemma profile_plain: "check_profile v \<Longrightarrow> check_scalar v \<longleftrightarrow> plain v"
  by (cases v) simp_all

lemma path_step_profile: "check_profile v \<Longrightarrow> part_ok p \<Longrightarrow> path_step v p = Some w \<Longrightarrow> check_profile w"
proof (cases p)
  case (Index n)
  assume v: "check_profile v" "part_ok p" "path_step v p = Some w"
  then obtain xs where "v = JArr xs" "w = xs ! nat n" "n < int (length xs)" using Index
    by (cases v) (auto simp: path_step_def split: if_splits)
  then show ?thesis using v(1,2) Index by (auto simp: list_all_length nat_less_iff part_ok_def)
qed (cases v; auto simp: path_step_def list_all_iff dest!: map_of_SomeD)

lemma lookup_path_profile: "check_profile v \<Longrightarrow> path_ok path \<Longrightarrow> lookup_path v path = Some w \<Longrightarrow> check_profile w"
proof -
  have "check_profile v \<Longrightarrow> list_all part_ok path \<Longrightarrow> lookup_path v path = Some w \<Longrightarrow> check_profile w"
    by (induction v path rule: lookup_path.induct) (auto split: option.splits dest: path_step_profile)
  then show "check_profile v \<Longrightarrow> path_ok path \<Longrightarrow> lookup_path v path = Some w \<Longrightarrow> check_profile w" by (simp add: path_ok_def)
qed

lemma rule_result_yields:
  "is_identifier (kr_id r) \<Longrightarrow> outcome = reason_outcome reason
    \<Longrightarrow> yields L (rule_result r outcome reason) True (rule_outcome r reason) 0 0"
  by (auto simp: yields_def rule_result_def CheckResult_init_def rule_outcome_def require_def identifier_value_def)

lemma passed_result_yields:
  "is_identifier (kr_id r) \<Longrightarrow> yields L (passed_result r passed) True (rule_outcome r (truth passed)) 0 0"
  using rule_result_yields [of r PASS PASSED] rule_result_yields [of r FAIL PREDICATE_FALSE] by (cases passed) (simp_all add: passed_result_def [abs_def] truth_def)

lemma charge_then: "yields L f P x 0 0 \<Longrightarrow> 0 \<le> n \<Longrightarrow> yields L (\<lambda>b. rbind (charge n b) f) P x n 0"
  using spends_yields [OF spends_charge, of n L f P x 0 0] by simp

text \<open>The comparison of two values that were looked up.\<close>

lemma compare_values_yields:
  assumes r: "check_rule_ok r" "kr_operator r \<in> {EQUALS, INTEGER_RANGE, SAME_VALUE}"
    and x: "\<And>v. x = Some v \<Longrightarrow> check_profile v"
    and y: "if kr_operator r = SAME_VALUE then (\<forall>v. y = Some v \<longrightarrow> check_profile v) else y = kr_expected r"
  shows "yields L (compare_values r x y) True
    (rule_outcome r (case kr_operator r of
        INTEGER_RANGE \<Rightarrow>
          (case x of None \<Rightarrow> PATH_MISSING | Some (JInt n) \<Rightarrow> truth (the (kr_minimum r) \<le> n \<and> n \<le> the (kr_maximum r))
           | Some _ \<Rightarrow> TYPE_UNSUPPORTED)
      | EQUALS \<Rightarrow> (case x of None \<Rightarrow> PATH_MISSING | Some v \<Rightarrow> if plain v then truth (kr_expected r = Some v) else TYPE_UNSUPPORTED)
      | _ \<Rightarrow> (case (x, y) of (Some v, Some w) \<Rightarrow> if plain v \<and> plain w then truth (v = w) else TYPE_UNSUPPORTED | _ \<Rightarrow> PATH_MISSING)))
    (compare_cost r x y) 0"
proof -
  have i: "is_identifier (kr_id r)" using r(1) by (simp add: check_rule_ok_def)
  note res = rule_result_yields [OF i] and pass = passed_result_yields [OF i]
  show ?thesis
  proof (cases x)
    case None
    then show ?thesis using res [of UNKNOWN PATH_MISSING] r(2) by (auto simp: compare_values_def [abs_def] compare_cost_def)
  next
    case (Some v)
    have pv: "check_scalar v = plain v" using x [OF Some] by (rule profile_plain)
    consider (range) "kr_operator r = INTEGER_RANGE" | (equals) "kr_operator r = EQUALS" | (same) "kr_operator r = SAME_VALUE"
      using r(2) by auto
    then show ?thesis
    proof cases
      case range
      obtain a b where ab: "kr_minimum r = Some a" "kr_maximum r = Some b" using r(1) range by (auto simp: check_rule_ok_def)
      show ?thesis
        using res [of UNKNOWN TYPE_UNSUPPORTED] charge_then [OF pass, of 2] pv range Some ab
        by (cases v) (simp_all add: compare_values_def [abs_def] compare_cost_def optional_scalar_def)
    next
      case equals
      obtain w where w: "kr_expected r = Some w" "plain w" using r(1) equals by (cases "kr_expected r"; cases "the (kr_expected r)") (auto simp: check_rule_ok_def)
      have c: "0 \<le> 1 + scalar_cost v + scalar_cost w" by (cases v; cases w) simp_all
      show ?thesis
      proof (cases "plain v")
        case True
        have "yields L (\<lambda>b. rbind (charge (1 + scalar_cost v + scalar_cost w) b) (passed_result r (v = w))) True
            (rule_outcome r (truth (v = w))) (1 + scalar_cost v + scalar_cost w) 0"
          by (rule charge_then [OF pass c])
        moreover have "(w = v) = (v = w)" by auto
        ultimately show ?thesis using True equals Some w y pv
          by (simp add: compare_values_def [abs_def] compare_cost_def optional_scalar_def equal_scalars_def rbind_assoc)
      next
        case False
        then show ?thesis using res [of UNKNOWN TYPE_UNSUPPORTED] equals Some w y pv
          by (simp add: compare_values_def [abs_def] compare_cost_def optional_scalar_def)
      qed
    next
      case same
      show ?thesis
      proof (cases y)
        case None
        then show ?thesis using res [of UNKNOWN PATH_MISSING] same Some by (simp add: compare_values_def [abs_def] compare_cost_def)
      next
        case w: (Some w)
        have pw: "check_scalar w = plain w" using y same w by (simp add: profile_plain)
        have c: "0 \<le> 1 + scalar_cost v + scalar_cost w" by (cases v; cases w) simp_all
        show ?thesis
        proof (cases "plain v \<and> plain w")
          case True
          have "yields L (\<lambda>b. rbind (charge (1 + scalar_cost v + scalar_cost w) b) (passed_result r (v = w))) True
              (rule_outcome r (truth (v = w))) (1 + scalar_cost v + scalar_cost w) 0"
            by (rule charge_then [OF pass c])
          then show ?thesis using True same Some w pv pw
            by (simp add: compare_values_def [abs_def] compare_cost_def optional_scalar_def equal_scalars_def rbind_assoc)
        next
          case False
          then show ?thesis using res [of UNKNOWN TYPE_UNSUPPORTED] same Some w pv pw
            by (auto simp: compare_values_def [abs_def] compare_cost_def optional_scalar_def)
        qed
      qed
    qed
  qed
qed

lemma check_rule_step_yields:
  assumes r: "check_rule_ok r"
    and raw: "kr_operator r = BYTES_EQUAL \<Longrightarrow> \<forall>i \<in> set (rule_inputs r). map_of raw i = Some (raws i)"
    and doc: "kr_operator r \<noteq> BYTES_EQUAL \<Longrightarrow> \<forall>i \<in> set (rule_inputs r). map_of parsed i = Some (docs i) \<and> check_profile (docs i)"
  shows "yields L (check_rule_step r parsed raw) True (rule_outcome r (rule_verdict r docs raws)) (rule_cost r docs raws) 0"
proof -
  have i: "is_identifier (kr_id r)" using r by (simp add: check_rule_ok_def)
  note pass = passed_result_yields [OF i]
  let ?body = "\<lambda>b. if kr_operator r = BYTES_EQUAL then bytes_rule r raw b else json_rule r parsed b"
  have "yields L ?body True (rule_outcome r (rule_verdict r docs raws)) (rule_cost r docs raws - 1) 0"
  proof (cases "kr_operator r = BYTES_EQUAL")
    case True
    then obtain j where j: "kr_other r = Some j" using r by (auto simp: check_rule_ok_def)
    have l: "map_of raw (kr_artifact r) = Some (raws (kr_artifact r))" "map_of raw j = Some (raws j)"
      using raw [OF True] by (simp_all add: rule_inputs_def j)
    have "0 \<le> int (length (raws (kr_artifact r))) + int (length (raws j))" by simp
    from charge_then [OF pass this, of L "raws (kr_artifact r) = raws j"] show ?thesis
      using True j l by (simp add: bytes_rule_def lookup_item_def other_id_def rule_verdict_def rule_cost_def)
  next
    case False
    have l: "map_of parsed (kr_artifact r) = Some (docs (kr_artifact r))" "check_profile (docs (kr_artifact r))"
      using doc [OF False] by (simp_all add: rule_inputs_def)
    have path: "path_ok (kr_path r)" using r by (simp add: check_rule_ok_def)
    have x: "check_profile v" if "rule_value r docs = Some v" for v
      using lookup_path_profile [OF l(2) path] that by (simp add: rule_value_def)
    note at = value_at_yields [of L "docs (kr_artifact r)" "kr_path r", folded rule_value_def]
    show ?thesis
    proof (cases "kr_operator r = EXISTS")
      case True
      have "yields L (\<lambda>b. rbind (value_at (docs (kr_artifact r)) (kr_path r) b) (\<lambda>(x, b). passed_result r (x \<noteq> None) b)) (True \<and> True)
          (rule_outcome r (truth (rule_value r docs \<noteq> None))) (path_cost (docs (kr_artifact r)) (kr_path r) + 0) (0 + 0)"
        by (rule yields_bind [OF at]) (simp_all only: pass order_refl)
      then show ?thesis using True l by (simp add: json_rule_def [abs_def] lookup_item_def rule_verdict_def rule_cost_def)
    next
      case ex: False
      let ?y = "if kr_operator r = SAME_VALUE then rule_other_value r docs else kr_expected r"
      let ?c = "if kr_operator r = SAME_VALUE then path_cost (docs (the (kr_other r))) (the (kr_other_path r)) else 0"
      have other: "yields L (other_value r parsed) True ?y ?c 0"
        and y: "if kr_operator r = SAME_VALUE then (\<forall>v. ?y = Some v \<longrightarrow> check_profile v) else ?y = kr_expected r"
      proof -
        have "yields L (other_value r parsed) True ?y ?c 0
          \<and> (if kr_operator r = SAME_VALUE then (\<forall>v. ?y = Some v \<longrightarrow> check_profile v) else ?y = kr_expected r)"
        proof (cases "kr_operator r = SAME_VALUE")
          case True
          then obtain j p where j: "kr_other r = Some j" "kr_other_path r = Some p" "path_ok p" using r by (auto simp: check_rule_ok_def)
          have "map_of parsed j = Some (docs j)" "check_profile (docs j)" using doc [OF False] by (simp_all add: rule_inputs_def j)
          then show ?thesis using value_at_yields [of L "docs j" p] lookup_path_profile j True
            by (auto simp: other_value_def [abs_def] lookup_item_def other_id_def rule_other_value_def)
        next
          case False
          then show ?thesis by (simp add: other_value_def [abs_def] yields_return)
        qed
        then show "yields L (other_value r parsed) True ?y ?c 0"
          "if kr_operator r = SAME_VALUE then (\<forall>v. ?y = Some v \<longrightarrow> check_profile v) else ?y = kr_expected r" by blast+
      qed
      have op: "kr_operator r \<in> {EQUALS, INTEGER_RANGE, SAME_VALUE}" using False ex by (cases "kr_operator r") simp_all
      note cmp = compare_values_yields [OF r op x y, where L = L]
      have cmp': "yields L (compare_values r (rule_value r docs) ?y) True (rule_outcome r (rule_verdict r docs raws))
          (compare_cost r (rule_value r docs) ?y) 0"
      proof -
        consider "kr_operator r = EQUALS" | "kr_operator r = INTEGER_RANGE" | "kr_operator r = SAME_VALUE" using op by auto
        then show ?thesis
          by cases (use cmp in \<open>simp_all add: rule_verdict_def\<close>)
      qed
      have "yields L (\<lambda>b. rbind (other_value r parsed b) (\<lambda>(y, b). compare_values r (rule_value r docs) y b)) (True \<and> True)
          (rule_outcome r (rule_verdict r docs raws)) (?c + compare_cost r (rule_value r docs) ?y) (0 + 0)"
        proof (rule yields_bind [OF other])
        show "yields L (compare_values r (rule_value r docs) ?y) True (rule_outcome r (rule_verdict r docs raws))
          (compare_cost r (rule_value r docs) ?y) 0" by (rule cmp')
      qed (use yields_nonneg [OF cmp] in simp_all)
      then have tail: "yields L (\<lambda>b. rbind (other_value r parsed b) (\<lambda>(y, b). compare_values r (rule_value r docs) y b)) True
          (rule_outcome r (rule_verdict r docs raws)) (?c + compare_cost r (rule_value r docs) ?y) 0" by simp
      have run: "yields L (\<lambda>b. rbind (value_at (docs (kr_artifact r)) (kr_path r) b)
            (\<lambda>(x, b). rbind (other_value r parsed b) (\<lambda>(y, b). compare_values r x y b))) (True \<and> True)
          (rule_outcome r (rule_verdict r docs raws))
          (path_cost (docs (kr_artifact r)) (kr_path r) + (?c + compare_cost r (rule_value r docs) ?y)) (0 + 0)"
        proof (rule yields_bind [OF at])
        show "yields L (\<lambda>b. rbind (other_value r parsed b) (\<lambda>(y, b). compare_values r (rule_value r docs) y b)) True
          (rule_outcome r (rule_verdict r docs raws)) (?c + compare_cost r (rule_value r docs) ?y) 0" by (rule tail)
      qed (use yields_nonneg [OF tail] in simp_all)
      have "rule_cost r docs raws - 1 = path_cost (docs (kr_artifact r)) (kr_path r) + (?c + compare_cost r (rule_value r docs) ?y)"
        using op by (auto simp: rule_cost_def)
      then show ?thesis
        using run l False ex by (simp add: json_rule_def [abs_def] lookup_item_def)
    qed
  qed
  from spends_yields [OF spends_charge [of 1] this] yields_nonneg [OF this]
  show ?thesis by (simp add: check_rule_step_def [abs_def])
qed

subsection \<open>Plans\<close>

definition check_plan_ok :: "runtime \<Rightarrow> check_plan \<Rightarrow> bool" where
  "check_plan_ok rt p \<longleftrightarrow> is_identifier (kp_id p) \<and> is_identifier (kp_workflow p) \<and> is_identifier (kp_scope p)
     \<and> is_identifier (kp_claim p) \<and> is_hash (kp_statement p) \<and> is_hash (kp_authority p) \<and> is_hash (kp_evidence p)
     \<and> 1 \<le> length (kp_inputs p) \<and> length (kp_inputs p) \<le> max_check_inputs \<and> distinct (map ar_id (kp_inputs p))
     \<and> sorted (map ar_id (kp_inputs p))
     \<and> (\<forall>a \<in> set (kp_inputs p). artifact_ok a \<and> ar_scope a = kp_scope p \<and> ar_claim a = kp_claim p)
     \<and> 1 \<le> length (kp_rules p) \<and> length (kp_rules p) \<le> max_check_rules \<and> distinct (map kr_id (kp_rules p))
     \<and> (\<forall>r \<in> set (kp_rules p). check_rule_ok r
          \<and> (\<forall>i \<in> set (rule_inputs r). \<exists>a \<in> set (kp_inputs p). ar_id a = i
               \<and> (kr_operator r = BYTES_EQUAL \<or> ar_media a = U ''application/json'')))
     \<and> set (concat (map rule_inputs (kp_rules p))) = set (map ar_id (kp_inputs p))
     \<and> int (length (CheckPlan_to_bytes rt p)) \<le> max_plan_bytes"

text \<open>The evaluation that the retained bytes determine.\<close>

definition plan_evaluation :: "runtime \<Rightarrow> nat \<Rightarrow> check_plan \<Rightarrow> (ustr \<Rightarrow> bytes) \<Rightarrow> check_evaluation" where
  "plan_evaluation rt recursion p raws = \<lparr>ke_plan = CheckPlan_digest rt p,
     ke_results = map (\<lambda>r. rule_outcome r (rule_verdict r (\<lambda>i. document_value recursion (raws i)) raws)) (kp_rules p)\<rparr>"

definition plan_work :: "runtime \<Rightarrow> nat \<Rightarrow> check_plan \<Rightarrow> (ustr \<Rightarrow> bytes) \<Rightarrow> int" where
  "plan_work rt recursion p raws = int (length (CheckPlan_to_bytes rt p))
     + (\<Sum>a \<leftarrow> kp_inputs p. int (length (raws (ar_id a))))
     + (\<Sum>i \<leftarrow> json_inputs p. int (length (raws i)) + document_nodes recursion (raws i))
     + (\<Sum>r \<leftarrow> kp_rules p. rule_cost r (\<lambda>i. document_value recursion (raws i)) raws)
     + int (length (CheckEvaluation_to_bytes rt (plan_evaluation rt recursion p raws)))"

definition plan_nodes :: "nat \<Rightarrow> check_plan \<Rightarrow> (ustr \<Rightarrow> bytes) \<Rightarrow> int" where
  "plan_nodes recursion p raws = (\<Sum>i \<leftarrow> json_inputs p. document_nodes recursion (raws i))"

text \<open>What the limits, the commitments and the profile ask for.\<close>

definition plan_admitted :: "runtime \<Rightarrow> nat \<Rightarrow> check_limits \<Rightarrow> check_plan \<Rightarrow> (ustr \<Rightarrow> bytes) \<Rightarrow> bool" where
  "plan_admitted rt recursion L p raws \<longleftrightarrow>
     int (length (CheckPlan_to_bytes rt p)) \<le> kl_plan_bytes L \<and> int (length (kp_rules p)) \<le> kl_rules L
     \<and> int (length (kp_inputs p)) \<le> kl_inputs L
     \<and> (\<forall>a \<in> set (kp_inputs p). ArtifactReference_matches rt a (raws (ar_id a)))
     \<and> (\<forall>i \<in> set (json_inputs p). document_ok recursion (kl_depth L) (kl_input_bytes L) (raws i))
     \<and> int (length (CheckEvaluation_to_bytes rt (plan_evaluation rt recursion p raws))) \<le> kl_output_bytes L"

lemma match_input_spends:
  "map_of retained (ar_id a) = Some raw
    \<Longrightarrow> spends L (\<lambda>b. match_input rt retained b a) (ArtifactReference_matches rt a raw) (int (length raw)) 0"
  by (auto simp: spends_def match_input_def lookup_item_def charge_def require_def affords_def spend_def)

lemma parse_input_yields:
  assumes "map_of retained i = Some raw"
  shows "yields L (\<lambda>b. parse_input recursion retained (docs, b) i) (document_ok recursion (kl_depth L) (kl_input_bytes L) raw)
    (docs @ [(i, document_value recursion raw)]) (int (length raw) + document_nodes recursion raw) (document_nodes recursion raw)"
proof -
  note doc = check_document_yields [of L recursion raw "kl_input_bytes L"]
  have "yields L (\<lambda>b. rbind (check_document recursion raw b (kl_input_bytes L)) (\<lambda>(v, b). Inr (docs @ [(i, v)], b)))
      (document_ok recursion (kl_depth L) (kl_input_bytes L) raw \<and> True) (docs @ [(i, document_value recursion raw)])
      (int (length raw) + document_nodes recursion raw + 0) (document_nodes recursion raw + 0)"
    by (rule yields_bind [OF doc]) (simp_all add: yields_return)
  then show ?thesis using assms by (simp add: parse_input_def lookup_item_def yields_def)
qed

lemma document_okD: "document_ok recursion d m raw \<Longrightarrow> check_profile (document_value recursion raw)"
  by (auto simp: document_ok_def document_value_def)

lemma json_inputs_set: "set (json_inputs p) = (\<Union>r \<in> {r \<in> set (kp_rules p). kr_operator r \<noteq> BYTES_EQUAL}. set (rule_inputs r))"
  by (auto simp: json_inputs_def)

lemma CheckEvaluation_init_plan:
  assumes "check_plan_ok rt p" "sha256_hex rt"
  shows "CheckEvaluation_init (JStr (rt_sha256 rt (CheckPlan_to_bytes rt p)))
      (map (\<lambda>r. rule_outcome r (v r)) (kp_rules p))
    = Inr \<lparr>ke_plan = CheckPlan_digest rt p, ke_results = map (\<lambda>r. rule_outcome r (v r)) (kp_rules p)\<rparr>"
  using assms
  by (simp add: CheckEvaluation_init_def hash_value_def check_plan_ok_def sha256_hex_def CheckPlan_digest_def rule_outcome_def comp_def)

text \<open>The last steps, from the end to the beginning.\<close>

lemma finish_yields:
  fixes raws :: "ustr \<Rightarrow> bytes" and recursion :: nat
  assumes p: "check_plan_ok rt p" and hex: "sha256_hex rt"
  defines "e \<equiv> plan_evaluation rt recursion p raws"
  shows "yields L (finish_evaluation rt p (ke_results e)) (int (length (CheckEvaluation_to_bytes rt e)) \<le> kl_output_bytes L) e
    (int (length (CheckEvaluation_to_bytes rt e))) 0"
proof -
  let ?out = "int (length (CheckEvaluation_to_bytes rt e))"
  have "yields L (\<lambda>b. rbind (charge ?out b) (\<lambda>b. Inr (e, b))) True e ?out 0" by (rule charge_then [OF yields_return]) simp
  then show ?thesis using CheckEvaluation_init_plan [OF p hex]
    by (auto simp: finish_evaluation_def e_def plan_evaluation_def Let_def yields_def)
qed

text \<open>The documents of a plan, and the bytes it retains, by identifier.\<close>

definition plan_docs :: "nat \<Rightarrow> (ustr \<Rightarrow> bytes) \<Rightarrow> ustr \<Rightarrow> json" where
  "plan_docs recursion raws i = document_value recursion (raws i)"

definition parsed_inputs :: "nat \<Rightarrow> check_plan \<Rightarrow> (ustr \<Rightarrow> bytes) \<Rightarrow> (ustr \<times> json) list" where
  "parsed_inputs recursion p raws = map (\<lambda>i. (i, plan_docs recursion raws i)) (json_inputs p)"

definition retains :: "check_plan \<Rightarrow> (ustr \<times> bytes) list \<Rightarrow> (ustr \<Rightarrow> bytes) \<Rightarrow> bool" where
  "retains p retained raws \<longleftrightarrow> (\<forall>i \<in> set (map ar_id (kp_inputs p)). map_of retained i = Some (raws i))"

lemma plan_reads:
  assumes "check_plan_ok rt p" "r \<in> set (kp_rules p)" "i \<in> set (rule_inputs r)"
  shows "i \<in> set (map ar_id (kp_inputs p))"
  using assms by (auto simp: check_plan_ok_def)

lemma run_rule_yields:
  assumes p: "check_plan_ok rt p" and ret: "retains p retained raws" and r: "r \<in> set (kp_rules p)"
    and D: "\<forall>i \<in> set (json_inputs p). check_profile (plan_docs recursion raws i)"
  shows "yields L (\<lambda>b. run_rule (parsed_inputs recursion p raws) retained (acc, b) r) True
    (acc @ [rule_outcome r (rule_verdict r (plan_docs recursion raws) raws)]) (rule_cost r (plan_docs recursion raws) raws) 0"
proof -
  have ok: "check_rule_ok r" using p r by (simp add: check_plan_ok_def)
  have doc: "map_of (parsed_inputs recursion p raws) i = Some (plan_docs recursion raws i) \<and> check_profile (plan_docs recursion raws i)"
    if "kr_operator r \<noteq> BYTES_EQUAL" "i \<in> set (rule_inputs r)" for i
  proof -
    have "i \<in> set (json_inputs p)" using r that by (auto simp: json_inputs_set)
    then show ?thesis using D by (auto simp: parsed_inputs_def map_of_map_restrict)
  qed
  have raw: "map_of retained i = Some (raws i)" if "i \<in> set (rule_inputs r)" for i
    using plan_reads [OF p r that] ret by (auto simp: retains_def)
  have c: "yields L (check_rule_step r (parsed_inputs recursion p raws) retained) True
      (rule_outcome r (rule_verdict r (plan_docs recursion raws) raws)) (rule_cost r (plan_docs recursion raws) raws) 0"
    using doc raw by (intro check_rule_step_yields [OF ok]) auto
  have "yields L (\<lambda>b. rbind (check_rule_step r (parsed_inputs recursion p raws) retained b) (\<lambda>(x, b). Inr (acc @ [x], b))) (True \<and> True)
      (acc @ [rule_outcome r (rule_verdict r (plan_docs recursion raws) raws)]) (rule_cost r (plan_docs recursion raws) raws + 0) (0 + 0)"
    by (rule yields_bind [OF c]) (simp_all add: yields_return)
  then show ?thesis by (simp add: run_rule_def)
qed

lemma rules_yields:
  fixes raws :: "ustr \<Rightarrow> bytes" and recursion :: nat
  assumes p: "check_plan_ok rt p" and hex: "sha256_hex rt" and ret: "retains p retained raws"
    and D: "\<forall>i \<in> set (json_inputs p). check_profile (plan_docs recursion raws i)"
  defines "e \<equiv> plan_evaluation rt recursion p raws"
  shows "yields L (\<lambda>b. rbind (rfold (run_rule (parsed_inputs recursion p raws) retained) ([], b) (kp_rules p))
        (\<lambda>(results, b). finish_evaluation rt p results b))
      (int (length (CheckEvaluation_to_bytes rt e)) \<le> kl_output_bytes L) e
      ((\<Sum>r \<leftarrow> kp_rules p. rule_cost r (plan_docs recursion raws) raws) + int (length (CheckEvaluation_to_bytes rt e))) 0"
proof -
  have loop: "yields L (\<lambda>b. rfold (run_rule (parsed_inputs recursion p raws) retained) ([], b) (kp_rules p)) True (ke_results e)
      (\<Sum>r \<leftarrow> kp_rules p. rule_cost r (plan_docs recursion raws) raws) 0"
    using yields_rfold [where acc = "[]" and P = "\<lambda>_. True" and m = "\<lambda>_. 0", OF run_rule_yields [OF p ret _ D]]
    by (simp add: e_def plan_evaluation_def plan_docs_def [abs_def])
  have "yields L (\<lambda>b. rbind (rfold (run_rule (parsed_inputs recursion p raws) retained) ([], b) (kp_rules p))
        (\<lambda>(results, b). finish_evaluation rt p results b))
      (True \<and> int (length (CheckEvaluation_to_bytes rt e)) \<le> kl_output_bytes L) e
      ((\<Sum>r \<leftarrow> kp_rules p. rule_cost r (plan_docs recursion raws) raws) + int (length (CheckEvaluation_to_bytes rt e))) (0 + 0)"
    by (rule yields_bind [OF loop]) (simp_all add: e_def finish_yields [OF p hex])
  then show ?thesis by simp
qed

lemma documents_yields:
  fixes raws :: "ustr \<Rightarrow> bytes" and recursion :: nat
  assumes p: "check_plan_ok rt p" and hex: "sha256_hex rt" and ret: "retains p retained raws"
  defines "e \<equiv> plan_evaluation rt recursion p raws"
  shows "yields L (\<lambda>b. rbind (rfold (parse_input recursion retained) ([], b) (json_inputs p)) (\<lambda>(parsed, b).
        rbind (rfold (run_rule parsed retained) ([], b) (kp_rules p)) (\<lambda>(results, b). finish_evaluation rt p results b)))
      ((\<forall>i \<in> set (json_inputs p). document_ok recursion (kl_depth L) (kl_input_bytes L) (raws i))
        \<and> int (length (CheckEvaluation_to_bytes rt e)) \<le> kl_output_bytes L) e
      ((\<Sum>i \<leftarrow> json_inputs p. int (length (raws i)) + document_nodes recursion (raws i))
        + ((\<Sum>r \<leftarrow> kp_rules p. rule_cost r (plan_docs recursion raws) raws) + int (length (CheckEvaluation_to_bytes rt e))))
      (plan_nodes recursion p raws)"
proof -
  let ?D = "\<forall>i \<in> set (json_inputs p). document_ok recursion (kl_depth L) (kl_input_bytes L) (raws i)"
  have "yields L (\<lambda>b. parse_input recursion retained (acc, b) i) (document_ok recursion (kl_depth L) (kl_input_bytes L) (raws i))
      (acc @ [(i, plan_docs recursion raws i)]) (int (length (raws i)) + document_nodes recursion (raws i)) (document_nodes recursion (raws i))"
    if "i \<in> set (json_inputs p)" for acc i
  proof -
    have "i \<in> set (map ar_id (kp_inputs p))" using plan_reads [OF p] that by (auto simp: json_inputs_set)
    then have "map_of retained i = Some (raws i)" using ret unfolding retains_def by blast
    from parse_input_yields [OF this] show ?thesis by (simp add: plan_docs_def)
  qed
  from yields_rfold [where acc = "[]", OF this]
  have loop: "yields L (\<lambda>b. rfold (parse_input recursion retained) ([], b) (json_inputs p)) ?D (parsed_inputs recursion p raws)
      (\<Sum>i \<leftarrow> json_inputs p. int (length (raws i)) + document_nodes recursion (raws i)) (plan_nodes recursion p raws)"
    by (simp add: parsed_inputs_def plan_nodes_def)
  have tail: "yields L (\<lambda>b. rbind (rfold (run_rule (parsed_inputs recursion p raws) retained) ([], b) (kp_rules p))
        (\<lambda>(results, b). finish_evaluation rt p results b))
      (int (length (CheckEvaluation_to_bytes rt e)) \<le> kl_output_bytes L) e
      ((\<Sum>r \<leftarrow> kp_rules p. rule_cost r (plan_docs recursion raws) raws) + int (length (CheckEvaluation_to_bytes rt e))) 0" if ?D
    unfolding e_def by (rule rules_yields [OF p hex ret]) (use document_okD that in \<open>auto simp: plan_docs_def\<close>)
  have nn: "0 \<le> (\<Sum>r \<leftarrow> kp_rules p. rule_cost r (plan_docs recursion raws) raws) + int (length (CheckEvaluation_to_bytes rt e))"
    by (intro add_nonneg_nonneg sum_list_nonneg) (auto simp: rule_cost_nonneg)
  have "yields L (\<lambda>b. rbind (rfold (parse_input recursion retained) ([], b) (json_inputs p)) (\<lambda>(parsed, b).
        rbind (rfold (run_rule parsed retained) ([], b) (kp_rules p)) (\<lambda>(results, b). finish_evaluation rt p results b)))
      (?D \<and> int (length (CheckEvaluation_to_bytes rt e)) \<le> kl_output_bytes L) e
      ((\<Sum>i \<leftarrow> json_inputs p. int (length (raws i)) + document_nodes recursion (raws i))
        + ((\<Sum>r \<leftarrow> kp_rules p. rule_cost r (plan_docs recursion raws) raws) + int (length (CheckEvaluation_to_bytes rt e))))
      (plan_nodes recursion p raws + 0)"
    by (rule yields_bind [OF loop], rule tail, assumption, rule nn, rule order_refl)
  then show ?thesis by simp
qed

text \<open>The whole evaluation of a plan whose inventory is retained.\<close>

lemma evaluate_plan_yields:
  fixes raws :: "ustr \<Rightarrow> bytes" and recursion :: nat
  assumes p: "check_plan_ok rt p" and hex: "sha256_hex rt" and ret: "retains p retained raws"
    and inv: "set (map fst retained) = set (map ar_id (kp_inputs p))"
  shows "yields L (evaluate_plan rt recursion p retained) (plan_admitted rt recursion L p raws)
    (plan_evaluation rt recursion p raws) (plan_work rt recursion p raws) (plan_nodes recursion p raws)"
proof -
  let ?e = "plan_evaluation rt recursion p raws" and ?enc = "int (length (CheckPlan_to_bytes rt p))"
  let ?size = "?enc \<le> kl_plan_bytes L \<and> int (length (kp_rules p)) \<le> kl_rules L \<and> int (length (kp_inputs p)) \<le> kl_inputs L"
  let ?M = "\<forall>a \<in> set (kp_inputs p). ArtifactReference_matches rt a (raws (ar_id a))"
  note docs = documents_yields [OF p hex ret, of L recursion]
  have step: "spends L (\<lambda>b. match_input rt retained b a) (ArtifactReference_matches rt a (raws (ar_id a))) (int (length (raws (ar_id a)))) 0"
    if "a \<in> set (kp_inputs p)" for a
    by (rule match_input_spends) (use ret that in \<open>auto simp: retains_def\<close>)
  from spends_rfold [OF step] have loop: "spends L (\<lambda>b. rfold (match_input rt retained) b (kp_inputs p)) ?M
      (\<Sum>a \<leftarrow> kp_inputs p. int (length (raws (ar_id a)))) 0" by simp
  note nn = yields_nonneg [OF docs]
  define rest where "rest b = rbind (rfold (match_input rt retained) b (kp_inputs p)) (\<lambda>b.
      rbind (rfold (parse_input recursion retained) ([], b) (json_inputs p)) (\<lambda>(parsed, b).
      rbind (rfold (run_rule parsed retained) ([], b) (kp_rules p)) (\<lambda>(results, b). finish_evaluation rt p results b)))" for b
  have r: "yields L rest (?M \<and> ((\<forall>i \<in> set (json_inputs p). document_ok recursion (kl_depth L) (kl_input_bytes L) (raws i))
        \<and> int (length (CheckEvaluation_to_bytes rt ?e)) \<le> kl_output_bytes L)) ?e
      (plan_work rt recursion p raws - ?enc) (plan_nodes recursion p raws)"
    using spends_yields [OF loop docs] nn unfolding rest_def [abs_def] plan_work_def plan_docs_def [abs_def] by (simp add: add.assoc)
  have c: "yields L (\<lambda>b. rbind (charge ?enc b) rest) (True \<and> (?M \<and> ((\<forall>i \<in> set (json_inputs p). document_ok recursion (kl_depth L) (kl_input_bytes L) (raws i))
        \<and> int (length (CheckEvaluation_to_bytes rt ?e)) \<le> kl_output_bytes L))) ?e
      (?enc + (plan_work rt recursion p raws - ?enc)) (0 + plan_nodes recursion p raws)"
    by (rule spends_yields [OF spends_charge r]) (use yields_nonneg [OF r] in simp_all)
  have run: "evaluate_plan rt recursion p retained b = (if ?size then rbind (charge ?enc b) rest
      else Inl (CheckLimitError ''plan exceeds the configured admission bound''))" if "kb_limits b = L" for b
    using that inv by (auto simp: evaluate_plan_def rest_def [abs_def] Let_def not_le)
  show ?thesis
  proof (cases ?size)
    case True
    have "yields L (evaluate_plan rt recursion p retained) (True \<and> (?M \<and> ((\<forall>i \<in> set (json_inputs p). document_ok recursion (kl_depth L) (kl_input_bytes L) (raws i))
        \<and> int (length (CheckEvaluation_to_bytes rt ?e)) \<le> kl_output_bytes L))) ?e
      (?enc + (plan_work rt recursion p raws - ?enc)) (0 + plan_nodes recursion p raws)"
      by (rule iffD2 [OF yields_limits c]) (simp add: run True)
    then show ?thesis by (rule yields_cong) (use True in \<open>auto simp: plan_admitted_def\<close>)
  next
    case False
    have "yields L (\<lambda>b. Inl (CheckLimitError ''plan exceeds the configured admission bound'')) False ?e
        (plan_work rt recursion p raws) (plan_nodes recursion p raws)"
      by (rule yields_fail) (use yields_nonneg [OF c] in simp_all)
    then have "yields L (evaluate_plan rt recursion p retained) False ?e (plan_work rt recursion p raws) (plan_nodes recursion p raws)"
      by (rule iffD2 [OF yields_limits, rotated]) (simp add: run False)
    then show ?thesis by (rule yields_cong) (use False in \<open>auto simp: plan_admitted_def\<close>)
  qed
qed

subsection \<open>The snapshot\<close>

definition snapshot_ok :: "check_limits \<Rightarrow> int \<Rightarrow> (ustr \<times> bytes) list \<Rightarrow> bool" where
  "snapshot_ok L extra contents \<longleftrightarrow> int (length contents) \<le> kl_inputs L + extra
     \<and> (\<forall>kv \<in> set contents. is_identifier (fst kv) \<and> int (length (snd kv)) \<le> kl_input_bytes L)
     \<and> (contents = [] \<or> (\<Sum>kv \<leftarrow> contents. int (length (snd kv))) \<le> kl_total_bytes L)"

lemma snapshot_loop:
  "rfold (snapshot_item L extra) (used, copied) xs = Inr (used', r) \<longleftrightarrow>
     used' = used + (\<Sum>kv \<leftarrow> xs. int (length (snd kv))) \<and> r = copied @ xs
     \<and> (\<forall>kv \<in> set xs. is_identifier (fst kv) \<and> int (length (snd kv)) \<le> kl_input_bytes L)
     \<and> (xs = [] \<or> used + (\<Sum>kv \<leftarrow> xs. int (length (snd kv))) \<le> kl_total_bytes L)
     \<and> (xs = [] \<or> int (length copied) + int (length xs) \<le> kl_inputs L + extra)"
proof (induction xs arbitrary: used copied)
  case (Cons x xs)
  obtain i raw where x: "x = (i, raw)" by fastforce
  have nn: "0 \<le> (\<Sum>kv \<leftarrow> xs. int (length (snd kv)))" by (rule sum_list_nonneg) auto
  show ?case
  proof (cases "int (length copied) \<ge> kl_inputs L + extra \<or> \<not> is_identifier i \<or> int (length raw) > kl_input_bytes L
      \<or> used + int (length raw) > kl_total_bytes L")
    case True
    then have "\<nexists>y. snapshot_item L extra (used, copied) x = Inr y" by (auto simp: snapshot_item_def x identifier_value_def Let_def)
    then show ?thesis using True nn by (cases "snapshot_item L extra (used, copied) x") (auto simp: x)
  next
    case False
    then have "snapshot_item L extra (used, copied) x = Inr (used + int (length raw), copied @ [x])"
      by (simp add: snapshot_item_def x identifier_value_def Let_def)
    then show ?thesis using False Cons.IH [of "used + int (length raw)" "copied @ [x]"] nn
      by (auto simp: x algebra_simps)
  qed
qed auto

lemma check_snapshot_Inr: "check_snapshot contents L extra = Inr r \<longleftrightarrow> r = contents \<and> snapshot_ok L extra contents"
  by (auto simp: check_snapshot_def snapshot_loop snapshot_ok_def)

subsection \<open>The evaluation of retained bytes\<close>

definition limits_ok :: "check_limits \<Rightarrow> bool" where
  "limits_ok l \<longleftrightarrow> 1 \<le> kl_inputs l \<and> kl_inputs l \<le> int max_check_inputs \<and> 1 \<le> kl_rules l \<and> kl_rules l \<le> int max_check_rules
     \<and> 1 \<le> kl_input_bytes l \<and> kl_input_bytes l \<le> 4 * 1024 * 1024 \<and> 1 \<le> kl_total_bytes l \<and> kl_total_bytes l \<le> 16 * 1024 * 1024
     \<and> 1 \<le> kl_depth l \<and> kl_depth l \<le> int max_check_depth \<and> 1 \<le> kl_nodes l \<and> kl_nodes l \<le> max_check_nodes
     \<and> 1 \<le> kl_work l \<and> kl_work l \<le> max_check_work \<and> 1 \<le> kl_plan_bytes l \<and> kl_plan_bytes l \<le> max_plan_bytes
     \<and> 1 \<le> kl_output_bytes l \<and> kl_output_bytes l \<le> max_output_bytes"

lemma CheckLimits_init_Inr:
  "CheckLimits_init (JInt (kl_inputs l)) (JInt (kl_rules l)) (JInt (kl_input_bytes l)) (JInt (kl_total_bytes l)) (JInt (kl_depth l))
    (JInt (kl_nodes l)) (JInt (kl_work l)) (JInt (kl_plan_bytes l)) (JInt (kl_output_bytes l)) = Inr l \<longleftrightarrow> limits_ok l"
  by (cases l) (auto simp: CheckLimits_init_def limits_ok_def)

lemma default_limits_ok: "limits_ok default_check_limits"
  by (simp add: limits_ok_def default_check_limits_def max_check_inputs_def max_check_rules_def max_check_depth_def max_check_nodes_def
      max_check_work_def max_plan_bytes_def max_output_bytes_def)

lemma fresh_affords: "limits_ok L \<Longrightarrow> affords n m (fresh_budget L) \<longleftrightarrow> n \<le> kl_work L \<and> m \<le> kl_nodes L"
  by (simp add: affords_def fresh_budget_def)

lemma fresh_limits [simp]: "kb_limits (fresh_budget L) = L"
  by (simp add: fresh_budget_def)

lemma evaluate_plan_inventory:
  "evaluate_plan rt recursion p retained b = Inr y \<Longrightarrow> set (map fst retained) = set (map ar_id (kp_inputs p))"
  by (auto simp: evaluate_plan_def Let_def split: if_splits)

definition retained_bytes :: "(ustr \<times> bytes) list \<Rightarrow> ustr \<Rightarrow> bytes" where
  "retained_bytes contents i = the (map_of contents i)"

lemma retains_bytes:
  assumes "set (map fst contents) = set (map ar_id (kp_inputs p))"
  shows "retains p contents (retained_bytes contents)"
  unfolding retains_def
proof
  fix i assume "i \<in> set (map ar_id (kp_inputs p))"
  then have "map_of contents i \<noteq> None" using assms by (metis map_of_eq_None_iff set_map)
  then show "map_of contents i = Some (retained_bytes contents i)" by (auto simp: retained_bytes_def)
qed

lemma evaluate_checks_Inr:
  fixes contents :: "(ustr \<times> bytes) list" and L :: check_limits
  assumes p: "check_plan_ok rt p" and hex: "sha256_hex rt" and L: "limits_ok L"
  defines "raws \<equiv> retained_bytes contents"
  shows "evaluate_checks rt recursion p contents (Some L) = Inr e \<longleftrightarrow>
    snapshot_ok L 0 contents \<and> set (map fst contents) = set (map ar_id (kp_inputs p)) \<and> plan_admitted rt recursion L p raws
    \<and> plan_work rt recursion p raws \<le> kl_work L \<and> plan_nodes recursion p raws \<le> kl_nodes L
    \<and> e = plan_evaluation rt recursion p raws"
proof (cases "set (map fst contents) = set (map ar_id (kp_inputs p))")
  case True
  have z: "affords 0 0 (fresh_budget L)" using L by (simp add: fresh_affords) (simp add: limits_ok_def)
  have "evaluate_plan rt recursion p contents (fresh_budget L) = Inr (e, b) \<longleftrightarrow>
      plan_admitted rt recursion L p raws \<and> e = plan_evaluation rt recursion p raws
      \<and> affords (plan_work rt recursion p raws) (plan_nodes recursion p raws) (fresh_budget L)
      \<and> b = spend (plan_work rt recursion p raws) (plan_nodes recursion p raws) (fresh_budget L)" for b
    using yieldsD [OF evaluate_plan_yields [OF p hex retains_bytes [OF True] True] fresh_limits z] by (simp add: raws_def)
  then show ?thesis using True L
    by (auto simp: evaluate_checks_def check_limits_of_def check_snapshot_Inr fresh_affords)
next
  case False
  then show ?thesis using evaluate_plan_inventory [of rt recursion p contents]
    by (auto simp: evaluate_checks_def check_limits_of_def check_snapshot_Inr)
qed

end
