(* ===== verification/Check_Roundtrip.thy ===== *)
theory Check_Roundtrip
  imports Check_Lemmas
begin

text \<open>
  Canonical documents of the check profile pass the check reader: the lexical scan stays within their nesting, the parser
  returns them with their members in order, and the walk accepts them. So plans, policies and evaluations read back from
  their bytes.
\<close>

subsection \<open>The lexical scan of canonical text\<close>

lemma utf8_char_high: "x \<in> set (utf8_char c) \<Longrightarrow> 128 \<le> c \<Longrightarrow> 128 \<le> x"
  by (auto simp: utf8_char_def split: if_splits)

lemma utf8_bytes: "x \<in> set (utf8 s) \<Longrightarrow> x < 128 \<Longrightarrow> x \<in> set s"
proof -
  have "x \<in> set (utf8_char c) \<Longrightarrow> x < 128 \<Longrightarrow> x = c" for c
    using utf8_char_high [of x c] by (cases "c < 128") (auto simp: utf8_char_def)
  then show "x \<in> set (utf8 s) \<Longrightarrow> x < 128 \<Longrightarrow> x \<in> set s" by (auto simp: utf8_def)
qed

lemma lexical_steps [simp]:
  "lexical_step m (d, False, False) 34 = Inr (d, True, False)"
  "lexical_step m (d, True, False) 34 = Inr (d, False, False)"
  "lexical_step m (d, True, False) 92 = Inr (d, True, True)"
  "lexical_step m (d, True, True) b = Inr (d, True, False)"
  "d + 1 \<le> m \<Longrightarrow> lexical_step m (d, False, False) 91 = Inr (d + 1, False, False)"
  "d + 1 \<le> m \<Longrightarrow> lexical_step m (d, False, False) 123 = Inr (d + 1, False, False)"
  "lexical_step m (d, False, False) 93 = Inr (d - 1, False, False)"
  "lexical_step m (d, False, False) 125 = Inr (d - 1, False, False)"
  "b \<notin> {34, 91, 93, 123, 125} \<Longrightarrow> lexical_step m (d, False, False) b = Inr (d, False, False)"
  "b \<notin> {34, 92} \<Longrightarrow> lexical_step m (d, True, False) b = Inr (d, True, False)"
  by (auto simp: lexical_step_def)

text \<open>Bytes that no branch of the scan looks at.\<close>

lemma lexical_idle:
  "\<forall>b \<in> set xs. b \<notin> {34, 91, 93, 123, 125} \<Longrightarrow> rfold (lexical_step m) (d, False, False) (xs @ r) = rfold (lexical_step m) (d, False, False) r"
  by (induction xs) auto

lemma lexical_quoted_idle:
  "\<forall>b \<in> set xs. b \<notin> {34, 92} \<Longrightarrow> rfold (lexical_step m) (d, True, False) (xs @ r) = rfold (lexical_step m) (d, True, False) r"
  by (induction xs) auto

lemma lexical_esc: "rfold (lexical_step m) (d, True, False) (utf8 (esc c) @ r) = rfold (lexical_step m) (d, True, False) r"
proof -
  have pair: "rfold (lexical_step m) (d, True, False) ([92, x] @ r) = rfold (lexical_step m) (d, True, False) r" for x r
    by simp
  consider "c \<in> {34, 92, 10, 13, 9, 8, 12}" | "c < 32" "c \<notin> {34, 92, 10, 13, 9, 8, 12}" | "32 \<le> c" "c \<notin> {34, 92}" by fastforce
  then show ?thesis
  proof cases
    case 1
    then obtain x where "esc c = [92, x]" "x < 128" by (auto simp: esc_def)
    then have "utf8 (esc c) = [92, x]" by (simp add: utf8_small)
    then show ?thesis using pair by simp
  next
    case 2
    then have "c div 16 < 16" "c mod 16 < 16" by simp_all
    then have "hex_char (c div 16) \<notin> {34, 92} \<and> hex_char (c div 16) < 128" "hex_char (c mod 16) \<notin> {34, 92} \<and> hex_char (c mod 16) < 128"
      by (auto simp: hex_char_def)
    then have "utf8 (esc c) = [92, 117] @ [48, 48, hex_char (c div 16), hex_char (c mod 16)]"
        "\<forall>b \<in> set [48, 48, hex_char (c div 16), hex_char (c mod 16)]. b \<notin> {34, 92}"
      using 2 by (auto simp: esc_def utf8_def utf8_char_def)
    then show ?thesis using pair lexical_quoted_idle by (metis append.assoc)
  next
    case 3
    then have "utf8 (esc c) = utf8 [c]" by (auto simp: esc_def)
    moreover have "\<forall>b \<in> set (utf8 [c]). b \<notin> {34, 92}" using utf8_bytes [of _ "[c]"] 3 by fastforce
    ultimately show ?thesis using lexical_quoted_idle by metis
  qed
qed

lemma lexical_str: "rfold (lexical_step m) (d, False, False) (utf8 (str_enc s) @ r) = rfold (lexical_step m) (d, False, False) r"
proof -
  have body: "rfold (lexical_step m) (d, True, False) (utf8 (concat (map esc s)) @ r) = rfold (lexical_step m) (d, True, False) r" for r
    by (induction s) (simp_all add: utf8_app lexical_esc, simp add: utf8_def)
  have "utf8 (str_enc s) = 34 # utf8 (concat (map esc s)) @ [34]"
    by (simp add: str_enc_def utf8_app) (simp add: utf8_def utf8_char_def)
  then show ?thesis using body [of "34 # r"] by simp
qed

lemma utf8_Cons: "c < 128 \<Longrightarrow> utf8 (c # s) = c # utf8 s"
  by (simp add: utf8_def utf8_char_def)

text \<open>The items of a container, each of which leaves the state as it was.\<close>

lemma lexical_items:
  assumes "\<And>x r. x \<in> set xs \<Longrightarrow> rfold (lexical_step m) (d + 1, False, False) (utf8 (f x) @ r) = rfold (lexical_step m) (d + 1, False, False) r"
    and "c = 93 \<or> c = 125"
  shows "rfold (lexical_step m) (d + 1, False, False) (utf8 (items f c xs) @ r) = rfold (lexical_step m) (d, False, False) r"
  using assms
proof (induction f c xs rule: items.induct)
  case (1 f c)
  then show ?case by (auto simp: utf8_def utf8_char_def)
next
  case (2 f c x)
  then show ?case by (auto simp: utf8_app utf8_Cons) (auto simp: utf8_def)
next
  case (3 f c x y zs)
  have "rfold (lexical_step m) (d + 1, False, False) (utf8 (items f c (y # zs)) @ r) = rfold (lexical_step m) (d, False, False) r"
    by (rule 3(1)) (use 3 in auto)
  moreover have "rfold (lexical_step m) (d + 1, False, False) (utf8 (f x) @ s) = rfold (lexical_step m) (d + 1, False, False) s" for s
    by (rule 3(2)) simp
  ultimately show ?case by (simp add: utf8_app utf8_Cons)
qed

lemma lexical_enc:
  assumes "check_profile v" "nested k v" "d + int k \<le> m" "0 \<le> d"
  shows "rfold (lexical_step m) (d, False, False) (utf8 (enc rt v) @ r) = rfold (lexical_step m) (d, False, False) r"
  using assms
proof (induction v arbitrary: d k r)
  case (JInt i)
  have "\<forall>b \<in> set (utf8 (int_str i)). b \<notin> {34, 91, 93, 123, 125}"
    using utf8_bytes [of _ "int_str i"] int_str_chars [of i] by (fastforce simp: list_all_iff)
  then show ?case by (simp add: lexical_idle)
next
  case (JArr xs)
  obtain e where k: "k = Suc e" "list_all (nested e) xs" using JArr.prems(2) by (cases k) auto
  have el: "rfold (lexical_step m) (d + 1, False, False) (utf8 (enc rt x) @ r) = rfold (lexical_step m) (d + 1, False, False) r"
    if "x \<in> set xs" for x r
    by (rule JArr.IH [OF that, of e]) (use that JArr.prems k in \<open>auto simp: list_all_iff\<close>)
  show ?case using lexical_items [of xs m d "enc rt" 93, OF el] JArr.prems(3,4) k(1) by (simp add: utf8_Cons)
next
  case (JObj kvs)
  obtain e where k: "k = Suc e" "list_all (\<lambda>kv. nested e (snd kv)) kvs" using JObj.prems(2) by (cases k) auto
  have el: "rfold (lexical_step m) (d + 1, False, False) (utf8 (str_enc (fst kv) @ 58 # enc rt (snd kv)) @ r)
      = rfold (lexical_step m) (d + 1, False, False) r" if "kv \<in> set kvs" for kv r
  proof -
    have "rfold (lexical_step m) (d + 1, False, False) (utf8 (enc rt (snd kv)) @ r) = rfold (lexical_step m) (d + 1, False, False) r"
      by (rule JObj.IH [of kv _ e]) (use that JObj.prems k in \<open>auto simp: list_all_iff snds.simps\<close>)
    then show ?thesis by (simp add: utf8_app utf8_Cons lexical_str)
  qed
  show ?case using lexical_items [of kvs m d "\<lambda>kv. str_enc (fst kv) @ 58 # enc rt (snd kv)" 125, OF el] JObj.prems(3,4) k(1) by (simp add: utf8_Cons)
next
  case (JStr s)
  then show ?case by (simp add: lexical_str)
qed (auto simp: U_def utf8_def utf8_char_def)

subsection \<open>Canonical documents are accepted\<close>

lemma profile_texts: "check_profile v \<Longrightarrow> texts scalar v"
proof (induction v rule: canon.induct)
  case (7 kvs)
  have "list_all scalar (fst kv) \<and> texts scalar (snd kv)" if "kv \<in> set kvs" for kv
    using 7 xml_scalars [of "fst kv"] that by (auto simp: list_all_iff check_key_def)
  then show ?case by (simp add: list_all_iff)
qed (auto simp: list_all_iff dest: xml_scalars)

lemma safe_integer_reads:
  assumes "safe_int i"
  shows "safe_integer (int_str i) = Inr (JInt i)"
proof -
  have small: "\<bar>i\<bar> < 10 ^ Suc 15" using assms by (auto simp: safe_int_def safe_integer_max_def)
  have "length (digits_of n) \<le> Suc 15" if "0 \<le> n" "n < 10 ^ Suc 15" for n
    using int_str_length [OF that] that(1) by (simp add: int_str_def)
  from this [of i] this [of "- i"] have "length (int_str i) \<le> 17" using small by (auto simp: int_str_def)
  moreover have "int_value (int_str i) = Inr (JInt i)" by (rule int_value_small [OF small]) (simp add: max_str_digits_def)
  ultimately show ?thesis using assms by (auto simp: safe_integer_def safe_int_def)
qed

text \<open>Objects with distinct keys, at every depth.\<close>

fun distinct_keys :: "json \<Rightarrow> bool" where
  "distinct_keys (JArr xs) = list_all distinct_keys xs"
| "distinct_keys (JObj kvs) = (distinct (map fst kvs) \<and> list_all (\<lambda>kv. distinct_keys (snd kv)) kvs)"
| "distinct_keys v = True"

lemma profile_readable: "check_profile v \<Longrightarrow> distinct_keys v \<Longrightarrow> readable check_hooks rt v"
  by (induction v rule: canon.induct) (auto simp: list_all_iff check_hooks_def safe_integer_reads)

lemma profile_canon [simp]: "check_profile (canon v) = check_profile v"
  by (induction v rule: canon.induct) (auto simp: list_all_iff)

lemma nodes_canon [simp]: "json_nodes (canon v) = json_nodes v"
proof (induction v rule: canon.induct)
  case (6 xs)
  then show ?case by (simp add: comp_def cong: map_cong)
next
  case (7 kvs)
  let ?g = "\<lambda>kv. (fst kv, canon (snd kv))"
  have "(\<Sum>kv \<leftarrow> sort_key fst (map ?g kvs). json_nodes (snd kv)) = (\<Sum>kv \<leftarrow> map ?g kvs. json_nodes (snd kv))"
    by (simp only: sum_mset_sum_list [symmetric] mset_map mset_sort)
  also have "\<dots> = (\<Sum>kv \<leftarrow> kvs. json_nodes (snd kv))" using 7 by (simp add: comp_def cong: map_cong)
  finally show ?case by simp
qed simp_all

lemma canonical_document:
  assumes rt: "repr_contract rt" "repr_reads rt"
    and v: "check_profile v" "distinct_keys v" "nested k v" "k \<le> recursion" "int k \<le> depth"
    and len: "int (length (canonical_bytes rt v)) \<le> maximum"
  shows "parse_document recursion (canonical_bytes rt v) = Inr (canon v)"
    and "document_ok recursion depth maximum (canonical_bytes rt v)"
proof -
  have fin: "json_finite v" using readable_finite [OF profile_readable [OF v(1,2)]] .
  have "decode (canonical_bytes rt v) = Inr (dumps rt v)" by (rule decode_canonical [OF rt(1) fin profile_texts [OF v(1)]])
  moreover have "nested recursion v" by (rule nested_mono [OF v(3,4)])
  then have "json_loads check_hooks recursion (dumps rt v) = Inr (canon v)"
    by (rule loads_dumps [OF rt profile_readable [OF v(1,2)]])
  ultimately show parse: "parse_document recursion (canonical_bytes rt v) = Inr (canon v)" by (simp add: parse_document_def)
  have "rfold (lexical_step depth) (0, False, False) (utf8 (enc rt (canon v)) @ []) = rfold (lexical_step depth) (0, False, False) []"
    by (rule lexical_enc [of _ k]) (use v in simp_all)
  then have "lexical_ok depth (canonical_bytes rt v)" by (simp add: lexical_ok_def canonical_bytes_def dumps_def)
  then show "document_ok recursion depth maximum (canonical_bytes rt v)" using parse v(1) len by (simp add: document_ok_def)
qed

lemma canonical_document_value:
  assumes "repr_contract rt" "repr_reads rt" "check_profile v" "distinct_keys v" "nested k v" "k \<le> recursion"
  shows "document_value recursion (canonical_bytes rt v) = canon v"
  using canonical_document(1) [OF assms, of "int k" "int (length (canonical_bytes rt v))"] by (simp add: document_value_def)

subsection \<open>Records read back\<close>

lemma dget_sort_key:
  assumes "distinct (map fst kvs)"
  shows "dget (sort_key f kvs) k = dget kvs k" and "map_of (sort_key f kvs) u = map_of kvs u"
  using map_of_sort_key [OF assms, of f] by (simp_all add: dget_def dget_or_def)

lemma exact_fields_cases:
  "exact_fields (JObj kvs) names path
    = (if set (map fst kvs) = set (map U names) then Inr kvs else Inl (ValidationError (path @ '' must contain exactly its fields'')))"
  by (simp add: exact_fields_def)

lemma ArtifactReference_from_dict_sorted:
  "distinct (map fst kvs) \<Longrightarrow> ArtifactReference_from_dict (JObj (sort_key f kvs)) = ArtifactReference_from_dict (JObj kvs)"
  by (simp add: ArtifactReference_from_dict_def exact_fields_cases dget_sort_key)

lemma CheckRule_from_dict_sorted:
  "distinct (map fst kvs) \<Longrightarrow> CheckRule_from_dict (JObj (sort_key f kvs)) = CheckRule_from_dict (JObj kvs)"
  by (simp add: CheckRule_from_dict_def exact_fields_cases dget_sort_key tuple_member_def split: option.split json.split)

lemma CheckPlan_from_dict_sorted:
  "distinct (map fst kvs) \<Longrightarrow> CheckPlan_from_dict rt (JObj (sort_key f kvs)) = CheckPlan_from_dict rt (JObj kvs)"
  by (simp add: CheckPlan_from_dict_def exact_fields_cases dget_sort_key check_wire_def)

text \<open>A document whose members have no members to sort is the sorted list of its members.\<close>

lemma canon_members: "\<forall>kv \<in> set kvs. canon (snd kv) = snd kv \<Longrightarrow> canon (JObj kvs) = JObj (sort_key fst kvs)"
  by (simp add: map_idI)

lemma check_scalar_canon: "check_scalar v \<Longrightarrow> canon v = v"
  by (cases v) simp_all

lemma path_json_canon [simp]: "canon (path_part_json p) = path_part_json p"
  by (cases p) simp_all

lemma ArtifactReference_canon: "artifact_ok a \<Longrightarrow> ArtifactReference_from_dict (canon (ArtifactReference_to_dict a)) = Inr a"
proof -
  assume a: "artifact_ok a"
  obtain kvs where k: "ArtifactReference_to_dict a = JObj kvs" by (simp add: ArtifactReference_to_dict_def)
  then have d: "distinct (map fst kvs)" "\<forall>kv \<in> set kvs. canon (snd kv) = snd kv" by (auto simp: ArtifactReference_to_dict_def)
  show ?thesis
    using ArtifactReference_roundtrip [OF a] ArtifactReference_from_dict_sorted [OF d(1), of fst] unfolding k canon_members [OF d(2)] by simp
qed

lemma member_of_operator [simp]: "member_of operator_value operators_all (U (operator_value op)) = Some op"
  by (cases op) (simp_all add: member_of_def operators_all_def)

lemma CheckRule_roundtrip:
  assumes r: "check_rule_ok r"
  shows "CheckRule_from_dict (CheckRule_to_dict r) = Inr r"
proof -
  have len: "length (kr_path r) \<le> max_check_depth" "kr_other_path r = Some p \<Longrightarrow> length p \<le> max_check_depth" for p
    using r by (cases "kr_operator r"; auto simp: check_rule_ok_def path_ok_def)+
  have init: "CheckRule_init (JStr (kr_id r)) (kr_operator r) (JStr (kr_artifact r)) (map path_part_json (kr_path r)) (kr_expected r)
      (case kr_minimum r of None \<Rightarrow> JNull | Some n \<Rightarrow> JInt n) (case kr_maximum r of None \<Rightarrow> JNull | Some n \<Rightarrow> JInt n)
      (JOpt (kr_other r)) (map_option (map path_part_json) (kr_other_path r)) = Inr r"
    using r by (simp add: CheckRule_init_Inr)
  show ?thesis
    using r init len member_of_operator [of "kr_operator r"]
    by (cases "kr_operator r")
      (auto simp: CheckRule_from_dict_def CheckRule_to_dict_def exact_fields_cases rule_fields_def tuple_member_def check_rule_ok_def
        JText_def JOpt_def dget_def dget_or_def)
qed

lemma CheckRule_canon:
  assumes "check_rule_ok r"
  shows "CheckRule_from_dict (canon (CheckRule_to_dict r)) = Inr r"
proof -
  obtain kvs where k: "CheckRule_to_dict r = JObj kvs" by (simp add: CheckRule_to_dict_def)
  then have d: "distinct (map fst kvs)" by (auto simp: CheckRule_to_dict_def split: option.splits if_splits)
  have "\<And>v. kr_expected r = Some v \<Longrightarrow> check_scalar v" using assms by (auto simp: check_rule_ok_def split: if_splits)
  then have c: "\<forall>kv \<in> set kvs. canon (snd kv) = snd kv"
    using k check_scalar_canon by (auto simp: CheckRule_to_dict_def JText_def split: option.splits if_splits)
  show ?thesis using CheckRule_roundtrip [OF assms] CheckRule_from_dict_sorted [OF d, of fst] unfolding k canon_members [OF c] by simp
qed

lemma rule_input_declared_Inr:
  assumes "distinct (map ar_id ins)"
  shows "rule_input_declared ins r i = Inr u \<longleftrightarrow>
    (\<exists>a \<in> set ins. ar_id a = i \<and> (kr_operator r = BYTES_EQUAL \<or> ar_media a = U ''application/json''))"
proof -
  have d: "distinct (map fst (map (\<lambda>a. (ar_id a, a)) ins))" using assms by (simp add: comp_def)
  show ?thesis
  proof (cases "map_of (map (\<lambda>a. (ar_id a, a)) ins) i")
    case None
    then have "i \<notin> ar_id ` set ins" by (auto simp: map_of_eq_None_iff image_image)
    then show ?thesis using None by (auto simp: rule_input_declared_def)
  next
    case (Some a)
    then have "a \<in> set ins" "ar_id a = i" by (auto dest!: map_of_SomeD)
    moreover have "\<forall>b \<in> set ins. ar_id b = i \<longrightarrow> b = a"
      using calculation assms by (auto simp: distinct_map inj_on_def)
    moreover have "rule_input_declared ins r i = Inr u \<longleftrightarrow> kr_operator r = BYTES_EQUAL \<or> ar_media a = U ''application/json''"
      using Some by (simp add: rule_input_declared_def)
    ultimately show ?thesis by blast
  qed
qed

lemma rule_inputs_declared:
  assumes "distinct (map ar_id ins)"
  shows "(\<exists>u. rmap (\<lambda>r. rmap (rule_input_declared ins r) (rule_inputs r)) rules = Inr u) \<longleftrightarrow>
    (\<forall>r \<in> set rules. \<forall>i \<in> set (rule_inputs r). \<exists>a \<in> set ins. ar_id a = i \<and> (kr_operator r = BYTES_EQUAL \<or> ar_media a = U ''application/json''))"
proof -
  have inner: "(\<exists>u. rmap (rule_input_declared ins r) is = Inr u) \<longleftrightarrow>
      (\<forall>i \<in> set is. \<exists>a \<in> set ins. ar_id a = i \<and> (kr_operator r = BYTES_EQUAL \<or> ar_media a = U ''application/json''))" for r "is"
    by (induction "is") (auto simp: rule_input_declared_Inr [OF assms])
  show ?thesis
  proof (induction rules)
    case (Cons r rules)
    then show ?case using inner [of r "rule_inputs r"] by auto
  qed simp
qed

lemma CheckPlan_init_Inr:
  "CheckPlan_init rt i w s c st au ev ins rules = Inr p \<longleftrightarrow>
     i = JStr (kp_id p) \<and> w = JStr (kp_workflow p) \<and> s = JStr (kp_scope p) \<and> c = JStr (kp_claim p) \<and> st = JStr (kp_statement p)
     \<and> au = JStr (kp_authority p) \<and> ev = JStr (kp_evidence p) \<and> kp_inputs p = sort_key ar_id ins \<and> kp_rules p = rules
     \<and> is_identifier (kp_id p) \<and> is_identifier (kp_workflow p) \<and> is_identifier (kp_scope p) \<and> is_identifier (kp_claim p)
     \<and> is_hash (kp_statement p) \<and> is_hash (kp_authority p) \<and> is_hash (kp_evidence p)
     \<and> 1 \<le> length ins \<and> length ins \<le> max_check_inputs \<and> distinct (map ar_id ins)
     \<and> (\<forall>a \<in> set ins. ar_scope a = kp_scope p \<and> ar_claim a = kp_claim p)
     \<and> 1 \<le> length rules \<and> length rules \<le> max_check_rules \<and> distinct (map kr_id rules)
     \<and> (\<forall>r \<in> set rules. \<forall>i \<in> set (rule_inputs r). \<exists>a \<in> set ins. ar_id a = i \<and> (kr_operator r = BYTES_EQUAL \<or> ar_media a = U ''application/json''))
     \<and> set (concat (map rule_inputs rules)) = set (map ar_id ins)
     \<and> int (length (CheckPlan_to_bytes rt p)) \<le> max_plan_bytes" (is "?L \<longleftrightarrow> ?R")
proof (cases "distinct (map ar_id ins)")
  case True
  note decl = rule_inputs_declared [OF True, of rules]
  show ?thesis
  proof
    assume ?L
    then show ?R using decl by (cases p) (auto simp: CheckPlan_init_def Let_def list_all_iff split: if_splits)
  next
    assume R: ?R
    then obtain u where "rmap (\<lambda>r. rmap (rule_input_declared ins r) (rule_inputs r)) rules = Inr u" using decl by blast
    then show ?L using R by (cases p) (auto simp: CheckPlan_init_def Let_def list_all_iff)
  qed
qed (auto simp: CheckPlan_init_def)

lemma CheckPlan_init_ok:
  assumes "CheckPlan_init rt i w s c st au ev ins rules = Inr p" "\<forall>a \<in> set ins. artifact_ok a" "\<forall>r \<in> set rules. check_rule_ok r"
  shows "check_plan_ok rt p"
  using assms unfolding CheckPlan_init_Inr check_plan_ok_def by auto

lemma CheckPlan_init_id:
  "check_plan_ok rt p \<Longrightarrow> CheckPlan_init rt (JStr (kp_id p)) (JStr (kp_workflow p)) (JStr (kp_scope p)) (JStr (kp_claim p))
    (JStr (kp_statement p)) (JStr (kp_authority p)) (JStr (kp_evidence p)) (kp_inputs p) (kp_rules p) = Inr p"
  unfolding CheckPlan_init_Inr check_plan_ok_def by (auto simp: sort_key_sorted)

lemma CheckRule_from_dict_ok: "CheckRule_from_dict v = Inr r \<Longrightarrow> check_rule_ok r"
  by (auto simp: CheckRule_from_dict_def CheckRule_init_Inr split: json.splits option.splits)

lemma CheckPlan_from_dict_ok:
  assumes "CheckPlan_from_dict rt v = Inr p"
  shows "check_plan_ok rt p"
proof -
  obtain data xs references ys rules where r: "rmap ArtifactReference_from_dict xs = Inr references" "rmap CheckRule_from_dict ys = Inr rules"
    "CheckPlan_init rt (dget data ''plan_id'') (dget data ''workflow_id'') (dget data ''scope'') (dget data ''claim_id'')
       (dget data ''statement_digest'') (dget data ''authority_digest'') (dget data ''evidence_head'') references rules = Inr p"
    using assms by (auto simp: CheckPlan_from_dict_def)
  have "\<forall>a \<in> set references. artifact_ok a"
    using rmap_Inr_elem_rev [OF r(1)] by (auto simp: ArtifactReference_from_dict_def dest: ArtifactReference_init_Inr)
  moreover have "\<forall>r \<in> set rules. check_rule_ok r" using rmap_Inr_elem_rev [OF r(2)] CheckRule_from_dict_ok by blast
  ultimately show ?thesis using CheckPlan_init_ok [OF r(3)] by blast
qed

subsection \<open>Plans read back from their bytes\<close>

lemma is_object_canon [simp]: "is_object (canon v) = is_object v"
  by (cases v) simp_all

lemma artifact_object: "is_object (ArtifactReference_to_dict a)"
  by (simp add: ArtifactReference_to_dict_def)

lemma CheckPlan_canon:
  assumes p: "check_plan_ok rt p"
  shows "CheckPlan_from_dict rt (canon (CheckPlan_to_dict p)) = Inr p"
proof -
  let ?c = "\<lambda>kv. (fst kv, canon (snd kv))"
  obtain kvs where k: "CheckPlan_to_dict p = JObj kvs" by (simp add: CheckPlan_to_dict_def)
  then have d: "distinct (map fst (map ?c kvs))" by (auto simp: CheckPlan_to_dict_def)
  have ins: "rmap ArtifactReference_from_dict (map (canon \<circ> ArtifactReference_to_dict) (kp_inputs p)) = Inr (kp_inputs p)"
    using p by (auto simp: rmap_Inr_iff list_all2_conv_all_nth check_plan_ok_def ArtifactReference_canon)
  have rules: "rmap CheckRule_from_dict (map (canon \<circ> CheckRule_to_dict) (kp_rules p)) = Inr (kp_rules p)"
    using p by (auto simp: rmap_Inr_iff list_all2_conv_all_nth check_plan_ok_def CheckRule_canon)
  have obj: "list_all is_object (map (canon \<circ> ArtifactReference_to_dict) (kp_inputs p))"
    by (simp add: list_all_iff artifact_object)
  have len: "length (kp_inputs p) \<le> max_check_inputs" "length (kp_rules p) \<le> max_check_rules" using p by (simp_all add: check_plan_ok_def)
  have "JObj (map ?c kvs) = JObj [(U ''kind'', JText ''evidence-braid-check-plan''), (U ''schema_version'', JText ''1.0''),
      (U ''engine_version'', JText check_engine_version), (U ''plan_id'', JStr (kp_id p)),
      (U ''workflow_id'', JStr (kp_workflow p)), (U ''scope'', JStr (kp_scope p)), (U ''claim_id'', JStr (kp_claim p)),
      (U ''statement_digest'', JStr (kp_statement p)), (U ''authority_digest'', JStr (kp_authority p)),
      (U ''evidence_head'', JStr (kp_evidence p)),
      (U ''inputs'', JArr (map (canon \<circ> ArtifactReference_to_dict) (kp_inputs p))),
      (U ''rules'', JArr (map (canon \<circ> CheckRule_to_dict) (kp_rules p)))]"
    using k by (auto simp: CheckPlan_to_dict_def JText_def)
  then have "CheckPlan_from_dict rt (JObj (map ?c kvs)) = Inr p"
    using ins rules obj len CheckPlan_init_id [OF p]
    by (simp add: CheckPlan_from_dict_def exact_fields_cases check_plan_fields_def check_wire_def)
  then show ?thesis using CheckPlan_from_dict_sorted [OF d, of rt fst] by (simp add: k)
qed

lemma identifier_scalar: "is_identifier s \<Longrightarrow> check_scalar (JStr s)"
  using identifier_text_ok [of s] by (auto simp: is_identifier_def text_ok_def)

lemma check_hash_scalar: "is_hash s \<Longrightarrow> check_scalar (JStr s)"
  by (auto simp: is_hash_def is_xml_character_def hex_digit_def list_all_iff)

lemma ascii_literal: "list_all (\<lambda>c. 32 \<le> c \<and> c < 127) (U s) \<Longrightarrow> length s \<le> 65536 \<Longrightarrow> check_key (U s)"
  by (auto simp: check_key_def is_xml_character_def list_all_iff)

lemma check_key_scalar: "check_key s \<Longrightarrow> check_scalar (JStr s)"
  by (simp add: check_key_def)

lemma plan_keys:
  "check_key (U ''kind'')" "check_key (U ''schema_version'')" "check_key (U ''engine_version'')" "check_key (U ''plan_id'')"
  "check_key (U ''workflow_id'')" "check_key (U ''scope'')" "check_key (U ''claim_id'')" "check_key (U ''statement_digest'')"
  "check_key (U ''authority_digest'')" "check_key (U ''evidence_head'')" "check_key (U ''inputs'')" "check_key (U ''rules'')"
  "check_key (U ''rule_id'')" "check_key (U ''operator'')" "check_key (U ''artifact_id'')" "check_key (U ''path'')"
  "check_key (U ''expected'')" "check_key (U ''minimum'')" "check_key (U ''maximum'')" "check_key (U ''other_artifact_id'')"
  "check_key (U ''other_path'')" "check_key (U ''sha256'')" "check_key (U ''size_bytes'')" "check_key (U ''media_type'')"
  "check_key (U ''evidence-braid-check-plan'')" "check_key (U ''1.0'')" "check_key (U check_engine_version)"
  "check_key (U (operator_value op))"
  by (simp_all add: check_key_def is_xml_character_def U_def check_engine_version_def) (cases op; simp)

text \<open>Documents of the profile with distinct keys and a bounded nesting.\<close>

definition document_like :: "nat \<Rightarrow> json \<Rightarrow> bool" where
  "document_like d v \<longleftrightarrow> check_profile v \<and> distinct_keys v \<and> nested d v"

lemma like_scalar: "check_scalar v \<Longrightarrow> document_like d v"
  by (cases v) (auto simp: document_like_def)

lemma like_text: "check_key (U s) \<Longrightarrow> document_like d (JText s)"
  unfolding JText_def by (rule like_scalar) (rule check_key_scalar)

lemma like_part: "part_ok p \<Longrightarrow> document_like d (path_part_json p)"
  by (cases p) (auto simp: part_ok_def safe_int_def document_like_def)

lemma like_array: "(\<And>x. x \<in> set xs \<Longrightarrow> document_like d (f x)) \<Longrightarrow> document_like (Suc d) (JArr (map f xs))"
  by (auto simp: document_like_def list_all_iff)

lemma like_object:
  "distinct (map fst kvs) \<Longrightarrow> list_all (\<lambda>kv. check_key (fst kv) \<and> document_like d (snd kv)) kvs \<Longrightarrow> document_like (Suc d) (JObj kvs)"
  by (auto simp: document_like_def list_all_iff)

lemma like_mono: "document_like d v \<Longrightarrow> d \<le> e \<Longrightarrow> document_like e v"
  using nested_mono by (auto simp: document_like_def)

lemma ArtifactReference_like:
  assumes "artifact_ok a"
  shows "document_like 1 (ArtifactReference_to_dict a)"
proof -
  have "check_scalar (JStr (ar_media a))" using assms by (auto simp: artifact_ok_def description_ok_def text_ok_def)
  moreover have "check_scalar (JInt (ar_size a))" using assms by (simp add: artifact_ok_def safe_int_def safe_integer_max_def)
  ultimately have "document_like (Suc 0) (ArtifactReference_to_dict a)"
    unfolding ArtifactReference_to_dict_def using assms identifier_scalar check_hash_scalar
    by (intro like_object) (simp_all add: artifact_ok_def plan_keys like_scalar del: check_scalar.simps)
  then show ?thesis by simp
qed

lemma CheckRule_like:
  assumes r: "check_rule_ok r"
  shows "document_like 2 (CheckRule_to_dict r)"
proof -
  have path: "document_like 1 (JArr (map path_part_json q))" if "path_ok q" for q
    using like_array [of q 0 path_part_json] like_part that by (simp add: path_ok_def list_all_iff)
  have base: "document_like 1 (JStr (kr_id r))" "document_like 1 (JStr (kr_artifact r))" "document_like 1 (JArr (map path_part_json (kr_path r)))"
    using r path [of "kr_path r"] like_scalar [OF identifier_scalar] by (simp_all add: check_rule_ok_def)
  have op: "document_like 1 (JText (operator_value (kr_operator r)))" by (rule like_text [OF plan_keys(28)])
  have "document_like (Suc 1) (CheckRule_to_dict r)"
  proof (cases "kr_operator r")
    case EXISTS
    then have "CheckRule_to_dict r = JObj [(U ''rule_id'', JStr (kr_id r)), (U ''operator'', JText (operator_value (kr_operator r))),
       (U ''artifact_id'', JStr (kr_artifact r)), (U ''path'', JArr (map path_part_json (kr_path r)))]"
      using r by (simp add: CheckRule_to_dict_def check_rule_ok_def)
    then show ?thesis using base op by (simp only:) (rule like_object; simp add: plan_keys del: One_nat_def)
  next
    case EQUALS
    then obtain v where v: "kr_expected r = Some v" "check_scalar v" using r by (auto simp: check_rule_ok_def)
    then have "CheckRule_to_dict r = JObj [(U ''rule_id'', JStr (kr_id r)), (U ''operator'', JText (operator_value (kr_operator r))),
       (U ''artifact_id'', JStr (kr_artifact r)), (U ''path'', JArr (map path_part_json (kr_path r))), (U ''expected'', v)]"
      using r EQUALS by (simp add: CheckRule_to_dict_def check_rule_ok_def)
    then show ?thesis using base op like_scalar [OF v(2)] by (simp only:) (rule like_object; simp add: plan_keys del: One_nat_def)
  next
    case INTEGER_RANGE
    then obtain m n where mn: "kr_minimum r = Some m" "kr_maximum r = Some n" "check_scalar (JInt m)" "check_scalar (JInt n)"
      using r by (auto simp: check_rule_ok_def safe_int_def)
    then have "CheckRule_to_dict r = JObj [(U ''rule_id'', JStr (kr_id r)), (U ''operator'', JText (operator_value (kr_operator r))),
       (U ''artifact_id'', JStr (kr_artifact r)), (U ''path'', JArr (map path_part_json (kr_path r))), (U ''minimum'', JInt m), (U ''maximum'', JInt n)]"
      using r INTEGER_RANGE by (simp add: CheckRule_to_dict_def check_rule_ok_def)
    then show ?thesis using base op like_scalar [OF mn(3)] like_scalar [OF mn(4)] by (simp only:) (rule like_object; simp add: plan_keys del: One_nat_def)
  next
    case SAME_VALUE
    then obtain i q where iq: "kr_other r = Some i" "check_scalar (JStr i)" "kr_other_path r = Some q" "path_ok q"
      using r by (auto simp: check_rule_ok_def identifier_scalar simp del: check_scalar.simps)
    then have "CheckRule_to_dict r = JObj [(U ''rule_id'', JStr (kr_id r)), (U ''operator'', JText (operator_value (kr_operator r))),
       (U ''artifact_id'', JStr (kr_artifact r)), (U ''path'', JArr (map path_part_json (kr_path r))), (U ''other_artifact_id'', JStr i),
       (U ''other_path'', JArr (map path_part_json q))]"
      using r SAME_VALUE by (simp add: CheckRule_to_dict_def check_rule_ok_def)
    then show ?thesis using base op like_scalar [OF iq(2)] path [OF iq(4)] by (simp only:) (rule like_object; simp add: plan_keys del: One_nat_def)
  next
    case BYTES_EQUAL
    then obtain i where i: "kr_other r = Some i" "check_scalar (JStr i)" using r by (auto simp: check_rule_ok_def identifier_scalar simp del: check_scalar.simps)
    then have "CheckRule_to_dict r = JObj [(U ''rule_id'', JStr (kr_id r)), (U ''operator'', JText (operator_value (kr_operator r))),
       (U ''artifact_id'', JStr (kr_artifact r)), (U ''other_artifact_id'', JStr i)]"
      using r BYTES_EQUAL by (simp add: CheckRule_to_dict_def check_rule_ok_def)
    then show ?thesis using base op like_scalar [OF i(2)] by (simp only:) (rule like_object; simp add: plan_keys del: One_nat_def)
  qed
  then show ?thesis by (simp add: numeral_2_eq_2)
qed

lemma CheckPlan_like:
  assumes p: "check_plan_ok rt p"
  shows "document_like 4 (CheckPlan_to_dict p)"
proof -
  have "document_like (Suc 2) (JArr (map ArtifactReference_to_dict (kp_inputs p)))"
    by (rule like_array) (use p ArtifactReference_like like_mono [of 1 _ 2] in \<open>simp add: check_plan_ok_def\<close>)
  moreover have "document_like (Suc 2) (JArr (map CheckRule_to_dict (kp_rules p)))"
    by (rule like_array) (use p CheckRule_like in \<open>simp add: check_plan_ok_def\<close>)
  moreover have "document_like (Suc 2) (JStr (kp_id p))" "document_like (Suc 2) (JStr (kp_workflow p))" "document_like (Suc 2) (JStr (kp_scope p))"
    "document_like (Suc 2) (JStr (kp_claim p))" "document_like (Suc 2) (JStr (kp_statement p))" "document_like (Suc 2) (JStr (kp_authority p))"
    "document_like (Suc 2) (JStr (kp_evidence p))"
    using p by (simp_all add: check_plan_ok_def like_scalar identifier_scalar check_hash_scalar del: check_scalar.simps)
  ultimately have "document_like (Suc (Suc 2)) (CheckPlan_to_dict p)"
    unfolding CheckPlan_to_dict_def by (intro like_object) (simp_all add: plan_keys like_text)
  then show ?thesis by simp
qed

text \<open>The bytes of an accepted plan under the check reader.\<close>

lemma plan_document:
  assumes rt: "repr_contract rt" "repr_reads rt" and rec: "4 \<le> recursion" and p: "check_plan_ok rt p"
  shows "document_value recursion (CheckPlan_to_bytes rt p) = canon (CheckPlan_to_dict p)"
    and "document_nodes recursion (CheckPlan_to_bytes rt p) = json_nodes (CheckPlan_to_dict p)"
    and "4 \<le> depth \<Longrightarrow> document_ok recursion depth maximum (CheckPlan_to_bytes rt p) \<longleftrightarrow> int (length (CheckPlan_to_bytes rt p)) \<le> maximum"
proof -
  have like: "check_profile (CheckPlan_to_dict p)" "distinct_keys (CheckPlan_to_dict p)" "nested 4 (CheckPlan_to_dict p)"
    using CheckPlan_like [OF p] by (simp_all add: document_like_def)
  show v: "document_value recursion (CheckPlan_to_bytes rt p) = canon (CheckPlan_to_dict p)"
    unfolding CheckPlan_to_bytes_def by (rule canonical_document_value [OF rt like rec])
  then show "document_nodes recursion (CheckPlan_to_bytes rt p) = json_nodes (CheckPlan_to_dict p)" by (simp add: document_nodes_def)
  show "document_ok recursion depth maximum (CheckPlan_to_bytes rt p) \<longleftrightarrow> int (length (CheckPlan_to_bytes rt p)) \<le> maximum" if "4 \<le> depth"
    using canonical_document(2) [OF rt like rec, of depth maximum] that by (auto simp: CheckPlan_to_bytes_def document_ok_def)
qed

lemma fresh_spent: "kb_used (spend n m (fresh_budget L)) = n"
  by (simp add: spend_def fresh_budget_def)

lemma charge_Inr: "charge n b = Inr b' \<longleftrightarrow> n \<le> kl_work (kb_limits b) - kb_used b \<and> b' = b\<lparr>kb_used := kb_used b + n\<rparr>"
  by (auto simp: charge_def)

lemma parse_check_plan_Inr:
  fixes L :: check_limits
  assumes rt: "repr_contract rt" "repr_reads rt" and L: "limits_ok L" "4 \<le> kl_depth L" and rec: "4 \<le> recursion"
  defines "bytes_of p \<equiv> int (length (CheckPlan_to_bytes rt p))" and "nodes p \<equiv> json_nodes (CheckPlan_to_dict p)"
  shows "parse_check_plan rt recursion raw (Some L) = Inr p \<longleftrightarrow>
    check_plan_ok rt p \<and> raw = CheckPlan_to_bytes rt p \<and> bytes_of p \<le> kl_plan_bytes L
    \<and> int (length (kp_inputs p)) \<le> kl_inputs L \<and> int (length (kp_rules p)) \<le> kl_rules L
    \<and> 3 * bytes_of p + nodes p \<le> kl_work L \<and> nodes p \<le> kl_nodes L"
proof -
  have z: "affords 0 0 (fresh_budget L)" using L(1) by (simp add: fresh_affords) (simp add: limits_ok_def)
  note doc = yieldsD [OF check_document_yields fresh_limits z, of recursion raw "kl_plan_bytes L"]
  let ?v = "document_value recursion raw" and ?n = "document_nodes recursion raw"
  have guard: "(if c then Inl e else r) = Inr y \<longleftrightarrow> \<not> c \<and> r = Inr y" for c e and r :: "'a result" and y by simp
  have run: "parse_check_plan rt recursion raw (Some L) = Inr p \<longleftrightarrow>
      document_ok recursion (kl_depth L) (kl_plan_bytes L) raw \<and> int (length raw) + ?n \<le> kl_work L \<and> ?n \<le> kl_nodes L
      \<and> CheckPlan_from_dict rt ?v = Inr p \<and> int (length (kp_inputs p)) \<le> kl_inputs L \<and> int (length (kp_rules p)) \<le> kl_rules L
      \<and> int (length (CheckPlan_to_bytes rt p)) + int (length raw) \<le> kl_work L - (int (length raw) + ?n) \<and> CheckPlan_to_bytes rt p = raw"
    by (simp only: parse_check_plan_def check_limits_of_def Let_def rbind_Inr_iff guard doc split_paired_Ex prod.case option.case charge_Inr,
        simp add: fresh_spent fresh_affords [OF L(1)]) auto
  note written = plan_document [OF rt rec, of p]
  have "0 \<le> nodes p" using json_nodes_pos [of "CheckPlan_to_dict p"] by (simp add: nodes_def)
  then show ?thesis
    unfolding run using written CheckPlan_canon [of rt p] CheckPlan_from_dict_ok [of rt ?v p]
    by (cases "check_plan_ok rt p \<and> CheckPlan_to_bytes rt p = raw") (auto simp: bytes_of_def nodes_def L(2))
qed

end
