(* ===== verification/Check_Gate_Lemmas.thy ===== *)
theory Check_Gate_Lemmas
  imports Check_Gate Check_Roundtrip
begin

text \<open>
  The gate over a workflow, step by step in the calculus of budgets: what each step asks of the retained bytes, what it costs,
  and when the gate returns a checked claim.
\<close>

subsection \<open>Steps that leave the budget alone, and results without a budget\<close>

lemma yields_require:
  "(M \<Longrightarrow> yields L f P x n m) \<Longrightarrow> 0 \<le> n \<Longrightarrow> 0 \<le> m \<Longrightarrow> yields L (\<lambda>b. rbind (require M msg) (\<lambda>_. f b)) (M \<and> P) x n m"
  by (cases M) (simp_all add: require_def yields_fail)

lemma spends_require: "spends L (\<lambda>b. rbind (require M msg) (\<lambda>_. Inr b)) M 0 0"
  by (cases M) (simp_all add: require_def spends_return spends_fail)

lemma yields_impossible: "yields L f False x n m \<Longrightarrow> 0 \<le> k \<Longrightarrow> 0 \<le> l \<Longrightarrow> yields L f False y k l"
  by (simp add: yields_def)

definition returns :: "check_limits \<Rightarrow> (check_budget \<Rightarrow> 'a result) \<Rightarrow> bool \<Rightarrow> 'a \<Rightarrow> int \<Rightarrow> int \<Rightarrow> bool" where
  "returns L f P x n m \<longleftrightarrow> 0 \<le> n \<and> 0 \<le> m
     \<and> (\<forall>b y. kb_limits b = L \<and> affords 0 0 b \<longrightarrow> (f b = Inr y \<longleftrightarrow> P \<and> y = x \<and> affords n m b))"

lemma returnsD: "returns L f P x n m \<Longrightarrow> kb_limits b = L \<Longrightarrow> affords 0 0 b \<Longrightarrow> f b = Inr y \<longleftrightarrow> P \<and> y = x \<and> affords n m b"
  by (auto simp: returns_def)

lemma returns_fail: "0 \<le> n \<Longrightarrow> 0 \<le> m \<Longrightarrow> returns L (\<lambda>b. Inl e) False x n m"
  by (simp add: returns_def)

lemma returns_require:
  "(M \<Longrightarrow> returns L f P x n m) \<Longrightarrow> 0 \<le> n \<Longrightarrow> 0 \<le> m \<Longrightarrow> returns L (\<lambda>b. rbind (require M msg) (\<lambda>_. f b)) (M \<and> P) x n m"
  by (cases M) (simp_all add: require_def returns_fail)

lemma spends_returns:
  assumes f: "spends L f P n m" and g: "P \<Longrightarrow> returns L g Q x k l" and kl: "0 \<le> k" "0 \<le> l"
  shows "returns L (\<lambda>b. rbind (f b) g) (P \<and> Q) x (n + k) (m + l)"
proof -
  note nm = spends_nonneg [OF f]
  have "rbind (f b) g = Inr y \<longleftrightarrow> (P \<and> Q) \<and> y = x \<and> affords (n + k) (m + l) b" if b: "kb_limits b = L" "affords 0 0 b" for b y
  proof (cases "P \<and> affords n m b")
    case True
    then have "f b = Inr (spend n m b)" "affords 0 0 (spend n m b)" using spendsD [OF f b] by (simp_all add: affords_spend)
    then show ?thesis using returnsD [OF g, of "spend n m b"] True b(1) by (simp add: affords_spend)
  next
    case False
    then have "\<nexists>b'. f b = Inr b'" using spendsD [OF f b] by blast
    moreover have "\<not> (P \<and> affords (n + k) (m + l) b)" using False affords_mono [of "n + k" "m + l" b n m] kl by auto
    ultimately show ?thesis by auto
  qed
  then show ?thesis using nm kl by (simp add: returns_def)
qed

lemma yields_returns:
  assumes f: "yields L f P x n m" and g: "P \<Longrightarrow> returns L (g x) Q y k l" and kl: "0 \<le> k" "0 \<le> l"
  shows "returns L (\<lambda>b. rbind (f b) (\<lambda>(x, b). g x b)) (P \<and> Q) y (n + k) (m + l)"
proof -
  note nm = yields_nonneg [OF f]
  have "rbind (f b) (\<lambda>(x, b). g x b) = Inr z \<longleftrightarrow> (P \<and> Q) \<and> z = y \<and> affords (n + k) (m + l) b"
    if b: "kb_limits b = L" "affords 0 0 b" for b z
  proof (cases "P \<and> affords n m b")
    case True
    then have "f b = Inr (x, spend n m b)" "affords 0 0 (spend n m b)" using yieldsD [OF f b] by (simp_all add: affords_spend)
    then show ?thesis using returnsD [OF g, of "spend n m b"] True b(1) by (simp add: affords_spend)
  next
    case False
    then have "\<nexists>x b'. f b = Inr (x, b')" using yieldsD [OF f b] by blast
    moreover have "\<not> (P \<and> affords (n + k) (m + l) b)" using False affords_mono [of "n + k" "m + l" b n m] kl by auto
    ultimately show ?thesis by (cases "f b") auto
  qed
  then show ?thesis using nm kl by (simp add: returns_def)
qed

subsection \<open>The metadata\<close>

definition metadata_ok :: "runtime \<Rightarrow> workflow_bundle \<Rightarrow> claim_workflow \<Rightarrow> (ustr \<times> bytes) list \<Rightarrow> ustr \<Rightarrow> bool" where
  "metadata_ok rt bundle claim contents i \<longleftrightarrow> i \<in> set (cw_artifacts claim)
     \<and> (\<exists>a raw. artifact_by_id bundle i = Some a \<and> map_of contents i = Some raw \<and> ar_claim a = cw_claim claim
          \<and> ar_scope a = cw_scope claim \<and> ar_media a = U ''application/json'' \<and> ArtifactReference_matches rt a raw)"

lemma gate_metadata_spends:
  "spends L (\<lambda>b. gate_metadata rt bundle claim contents b i) (metadata_ok rt bundle claim contents i)
     (int (length (retained_bytes contents i))) 0"
proof (cases "i \<in> set (cw_artifacts claim) \<and> (\<exists>a raw. artifact_by_id bundle i = Some a \<and> map_of contents i = Some raw
    \<and> ar_claim a = cw_claim claim \<and> ar_scope a = cw_scope claim \<and> ar_media a = U ''application/json'')")
  case True
  then obtain a raw where a: "artifact_by_id bundle i = Some a" "map_of contents i = Some raw" "ar_claim a = cw_claim claim"
    "ar_scope a = cw_scope claim" "ar_media a = U ''application/json''" "i \<in> set (cw_artifacts claim)" by blast
  have "spends L (\<lambda>b. rbind (charge (int (length raw)) b) (\<lambda>b. rbind (require (ArtifactReference_matches rt a raw) msg) (\<lambda>_. Inr b)))
      (True \<and> ArtifactReference_matches rt a raw) (int (length raw) + 0) (0 + 0)" for msg
    by (rule spends_bind [OF spends_charge]) (simp_all add: spends_require)
  then show ?thesis using a by (simp add: gate_metadata_def metadata_ok_def retained_bytes_def)
next
  case False
  then have "gate_metadata rt bundle claim contents b i
      = Inl (ValidationError ''check plan and evaluation must be retained bound JSON artifacts'')" for b
    by (auto simp: gate_metadata_def split: option.splits)
  moreover have "\<not> metadata_ok rt bundle claim contents i" using False by (auto simp: metadata_ok_def)
  ultimately show ?thesis by (simp add: spends_fail)
qed

subsection \<open>The plan\<close>

definition retained_plan :: "runtime \<Rightarrow> nat \<Rightarrow> bytes \<Rightarrow> check_plan" where
  "retained_plan rt recursion raw = projr (CheckPlan_from_dict rt (document_value recursion raw))"

lemma retained_plan_bytes:
  assumes "repr_contract rt" "repr_reads rt" "4 \<le> recursion" "check_plan_ok rt p"
  shows "retained_plan rt recursion (CheckPlan_to_bytes rt p) = p"
  using CheckPlan_canon [OF assms(4)] by (simp add: retained_plan_def plan_document [OF assms])

text \<open>The reader of plans accepts the canonical bytes of accepted plans and nothing else.\<close>

lemma plan_reader_yields:
  assumes rt: "repr_contract rt" "repr_reads rt" and L: "4 \<le> kl_depth L" and rec: "4 \<le> recursion"
  shows "yields L (\<lambda>b. rbind (check_document recursion raw b (kl_plan_bytes L)) (\<lambda>(v, b). rbind (CheckPlan_from_dict rt v) (\<lambda>p.
      rbind (charge (int (length (CheckPlan_to_bytes rt p)) + int (length raw)) b) (\<lambda>b.
      if CheckPlan_to_bytes rt p \<noteq> raw then Inl e else Inr (p, b)))))
    (\<exists>p. check_plan_ok rt p \<and> raw = CheckPlan_to_bytes rt p \<and> int (length raw) \<le> kl_plan_bytes L)
    (retained_plan rt recursion raw) (int (length raw) + document_nodes recursion raw + 2 * int (length raw)) (document_nodes recursion raw)"
proof -
  let ?v = "document_value recursion raw" and ?p = "retained_plan rt recursion raw"
  let ?f = "\<lambda>b. rbind (CheckPlan_from_dict rt ?v) (\<lambda>p.
      rbind (charge (int (length (CheckPlan_to_bytes rt p)) + int (length raw)) b) (\<lambda>b.
      if CheckPlan_to_bytes rt p \<noteq> raw then Inl e else Inr (p, b)))"
  let ?Q = "CheckPlan_from_dict rt ?v = Inr ?p \<and> CheckPlan_to_bytes rt ?p = raw"
  have f: "yields L ?f ?Q ?p (2 * int (length raw)) 0"
  proof (cases ?Q)
    case True
    have "yields L (\<lambda>b. rbind (charge (2 * int (length raw)) b) (\<lambda>b. Inr (?p, b))) (True \<and> True) ?p (2 * int (length raw) + 0) (0 + 0)"
      by (rule spends_yields [OF spends_charge]) (simp_all add: yields_return)
    then show ?thesis using True by simp
  next
    case False
    then have "\<not> (CheckPlan_from_dict rt ?v = Inr p \<and> CheckPlan_to_bytes rt p = raw)" for p by (auto simp: retained_plan_def)
    then show ?thesis using False by (auto simp: yields_def)
  qed
  have all: "yields L (\<lambda>b. rbind (check_document recursion raw b (kl_plan_bytes L)) (\<lambda>(v, b). rbind (CheckPlan_from_dict rt v) (\<lambda>p.
      rbind (charge (int (length (CheckPlan_to_bytes rt p)) + int (length raw)) b) (\<lambda>b.
      if CheckPlan_to_bytes rt p \<noteq> raw then Inl e else Inr (p, b)))))
    (document_ok recursion (kl_depth L) (kl_plan_bytes L) raw \<and> ?Q) ?p
    (int (length raw) + document_nodes recursion raw + 2 * int (length raw)) (document_nodes recursion raw + 0)"
    by (rule yields_bind [OF check_document_yields]) (simp_all add: f)
  have "document_ok recursion (kl_depth L) (kl_plan_bytes L) raw \<and> ?Q
      \<longleftrightarrow> (\<exists>p. check_plan_ok rt p \<and> raw = CheckPlan_to_bytes rt p \<and> int (length raw) \<le> kl_plan_bytes L)"
  proof
    assume "document_ok recursion (kl_depth L) (kl_plan_bytes L) raw \<and> ?Q"
    then show "\<exists>p. check_plan_ok rt p \<and> raw = CheckPlan_to_bytes rt p \<and> int (length raw) \<le> kl_plan_bytes L"
      using CheckPlan_from_dict_ok [of rt ?v ?p] by (intro exI [of _ ?p]) (simp add: document_ok_def)
  next
    assume "\<exists>p. check_plan_ok rt p \<and> raw = CheckPlan_to_bytes rt p \<and> int (length raw) \<le> kl_plan_bytes L"
    then obtain p where p: "check_plan_ok rt p" "raw = CheckPlan_to_bytes rt p" "int (length raw) \<le> kl_plan_bytes L" by blast
    then show "document_ok recursion (kl_depth L) (kl_plan_bytes L) raw \<and> ?Q"
      using plan_document [OF rt rec p(1)] retained_plan_bytes [OF rt rec p(1)] CheckPlan_canon [OF p(1)] L by simp
  qed
  then show ?thesis using all by simp
qed

lemma gate_plan_yields:
  assumes rt: "repr_contract rt" "repr_reads rt" and L: "4 \<le> kl_depth L" and rec: "4 \<le> recursion"
  shows "yields L (gate_plan rt recursion policy raw)
    (rt_sha256 rt raw = kq_plan policy
      \<and> (\<exists>p. check_plan_ok rt p \<and> raw = CheckPlan_to_bytes rt p \<and> int (length raw) \<le> kl_plan_bytes L))
    (retained_plan rt recursion raw) (4 * int (length raw) + document_nodes recursion raw) (document_nodes recursion raw)"
proof -
  have n: "0 \<le> document_nodes recursion raw" using json_nodes_pos [of "document_value recursion raw"] by (simp add: document_nodes_def)
  note reader = plan_reader_yields [OF rt L rec, of raw "InputFormatError ''retained plan must use its exact canonical bytes''"]
  have check: "yields L (\<lambda>b. rbind (require (rt_sha256 rt raw = kq_plan policy) ''retained plan differs from the external plan pin'') (\<lambda>_.
      rbind (check_document recursion raw b (kl_plan_bytes L)) (\<lambda>(v, b). rbind (CheckPlan_from_dict rt v) (\<lambda>p.
      rbind (charge (int (length (CheckPlan_to_bytes rt p)) + int (length raw)) b) (\<lambda>b.
      if CheckPlan_to_bytes rt p \<noteq> raw then Inl (InputFormatError ''retained plan must use its exact canonical bytes'') else Inr (p, b))))))
    (rt_sha256 rt raw = kq_plan policy
      \<and> (\<exists>p. check_plan_ok rt p \<and> raw = CheckPlan_to_bytes rt p \<and> int (length raw) \<le> kl_plan_bytes L))
    (retained_plan rt recursion raw) (int (length raw) + document_nodes recursion raw + 2 * int (length raw)) (document_nodes recursion raw)"
    by (rule yields_require [OF reader]) (simp_all add: n)
  note step = spends_yields [OF spends_charge [of "int (length raw)"] check]
  show ?thesis
    by (rule iffD1 [OF yields_limits yields_cong [OF step]])
      (use charge_limits n in \<open>auto simp: gate_plan_def Let_def intro!: rbind_cong\<close>)
qed

subsection \<open>The evaluation\<close>

lemma evaluation_keys:
  "check_key (U ''plan_digest'')" "check_key (U ''outcome'')" "check_key (U ''counts'')" "check_key (U ''results'')"
  "check_key (U ''reason'')" "check_key (U ''evidence-braid-check-evaluation'')"
  "check_key (U (check_outcome_value oc))" "check_key (U (check_reason_value re))"
  by (rule ascii_literal; (cases oc)?; (cases re)?; simp add: U_def)+

lemma CheckEvaluation_like:
  assumes "is_hash (ke_plan e)" "length (ke_results e) \<le> max_check_rules" "\<forall>r \<in> set (ke_results e). is_identifier (ks_rule r)"
  shows "document_like 3 (CheckEvaluation_to_dict e)"
proof -
  have "document_like (Suc 0) (CheckResult_to_dict r)" if "r \<in> set (ke_results e)" for r
    unfolding CheckResult_to_dict_def
    by (rule like_object) (use that assms(3) in \<open>simp_all add: evaluation_keys plan_keys like_text like_scalar identifier_scalar del: check_scalar.simps\<close>)
  then have results: "document_like (Suc (Suc 0)) (JArr (map CheckResult_to_dict (ke_results e)))" by (rule like_array)
  have count: "check_scalar (JInt (int (length (filter P (ke_results e)))))" for P
  proof -
    have "length (filter P (ke_results e)) \<le> 256"
      using le_trans [OF length_filter_le assms(2)] by (simp add: max_check_rules_def)
    then show ?thesis by (simp add: safe_int_def safe_integer_max_def)
  qed
  have counts: "document_like (Suc 0) (JObj (map (\<lambda>s. (U (check_outcome_value s), JInt (int (length (filter (\<lambda>r. ks_outcome r = s) (ke_results e))))))
      check_outcomes_all))"
    by (rule like_object) (simp_all add: check_outcomes_all_def evaluation_keys(7) [of PASS, simplified] evaluation_keys(7) [of FAIL, simplified]
        evaluation_keys(7) [of UNKNOWN, simplified] like_scalar [OF count])
  have "document_like (Suc (Suc (Suc 0))) (CheckEvaluation_to_dict e)"
    unfolding CheckEvaluation_to_dict_def
    by (rule like_object) (use results like_mono [OF counts, of "Suc (Suc 0)"] assms(1) in
        \<open>simp_all add: evaluation_keys plan_keys like_text like_scalar check_hash_scalar del: check_scalar.simps\<close>)
  then show ?thesis by (simp add: numeral_3_eq_3)
qed

lemma plan_evaluation_document:
  fixes raws :: "ustr \<Rightarrow> bytes"
  assumes rt: "repr_contract rt" "repr_reads rt" "sha256_hex rt" and rec: "3 \<le> recursion" and p: "check_plan_ok rt p"
  defines "e \<equiv> plan_evaluation rt recursion p raws"
  shows "document_nodes recursion (CheckEvaluation_to_bytes rt e) = json_nodes (CheckEvaluation_to_dict e)"
    and "3 \<le> depth \<Longrightarrow> int (length (CheckEvaluation_to_bytes rt e)) \<le> maximum
      \<Longrightarrow> document_ok recursion depth maximum (CheckEvaluation_to_bytes rt e)"
proof -
  have "is_hash (ke_plan e)" using rt(3) by (simp add: e_def plan_evaluation_def CheckPlan_digest_def sha256_hex_def)
  moreover have "length (ke_results e) \<le> max_check_rules" "\<forall>r \<in> set (ke_results e). is_identifier (ks_rule r)"
    using p by (auto simp: e_def plan_evaluation_def check_plan_ok_def check_rule_ok_def rule_outcome_def)
  ultimately have like: "check_profile (CheckEvaluation_to_dict e)" "distinct_keys (CheckEvaluation_to_dict e)"
    "nested 3 (CheckEvaluation_to_dict e)"
    using CheckEvaluation_like [of e] by (simp_all add: document_like_def)
  show "document_nodes recursion (CheckEvaluation_to_bytes rt e) = json_nodes (CheckEvaluation_to_dict e)"
    using canonical_document_value [OF rt(1,2) like rec] by (simp add: document_nodes_def CheckEvaluation_to_bytes_def)
  show "document_ok recursion depth maximum (CheckEvaluation_to_bytes rt e)"
    if "3 \<le> depth" "int (length (CheckEvaluation_to_bytes rt e)) \<le> maximum"
    using canonical_document(2) [OF rt(1,2) like rec] that by (simp add: CheckEvaluation_to_bytes_def)
qed

text \<open>The recomputation reads the plan's inputs only, and the retained evaluation has to be its exact bytes.\<close>

lemma map_of_filtered: "k \<in> A \<Longrightarrow> map_of (filter (\<lambda>kv. fst kv \<in> A) kvs) k = map_of kvs k"
  by (induction kvs) auto

lemma keys_filtered: "A \<subseteq> set (map fst kvs) \<Longrightarrow> set (map fst (filter (\<lambda>kv. fst kv \<in> A) kvs)) = A"
  by (auto simp: image_iff)

lemma gate_evaluate_yields:
  fixes contents :: "(ustr \<times> bytes) list" and recursion :: nat
  assumes rt: "repr_contract rt" "repr_reads rt" "sha256_hex rt" and L: "4 \<le> kl_depth L" and rec: "4 \<le> recursion"
    and p: "check_plan_ok rt p" and keys: "set (map fst contents) = set (map ar_id (kp_inputs p)) \<union> {i, kq_evaluation_artifact policy}"
  defines "raws \<equiv> retained_bytes contents"
  defines "e \<equiv> plan_evaluation rt recursion p raws" and "claimed \<equiv> raws (kq_evaluation_artifact policy)"
  shows "yields L (gate_evaluate rt recursion policy contents p)
    (plan_admitted rt recursion L p raws \<and> claimed = CheckEvaluation_to_bytes rt e) e
    (plan_work rt recursion p raws + (3 * int (length claimed) + document_nodes recursion claimed))
    (plan_nodes recursion p raws + document_nodes recursion claimed)"
proof -
  let ?ins = "set (map ar_id (kp_inputs p))" and ?n = "document_nodes recursion claimed"
  let ?msg = "''retained evaluation differs from independent recomputation''"
  have n: "0 \<le> ?n" using json_nodes_pos [of "document_value recursion claimed"] by (simp add: document_nodes_def)
  have some: "map_of contents i = Some (raws i)" if "i \<in> set (map fst contents)" for i
    using that map_of_eq_None_iff [of contents i] by (auto simp: raws_def retained_bytes_def)
  have ret: "retains p (filter (\<lambda>kv. fst kv \<in> ?ins) contents) raws"
    unfolding retains_def using keys by (auto simp: map_of_filtered intro!: some)
  have inv: "set (map fst (filter (\<lambda>kv. fst kv \<in> ?ins) contents)) = ?ins" by (rule keys_filtered) (use keys in auto)
  have lookup: "lookup_item contents (kq_evaluation_artifact policy) = Inr claimed"
    using some [of "kq_evaluation_artifact policy"] keys by (auto simp: lookup_item_def claimed_def)
  have charged: "yields L (\<lambda>b. rbind (charge (int (length (CheckEvaluation_to_bytes rt e)) + int (length claimed)) b) (\<lambda>b.
      rbind (require (CheckEvaluation_to_bytes rt e = claimed) ?msg) (\<lambda>_. Inr (e, b))))
    (CheckEvaluation_to_bytes rt e = claimed) e (2 * int (length claimed)) 0"
  proof (cases "CheckEvaluation_to_bytes rt e = claimed")
    case True
    have "yields L (\<lambda>b. rbind (charge (2 * int (length claimed)) b) (\<lambda>b. Inr (e, b))) (True \<and> True) e (2 * int (length claimed) + 0) (0 + 0)"
      by (rule spends_yields [OF spends_charge]) (simp_all add: yields_return)
    then show ?thesis using True by (simp add: require_def)
  next
    case False
    then show ?thesis by (simp add: yields_def require_def)
  qed
  have doc: "yields L (\<lambda>b. rbind (check_document recursion claimed b (kl_output_bytes L)) (\<lambda>(_, b).
      rbind (charge (int (length (CheckEvaluation_to_bytes rt e)) + int (length claimed)) b) (\<lambda>b.
      rbind (require (CheckEvaluation_to_bytes rt e = claimed) ?msg) (\<lambda>_. Inr (e, b)))))
    (document_ok recursion (kl_depth L) (kl_output_bytes L) claimed \<and> CheckEvaluation_to_bytes rt e = claimed) e
    (int (length claimed) + ?n + 2 * int (length claimed)) (?n + 0)"
    by (rule yields_bind [OF check_document_yields]) (simp_all add: charged)
  have doc': "yields L (\<lambda>b. rbind (check_document recursion claimed b (kl_output_bytes (kb_limits b))) (\<lambda>(_, b).
      rbind (charge (int (length (CheckEvaluation_to_bytes rt e)) + int (length claimed)) b) (\<lambda>b.
      rbind (require (CheckEvaluation_to_bytes rt e = claimed) ?msg) (\<lambda>_. Inr (e, b)))))
    (document_ok recursion (kl_depth L) (kl_output_bytes L) claimed \<and> CheckEvaluation_to_bytes rt e = claimed) e
    (3 * int (length claimed) + ?n) ?n"
    by (rule iffD2 [OF yields_limits yields_cong [OF doc]]) simp_all
  have all: "yields L (gate_evaluate rt recursion policy contents p)
    (plan_admitted rt recursion L p raws
      \<and> (document_ok recursion (kl_depth L) (kl_output_bytes L) claimed \<and> CheckEvaluation_to_bytes rt e = claimed)) e
    (plan_work rt recursion p raws + (3 * int (length claimed) + ?n)) (plan_nodes recursion p raws + ?n)"
    unfolding gate_evaluate_def Let_def lookup rbind.simps e_def
    by (rule yields_bind [OF evaluate_plan_yields [OF p rt(3) ret inv]]) (use n doc' in \<open>simp_all add: e_def\<close>)
  have "plan_admitted rt recursion L p raws
      \<and> (document_ok recursion (kl_depth L) (kl_output_bytes L) claimed \<and> CheckEvaluation_to_bytes rt e = claimed)
      \<longleftrightarrow> plan_admitted rt recursion L p raws \<and> claimed = CheckEvaluation_to_bytes rt e"
    using plan_evaluation_document(2) [OF rt _ p, of recursion "kl_depth L" raws "kl_output_bytes L"] L rec
    by (auto simp: plan_admitted_def e_def)
  then show ?thesis using all by simp
qed

subsection \<open>The result and the whole gate\<close>

definition checked :: "runtime \<Rightarrow> workflow_bundle \<Rightarrow> authority_policy \<Rightarrow> check_policy \<Rightarrow> claim_workflow \<Rightarrow> ustr \<Rightarrow> ustr
    \<Rightarrow> check_plan \<Rightarrow> check_evaluation \<Rightarrow> checked_claim" where
  "checked rt bundle authority policy claim head evidence p e = \<lparr>kc_workflow = wb_id bundle, kc_scope = cw_scope claim,
     kc_claim = cw_claim claim, kc_head = head, kc_evidence = evidence, kc_authority = AuthorityPolicy_digest rt authority,
     kc_policy = CheckPolicy_digest rt policy, kc_plan = CheckPlan_digest rt p, kc_status = cw_status claim, kc_evaluation = e\<rparr>"

lemma digest_hashes:
  assumes "sha256_hex rt"
  shows "is_hash (AuthorityPolicy_digest rt authority)" "is_hash (CheckPolicy_digest rt policy)" "is_hash (CheckPlan_digest rt p)"
  using assms by (simp_all add: AuthorityPolicy_digest_def CheckPolicy_digest_def CheckPlan_digest_def sha256_hex_def sha_json_def)

lemma gate_result_returns:
  fixes authority :: authority_policy and policy :: check_policy
  assumes hex: "sha256_hex rt" and ids: "is_identifier (wb_id bundle)" "is_identifier (cw_scope claim)" "is_identifier (cw_claim claim)"
    and heads: "is_hash head" "is_hash evidence" "ledger_head (wb_evidence bundle) = JStr evidence" and e: "ke_plan e = CheckPlan_digest rt p"
  defines "out \<equiv> CheckedClaim_to_bytes rt (checked rt bundle authority policy claim head evidence p e)"
  shows "returns L (gate_result rt bundle authority policy claim head p e) (int (length out) \<le> kl_output_bytes L)
    (checked rt bundle authority policy claim head evidence p e) (int (length out)) 0"
proof -
  have init: "CheckedClaim_init (JStr (wb_id bundle)) (JStr (cw_scope claim)) (JStr (cw_claim claim)) (JStr head)
      (ledger_head (wb_evidence bundle)) (JStr (AuthorityPolicy_digest rt authority)) (JStr (CheckPolicy_digest rt policy))
      (JStr (CheckPlan_digest rt p)) (cw_status claim) e = Inr (checked rt bundle authority policy claim head evidence p e)"
    using ids heads e digest_hashes [OF hex] by (simp add: CheckedClaim_init_def checked_def identifier_value_def hash_value_def)
  show ?thesis
    unfolding gate_result_def init rbind.simps Let_def out_def [symmetric]
    by (auto simp: returns_def charge_Inr affords_def)
qed

text \<open>The inventory of the gate.\<close>

definition inventory_ok :: "workflow_bundle \<Rightarrow> claim_workflow \<Rightarrow> check_policy \<Rightarrow> (ustr \<times> bytes) list \<Rightarrow> check_plan \<Rightarrow> bool" where
  "inventory_ok bundle claim policy contents p \<longleftrightarrow>
     set (map ar_id (kp_inputs p)) \<inter> {kq_plan_artifact policy, kq_evaluation_artifact policy} = {}
     \<and> set (map fst contents) = set (map ar_id (kp_inputs p)) \<union> {kq_plan_artifact policy, kq_evaluation_artifact policy}
     \<and> (\<forall>a \<in> set (kp_inputs p). ar_id a \<in> set (cw_artifacts claim) \<and> artifact_by_id bundle (ar_id a) = Some a)"

lemma gate_inventory_Inr: "gate_inventory bundle claim policy contents p = Inr u \<longleftrightarrow> inventory_ok bundle claim policy contents p"
  by (simp add: gate_inventory_def inventory_ok_def Let_def list_all_iff)

text \<open>What the gate asks of the retained bytes of a plan.\<close>

definition gate_holds ::
  "runtime \<Rightarrow> nat \<Rightarrow> check_limits \<Rightarrow> workflow_bundle \<Rightarrow> authority_policy \<Rightarrow> check_policy \<Rightarrow> claim_workflow \<Rightarrow> ustr
     \<Rightarrow> (ustr \<times> bytes) list \<Rightarrow> check_plan \<Rightarrow> bool" where
  "gate_holds rt recursion L bundle authority policy claim evidence contents p \<longleftrightarrow>
     (\<forall>i \<in> {kq_plan_artifact policy, kq_evaluation_artifact policy}. metadata_ok rt bundle claim contents i)
     \<and> check_plan_ok rt p \<and> CheckPlan_digest rt p = kq_plan policy
     \<and> retained_bytes contents (kq_plan_artifact policy) = CheckPlan_to_bytes rt p
     \<and> plan_context rt bundle authority claim evidence p \<and> inventory_ok bundle claim policy contents p
     \<and> plan_admitted rt recursion L p (retained_bytes contents)
     \<and> retained_bytes contents (kq_evaluation_artifact policy)
       = CheckEvaluation_to_bytes rt (plan_evaluation rt recursion p (retained_bytes contents))"

definition gate_work ::
  "runtime \<Rightarrow> nat \<Rightarrow> claim_workflow \<Rightarrow> checked_claim \<Rightarrow> check_plan \<Rightarrow> (ustr \<Rightarrow> bytes) \<Rightarrow> int" where
  "gate_work rt recursion claim c p raws =
     (let e = plan_evaluation rt recursion p raws in
      5 * int (length (CheckPlan_to_bytes rt p)) + json_nodes (CheckPlan_to_dict p) + int (length (utf8 (cw_statement claim)))
      + plan_work rt recursion p raws
      + 4 * int (length (CheckEvaluation_to_bytes rt e)) + json_nodes (CheckEvaluation_to_dict e)
      + int (length (CheckedClaim_to_bytes rt c)))"

definition gate_nodes :: "runtime \<Rightarrow> nat \<Rightarrow> check_plan \<Rightarrow> (ustr \<Rightarrow> bytes) \<Rightarrow> int" where
  "gate_nodes rt recursion p raws = json_nodes (CheckPlan_to_dict p) + plan_nodes recursion p raws
     + json_nodes (CheckEvaluation_to_dict (plan_evaluation rt recursion p raws))"

lemma document_nodes_nonneg: "0 \<le> document_nodes recursion raw"
  using json_nodes_pos [of "document_value recursion raw"] by (simp add: document_nodes_def)

lemma plan_costs_nonneg: "0 \<le> plan_work rt recursion p raws" "0 \<le> plan_nodes recursion p raws"
  by (auto simp: plan_work_def plan_nodes_def intro!: add_nonneg_nonneg sum_list_nonneg document_nodes_nonneg rule_cost_nonneg)

text \<open>Once the plan is read: its context, its inventory, its evaluation, the result.\<close>

lemma gate_tail_returns:
  fixes contents :: "(ustr \<times> bytes) list" and recursion :: nat and authority :: authority_policy and policy :: check_policy
  assumes rt: "repr_contract rt" "repr_reads rt" "sha256_hex rt" and L: "4 \<le> kl_depth L" and rec: "4 \<le> recursion"
    and ids: "is_identifier (wb_id bundle)" "is_identifier (cw_scope claim)" "is_identifier (cw_claim claim)"
    and heads: "is_hash head" "is_hash evidence" "ledger_head (wb_evidence bundle) = JStr evidence" and p: "check_plan_ok rt p"
  defines "raws \<equiv> retained_bytes contents"
  defines "e \<equiv> plan_evaluation rt recursion p raws" and "claimed \<equiv> raws (kq_evaluation_artifact policy)"
  defines "c \<equiv> checked rt bundle authority policy claim head evidence p e"
  defines "work \<equiv> plan_work rt recursion p raws + (3 * int (length claimed) + document_nodes recursion claimed)
      + int (length (CheckedClaim_to_bytes rt c))"
  defines "nodes \<equiv> plan_nodes recursion p raws + document_nodes recursion claimed"
  shows "returns L (\<lambda>b. rbind (require (plan_context rt bundle authority claim evidence p) msg) (\<lambda>_.
      rbind (gate_inventory bundle claim policy contents p) (\<lambda>_.
      rbind (gate_evaluate rt recursion policy contents p b) (\<lambda>(e, b). gate_result rt bundle authority policy claim head p e b))))
    (plan_context rt bundle authority claim evidence p \<and> inventory_ok bundle claim policy contents p
      \<and> (plan_admitted rt recursion L p raws \<and> claimed = CheckEvaluation_to_bytes rt e)
      \<and> int (length (CheckedClaim_to_bytes rt c)) \<le> kl_output_bytes L) c work nodes"
proof -
  have e: "ke_plan e = CheckPlan_digest rt p" by (simp add: e_def plan_evaluation_def)
  have run: "returns L (\<lambda>b. rbind (gate_evaluate rt recursion policy contents p b) (\<lambda>(e, b). gate_result rt bundle authority policy claim head p e b))
      ((plan_admitted rt recursion L p raws \<and> claimed = CheckEvaluation_to_bytes rt e)
        \<and> int (length (CheckedClaim_to_bytes rt c)) \<le> kl_output_bytes L) c work (nodes + 0)"
    if "inventory_ok bundle claim policy contents p"
  proof -
    have keys: "set (map fst contents) = set (map ar_id (kp_inputs p)) \<union> {kq_plan_artifact policy, kq_evaluation_artifact policy}"
      using that by (simp add: inventory_ok_def)
    show ?thesis
      unfolding work_def nodes_def raws_def e_def claimed_def
      by (rule yields_returns [OF gate_evaluate_yields [OF rt L rec p keys]])
        (use gate_result_returns [OF rt(3) ids heads e] in \<open>simp_all add: c_def e_def raws_def\<close>)
  qed
  have nonneg: "0 \<le> work" "0 \<le> nodes"
    using plan_costs_nonneg document_nodes_nonneg by (simp_all add: work_def nodes_def)
  have inv: "returns L (\<lambda>b. rbind (gate_inventory bundle claim policy contents p) (\<lambda>_.
      rbind (gate_evaluate rt recursion policy contents p b) (\<lambda>(e, b). gate_result rt bundle authority policy claim head p e b)))
    (inventory_ok bundle claim policy contents p
      \<and> (plan_admitted rt recursion L p raws \<and> claimed = CheckEvaluation_to_bytes rt e)
      \<and> int (length (CheckedClaim_to_bytes rt c)) \<le> kl_output_bytes L) c work nodes"
  proof (cases "gate_inventory bundle claim policy contents p")
    case (Inl x)
    then have "\<not> inventory_ok bundle claim policy contents p" using gate_inventory_Inr [of "bundle" claim policy contents p] by auto
    then show ?thesis using Inl nonneg by (simp add: returns_fail)
  next
    case (Inr u)
    then have "inventory_ok bundle claim policy contents p" by (simp add: gate_inventory_Inr)
    then show ?thesis using run Inr by simp
  qed
  show ?thesis by (rule returns_require [OF inv nonneg])
qed

lemma gate_checks_returns:
  fixes contents :: "(ustr \<times> bytes) list" and recursion :: nat and authority :: authority_policy and policy :: check_policy
  assumes rt: "repr_contract rt" "repr_reads rt" "sha256_hex rt" and L: "4 \<le> kl_depth L" and rec: "4 \<le> recursion"
    and ids: "is_identifier (wb_id bundle)" "is_identifier (cw_scope claim)" "is_identifier (cw_claim claim)"
    and heads: "is_hash head" "is_hash evidence" "ledger_head (wb_evidence bundle) = JStr evidence"
  defines "raws \<equiv> retained_bytes contents"
  defines "raw \<equiv> raws (kq_plan_artifact policy)" and "claimed \<equiv> raws (kq_evaluation_artifact policy)"
  defines "p \<equiv> retained_plan rt recursion raw"
  defines "c \<equiv> checked rt bundle authority policy claim head evidence p (plan_evaluation rt recursion p raws)"
  defines "tail \<equiv> plan_work rt recursion p raws + (3 * int (length claimed) + document_nodes recursion claimed)
      + int (length (CheckedClaim_to_bytes rt c))"
  shows "returns L (gate_checks rt recursion bundle authority policy claim head evidence contents)
    (gate_holds rt recursion L bundle authority policy claim evidence contents p
      \<and> int (length (CheckedClaim_to_bytes rt c)) \<le> kl_output_bytes L) c
    (int (length raw) + int (length claimed) + (4 * int (length raw) + document_nodes recursion raw
      + (int (length (utf8 (cw_statement claim))) + tail)))
    (document_nodes recursion raw + (plan_nodes recursion p raws + document_nodes recursion claimed))"
proof -
  let ?nodes = "plan_nodes recursion p raws + document_nodes recursion claimed"
  let ?Q = "plan_context rt bundle authority claim evidence p \<and> inventory_ok bundle claim policy contents p
      \<and> (plan_admitted rt recursion L p raws \<and> claimed = CheckEvaluation_to_bytes rt (plan_evaluation rt recursion p raws))
      \<and> int (length (CheckedClaim_to_bytes rt c)) \<le> kl_output_bytes L"
  let ?P = "rt_sha256 rt raw = kq_plan policy
      \<and> (\<exists>p. check_plan_ok rt p \<and> raw = CheckPlan_to_bytes rt p \<and> int (length raw) \<le> kl_plan_bytes L)"
  let ?M = "\<forall>i \<in> set [kq_plan_artifact policy, kq_evaluation_artifact policy]. metadata_ok rt bundle claim contents i"
  have nonneg: "0 \<le> tail" "0 \<le> ?nodes"
    using plan_costs_nonneg document_nodes_nonneg by (simp_all add: tail_def)
  have read: "check_plan_ok rt p \<and> raw = CheckPlan_to_bytes rt p \<and> int (length raw) \<le> kl_plan_bytes L" if "?P"
    using that retained_plan_bytes [OF rt(1,2) rec] by (auto simp: p_def)
  have stated: "returns L (\<lambda>b. rbind (charge (int (length (utf8 (cw_statement claim)))) b) (\<lambda>b.
      rbind (require (plan_context rt bundle authority claim evidence p)
              ''plan context does not match the authorized claim and evidence'') (\<lambda>_.
      rbind (gate_inventory bundle claim policy contents p) (\<lambda>_.
      rbind (gate_evaluate rt recursion policy contents p b) (\<lambda>(e, b). gate_result rt bundle authority policy claim head p e b)))))
    (True \<and> ?Q) c (int (length (utf8 (cw_statement claim))) + tail) (0 + ?nodes)" if "?P"
  proof -
    have ok: "check_plan_ok rt p" using read [OF that] by simp
    show ?thesis unfolding c_def tail_def claimed_def raws_def
      by (rule spends_returns [OF spends_charge gate_tail_returns [OF rt L rec ids heads ok]])
        (use nonneg in \<open>simp_all add: tail_def claimed_def raws_def c_def\<close>)
  qed
  have planned: "returns L (\<lambda>b. rbind (lookup_item contents (kq_plan_artifact policy)) (\<lambda>raw.
      rbind (gate_plan rt recursion policy raw b) (\<lambda>(p, b).
      rbind (charge (int (length (utf8 (cw_statement claim)))) b) (\<lambda>b.
      rbind (require (plan_context rt bundle authority claim evidence p)
              ''plan context does not match the authorized claim and evidence'') (\<lambda>_.
      rbind (gate_inventory bundle claim policy contents p) (\<lambda>_.
      rbind (gate_evaluate rt recursion policy contents p b) (\<lambda>(e, b). gate_result rt bundle authority policy claim head p e b)))))))
    (?P \<and> (True \<and> ?Q)) c (4 * int (length raw) + document_nodes recursion raw + (int (length (utf8 (cw_statement claim))) + tail))
    (document_nodes recursion raw + (0 + ?nodes))" if "?M"
  proof -
    have "lookup_item contents (kq_plan_artifact policy) = Inr raw"
      using that by (auto simp: metadata_ok_def lookup_item_def raw_def raws_def retained_bytes_def)
    then show ?thesis
      unfolding p_def
      by (simp only: rbind.simps) (rule yields_returns [OF gate_plan_yields [OF rt(1,2) L rec]],
        use stated nonneg in \<open>simp_all add: p_def\<close>)
  qed
  have metadata: "spends L (\<lambda>b. rfold (gate_metadata rt bundle claim contents) b [kq_plan_artifact policy, kq_evaluation_artifact policy])
      ?M (\<Sum>i \<leftarrow> [kq_plan_artifact policy, kq_evaluation_artifact policy]. int (length (raws i)))
      (\<Sum>i \<leftarrow> [kq_plan_artifact policy, kq_evaluation_artifact policy]. 0)"
    unfolding raws_def by (rule spends_rfold) (rule gate_metadata_spends)
  have all: "returns L (gate_checks rt recursion bundle authority policy claim head evidence contents) (?M \<and> ?P \<and> (True \<and> ?Q)) c
      ((\<Sum>i \<leftarrow> [kq_plan_artifact policy, kq_evaluation_artifact policy]. int (length (raws i)))
        + (4 * int (length raw) + document_nodes recursion raw + (int (length (utf8 (cw_statement claim))) + tail)))
      ((\<Sum>i \<leftarrow> [kq_plan_artifact policy, kq_evaluation_artifact policy]. 0) + (document_nodes recursion raw + (0 + ?nodes)))"
    unfolding gate_checks_def [abs_def]
    by (rule spends_returns [OF metadata planned]) (use nonneg document_nodes_nonneg [of recursion raw] in simp_all)
  have P: "?P \<longleftrightarrow> CheckPlan_digest rt p = kq_plan policy \<and> check_plan_ok rt p \<and> raw = CheckPlan_to_bytes rt p
      \<and> int (length (CheckPlan_to_bytes rt p)) \<le> kl_plan_bytes L"
  proof
    assume "?P"
    with read [OF this] show "CheckPlan_digest rt p = kq_plan policy \<and> check_plan_ok rt p \<and> raw = CheckPlan_to_bytes rt p
      \<and> int (length (CheckPlan_to_bytes rt p)) \<le> kl_plan_bytes L" by (auto simp: CheckPlan_digest_def)
  qed (auto simp: CheckPlan_digest_def)
  have "?M \<and> ?P \<and> (True \<and> ?Q) \<longleftrightarrow> gate_holds rt recursion L bundle authority policy claim evidence contents p
      \<and> int (length (CheckedClaim_to_bytes rt c)) \<le> kl_output_bytes L"
    unfolding P by (auto simp: gate_holds_def plan_admitted_def raws_def raw_def claimed_def)
  then show ?thesis using all by (simp add: raw_def claimed_def add.assoc)
qed

text \<open>The claim that a policy names in a replayed workflow.\<close>

lemma replayed_claim:
  assumes "ledger_runtime rt" "bundle_ok rt b" "replay_workflow rt b authority (Some head) = Inr state"
    and "map_of (ws_claims state) k = Some claim"
  shows "cw_claim claim = k" "claim_inv authority b claim" "is_hash head" "ws_head state = head"
proof -
  have run: "rfold (replay_step authority b) [] (map wr_transition (wb_records b)) = Inr (ws_claims state)"
    and head: "head = WorkflowBundle_head rt b" "ws_head state = WorkflowBundle_head rt b"
    using assms(3) replay_workflow_Inr_iff [OF assms(1,2)] by auto
  then have "claims_inv authority b (ws_claims state)" using replay_loop_inv [OF run claims_inv_empty] by blast
  then show "cw_claim claim = k" "claim_inv authority b claim"
    using keys_ok_get [of "ws_claims state" k claim] map_of_SomeD [OF assms(4)] assms(4) by (auto simp: claims_inv_def)
  show "is_hash head" "ws_head state = head" using head bundle_head_hex [OF assms(1,2)] by simp_all
qed

lemma gate_claim_Inr:
  "gate_claim state policy = Inr claim \<longleftrightarrow> map_of (ws_claims state) (kq_claim policy) = Some claim \<and> cw_scope claim = kq_scope policy"
  by (auto simp: gate_claim_def split: option.splits)

lemma gate_checks_Inr:
  fixes contents :: "(ustr \<times> bytes) list"
  assumes rt: "ledger_runtime rt" "repr_reads rt" and L: "limits_ok L" "4 \<le> kl_depth L" and rec: "4 \<le> recursion"
    and ids: "is_identifier (wb_id bundle)" "is_identifier (cw_scope claim)" "is_identifier (cw_claim claim)"
    and heads: "is_hash head" "is_hash evidence" "ledger_head (wb_evidence bundle) = JStr evidence"
    and n: "0 \<le> n" "n \<le> kl_work L"
  defines "raws \<equiv> retained_bytes contents"
  shows "gate_checks rt recursion bundle authority policy claim head evidence contents (spend n 0 (fresh_budget L)) = Inr c
    \<longleftrightarrow> (\<exists>p. gate_holds rt recursion L bundle authority policy claim evidence contents p
      \<and> c = checked rt bundle authority policy claim head evidence p (plan_evaluation rt recursion p raws)
      \<and> int (length (CheckedClaim_to_bytes rt c)) \<le> kl_output_bytes L
      \<and> n + gate_work rt recursion claim c p raws \<le> kl_work L \<and> gate_nodes rt recursion p raws \<le> kl_nodes L)"
    (is "?run = _ \<longleftrightarrow> (\<exists>p. ?holds p)")
proof -
  have rts: "repr_contract rt" "repr_reads rt" "sha256_hex rt" using rt by (simp_all add: ledger_runtime_def)
  let ?p = "retained_plan rt recursion (raws (kq_plan_artifact policy))"
  have z: "affords 0 0 (spend n 0 (fresh_budget L))"
    using L(1) n by (simp add: affords_spend fresh_affords) (simp add: limits_ok_def)
  note run = returnsD [OF gate_checks_returns [where policy = policy and contents = contents and authority = authority, OF rts L(2) rec ids heads] _ z, of c]
  have unique: "p = ?p" if "gate_holds rt recursion L bundle authority policy claim evidence contents p" for p
    using that retained_plan_bytes [OF rts(1,2) rec, of p] by (simp add: gate_holds_def raws_def)
  have "?run = Inr c \<longleftrightarrow> ?holds ?p"
  proof (cases "gate_holds rt recursion L bundle authority policy claim evidence contents ?p")
    case True
    then have p: "check_plan_ok rt ?p" "raws (kq_plan_artifact policy) = CheckPlan_to_bytes rt ?p"
      "raws (kq_evaluation_artifact policy) = CheckEvaluation_to_bytes rt (plan_evaluation rt recursion ?p raws)"
      by (simp_all add: gate_holds_def raws_def)
    have nodes: "document_nodes recursion (raws (kq_plan_artifact policy)) = json_nodes (CheckPlan_to_dict ?p)"
      "document_nodes recursion (raws (kq_evaluation_artifact policy))
        = json_nodes (CheckEvaluation_to_dict (plan_evaluation rt recursion ?p raws))"
      using plan_document(2) [OF rts(1,2) rec p(1)] plan_evaluation_document(1) [OF rts _ p(1), of recursion raws] rec
      unfolding p(2,3) [symmetric] by simp_all
    have sizes: "int (length (raws (kq_plan_artifact policy))) = int (length (CheckPlan_to_bytes rt ?p))"
      "int (length (raws (kq_evaluation_artifact policy)))
        = int (length (CheckEvaluation_to_bytes rt (plan_evaluation rt recursion ?p raws)))"
      using p(2,3) by simp_all
    show ?thesis
      using run True L(1) nodes sizes
      by (auto simp: raws_def [symmetric] affords_spend fresh_affords gate_work_def gate_nodes_def Let_def)
  next
    case False
    then show ?thesis using run by (simp add: raws_def)
  qed
  then show ?thesis using unique by blast
qed

lemma charge_fresh: "charge n (fresh_budget L) = Inr b \<longleftrightarrow> n \<le> kl_work L \<and> b = spend n 0 (fresh_budget L)"
  by (auto simp: charge_Inr fresh_budget_def spend_def)

lemma verify_claim_checks_Inr:
  fixes contents :: "(ustr \<times> bytes) list" and policy :: check_policy
  assumes rt: "ledger_runtime rt" "repr_reads rt" and b: "bundle_ok rt bundle" and L: "limits_ok L" "4 \<le> kl_depth L" and rec: "4 \<le> recursion"
  defines "raws \<equiv> retained_bytes contents" and "n \<equiv> int (length (CheckPolicy_to_bytes rt policy))"
  shows "verify_claim_checks rt recursion bundle authority policy contents (JStr head) (JStr evidence) (Some L) = Inr c \<longleftrightarrow>
    is_hash evidence \<and> wb_id bundle = kq_workflow policy \<and> AuthorityPolicy_digest rt authority = kq_authority policy
    \<and> ledger_head (wb_evidence bundle) = JStr evidence \<and> snapshot_ok L 2 contents
    \<and> (\<exists>state claim p. replay_workflow rt bundle authority (Some head) = Inr state
      \<and> map_of (ws_claims state) (kq_claim policy) = Some claim \<and> cw_scope claim = kq_scope policy
      \<and> gate_holds rt recursion L bundle authority policy claim evidence contents p
      \<and> c = checked rt bundle authority policy claim head evidence p (plan_evaluation rt recursion p raws)
      \<and> int (length (CheckedClaim_to_bytes rt c)) \<le> kl_output_bytes L
      \<and> n + gate_work rt recursion claim c p raws \<le> kl_work L \<and> gate_nodes rt recursion p raws \<le> kl_nodes L)"
    (is "?run \<longleftrightarrow> ?pins \<and> ?head \<and> ?authority \<and> ?evidence \<and> ?snapshot \<and> ?found")
proof -
  have n: "0 \<le> n" by (simp add: n_def)
  have checks: "gate_checks rt recursion bundle authority policy claim (ws_head state) evidence contents (spend n 0 (fresh_budget L)) = Inr c
      \<longleftrightarrow> (\<exists>p. gate_holds rt recursion L bundle authority policy claim evidence contents p
        \<and> c = checked rt bundle authority policy claim head evidence p (plan_evaluation rt recursion p raws)
        \<and> int (length (CheckedClaim_to_bytes rt c)) \<le> kl_output_bytes L
        \<and> n + gate_work rt recursion claim c p raws \<le> kl_work L \<and> gate_nodes rt recursion p raws \<le> kl_nodes L)"
    if replay: "replay_workflow rt bundle authority (Some head) = Inr state"
      and claim: "map_of (ws_claims state) (kq_claim policy) = Some claim" "?pins" "?evidence" "n \<le> kl_work L" for state claim
  proof -
    note facts = replayed_claim [OF rt(1) b replay claim(1)]
    have "is_identifier (wb_id bundle)" "is_identifier (cw_scope claim)" "is_identifier (cw_claim claim)"
      using b facts(2) by (simp_all add: bundle_ok_def claim_inv_def claim_ok_def)
    from gate_checks_Inr [OF rt L rec this facts(3) claim(2,3) n claim(4)] show ?thesis by (simp add: facts(4) raws_def)
  qed
  have work: "n \<le> kl_work L" if "n + gate_work rt recursion claim c p raws \<le> kl_work L" for claim p
    using that plan_costs_nonneg(1) [of rt recursion p raws] json_nodes_pos [of "CheckPlan_to_dict p"]
      json_nodes_pos [of "CheckEvaluation_to_dict (plan_evaluation rt recursion p raws)"]
    by (simp add: gate_work_def Let_def)
  have hash: "is_hash head" if "replay_workflow rt bundle authority (Some head) = Inr state"
      "map_of (ws_claims state) (kq_claim policy) = Some claim" for state claim
    using replayed_claim(3) [OF rt(1) b that] .
  have run: "?run \<longleftrightarrow> is_hash head \<and> ?pins \<and> ?head \<and> ?authority \<and> ?evidence \<and> ?snapshot \<and> n \<le> kl_work L
      \<and> (\<exists>state. replay_workflow rt bundle authority (Some head) = Inr state
        \<and> (\<exists>claim. map_of (ws_claims state) (kq_claim policy) = Some claim \<and> cw_scope claim = kq_scope policy
          \<and> gate_checks rt recursion bundle authority policy claim (ws_head state) evidence contents (spend n 0 (fresh_budget L)) = Inr c))"
    by (auto simp: verify_claim_checks_def hash_value_def check_limits_of_def Let_def gate_claim_Inr charge_fresh check_snapshot_Inr n_def)
  show ?thesis unfolding run using checks work hash by blast
qed

subsection \<open>What an accepted claim rests on\<close>

lemma evaluation_passes:
  "evaluation_outcome (plan_evaluation rt recursion p raws) = PASS
    \<longleftrightarrow> (\<forall>r \<in> set (kp_rules p). rule_verdict r (\<lambda>i. document_value recursion (raws i)) raws = PASSED)"
proof -
  have "reason_outcome reason \<noteq> FAIL \<and> reason_outcome reason \<noteq> UNKNOWN \<longleftrightarrow> reason = PASSED" for reason by (cases reason) simp_all
  then have "(\<forall>r \<in> set (kp_rules p). reason_outcome (f r) \<noteq> FAIL \<and> reason_outcome (f r) \<noteq> UNKNOWN)
      \<longleftrightarrow> (\<forall>r \<in> set (kp_rules p). f r = PASSED)" for f by simp
  from this [symmetric] show ?thesis
    by (auto simp: evaluation_outcome_def plan_evaluation_def rule_outcome_def list_ex_iff)
qed

lemma checked_accepted:
  "accepted (checked rt bundle authority policy claim head evidence p e) \<longleftrightarrow> cw_status claim = APPROVED \<and> evaluation_outcome e = PASS"
  by (simp add: accepted_def checked_def)

lemma inventory_input:
  assumes "inventory_ok bundle claim policy contents p" "a \<in> set (kp_inputs p)"
  shows "a \<in> set (wb_artifacts bundle)" "ar_id a \<in> set (cw_artifacts claim)"
    "map_of contents (ar_id a) = Some (retained_bytes contents (ar_id a))"
proof -
  have a: "artifact_by_id bundle (ar_id a) = Some a" "ar_id a \<in> set (cw_artifacts claim)" "ar_id a \<in> set (map fst contents)"
    using assms by (auto simp: inventory_ok_def)
  from dict_of_Some [OF a(1) [unfolded artifact_by_id_def]] show "a \<in> set (wb_artifacts bundle)" by auto
  show "ar_id a \<in> set (cw_artifacts claim)" by (rule a(2))
  show "map_of contents (ar_id a) = Some (retained_bytes contents (ar_id a))"
    using a(3) map_of_eq_None_iff [of contents "ar_id a"] by (auto simp: retained_bytes_def)
qed

end
