(* ===== verification/Sample_Checks.thy ===== *)
theory Sample_Checks
  imports Check_Gate_Lemmas Sample_Pages
begin

text \<open>
  A claim that passes its gate: the claim of the sample workflow, bound to a retained document, to the plan that checks it and
  to the evaluation of that plan.
\<close>

subsection \<open>The retained bytes\<close>

definition gate_document :: json where
  "gate_document = JObj [(U ''n'', JInt 1)]"

definition gate_rule :: check_rule where
  "gate_rule = \<lparr>kr_id = U ''r1'', kr_operator = EQUALS, kr_artifact = U ''doc'', kr_path = [Key (U ''n'')], kr_expected = Some (JInt 1),
     kr_minimum = None, kr_maximum = None, kr_other = None, kr_other_path = None\<rparr>"

definition gate_artifact :: "string \<Rightarrow> bytes \<Rightarrow> artifact_reference" where
  "gate_artifact i raw = \<lparr>ar_id = U i, ar_scope = U ''line-3'', ar_claim = U ''fire'', ar_sha256 = rt_sha256 sample_runtime raw,
     ar_size = int (length raw), ar_media = U ''application/json''\<rparr>"

definition doc_bytes :: bytes where
  "doc_bytes = canonical_bytes sample_runtime gate_document"

definition sample_check_plan :: check_plan where
  "sample_check_plan = \<lparr>kp_id = U ''plan-1'', kp_workflow = U ''flow-1'', kp_scope = U ''line-3'', kp_claim = U ''fire'',
     kp_statement = rt_sha256 sample_runtime (utf8 (U ''burning'')),
     kp_authority = AuthorityPolicy_digest sample_runtime sample_authority,
     kp_evidence = le_digest (hd (lg_entries sample_evidence)),
     kp_inputs = [gate_artifact ''doc'' doc_bytes], kp_rules = [gate_rule]\<rparr>"

definition plan_bytes :: bytes where
  "plan_bytes = CheckPlan_to_bytes sample_runtime sample_check_plan"

definition sample_verdicts :: check_evaluation where
  "sample_verdicts = \<lparr>ke_plan = CheckPlan_digest sample_runtime sample_check_plan, ke_results = [rule_outcome gate_rule PASSED]\<rparr>"

definition result_bytes :: bytes where
  "result_bytes = CheckEvaluation_to_bytes sample_runtime sample_verdicts"

definition sample_contents :: "(ustr \<times> bytes) list" where
  "sample_contents = [(U ''doc'', doc_bytes), (U ''eval'', result_bytes), (U ''plan'', plan_bytes)]"

lemma gate_ids: "is_identifier (U ''doc'')" "is_identifier (U ''plan'')" "is_identifier (U ''eval'')" "is_identifier (U ''r1'')"
  "is_identifier (U ''plan-1'')" "is_identifier (U ''gate-1'')" "is_identifier (U ''t7'')" "is_identifier (U ''t8'')"
  by (simp_all add: is_identifier_def ident_first_def ident_char_def U_def)

lemma doc_bytes: "doc_bytes = [123, 34, 110, 34, 58, 49, 125]"
  unfolding doc_bytes_def gate_document_def by code_simp

lemma gate_hash: "is_hash (rt_sha256 sample_runtime x)"
  using sample_hex by (simp add: sha256_hex_def)

lemma gate_media: "description_ok (U ''application/json'') 128"
proof -
  have "text_ok (U ''application/json'')" by (rule text_ok_visible_ascii, code_simp)
  then show ?thesis by (simp add: description_ok_def U_def)
qed

lemma gate_artifact_ok: "is_identifier (U i) \<Longrightarrow> length raw \<le> 1000000 \<Longrightarrow> artifact_ok (gate_artifact i raw)"
  by (simp add: artifact_ok_def gate_artifact_def sample_ids gate_hash gate_media)

lemma gate_rule_ok: "check_rule_ok gate_rule"
proof -
  have "is_xml_character (U ''n'')" by (rule visible_xml, code_simp)
  then show ?thesis
    by (simp add: check_rule_ok_def gate_rule_def gate_ids path_ok_def part_ok_def max_check_depth_def safe_int_def safe_integer_max_def)
qed

lemma evidence_hash: "is_hash (le_digest (hd (lg_entries sample_evidence)))"
  by (rule sample_entry) simp

lemma authority_hash: "is_hash (AuthorityPolicy_digest sample_runtime sample_authority)"
  using digest_hashes(1) [OF sample_hex] .

lemma plan_length: "length plan_bytes \<le> 5000"
proof -
  have "json_weight sample_runtime (CheckPlan_to_dict sample_check_plan) \<le> 5000"
    using evidence_hash authority_hash gate_hash
    by (simp add: CheckPlan_to_dict_def sample_check_plan_def ArtifactReference_to_dict_def gate_artifact_def gate_rule_def CheckRule_to_dict_def
        doc_bytes digit_length is_hash_length check_engine_version_def)
  then show ?thesis
    using canonical_bytes_weight [of sample_runtime "CheckPlan_to_dict sample_check_plan"] by (simp add: plan_bytes_def CheckPlan_to_bytes_def)
qed

lemma sample_check_plan_ok: "check_plan_ok sample_runtime sample_check_plan"
  using plan_length evidence_hash authority_hash gate_hash gate_rule_ok gate_artifact_ok [OF gate_ids(1), of doc_bytes]
  by (simp add: check_plan_ok_def plan_bytes_def sample_check_plan_def gate_ids sample_ids max_check_inputs_def max_check_rules_def max_plan_bytes_def
      gate_artifact_def gate_rule_def rule_inputs_def doc_bytes)

subsection \<open>The evaluation of the plan\<close>

lemma gate_contents [simp]:
  "retained_bytes sample_contents (U ''doc'') = doc_bytes" "retained_bytes sample_contents (U ''plan'') = plan_bytes"
  "retained_bytes sample_contents (U ''eval'') = result_bytes"
  by (simp_all add: retained_bytes_def sample_contents_def)

lemma gate_document_like: "check_profile gate_document" "distinct_keys gate_document" "nested 1 gate_document" "canon gate_document = gate_document"
proof -
  have "is_xml_character (U ''n'')" by (rule visible_xml, code_simp)
  then show "check_profile gate_document" "distinct_keys gate_document" "nested 1 gate_document" "canon gate_document = gate_document"
    by (simp_all add: gate_document_def check_key_def safe_int_def safe_integer_max_def)
qed

lemma sample_document:
  assumes "1 \<le> recursion"
  shows "document_value recursion doc_bytes = gate_document" "document_nodes recursion doc_bytes = 2"
    "1 \<le> depth \<Longrightarrow> 7 \<le> maximum \<Longrightarrow> document_ok recursion depth maximum doc_bytes"
proof -
  have rt: "repr_contract sample_runtime" "repr_reads sample_runtime" by (rule sample_repr, rule sample_reads)
  show v: "document_value recursion doc_bytes = gate_document"
    using canonical_document_value [OF rt gate_document_like(1-3) assms] by (simp add: doc_bytes_def gate_document_like(4))
  then show "document_nodes recursion doc_bytes = 2" by (simp add: document_nodes_def gate_document_def)
  show "document_ok recursion depth maximum doc_bytes" if "1 \<le> depth" "7 \<le> maximum"
    using canonical_document(2) [OF rt gate_document_like(1-3) assms, of depth maximum] that doc_bytes by (simp add: doc_bytes_def)
qed

text \<open>The retained bytes of the only input.\<close>

definition gate_reads :: "(ustr \<Rightarrow> bytes) \<Rightarrow> bool" where
  "gate_reads raws \<longleftrightarrow> raws (U ''doc'') = doc_bytes"

lemma gate_reads: "gate_reads (retained_bytes sample_contents)" "gate_reads (retained_bytes [(U ''doc'', doc_bytes)])"
  by (simp_all add: gate_reads_def) (simp add: retained_bytes_def)

lemma sample_evaluation:
  fixes raws :: "ustr \<Rightarrow> bytes"
  assumes "1 \<le> recursion" "gate_reads raws"
  shows "plan_evaluation sample_runtime recursion sample_check_plan raws = sample_verdicts"
  using sample_document(1) [OF assms(1)] assms(2) [unfolded gate_reads_def]
  by (simp add: plan_evaluation_def sample_verdicts_def sample_check_plan_def gate_rule_def rule_verdict_def rule_value_def gate_document_def
      path_step_def truth_def)

lemma result_length: "length result_bytes \<le> 5000"
proof -
  have "is_hash (CheckPlan_digest sample_runtime sample_check_plan)" using digest_hashes(3) [OF sample_hex] .
  then have "json_weight sample_runtime (CheckEvaluation_to_dict sample_verdicts) \<le> 5000"
    by (simp add: CheckEvaluation_to_dict_def sample_verdicts_def CheckResult_to_dict_def rule_outcome_def gate_rule_def check_outcomes_all_def
        digit_length is_hash_length check_engine_version_def evaluation_outcome_def)
  then show ?thesis
    using canonical_bytes_weight [of sample_runtime "CheckEvaluation_to_dict sample_verdicts"] by (simp add: result_bytes_def CheckEvaluation_to_bytes_def)
qed

lemma sample_json_inputs: "json_inputs sample_check_plan = [U ''doc'']"
  by (simp add: json_inputs_def sample_check_plan_def gate_rule_def rule_inputs_def sorted_set_def)

lemma sample_admitted:
  fixes raws :: "ustr \<Rightarrow> bytes"
  assumes "1 \<le> recursion" "gate_reads raws"
  shows "plan_admitted sample_runtime recursion default_check_limits sample_check_plan raws"
proof -
  have "ArtifactReference_matches sample_runtime (gate_artifact i raw) raw" for i raw
    by (simp add: ArtifactReference_matches_def gate_artifact_def)
  then show ?thesis
    using plan_length result_length sample_document(3) [OF assms(1), of "kl_depth default_check_limits" "kl_input_bytes default_check_limits"]
    by (simp add: plan_admitted_def sample_evaluation [OF assms] sample_json_inputs plan_bytes_def [symmetric] result_bytes_def [symmetric]
        default_check_limits_def assms(2) [unfolded gate_reads_def]) (simp add: sample_check_plan_def gate_artifact_def assms(2) [unfolded gate_reads_def])
qed

lemma sample_work:
  fixes raws :: "ustr \<Rightarrow> bytes"
  assumes "1 \<le> recursion" "gate_reads raws"
  shows "plan_work sample_runtime recursion sample_check_plan raws \<le> 20000"
    "plan_nodes recursion sample_check_plan raws = 2"
proof -
  show "plan_nodes recursion sample_check_plan raws = 2"
    by (simp add: plan_nodes_def sample_json_inputs sample_document [OF assms(1)] assms(2) [unfolded gate_reads_def])
  have "(\<Sum>a \<leftarrow> kp_inputs sample_check_plan. int (length (raws (ar_id a)))) = 7"
    by (simp add: sample_check_plan_def gate_artifact_def doc_bytes assms(2) [unfolded gate_reads_def])
  moreover have "(\<Sum>r \<leftarrow> kp_rules sample_check_plan. rule_cost r (\<lambda>i. document_value recursion (raws i))
      raws) \<le> 100"
    using sample_document(1) [OF assms(1)] assms(2) [unfolded gate_reads_def]
    by (simp add: sample_check_plan_def gate_rule_def rule_cost_def rule_value_def gate_document_def path_step_def compare_cost_def)
  moreover have "(\<Sum>i \<leftarrow> json_inputs sample_check_plan. int (length (raws i))
      + document_nodes recursion (raws i)) = 9"
    using sample_document(2) [OF assms(1)] assms(2) [unfolded gate_reads_def] by (simp add: sample_json_inputs doc_bytes)
  ultimately show "plan_work sample_runtime recursion sample_check_plan raws \<le> 20000"
    using plan_length result_length
    by (simp add: plan_work_def sample_evaluation [OF assms] plan_bytes_def [symmetric] result_bytes_def [symmetric])
qed

subsection \<open>A workflow that binds the document, the plan and its evaluation\<close>

definition gate_transition :: "string \<Rightarrow> int \<Rightarrow> string \<Rightarrow> bytes \<Rightarrow> workflow_transition" where
  "gate_transition i n a raw = sample_transition i BIND_ARTIFACT ''ada'' n
     \<lparr>wt_reference := Some (U a), wt_reference_digest := Some (rt_sha256 sample_runtime raw)\<rparr>"

definition gate_transitions :: "workflow_transition list" where
  "gate_transitions =
     [sample_transition ''t1'' CREATE ''ada'' 0 \<lparr>wt_statement := Some (U ''burning'')\<rparr>,
      sample_transition ''t2'' BIND_EVIDENCE ''ada'' 1 \<lparr>wt_reference := Some (U ''e5''),
        wt_reference_digest := Some (le_digest (hd (lg_entries sample_evidence)))\<rparr>,
      gate_transition ''t3'' 2 ''doc'' doc_bytes, gate_transition ''t4'' 3 ''eval'' result_bytes,
      gate_transition ''t5'' 4 ''plan'' plan_bytes,
      sample_transition ''t6'' SUBMIT ''ada'' 5,
      sample_transition ''t7'' APPROVE ''ben'' 6,
      sample_transition ''t8'' APPROVE ''cyd'' 7]"

definition gate_artifacts :: "artifact_reference list" where
  "gate_artifacts = [gate_artifact ''doc'' doc_bytes, gate_artifact ''eval'' result_bytes, gate_artifact ''plan'' plan_bytes]"

lemma gate_order: "U ''doc'' < U ''eval''" "U ''eval'' < U ''plan''" "U ''doc'' < U ''plan''"
  by code_simp+

lemma gate_sets: "sorted_set [U ''doc'', U ''eval''] = [U ''doc'', U ''eval'']" "sorted_set [U ''eval'', U ''doc''] = [U ''doc'', U ''eval'']"
  "sorted_set [U ''doc'', U ''eval'', U ''plan''] = [U ''doc'', U ''eval'', U ''plan'']"
  "sorted_set [U ''plan'', U ''doc'', U ''eval''] = [U ''doc'', U ''eval'', U ''plan'']"
  by code_simp+

lemma gate_steps:
  assumes "wb_evidence b = sample_evidence" "wb_artifacts b = gate_artifacts"
  shows "rfold (replay_step sample_authority b) [] gate_transitions
    = Inr (sample_claim APPROVED 8 [U ''e5''] [U ''doc'', U ''eval'', U ''plan''] [U ''ben'', U ''cyd''])"
proof -
  obtain x where x: "lg_entries sample_evidence = [x]" "le_event x = EvidenceEvent_to_dict sample_report" "le_event_id x = U ''e5''"
    by (rule sample_entry)
  have binds: "evidence_binds (Some x) (sample_transition i a w n \<lparr>wt_reference := r, wt_reference_digest := Some (le_digest x)\<rparr>) c"
    if "cw_claim c = U ''fire''" "cw_scope c = U ''line-3''" "cw_evidence c = []" for i a w n r c
    using that x by (simp add: evidence_binds_def sample_transition_def EvidenceEvent_to_dict_def sample_report_def sample_event_def JText_def)
  note defs = sample_step_defs gate_transition_def assms artifact_binds_def gate_artifacts_def gate_artifact_def gate_ids gate_sets
  note bound = less_imp_le [OF gate_order(1)] less_imp_le [OF gate_order(2)] less_imp_le [OF gate_order(3)]
  have "replay_step sample_authority b [] (sample_transition ''t1'' CREATE ''ada'' 0 \<lparr>wt_statement := Some (U ''burning'')\<rparr>)
      = Inr (sample_claim DRAFT 1 [] [] [])"
    by (simp add: sample_step_defs)
  moreover have "replay_step sample_authority b (sample_claim DRAFT 1 [] [] [])
      (sample_transition ''t2'' BIND_EVIDENCE ''ada'' 1 \<lparr>wt_reference := Some (U ''e5''), wt_reference_digest := Some (le_digest x)\<rparr>)
      = Inr (sample_claim DRAFT 2 [U ''e5''] [] [])"
    using binds by (simp add: sample_step_defs assms x)
  moreover have "replay_step sample_authority b (sample_claim DRAFT 2 [U ''e5''] [] []) (gate_transition ''t3'' 2 ''doc'' doc_bytes)
      = Inr (sample_claim DRAFT 3 [U ''e5''] [U ''doc''] [])"
    by (simp add: defs)
  moreover have "replay_step sample_authority b (sample_claim DRAFT 3 [U ''e5''] [U ''doc''] []) (gate_transition ''t4'' 3 ''eval'' result_bytes)
      = Inr (sample_claim DRAFT 4 [U ''e5''] [U ''doc'', U ''eval''] [])"
    using bound gate_order by (simp add: defs)
  moreover have "replay_step sample_authority b (sample_claim DRAFT 4 [U ''e5''] [U ''doc'', U ''eval''] []) (gate_transition ''t5'' 4 ''plan'' plan_bytes)
      = Inr (sample_claim DRAFT 5 [U ''e5''] [U ''doc'', U ''eval'', U ''plan''] [])"
    using bound gate_order by (simp add: defs)
  moreover have "replay_step sample_authority b (sample_claim DRAFT 5 [U ''e5''] [U ''doc'', U ''eval'', U ''plan''] []) (sample_transition ''t6'' SUBMIT ''ada'' 5)
      = Inr (sample_claim SUBMITTED 6 [U ''e5''] [U ''doc'', U ''eval'', U ''plan''] [])"
    using bound gate_order by (simp add: defs)
  moreover have "replay_step sample_authority b (sample_claim SUBMITTED 6 [U ''e5''] [U ''doc'', U ''eval'', U ''plan''] []) (sample_transition ''t7'' APPROVE ''ben'' 6)
      = Inr (sample_claim SUBMITTED 7 [U ''e5''] [U ''doc'', U ''eval'', U ''plan''] [U ''ben''])"
    using bound gate_order by (simp add: defs)
  moreover have "replay_step sample_authority b (sample_claim SUBMITTED 7 [U ''e5''] [U ''doc'', U ''eval'', U ''plan''] [U ''ben'']) (sample_transition ''t8'' APPROVE ''cyd'' 7)
      = Inr (sample_claim APPROVED 8 [U ''e5''] [U ''doc'', U ''eval'', U ''plan''] [U ''ben'', U ''cyd''])"
    using bound gate_order by (simp add: defs)
  ultimately show ?thesis using x(1) by (simp add: gate_transitions_def)
qed

text \<open>The bundle, built by \<open>append\<close> on the empty one.\<close>

definition gate_start :: workflow_bundle where
  "gate_start = \<lparr>wb_id = U ''flow-1'', wb_authority = AuthorityPolicy_digest sample_runtime sample_authority,
     wb_evidence = sample_evidence, wb_artifacts = gate_artifacts, wb_records = []\<rparr>"

lemma gate_receipt_weight:
  assumes "wr_transition r \<in> set gate_transitions" "is_hash (wr_context r)" "is_hash (wr_previous r)" "is_hash (wr_digest r)"
    "0 \<le> wr_sequence r" "wr_sequence r < 10"
  shows "json_weight sample_runtime (WorkflowReceipt_to_dict r) \<le> 10000"
proof -
  have "json_weight sample_runtime (WorkflowTransition_to_dict (wr_transition r)) \<le> 3000"
    using assms(1) evidence_hash gate_hash
    by (auto simp: gate_transitions_def gate_transition_def sample_transition_def WorkflowTransition_to_dict_def digit_length is_hash_length)
  then show ?thesis
    using assms(2-6) by (simp add: WorkflowReceipt_to_dict_def receipt_pairs_def is_hash_length digit_length)
qed

lemma gate_artifact_weight:
  assumes "length raw \<le> 5000" "length i \<le> 10"
  shows "json_weight sample_runtime (ArtifactReference_to_dict (gate_artifact i raw)) \<le> 3000"
proof -
  have "length (int_str (int (length raw))) \<le> Suc 4" by (rule int_str_length) (use assms in simp_all)
  then show ?thesis using assms(2) gate_hash by (simp add: ArtifactReference_to_dict_def gate_artifact_def is_hash_length)
qed

lemma context_hash: "is_hash (WorkflowBundle_context sample_runtime b)"
  using sample_hex by (simp add: WorkflowBundle_context_def sha_json_def sha256_hex_def)

lemma gate_bundle_weight:
  assumes "\<forall>r \<in> set rs. json_weight sample_runtime (WorkflowReceipt_to_dict r) \<le> 10000" "length rs < 10"
    "is_hash (WorkflowBundle_head sample_runtime (gate_start\<lparr>wb_records := rs\<rparr>))"
  shows "int (length (canonical_bytes sample_runtime (WorkflowBundle_to_dict sample_runtime (gate_start\<lparr>wb_records := rs\<rparr>))))
    \<le> max_workflow_bytes"
proof -
  have "sum_list (map (\<lambda>r. 1 + json_weight sample_runtime (WorkflowReceipt_to_dict r)) rs) \<le> length rs * 10001"
    by (rule sum_list_le) (use assms(1) in auto)
  moreover have "length rs * 10001 \<le> 100010" using assms(2) by simp
  moreover have "json_weight sample_runtime (ArtifactReference_to_dict (gate_artifact ''doc'' doc_bytes)) \<le> 3000"
    "json_weight sample_runtime (ArtifactReference_to_dict (gate_artifact ''eval'' result_bytes)) \<le> 3000"
    "json_weight sample_runtime (ArtifactReference_to_dict (gate_artifact ''plan'' plan_bytes)) \<le> 3000"
    by (rule gate_artifact_weight; simp add: doc_bytes result_length plan_length)+
  moreover note is_hash_length [OF assms(3)]
  ultimately have "json_weight sample_runtime (WorkflowBundle_to_dict sample_runtime (gate_start\<lparr>wb_records := rs\<rparr>)) \<le> 200000"
    using sample_evidence_weight assms(2) context_hash authority_hash
    by (simp add: WorkflowBundle_to_dict_def gate_start_def gate_artifacts_def is_hash_length digit_length o_def)
  then show ?thesis
    using canonical_bytes_weight [of sample_runtime "WorkflowBundle_to_dict sample_runtime (gate_start\<lparr>wb_records := rs\<rparr>)"]
    by (simp add: max_workflow_bytes_def)
qed

lemma gate_start_ok: "bundle_ok sample_runtime gate_start"
proof -
  have start: "gate_start\<lparr>wb_records := []\<rparr> = gate_start" by (simp add: gate_start_def)
  have "WorkflowBundle_head sample_runtime gate_start = WorkflowBundle_context sample_runtime gate_start"
    by (simp add: WorkflowBundle_head_def gate_start_def)
  then have "int (length (canonical_bytes sample_runtime (WorkflowBundle_to_dict sample_runtime gate_start))) \<le> max_workflow_bytes"
    using gate_bundle_weight [of "[]"] context_hash by (simp add: start)
  moreover have "json_finite (WorkflowBundle_to_dict sample_runtime gate_start)"
  proof -
    obtain x where x: "lg_entries sample_evidence = [x]" "le_event x = EvidenceEvent_to_dict sample_report" by (rule sample_entry)
    have "event_ok sample_report" using sample_storable by (simp add: storable_def)
    then have "json_finite (EvidenceEvent_to_dict sample_report)" by (rule EvidenceEvent_to_dict_finite)
    moreover have "\<exists>g. lg_genesis sample_evidence = JStr g"
      using sample_evidence(5) by (auto simp: ledger_verify_def split: option.splits if_splits json.splits)
    ultimately show ?thesis
      using x by (auto simp: WorkflowBundle_to_dict_def EvidenceLedger_to_dict_def LedgerEntry_to_dict_def ledger_head_def gate_start_def
        gate_artifacts_def)
  qed
  ultimately show ?thesis
    using context_hash authority_hash sample_evidence(5) gate_order less_imp_le [OF gate_order(1)] less_imp_le [OF gate_order(2)]
      less_imp_le [OF gate_order(3)]
    by (simp add: bundle_ok_def gate_start_def gate_artifacts_def gate_artifact_def sample_ids max_workflow_artifacts_def max_workflow_records_def)
qed

lemma gate_appended_size: "appended_size sample_runtime gate_start gate_transitions"
  unfolding appended_size_def
proof (intro allI impI; elim conjE)
  have len: "length gate_transitions = 8" by (simp add: gate_transitions_def)
  fix new :: "workflow_receipt list"
  assume new: "map wr_transition new = gate_transitions"
    and f: "\<forall>r \<in> set new. is_hash (wr_context r) \<and> is_hash (wr_previous r) \<and> is_hash (wr_digest r)
         \<and> 0 \<le> wr_sequence r \<and> wr_sequence r < int (length (wb_records gate_start) + length gate_transitions)"
  have nl: "length new = 8" using new len by (metis length_map)
  have "\<forall>r \<in> set new. json_weight sample_runtime (WorkflowReceipt_to_dict r) \<le> 10000"
    using f gate_receipt_weight unfolding new [symmetric] by (auto simp: gate_start_def nl)
  moreover have "is_hash (WorkflowBundle_head sample_runtime (gate_start\<lparr>wb_records := new\<rparr>))"
    using f nl by (auto simp: WorkflowBundle_head_def)
  moreover have "wb_records gate_start @ new = new" by (simp add: gate_start_def)
  ultimately show "int (length (canonical_bytes sample_runtime
      (WorkflowBundle_to_dict sample_runtime (gate_start\<lparr>wb_records := wb_records gate_start @ new\<rparr>)))) \<le> max_workflow_bytes"
    using gate_bundle_weight [of new] nl by simp
qed

definition gate_bundle :: workflow_bundle where
  "gate_bundle = projr (WorkflowBundle_append sample_runtime gate_start gate_transitions sample_authority)"

definition gate_head :: ustr where
  "gate_head = WorkflowBundle_head sample_runtime gate_bundle"

lemma gate_bundle:
  obtains state where "bundle_ok sample_runtime gate_bundle" "wb_id gate_bundle = U ''flow-1''"
    "wb_evidence gate_bundle = sample_evidence" "wb_artifacts gate_bundle = gate_artifacts"
    "replay_workflow sample_runtime gate_bundle sample_authority (Some gate_head) = Inr state"
    "ws_claims state = sample_claim APPROVED 8 [U ''e5''] [U ''doc'', U ''eval'', U ''plan''] [U ''ben'', U ''cyd'']"
proof -
  have run: "rfold (replay_step sample_authority gate_start) [] (map wr_transition (wb_records gate_start)) = Inr []"
    by (simp add: gate_start_def)
  have steps: "rfold (replay_step sample_authority gate_start) [] gate_transitions
      = Inr (sample_claim APPROVED 8 [U ''e5''] [U ''doc'', U ''eval'', U ''plan''] [U ''ben'', U ''cyd''])"
    by (rule gate_steps) (simp_all add: gate_start_def)
  have "\<exists>d s. WorkflowBundle_append sample_runtime gate_start gate_transitions sample_authority = Inr d
      \<and> replay_workflow sample_runtime d sample_authority None = Inr s
      \<and> ws_claims s = sample_claim APPROVED 8 [U ''e5''] [U ''doc'', U ''eval'', U ''plan''] [U ''ben'', U ''cyd'']"
    by (rule WorkflowBundle_append_accepts [OF sample_ledger_runtime gate_start_ok _ run steps _ _ gate_appended_size])
      (simp_all add: gate_start_def gate_transitions_def gate_transition_def sample_transition_def max_workflow_records_def)
  then obtain s where d: "WorkflowBundle_append sample_runtime gate_start gate_transitions sample_authority = Inr gate_bundle"
    and s: "replay_workflow sample_runtime gate_bundle sample_authority None = Inr s"
      "ws_claims s = sample_claim APPROVED 8 [U ''e5''] [U ''doc'', U ''eval'', U ''plan''] [U ''ben'', U ''cyd'']"
    by (auto simp: gate_bundle_def)
  note a = WorkflowBundle_append_Inr [OF sample_ledger_runtime gate_start_ok d]
  have "replay_workflow sample_runtime gate_bundle sample_authority (Some gate_head) = Inr s"
    using s(1) by (simp add: replay_workflow_Inr_iff [OF sample_ledger_runtime a(2)] gate_head_def)
  then show thesis using that a(2-6) s(2) by (simp add: gate_start_def)
qed

subsection \<open>The claim passes its gate\<close>

definition sample_check_policy :: check_policy where
  "sample_check_policy = \<lparr>kq_id = U ''gate-1'', kq_workflow = U ''flow-1'', kq_scope = U ''line-3'', kq_claim = U ''fire'',
     kq_authority = AuthorityPolicy_digest sample_runtime sample_authority, kq_plan_artifact = U ''plan'',
     kq_plan = CheckPlan_digest sample_runtime sample_check_plan, kq_evaluation_artifact = U ''eval''\<rparr>"

definition gate_evidence :: ustr where
  "gate_evidence = le_digest (hd (lg_entries sample_evidence))"

definition gated :: claim_workflow where
  "gated = snd (hd (sample_claim APPROVED 8 [U ''e5''] [U ''doc'', U ''eval'', U ''plan''] [U ''ben'', U ''cyd'']))"

definition sample_checked :: checked_claim where
  "sample_checked = checked sample_runtime gate_bundle sample_authority sample_check_policy gated gate_head gate_evidence sample_check_plan sample_verdicts"

lemma sample_checked_accepted: "accepted sample_checked"
  by (simp add: accepted_def sample_checked_def checked_def gated_def sample_claim_def evaluation_outcome_def sample_verdicts_def rule_outcome_def)

lemma sample_snapshot: "snapshot_ok default_check_limits 2 sample_contents"
  using plan_length result_length gate_ids by (simp add: snapshot_ok_def sample_contents_def default_check_limits_def doc_bytes)

lemma gate_by_id:
  assumes "wb_artifacts b = gate_artifacts"
  shows "artifact_by_id b (U ''doc'') = Some (gate_artifact ''doc'' doc_bytes)"
    "artifact_by_id b (U ''eval'') = Some (gate_artifact ''eval'' result_bytes)"
    "artifact_by_id b (U ''plan'') = Some (gate_artifact ''plan'' plan_bytes)"
  using gate_order by (simp_all add: artifact_by_id_def assms gate_artifacts_def gate_artifact_def dict_of_def)

lemma sample_gate_holds:
  assumes "1 \<le> recursion"
  shows "gate_holds sample_runtime recursion default_check_limits gate_bundle sample_authority sample_check_policy gated gate_evidence
    sample_contents sample_check_plan"
proof -
  obtain state where b: "wb_id gate_bundle = U ''flow-1''" "wb_artifacts gate_bundle = gate_artifacts"
    using gate_bundle by metis
  have matches: "ArtifactReference_matches sample_runtime (gate_artifact i raw) raw" for i raw
    by (simp add: ArtifactReference_matches_def gate_artifact_def)
  have retained: "map_of sample_contents (U ''eval'') = Some result_bytes" "map_of sample_contents (U ''plan'') = Some plan_bytes"
    by (simp_all add: sample_contents_def)
  have "metadata_ok sample_runtime gate_bundle gated sample_contents (U ''eval'')"
    "metadata_ok sample_runtime gate_bundle gated sample_contents (U ''plan'')"
    by (simp_all add: metadata_ok_def gate_by_id [OF b(2)] retained matches gated_def sample_claim_def) (simp_all add: gate_artifact_def)
  moreover have "plan_context sample_runtime gate_bundle sample_authority gated gate_evidence sample_check_plan"
    by (simp add: plan_context_def b(1) sample_check_plan_def gated_def sample_claim_def gate_evidence_def)
  moreover have "inventory_ok gate_bundle gated sample_check_policy sample_contents sample_check_plan"
    using gate_order gate_by_id(1) [OF b(2)]
    by (auto simp: inventory_ok_def sample_check_policy_def sample_check_plan_def gated_def sample_claim_def sample_contents_def gate_artifact_def)
  ultimately show ?thesis
    using sample_check_plan_ok sample_admitted [OF assms gate_reads(1)]
    by (simp add: gate_holds_def sample_check_policy_def sample_evaluation [OF assms gate_reads(1)] plan_bytes_def result_bytes_def)
qed

lemma sample_checked_length: "length (CheckedClaim_to_bytes sample_runtime sample_checked) \<le> 10000"
proof -
  have "is_hash gate_head" "wb_id gate_bundle = U ''flow-1''"
    using gate_bundle bundle_head_hex [OF sample_ledger_runtime] by (metis gate_head_def)+
  moreover have "is_hash (CheckPlan_digest sample_runtime sample_check_plan)" "is_hash (CheckPolicy_digest sample_runtime sample_check_policy)"
    using digest_hashes [OF sample_hex] by simp_all
  moreover have "is_hash (CheckEvaluation_digest sample_runtime sample_verdicts)" by (simp add: CheckEvaluation_digest_def gate_hash)
  ultimately have "json_weight sample_runtime (CheckedClaim_to_dict sample_runtime sample_checked) \<le> 10000"
    using evidence_hash authority_hash
    by (simp add: CheckedClaim_to_dict_def sample_checked_def checked_def gated_def sample_claim_def gate_evidence_def is_hash_length
        CheckEvaluation_to_dict_def sample_verdicts_def CheckResult_to_dict_def rule_outcome_def gate_rule_def check_outcomes_all_def
        digit_length check_engine_version_def evaluation_outcome_def)
  then show ?thesis
    using canonical_bytes_weight [of sample_runtime "CheckedClaim_to_dict sample_runtime sample_checked"]
    by (simp add: CheckedClaim_to_bytes_def)
qed

lemma plan_nodes_bound: "json_nodes (CheckPlan_to_dict sample_check_plan) \<le> 100" "json_nodes (CheckEvaluation_to_dict sample_verdicts) \<le> 100"
  by (simp_all add: CheckPlan_to_dict_def sample_check_plan_def ArtifactReference_to_dict_def gate_artifact_def gate_rule_def CheckRule_to_dict_def
      CheckEvaluation_to_dict_def sample_verdicts_def CheckResult_to_dict_def rule_outcome_def check_outcomes_all_def JText_def)

lemma sample_statement: "length (utf8 (cw_statement gated)) \<le> 28"
  using length_utf8 [of "U ''burning''"] by (simp add: gated_def sample_claim_def)

lemma policy_length: "length (CheckPolicy_to_bytes sample_runtime sample_check_policy) \<le> 5000"
proof -
  have "is_hash (CheckPlan_digest sample_runtime sample_check_plan)" using digest_hashes [OF sample_hex] by simp
  then have "json_weight sample_runtime (CheckPolicy_to_dict sample_check_policy) \<le> 5000"
    using authority_hash by (simp add: CheckPolicy_to_dict_def sample_check_policy_def is_hash_length)
  then show ?thesis
    using canonical_bytes_weight [of sample_runtime "CheckPolicy_to_dict sample_check_policy"] by (simp add: CheckPolicy_to_bytes_def)
qed

lemma sample_gate:
  "bundle_ok sample_runtime gate_bundle"
  "verify_claim_checks sample_runtime 100 gate_bundle sample_authority sample_check_policy sample_contents (JStr gate_head)
     (JStr gate_evidence) (Some default_check_limits) = Inr sample_checked"
proof -
  obtain state where b: "bundle_ok sample_runtime gate_bundle" "wb_id gate_bundle = U ''flow-1''"
    "wb_evidence gate_bundle = sample_evidence" and run: "replay_workflow sample_runtime gate_bundle sample_authority (Some gate_head) = Inr state"
    "ws_claims state = sample_claim APPROVED 8 [U ''e5''] [U ''doc'', U ''eval'', U ''plan''] [U ''ben'', U ''cyd'']"
    by (rule gate_bundle) blast
  show "bundle_ok sample_runtime gate_bundle" by (rule b(1))
  have rec: "1 \<le> (100 :: nat)" "4 \<le> (100 :: nat)" by simp_all
  note e = sample_evaluation [OF rec(1) gate_reads(1)]
  have claim: "map_of (ws_claims state) (kq_claim sample_check_policy) = Some gated" "cw_scope gated = kq_scope sample_check_policy"
    by (simp_all add: run(2) gated_def sample_claim_def sample_check_policy_def)
  have head: "ledger_head (wb_evidence gate_bundle) = JStr gate_evidence"
    by (rule sample_entry) (simp add: b(3) ledger_head_def gate_evidence_def)
  have sizes: "int (length (CheckedClaim_to_bytes sample_runtime sample_checked)) \<le> 10000"
    "int (length (CheckPlan_to_bytes sample_runtime sample_check_plan)) \<le> 5000"
    "int (length (CheckEvaluation_to_bytes sample_runtime sample_verdicts)) \<le> 5000"
    "int (length (CheckPolicy_to_bytes sample_runtime sample_check_policy)) \<le> 5000" "int (length (utf8 (cw_statement gated))) \<le> 28"
    using sample_checked_length plan_length result_length policy_length sample_statement by (simp_all add: plan_bytes_def result_bytes_def)
  have work: "int (length (CheckPolicy_to_bytes sample_runtime sample_check_policy))
      + gate_work sample_runtime 100 gated sample_checked sample_check_plan (retained_bytes sample_contents) \<le> 1000000"
    using sizes plan_nodes_bound sample_work(1) [OF rec(1) gate_reads(1)] by (simp add: gate_work_def e Let_def)
  have nodes: "gate_nodes sample_runtime 100 sample_check_plan (retained_bytes sample_contents) \<le> 1000"
    using plan_nodes_bound sample_work(2) [OF rec(1) gate_reads(1)] by (simp add: gate_nodes_def e)
  have limits: "limits_ok default_check_limits" "4 \<le> kl_depth default_check_limits" "10000 \<le> kl_output_bytes default_check_limits"
    "1000000 \<le> kl_work default_check_limits" "1000 \<le> kl_nodes default_check_limits"
    by (rule default_limits_ok) (simp_all add: default_check_limits_def)
  show "verify_claim_checks sample_runtime 100 gate_bundle sample_authority sample_check_policy sample_contents (JStr gate_head)
     (JStr gate_evidence) (Some default_check_limits) = Inr sample_checked"
    unfolding verify_claim_checks_Inr [OF sample_ledger_runtime sample_reads(1) b(1) limits(1,2) rec(2)]
  proof (intro conjI exI)
    show "replay_workflow sample_runtime gate_bundle sample_authority (Some gate_head) = Inr state" by (rule run(1))
    show "gate_holds sample_runtime 100 default_check_limits gate_bundle sample_authority sample_check_policy gated gate_evidence
        sample_contents sample_check_plan" by (rule sample_gate_holds [OF rec(1)])
  qed (use claim head sizes work nodes limits sample_snapshot evidence_hash b(2) in
      \<open>simp_all add: sample_checked_def e gate_evidence_def sample_check_policy_def\<close>)
qed

text \<open>The same plan, evaluated and read by itself.\<close>

lemma sample_check_run:
  "plan_admitted sample_runtime 100 default_check_limits sample_check_plan (retained_bytes [(U ''doc'', doc_bytes)])"
  "plan_work sample_runtime 100 sample_check_plan (retained_bytes [(U ''doc'', doc_bytes)]) \<le> kl_work default_check_limits"
  "plan_nodes 100 sample_check_plan (retained_bytes [(U ''doc'', doc_bytes)]) \<le> kl_nodes default_check_limits"
  "plan_evaluation sample_runtime 100 sample_check_plan (retained_bytes [(U ''doc'', doc_bytes)]) = sample_verdicts"
  "snapshot_ok default_check_limits 0 [(U ''doc'', doc_bytes)]"
proof -
  have rec: "1 \<le> (100 :: nat)" by simp
  show "plan_admitted sample_runtime 100 default_check_limits sample_check_plan (retained_bytes [(U ''doc'', doc_bytes)])"
    "plan_evaluation sample_runtime 100 sample_check_plan (retained_bytes [(U ''doc'', doc_bytes)]) = sample_verdicts"
    by (rule sample_admitted [OF rec gate_reads(2)], rule sample_evaluation [OF rec gate_reads(2)])
  show "plan_work sample_runtime 100 sample_check_plan (retained_bytes [(U ''doc'', doc_bytes)]) \<le> kl_work default_check_limits"
    "plan_nodes 100 sample_check_plan (retained_bytes [(U ''doc'', doc_bytes)]) \<le> kl_nodes default_check_limits"
    using sample_work [OF rec gate_reads(2)] by (simp_all add: default_check_limits_def)
  show "snapshot_ok default_check_limits 0 [(U ''doc'', doc_bytes)]"
    by (simp add: snapshot_ok_def default_check_limits_def gate_ids doc_bytes)
qed

end
