(* ===== verification/Spec2Isabelle.thy ===== *)
theory Spec2Isabelle
  imports Sample_Evaluation Sample_Case Sample_Tree Sample_Policy Sample_Pages Robustness Provenance Baselines Sample_Checks
begin

text \<open>
  A verification library for evidence-braid (the Python package \<open>src/src/evidence_braid\<close>): a deterministic engine that
  turns policy-weighted reports about claims into decisions, and the tamper-evident records around it.

  The program and the theories that model it.

  \<^item> Values and documents: \<open>Prelude\<close> (errors.py, the result type and its combinators), \<open>PyFloat\<close> (Python
    floats: a finite double is a rational, \<open>fl\<close> rounds an exact rational to the nearest double, ties to even,
    \<open>stable_float\<close> is \<open>_stable_float\<close>), \<open>Json\<close> (JSON values and \<open>canonical_json\<close> of io.py, character by
    character), \<open>Values\<close> (the validators of models.py), \<open>Models\<close> and \<open>Policies\<close> (the records of models.py),
    \<open>Migrations\<close> (migrations.py).
  \<^item> The engine: \<open>Fusion\<close> (decay.py, grouping.py), \<open>Reliability\<close> (reliability.py), \<open>Engine\<close> (engine.py), with its
    correctness in \<open>Engine_Lemmas\<close>, and \<open>Evaluation\<close> (the contract of \<open>evaluate\<close> and replay.py). On top of it stand
    the diagnostics \<open>Robustness\<close> (robustness.py) and \<open>Baselines\<close> (baselines.py), next to it \<open>Provenance\<close> (provenance.py).
  \<^item> Reading bytes: \<open>Json_Parser\<close> is the grammar that \<open>json.loads\<close> accepts, with the hooks of io.py, over code points;
    \<open>Frozen_Json\<close> says which values pass the parser again once written; \<open>Readers\<close> are the bounded readers of io.py
    (documents and JSONL streams) over the content of a file, with the limits of limits.py.
  \<^item> Logs: \<open>Hash_Chain\<close> is the interface of every log that chains digests; \<open>Ledger\<close> (ledger.py), \<open>Workflow_Chain\<close>
    (workflow.py) and \<open>Case_Lemmas\<close> (epistemic_case.py) interpret it.
  \<^item> Proofs about ledgers: \<open>Merkle\<close> is the hash tree with the hash of an inner node as a parameter; \<open>Membership\<close>
    (membership.py) interprets it, \<open>Membership_Lemmas\<close>, \<open>Preflight\<close> and \<open>Membership_Roundtrip\<close> prove it correct,
    \<open>Consistency\<close> is consistency.py. \<open>Query\<close> is the index and the selection of query.py, \<open>Base64\<close> the URL-safe alphabet
    and \<open>Paging\<close> its pages and cursors, which go through the JSON parser.
  \<^item> Decisions of people: \<open>Authority\<close> (authority.py), \<open>Workflow\<close> and \<open>Workflow_Lemmas\<close> (workflow.py), \<open>Case_Core\<close>,
    \<open>Case_Lemmas\<close> and \<open>Case_Roundtrip\<close> (epistemic_case.py).
  \<^item> Checks of retained bytes: \<open>Checks\<close> is checks.py (rules, plans, results, the budget that is threaded through the document
    reader, the rules and the evaluation), \<open>Check_Gate\<close> is check_workflow.py. \<open>Check_Lemmas\<close> has the calculus of budgets and
    the exact cost and result of an evaluation, \<open>Check_Roundtrip\<close> reads canonical documents and plans back,
    \<open>Check_Gate_Lemmas\<close> says when the gate returns and on what.
  \<^item> \<open>Json_Size\<close> bounds the canonical bytes of documents; \<open>Samples\<close> and the theories \<open>Sample_*\<close> hold the concrete
    inputs of the witnesses.

  How the model reads. A function keeps its name; a method is prefixed with its class, and \<open>X_init\<close> is the check that
  \<open>__post_init__\<close> of class X makes, which returns the record or the exception. A raise is \<open>Inl\<close> of its exception class with
  its message, without the data that is interpolated into it; an except clause is a case on it. A raw JSON argument is a
  \<open>json\<close>, an argument that was validated has the type of its record. Dictionaries are association lists in insertion order,
  text is the list of its code points. Loops are recursions over the data they read and need no fuel; the
  JSON parser recurses on the text that is left, and its recursion limit is an argument, since \<open>json.loads\<close> raises
  \<open>RecursionError\<close> at the depth that the interpreter is set to. What the code calls
  but does not define is a field of \<open>runtime\<close>: SHA-256, the spelling of a float, the parser of ISO timestamps and the power
  of two. Their documented behaviour is named: \<open>repr_contract\<close> and \<open>sha256_hex\<close> (together \<open>ledger_runtime\<close>),
  \<open>iso_contract\<close>, \<open>exp2_contract\<close> and \<open>repr_reads\<close> (a spelled float parses back to itself); \<open>Samples\<close> defines a runtime that satisfies all of them. Where a property needs that
  digests are not forged, it names the finite set of inputs among which no two may collide (\<open>collision_free\<close>).

  What the properties show. Evaluation is total on validated streams, independent of the order of its input, blind to what
  was ingested later, and escalates only on a quorum of independent reports at their computed weights; replay is its
  refinement over the boundaries of a stream. Documents read back as the records they were written from; a workflow does so
  exactly when its ledger stores events in the form the builder and the reader give them (\<open>ledger_written\<close>). A log's head
  determines its content. Proofs of
  membership and consistency are complete for what the code builds and sound against any document. Workflows approve only
  with a quorum of independent reviewers, cases only what the evidence supports, and both accept exactly the runs of their
  state machines. A check plan is evaluated to the verdicts of its rules on the retained bytes, within an explicit budget or
  not at all, and the gate accepts only approved claims whose pinned plan passes on committed bytes.

  Bounds. The limits of the code are constants of the model under their own names. Membership proofs are proved to exist
  for receipts of at most 400 KiB: with larger ones the node count of the preflight, which counts object keys too, can refuse
  what a ledger accepted. \<open>fl\<close> does not overflow; values in the engine stay in the unit interval or below the totals
  of their input, far from the largest double.

  Not modelled. The readers \<open>from_bytes\<close> of proofs and cases (a second scanner of JSON text with its own bounds) and
  \<open>prove_page\<close>; metrics.py, whose sums of floats differ between the supported versions of Python; file publication, SQLite
  transactions, HTTP, ZIP archives, callbacks and command lines, which are system calls around the functions above; the
  identity and cycles of Python objects, and subclassing.
\<close>

section \<open>Properties\<close>

subsection \<open>Evaluation\<close>

text \<open>
  C1. On a validated stream, \<open>evaluate\<close> always returns a result: none of the consistency
  checks of the output records can fail, the decisions are exactly the configured claims in order, and
  considered and pending events partition the input.
\<close>

theorem evaluate_total:
  assumes "stream_ok p es as" "exp2_contract rt" "normalize_datetime as_of ''as_of'' = Inr t"
  shows "\<exists>r. evaluate rt p es as_of as = Inr r \<and> er_evaluated_at r = t
    \<and> map cd_claim (er_decisions r) = sort (map fst (claims p))
    \<and> er_considered_count r = int (length (known_events t es))
    \<and> er_pending r = pending_ids t es \<and> er_input_count r = int (length es)"
  using evaluate_Inr [OF assms] by auto

lemma evaluate_total_witness:
  "\<exists>r. evaluate sample_runtime sample_policy sample_events (utc 6000000) sample_adjudications = Inr r
    \<and> er_evaluated_at r = 6000000
    \<and> map cd_claim (er_decisions r) = sort (map fst (claims sample_policy))
    \<and> er_considered_count r = int (length (known_events 6000000 sample_events))
    \<and> er_pending r = pending_ids 6000000 sample_events \<and> er_input_count r = int (length sample_events)"
  by (rule evaluate_total [OF sample_stream_ok(2) sample_exp2 sample_instant])

text \<open>
  C2. No escalation without evidence: when a decision escalates, its score is the combined confidence of reports for its
  claim, all ingested by the evaluation time, all supporting, one per correlation group, each with the weight that
  \<open>weight_event\<close> gives it at that time under the reliability its source has after the adjudications known then.
  That score reaches the support threshold and leads the contradicting score by the margin, and the reports among them
  whose effective confidence reaches the minimum of the rule are as many as the quorum asks for, with enough distinct
  sources and modalities and every required modality.
\<close>

theorem escalation_supported:
  assumes "stream_ok p es as" "exp2_contract rt" "evaluate rt p es as_of as = Inr r"
    and "normalize_datetime as_of ''as_of'' = Inr t" "d \<in> set (er_decisions r)" "cd_outcome d = ESCALATE"
  shows "\<exists>rule adjs ups ws. map_of (claims p) (cd_claim d) = Some rule
    \<and> adjust_reliabilities p (known_adjudications t as) = Inr adjs
    \<and> (\<forall>w \<in> set ups. we_event w \<in> set (known_events t es) \<and> ev_claim (we_event w) = cd_claim d
         \<and> ev_signal (we_event w) = SUPPORT
         \<and> weight_event rt (we_event w) p t (map_of (applied_of adjs) (ev_source (we_event w))) = Inr w)
    \<and> distinct (map correlation_key ups)
    \<and> ws = filter (\<lambda>w. stable_float (min_evidence_confidence rule) \<le> stable_float (we_effective w)) ups
    \<and> quorum rule \<le> int (length ws) \<and> min_sources rule \<le> int (card ((\<lambda>w. ev_source (we_event w)) ` set ws))
    \<and> min_modalities rule \<le> int (card ((\<lambda>w. ev_modality (we_event w)) ` set ws))
    \<and> set (required_modalities rule) \<subseteq> (\<lambda>w. U (modality_value (ev_modality (we_event w)))) ` set ws
    \<and> ss_score (cd_support d) = stable_float (combined_confidence (map we_effective ups))
    \<and> stable_float (support_threshold rule) \<le> stable_float (ss_score (cd_support d))
    \<and> stable_float (min_margin rule)
        \<le> stable_float (fl (stable_float (ss_score (cd_support d)) - stable_float (ss_score (cd_contradict d))))"
  by (rule escalation_evidence [OF assms])

lemma escalation_supported_witness:
  "\<exists>d ups. d \<in> set (er_decisions sample_result) \<and> cd_outcome d = ESCALATE \<and> distinct (map correlation_key ups)
    \<and> 2 \<le> int (length (filter (\<lambda>w. stable_float (min_evidence_confidence sample_rule) \<le> stable_float (we_effective w)) ups))
    \<and> (\<forall>w \<in> set ups. we_event w \<in> set (known_events 6000000 sample_events)
         \<and> weight_event sample_runtime (we_event w) sample_policy 6000000 None = Inr w)
    \<and> ss_score (cd_support d) = stable_float (combined_confidence (map we_effective ups))"
proof -
  obtain d where d: "d \<in> set (er_decisions sample_result)" "cd_outcome d = ESCALATE" "cd_claim d = U ''fire''"
    using sample_escalates(2) by auto
  have r: "map_of (claims sample_policy) (U ''fire'') = Some sample_rule" "quorum sample_rule = 2"
    by (simp_all add: sample_policy_def sample_rule_def)
  have a: "applied_of adjs = []" if "adjust_reliabilities sample_policy (known_adjudications 6000000 []) = Inr adjs" for adjs
    using that by (simp add: adjust_reliabilities_eq known_adjudications_def sample_policy_def applied_of_def sorted_set_def)
  obtain ups where ups: "\<forall>w \<in> set ups. we_event w \<in> set (known_events 6000000 sample_events)
        \<and> weight_event sample_runtime (we_event w) sample_policy 6000000 None = Inr w"
      "distinct (map correlation_key ups)" "ss_score (cd_support d) = stable_float (combined_confidence (map we_effective ups))"
      "2 \<le> int (length (filter (\<lambda>w. stable_float (min_evidence_confidence sample_rule) \<le> stable_float (we_effective w)) ups))"
    using escalation_supported [OF sample_stream_unjudged sample_exp2 sample_escalates(1) sample_instant d(1,2)] d(3) r a
    by fastforce
  show ?thesis by (intro exI [of _ d] exI [of _ ups] conjI) (fact d(1,2) ups)+
qed

text \<open>
  C3. The order of the reports and of the adjudications never matters: permuting either list gives the same result.
\<close>

theorem evaluate_order_independent:
  assumes "stream_ok p es as" "exp2_contract rt" "mset es = mset fs" "mset as = mset bs"
  shows "evaluate rt p es as_of as = evaluate rt p fs as_of bs"
  by (rule evaluate_perm [OF assms])

lemma evaluate_order_independent_witness:
  "evaluate sample_runtime sample_policy sample_events (utc 6000000) sample_adjudications
    = evaluate sample_runtime sample_policy (rev sample_events) (utc 6000000) (rev sample_adjudications)"
  by (rule evaluate_order_independent [OF sample_stream_ok(2) sample_exp2]) simp_all

text \<open>
  C4. Nothing that is ingested or judged after the evaluation time has any influence: removing it from the input changes
  only the number of inputs and the list of pending reports.
\<close>

theorem evaluate_no_lookahead:
  assumes "stream_ok p es as" "exp2_contract rt" "evaluate rt p es as_of as = Inr r"
    and "normalize_datetime as_of ''as_of'' = Inr t"
  shows "evaluate rt p (known_events t es) as_of (known_adjudications t as)
    = Inr (r\<lparr>er_input_count := er_considered_count r, er_pending := []\<rparr>)"
  by (rule evaluate_known [OF assms])

lemma evaluate_no_lookahead_witness:
  "evaluate sample_runtime sample_policy (known_events 6000000 sample_events) (utc 6000000) []
    = Inr (sample_result\<lparr>er_input_count := er_considered_count sample_result, er_pending := []\<rparr>)"
  using evaluate_no_lookahead [OF sample_stream_unjudged sample_exp2 sample_escalates(1) sample_instant]
  by (simp add: known_adjudications_def)

text \<open>
  C5. Replay refines evaluation: it returns one result per ingestion or adjudication instant, in order, each the
  evaluation of the whole stream at that instant without its pending reports.
\<close>

theorem replay_pointwise:
  assumes "stream_ok p es as" "exp2_contract rt"
  shows "\<exists>rs. replay rt p es as = Inr rs \<and> map er_evaluated_at rs = boundaries es as
    \<and> (\<forall>r \<in> set rs. \<exists>full. evaluate rt p es (utc (er_evaluated_at r)) as = Inr full
         \<and> r = full\<lparr>er_input_count := er_considered_count full, er_pending := []\<rparr>)"
  by (rule replay_snapshots [OF assms])

lemma replay_pointwise_witness:
  "\<exists>rs. replay sample_runtime sample_policy sample_events sample_adjudications = Inr rs
    \<and> map er_evaluated_at rs = boundaries sample_events sample_adjudications
    \<and> (\<forall>r \<in> set rs. \<exists>full. evaluate sample_runtime sample_policy sample_events (utc (er_evaluated_at r)) sample_adjudications = Inr full
         \<and> r = full\<lparr>er_input_count := er_considered_count full, er_pending := []\<rparr>)"
  by (rule replay_pointwise [OF sample_stream_ok(2) sample_exp2])

text \<open>
  C6. History is append-only: when later reports and adjudications arrive, the replay of the longer stream starts with
  the replay of the shorter one.
\<close>

theorem replay_history_stable:
  assumes "stream_ok p es as" "stream_ok p (es @ fs) (as @ bs)" "exp2_contract rt"
    and "\<And>x y. x \<in> set (boundaries es as) \<Longrightarrow> y \<in> set (boundaries fs bs) \<Longrightarrow> x < y"
  shows "\<exists>rs ss. replay rt p es as = Inr rs \<and> replay rt p (es @ fs) (as @ bs) = Inr (rs @ ss)"
  by (rule replay_extends [OF assms])

lemma replay_history_stable_witness:
  "\<exists>rs ss. replay sample_runtime sample_policy sample_events sample_adjudications = Inr rs
    \<and> replay sample_runtime sample_policy (sample_events @ sample_late_events) (sample_adjudications @ []) = Inr (rs @ ss)"
  by (rule replay_history_stable [OF sample_stream_ok(2) _ sample_exp2])
    (use sample_stream_ok(1) in \<open>auto simp: boundaries_def sorted_set_def sample_events_def sample_late_events_def
      sample_event_def sample_adjudications_def\<close>)

subsection \<open>Weights, groups and reliabilities\<close>

text \<open>
  C7. Correlated reports count once: the collapse returns one selection per correlation group and signal that occurs,
  ordered by group and signal, whose representative has the greatest effective confidence of its group (the identifier
  breaks ties) and whose suppressed list holds all the others.
\<close>

theorem correlated_once:
  assumes "\<And>w. w \<in> set ws \<Longrightarrow> weighted_ok w" "distinct (map we_id ws)"
  shows "\<exists>sels. collapse_correlated ws = Inr sels
      \<and> (\<forall>s \<in> set sels. selection_spec ws s)
      \<and> distinct (map (\<lambda>s. (sel_group s, sel_signal s)) sels)
      \<and> (\<lambda>s. (sel_group s, sel_signal s)) ` set sels = bucket_key ` set ws
      \<and> sorted (map selection_key sels)"
  by (rule collapse_correlated_spec [OF assms])

lemma correlated_once_witness:
  "\<exists>sels. collapse_correlated sample_weights = Inr sels \<and> (\<forall>s \<in> set sels. selection_spec sample_weights s)
    \<and> (\<lambda>s. (sel_group s, sel_signal s)) ` set sels = {(U ''event:e1'', SUPPORT), (U ''group:hall'', SUPPORT)}"
  using correlated_once [OF sample_weights_ok sample_weights_distinct] buckets_keys [of bucket_key sample_weights]
  by (auto simp: sample_keys)

text \<open>
  C8. The weight of a report: on validated input within the allowed skew it always exists, its reliability is the one
  applied to its source, and its effective confidence is at most the raw confidence, the reliability and the decay.
\<close>

theorem weight_bounds:
  assumes "policy_ok p" "event_ok e" "exp2_contract rt" "\<And>q. r = Some q \<Longrightarrow> unit_double q"
    and "- max_future_skew (decay p) \<le> total_seconds (as_of - ev_observed_at e)"
  shows "\<exists>w. weight_event rt e p as_of r = Inr w \<and> weighted_ok w \<and> we_event w = e
      \<and> we_reliability w = (case r of None \<Rightarrow> reliability_for p (ev_source e) | Some q \<Rightarrow> q)
      \<and> we_effective w \<le> ev_confidence e \<and> we_effective w \<le> we_reliability w \<and> we_effective w \<le> we_decay w"
  by (rule weight_event_ok [OF assms, unfolded applied_reliability_of_def])

lemma weight_bounds_witness:
  "\<exists>w. weight_event sample_runtime sample_report sample_policy 5000000 None = Inr w
    \<and> we_effective w \<le> ev_confidence sample_report \<and> we_effective w \<le> we_reliability w \<and> we_effective w \<le> we_decay w"
proof -
  have "event_ok sample_report" using sample_storable by (simp add: storable_def)
  moreover have "- max_future_skew (decay sample_policy) \<le> total_seconds (5000000 - ev_observed_at sample_report)"
    by code_simp
  ultimately show ?thesis using weight_bounds [OF sample_policy_ok(1) _ sample_exp2, of sample_report None 5000000] by auto
qed

text \<open>
  C9. Adjudications move reliabilities within bounds: the adjustment of a validated set always succeeds, there is one per
  adjudicated source in order, and the declared, posterior and applied reliabilities are all in the unit interval.
\<close>

theorem reliability_bounds:
  assumes "policy_ok p" "\<And>a. a \<in> set adjs \<Longrightarrow> adjudication_ok a" "distinct (map adj_event_id adjs)"
  shows "\<exists>as. adjust_reliabilities p adjs = Inr as
      \<and> map ra_source as = (if reliability_updates p = None then [] else sorted_set (map adj_source adjs))
      \<and> (\<forall>a \<in> set as. 0 \<le> ra_posterior a \<and> ra_posterior a \<le> 1 \<and> 0 \<le> ra_applied a \<and> ra_applied a \<le> 1
          \<and> ra_declared a = stable_float (reliability_for p (ra_source a))
          \<and> int (length (ra_correct a)) + int (length (ra_incorrect a))
              = int (length (filter (\<lambda>j. adj_source j = ra_source a) adjs)))"
proof -
  obtain as where as: "adjust_reliabilities p adjs = Inr as"
    "\<forall>a \<in> set as. \<exists>rule. reliability_updates p = Some rule \<and> adjustment_ok p rule adjs a"
    "map ra_source as = (if reliability_updates p = None then [] else sorted_set (map adj_source adjs))"
    using adjust_reliabilities_total [OF assms] by blast
  then show ?thesis using adjustment_bounds by blast
qed

lemma reliability_bounds_witness:
  "\<exists>as. adjust_reliabilities sample_policy sample_adjudications = Inr as \<and> map ra_source as = [U ''mic'']
    \<and> (\<forall>a \<in> set as. 0 \<le> ra_applied a \<and> ra_applied a \<le> 1)"
proof -
  have "reliability_updates sample_policy \<noteq> None" "sorted_set (map adj_source sample_adjudications) = [U ''mic'']"
    by (simp_all add: sample_policy_def sample_adjudications_def sorted_set_def)
  moreover have "\<forall>a \<in> set sample_adjudications. adjudication_ok a" "distinct (map adj_event_id sample_adjudications)"
    using sample_stream_ok(2) by (simp_all add: stream_ok_def sample_adjudications_def)
  ultimately show ?thesis
    using reliability_bounds [OF sample_policy_ok(1), of sample_adjudications] by auto
qed

subsection \<open>Robustness, provenance and baselines\<close>

text \<open>
  C10. Leave-one-out robustness is exact: on a validated stream whose visible reports are within the work limit, the report lists
  for every configured claim precisely the visible reports (in the order of their identifiers) whose removal, together with
  their adjudications, changes the outcome that \<open>evaluate\<close> gives the claim; no check of the report's records can fail.
\<close>

theorem robustness_exact:
  assumes "stream_ok p es as" "exp2_contract rt" "sha256_hex rt" "normalize_datetime as_of ''as_of'' = Inr t"
    and "1 \<le> limit" "limit \<le> max_perturbations" "int (length (known_events t es)) \<le> limit"
    and "int (length (claims p)) \<le> max_perturbations"
  shows "\<exists>r. robustness rt p es as_of as (JInt limit) = Inr r \<and> rr_evaluated_at r = t
    \<and> map rc_claim (rr_claims r) = sort (map fst (claims p))
    \<and> (\<forall>c \<in> set (rr_claims r). outcome_at rt p es as t (rc_claim c) = Some (rc_outcome c)
        \<and> rc_tested c = int (length (known_events t es)) \<and> rc_changed c = int (length (rc_impacts c))
        \<and> map ri_event (rc_impacts c)
          = filter (\<lambda>i. outcome_without rt p es as t (rc_claim c) i \<noteq> outcome_at rt p es as t (rc_claim c))
              (sort (map ev_id (known_events t es))))"
  using robustness_Inr [OF assms] unfolding robustness_of_def by blast

lemma robustness_exact_witness:
  "\<exists>r c. robustness sample_runtime sample_policy sample_events (utc 6000000) sample_adjudications (JInt 256) = Inr r
    \<and> c \<in> set (rr_claims r) \<and> rc_claim c = U ''fire'' \<and> rc_tested c = int (length (known_events 6000000 sample_events))"
proof -
  have n: "int (length (known_events 6000000 sample_events)) \<le> 256"
    using length_filter_le [of "\<lambda>e. ev_ingested_at e \<le> 6000000" sample_events] by (simp add: known_events_def sample_events_def)
  have c: "sort (map fst (claims sample_policy)) = [U ''fire'']" by (simp add: sample_policy_def)
  have cl: "int (length (claims sample_policy)) \<le> max_perturbations"
    by (simp add: sample_policy_def max_perturbations_def)
  have lim: "(1 :: int) \<le> 256" "256 \<le> max_perturbations" by (simp_all add: max_perturbations_def)
  obtain r where r: "robustness sample_runtime sample_policy sample_events (utc 6000000) sample_adjudications (JInt 256) = Inr r"
    and m: "map rc_claim (rr_claims r) = [U ''fire'']"
    and k: "\<forall>c \<in> set (rr_claims r). rc_tested c = int (length (known_events 6000000 sample_events))"
    using robustness_exact [OF sample_stream_ok(2) sample_exp2 sample_hex sample_instant lim n cl, unfolded c]
    by (elim exE conjE) (rule that, assumption+, blast)
  from m obtain x where "x \<in> set (rr_claims r)" "rc_claim x = U ''fire''"
    by (cases "rr_claims r") (simp_all add: that)
  then show ?thesis using r k by blast
qed

text \<open>
  C11. The provenance graph of reports with distinct identifiers is complete and closed: it holds one node per claim, source, report
  and correlation group, with distinct identifiers and in the order of kind and identifier; every edge joins two of its
  nodes; and tracing a claim gives the claim and the reports about it, nothing else.
\<close>

theorem provenance_graph:
  assumes "distinct (map ev_id es)"
  shows "\<exists>g. build_provenance es = Inr g \<and> distinct (map pn_id (pg_nodes g))
    \<and> set (pg_nodes g) = (\<Union>e \<in> set es. set (event_nodes e))
    \<and> sorted (map (\<lambda>n. (U (node_kind_value (pn_kind n)), pn_id n)) (pg_nodes g))
    \<and> map edge_of (pg_edges g) = sorted_list_of_set (\<Union>e \<in> set es. set (event_edges e))
    \<and> (\<forall>x \<in> set (pg_edges g). pe_source x \<in> pn_id ` set (pg_nodes g) \<and> pe_target x \<in> pn_id ` set (pg_nodes g))
    \<and> (\<forall>c. set (trace_claim g c) = (\<Union>e \<in> {e \<in> set es. ev_claim e = c}. {claim_node e, event_node e}))"
proof -
  obtain g where g: "build_provenance es = Inr g" "set (pg_nodes g) = (\<Union>e \<in> set es. set (event_nodes e))" "nodes_ok (pg_nodes g)"
    "sorted (map (\<lambda>n. (U (node_kind_value (pn_kind n)), pn_id n)) (pg_nodes g))"
    "map edge_of (pg_edges g) = sorted_list_of_set (\<Union>e \<in> set es. set (event_edges e))"
    using build_provenance_Inr [OF assms] by blast
  then show ?thesis
    using trace_claim_eq [OF assms g(1)] edges_closed [OF assms g(1)] by (intro exI [of _ g]) (simp add: nodes_ok_def)
qed

lemma provenance_graph_witness:
  "\<exists>g. build_provenance sample_events = Inr g
    \<and> set (trace_claim g (U ''fire'')) = (\<Union>e \<in> {e \<in> set sample_events. ev_claim e = U ''fire''}. {claim_node e, event_node e})"
proof -
  have "distinct (map ev_id sample_events)" using sample_stream_ok(2) unfolding stream_ok_def validate_event_set_Inr by blast
  from provenance_graph [OF this] show ?thesis by (elim exE conjE) (intro exI conjI, assumption, erule spec)
qed

text \<open>
  C12. Both comparison votes return a decision for every configured claim on a validated stream, none of the checks of
  \<open>BaselineDecision\<close> can fail, and the masses are exact: the majority vote counts the visible reports of each
  signal, the weighted vote rounds the exact sum of confidence times reliability, which never exceeds that count.
\<close>

theorem baselines_total:
  assumes "stream_ok p es as" "normalize_datetime as_of ''as_of'' = Inr t" "length es < 2 ^ 53"
  shows "\<exists>ms ws. majority_vote p es as_of = Inr ms \<and> reliability_weighted_vote p es as_of = Inr ws
    \<and> map bd_claim ms = sort (map fst (claims p)) \<and> map bd_claim ws = sort (map fst (claims p))
    \<and> (\<forall>b \<in> set ms. bd_support b = of_int (signal_count SUPPORT (bd_claim b) (known_events t es))
        \<and> bd_contradict b = of_int (signal_count CONTRADICT (bd_claim b) (known_events t es))
        \<and> bd_outcome b = baseline_outcome (bd_support b) (bd_contradict b))
    \<and> (\<forall>b \<in> set ws. bd_support b = claim_mass p SUPPORT (bd_claim b) (known_events t es)
        \<and> bd_contradict b = claim_mass p CONTRADICT (bd_claim b) (known_events t es)
        \<and> bd_outcome b = baseline_outcome (bd_support b) (bd_contradict b)
        \<and> 0 \<le> bd_support b \<and> bd_support b \<le> of_int (signal_count SUPPORT (bd_claim b) (known_events t es))
        \<and> 0 \<le> bd_contradict b \<and> bd_contradict b \<le> of_int (signal_count CONTRADICT (bd_claim b) (known_events t es)))"
  by (rule votes_Inr [OF assms])

lemma baselines_total_witness:
  "\<exists>ms ws. majority_vote sample_policy sample_events (utc 6000000) = Inr ms
    \<and> reliability_weighted_vote sample_policy sample_events (utc 6000000) = Inr ws
    \<and> map bd_claim ms = [U ''fire''] \<and> map bd_claim ws = [U ''fire'']"
proof -
  have c: "sort (map fst (claims sample_policy)) = [U ''fire'']" and n: "length sample_events < 2 ^ 53"
    by (simp_all add: sample_policy_def sample_events_def)
  show ?thesis using baselines_total [OF sample_stream_ok(2) sample_instant n, unfolded c]
    by (elim exE conjE) (intro exI conjI, assumption+)
qed

subsection \<open>Values and documents\<close>

text \<open>
  C13. Every accepted report is written to a document that reads back as the same report, and two accepted reports with
  the same document up to the order of object members agree in every field, attributes up to that order.
\<close>

theorem event_roundtrip:
  assumes "event_ok e" "event_ok f" "iso_contract rt"
  shows "EvidenceEvent_from_dict rt (EvidenceEvent_to_dict e) path = Inr e
    \<and> (canon (EvidenceEvent_to_dict e) = canon (EvidenceEvent_to_dict f) \<longrightarrow> same_event e f)"
  using EvidenceEvent_roundtrip [OF assms(1,3)] EvidenceEvent_to_dict_inj [OF assms] by blast

lemma event_roundtrip_witness:
  "EvidenceEvent_from_dict sample_runtime (EvidenceEvent_to_dict sample_report) ''event'' = Inr sample_report"
proof -
  have "event_ok sample_report" using sample_storable by (simp add: storable_def)
  then show ?thesis using event_roundtrip [OF _ _ sample_iso] by blast
qed

text \<open>
  C14. The reader of reports produces accepted reports only: identifier, claim, source and, where there is one, correlation
  group are nonempty text of XML characters without blanks at its ends, confidences are doubles of the unit interval,
  instants are such that UTC timestamps can spell them, and the attributes are an object within the bounds of the freezer: at
  most \<open>max_attribute_nodes\<close> values, nested no deeper than \<open>max_attribute_depth\<close>, with keys and texts of XML
  characters, integers of bounded size and finite floats only (\<open>freezes\<close> and \<open>json_nodes\<close> state these bounds by
  recursion on the value, apart from the freezer).
\<close>

theorem event_reader_type:
  assumes "EvidenceEvent_from_dict rt v path = Inr e"
  shows "text_ok (ev_id e) \<and> text_ok (ev_claim e) \<and> text_ok (ev_source e)
    \<and> 0 \<le> ev_confidence e \<and> ev_confidence e \<le> 1 \<and> is_double (ev_confidence e)
    \<and> valid_instant (ev_observed_at e) \<and> valid_instant (ev_ingested_at e)
    \<and> (case ev_group e of None \<Rightarrow> True | Some g \<Rightarrow> text_ok g)
    \<and> (\<exists>kvs. ev_attributes e = JObj kvs) \<and> freezes 0 (ev_attributes e)
    \<and> json_nodes (ev_attributes e) \<le> max_attribute_nodes \<and> json_finite (ev_attributes e)"
  using EvidenceEvent_from_dict_ok [OF assms] frozen_finite frozen_spec unfolding event_ok_def by blast

lemma event_reader_type_witness:
  "0 \<le> ev_confidence sample_report \<and> ev_confidence sample_report \<le> 1 \<and> freezes 0 (ev_attributes sample_report)
    \<and> json_nodes (ev_attributes sample_report) \<le> max_attribute_nodes \<and> json_finite (ev_attributes sample_report)"
proof -
  have "event_ok sample_report" using sample_storable by (simp add: storable_def)
  then have "EvidenceEvent_from_dict sample_runtime (EvidenceEvent_to_dict sample_report) ''event'' = Inr sample_report"
    by (rule EvidenceEvent_roundtrip [OF _ sample_iso])
  then show ?thesis using event_reader_type by blast
qed

text \<open>
  C15. A stream of accepted reports that is written as one canonical document per line is read back by the bounded JSONL reader
  as the same reports, when the file and its lines are within the limits the caller gave: nothing is lost in the bytes, the
  UTF-8, the lines, the JSON grammar, the numbers and the validation.
\<close>

theorem stream_roundtrip:
  assumes "repr_contract rt" "repr_reads rt" "iso_contract rt" "66 \<le> recursion"
    and "\<forall>e \<in> set es. event_ok e \<and> representable (ev_attributes e)
      \<and> int (length (canonical_bytes rt (EvidenceEvent_to_dict e))) \<le> line_limit"
    and "int (length (jsonl rt (map EvidenceEvent_to_dict es))) \<le> file_limit"
    and "1 \<le> file_limit" "file_limit \<le> max_event_file_bytes" "1 \<le> line_limit" "line_limit \<le> max_line_bytes"
  shows "load_events rt recursion (Some (jsonl rt (map EvidenceEvent_to_dict es))) (JInt file_limit) (JInt line_limit)
      = Inr (map sorted_event es)
    \<and> list_all2 same_event (map sorted_event es) es"
  using load_events_written [OF assms] by (auto simp: list_all2_map1 sorted_event_same intro: list.rel_refl)

lemma stream_roundtrip_witness:
  "load_events tree_runtime 1000 (Some (jsonl tree_runtime (map EvidenceEvent_to_dict sample_events))) (JInt 100000) (JInt 5000)
    = Inr (map sorted_event sample_events)"
proof -
  have rep: "repr_contract tree_runtime" using tree_ledger_runtime by (simp add: ledger_runtime_def)
  show ?thesis
    using stream_roundtrip [OF rep sample_reads(2) tree_iso _ sample_lines, of 1000]
    by (simp add: max_event_file_bytes_def max_line_bytes_def)
qed

text \<open>
  C16. The reader of reports never returns part of a stream: when it succeeds, the file was readable and within the limit, no
  line exceeded its limit, and the result has exactly one accepted report for every line that holds more than white space,
  in order. Any other line makes it fail.
\<close>

theorem stream_complete:
  assumes "load_events rt recursion content (JInt file_limit) (JInt line_limit) = Inr es"
  shows "\<exists>raw. content = Some raw \<and> int (length raw) \<le> file_limit \<and> file_limit \<le> max_event_file_bytes
    \<and> (\<forall>l \<in> set (splitlines raw). int (length l) \<le> line_limit)
    \<and> list_all2 (\<lambda>l e. line_value recursion (\<lambda>v. EvidenceEvent_from_dict rt v ''events'') l = Inr e)
        (filter meaningful (splitlines raw)) es
    \<and> list_all event_ok es"
proof -
  obtain raw where raw: "content = Some raw" "int (length raw) \<le> file_limit" "file_limit \<le> max_event_file_bytes"
    "\<forall>l \<in> set (splitlines raw). int (length l) \<le> line_limit"
    "list_all2 (\<lambda>l e. line_value recursion (\<lambda>v. EvidenceEvent_from_dict rt v ''events'') l = Inr e)
      (filter meaningful (splitlines raw)) es"
    using assms load_records_Inr by (fastforce simp: load_events_def limit_value_def split: if_splits)
  then have "list_all event_ok es"
    by (auto simp: list_all_length list_all2_conv_all_nth line_value_def dest: EvidenceEvent_from_dict_ok)
  with raw show ?thesis by blast
qed

lemma stream_complete_witness:
  "list_all event_ok (map sorted_event sample_events)"
proof -
  have rep: "repr_contract tree_runtime" using tree_ledger_runtime by (simp add: ledger_runtime_def)
  have "load_events tree_runtime 1000 (Some (jsonl tree_runtime (map EvidenceEvent_to_dict sample_events))) (JInt 100000) (JInt 5000)
      = Inr (map sorted_event sample_events)"
    by (rule load_events_written [OF rep sample_reads(2) tree_iso _ sample_lines])
      (simp_all add: max_event_file_bytes_def max_line_bytes_def)
  from stream_complete [OF this] show ?thesis by blast
qed

subsection \<open>Ledgers\<close>

text \<open>
  C17. Building a ledger from at most 100000 storable reports with distinct identifiers succeeds; the ledger holds exactly
  these reports in ingestion order, verifies, and its document reads back as the same ledger.
\<close>

theorem ledger_roundtrip:
  assumes "ledger_runtime rt" "iso_contract rt"
    and "\<forall>e \<in> set es. storable e" "distinct (map ev_id es)" "int (length es) \<le> max_ledger_entries"
  shows "\<exists>l. build_ledger rt es = Inr l \<and> ledger_verify rt l None
    \<and> map le_event (lg_entries l) = map EvidenceEvent_to_dict (ledger_order es)
    \<and> EvidenceLedger_from_dict rt (EvidenceLedger_to_dict rt l) None = Inr l"
  using build_ledger_Inr [OF assms] by blast

lemma ledger_roundtrip_witness:
  "\<exists>l. build_ledger sample_runtime sample_events = Inr l \<and> ledger_verify sample_runtime l None
    \<and> map le_event (lg_entries l) = map EvidenceEvent_to_dict (ledger_order sample_events)
    \<and> EvidenceLedger_from_dict sample_runtime (EvidenceLedger_to_dict sample_runtime l) None = Inr l"
  by (rule ledger_roundtrip [OF sample_ledger_runtime sample_iso])
    (use sample_storable in \<open>simp_all add: sample_events_def sample_event_def max_ledger_entries_def\<close>)

text \<open>
  C18. A retained head fixes the history: two ledgers that verify against the same head hold the same reports in the same
  order and start from the same genesis, unless the hash collides on one of the inputs of their two chains.
\<close>

theorem ledger_history_fixed:
  assumes "ledger_runtime rt" "iso_contract rt"
    and "ledger_verify rt l (Some h)" "ledger_events_are l es" "ledger_verify rt m (Some h)" "ledger_events_are m fs"
    and "collision_free rt (ledger_inputs rt (lg_version l) es \<union> ledger_inputs rt (lg_version m) fs)"
  shows "list_all2 same_event es fs \<and> lg_genesis l = lg_genesis m"
  by (rule ledger_tamper_evident [OF assms])

lemma ledger_history_fixed_witness:
  "\<exists>h. ledger_order sample_events
      \<in> {fs. \<exists>m. ledger_verify sample_runtime m (Some h) \<and> ledger_events_are m fs \<and> collision_free sample_runtime
            (ledger_inputs sample_runtime (lg_version sample_ledger) (ledger_order sample_events)
              \<union> ledger_inputs sample_runtime (lg_version m) fs)}
    \<and> {fs. \<exists>m. ledger_verify sample_runtime m (Some h) \<and> ledger_events_are m fs \<and> collision_free sample_runtime
            (ledger_inputs sample_runtime (lg_version sample_ledger) (ledger_order sample_events)
              \<union> ledger_inputs sample_runtime (lg_version m) fs)}
      \<subseteq> {fs. list_all2 same_event (ledger_order sample_events) fs}"
proof -
  obtain h where h: "ledger_verify sample_runtime sample_ledger (Some h)"
    using sample_ledger(5) verified_head_JStr [OF sample_ledger(5)]
    by (auto simp: ledger_verify_def ledger_head_def split: option.splits if_splits)
  have "length (ledger_order sample_events) \<le> 10" by (simp add: sample_events_def)
  then have c: "collision_free sample_runtime (ledger_inputs sample_runtime (lg_version sample_ledger) (ledger_order sample_events))"
    using sample_ledger_collision_free sample_ledger(2) by simp
  show ?thesis
    using ledger_history_fixed [OF sample_ledger_runtime sample_iso h sample_ledger(4)] h sample_ledger(4) c
    by (intro exI [of _ h] conjI subsetI) auto
qed

text \<open>
  C19. The order of delivery does not matter to a ledger, and reports that are ingested later only extend it: the ledger
  of the longer stream starts with the entries of the shorter one.
\<close>

theorem ledger_append_only:
  assumes "build_ledger rt (es @ fs) = Inr m"
    and "\<And>e f. e \<in> set es \<Longrightarrow> f \<in> set fs \<Longrightarrow> ev_ingested_at e < ev_ingested_at f"
    and "mset gs = mset es"
  shows "\<exists>l xs. build_ledger rt gs = Inr l \<and> lg_entries m = lg_entries l @ xs \<and> length xs = length fs"
  using build_ledger_extends [OF assms(1,2)] build_ledger_perm [OF assms(3), of rt] by simp

lemma ledger_append_only_witness:
  "\<exists>l m xs. build_ledger sample_runtime (rev sample_events) = Inr l
    \<and> build_ledger sample_runtime (sample_events @ sample_late_events) = Inr m
    \<and> lg_entries m = lg_entries l @ xs \<and> length xs = 1"
proof -
  have "\<forall>e \<in> set (sample_events @ sample_late_events). storable e" using sample_storable by auto
  then obtain m where m: "build_ledger sample_runtime (sample_events @ sample_late_events) = Inr m"
    using build_ledger_Inr [OF sample_ledger_runtime sample_iso, of "sample_events @ sample_late_events"]
    by (auto simp: sample_events_def sample_late_events_def sample_event_def max_ledger_entries_def)
  have "length sample_late_events = 1" by (simp add: sample_late_events_def)
  then show ?thesis
    using ledger_append_only [OF m, of "rev sample_events"] m
    by (fastforce simp: sample_events_def sample_late_events_def sample_event_def)
qed

subsection \<open>Queries and proofs about ledgers\<close>

text \<open>
  C20. The selection through postings is the filter of the indexed ledger: the positions, in order, of the receipts whose report
  matches the query, field by field.
\<close>

theorem query_selection:
  assumes "ledger_runtime rt" "iso_contract rt" "LedgerIndex_init rt l h pc = Inr idx"
  shows "list_all2 (\<lambda>x e. EvidenceEvent_from_dict rt (le_event x) ''event'' = Inr e)
        (lg_entries (li_ledger idx)) (li_events idx)
    \<and> ls_positions (LedgerSelection_init idx q)
        = map int (filter (\<lambda>i. query_matches q (li_events idx ! i)) [0..<length (lg_entries (li_ledger idx))])"
  using LedgerIndex_events [OF assms(3)] selection_spec [OF assms] by (auto dest: list_all2_lengthD)

lemma query_selection_witness:
  "ls_positions (LedgerSelection_init tree_index tree_query) = [0]"
proof -
  have e: "list_all2 (\<lambda>x e. EvidenceEvent_from_dict tree_runtime (le_event x) ''event'' = Inr e)
      (lg_entries tree_ledger) (li_events tree_index)"
    and p: "ls_positions (LedgerSelection_init tree_index tree_query)
      = map int (filter (\<lambda>i. query_matches tree_query (li_events tree_index ! i)) [0..<2])"
    using query_selection [OF tree_ledger_runtime tree_iso tree_index(1)] by (simp_all add: tree_index(2) tree_ledger(6))
  show ?thesis unfolding p tree_parsed [OF e] by (rule tree_query_matches)
qed

text \<open>
  C21. A client that reads the first page of a query on a built ledger and follows the continuation tokens reaches the end, after at
  most as many pages as there are selected receipts (or one): the pages hold exactly the receipts whose reports match
  the query, once and in order, and every page keeps the entry limit and the byte budget of the request.
\<close>

theorem pages_complete:
  assumes "ledger_runtime rt" "iso_contract rt" "repr_reads rt"
    and "\<forall>e \<in> set es. storable e" "distinct (map ev_id es)" "int (length es) \<le> max_ledger_entries"
    and "build_ledger rt es = Inr l" "LedgerIndex_init rt l head None = Inr idx"
    and "1 \<le> limit" "limit \<le> 1000" "1 \<le> budget" "budget \<le> max_page_bytes"
    and "\<forall>x \<in> set (matching_receipts rt l q). entry_size rt x \<le> budget"
  shows "\<exists>ps. read_all rt (Suc d) (LedgerSelection_init idx q) limit budget (Suc (length (lg_entries l))) None = Inr ps
    \<and> concat (map lp_entries ps) = matching_receipts rt l q
    \<and> length ps \<le> max 1 (length (matching_receipts rt l q))
    \<and> (\<forall>p \<in> set ps. int (length (lp_entries p)) \<le> limit \<and> lp_entry_bytes p \<le> budget)"
  by (rule pages_cover [OF assms])

lemma pages_complete_witness:
  "\<exists>ps. read_all tree_runtime 1 (LedgerSelection_init tree_index tree_query) 1 20000 3 None = Inr ps
    \<and> concat (map lp_entries ps) = matching_receipts tree_runtime tree_ledger tree_query"
proof -
  have "\<forall>x \<in> set (matching_receipts tree_runtime tree_ledger tree_query). entry_size tree_runtime x \<le> 20000"
    using tree_receipts_small by fastforce
  then show ?thesis
    using pages_complete [OF tree_ledger_runtime tree_iso sample_reads(2) tree_events_ok(1-3) tree_ledger(1) tree_index(1),
      of 1 20000 tree_query 0] tree_ledger(6)
    by (auto simp: max_page_bytes_def numeral_3_eq_3)
qed

text \<open>
  C22. A selection of a built ledger accepts exactly the continuation tokens it issues: a token resumes at a sequence if and only if it
  is, character by character, the token of that snapshot, query and sequence.
\<close>

theorem cursor_exact:
  fixes idx :: ledger_index and q :: ledger_query
  assumes "ledger_runtime rt" "iso_contract rt" "repr_reads rt"
    and "\<forall>e \<in> set es. storable e" "distinct (map ev_id es)" "int (length es) \<le> max_ledger_entries"
    and "build_ledger rt es = Inr l" "LedgerIndex_init rt l head None = Inr idx"
  defines "sel \<equiv> LedgerSelection_init idx q"
  shows "LedgerSelection_resume rt (Suc d) sel cursor = Inr n
    \<longleftrightarrow> 0 \<le> n \<and> n \<le> int (length (lg_entries (li_ledger (ls_index sel)))) \<and> cursor = LedgerSelection_cursor rt sel n"
proof -
  have "selection_ok rt sel" using built_pageable [OF assms(1,2,4-8)] by (simp add: sel_def pageable_def)
  then show ?thesis using LedgerSelection_resume_Inr LedgerSelection_resume_cursor(1) [OF assms(1,3)] by blast
qed

lemma cursor_exact_witness:
  "LedgerSelection_resume tree_runtime 1 (LedgerSelection_init tree_index tree_query)
     (LedgerSelection_cursor tree_runtime (LedgerSelection_init tree_index tree_query) 1) = Inr 1"
  using cursor_exact [OF tree_ledger_runtime tree_iso sample_reads(2) tree_events_ok(1-3) tree_ledger(1) tree_index(1),
      of 0 tree_query _ 1]
  by (simp add: LedgerSelection_init_def Let_def tree_index(2) tree_ledger(6))

text \<open>
  C23. Every receipt of at most 400 KiB of a ledger that the code built can be proved: the bundle of its index is written to a
  document that reads back as the same bundle, and it verifies against the digest of the index's commitment, with that
  receipt as the result.
\<close>

theorem membership_complete_proof:
  fixes idx :: ledger_index
  assumes rt: "ledger_runtime rt" "iso_contract rt"
    and es: "\<forall>e \<in> set es. storable e" "distinct (map ev_id es)" "int (length es) \<le> max_ledger_entries"
    and l: "build_ledger rt es = Inr (li_ledger idx)"
    and seq: "0 \<le> seq" "seq < int (length es)" "small_receipt rt (lg_entries (li_ledger idx) ! nat seq)"
  shows "\<exists>P b. LedgerProofIndex_init rt idx = Inr P \<and> prove rt P seq = Inr b
    \<and> MembershipBundle_from_dict rt (MembershipBundle_to_dict rt b) = Inr b
    \<and> verify_ledger_membership rt b (commitment_digest rt (pi_commitment P)) = Inr [lg_entries (li_ledger idx) ! nat seq]"
  using proved_bundle_ready [OF rt es l seq] proved_bundle_verifies [OF rt es l seq] MembershipBundle_roundtrip [OF rt]
  by fastforce

lemma membership_complete_proof_witness:
  "\<exists>P b. LedgerProofIndex_init tree_runtime tree_index = Inr P \<and> prove tree_runtime P 1 = Inr b
    \<and> MembershipBundle_from_dict tree_runtime (MembershipBundle_to_dict tree_runtime b) = Inr b
    \<and> verify_ledger_membership tree_runtime b (commitment_digest tree_runtime (pi_commitment P)) = Inr [lg_entries tree_ledger ! 1]"
  using membership_complete_proof [OF tree_ledger_runtime tree_iso tree_events_ok(1-3), of tree_index 1]
    tree_ledger(1) tree_small [of 1] tree_events_ok(4)
  by (simp add: tree_index(2))

text \<open>
  C24. A bundle that was read from any document and verifies against the commitment digest of a ledger is about that ledger:
  each receipt it returns stands in the ledger at the sequence it names, unless the hash function collides on the inputs
  listed in \<open>membership_inputs\<close>.
\<close>

theorem membership_sound_proof:
  assumes rt: "ledger_runtime rt" "iso_contract rt" and v: "ledger_verify rt l None"
    and b: "MembershipBundle_from_dict rt doc = Inr b"
    and verified: "verify_ledger_membership rt b (commitment_digest rt (honest_commitment rt l)) = Inr xs"
    and cf: "collision_free rt (membership_inputs rt l b)"
  shows "mb_commitment b = honest_commitment rt l \<and> sorted_wrt (<) (map le_sequence xs)
    \<and> (\<forall>x \<in> set xs. 0 \<le> le_sequence x \<and> le_sequence x < int (length (lg_entries l))
        \<and> canon (LedgerEntry_to_dict x) = canon (LedgerEntry_to_dict (lg_entries l ! nat (le_sequence x))))"
  by (rule membership_sound [OF rt v MembershipBundle_from_dict_wellformed [OF b] verified cf])

lemma membership_sound_proof_witness:
  "mb_commitment tree_bundle = honest_commitment tree_runtime tree_ledger
    \<and> le_sequence (lg_entries tree_ledger ! 0) < int (length (lg_entries tree_ledger))"
proof -
  have "MembershipBundle_from_dict tree_runtime (MembershipBundle_to_dict tree_runtime tree_bundle) = Inr tree_bundle"
    by (rule MembershipBundle_roundtrip [OF tree_ledger_runtime tree_iso tree_bundle(1)])
  from membership_sound_proof [OF tree_ledger_runtime tree_iso tree_ledger(5) this tree_bundle(2,3)] show ?thesis by simp
qed

text \<open>
  C25. For every prefix of a verified ledger the index produces a proof that verifies between the two commitment digests; its
  document reads back as the same proof and its canonical bytes stay within the limit of 4096.
\<close>

theorem consistency_complete_proof:
  assumes rt: "ledger_runtime rt" "iso_contract rt" and v: "ledger_verify rt (li_ledger idx) None"
    and n: "n \<le> length (lg_entries (li_ledger (idx :: ledger_index)))"
  defines "old \<equiv> honest_commitment rt (ledger_prefix (li_ledger idx) n)"
  shows "\<exists>P p. LedgerProofIndex_init rt idx = Inr P \<and> prove_ledger_consistency rt P old = Inr p
    \<and> LedgerConsistencyProof_from_dict rt (LedgerConsistencyProof_to_dict rt p) = Inr p
    \<and> (\<exists>raw. LedgerConsistencyProof_to_bytes rt p = Inr raw \<and> length raw \<le> 4096)
    \<and> verify_ledger_consistency rt p (commitment_digest rt old) (commitment_digest rt (pi_commitment P)) = Inr ()"
proof -
  obtain P p where p: "LedgerProofIndex_init rt idx = Inr P" "prove_ledger_consistency rt P old = Inr p"
    "verify_ledger_consistency rt p (commitment_digest rt old) (commitment_digest rt (pi_commitment P)) = Inr ()"
    using consistency_complete [OF rt v n] unfolding old_def by blast
  then have "consistency_ok rt p" using proved_consistency_accepted [OF rt v] unfolding old_def by blast
  then show ?thesis using p consistency_roundtrip [OF rt(1)] consistency_bytes [OF rt(1)] by (force simp: max_consistency_bytes_def)
qed

lemma consistency_complete_proof_witness:
  "\<exists>P p. LedgerProofIndex_init tree_runtime tree_index = Inr P
    \<and> prove_ledger_consistency tree_runtime P (honest_commitment tree_runtime tree_prefix) = Inr p
    \<and> LedgerConsistencyProof_from_dict tree_runtime (LedgerConsistencyProof_to_dict tree_runtime p) = Inr p"
  using consistency_complete_proof [OF tree_ledger_runtime tree_iso, of tree_index 1]
  by (auto simp: tree_index(2) tree_ledger(5,6) tree_prefix_def)

text \<open>
  C26. A consistency proof that was read from any document and verifies between the commitment digests of two verified ledgers
  shows that the first is a prefix of the second, unless the hash function collides on the inputs listed in
  \<open>consistency_inputs\<close>: history that was committed to cannot be rewritten.
\<close>

theorem consistency_sound_proof:
  assumes rt: "ledger_runtime rt" "iso_contract rt" and v: "ledger_verify rt l None" "ledger_verify rt m None"
    and p: "LedgerConsistencyProof_from_dict rt doc = Inr p"
    and verified: "verify_ledger_consistency rt p (commitment_digest rt (honest_commitment rt l))
      (commitment_digest rt (honest_commitment rt m)) = Inr ()"
    and cf: "collision_free rt (consistency_inputs rt l m p)"
  shows "lg_version l = lg_version m \<and> length (lg_entries l) \<le> length (lg_entries m)
    \<and> list_all2 (\<lambda>x y. canon (LedgerEntry_to_dict x) = canon (LedgerEntry_to_dict y))
        (lg_entries l) (take (length (lg_entries l)) (lg_entries m))"
  by (rule consistency_sound [OF rt v LedgerConsistencyProof_from_dict_ok [OF p] verified cf])

lemma consistency_sound_proof_witness:
  "list_all2 (\<lambda>x y. canon (LedgerEntry_to_dict x) = canon (LedgerEntry_to_dict y))
    (lg_entries tree_prefix) (take 1 (lg_entries tree_ledger))"
proof -
  have "LedgerConsistencyProof_from_dict tree_runtime (LedgerConsistencyProof_to_dict tree_runtime tree_consistency) = Inr tree_consistency"
    by (rule consistency_roundtrip [OF tree_ledger_runtime tree_consistency(1)])
  from consistency_sound_proof [OF tree_ledger_runtime tree_iso tree_prefix(1) tree_ledger(5) this tree_consistency(2,3)]
  show ?thesis by (simp add: tree_prefix(2))
qed

text \<open>
  C27. Migrating a policy document first and reading the result gives the policy that reading the original gives, but for the
  recorded schema version of the source; both fail alike. The migrated document must still be within the limits of a
  JSON value, since the upgrade adds a field to every claim.
\<close>

theorem migration_keeps_meaning:
  assumes "migrate_policy_document raw = Inr (document, report)" "is_ok (freeze_json False document)"
  shows "Policy_from_dict document = rbind (Policy_from_dict raw) (\<lambda>p. Inr (p\<lparr>source_schema_version := 2\<rparr>))"
  using Policy_from_dict_migrated [OF assms(1)] assms(2) by (auto simp: is_ok_def split: sum.splits)

lemma migration_keeps_meaning_witness:
  "Policy_from_dict sample_new_policy = rbind (Policy_from_dict sample_old_policy) (\<lambda>p. Inr (p\<lparr>source_schema_version := 2\<rparr>))
    \<and> is_ok (Policy_from_dict sample_old_policy)"
  using migration_keeps_meaning sample_migration sample_old_policy_read by blast

subsection \<open>Workflows\<close>

text \<open>
  C28. No approval without independent review: in every replayed workflow, a claim that is approved (or was, and is now
  revoked) has distinct approvals up to the quorum, each by a human reviewer of the claim's scope that is none of its
  authors, its authors hold the author role, and it is bound to evidence of the verified ledger and to an artifact, each
  of its own claim and scope.
\<close>

theorem approval_needs_quorum:
  assumes "ledger_runtime rt" "bundle_ok rt b" "replay_workflow rt b authority expected = Inr s"
    and "map_of (ws_claims s) k = Some c" "cw_status c \<in> {APPROVED, REVOKED}"
  shows "ap_quorum authority \<le> int (length (cw_approvals c)) \<and> distinct (cw_approvals c)
    \<and> set (cw_authors c) \<inter> set (cw_approvals c) = {}
    \<and> (\<forall>i \<in> set (cw_approvals c). acts authority (cw_scope c) REVIEWER i)
    \<and> (\<forall>i \<in> set (cw_authors c). acts authority (cw_scope c) AUTHOR i)
    \<and> cw_evidence c \<noteq> [] \<and> (\<forall>i \<in> set (cw_evidence c). bound_evidence b k (cw_scope c) i)
    \<and> cw_artifacts c \<noteq> [] \<and> (\<forall>i \<in> set (cw_artifacts c). bound_artifact b k (cw_scope c) i)"
proof -
  have run: "rfold (replay_step authority b) [] (map wr_transition (wb_records b)) = Inr (ws_claims s)"
    using assms(3) replay_workflow_Inr_iff [OF assms(1,2)] by auto
  have inv: "claims_inv authority b (ws_claims s)" using replay_loop_inv [OF run claims_inv_empty] by blast
  then have "cw_claim c = k" "claim_inv authority b c"
    using keys_ok_get [of "ws_claims s" k c] map_of_SomeD [OF assms(4)] assms(4) by (auto simp: claims_inv_def)
  then show ?thesis using assms(5) by (auto simp: claim_inv_def claim_ok_def tuple_ok_def)
qed

lemma approval_needs_quorum_witness:
  "\<exists>c. map_of (ws_claims sample_state) (U ''fire'') = Some c \<and> cw_status c = APPROVED
    \<and> 2 \<le> int (length (cw_approvals c)) \<and> set (cw_authors c) \<inter> set (cw_approvals c) = {}"
proof -
  obtain c where c: "map_of (ws_claims sample_state) (U ''fire'') = Some c" "cw_status c = APPROVED"
    by (simp add: sample_workflow(3) sample_claim_def)
  moreover have "ap_quorum sample_authority = 2" by (simp add: sample_authority_def)
  ultimately show ?thesis
    using approval_needs_quorum [OF sample_ledger_runtime sample_workflow_ok(1) sample_workflow(2) c(1)] by auto
qed

text \<open>
  C29. Replaying further commands moves every claim along the status machine only: it never disappears, once submitted its
  authors, statement, evidence and artifacts are fixed, and a rejected or revoked claim never changes again.
\<close>

theorem workflow_finality:
  assumes "rfold (replay_step authority b) ms ts = Inr ns" "claims_inv authority b ms"
    and "map_of ms k = Some c"
  shows "\<exists>d. map_of ns k = Some d \<and> status_reach (cw_status c) (cw_status d)
    \<and> (cw_status c \<noteq> DRAFT \<longrightarrow> cw_status d \<noteq> DRAFT \<and> same_content c d)
    \<and> (cw_status c \<in> {REJECTED, REVOKED} \<longrightarrow> d = c)"
  by (rule replay_loop_claim [OF assms])

lemma workflow_finality_witness:
  "\<exists>c d ms. rfold (replay_step sample_authority sample_workflow) [] (take 1 sample_transitions) = Inr ms
    \<and> map_of ms (U ''fire'') = Some c \<and> map_of (ws_claims sample_state) (U ''fire'') = Some d
    \<and> cw_status c = DRAFT \<and> status_reach (cw_status c) (cw_status d) \<and> cw_status d = APPROVED"
proof -
  obtain ms where one: "rfold (replay_step sample_authority sample_workflow) [] (take 1 sample_transitions) = Inr ms"
    and rest: "rfold (replay_step sample_authority sample_workflow) ms (drop 1 sample_transitions) = Inr (ws_claims sample_state)"
    using sample_split by blast
  have inv: "claims_inv sample_authority sample_workflow ms" using replay_loop_inv [OF one claims_inv_empty] by blast
  obtain c where c: "map_of ms (U ''fire'') = Some c" "cw_status c = DRAFT" using sample_created [OF one] by blast
  show ?thesis using workflow_finality [OF rest inv c(1)] one c by (auto simp: sample_workflow(3) sample_claim_def)
qed

text \<open>
  C30. A retained workflow head fixes the workflow: two accepted bundles with the same head have the same identifier,
  authority, artifacts, receipts and evidence head, unless the hash collides on one of the inputs of their chains.
\<close>

theorem workflow_history_fixed:
  assumes "ledger_runtime rt" "bundle_ok rt b" "bundle_ok rt d"
    and "WorkflowBundle_head rt b = WorkflowBundle_head rt d"
    and "collision_free rt (bundle_inputs rt b \<union> bundle_inputs rt d)"
  shows "wb_id b = wb_id d \<and> wb_authority b = wb_authority d \<and> wb_artifacts b = wb_artifacts d
    \<and> wb_records b = wb_records d \<and> ledger_head (wb_evidence b) = ledger_head (wb_evidence d)"
  by (rule workflow_tamper_evident [OF assms])

lemma workflow_history_fixed_witness:
  "(\<lambda>b. (wb_id b, wb_authority b, wb_artifacts b, wb_records b, ledger_head (wb_evidence b))) `
      {b. bundle_ok sample_runtime b \<and> WorkflowBundle_head sample_runtime b = WorkflowBundle_head sample_runtime sample_workflow
        \<and> collision_free sample_runtime (bundle_inputs sample_runtime b \<union> bundle_inputs sample_runtime sample_workflow)}
    = {(U ''flow-1'', wb_authority sample_workflow, [sample_artifact], wb_records sample_workflow, ledger_head sample_evidence)}"
  (is "?f ` ?S = _")
proof -
  have "wb_id sample_workflow = U ''flow-1''"
    using WorkflowBundle_append_Inr(3) [OF sample_ledger_runtime sample_start_ok sample_workflow(1)] by (simp add: sample_start_def)
  then have f: "?f sample_workflow
      = (U ''flow-1'', wb_authority sample_workflow, [sample_artifact], wb_records sample_workflow, ledger_head sample_evidence)"
    by (simp add: sample_workflow_ok(4,5))
  have "?f b = ?f sample_workflow" if "b \<in> ?S" for b
    using workflow_history_fixed [OF sample_ledger_runtime _ sample_workflow_ok(1), of b] that by simp
  moreover have "sample_workflow \<in> ?S" using sample_workflow_ok(1) sample_workflow_collision_free by simp
  ultimately show ?thesis unfolding f [symmetric] by blast
qed

text \<open>
  C31. Appending makes progress: when the commands replay on the bundle, their identifiers are fresh and the result fits the
  limits, the append succeeds and replaying the new bundle gives the state after the commands.
\<close>

theorem workflow_append_accepts:
  assumes "ledger_runtime rt" "bundle_ok rt b" "AuthorityPolicy_digest rt authority = wb_authority b"
    and "rfold (replay_step authority b) [] (map wr_transition (wb_records b)) = Inr before"
      "rfold (replay_step authority b) before ts = Inr after"
    and "distinct (map wt_id (map wr_transition (wb_records b) @ ts))"
    and "int (length (wb_records b) + length ts) \<le> max_workflow_records" "appended_size rt b ts"
  shows "\<exists>d s. WorkflowBundle_append rt b ts authority = Inr d \<and> replay_workflow rt d authority None = Inr s
    \<and> ws_claims s = after"
  by (rule WorkflowBundle_append_accepts [OF assms])

lemma workflow_append_accepts_witness:
  "\<exists>d s. WorkflowBundle_append sample_runtime sample_start sample_transitions sample_authority = Inr d
    \<and> replay_workflow sample_runtime d sample_authority None = Inr s
    \<and> ws_claims s = sample_claim APPROVED 6 [U ''e5''] [U ''log''] [U ''ben'', U ''cyd'']"
  by (rule workflow_append_accepts [OF sample_ledger_runtime sample_start_ok _ _ sample_steps _ _ sample_appended_size])
    (simp_all add: sample_start_def sample_transitions_def sample_transition_def max_workflow_records_def)

text \<open>
  C32. An accepted workflow whose commands replay is written to a document that reads back as the same bundle, its embedded
  ledger included, exactly when the entries of that ledger store their events the way \<open>to_dict\<close> writes them
  (\<open>ledger_written\<close>). Every ledger that \<open>build_ledger\<close> makes from accepted reports or that the ledger reader
  returns is of this kind (\<open>build_ledger_written\<close>, \<open>EvidenceLedger_from_dict_written\<close>); the verifier alone also accepts a ledger
  built by hand whose events have their members in another order, and that one reads back with the members reordered.
\<close>

theorem workflow_roundtrip:
  assumes "ledger_runtime rt" "iso_contract rt" "bundle_ok rt b" "bundle_typed b"
    and "replay_workflow rt b authority None = Inr s"
  shows "WorkflowBundle_from_dict rt (WorkflowBundle_to_dict rt b) authority None None = Inr b
    \<longleftrightarrow> ledger_written (wb_evidence b)"
  by (rule WorkflowBundle_roundtrip [OF assms])

lemma workflow_roundtrip_witness:
  "ledger_written (wb_evidence sample_workflow) \<and> length (wb_records sample_workflow) = 6
    \<and> WorkflowBundle_from_dict sample_runtime (WorkflowBundle_to_dict sample_runtime sample_workflow) sample_authority None None
      = Inr sample_workflow"
proof -
  have w: "ledger_written (wb_evidence sample_workflow)"
    unfolding sample_workflow_ok(4) by (rule EvidenceLedger_from_dict_written [OF sample_evidence(6)])
  have "length (wb_records sample_workflow) = 6"
    using arg_cong [OF sample_workflow_ok(3), of length] by (simp add: sample_transitions_def)
  then show ?thesis
    using w workflow_roundtrip [OF sample_ledger_runtime sample_iso sample_workflow_ok(1,2) sample_workflow(2)] by simp
qed

subsection \<open>Cases\<close>

text \<open>
  C33. Replaying a case journal implements its protocol: it succeeds exactly when the authority and the expected head match
  and the records form a run of the protocol (plan, observation, verdict, decision, each sound for the ones before it),
  and it returns the state of that run.
\<close>

theorem case_replay_refines:
  assumes "ledger_runtime rt" "journal_ok rt j"
  shows "replay_case rt j authority expected = Inr s \<longleftrightarrow>
    cj_authority j = CaseAuthority_digest rt authority \<and> (expected = None \<or> expected = Some (CaseJournal_head rt j))
    \<and> (\<exists>l. case_run rt authority (map cr_record (cj_receipts j)) l
      \<and> s = \<lparr>cs_phase = cl_phase l, cs_case_id = map_option cp_case_id (cl_plan l),
             cs_outcome = map_option cv_outcome (cl_verdict l), cs_decision = cl_decision l,
             cs_checkpoint = journal_checkpoint rt j\<rparr>)"
  by (rule replay_case_Inr_iff [OF assms])

lemma case_replay_refines_witness:
  "\<exists>s. replay_case case_runtime sample_journal sample_case_authority None = Inr s \<and> cs_phase s = DECIDED"
  using case_replay_refines [OF case_ledger_runtime sample_journal(3), of sample_case_authority None]
    sample_run sample_journal(2,4) by (auto simp: sample_final_def)

text \<open>
  C34. No approval of a refuted case: when replaying an accepted journal returns a decision to approve, the journal consists of
  a plan, an observation, a verdict and that decision, each bound to the ones before it by their digests. The observation
  ran on the input the plan names and succeeded with exactly the digest the plan predicted, and the verdict is one of
  support. Proposer, observer, evaluator and decider are four different actors, and each has the grant for its role in the
  scope of the case: the observer is a tool, the evaluator is not a model, and the decider is a human or a policy.
\<close>

theorem case_approval_supported:
  assumes "ledger_runtime rt" "journal_ok rt j" "replay_case rt j authority expected = Inr s"
    and "cs_decision s = Some d" "dn_disposition d = APPROVE_CASE"
  shows "\<exists>p x v. map cr_record (cj_receipts j) = [Plan p, Observation x, Verdict v, Decision d]
    \<and> cv_outcome v = SUPPORTED \<and> co_status x = OBSERVED \<and> co_observed_sha256 x = Some (cp_prediction_sha256 p)
    \<and> distinct [cp_proposer p, co_observer x, cv_evaluator v, dn_decider d]
    \<and> co_plan x = CasePlan_digest rt p \<and> co_input_sha256 x = cp_input_sha256 p
    \<and> cv_plan v = CasePlan_digest rt p \<and> cv_observation v = CaseObservation_digest rt x
    \<and> dn_verdict d = CaseVerdict_digest rt v
    \<and> may authority (cp_proposer p) (\<lambda>k. True) (cp_scope p) PROPOSE
    \<and> may authority (co_observer x) (\<lambda>k. k = KIND_TOOL) (cp_scope p) OBSERVE
    \<and> may authority (cv_evaluator v) (\<lambda>k. k \<noteq> KIND_MODEL) (cp_scope p) EVALUATE
    \<and> may authority (dn_decider d) (\<lambda>k. k = KIND_HUMAN \<or> k = KIND_POLICY) (cp_scope p) DECIDE"
proof -
  from iffD1 [OF replay_case_Inr_iff [OF assms(1,2)] assms(3)] obtain l
    where l: "case_run rt authority (map cr_record (cj_receipts j)) l" "cs_decision s = cl_decision l"
    by (elim conjE exE) simp
  with assms(4) have "cl_decision l = Some d" by simp
  then show ?thesis by (rule approved_run [OF l(1) _ assms(5)])
qed

lemma case_approval_supported_witness:
  "co_observed_sha256 sample_observation = Some (cp_prediction_sha256 sample_plan)
    \<and> distinct [cp_proposer sample_plan, co_observer sample_observation, cv_evaluator sample_verdict, dn_decider sample_decision]
    \<and> may sample_case_authority (dn_decider sample_decision) (\<lambda>k. k = KIND_HUMAN \<or> k = KIND_POLICY) (cp_scope sample_plan) DECIDE"
proof -
  obtain s where s: "replay_case case_runtime sample_journal sample_case_authority None = Inr s" "cs_decision s = Some sample_decision"
    using sample_journal_replay by blast
  have "dn_disposition sample_decision = APPROVE_CASE" by (simp add: sample_decision_def)
  from case_approval_supported [OF case_ledger_runtime sample_journal(3) s this]
  show ?thesis by (auto simp: sample_journal(2) sample_records_def)
qed

text \<open>
  C35. Appending makes progress: records that continue the run of an accepted journal are appended, given the current
  checkpoint, when the result fits the size limit.
\<close>

theorem case_append_accepts:
  assumes "ledger_runtime rt" "journal_ok rt j" "cj_authority j = CaseAuthority_digest rt authority"
    and "case_run rt authority (map cr_record (cj_receipts j)) s" "case_run rt authority (map cr_record (cj_receipts j) @ xs) t"
    and "xs \<noteq> []" "appended_case_size rt j xs"
  shows "\<exists>k. CaseJournal_append rt j xs authority (Some (journal_checkpoint rt j)) = Inr k
    \<and> map cr_record (cj_receipts k) = map cr_record (cj_receipts j) @ xs"
  by (rule CaseJournal_append_accepts [OF assms])

lemma case_append_accepts_witness:
  "\<exists>k. CaseJournal_append case_runtime sample_journal_start sample_records sample_case_authority
      (Some (journal_checkpoint case_runtime sample_journal_start)) = Inr k
    \<and> map cr_record (cj_receipts k) = map cr_record (cj_receipts sample_journal_start) @ sample_records"
proof (rule case_append_accepts [OF case_ledger_runtime sample_journal_start_ok _ _ _ _ sample_appended_case_size])
  have "map cr_record (cj_receipts sample_journal_start) = []" by (simp add: sample_journal_start_def)
  then show "case_run case_runtime sample_case_authority (map cr_record (cj_receipts sample_journal_start)) loop_start"
    "case_run case_runtime sample_case_authority (map cr_record (cj_receipts sample_journal_start) @ sample_records) sample_final"
    using sample_run by (simp_all add: case_run.start)
qed (simp_all add: sample_journal_start_def sample_records_def)

text \<open>
  C36. A retained journal head fixes the journal: two accepted journals with the same head are equal, unless the hash
  collides on one of the inputs of their chains.
\<close>

theorem case_history_fixed:
  assumes "ledger_runtime rt" "journal_ok rt j" "journal_ok rt k" "CaseJournal_head rt j = CaseJournal_head rt k"
    and "collision_free rt (journal_inputs rt j \<union> journal_inputs rt k)"
  shows "j = k"
  by (rule journal_tamper_evident [OF assms])

lemma case_history_fixed_witness:
  "{k. journal_ok case_runtime k \<and> CaseJournal_head case_runtime k = CaseJournal_head case_runtime sample_journal
      \<and> collision_free case_runtime (journal_inputs case_runtime k \<union> journal_inputs case_runtime sample_journal)}
    = {sample_journal} \<and> length (cj_receipts sample_journal) = 4"
proof (intro conjI equalityI subsetI)
  show "length (cj_receipts sample_journal) = 4"
    using arg_cong [OF sample_journal(2), of length] by (simp add: sample_records_def)
qed (use case_history_fixed [OF case_ledger_runtime _ sample_journal(3)] sample_journal(3) sample_journal_collision_free in auto)

text \<open>
  C37. An accepted journal that replays is written to a document that reads back as the same journal, and it holds at most
  four records.
\<close>

theorem case_roundtrip:
  assumes "ledger_runtime rt" "journal_ok rt j" "\<forall>r \<in> set (cj_receipts j). record_ok rt (cr_record r)"
    and "is_ok (replay_case rt j authority None)"
  shows "CaseJournal_from_dict rt (CaseJournal_to_dict j) authority None = Inr j \<and> length (cj_receipts j) \<le> 4"
proof -
  obtain l where "case_run rt authority (map cr_record (cj_receipts j)) l"
    using assms(4) replay_case_Inr_iff [OF assms(1,2)] by (auto simp: is_ok_def split: sum.splits)
  then show ?thesis using CaseJournal_roundtrip [OF assms(2-4)] case_run_length by fastforce
qed

lemma case_roundtrip_witness:
  "CaseJournal_from_dict case_runtime (CaseJournal_to_dict sample_journal) sample_case_authority None = Inr sample_journal"
proof -
  have "is_ok (replay_case case_runtime sample_journal sample_case_authority None)"
    using sample_journal_replay by (auto simp: is_ok_def)
  then show ?thesis using case_roundtrip [OF case_ledger_runtime sample_journal(3) sample_records_ok] by blast
qed

subsection \<open>Claim checks\<close>

text \<open>
  C38. The evaluation of a plan is exact: it returns precisely when the retained entries fit the limits and are the inputs of the
  plan, every input matches its commitment, the documents that its JSON rules read are admitted, and the work and nodes that
  the run costs are within the budget; the result then gives every rule its verdict on the retained bytes, in order, and
  depends on nothing else. So exhausted work or a malformed document never becomes a verdict, and two runs with different
  limits that both return agree.
\<close>

theorem checks_exact:
  assumes "check_plan_ok rt p" "sha256_hex rt" "limits_ok L"
  shows "evaluate_checks rt recursion p contents (Some L) = Inr e \<longleftrightarrow>
    snapshot_ok L 0 contents \<and> set (map fst contents) = set (map ar_id (kp_inputs p))
    \<and> plan_admitted rt recursion L p (retained_bytes contents)
    \<and> plan_work rt recursion p (retained_bytes contents) \<le> kl_work L \<and> plan_nodes recursion p (retained_bytes contents) \<le> kl_nodes L
    \<and> e = \<lparr>ke_plan = CheckPlan_digest rt p,
         ke_results = map (\<lambda>r. rule_outcome r (rule_verdict r (\<lambda>i. document_value recursion (retained_bytes contents i))
           (retained_bytes contents))) (kp_rules p)\<rparr>"
  using evaluate_checks_Inr [OF assms] by (simp add: plan_evaluation_def)

lemma checks_exact_witness:
  "evaluate_checks sample_runtime 100 sample_check_plan [(U ''doc'', doc_bytes)] (Some default_check_limits) = Inr sample_verdicts
    \<and> evaluation_outcome sample_verdicts = PASS
    \<and> (\<nexists>e. evaluate_checks sample_runtime 100 sample_check_plan [] (Some default_check_limits) = Inr e)"
  unfolding checks_exact [OF sample_check_plan_ok sample_hex default_limits_ok]
  using sample_check_run
  by (simp add: plan_evaluation_def sample_check_plan_def gate_artifact_def evaluation_outcome_def sample_verdicts_def rule_outcome_def)

text \<open>
  C39. The reader of plans accepts exactly the canonical bytes of accepted plans, and returns the plan they were written from,
  as far as the limits on bytes, counts, nodes and work allow: three passes over the bytes and one unit for every node.
\<close>

theorem check_plan_roundtrip:
  assumes "repr_contract rt" "repr_reads rt" "limits_ok L" "4 \<le> kl_depth L" "4 \<le> recursion"
  shows "parse_check_plan rt recursion raw (Some L) = Inr p \<longleftrightarrow>
    check_plan_ok rt p \<and> raw = CheckPlan_to_bytes rt p \<and> int (length raw) \<le> kl_plan_bytes L
    \<and> int (length (kp_inputs p)) \<le> kl_inputs L \<and> int (length (kp_rules p)) \<le> kl_rules L
    \<and> 3 * int (length raw) + json_nodes (CheckPlan_to_dict p) \<le> kl_work L \<and> json_nodes (CheckPlan_to_dict p) \<le> kl_nodes L"
  using parse_check_plan_Inr [OF assms] by auto

lemma check_plan_roundtrip_witness:
  "parse_check_plan sample_runtime 100 plan_bytes (Some default_check_limits) = Inr sample_check_plan"
proof -
  have "4 \<le> kl_depth default_check_limits" by (simp add: default_check_limits_def)
  then show ?thesis
    using check_plan_roundtrip [OF sample_repr sample_reads(1) default_limits_ok, of 100 plan_bytes sample_check_plan] sample_check_plan_ok
      plan_length plan_nodes_bound(1)
    by (simp add: default_check_limits_def plan_bytes_def) (simp add: sample_check_plan_def)
qed

text \<open>
  C40. What the gate reports rests on the workflow and the bytes: the claim is one of the replayed workflow, the retained plan is
  the pinned one, byte for byte, every input of the plan is an artifact of the workflow that is bound to the claim and whose
  retained bytes match its commitment, and the result counts as accepted exactly when the claim is approved and every rule
  passes on those bytes. An accepted claim has its quorum of reviewers of the scope, none of them an author.
\<close>

theorem accepted_claims_checked:
  assumes "ledger_runtime rt" "repr_reads rt" "bundle_ok rt b" "limits_ok L" "4 \<le> kl_depth L" "4 \<le> recursion"
    and "verify_claim_checks rt recursion b authority policy contents (JStr head) (JStr evidence) (Some L) = Inr c"
  shows "\<exists>state claim p. replay_workflow rt b authority (Some head) = Inr state
    \<and> map_of (ws_claims state) (kq_claim policy) = Some claim
    \<and> retained_bytes contents (kq_plan_artifact policy) = CheckPlan_to_bytes rt p \<and> CheckPlan_digest rt p = kq_plan policy
    \<and> (\<forall>a \<in> set (kp_inputs p). a \<in> set (wb_artifacts b) \<and> ar_id a \<in> set (cw_artifacts claim)
         \<and> map_of contents (ar_id a) = Some (retained_bytes contents (ar_id a))
         \<and> ArtifactReference_matches rt a (retained_bytes contents (ar_id a)))
    \<and> (accepted c \<longleftrightarrow> cw_status claim = APPROVED
         \<and> (\<forall>r \<in> set (kp_rules p). rule_verdict r (\<lambda>i. document_value recursion (retained_bytes contents i))
              (retained_bytes contents) = PASSED))
    \<and> (accepted c \<longrightarrow> ap_quorum authority \<le> int (length (cw_approvals claim))
         \<and> set (cw_authors claim) \<inter> set (cw_approvals claim) = {}
         \<and> (\<forall>i \<in> set (cw_approvals claim). acts authority (cw_scope claim) REVIEWER i))"
proof -
  obtain state claim p where gate: "replay_workflow rt b authority (Some head) = Inr state"
    "map_of (ws_claims state) (kq_claim policy) = Some claim" "gate_holds rt recursion L b authority policy claim evidence contents p"
    "c = checked rt b authority policy claim head evidence p (plan_evaluation rt recursion p (retained_bytes contents))"
    using assms(7) verify_claim_checks_Inr [OF assms(1-6)] by metis
  have inv: "claim_inv authority b claim" by (rule replayed_claim(2) [OF assms(1,3) gate(1,2)])
  have ok: "inventory_ok b claim policy contents p" "plan_admitted rt recursion L p (retained_bytes contents)"
    "retained_bytes contents (kq_plan_artifact policy) = CheckPlan_to_bytes rt p" "CheckPlan_digest rt p = kq_plan policy"
    using gate(3) by (simp_all add: gate_holds_def)
  have accepted: "accepted c \<longleftrightarrow> cw_status claim = APPROVED
      \<and> (\<forall>r \<in> set (kp_rules p). rule_verdict r (\<lambda>i. document_value recursion (retained_bytes contents i)) (retained_bytes contents) = PASSED)"
    unfolding gate(4) checked_accepted evaluation_passes ..
  show ?thesis
    using gate(1,2) ok inventory_input [OF ok(1)] accepted inv
    by (intro exI [of _ state] exI [of _ claim] exI [of _ p]) (auto simp: plan_admitted_def claim_inv_def claim_ok_def)
qed

lemma accepted_claims_checked_witness:
  "accepted sample_checked
    \<and> (\<exists>state claim. replay_workflow sample_runtime gate_bundle sample_authority (Some gate_head) = Inr state
      \<and> map_of (ws_claims state) (U ''fire'') = Some claim \<and> cw_status claim = APPROVED \<and> 2 \<le> int (length (cw_approvals claim)))"
proof -
  have depth: "4 \<le> kl_depth default_check_limits" by (simp add: default_check_limits_def)
  have policy: "kq_claim sample_check_policy = U ''fire''" "ap_quorum sample_authority = 2"
    by (simp_all add: sample_check_policy_def sample_authority_def)
  have "4 \<le> (100 :: nat)" by simp
  note facts = accepted_claims_checked [OF sample_ledger_runtime sample_reads(1) sample_gate(1) default_limits_ok depth this sample_gate(2)]
  show ?thesis using facts sample_checked_accepted unfolding policy by blast
qed

end
